(* ===== verification/Cheops_Prelude.thy ===== *)
theory Cheops_Prelude
  imports Main "HOL-Library.Word" "HOL-Library.Signed_Division" "HOL-Library.Multiset"
begin

text \<open>
  What every component theory shares: the fixed-width types of \<^verbatim>\<open>cheops-types.h\<close>, the
  conversion of a C expression to \<^verbatim>\<open>int\<close>, the byte orders of the wire format, the
  lists that the C code keeps as singly linked lists, and C strings.

  The target is the one the code is written for: an LP64 little-endian host (its casts
  between pointers and \<^verbatim>\<open>unsigned long\<close> require LP64), so \<^verbatim>\<open>int\<close> has 32 bits,
  \<^verbatim>\<open>long\<close>, \<^verbatim>\<open>size_t\<close> and pointers have 64, and \<^verbatim>\<open>htonl\<close> reverses the bytes.
\<close>

unbundle bit_operations_syntax

named_theorems wire_simps \<open>byte-order round trips and lengths\<close>
named_theorems clist_simps \<open>linked-list operations\<close>

section \<open>Machine integers\<close>

type_synonym u8 = "8 word"
type_synonym u16 = "16 word"
type_synonym u32 = "32 word"
type_synonym u64 = "64 word"

text \<open>The value that an \<^verbatim>\<open>int\<close> holds after it is assigned a wider integer.\<close>

definition to_int32 :: "int \<Rightarrow> int" where
  "to_int32 x = signed_take_bit 31 x"

lemma to_int32_id: "- 2147483648 \<le> x \<Longrightarrow> x \<le> 2147483647 \<Longrightarrow> to_int32 x = x"
  by (simp add: to_int32_def signed_take_bit_int_eq_self)

lemma to_int32_range: "- (2 ^ 31) \<le> to_int32 x \<and> to_int32 x < 2 ^ 31"
  unfolding to_int32_def
  using signed_take_bit_int_less_exp [of 31 x] signed_take_bit_int_greater_eq_minus_exp [of 31 x]
  by simp

text \<open>C division truncates towards zero; these are its facts for a positive divisor.\<close>

lemma sdiv_pos: "0 \<le> (a::int) \<Longrightarrow> 0 < b \<Longrightarrow> a sdiv b = a div b"
  by (simp add: signed_divide_int_def sgn_if)

lemma smod_pos: "0 \<le> (a::int) \<Longrightarrow> 0 < b \<Longrightarrow> a smod b = a mod b"
  by (simp add: smod_mod_positive)

lemma sdiv_smod: "(a::int) sdiv b * b + a smod b = a"
  using smod_sdiv_mult_eq [of a b] by simp

lemma smod_bound: "0 < (b::int) \<Longrightarrow> \<bar>a smod b\<bar> < b"
  using smod_int_range [of b a] by auto

lemma ucast_u64_u32 [simp]: "ucast (ucast w :: u64) = (w :: u32)"
  by (rule bit_word_eqI) (simp add: bit_unsigned_iff)

lemma ucast_u32_u16 [simp]: "ucast (ucast w :: u32) = (w :: u16)"
  by (rule bit_word_eqI) (simp add: bit_unsigned_iff)

section \<open>Byte order\<close>

definition be16 :: "u16 \<Rightarrow> u8 list" where
  "be16 w = [ucast (drop_bit 8 w), ucast w]"

definition be32 :: "u32 \<Rightarrow> u8 list" where
  "be32 w = [ucast (drop_bit 24 w), ucast (drop_bit 16 w), ucast (drop_bit 8 w), ucast w]"

definition le32 :: "u32 \<Rightarrow> u8 list" where
  "le32 w = rev (be32 w)"

definition le16 :: "u16 \<Rightarrow> u8 list" where
  "le16 w = rev (be16 w)"

definition le64 :: "u64 \<Rightarrow> u8 list" where
  "le64 w = le32 (ucast w) @ le32 (ucast (drop_bit 32 w))"

fun of_be16 :: "u8 list \<Rightarrow> u16" where
  "of_be16 (a # b # _) = push_bit 8 (ucast a) OR ucast b"
| "of_be16 _ = 0"

fun of_be32 :: "u8 list \<Rightarrow> u32" where
  "of_be32 (a # b # c # d # _) =
     push_bit 24 (ucast a) OR push_bit 16 (ucast b) OR push_bit 8 (ucast c) OR ucast d"
| "of_be32 _ = 0"

definition of_le32 :: "u8 list \<Rightarrow> u32" where
  "of_le32 bs = of_be32 (rev (take 4 bs))"

definition of_le64 :: "u8 list \<Rightarrow> u64" where
  "of_le64 bs = ucast (of_le32 bs) OR push_bit 32 (ucast (of_le32 (drop 4 bs)))"

text \<open>\<^verbatim>\<open>htons\<close>, \<^verbatim>\<open>htonl\<close> and their inverses as the host sees them: a byte swap.\<close>

definition bswap16 :: "u16 \<Rightarrow> u16" where
  "bswap16 w = of_be16 (le16 w)"

definition bswap32 :: "u32 \<Rightarrow> u32" where
  "bswap32 w = of_be32 (le32 w)"

lemma length_be [wire_simps, simp]:
  "length (be16 v) = 2" "length (be32 w) = 4" "length (le16 v) = 2" "length (le32 w) = 4"
  "length (le64 x) = 8"
  by (simp_all add: be16_def be32_def le16_def le32_def le64_def)

lemma bit_of_be16: "bit (of_be16 (a # b # xs)) n \<longleftrightarrow> (if n < 8 then bit b n else bit a (n - 8))"
proof -
  have "bit a (n - 8) \<Longrightarrow> n - 8 < 8" "bit b n \<Longrightarrow> n < 8"
    using bit_imp_le_length [of a "n - 8"] bit_imp_le_length [of b n] by simp_all
  then show ?thesis by (auto simp: bit_simps)
qed

lemma bit_of_be32:
  "bit (of_be32 (a # b # c # d # xs)) n \<longleftrightarrow>
     (if n < 8 then bit d n else if n < 16 then bit c (n - 8)
      else if n < 24 then bit b (n - 16) else bit a (n - 24))"
proof -
  have "bit a (n - 24) \<Longrightarrow> n - 24 < 8" "bit b (n - 16) \<Longrightarrow> n - 16 < 8"
    "bit c (n - 8) \<Longrightarrow> n - 8 < 8" "bit d n \<Longrightarrow> n < 8"
    using bit_imp_le_length [of a "n - 24"] bit_imp_le_length [of b "n - 16"]
      bit_imp_le_length [of c "n - 8"] bit_imp_le_length [of d n] by simp_all
  then show ?thesis by (auto simp: bit_simps)
qed

lemma of_be16_be16 [wire_simps, simp]: "of_be16 (be16 w @ xs) = w"
  unfolding be16_def append_Cons
  by (rule bit_word_eqI) (auto simp del: of_be16.simps simp add: bit_of_be16 bit_unsigned_iff bit_drop_bit_eq)

lemma of_be32_be32 [wire_simps, simp]: "of_be32 (be32 w @ xs) = w"
  unfolding be32_def append_Cons
  by (rule bit_word_eqI) (auto simp del: of_be32.simps simp add: bit_of_be32 bit_unsigned_iff bit_drop_bit_eq)

lemma of_be32_be32_nil [wire_simps, simp]: "of_be32 (be32 w) = w"
  using of_be32_be32 [of w "[]"] by simp

lemma of_be16_be16_nil [wire_simps, simp]: "of_be16 (be16 w) = w"
  using of_be16_be16 [of w "[]"] by simp

lemma of_le32_le32 [wire_simps, simp]: "of_le32 (le32 w @ xs) = w"
  by (simp add: of_le32_def le32_def)

lemma join_halves: "ucast (ucast w :: u32) OR push_bit 32 (ucast (ucast (drop_bit 32 w) :: u32)) = (w :: u64)"
proof (rule bit_word_eqI)
  fix n assume "n < LENGTH(64)"
  then show "bit ((ucast (ucast w :: u32) :: u64) OR push_bit 32 (ucast (ucast (drop_bit 32 w) :: u32))) n
      = bit w n"
    by (cases "n < 32")
      (auto simp: bit_or_iff bit_push_bit_iff bit_unsigned_iff bit_drop_bit_eq)
qed

lemma of_le64_le64 [wire_simps, simp]: "of_le64 (le64 w @ xs) = w"
proof -
  have "drop 4 (le64 w @ xs) = le32 (ucast (drop_bit 32 w)) @ xs"
    by (simp add: le64_def)
  moreover have "of_le32 (le64 w @ xs) = ucast w"
    by (simp add: le64_def)
  moreover have "of_le32 (le32 (ucast (drop_bit 32 w)) @ xs) = ucast (drop_bit 32 w)"
    by (rule of_le32_le32)
  ultimately show ?thesis
    by (simp add: of_le64_def join_halves)
qed

lemma bytes_of_be32: "be32 (of_be32 [a, b, c, d]) = [a, b, c, d]"
  unfolding be32_def
  by (simp del: of_be32.simps, intro conjI; rule bit_word_eqI)
    (simp_all del: of_be32.simps add: bit_of_be32 bit_unsigned_iff bit_drop_bit_eq)

lemma bytes_of_be16: "be16 (of_be16 [a, b]) = [a, b]"
  unfolding be16_def
  by (simp del: of_be16.simps, intro conjI; rule bit_word_eqI)
    (simp_all del: of_be16.simps add: bit_of_be16 bit_unsigned_iff bit_drop_bit_eq)

lemma bswap32_involution [wire_simps, simp]: "bswap32 (bswap32 w) = w"
proof -
  obtain a b c d where w: "be32 w = [a, b, c, d]" by (simp add: be32_def)
  then have "le32 (of_be32 (le32 w)) = be32 w"
    by (simp del: of_be32.simps add: le32_def bytes_of_be32)
  then show ?thesis by (simp add: bswap32_def)
qed

lemma bswap16_involution [wire_simps, simp]: "bswap16 (bswap16 w) = w"
proof -
  obtain a b where w: "be16 w = [a, b]" by (simp add: be16_def)
  then have "le16 (of_be16 (le16 w)) = be16 w"
    by (simp del: of_be16.simps add: le16_def bytes_of_be16)
  then show ?thesis by (simp add: bswap16_def)
qed

lemma bswap32_inj [simp]: "bswap32 a = bswap32 b \<longleftrightarrow> a = b"
  by (metis bswap32_involution)

section \<open>Linked lists\<close>

text \<open>
  Unlinking the first element that satisfies a test, the loop that walks a list with a
  \<^verbatim>\<open>prev\<close> pointer and stops at the hit.
\<close>

fun remove_first :: "('a \<Rightarrow> bool) \<Rightarrow> 'a list \<Rightarrow> 'a list" where
  "remove_first P [] = []"
| "remove_first P (x # xs) = (if P x then xs else x # remove_first P xs)"

text \<open>Writing to the first element that satisfies a test.\<close>

fun update_first :: "('a \<Rightarrow> bool) \<Rightarrow> ('a \<Rightarrow> 'a) \<Rightarrow> 'a list \<Rightarrow> 'a list" where
  "update_first P f [] = []"
| "update_first P f (x # xs) = (if P x then f x # xs else x # update_first P f xs)"

lemma length_update_first [clist_simps, simp]: "length (update_first P f xs) = length xs"
  by (induction xs) auto

lemma length_remove_first [clist_simps]:
  "length (remove_first P xs) = (if \<exists>x \<in> set xs. P x then length xs - 1 else length xs)"
proof (induction xs)
  case (Cons x xs)
  then show ?case by (cases xs) auto
qed simp

lemma remove_first_none [clist_simps]: "(\<And>x. x \<in> set xs \<Longrightarrow> \<not> P x) \<Longrightarrow> remove_first P xs = xs"
  by (induction xs) auto

lemma set_remove_first_subset: "set (remove_first P xs) \<subseteq> set xs"
  by (induction xs) auto

lemma remove_first_split:
  "remove_first P xs = takeWhile (\<lambda>x. \<not> P x) xs @ drop 1 (dropWhile (\<lambda>x. \<not> P x) xs)"
  by (induction xs) auto

lemma sorted_wrt_remove_first: "sorted_wrt R xs \<Longrightarrow> sorted_wrt R (remove_first P xs)"
  by (induction xs) (auto dest: set_remove_first_subset [THEN subsetD])

lemma mset_remove_first_find:
  "find P xs = Some x \<Longrightarrow> mset xs = add_mset x (mset (remove_first P xs))"
  by (induction xs) (auto split: if_splits)

lemma find_None_remove_first: "find P xs = None \<Longrightarrow> remove_first P xs = xs"
  by (induction xs) (auto split: if_splits)

lemma distinct_map_remove_first:
  "distinct (map f xs) \<Longrightarrow> distinct (map f (remove_first P xs))"
  by (induction xs) (auto dest: set_remove_first_subset [THEN subsetD])

lemma remove_first_key:
  "distinct (map f xs) \<Longrightarrow> remove_first (\<lambda>x. f x = k) xs = filter (\<lambda>x. f x \<noteq> k) xs"
proof (induction xs)
  case (Cons x xs)
  show ?case
  proof (cases "f x = k")
    case True
    with Cons.prems have "k \<notin> f ` set xs" by auto
    then have "filter (\<lambda>x. f x \<noteq> k) xs = xs" by (auto intro: filter_True)
    with True show ?thesis by simp
  qed (use Cons in simp)
qed simp

lemma sorted_dropWhile_later:
  assumes "sorted (map f xs)" "x \<in> set (dropWhile (\<lambda>c. f c \<le> t) xs)"
  shows "t < f x"
  using assms
proof (induction xs)
  case (Cons y xs)
  then show ?case by (cases "f y \<le> t") (auto dest: order.strict_trans2)
qed simp

lemma map_upt_from_1:
  "map f [Suc 0..<Suc (Suc n)] = f (Suc 0) # map (\<lambda>k. f (Suc k)) [Suc 0..<Suc n]"
proof -
  have "[Suc 0..<Suc (Suc n)] = Suc 0 # map Suc [Suc 0..<Suc n]"
    by (simp add: upt_conv_Cons map_Suc_upt del: upt_Suc)
  then show ?thesis by (simp add: comp_def del: upt_Suc)
qed

section \<open>C strings\<close>

text \<open>
  A C string is the list of its characters before the terminating NUL, which the list does
  not hold.
\<close>

type_synonym cstring = string

abbreviation NUL :: char where "NUL \<equiv> CHR 0x00"

definition byte_of_char :: "char \<Rightarrow> u8" where
  "byte_of_char c = word_of_nat (of_char c)"

definition char_of_byte :: "u8 \<Rightarrow> char" where
  "char_of_byte b = char_of (unat b)"

lemma char_of_byte_of_char [simp]: "char_of_byte (byte_of_char c) = c"
  by (simp add: char_of_byte_def byte_of_char_def unat_of_nat)

lemma byte_of_char_of_byte [simp]: "byte_of_char (char_of_byte b) = b"
proof -
  have "unat b < 256" using unsigned_less [of b, where ?'a = nat] by simp
  then show ?thesis by (simp add: char_of_byte_def byte_of_char_def)
qed

lemma byte_of_char_eq_0 [simp]: "byte_of_char c = 0 \<longleftrightarrow> c = NUL"
proof
  assume "byte_of_char c = 0"
  then have "char_of_byte (byte_of_char c) = char_of_byte 0" by (rule arg_cong)
  then have "c = char_of_byte 0" by (simp only: char_of_byte_of_char)
  then show "c = NUL" by (simp add: char_of_byte_def char_of_def)
qed (simp add: byte_of_char_def)

text \<open>The bytes that \<^verbatim>\<open>strcpy\<close> writes, and the string that starts at a byte.\<close>

definition cstr_bytes :: "cstring \<Rightarrow> u8 list" where
  "cstr_bytes s = map byte_of_char s @ [0]"

definition bytes_cstr :: "u8 list \<Rightarrow> cstring" where
  "bytes_cstr bs = map char_of_byte (takeWhile (\<lambda>b. b \<noteq> 0) bs)"

lemma length_cstr_bytes [wire_simps, simp]: "length (cstr_bytes s) = Suc (length s)"
  by (simp add: cstr_bytes_def)

lemma bytes_cstr_cstr_bytes [wire_simps]:
  "NUL \<notin> set s \<Longrightarrow> bytes_cstr (cstr_bytes s @ xs) = s"
  by (induction s) (auto simp: bytes_cstr_def cstr_bytes_def)

section \<open>Outcomes\<close>

text \<open>
  What a C function can do: return, end the process with \<^verbatim>\<open>exit\<close>, or leave the language
  by an access outside an object or to a freed one. \<open>NoFuel\<close> is none of these: it says that
  the fuel of a model of a loop was too small.
\<close>

datatype 'a outcome = Ret 'a | Exit int | UB | NoFuel

primrec obind :: "'a outcome \<Rightarrow> ('a \<Rightarrow> 'b outcome) \<Rightarrow> 'b outcome" where
  "obind (Ret x) f = f x"
| "obind (Exit n) f = Exit n"
| "obind UB f = UB"
| "obind NoFuel f = NoFuel"

lemma obind_Ret_iff [simp]: "obind m f = Ret y \<longleftrightarrow> (\<exists>x. m = Ret x \<and> f x = Ret y)"
  by (cases m) auto

lemma Ret_obind_iff [simp]: "Ret y = obind m f \<longleftrightarrow> (\<exists>x. m = Ret x \<and> f x = Ret y)"
  by (cases m) auto

lemma obind_assoc [simp]: "obind (obind m f) g = obind m (\<lambda>x. obind (f x) g)"
  by (cases m) auto

lemma obind_Ret_right [simp]: "obind m Ret = m"
  by (cases m) auto

text \<open>Reading and writing an array, and reading an allocated cell.\<close>

definition aget :: "'a list \<Rightarrow> nat \<Rightarrow> 'a outcome" where
  "aget xs i = (if i < length xs then Ret (xs ! i) else UB)"

definition aset :: "'a list \<Rightarrow> nat \<Rightarrow> 'a \<Rightarrow> 'a list outcome" where
  "aset xs i v = (if i < length xs then Ret (xs[i := v]) else UB)"

definition deref :: "('p \<Rightarrow> 'v option) \<Rightarrow> 'p \<Rightarrow> 'v outcome" where
  "deref h p = (case h p of None \<Rightarrow> UB | Some v \<Rightarrow> Ret v)"

lemma aget_Ret [simp]: "aget xs i = Ret v \<longleftrightarrow> i < length xs \<and> v = xs ! i"
  by (auto simp: aget_def)

lemma aset_Ret [simp]: "aset xs i v = Ret ys \<longleftrightarrow> i < length xs \<and> ys = xs[i := v]"
  by (auto simp: aset_def)

lemma deref_Ret [simp]: "deref h p = Ret v \<longleftrightarrow> h p = Some v"
  by (auto simp: deref_def split: option.splits)

end
