(* ===== verification/Sched.thy ===== *)
theory Sched
  imports Cheops_Prelude
begin

text \<open>
  The timer queue of the agent, \<^verbatim>\<open>sched.c\<close>: absolute times, the queue kept in the order
  of the events, the cache of unused entries, and the loop that runs what is due.

  \<^verbatim>\<open>gettimeofday\<close> is an argument: \<^theory_text>\<open>None\<close> is a call that fails. The mutexes are
  left out, each operation being one critical section. Seconds and microseconds are
  unbounded here (64-bit in C); what is narrowed to an \<^verbatim>\<open>int\<close> is narrowed here too, and the
  counter that numbers the timers is an \<^verbatim>\<open>int\<close> that wraps. So the numbers are new, as the
  comment in \<^verbatim>\<open>cheops_sched_del\<close> concedes, only as long as the counter has not run out: what rests on
  that counts the timers set since the program started.
\<close>

section \<open>Times\<close>

datatype timeval = TV (tv_sec: int) (tv_usec: int)

text \<open>The macro \<^verbatim>\<open>SOONER\<close>.\<close>

definition SOONER :: "timeval \<Rightarrow> timeval \<Rightarrow> bool" where
  "SOONER a b \<longleftrightarrow> tv_sec b > tv_sec a \<or> (tv_sec b = tv_sec a \<and> tv_usec b > tv_usec a)"

instantiation timeval :: linorder
begin

definition less_eq_timeval :: "timeval \<Rightarrow> timeval \<Rightarrow> bool" where
  "less_eq_timeval a b \<longleftrightarrow> \<not> SOONER b a"

definition less_timeval :: "timeval \<Rightarrow> timeval \<Rightarrow> bool" where
  "less_timeval a b \<longleftrightarrow> SOONER a b"

instance
proof
  fix x y z :: timeval
  show "x < y \<longleftrightarrow> x \<le> y \<and> \<not> y \<le> x"
    unfolding less_eq_timeval_def less_timeval_def SOONER_def by linarith
  show "x \<le> x"
    by (simp add: less_eq_timeval_def SOONER_def)
  show "x \<le> z" if "x \<le> y" "y \<le> z"
    using that unfolding less_eq_timeval_def SOONER_def by linarith
  show "x \<le> y \<or> y \<le> x"
    unfolding less_eq_timeval_def SOONER_def by linarith
  show "x = y" if "x \<le> y" "y \<le> x"
    by (rule timeval.expand) (use that in \<open>auto simp: less_eq_timeval_def SOONER_def\<close>)
qed

end

lemma less_timeval_iff:
  "a < b \<longleftrightarrow> tv_sec a < tv_sec b \<or> tv_sec a = tv_sec b \<and> tv_usec a < tv_usec b"
  unfolding less_timeval_def SOONER_def by auto

lemma SOONER_less [simp]: "SOONER a b \<longleftrightarrow> a < b"
  by (simp only: less_timeval_def)

text \<open>A time in microseconds, and the times that \<^verbatim>\<open>gettimeofday\<close> returns.\<close>

definition tv_us :: "timeval \<Rightarrow> int" where
  "tv_us t = tv_sec t * 1000000 + tv_usec t"

definition normal :: "timeval \<Rightarrow> bool" where
  "normal t \<longleftrightarrow> 0 \<le> tv_usec t \<and> tv_usec t < 1000000"

lemma normal_less_iff: "normal a \<Longrightarrow> normal b \<Longrightarrow> a < b \<longleftrightarrow> tv_us a < tv_us b"
  by (auto simp: normal_def tv_us_def less_timeval_iff)

section \<open>State\<close>

record ('c, 'd) sched =
  sd_id :: int
  sd_when :: timeval
  sd_resched :: int
  sd_data :: 'd
  sd_callback :: 'c

record ('c, 'd) sched_state =
  eventcnt :: int
  schedcnt :: int
  schedq :: "('c, 'd) sched list"
  schedc :: "('c, 'd) sched list"
  schedccnt :: int

definition SCHED_MAX_CACHE :: int where "SCHED_MAX_CACHE = 128"

definition sched_init :: "('c, 'd) sched_state" where
  "sched_init = \<lparr>eventcnt = 1, schedcnt = 0, schedq = [], schedc = [], schedccnt = 0\<rparr>"

section \<open>Operations\<close>

text \<open>
  \<^verbatim>\<open>malloc\<close> is the argument \<open>m\<close>: \<^theory_text>\<open>None\<close> when it returns \<^verbatim>\<open>NULL\<close>, else a
  block whose contents are not known.
\<close>

definition sched_alloc ::
  "('c, 'd) sched option \<Rightarrow> ('c, 'd) sched_state \<Rightarrow> ('c, 'd) sched option \<times> ('c, 'd) sched_state"
where
  "sched_alloc m st =
     (case schedc st of
        tmp # rest \<Rightarrow> (Some tmp, st\<lparr>schedc := rest, schedccnt := schedccnt st - 1\<rparr>)
      | [] \<Rightarrow> (m, st))"

definition sched_release ::
  "('c, 'd) sched \<Rightarrow> ('c, 'd) sched_state \<Rightarrow> ('c, 'd) sched_state" where
  "sched_release tmp st =
     (if schedccnt st < SCHED_MAX_CACHE
      then st\<lparr>schedc := tmp # schedc st, schedccnt := schedccnt st + 1\<rparr>
      else st)"

definition cheops_sched_wait :: "timeval option \<Rightarrow> ('c, 'd) sched_state \<Rightarrow> int" where
  "cheops_sched_wait now st =
     (case schedq st of
        [] \<Rightarrow> -1
      | s # _ \<Rightarrow>
         (case now of
            None \<Rightarrow> 0
          | Some tv \<Rightarrow>
             let ms = to_int32 ((tv_sec (sd_when s) - tv_sec tv) * 1000);
                 ms = to_int32 (ms + (tv_usec (sd_when s) - tv_usec tv) sdiv 1000)
             in if ms < 0 then 0 else ms))"

text \<open>The walk of \<^verbatim>\<open>schedule\<close>: past every entry that is not later than the new one.\<close>

fun schedule_ins :: "('c, 'd) sched \<Rightarrow> ('c, 'd) sched list \<Rightarrow> ('c, 'd) sched list" where
  "schedule_ins s [] = [s]"
| "schedule_ins s (current # rest) =
     (if SOONER (sd_when s) (sd_when current) then s # current # rest
      else current # schedule_ins s rest)"

definition schedule ::
  "('c, 'd) sched \<Rightarrow> ('c, 'd) sched_state \<Rightarrow> ('c, 'd) sched_state" where
  "schedule s st = st\<lparr>schedq := schedule_ins s (schedq st), schedcnt := schedcnt st + 1\<rparr>"

definition sched_settime :: "timeval option \<Rightarrow> int \<Rightarrow> timeval option" where
  "sched_settime now w =
     (case now of
        None \<Rightarrow> None
      | Some tv \<Rightarrow>
         let sec = tv_sec tv + w sdiv 1000;
             usec = tv_usec tv + (w smod 1000) * 1000
         in if usec > 1000000 then Some (TV (sec + 1) (usec - 1000000))
            else Some (TV sec usec))"

definition cheops_sched_add ::
  "('c, 'd) sched option \<Rightarrow> timeval option \<Rightarrow> int \<Rightarrow> 'c \<Rightarrow> 'd \<Rightarrow> ('c, 'd) sched_state
     \<Rightarrow> int \<times> ('c, 'd) sched_state" where
  "cheops_sched_add m now w callback data st =
     (if w = 0 then (-1, st)
      else (case sched_alloc m st of
              (None, st1) \<Rightarrow> (-1, st1)
            | (Some tmp, st1) \<Rightarrow>
               let tmp = tmp\<lparr>sd_id := eventcnt st1, sd_callback := callback,
                             sd_data := data, sd_resched := w\<rparr>;
                   st2 = st1\<lparr>eventcnt := to_int32 (eventcnt st1 + 1)\<rparr>
               in (case sched_settime now w of
                     None \<Rightarrow> (-1, sched_release tmp st2)
                   | Some t \<Rightarrow> (sd_id tmp, schedule (tmp\<lparr>sd_when := t\<rparr>) st2))))"

definition cheops_sched_del ::
  "int \<Rightarrow> ('c, 'd) sched_state \<Rightarrow> int \<times> ('c, 'd) sched_state" where
  "cheops_sched_del i st =
     (if \<exists>s \<in> set (schedq st). sd_id s = i
      then (0, st\<lparr>schedq := remove_first (\<lambda>s. sd_id s = i) (schedq st),
                  schedcnt := schedcnt st - 1\<rparr>)
      else (-1, st))"

text \<open>
  \<^verbatim>\<open>cheops_sched_runq\<close>. The callbacks run in a world of the scheduler and the rest of the
  program \<open>'e\<close>, in which they may add and delete events; \<open>cb\<close> says what each does and
  what it returns, \<open>clk\<close> reads the clock. The loop has no bound of its own (a callback
  may keep adding events that are due), so it takes fuel.
\<close>

type_synonym ('c, 'd, 'e) callback_sem =
  "'c \<Rightarrow> 'd \<Rightarrow> ('c, 'd) sched_state \<times> 'e \<Rightarrow> int \<times> ('c, 'd) sched_state \<times> 'e"

definition runq_one ::
  "('e \<Rightarrow> timeval option \<times> 'e) \<Rightarrow> ('c, 'd, 'e) callback_sem \<Rightarrow> ('c, 'd) sched
     \<Rightarrow> ('c, 'd) sched_state \<times> 'e \<Rightarrow> ('c, 'd) sched_state \<times> 'e" where
  "runq_one clk cb current w =
     (case cb (sd_callback current) (sd_data current) w of
        (r, st, e) \<Rightarrow>
          if r \<noteq> 0
          then (case clk e of
                  (now, e') \<Rightarrow>
                    (case sched_settime now (sd_resched current) of
                       None \<Rightarrow> (sched_release current st, e')
                     | Some t \<Rightarrow> (schedule (current\<lparr>sd_when := t\<rparr>) st, e')))
          else (sched_release current st, e))"

fun cheops_sched_runq ::
  "nat \<Rightarrow> ('e \<Rightarrow> timeval option \<times> 'e) \<Rightarrow> ('c, 'd, 'e) callback_sem \<Rightarrow> int
     \<Rightarrow> ('c, 'd) sched_state \<times> 'e \<Rightarrow> (int \<times> ('c, 'd) sched_state \<times> 'e) option" where
  "cheops_sched_runq 0 clk cb x w = None"
| "cheops_sched_runq (Suc n) clk cb x (st, e) =
     (case schedq st of
        [] \<Rightarrow> Some (x, st, e)
      | current # rest \<Rightarrow>
         (case clk e of
            (None, e1) \<Rightarrow> Some (0, st, e1)
          | (Some tv, e1) \<Rightarrow>
             let tv = TV (tv_sec tv) (tv_usec tv + 1000) in
             if SOONER (sd_when current) tv
             then cheops_sched_runq n clk cb (x + 1)
                    (runq_one clk cb current
                      (st\<lparr>schedq := rest, schedcnt := schedcnt st - 1\<rparr>, e1))
             else Some (x, st, e1)))"

section \<open>The queue\<close>

lemma schedule_ins_split:
  "schedule_ins s q = takeWhile (\<lambda>c. sd_when c \<le> sd_when s) q @ s
     # dropWhile (\<lambda>c. sd_when c \<le> sd_when s) q"
  by (induction q) (auto simp: not_le)

lemma mset_schedule_ins [simp]: "mset (schedule_ins s q) = add_mset s (mset q)"
  by (induction q) auto

lemma set_schedule_ins [simp]: "set (schedule_ins s q) = insert s (set q)"
  by (induction q) auto

lemma length_schedule_ins [simp]: "length (schedule_ins s q) = Suc (length q)"
  by (induction q) auto

lemma sorted_schedule_ins:
  "sorted (map sd_when q) \<Longrightarrow> sorted (map sd_when (schedule_ins s q))"
  by (induction q) auto

lemma distinct_ids_schedule_ins:
  "distinct (map sd_id (schedule_ins s q)) \<longleftrightarrow> sd_id s \<notin> sd_id ` set q \<and> distinct (map sd_id q)"
  by (induction q) auto

text \<open>
  What the queue is at every moment between two operations: sorted by time, counted, with
  ids that are unique and already given out; and the cache counted and bounded.
\<close>

definition sched_inv :: "('c, 'd) sched_state \<Rightarrow> bool" where
  "sched_inv st \<longleftrightarrow>
     sorted (map sd_when (schedq st)) \<and> schedcnt st = int (length (schedq st)) \<and>
     distinct (map sd_id (schedq st)) \<and> (\<forall>s \<in> set (schedq st). sd_id s < eventcnt st) \<and>
     schedccnt st = int (length (schedc st)) \<and> schedccnt st \<le> SCHED_MAX_CACHE \<and> 0 < eventcnt st"

lemma sched_invD:
  assumes "sched_inv st"
  shows "sorted (map sd_when (schedq st))" "schedcnt st = int (length (schedq st))"
    "distinct (map sd_id (schedq st))" "\<And>s. s \<in> set (schedq st) \<Longrightarrow> sd_id s < eventcnt st"
    "schedccnt st = int (length (schedc st))" "schedccnt st \<le> SCHED_MAX_CACHE"
    "0 < eventcnt st"
  using assms by (auto simp: sched_inv_def)

lemma sched_inv_init: "sched_inv sched_init"
  by (simp add: sched_inv_def sched_init_def SCHED_MAX_CACHE_def)

lemma sched_inv_alloc:
  "sched_inv st \<Longrightarrow> sched_alloc m st = (tmp, st') \<Longrightarrow>
     sched_inv st' \<and> schedq st' = schedq st \<and> eventcnt st' = eventcnt st"
  by (auto simp: sched_alloc_def sched_inv_def split: list.splits)

lemma sched_inv_release: "sched_inv st \<Longrightarrow> sched_inv (sched_release s st)"
  by (auto simp: sched_release_def sched_inv_def)

lemma sched_release_frame [simp]:
  "schedq (sched_release s st) = schedq st" "eventcnt (sched_release s st) = eventcnt st"
  by (simp_all add: sched_release_def)

lemma schedule_frame [simp]: "eventcnt (schedule s st) = eventcnt st"
  by (simp add: schedule_def)

lemma sched_inv_schedule:
  "sched_inv st \<Longrightarrow> sd_id s \<notin> sd_id ` set (schedq st) \<Longrightarrow> sd_id s < eventcnt st \<Longrightarrow>
     sched_inv (schedule s st)"
  by (auto simp: sched_inv_def schedule_def sorted_schedule_ins distinct_ids_schedule_ins)

section \<open>Deadlines\<close>

text \<open>
  \<^verbatim>\<open>sched_settime\<close> gives the exact instant; it normalises all but one value, the
  microseconds being able to reach 1000000 (the test is \<^verbatim>\<open>>\<close>).
\<close>

lemma sched_settime_exact:
  assumes "normal tv" "0 \<le> w"
  obtains t where "sched_settime (Some tv) w = Some t" "tv_us t = tv_us tv + w * 1000"
    "0 \<le> tv_usec t" "tv_usec t \<le> 1000000"
proof -
  let ?u = "tv_usec tv + (w mod 1000) * 1000"
  have "w = w div 1000 * 1000 + w mod 1000" by simp
  then have us: "tv_sec tv * 1000000 + w div 1000 * 1000000 + ?u = tv_us tv + w * 1000"
    unfolding tv_us_def by linarith
  have bounds: "0 \<le> ?u" "?u < 2000000" using assms by (auto simp: normal_def)
  show ?thesis
  proof (rule that)
    show "sched_settime (Some tv) w =
        Some (if ?u > 1000000 then TV (tv_sec tv + w div 1000 + 1) (?u - 1000000)
              else TV (tv_sec tv + w div 1000) ?u)"
      using assms by (simp add: sched_settime_def Let_def sdiv_pos smod_pos)
  qed (use us bounds in \<open>auto simp: tv_us_def distrib_right\<close>)
qed

lemma sched_settime_None [simp]: "sched_settime None w = None"
  by (simp add: sched_settime_def)

lemma sched_settime_Some: "\<exists>t. sched_settime (Some tv) w = Some t"
  by (simp add: sched_settime_def Let_def)

section \<open>Adding and deleting\<close>

lemma cheops_sched_add_cases:
  assumes "sched_inv st" "eventcnt st < 2147483647" "cheops_sched_add m now w c d st = (i, st')"
  obtains (failed) "i = -1" "schedq st' = schedq st" "eventcnt st \<le> eventcnt st'"
      "eventcnt st' \<le> eventcnt st + 1" "sched_inv st'"
  | (added) t where "i = eventcnt st" "eventcnt st' = eventcnt st + 1"
      "sched_settime now w = Some t" "w \<noteq> 0"
      "schedq st' = schedule_ins \<lparr>sd_id = i, sd_when = t, sd_resched = w, sd_data = d,
         sd_callback = c\<rparr> (schedq st)" "sched_inv st'"
proof -
  obtain tmp st1 where a: "sched_alloc m st = (tmp, st1)" by fastforce
  from sched_inv_alloc [OF assms(1) a] have inv1: "sched_inv st1"
    and q1: "schedq st1 = schedq st" and e1: "eventcnt st1 = eventcnt st" by auto
  have nxt: "to_int32 (eventcnt st1 + 1) = eventcnt st1 + 1"
    using assms(2) sched_invD(7) [OF assms(1)] e1 by (intro to_int32_id) auto
  have inv2: "sched_inv (st1\<lparr>eventcnt := eventcnt st1 + 1\<rparr>)"
    using inv1 by (auto simp: sched_inv_def less_imp_le le_less_trans zless_add1_eq)
  show ?thesis
  proof (cases "w = 0 \<or> tmp = None \<or> sched_settime now w = None")
    case True
    then show ?thesis
      using assms a inv1 q1 e1 nxt sched_inv_release [OF inv2]
      by (intro failed) (auto simp: cheops_sched_add_def Let_def split: option.splits if_splits)
  next
    case False
    then obtain tmp' t where t: "tmp = Some tmp'" "sched_settime now w = Some t" by auto
    let ?s = "\<lparr>sd_id = i, sd_when = t, sd_resched = w, sd_data = d, sd_callback = c\<rparr>"
    have s: "i = eventcnt st" "st' = schedule ?s (st1\<lparr>eventcnt := eventcnt st1 + 1\<rparr>)"
      using False t assms(3) a e1 nxt by (cases tmp'; auto simp: cheops_sched_add_def Let_def)+
    have "sd_id ?s \<notin> sd_id ` set (schedq (st1\<lparr>eventcnt := eventcnt st1 + 1\<rparr>))"
      using sched_invD(4) [OF inv1] e1 s(1) by fastforce
    then have "sched_inv st'"
      using sched_inv_schedule [OF inv2, of ?s] s e1 by simp
    then show ?thesis
      using s t False e1 q1 by (intro added [of t]) (auto simp: schedule_def)
  qed
qed

lemma cheops_sched_del_inv:
  assumes "sched_inv st"
  shows "sched_inv (snd (cheops_sched_del i st))"
proof -
  have "length (schedq st) \<noteq> 0" if "s \<in> set (schedq st)" for s using that by auto
  then show ?thesis
    using assms set_remove_first_subset [of "\<lambda>s. sd_id s = i" "schedq st"]
      sorted_wrt_remove_first [of "\<lambda>x y. sd_when x \<le> sd_when y" "schedq st" "\<lambda>s. sd_id s = i"]
    by (auto simp: sched_inv_def cheops_sched_del_def sorted_map length_remove_first
        distinct_map_remove_first Suc_le_eq of_nat_diff)
qed

text \<open>
  What a callback may do to the scheduler: any sequence of adds and deletes, here with the number
  of adds.
\<close>

inductive sched_api :: "nat \<Rightarrow> ('c, 'd) sched_state \<Rightarrow> ('c, 'd) sched_state \<Rightarrow> bool" where
  api_nothing: "sched_api 0 st st"
| api_add: "sched_api k st st' \<Longrightarrow> sched_api (Suc k) st (snd (cheops_sched_add m now w c d st'))"
| api_del: "sched_api k st st' \<Longrightarrow> sched_api k st (snd (cheops_sched_del i st'))"

lemma sched_api_inv:
  assumes "sched_api k st st'" "sched_inv st" "eventcnt st + int k \<le> 2147483647"
  shows "sched_inv st' \<and> eventcnt st \<le> eventcnt st' \<and> eventcnt st' \<le> eventcnt st + int k \<and>
    (\<forall>s \<in> set (schedq st'). s \<in> set (schedq st) \<or> eventcnt st \<le> sd_id s)"
  using assms
proof (induction rule: sched_api.induct)
  case (api_add k st st' m now w c d)
  obtain i st'' where r: "cheops_sched_add m now w c d st' = (i, st'')" by fastforce
  from api_add have "sched_inv st'" "eventcnt st' < 2147483647" by auto
  then show ?case
    using r api_add by (cases rule: cheops_sched_add_cases [OF _ _ r]) auto
next
  case (api_del k st st' i)
  then have "sched_inv (snd (cheops_sched_del i st'))" by (simp add: cheops_sched_del_inv)
  moreover have "set (schedq (snd (cheops_sched_del i st'))) \<subseteq> set (schedq st')"
    using set_remove_first_subset [of "\<lambda>s. sd_id s = i" "schedq st'"]
    by (auto simp: cheops_sched_del_def)
  moreover have "eventcnt (snd (cheops_sched_del i st')) = eventcnt st'"
    by (simp add: cheops_sched_del_def)
  ultimately show ?case using api_del by auto
qed simp

section \<open>Running the queue\<close>

text \<open>Callbacks of which each adds at most \<open>k\<close> timers each time it runs.\<close>

definition cb_uses_api :: "nat \<Rightarrow> ('c, 'd, 'e) callback_sem \<Rightarrow> bool" where
  "cb_uses_api k cb \<longleftrightarrow> (\<forall>c d st e. \<exists>j \<le> k. sched_api j st (fst (snd (cb c d (st, e)))))"

lemma sched_inv_pop:
  assumes "sched_inv st" "schedq st = s # rest"
  shows "sched_inv (st\<lparr>schedq := rest, schedcnt := schedcnt st - 1\<rparr>)"
    "sd_id s \<notin> sd_id ` set rest" "sd_id s < eventcnt st"
  using assms by (auto simp: sched_inv_def)

lemma runq_one_inv:
  assumes "cb_uses_api k cb" "sched_inv st" "sd_id s \<notin> sd_id ` set (schedq st)"
    "sd_id s < eventcnt st" "runq_one clk cb s (st, e) = (st', e')"
    "eventcnt st + int k \<le> 2147483647"
  shows "sched_inv st' \<and> eventcnt st \<le> eventcnt st' \<and> eventcnt st' \<le> eventcnt st + int k"
proof -
  obtain r st1 e1 where cb: "cb (sd_callback s) (sd_data s) (st, e) = (r, st1, e1)"
    by (metis prod_cases3)
  obtain j where j: "j \<le> k" "sched_api j st st1"
    using assms(1) cb unfolding cb_uses_api_def by (metis fst_conv snd_conv)
  from sched_api_inv [OF j(2) assms(2)] j(1) assms(6) have inv1: "sched_inv st1" and
    ev: "eventcnt st \<le> eventcnt st1" "eventcnt st1 \<le> eventcnt st + int k" and
    ids: "\<And>x. x \<in> set (schedq st1) \<Longrightarrow> x \<in> set (schedq st) \<or> eventcnt st \<le> sd_id x"
    by auto
  have "sd_id s \<notin> sd_id ` set (schedq st1)"
    using ids assms(3,4) by fastforce
  then have "sched_inv (schedule (s\<lparr>sd_when := t\<rparr>) st1)" for t
    using sched_inv_schedule [OF inv1] assms(4) ev by fastforce
  then show ?thesis
    using assms(5) cb inv1 ev sched_inv_release [OF inv1]
    by (auto simp: runq_one_def split: if_splits prod.splits option.splits)
qed

lemma runq_inv:
  assumes "cb_uses_api k cb" "cheops_sched_runq n clk cb x (st, e) = Some (r, st', e')"
    "sched_inv st" "eventcnt st + int (n * k) \<le> 2147483647"
  shows "sched_inv st' \<and> eventcnt st \<le> eventcnt st' \<and> eventcnt st' \<le> eventcnt st + int (n * k)"
  using assms(2-4)
proof (induction n arbitrary: x st e)
  case (Suc n)
  show ?case
  proof (cases "schedq st")
    case Nil
    with Suc.prems show ?thesis by simp
  next
    case (Cons s rest)
    let ?st = "st\<lparr>schedq := rest, schedcnt := schedcnt st - 1\<rparr>"
    obtain now e1 where clk: "clk e = (now, e1)" by fastforce
    show ?thesis
    proof (cases "\<exists>tv. now = Some tv \<and> sd_when s < TV (tv_sec tv) (tv_usec tv + 1000)")
      case False
      with Suc.prems Cons clk show ?thesis
        by (cases now) (auto simp: Let_def split: if_splits)
    next
      case True
      obtain st1 e2 where one: "runq_one clk cb s (?st, e1) = (st1, e2)" by fastforce
      from Suc.prems(1) Cons clk True one
      have run: "cheops_sched_runq n clk cb (x + 1) (st1, e2) = Some (r, st', e')"
        by (auto simp: Let_def)
      have sum: "int (Suc n * k) = int k + int (n * k)" by simp
      then have room: "eventcnt st + int k \<le> 2147483647" using Suc.prems(3) by linarith
      from sched_inv_pop [OF Suc.prems(2) Cons] runq_one_inv [OF assms(1) _ _ _ one] room
      have "sched_inv st1" "eventcnt st \<le> eventcnt st1" "eventcnt st1 \<le> eventcnt st + int k"
        by auto
      with Suc.IH [OF run] Suc.prems(3) show ?thesis by (auto simp: algebra_simps)
    qed
  qed
qed simp

text \<open>More fuel gives the same result.\<close>

lemma runq_mono:
  "cheops_sched_runq n clk cb x w = Some r \<Longrightarrow> n \<le> n' \<Longrightarrow> cheops_sched_runq n' clk cb x w = Some r"
proof (induction n arbitrary: n' x w)
  case (Suc n)
  obtain m where n': "n' = Suc m" "n \<le> m" using Suc.prems(2) by (cases n') auto
  obtain st e where w: "w = (st, e)" by fastforce
  obtain now e1 where clk: "clk e = (now, e1)" by fastforce
  show ?case
    using Suc.prems(1) unfolding n' w
    by (cases "schedq st"; cases now) (auto simp: Let_def clk split: if_splits intro: Suc.IH [OF _ n'(2)])
qed simp

text \<open>
  The schedulers that the agent can be in after setting at most \<open>k\<close> timers: a run of the queue whose
  callbacks add at most \<open>j\<close> each is counted with \<open>j\<close> for every turn of its fuel.
\<close>

inductive sched_reach :: "nat \<Rightarrow> ('c, 'd) sched_state \<times> 'e \<Rightarrow> bool" where
  sr_init: "sched_reach 0 (sched_init, e)"
| sr_api: "sched_reach k (st, e) \<Longrightarrow> sched_api j st st' \<Longrightarrow> sched_reach (k + j) (st', e')"
| sr_runq: "sched_reach k (st, e) \<Longrightarrow> cb_uses_api j cb \<Longrightarrow>
     cheops_sched_runq n clk cb x (st, e) = Some (r, w') \<Longrightarrow> sched_reach (k + n * j) w'"

lemma sched_reach_inv:
  fixes w :: "('c, 'd) sched_state \<times> 'e"
  shows "sched_reach k w \<Longrightarrow> k < 2147483647 \<Longrightarrow> sched_inv (fst w) \<and> eventcnt (fst w) \<le> 1 + int k"
proof (induction rule: sched_reach.induct)
  case (sr_init e)
  show ?case using sched_inv_init by (simp add: sched_init_def)
next
  case (sr_api k st e j st' e')
  then show ?case using sched_api_inv [OF sr_api.hyps(2)] by simp
next
  case (sr_runq k st e j cb n clk x r w')
  obtain st' e' where w': "w' = (st', e')" by fastforce
  have IH: "sched_inv st" "eventcnt st \<le> 1 + int k" using sr_runq.IH sr_runq.prems by auto
  then have "eventcnt st + int (n * j) \<le> 2147483647" using sr_runq.prems by linarith
  with runq_inv [OF sr_runq.hyps(2) sr_runq.hyps(3) [unfolded w'] IH(1)] IH(2)
  show ?case by (auto simp: w')
qed

subsection \<open>One run with the clock standing still\<close>

text \<open>
  The events that are due at \<open>tv\<close>, the code being content with an accuracy of a
  millisecond, and the entry that a callback's non-zero result puts back.
\<close>

definition due :: "timeval \<Rightarrow> ('c, 'd) sched \<Rightarrow> bool" where
  "due tv s \<longleftrightarrow> sd_when s < TV (tv_sec tv) (tv_usec tv + 1000)"

definition again_at :: "timeval \<Rightarrow> ('c, 'd) sched \<Rightarrow> ('c, 'd) sched" where
  "again_at tv s = s\<lparr>sd_when := the (sched_settime (Some tv) (sd_resched s))\<rparr>"

lemma again_at_not_due:
  assumes "normal tv" "1 \<le> sd_resched s"
  shows "\<not> due tv (again_at tv s)"
proof -
  obtain t where t: "sched_settime (Some tv) (sd_resched s) = Some t"
    "tv_us t = tv_us tv + sd_resched s * 1000" "0 \<le> tv_usec t" "tv_usec t \<le> 1000000"
    using sched_settime_exact [OF assms(1), of "sd_resched s"] assms(2) by auto
  show ?thesis
  proof
    assume "due tv (again_at tv s)"
    then have "t < TV (tv_sec tv) (tv_usec tv + 1000)"
      by (simp add: due_def again_at_def t(1))
    then have "tv_sec t < tv_sec tv \<or> tv_sec t = tv_sec tv \<and> tv_usec t < tv_usec tv + 1000"
      by (simp add: less_timeval_iff)
    then show False
    proof
      assume "tv_sec t < tv_sec tv"
      then have "tv_us t \<le> tv_us tv + tv_usec t - tv_usec tv - 1000000"
        unfolding tv_us_def by linarith
      then show False using t assms unfolding normal_def by linarith
    next
      assume "tv_sec t = tv_sec tv \<and> tv_usec t < tv_usec tv + 1000"
      then show False using t(2) assms(2) unfolding tv_us_def by linarith
    qed
  qed
qed

lemma due_schedule_ins:
  assumes "\<not> due tv s"
  shows "takeWhile (due tv) (schedule_ins s q) = takeWhile (due tv) q"
    "dropWhile (due tv) (schedule_ins s q) = schedule_ins s (dropWhile (due tv) q)"
  using assms by (induction q) (auto simp: due_def)

lemma sorted_due_filter:
  assumes "sorted (map sd_when q)"
  shows "takeWhile (due tv) q = filter (due tv) q"
    "dropWhile (due tv) q = filter (\<lambda>s. \<not> due tv s) q"
proof -
  have "takeWhile (due tv) q = filter (due tv) q \<and> dropWhile (due tv) q = filter (\<lambda>s. \<not> due tv s) q"
    using assms
  proof (induction q)
    case (Cons s q)
    show ?case
    proof (cases "due tv s")
      case False
      have later: "\<not> due tv y" if "y \<in> set q" for y
        using False Cons.prems that by (fastforce simp: due_def)
      with False show ?thesis
        by (simp add: filter_False filter_True later)
    qed (use Cons in simp)
  qed simp
  then show "takeWhile (due tv) q = filter (due tv) q"
    "dropWhile (due tv) q = filter (\<lambda>s. \<not> due tv s) q" by auto
qed

text \<open>
  A run in which the clock shows \<open>tv\<close> throughout and no callback touches the scheduler:
  \<open>obs\<close> is what a callback does to the rest of the program, \<open>ret\<close> what it returns.
\<close>

lemma runq_still:
  assumes clk: "\<And>e. clk e = (Some tv, e)"
    and cb: "\<And>c d st e. cb c d (st, e) = (ret c d, st, obs c d e)"
    and tv: "normal tv" and inv: "sched_inv st"
    and period: "\<forall>s \<in> set (schedq st). 1 \<le> sd_resched s"
    and fuel: "length (takeWhile (due tv) (schedq st)) < n"
  shows "\<exists>st'. cheops_sched_runq n clk cb x (st, e) =
      Some (x + int (length (takeWhile (due tv) (schedq st))), st',
        fold (\<lambda>s. obs (sd_callback s) (sd_data s)) (takeWhile (due tv) (schedq st)) e) \<and>
    sched_inv st' \<and>
    schedq st' = fold schedule_ins
      (map (again_at tv) (filter (\<lambda>s. ret (sd_callback s) (sd_data s) \<noteq> 0)
        (takeWhile (due tv) (schedq st)))) (dropWhile (due tv) (schedq st))"
  using inv period fuel
proof (induction n arbitrary: x st e)
  case (Suc n)
  show ?case
  proof (cases "schedq st")
    case Nil
    with Suc.prems show ?thesis by simp
  next
    case (Cons s rest)
    show ?thesis
    proof (cases "due tv s")
      case False
      with Cons Suc.prems show ?thesis
        by (auto simp: clk Let_def due_def)
    next
      case True
      let ?st = "st\<lparr>schedq := rest, schedcnt := schedcnt st - 1\<rparr>"
      let ?c = "sd_callback s" and ?d = "sd_data s"
      define st1 where "st1 = fst (runq_one clk cb s (?st, e))"
      obtain t where t: "sched_settime (Some tv) (sd_resched s) = Some t"
        using sched_settime_Some by blast
      have one: "runq_one clk cb s (?st, e) = (st1, obs ?c ?d e)"
        and q1: "schedq st1 = (if ret ?c ?d \<noteq> 0 then schedule_ins (again_at tv s) rest else rest)"
        by (auto simp: st1_def runq_one_def cb clk t again_at_def schedule_def)
      have st1: "st1 = (if ret ?c ?d \<noteq> 0 then schedule (again_at tv s) ?st else sched_release s ?st)"
        by (auto simp: st1_def runq_one_def cb clk t again_at_def)
      from sched_inv_pop [OF Suc.prems(1) Cons] sched_inv_release [of ?st]
        sched_inv_schedule [of ?st "again_at tv s"]
      have inv1: "sched_inv st1" by (auto simp: st1 again_at_def)
      have nd: "\<not> due tv (again_at tv s)"
        using again_at_not_due [OF tv, of s] Suc.prems(2) Cons by simp
      have tw: "takeWhile (due tv) (schedq st1) = takeWhile (due tv) rest"
        "dropWhile (due tv) (schedq st1) =
           (if ret ?c ?d \<noteq> 0 then schedule_ins (again_at tv s) (dropWhile (due tv) rest)
            else dropWhile (due tv) rest)"
        by (auto simp: q1 due_schedule_ins [OF nd])
      have step: "cheops_sched_runq (Suc n) clk cb x (st, e) =
          cheops_sched_runq n clk cb (x + 1) (st1, obs ?c ?d e)"
        using True Cons one by (simp add: clk Let_def due_def)
      have "\<forall>s \<in> set (schedq st1). 1 \<le> sd_resched s"
        using Suc.prems(2) Cons by (auto simp: q1 again_at_def split: if_splits)
      moreover have "length (takeWhile (due tv) (schedq st1)) < n"
        using Suc.prems(3) True Cons by (simp add: tw)
      ultimately show ?thesis
        using Suc.IH [OF inv1, of "x + 1" "obs ?c ?d e"] True Cons
        unfolding step tw by (auto simp: add.assoc)
    qed
  qed
qed simp

section \<open>The interface of the timers\<close>

text \<open>
  What the modules that set timers rely on: an added event is pending with a new id and the
  right deadline, a deleted one is not pending, and nothing else changes. The numbers run out:
  \<open>left\<close> is how many there are.
\<close>

locale timers =
  fixes add :: "timeval \<Rightarrow> int \<Rightarrow> 'c \<Rightarrow> 'd \<Rightarrow> 's \<Rightarrow> int \<times> 's"
    and del :: "int \<Rightarrow> 's \<Rightarrow> int \<times> 's"
    and pending :: "'s \<Rightarrow> (int \<times> timeval \<times> 'c \<times> 'd) multiset"
    and ok :: "'s \<Rightarrow> bool"
    and left :: "'s \<Rightarrow> int"
  assumes add_law: "ok s \<Longrightarrow> 0 < left s \<Longrightarrow> normal now \<Longrightarrow> 0 < w \<Longrightarrow> add now w c d s = (i, s') \<Longrightarrow> i \<noteq> -1 \<Longrightarrow>
      ok s' \<and> left s' = left s - 1 \<and> i \<notin> fst ` set_mset (pending s) \<and>
      (\<exists>t. tv_us t = tv_us now + w * 1000 \<and> pending s' = add_mset (i, t, c, d) (pending s))"
    and del_law: "ok s \<Longrightarrow> del i s = (r, s') \<Longrightarrow>
      ok s' \<and> pending s' = filter_mset (\<lambda>p. fst p \<noteq> i) (pending s) \<and>
      (r = 0 \<longleftrightarrow> i \<in> fst ` set_mset (pending s))"
begin

lemma filter_other: "i \<notin> fst ` set_mset M \<Longrightarrow> filter_mset (\<lambda>p. fst p \<noteq> i) M = M"
  by (auto simp: image_iff filter_mset_eq_conv)

lemma cancel:
  assumes "ok s" "0 < left s" "normal now" "0 < w" "add now w c d s = (i, s1)" "i \<noteq> -1"
    "del i s1 = (r, s2)"
  shows "r = 0 \<and> pending s2 = pending s \<and> ok s2"
  using add_law [OF assms(1-6)] del_law [of s1 i r s2] assms(7) by (auto simp: filter_other)

lemma cancel_again:
  assumes "ok s" "del i s = (r, s1)" "del i s1 = (r', s2)"
  shows "r' \<noteq> 0 \<and> pending s2 = pending s1"
proof -
  from del_law [OF assms(1,2)] have 1: "ok s1"
    "pending s1 = filter_mset (\<lambda>p. fst p \<noteq> i) (pending s)" by blast+
  then have none: "i \<notin> fst ` set_mset (pending s1)" by (simp add: image_iff)
  from del_law [OF 1(1) assms(3)] have "pending s2 = filter_mset (\<lambda>p. fst p \<noteq> i) (pending s1)"
    "r' = 0 \<longleftrightarrow> i \<in> fst ` set_mset (pending s1)" by blast+
  with filter_other [OF none] none show ?thesis by simp
qed

lemma cancel_first_of_two:
  assumes "ok s" "1 < left s" "normal now" "0 < w" "0 < w'" "add now w c d s = (i, s1)" "i \<noteq> -1"
    "add now w' c' d' s1 = (j, s2)" "j \<noteq> -1" "del i s2 = (r, s3)"
  shows "\<exists>t. r = 0 \<and> tv_us t = tv_us now + w' * 1000 \<and> pending s3 = add_mset (j, t, c', d') (pending s)"
proof -
  from assms(2) have left: "0 < left s" by simp
  from add_law [OF assms(1) left assms(3,4,6,7)] assms(2) have 1: "ok s1" "0 < left s1" "i \<notin> fst ` set_mset (pending s)"
    and p1: "i \<in> fst ` set_mset (pending s1)" "filter_mset (\<lambda>p. fst p \<noteq> i) (pending s1) = pending s"
    by (auto simp: filter_other)
  from add_law [OF 1(1,2) assms(3,5,8,9)] obtain t where
    2: "ok s2" "j \<notin> fst ` set_mset (pending s1)" "tv_us t = tv_us now + w' * 1000"
      "pending s2 = add_mset (j, t, c', d') (pending s1)" by auto
  with p1 have ij: "i \<noteq> j" by auto
  have d: "r = 0 \<longleftrightarrow> i \<in> fst ` set_mset (pending s2)"
    "pending s3 = filter_mset (\<lambda>p. fst p \<noteq> i) (pending s2)"
    using del_law [OF 2(1) assms(10)] by simp_all
  have "i \<in> fst ` set_mset (pending s2)" using p1(1) by (simp add: 2(4))
  moreover have "pending s3 = add_mset (j, t, c', d') (pending s)"
    using ij p1(2) by (simp add: d(2) 2(4))
  ultimately show ?thesis using 2(3) d(1) by blast
qed

end

definition timer_of :: "('c, 'd) sched \<Rightarrow> int \<times> timeval \<times> 'c \<times> 'd" where
  "timer_of s = (sd_id s, sd_when s, sd_callback s, sd_data s)"

definition sched_pending :: "('c, 'd) sched_state \<Rightarrow> (int \<times> timeval \<times> 'c \<times> 'd) multiset" where
  "sched_pending st = image_mset timer_of (mset (schedq st))"

lemma fst_sched_pending: "fst ` set_mset (sched_pending st) = sd_id ` set (schedq st)"
  by (auto simp: sched_pending_def timer_of_def image_iff)

lemma sched_pending_del:
  assumes "sched_inv st"
  shows "sched_pending (snd (cheops_sched_del i st)) = filter_mset (\<lambda>p. fst p \<noteq> i) (sched_pending st)"
proof -
  have "remove_first (\<lambda>s. sd_id s = i) (schedq st) = filter (\<lambda>s. sd_id s \<noteq> i) (schedq st)"
    using sched_invD(3) [OF assms] by (rule remove_first_key)
  moreover have "filter (\<lambda>s. sd_id s \<noteq> i) (schedq st) = schedq st"
    if "\<not> (\<exists>s \<in> set (schedq st). sd_id s = i)"
    using that by (auto intro: filter_True)
  ultimately show ?thesis
    by (auto simp: sched_pending_def cheops_sched_del_def filter_mset_image_mset timer_of_def
        simp flip: mset_filter)
qed

interpretation schedq: timers "\<lambda>now. cheops_sched_add m (Some now)" cheops_sched_del
  sched_pending sched_inv "\<lambda>st. 2147483647 - eventcnt st"
  for m :: "('c, 'd) sched option"
proof
  fix s s' :: "('c, 'd) sched_state" and now w and c :: 'c and d :: 'd and i
  assume inv: "sched_inv s" and room: "0 < 2147483647 - eventcnt s"
    and n: "normal now" "0 < w" and ne: "i \<noteq> - 1"
    and r: "cheops_sched_add m (Some now) w c d s = (i, s')"
  from room have room: "eventcnt s < 2147483647" by simp
  show "sched_inv s' \<and> 2147483647 - eventcnt s' = 2147483647 - eventcnt s - 1 \<and>
      i \<notin> fst ` set_mset (sched_pending s) \<and>
      (\<exists>t. tv_us t = tv_us now + w * 1000 \<and>
        sched_pending s' = add_mset (i, t, c, d) (sched_pending s))"
    using inv room r
  proof (cases rule: cheops_sched_add_cases)
    case (added t)
    moreover have "tv_us t = tv_us now + w * 1000"
      using sched_settime_exact [of now w] n added(3) by force
    moreover have "i \<notin> fst ` set_mset (sched_pending s)"
      unfolding fst_sched_pending using sched_invD(4) [OF inv] added(1) by fastforce
    ultimately show ?thesis
      by (auto simp: sched_pending_def timer_of_def)
  qed (use ne in simp)
next
  fix s s' :: "('c, 'd) sched_state" and i r
  assume inv: "sched_inv s" and r: "cheops_sched_del i s = (r, s')"
  have "r = 0 \<longleftrightarrow> i \<in> sd_id ` set (schedq s)"
    using r by (auto simp: cheops_sched_del_def split: if_splits)
  then show "sched_inv s' \<and> sched_pending s' = filter_mset (\<lambda>p. fst p \<noteq> i) (sched_pending s) \<and>
      (r = 0 \<longleftrightarrow> i \<in> fst ` set_mset (sched_pending s))"
    using cheops_sched_del_inv [OF inv, of i] sched_pending_del [OF inv, of i] r
      fst_sched_pending [of s] by simp
qed

section \<open>Properties\<close>

lemmas sched_eval = cheops_sched_add_def sched_alloc_def sched_init_def sched_settime_def Let_def
  schedule_def sched_release_def to_int32_id

text \<open>
  C2. In every state the scheduler can reach, through any sequence of additions and
  deletions and any runs of the queue with callbacks that add and delete in turn, as long as
  fewer than 2147483647 timers were ever set (the counter of the ids is an \<^verbatim>\<open>int\<close>), the queue
  is sorted by deadline, \<^verbatim>\<open>schedcnt\<close> counts it, no id occurs twice and the next id is
  unused, and the cache of free entries holds \<^verbatim>\<open>schedccnt\<close> of them, at most
  \<^verbatim>\<open>SCHED_MAX_CACHE\<close>.
\<close>

theorem sched_reachable_wf:
  fixes w :: "('c, 'd) sched_state \<times> 'e"
  assumes "sched_reach k w" and "k < 2147483647"
  shows "sorted (map sd_when (schedq (fst w))) \<and>
    schedcnt (fst w) = int (length (schedq (fst w))) \<and>
    distinct (map sd_id (schedq (fst w))) \<and>
    eventcnt (fst w) \<notin> sd_id ` set (schedq (fst w)) \<and>
    schedccnt (fst w) = int (length (schedc (fst w))) \<and> schedccnt (fst w) \<le> SCHED_MAX_CACHE"
proof -
  have inv: "sched_inv (fst w)" using sched_reach_inv [OF assms] by blast
  then have "eventcnt (fst w) \<notin> sd_id ` set (schedq (fst w))"
    using sched_invD(4) [OF inv] by fastforce
  with inv show ?thesis by (simp add: sched_inv_def)
qed

text \<open>
  Behind the bound: the last number that can be given out is 2147483647, and the timer after it gets
  a negative one, which the clients take for a failure.
\<close>

lemma sched_counter_wraps:
  assumes "eventcnt st = 2147483647" "0 < w" "schedc st = []"
  shows "\<exists>st'. cheops_sched_add (Some m) (Some now) w c d st = (2147483647, st') \<and>
    eventcnt st' = - 2147483648 \<and>
    fst (cheops_sched_add (Some m') (Some now) w c d st') = - 2147483648"
proof -
  have "to_int32 (2147483647 + 1) = - 2147483648" by (simp add: to_int32_def signed_take_bit_eq_take_bit_shift take_bit_eq_mod)
  then show ?thesis
    using assms by (auto simp: cheops_sched_add_def sched_alloc_def sched_settime_def schedule_def Let_def)
qed

text \<open>A block as \<^verbatim>\<open>malloc\<close> may return it, for the concrete runs.\<close>

definition garbage :: "(int, int) sched" where
  "garbage = \<lparr>sd_id = 77, sd_when = TV 5 5, sd_resched = 3, sd_data = 9, sd_callback = 9\<rparr>"

definition two_timers :: "(int, int) sched_state" where
  "two_timers = snd (cheops_sched_add (Some garbage) (Some (TV 100 999000)) 1 7 8
     (snd (cheops_sched_add (Some garbage) (Some (TV 100 0)) 2500 1 2 sched_init)))"

lemma two_timers_reach: "sched_reach 2 (two_timers, [] :: int list)"
proof -
  have "sched_api (Suc (Suc 0)) sched_init two_timers"
    unfolding two_timers_def by (intro api_add api_nothing)
  from sr_api [OF sr_init this] show ?thesis by (simp add: numeral_2_eq_2)
qed

lemma two_timers_inv: "sched_inv two_timers"
  using sched_reach_inv [OF two_timers_reach] by simp

theorem sched_reachable_wf_witness:
  "map sd_id (schedq two_timers) = [2, 1] \<and> schedcnt two_timers = 2 \<and>
   sorted (map sd_when (schedq two_timers))"
  using sched_reachable_wf [OF two_timers_reach]
  by (simp add: two_timers_def sched_eval less_timeval_iff sdiv_pos smod_pos)

text \<open>
  C1. A run of the queue while the clock stands at \<open>tv\<close>, with callbacks that leave the
  scheduler alone: it returns, it has run every event whose time has come (to the
  millisecond), each once, in the order of their deadlines, and no other; the events that
  stay are those that were not due and those whose callback returned non-zero, each of
  these at a new deadline its period later.
\<close>

theorem runq_runs_exactly_due:
  fixes st :: "('c, 'd) sched_state" and e :: 'e
  assumes "\<And>e. clk e = (Some tv, e)"
    and "\<And>c d st e. cb c d (st, e) = (ret c d, st, obs c d e)"
    and "normal tv" and "sched_inv st"
    and "\<forall>s \<in> set (schedq st). 1 \<le> sd_resched s"
    and "length (schedq st) < n"
  shows "\<exists>st'. cheops_sched_runq n clk cb 0 (st, e) =
      Some (int (length (filter (due tv) (schedq st))), st',
        fold (\<lambda>s. obs (sd_callback s) (sd_data s)) (filter (due tv) (schedq st)) e) \<and>
    sched_inv st' \<and>
    mset (schedq st') = mset (filter (\<lambda>s. \<not> due tv s) (schedq st)) +
      mset (map (again_at tv)
        (filter (\<lambda>s. ret (sd_callback s) (sd_data s) \<noteq> 0) (filter (due tv) (schedq st))))"
proof -
  have fold_ins: "mset (fold schedule_ins xs q) = mset q + mset xs" for xs q :: "('c, 'd) sched list"
    by (induction xs arbitrary: q) auto
  note so = sorted_due_filter [OF sched_invD(1) [OF assms(4)], of tv]
  have "length (takeWhile (due tv) (schedq st)) < n"
    using assms(6) le_less_trans length_takeWhile_le by blast
  from runq_still [where ret = ret and obs = obs and x = 0 and e = e,
      OF assms(1-5) this, unfolded so] show ?thesis
    by (metis (no_types, lifting) add_0 fold_ins)
qed

lemma two_timers_queue:
  "schedq two_timers =
     [\<lparr>sd_id = 2, sd_when = TV 100 1000000, sd_resched = 1, sd_data = 8, sd_callback = 7\<rparr>,
      \<lparr>sd_id = 1, sd_when = TV 102 500000, sd_resched = 2500, sd_data = 2, sd_callback = 1\<rparr>]"
  by (simp add: two_timers_def sched_eval less_timeval_iff sdiv_pos smod_pos garbage_def)

theorem runq_runs_exactly_due_witness:
  "\<exists>st'. cheops_sched_runq 3 (\<lambda>e. (Some (TV 102 499001), e))
     (\<lambda>c d (st, e). (c - 1, st, e @ [c + d])) 0 (two_timers, []) = Some (2, st', [15, 3]) \<and>
   mset (map sd_when (schedq st')) = {#TV 102 500001#}"
proof -
  note inv = two_timers_inv
  obtain st' where "cheops_sched_runq 3 (\<lambda>e. (Some (TV 102 499001), e))
      (\<lambda>c d (st, e). (c - 1, st, e @ [c + d])) 0 (two_timers, []) = Some (2, st', [15, 3])"
    and m: "mset (schedq st') = {#again_at (TV 102 499001)
      \<lparr>sd_id = 2, sd_when = TV 100 1000000, sd_resched = 1, sd_data = 8, sd_callback = 7\<rparr>#}"
    using runq_runs_exactly_due [where tv = "TV 102 499001" and st = two_timers and n = 3
        and e = "[]" and ret = "\<lambda>c d. c - 1" and obs = "\<lambda>c d e. e @ [c + d]"
        and clk = "\<lambda>e. (Some (TV 102 499001), e)"
        and cb = "\<lambda>c d (st, e). (c - 1, st, e @ [c + d])"] inv
    unfolding two_timers_queue by (auto simp: normal_def due_def less_timeval_iff)
  moreover have "(1::int) sdiv 1000 = 0" by (simp add: sdiv_pos)
  then have "mset (map sd_when (schedq st')) = {#TV 102 500001#}"
    using arg_cong [OF m, of "image_mset sd_when"]
    by (simp add: again_at_def sched_settime_def smod_pos)
  ultimately show ?thesis by (intro exI [of _ st'] conjI)
qed

text \<open>
  Setting a timer of \<open>w\<close> milliseconds at the time \<open>now\<close>: it gets the next id, its
  deadline is \<open>now\<close> plus exactly \<open>w\<close> milliseconds, and it is put behind every event that
  is not later and before every event that is, so that events with the same deadline run in
  the order in which they were added; the others are where they were.
\<close>

theorem sched_add_orders:
  fixes st :: "('c, 'd) sched_state"
  assumes "sched_inv st" "eventcnt st < 2147483647" "normal now" "0 < w"
  shows "\<exists>t early late st'. cheops_sched_add (Some m) (Some now) w c d st = (eventcnt st, st') \<and>
    tv_us t = tv_us now + w * 1000 \<and> schedq st = early @ late \<and>
    schedq st' = early @ \<lparr>sd_id = eventcnt st, sd_when = t, sd_resched = w, sd_data = d,
      sd_callback = c\<rparr> # late \<and>
    (\<forall>s \<in> set early. sd_when s \<le> t) \<and> (\<forall>s \<in> set late. t < sd_when s) \<and> sched_inv st'"
proof -
  obtain i st' where r: "cheops_sched_add (Some m) (Some now) w c d st = (i, st')" by fastforce
  have i: "i \<noteq> -1"
    using r assms(1,4) sched_settime_Some [of now w]
    by (auto simp: cheops_sched_add_def sched_alloc_def sched_inv_def Let_def split: list.splits)
  from assms(1,2) r show ?thesis
  proof (cases rule: cheops_sched_add_cases)
    case (added t)
    let ?p = "\<lambda>c. sd_when c \<le> t"
    have "tv_us t = tv_us now + w * 1000"
      using sched_settime_exact [OF assms(3), of w] assms(4) added(3) by force
    moreover have "\<forall>s \<in> set (dropWhile ?p (schedq st)). t < sd_when s"
      using sorted_dropWhile_later [OF sched_invD(1) [OF assms(1)]] by blast
    moreover have "\<forall>s \<in> set (takeWhile ?p (schedq st)). sd_when s \<le> t"
      by (auto dest: set_takeWhileD)
    ultimately show ?thesis
      using r added by (intro exI [of _ t] exI [of _ "takeWhile ?p (schedq st)"]
        exI [of _ "dropWhile ?p (schedq st)"] exI [of _ st']) (simp add: schedule_ins_split)
  qed (use i in simp)
qed

theorem sched_add_orders_witness:
  "\<exists>st'. cheops_sched_add (Some garbage) (Some (TV 101 0)) 1500 7 9 two_timers = (3, st') \<and>
     length (schedq st') = 3"
proof -
  note inv = two_timers_inv
  have ev: "eventcnt two_timers = 3"
    by (simp add: two_timers_def sched_eval less_timeval_iff)
  obtain early late st' where
    "cheops_sched_add (Some garbage) (Some (TV 101 0)) 1500 7 9 two_timers = (3, st')"
    "schedq two_timers = early @ late" "length (schedq st') = Suc (length early + length late)"
    using sched_add_orders [OF inv, of "TV 101 0" 1500 garbage 7 9]
    by (auto simp: normal_def ev)
  then show ?thesis
    using arg_cong [OF two_timers_queue, of length] by (intro exI [of _ st']) simp
qed

text \<open>
  What the main loop passes to \<^verbatim>\<open>poll\<close>: with \<open>D\<close> microseconds to the first deadline
  the wait is within a millisecond of \<open>D\<close>, it is 0 when the deadline has passed, and with
  an empty queue it is -1, for ever.
\<close>

theorem sched_wait_within_ms:
  assumes "normal now" "normal (sd_when s)" "schedq st = s # rest"
    and "tv_us (sd_when s) - tv_us now \<le> 2147000000000"
    and "- 2147000000000 \<le> tv_us (sd_when s) - tv_us now"
  shows "\<bar>cheops_sched_wait (Some now) st * 1000 - max 0 (tv_us (sd_when s) - tv_us now)\<bar> < 1000 \<and>
    0 \<le> cheops_sched_wait (Some now) st \<and> cheops_sched_wait (Some now) (st\<lparr>schedq := []\<rparr>) = -1"
proof -
  define ds where "ds = tv_sec (sd_when s) - tv_sec now"
  define du where "du = tv_usec (sd_when s) - tv_usec now"
  have D: "tv_us (sd_when s) - tv_us now = ds * 1000000 + du"
    by (simp add: tv_us_def ds_def du_def algebra_simps)
  have du: "- 1000000 < du" "du < 1000000"
    using assms(1,2) by (auto simp: normal_def du_def)
  have q: "du sdiv 1000 * 1000 + du smod 1000 = du" "\<bar>du smod 1000\<bar> < 1000"
    using sdiv_smod [of du 1000] smod_bound [of 1000 du] by auto
  have ds: "- 2147002 < ds" "ds < 2147002"
    using assms(4,5) du unfolding D by linarith+
  have "to_int32 (ds * 1000) = ds * 1000" using ds by (intro to_int32_id) auto
  moreover have "to_int32 (ds * 1000 + du sdiv 1000) = ds * 1000 + du sdiv 1000"
    using q du ds assms(4,5) unfolding D by (intro to_int32_id) linarith+
  ultimately have "cheops_sched_wait (Some now) st = max 0 (ds * 1000 + du sdiv 1000)"
    using assms(3) by (simp add: cheops_sched_wait_def Let_def flip: ds_def du_def)
  then show ?thesis
    using q unfolding D by (auto simp: cheops_sched_wait_def max_def)
qed

theorem sched_wait_within_ms_witness:
  "\<bar>cheops_sched_wait (Some (TV 99 999999)) (two_timers\<lparr>schedq := tl (schedq two_timers)\<rparr>) * 1000
     - 2500001\<bar> < 1000"
  using sched_wait_within_ms [of "TV 99 999999" "hd (tl (schedq two_timers))"
      "two_timers\<lparr>schedq := tl (schedq two_timers)\<rparr>" "[]"]
  by (simp add: two_timers_queue normal_def tv_us_def)

end
