(* ===== verification/Cache.thy ===== *)
theory Cache
  imports Sched
begin

text \<open>
  The cache of addresses that answered a ping, \<^verbatim>\<open>cache.c\<close>: a list of at most
  \<^verbatim>\<open>MAX_PING_CACHE_ENTRIES\<close> stamped entries, whose entries are overwritten when it is full.
  \<^verbatim>\<open>gettimeofday\<close> and the success of \<^verbatim>\<open>malloc\<close> are arguments; the destructor's calls are
  the list of the values it was given.
\<close>

record 'd cache =
  ca_data :: 'd
  ca_tv :: timeval

record 'd cache_state =
  Cache_list :: "'d cache list"
  cache_count :: int

definition MAX_PING_CACHE_ENTRIES :: int where "MAX_PING_CACHE_ENTRIES = 128"

definition cache_init :: "'d cache_state" where
  "cache_init = \<lparr>Cache_list = [], cache_count = 0\<rparr>"

definition cache_ms :: "'d cache \<Rightarrow> int" where
  "cache_ms p = tv_sec (ca_tv p) * 1000 + tv_usec (ca_tv p) sdiv 1000"

text \<open>
  The loop that picks the entry to overwrite, as its index: \<open>old\<close> starts at the head and
  moves whenever it is smaller.
\<close>

fun cache_pick :: "'d cache list \<Rightarrow> nat \<Rightarrow> 'd cache \<Rightarrow> nat \<Rightarrow> nat" where
  "cache_pick [] i old j = j"
| "cache_pick (p # ps) i old j =
     (if cache_ms old < cache_ms p then cache_pick ps (Suc i) p i else cache_pick ps (Suc i) old j)"

definition add_to_cache ::
  "bool \<Rightarrow> timeval \<Rightarrow> 'd \<Rightarrow> bool \<Rightarrow> 'd cache_state \<Rightarrow> ('d list \<times> 'd cache_state) outcome" where
  "add_to_cache m now data callback st =
     (if cache_count st \<ge> MAX_PING_CACHE_ENTRIES
      then (case Cache_list st of
              [] \<Rightarrow> UB
            | h # _ \<Rightarrow>
               let i = cache_pick (Cache_list st) 0 h 0 in
               Ret (if callback then [data] else [],
                 st\<lparr>Cache_list := (Cache_list st)[i := \<lparr>ca_data = data, ca_tv = now\<rparr>]\<rparr>))
      else if \<not> m then Exit 1
      else Ret ([], st\<lparr>Cache_list := \<lparr>ca_data = data, ca_tv = now\<rparr> # Cache_list st,
                      cache_count := cache_count st + 1\<rparr>))"

definition in_cache :: "'d \<Rightarrow> 'd cache_state \<Rightarrow> int" where
  "in_cache data st = (if find (\<lambda>p. ca_data p = data) (Cache_list st) \<noteq> None then 1 else 0)"

section \<open>Lemmas\<close>

definition cache_inv :: "'d cache_state \<Rightarrow> bool" where
  "cache_inv st \<longleftrightarrow> cache_count st = int (length (Cache_list st)) \<and> cache_count st \<le> MAX_PING_CACHE_ENTRIES"

lemma cache_pick_max:
  assumes "j < length xs" "xs ! j = old" "\<forall>k < i. cache_ms (xs ! k) \<le> cache_ms old" "ps = drop i xs"
  shows "cache_pick ps i old j < length xs \<and>
    (\<forall>p \<in> set xs. cache_ms p \<le> cache_ms (xs ! cache_pick ps i old j))"
  using assms
proof (induction ps arbitrary: i old j)
  case Nil
  then have "\<forall>k < length xs. cache_ms (xs ! k) \<le> cache_ms old" by simp
  with Nil show ?case by (auto simp: in_set_conv_nth)
next
  case (Cons p ps)
  have i: "i < length xs" using Cons.prems(4) by (metis drop_all list.distinct(1) not_le_imp_less)
  then have p: "xs ! i = p" "ps = drop (Suc i) xs"
    using Cons.prems(4) by (metis Cons_nth_drop_Suc list.inject)+
  show ?case
  proof (cases "cache_ms old < cache_ms p")
    case True
    then have "\<forall>k < Suc i. cache_ms (xs ! k) \<le> cache_ms p"
      using Cons.prems(3) p(1) by (auto simp: less_Suc_eq intro: order.trans less_imp_le)
    from Cons.IH [OF i p(1) this p(2)] True show ?thesis by simp
  next
    case False
    then have "\<forall>k < Suc i. cache_ms (xs ! k) \<le> cache_ms old"
      using Cons.prems(3) p(1) by (auto simp: less_Suc_eq)
    from Cons.IH [OF Cons.prems(1,2) this p(2)] False show ?thesis by simp
  qed
qed

lemma in_cache_iff: "in_cache d st = 1 \<longleftrightarrow> d \<in> ca_data ` set (Cache_list st)"
  by (auto simp: in_cache_def find_None_iff)

lemma add_to_cache_facts:
  assumes "cache_inv st"
  shows "\<exists>ds st'. add_to_cache True now d cb st = Ret (ds, st')
     \<and> cache_inv st' \<and> in_cache d st' = 1
     \<and> (cache_count st < 128 \<longrightarrow>
          (\<forall>x. in_cache x st = 1 \<longrightarrow> in_cache x st' = 1) \<and> cache_count st' = cache_count st + 1)
     \<and> (cache_count st = 128 \<longrightarrow>
          (\<exists>i < 128. Cache_list st' = (Cache_list st)[i := \<lparr>ca_data = d, ca_tv = now\<rparr>] \<and>
            (\<forall>p \<in> set (Cache_list st). cache_ms p \<le> cache_ms (Cache_list st ! i))))"
proof (cases "cache_count st < 128")
  case True
  then show ?thesis
    using assms by (auto simp: add_to_cache_def cache_inv_def MAX_PING_CACHE_ENTRIES_def in_cache_iff)
next
  case False
  then have len: "cache_count st = 128" "length (Cache_list st) = 128"
    using assms by (auto simp: cache_inv_def MAX_PING_CACHE_ENTRIES_def)
  then obtain h t where ht: "Cache_list st = h # t" by (cases "Cache_list st") auto
  let ?i = "cache_pick (Cache_list st) 0 h 0"
  have i: "?i < length (Cache_list st) \<and>
      (\<forall>p \<in> set (Cache_list st). cache_ms p \<le> cache_ms (Cache_list st ! ?i))"
    by (rule cache_pick_max) (simp_all add: ht)
  let ?st' = "st\<lparr>Cache_list := (Cache_list st)[?i := \<lparr>ca_data = d, ca_tv = now\<rparr>]\<rparr>"
  have "add_to_cache True now d cb st = Ret (if cb then [d] else [], ?st')"
    using len ht by (simp add: add_to_cache_def MAX_PING_CACHE_ENTRIES_def Let_def)
  moreover have "cache_inv ?st'" using assms by (simp add: cache_inv_def)
  moreover have "in_cache d ?st' = 1"
    using i set_update_memI [of ?i "Cache_list st" "\<lparr>ca_data = d, ca_tv = now\<rparr>"]
    by (force simp: in_cache_iff)
  ultimately show ?thesis using len i by auto
qed

text \<open>A full cache, for the example.\<close>

definition full_cache :: "int cache_state" where
  "full_cache = \<lparr>Cache_list = replicate 128 \<lparr>ca_data = 3, ca_tv = TV 10 0\<rparr>, cache_count = 128\<rparr>"

section \<open>Property\<close>

text \<open>
  Adding to a cache of at most 128 entries keeps it within 128, makes the new value
  cached, and below the limit forgets nothing; at the limit exactly one entry is
  overwritten, one whose stamp in milliseconds is the greatest, that is the newest.
\<close>

theorem add_to_cache_spec:
  assumes "cache_inv st"
  shows "\<exists>ds st'. add_to_cache True now d cb st = Ret (ds, st')
     \<and> cache_inv st' \<and> in_cache d st' = 1
     \<and> (cache_count st < 128 \<longrightarrow>
          (\<forall>x. in_cache x st = 1 \<longrightarrow> in_cache x st' = 1) \<and> cache_count st' = cache_count st + 1)
     \<and> (cache_count st = 128 \<longrightarrow>
          (\<exists>i < 128. Cache_list st' = (Cache_list st)[i := \<lparr>ca_data = d, ca_tv = now\<rparr>] \<and>
            (\<forall>p \<in> set (Cache_list st). cache_ms p \<le> cache_ms (Cache_list st ! i))))"
  by (rule add_to_cache_facts [OF assms])

lemma add_to_cache_spec_witness:
  "\<exists>ds st'. add_to_cache True (TV 11 0) 4 True full_cache = Ret (ds, st') \<and> cache_inv st' \<and> in_cache 4 st' = 1"
  using add_to_cache_spec [of full_cache "TV 11 0" 4 True]
  by (auto simp: full_cache_def cache_inv_def MAX_PING_CACHE_ENTRIES_def)

text \<open>The destructor of a full cache is given the new value, which stays in the cache.\<close>

lemma cache_destroys_new_value:
  assumes "cache_inv st" "cache_count st = 128"
  shows "\<exists>st'. add_to_cache m now d True st = Ret ([d], st')"
  using assms
  by (cases "Cache_list st") (auto simp: add_to_cache_def cache_inv_def MAX_PING_CACHE_ENTRIES_def Let_def)

end
