(* ===== verification/Io.thy ===== *)
theory Io
  imports Cheops_Prelude
begin

text \<open>
  The table of watched descriptors, \<^verbatim>\<open>io.c\<close>: two parallel arrays \<^verbatim>\<open>fds\<close> and
  \<^verbatim>\<open>ior\<close> that grow, an allocated \<^verbatim>\<open>int\<close> per entry that holds the entry's index (the
  handle the clients keep), and the loop that calls back what \<^verbatim>\<open>poll\<close> reported.

  Arrays are lists as long as their allocation, so an access past it, to a freed handle or a
  second free is \<open>UB\<close>. What \<^verbatim>\<open>realloc\<close>, \<^verbatim>\<open>malloc\<close> and \<^verbatim>\<open>poll\<close> answer is an argument.
\<close>

section \<open>State\<close>

record pollfd =
  pfd_fd :: int
  pfd_events :: u16
  pfd_revents :: u16

record ('c, 'd) io_rec =
  ir_callback :: 'c
  ir_data :: 'd
  ir_id :: nat

record ('c, 'd) io_state =
  fds :: "pollfd list"
  ior :: "('c, 'd) io_rec list"
  idcells :: "nat \<Rightarrow> int option"
  fdcnt :: u32
  maxfdcnt :: u32
  current_ioc :: int
  remove_current_ioc :: bool

definition GROW_SHRINK_SIZE :: u32 where "GROW_SHRINK_SIZE = 512"

definition io_init :: "('c, 'd) io_state" where
  "io_init = \<lparr>fds = [], ior = [], idcells = Map.empty, fdcnt = 0, maxfdcnt = -1,
     current_ioc = -1, remove_current_ioc = False\<rparr>"

section \<open>Operations\<close>

text \<open>\<^verbatim>\<open>realloc\<close> keeps the old elements and leaves the new ones unspecified (\<open>g\<close>).\<close>

definition resize :: "nat \<Rightarrow> 'a \<Rightarrow> 'a list \<Rightarrow> 'a list" where
  "resize n g xs = take n xs @ replicate (n - length xs) g"

text \<open>
  \<^verbatim>\<open>io_grow\<close>; \<open>m\<close> says which of its two calls of \<^verbatim>\<open>realloc\<close> succeed and what the new
  elements hold. The result is the C one: 0, or -1 when out of memory.
\<close>

type_synonym ('c, 'd) grow_answer = "(('c, 'd) io_rec option) \<times> (pollfd option)"

definition io_grow ::
  "('c, 'd) grow_answer \<Rightarrow> ('c, 'd) io_state \<Rightarrow> int \<times> ('c, 'd) io_state" where
  "io_grow m st =
     (let st1 = st\<lparr>maxfdcnt := maxfdcnt st + GROW_SHRINK_SIZE\<rparr>;
          n = unat (maxfdcnt st1 + 1)
      in case fst m of
           None \<Rightarrow> (-1, st1\<lparr>maxfdcnt := maxfdcnt st1 - GROW_SHRINK_SIZE\<rparr>)
         | Some g \<Rightarrow>
            let st2 = st1\<lparr>ior := resize n g (ior st1)\<rparr> in
            (case snd m of
               None \<Rightarrow> (-1, st2\<lparr>maxfdcnt := maxfdcnt st2 - GROW_SHRINK_SIZE\<rparr>)
             | Some g' \<Rightarrow> (0, st2\<lparr>fds := resize n g' (fds st2)\<rparr>)))"

text \<open>
  \<^verbatim>\<open>cheops_io_add\<close>; \<open>p\<close> is the address of the new handle, \<^theory_text>\<open>None\<close> when \<^verbatim>\<open>malloc\<close>
  fails. The result is the handle, \<^theory_text>\<open>None\<close> for \<^verbatim>\<open>NULL\<close>.
\<close>

definition cheops_io_add ::
  "('c, 'd) grow_answer \<Rightarrow> nat option \<Rightarrow> int \<Rightarrow> 'c \<Rightarrow> u16 \<Rightarrow> 'd \<Rightarrow> ('c, 'd) io_state
     \<Rightarrow> (nat option \<times> ('c, 'd) io_state) outcome" where
  "cheops_io_add m p fd callback events data st =
     (let (failed, st1) = (if fdcnt st < maxfdcnt st then io_grow m st else (0, st)) in
      if failed \<noteq> 0 then Ret (None, st1)
      else
        obind (aset (fds st1) (unat (fdcnt st1))
                 \<lparr>pfd_fd = fd, pfd_events = events, pfd_revents = 0\<rparr>) (\<lambda>fds'.
        obind (aget (ior st1) (unat (fdcnt st1))) (\<lambda>old.
        obind (aset (ior st1) (unat (fdcnt st1))
                 \<lparr>ir_callback = callback, ir_data = data,
                  ir_id = (case p of None \<Rightarrow> ir_id old | Some q \<Rightarrow> q)\<rparr>) (\<lambda>ior'.
        let st2 = st1\<lparr>fds := fds', ior := ior'\<rparr> in
        case p of
          None \<Rightarrow> Ret (None, st2)
        | Some q \<Rightarrow>
           Ret (Some q, st2\<lparr>idcells := (idcells st2)(q \<mapsto> uint (fdcnt st2)),
                           fdcnt := fdcnt st2 + 1\<rparr>)))))"

text \<open>\<^verbatim>\<open>*id < fdcnt\<close> compares the \<^verbatim>\<open>int\<close> as an unsigned number.\<close>

definition below_fdcnt :: "int \<Rightarrow> ('c, 'd) io_state \<Rightarrow> bool" where
  "below_fdcnt v st \<longleftrightarrow> (word_of_int v :: u32) < fdcnt st"

definition cheops_io_change ::
  "nat \<Rightarrow> int \<Rightarrow> 'c option \<Rightarrow> u16 \<Rightarrow> 'd option \<Rightarrow> ('c, 'd) io_state
     \<Rightarrow> (nat option \<times> ('c, 'd) io_state) outcome" where
  "cheops_io_change idp fd callback events data st =
     obind (deref (idcells st) idp) (\<lambda>v.
       if below_fdcnt v st
       then
         obind (aget (fds st) (nat v)) (\<lambda>p.
         obind (aget (ior st) (nat v)) (\<lambda>r.
           Ret (Some idp,
             st\<lparr>fds := (fds st)[nat v :=
                   p\<lparr>pfd_fd := (if fd > -1 then fd else pfd_fd p),
                     pfd_events := (if events \<noteq> 0 then events else pfd_events p)\<rparr>],
                ior := (ior st)[nat v :=
                   r\<lparr>ir_callback := (case callback of None \<Rightarrow> ir_callback r | Some c \<Rightarrow> c),
                     ir_data := (case data of None \<Rightarrow> ir_data r | Some d \<Rightarrow> d)\<rparr>]\<rparr>)))
       else Ret (None, st))"

definition io_shrink ::
  "nat \<Rightarrow> ('c, 'd) io_state \<Rightarrow> (int \<times> ('c, 'd) io_state) outcome" where
  "io_shrink which st =
     (let n = fdcnt st - 1; st1 = st\<lparr>fdcnt := n\<rparr> in
      obind (aget (ior st1) which) (\<lambda>r.
      obind (deref (idcells st1) (ir_id r)) (\<lambda>_.
      let st2 = st1\<lparr>idcells := (idcells st1)(ir_id r := None)\<rparr> in
      if which \<noteq> unat n
      then
        obind (aget (fds st2) (unat n)) (\<lambda>lastfd.
        obind (aset (fds st2) which lastfd) (\<lambda>fds'.
        obind (aget (ior st2) (unat n)) (\<lambda>lastior.
        obind (aset (ior st2) which lastior) (\<lambda>ior'.
        obind (deref (idcells st2) (ir_id lastior)) (\<lambda>_.
          Ret (0, st2\<lparr>fds := fds', ior := ior',
                      idcells := (idcells st2)(ir_id lastior \<mapsto> int which)\<rparr>))))))
      else Ret (0, st2))))"

definition cheops_io_remove ::
  "nat \<Rightarrow> ('c, 'd) io_state \<Rightarrow> (int \<times> ('c, 'd) io_state) outcome" where
  "cheops_io_remove idp st =
     obind (deref (idcells st) idp) (\<lambda>v.
       if current_ioc st = v then Ret (-1, st\<lparr>remove_current_ioc := True\<rparr>)
       else if below_fdcnt v st then io_shrink (nat v) st
       else Ret (-1, st))"

text \<open>
  The callbacks run in a world of the table and the rest of the program. The loop ends at
  the current \<^verbatim>\<open>fdcnt\<close>, which the callbacks may raise, so it takes fuel.
\<close>

type_synonym ('c, 'd, 'e) io_callback_sem =
  "'c \<Rightarrow> nat \<Rightarrow> int \<Rightarrow> u16 \<Rightarrow> 'd \<Rightarrow> ('c, 'd) io_state \<times> 'e \<Rightarrow> (int \<times> ('c, 'd) io_state \<times> 'e) outcome"

definition io_dispatch ::
  "('c, 'd, 'e) io_callback_sem \<Rightarrow> nat \<Rightarrow> ('c, 'd) io_state \<times> 'e
     \<Rightarrow> (('c, 'd) io_state \<times> 'e) outcome" where
  "io_dispatch cb x w =
     (case w of (st, e) \<Rightarrow>
      obind (aget (fds st) x) (\<lambda>p.
      if pfd_revents p = 0 then Ret (st, e)
      else
        obind (aget (ior st) x) (\<lambda>r.
        obind (deref (idcells st) (ir_id r)) (\<lambda>v.
        obind (cb (ir_callback r) (ir_id r) (pfd_fd p) (pfd_revents p) (ir_data r)
                 (st\<lparr>current_ioc := v, remove_current_ioc := False\<rparr>, e)) (\<lambda>(ret, st1, e1).
        obind (if ret = 0 \<or> remove_current_ioc st1
               then obind (io_shrink x st1) (\<lambda>(_, st2). Ret st2) else Ret st1) (\<lambda>st2.
          Ret (st2\<lparr>current_ioc := -1\<rparr>, e1)))))))"

fun io_wait_loop ::
  "nat \<Rightarrow> ('c, 'd, 'e) io_callback_sem \<Rightarrow> nat \<Rightarrow> ('c, 'd) io_state \<times> 'e
     \<Rightarrow> (('c, 'd) io_state \<times> 'e) outcome" where
  "io_wait_loop 0 cb x w = NoFuel"
| "io_wait_loop (Suc n) cb x w =
     (if x < unat (fdcnt (fst w))
      then obind (io_dispatch cb x w) (\<lambda>w'. io_wait_loop n cb (Suc x) w')
      else Ret w)"

text \<open>
  \<^verbatim>\<open>poll\<close> answers with its result and the events it found, which it writes to the first
  \<^verbatim>\<open>fdcnt\<close> entries.
\<close>

definition set_revents :: "u16 list \<Rightarrow> ('c, 'd) io_state \<Rightarrow> ('c, 'd) io_state" where
  "set_revents evs st =
     st\<lparr>fds := map2 (\<lambda>p ev. p\<lparr>pfd_revents := ev\<rparr>) (take (unat (fdcnt st)) (fds st)) evs
              @ drop (min (unat (fdcnt st)) (length evs)) (fds st)\<rparr>"

definition cheops_io_wait ::
  "nat \<Rightarrow> ('c, 'd, 'e) io_callback_sem \<Rightarrow> int \<Rightarrow> u16 list \<Rightarrow> ('c, 'd) io_state \<times> 'e
     \<Rightarrow> (int \<times> ('c, 'd) io_state \<times> 'e) outcome" where
  "cheops_io_wait n cb res evs w =
     (let w1 = (set_revents evs (fst w), snd w) in
      if res > 0 then obind (io_wait_loop n cb 0 w1) (\<lambda>(st, e). Ret (res, st, e))
      else Ret (res, fst w1, snd w1))"


section \<open>The table invariant\<close>

text \<open>
  The entries of the table, and the invariant: the arrays hold the entries and have a slot
  for 512 times as many, the size is a multiple of 512, the handle of entry \<open>i\<close> is a live
  cell that holds \<open>i\<close>, and no other cell is live.
\<close>

abbreviation live :: "('c, 'd) io_state \<Rightarrow> nat" where
  "live st \<equiv> unat (fdcnt st)"

definition entries :: "('c, 'd) io_state \<Rightarrow> (pollfd \<times> ('c, 'd) io_rec) list" where
  "entries st = zip (take (live st) (fds st)) (take (live st) (ior st))"

definition io_inv :: "('c, 'd) io_state \<Rightarrow> bool" where
  "io_inv st \<longleftrightarrow>
     unat (maxfdcnt st + 1) \<le> length (fds st) \<and>
     unat (maxfdcnt st + 1) \<le> length (ior st) \<and>
     512 * live st \<le> unat (maxfdcnt st + 1) \<and>
     512 dvd unat (maxfdcnt st + 1) \<and>
     (\<forall>i < live st. idcells st (ir_id (ior st ! i)) = Some (int i)) \<and>
     dom (idcells st) = ir_id ` set (take (live st) (ior st))"

lemma io_inv_lengths:
  assumes "io_inv st"
  shows "live st \<le> length (fds st)" "live st \<le> length (ior st)" "live st < 2 ^ 23"
proof -
  have "512 * live st \<le> unat (maxfdcnt st + 1)" "unat (maxfdcnt st + 1) < 2 ^ 32"
    using assms unsigned_less [of "maxfdcnt st + 1", where ?'a = nat] by (auto simp: io_inv_def)
  moreover from this(1) have "live st \<le> unat (maxfdcnt st + 1)" by linarith
  ultimately show "live st \<le> length (fds st)" "live st \<le> length (ior st)" "live st < 2 ^ 23"
    using assms by (auto simp: io_inv_def)
qed

lemma length_entries: "io_inv st \<Longrightarrow> length (entries st) = live st"
  using io_inv_lengths [of st] by (simp add: entries_def)

lemma nth_entries: "io_inv st \<Longrightarrow> i < live st \<Longrightarrow> entries st ! i = (fds st ! i, ior st ! i)"
  using io_inv_lengths [of st] by (simp add: entries_def)

lemma io_inv_handle:
  "io_inv st \<Longrightarrow> i < live st \<Longrightarrow> idcells st (ir_id (ior st ! i)) = Some (int i)"
  by (simp add: io_inv_def)

lemma io_inv_handle_inj:
  assumes "io_inv st" "i < live st" "j < live st" "ir_id (ior st ! i) = ir_id (ior st ! j)"
  shows "i = j"
  using io_inv_handle [OF assms(1,2)] io_inv_handle [OF assms(1,3)]
  by (metis assms(4) of_nat_eq_iff option.inject)

lemma io_inv_cell:
  assumes "io_inv st" "idcells st q = Some v"
  obtains i where "i < live st" "ir_id (ior st ! i) = q" "v = int i"
proof -
  have "q \<in> ir_id ` set (take (live st) (ior st))"
    using assms by (auto simp: io_inv_def)
  then obtain i where "i < live st" "ir_id (ior st ! i) = q"
    by (auto simp: in_set_conv_nth)
  with io_inv_handle [OF assms(1), of i] assms(2) that show thesis by auto
qed

section \<open>The operations keep the invariant\<close>

lemma resize_length [simp]: "length (resize n g xs) = n"
  by (auto simp: resize_def)

lemma resize_nth [simp]: "i < length xs \<Longrightarrow> i < n \<Longrightarrow> resize n g xs ! i = xs ! i"
  by (simp add: resize_def nth_append)

lemma resize_take [simp]: "k \<le> length xs \<Longrightarrow> k \<le> n \<Longrightarrow> take k (resize n g xs) = take k xs"
  by (simp add: resize_def min_def)

definition room :: "('c, 'd) io_state \<Rightarrow> bool" where
  "room st \<longleftrightarrow> unat (maxfdcnt st + 1) < 2 ^ 32 - 512"

lemma grow_size:
  assumes "room st"
  shows "unat (maxfdcnt st + GROW_SHRINK_SIZE + 1) = unat (maxfdcnt st + 1) + 512"
proof -
  have "maxfdcnt st + GROW_SHRINK_SIZE + 1 = (maxfdcnt st + 1) + GROW_SHRINK_SIZE" by (simp add: algebra_simps)
  then have "unat (maxfdcnt st + GROW_SHRINK_SIZE + 1)
      = (unat (maxfdcnt st + 1) + unat GROW_SHRINK_SIZE) mod 2 ^ 32"
    by (simp only: unat_word_ariths) simp
  then show ?thesis
    using assms by (simp add: room_def GROW_SHRINK_SIZE_def)
qed

lemma grow_needed:
  assumes "io_inv st"
  shows "fdcnt st < maxfdcnt st"
proof -
  define m where "m = unat (maxfdcnt st + 1)"
  have d: "512 dvd m" "512 * live st \<le> m"
    using assms by (simp_all add: io_inv_def m_def)
  have "live st < unat (maxfdcnt st)"
  proof (cases "maxfdcnt st + 1 = 0")
    case True
    then have "maxfdcnt st = -1" by (simp add: eq_neg_iff_add_eq_0)
    then show ?thesis using io_inv_lengths(3) [OF assms] by (simp add: unsigned_minus_1_eq_mask mask_eq_exp_minus_1)
  next
    case False
    then have "m \<noteq> 0" by (simp add: m_def unat_eq_0)
    moreover have "unat (maxfdcnt st) = m - 1"
      using unat_minus_one [OF False] by (simp add: m_def)
    moreover obtain c where "m = 512 * c" using d(1) by (auto elim: dvdE)
    ultimately show ?thesis using d(2) by (cases c) auto
  qed
  then show ?thesis by (simp add: word_less_nat_alt)
qed

text \<open>A table after \<^verbatim>\<open>io_grow\<close>, whether it succeeded or not.\<close>

lemma io_grow_inv:
  assumes "io_inv st" "room st"
  shows "io_inv (snd (io_grow m st))"
    "entries (snd (io_grow m st)) = entries st"
    "idcells (snd (io_grow m st)) = idcells st" "fdcnt (snd (io_grow m st)) = fdcnt st"
    "current_ioc (snd (io_grow m st)) = current_ioc st"
    "fst (io_grow m st) = 0 \<Longrightarrow>
       unat (maxfdcnt (snd (io_grow m st)) + 1) = unat (maxfdcnt st + 1) + 512"
proof -
  define k where "k = unat (maxfdcnt st + 1)"
  have k: "unat (maxfdcnt st + GROW_SHRINK_SIZE + 1) = k + 512"
    using grow_size [OF assms(2)] by (simp add: k_def)
  have lens: "live st \<le> length (fds st)" "live st \<le> length (ior st)"
    using io_inv_lengths [OF assms(1)] by auto
  have i: "k \<le> length (fds st)" "k \<le> length (ior st)" "512 * live st \<le> k" "512 dvd k"
    "\<And>i. i < live st \<Longrightarrow> idcells st (ir_id (ior st ! i)) = Some (int i)"
    "dom (idcells st) = ir_id ` set (take (live st) (ior st))"
    using assms(1) by (simp_all add: io_inv_def k_def)
  have l: "live st \<le> k + 512" "\<And>i. i < live st \<Longrightarrow> i < k + 512" using i(3) by auto
  show "entries (snd (io_grow m st)) = entries st"
    using lens l by (simp add: io_grow_def Let_def entries_def k split: option.split)
  show "idcells (snd (io_grow m st)) = idcells st" "fdcnt (snd (io_grow m st)) = fdcnt st"
    "current_ioc (snd (io_grow m st)) = current_ioc st"
    by (simp_all add: io_grow_def Let_def split: option.split)
  show "fst (io_grow m st) = 0 \<Longrightarrow>
       unat (maxfdcnt (snd (io_grow m st)) + 1) = unat (maxfdcnt st + 1) + 512"
    by (auto simp: io_grow_def Let_def k k_def [symmetric] split: option.splits)
  show "io_inv (snd (io_grow m st))"
    using i lens l by (auto simp: io_grow_def Let_def io_inv_def k k_def [symmetric] split: option.splits)
qed

lemma io_add_inv:
  assumes inv: "io_inv st" and room: "room st" and fresh: "\<And>q. p = Some q \<Longrightarrow> idcells st q = None"
  obtains r st' where "cheops_io_add m p fd cb ev d st = Ret (r, st')" "io_inv st'"
    "current_ioc st' = current_ioc st"
    "unat (maxfdcnt st' + 1) \<le> unat (maxfdcnt st + 1) + 512"
    "r = None \<Longrightarrow> entries st' = entries st \<and> idcells st' = idcells st"
    "r = None \<or> r = p"
    "\<And>q. r = Some q \<Longrightarrow>
       entries st' = entries st @
         [(\<lparr>pfd_fd = fd, pfd_events = ev, pfd_revents = 0\<rparr>, \<lparr>ir_callback = cb, ir_data = d, ir_id = q\<rparr>)] \<and>
       idcells st' = (idcells st)(q \<mapsto> int (live st))"
proof -
  define st1 where "st1 = snd (io_grow m st)"
  define k where "k = unat (maxfdcnt st + 1)"
  note g = io_grow_inv [OF inv room, of m, folded st1_def]
  have grow: "fdcnt st < maxfdcnt st" by (rule grow_needed [OF inv])
  show thesis
  proof (cases "fst (io_grow m st) = 0")
    case False
    have "unat (maxfdcnt st1 + 1) = k"
      using False by (auto simp: st1_def io_grow_def Let_def k_def split: option.splits)
    then show thesis
      using False grow g
      by (intro that [of None st1])
        (auto simp: cheops_io_add_def st1_def k_def split: prod.split)
  next
    case True
    have k': "unat (maxfdcnt st1 + 1) = k + 512" using g(6) True by (simp add: k_def)
    have i1: "k + 512 \<le> length (fds st1)" "k + 512 \<le> length (ior st1)" "512 dvd k + 512"
      "\<And>i. i < live st \<Longrightarrow> idcells st (ir_id (ior st1 ! i)) = Some (int i)"
      "dom (idcells st) = ir_id ` set (take (live st) (ior st1))"
      using g(1) unfolding io_inv_def by (simp_all add: k' g(3,4))
    have n: "512 * live st \<le> k" using inv by (simp add: io_inv_def k_def)
    have lens: "live st < length (fds st1)" "live st < length (ior st1)" using i1 n by auto
    have small: "live st < 2 ^ 23" using io_inv_lengths [OF inv] by simp
    have suc: "unat (fdcnt st + 1) = Suc (live st)"
      using small unat_add_lem [of "fdcnt st" 1] by simp
    have pair: "io_grow m st = (0, st1)" using True by (simp add: st1_def prod_eq_iff)
    let ?r = "\<lparr>ir_callback = cb, ir_data = d, ir_id = (case p of None \<Rightarrow> ir_id (ior st1 ! live st) | Some q \<Rightarrow> q)\<rparr>"
    let ?st2 = "st1\<lparr>fds := (fds st1)[live st := \<lparr>pfd_fd = fd, pfd_events = ev, pfd_revents = 0\<rparr>],
                   ior := (ior st1)[live st := ?r]\<rparr>"
    have ids: "ir_id (ior st1 ! i) \<noteq> q" if "p = Some q" "i < live st" for i q
      using i1(4) [OF that(2)] fresh [OF that(1)] by auto
    show thesis
    proof (cases p)
      case None
      have "io_inv ?st2"
        unfolding io_inv_def using i1 n lens by (simp add: k' g(3,4) None)
      moreover have "entries ?st2 = entries st"
        using g(2) lens by (simp add: entries_def g(4) take_update_cancel)
      ultimately show thesis
        using grow pair lens g(3,4,5) k' None
        by (intro that [of None ?st2]) (auto simp: cheops_io_add_def aset_def aget_def k_def Let_def)
    next
      case (Some q)
      let ?st3 = "?st2\<lparr>idcells := (idcells st)(q \<mapsto> int (live st)), fdcnt := fdcnt st + 1\<rparr>"
      have run: "cheops_io_add m p fd cb ev d st = Ret (Some q, ?st3)"
        using grow pair lens by (simp add: cheops_io_add_def aset_def aget_def Let_def Some g(3,4))
      have tk: "take (Suc (live st)) (xs[live st := v]) = take (live st) xs @ [v]"
        if "live st < length xs" for xs :: "'x list" and v
        using that by (simp add: take_Suc_conv_app_nth)
      have cells: "idcells ?st3 (ir_id (ior ?st3 ! i)) = Some (int i)" if "i < Suc (live st)" for i
        using that lens i1(4) ids [OF Some] by (cases "i = live st") (auto simp: Some)
      have dom3: "dom (idcells ?st3) = ir_id ` set (take (live ?st3) (ior ?st3))"
        using lens i1(5) by (simp add: suc take_Suc_conv_app_nth Some)
      have "io_inv ?st3"
        unfolding io_inv_def using i1(1-3) n cells dom3 lens by (simp add: k' suc Some)
      moreover have "entries ?st3 = entries st @
         [(\<lparr>pfd_fd = fd, pfd_events = ev, pfd_revents = 0\<rparr>, \<lparr>ir_callback = cb, ir_data = d, ir_id = q\<rparr>)]"
        using g(2) lens by (simp add: entries_def g(4) suc take_Suc_conv_app_nth Some)
      ultimately show thesis
        using run k' g(5) Some by (intro that [of "Some q" ?st3]) (auto simp: k_def)
    qed
  qed
qed

text \<open>Unlinking entry \<open>x\<close> puts the last one in its place.\<close>

definition swap_remove :: "nat \<Rightarrow> 'a list \<Rightarrow> 'a list" where
  "swap_remove x xs = (butlast xs)[x := last xs]"

lemma mset_swap_remove: "x < length xs \<Longrightarrow> mset (swap_remove x xs) = mset xs - {#xs ! x#}"
proof (cases xs rule: rev_cases)
  case (snoc ys y)
  assume "x < length xs"
  then show ?thesis
    using snoc by (cases "x = length ys") (auto simp: swap_remove_def mset_update nth_append list_update_beyond)
qed simp

lemma nth_swap_remove:
  "x < length xs \<Longrightarrow> i < length xs - 1 \<Longrightarrow>
     swap_remove x xs ! i = (if i = x then last xs else xs ! i)"
  by (simp add: swap_remove_def nth_list_update nth_butlast)

lemma length_swap_remove [simp]: "length (swap_remove x xs) = length xs - 1"
  by (simp add: swap_remove_def)

lemma map_swap_remove: "map f (swap_remove x xs) = swap_remove x (map f xs)"
  by (cases xs rule: rev_cases) (simp_all add: swap_remove_def map_update)

lemma set_swap_remove:
  assumes "distinct xs" "x < length xs"
  shows "set (swap_remove x xs) = set xs - {xs ! x}"
proof -
  have "set_mset (mset (swap_remove x xs)) = set_mset (mset xs - {#xs ! x#})"
    using mset_swap_remove [OF assms(2)] by simp
  then show ?thesis
    using assms by (auto simp: in_diff_count count_mset distinct_count_atmost_1 split: if_splits)
qed

lemma distinct_swap_remove:
  assumes "distinct xs" "x < length xs"
  shows "distinct (swap_remove x xs)"
  using assms by (intro card_distinct) (simp add: set_swap_remove distinct_card)

lemma take_swap_remove:
  assumes "x < Suc m" "Suc m \<le> length xs"
  shows "take m (if x \<noteq> m then xs[x := xs ! m] else xs) = swap_remove x (take (Suc m) xs)"
  using assms by (auto simp: swap_remove_def take_Suc_conv_app_nth take_update_swap list_update_beyond)

lemma handles_distinct:
  assumes "io_inv st"
  shows "distinct (map ir_id (take (live st) (ior st)))"
  using io_inv_lengths [OF assms] io_inv_handle_inj [OF assms]
  by (auto simp: distinct_conv_nth)

lemma io_shrink_inv:
  assumes inv: "io_inv st" and x: "x < live st"
  obtains st' where "io_shrink x st = Ret (0, st')" "io_inv st'" "live st' = live st - 1"
    "current_ioc st' = current_ioc st" "maxfdcnt st' = maxfdcnt st"
    "remove_current_ioc st' = remove_current_ioc st"
    "entries st' = swap_remove x (entries st)"
    "dom (idcells st') = dom (idcells st) - {ir_id (ior st ! x)}"
proof -
  obtain m where m: "live st = Suc m" using x by (cases "live st") auto
  have "fdcnt st \<noteq> 0" using m by auto
  then have n: "unat (fdcnt st - 1) = m"
    using m unat_minus_one by fastforce
  have lens: "live st \<le> length (fds st)" "live st \<le> length (ior st)"
    using io_inv_lengths [OF inv] by auto
  let ?q = "ir_id (ior st ! x)" and ?l = "ir_id (ior st ! m)"
  have cx: "idcells st ?q = Some (int x)" and cl: "idcells st ?l = Some (int m)"
    using io_inv_handle [OF inv] x m by auto
  have ne: "?q \<noteq> ?l" if "x \<noteq> m" using io_inv_handle_inj [OF inv x, of m] m that by (metis lessI)
  let ?st = "st\<lparr>fdcnt := fdcnt st - 1,
      fds := (if x \<noteq> m then (fds st)[x := fds st ! m] else fds st),
      ior := (if x \<noteq> m then (ior st)[x := ior st ! m] else ior st),
      idcells := (if x \<noteq> m then (idcells st)(?q := None, ?l \<mapsto> int x) else (idcells st)(?q := None))\<rparr>"
  have run: "io_shrink x st = Ret (0, ?st)"
  proof (cases "x = m")
    case True
    then show ?thesis using lens m cl by (simp add: io_shrink_def Let_def aget_def deref_def n)
  next
    case False
    have "x < length (fds st)" "x < length (ior st)" "m < length (fds st)" "m < length (ior st)"
      using lens m x by auto
    then show ?thesis
      using False cx cl ne [OF False]
      by (simp add: io_shrink_def Let_def aget_def aset_def deref_def n)
  qed
  have ior': "take m (ior ?st) = swap_remove x (take (live st) (ior st))"
    using take_swap_remove [of x m "ior st"] lens x m by simp
  have fds': "take m (fds ?st) = swap_remove x (take (live st) (fds st))"
    using take_swap_remove [of x m "fds st"] lens x m by simp
  have ent: "entries ?st = swap_remove x (entries st)"
  proof (rule nth_equalityI)
    show "length (entries ?st) = length (swap_remove x (entries st))"
      using lens m n x by (simp add: entries_def)
    fix i assume "i < length (entries ?st)"
    then have i: "i < m" using lens m n by (simp add: entries_def)
    have "entries st \<noteq> []" using length_entries [OF inv] m by auto
    then have "last (entries st) = (fds st ! m, ior st ! m)"
      using length_entries [OF inv] nth_entries [OF inv, of m] m by (simp add: last_conv_nth)
    then show "entries ?st ! i = swap_remove x (entries st) ! i"
      using i lens m n x nth_swap_remove [of x "entries st" i] by (auto simp: entries_def)
  qed
  have domid: "dom (idcells ?st) = dom (idcells st) - {?q}"
    using cl ne by auto
  have ids: "idcells ?st (ir_id (ior ?st ! i)) = Some (int i)" if i: "i < m" for i
  proof -
    have "idcells st (ir_id (ior st ! i)) = Some (int i)"
      using io_inv_handle [OF inv, of i] i m by simp
    moreover have "i \<noteq> x \<Longrightarrow> ir_id (ior st ! i) \<noteq> ?q" "ir_id (ior st ! i) \<noteq> ?l"
      using io_inv_handle_inj [OF inv, of i] x i m by auto
    ultimately show ?thesis using ne i lens m by (cases "i = x") auto
  qed
  have "dom (idcells st) - {?q} = ir_id ` set (swap_remove x (take (live st) (ior st)))"
  proof -
    have d: "distinct (map ir_id (take (live st) (ior st)))" by (rule handles_distinct [OF inv])
    have "ir_id ` set (swap_remove x (take (live st) (ior st)))
        = set (swap_remove x (map ir_id (take (live st) (ior st))))"
      by (metis set_map map_swap_remove)
    also have "\<dots> = ir_id ` set (take (live st) (ior st)) - {?q}"
      using set_swap_remove [OF d, of x] lens x by (simp add: nth_map)
    finally show ?thesis using inv by (simp add: io_inv_def)
  qed
  then have dom': "dom (idcells ?st) = ir_id ` set (take m (ior ?st))"
    using domid ior' by simp
  have "io_inv ?st"
    unfolding io_inv_def using inv ids dom' m n by (simp add: io_inv_def)
  then show thesis
    using that [of ?st] run ent domid m n by simp
qed

section \<open>The table as a map from handles\<close>

text \<open>
  What a client relies on: a handle stands for a descriptor, its events, a callback and its
  data, whatever index the entry has at the moment.
\<close>

definition entry_pair :: "pollfd \<times> ('c, 'd) io_rec \<Rightarrow> nat \<times> int \<times> u16 \<times> 'c \<times> 'd" where
  "entry_pair e = (case e of (p, r) \<Rightarrow> (ir_id r, pfd_fd p, pfd_events p, ir_callback r, ir_data r))"

definition io_lookup :: "('c, 'd) io_state \<Rightarrow> nat \<Rightarrow> (int \<times> u16 \<times> 'c \<times> 'd) option" where
  "io_lookup st = map_of (map entry_pair (entries st))"

lemma map_fst_entry_pair:
  "io_inv st \<Longrightarrow> map fst (map entry_pair (entries st)) = map ir_id (take (live st) (ior st))"
  using io_inv_lengths [of st]
  by (auto simp: entries_def entry_pair_def intro!: nth_equalityI)

lemma entry_keys_distinct: "io_inv st \<Longrightarrow> distinct (map fst (map entry_pair (entries st)))"
  unfolding map_fst_entry_pair by (rule handles_distinct)

lemma dom_io_lookup:
  assumes "io_inv st"
  shows "dom (io_lookup st) = dom (idcells st)"
proof -
  have "dom (io_lookup st) = set (map fst (map entry_pair (entries st)))"
    by (simp add: io_lookup_def dom_map_of_conv_image_fst image_image)
  then show ?thesis using assms by (simp only: map_fst_entry_pair) (simp add: io_inv_def)
qed

lemma map_of_filter_key: "map_of (filter (\<lambda>p. fst p \<noteq> k) xs) = (map_of xs)(k := None)"
  by (induction xs) (auto simp: fun_eq_iff)

lemma map_of_swap_remove:
  assumes "distinct (map fst xs)" "x < length xs"
  shows "map_of (swap_remove x xs) = (map_of xs)(fst (xs ! x) := None)"
proof -
  have "map fst (swap_remove x xs) = swap_remove x (map fst xs)" by (rule map_swap_remove)
  then have d: "distinct (map fst (swap_remove x xs))"
    using distinct_swap_remove [OF assms(1), of x] assms(2) by simp
  let ?ys = "filter (\<lambda>p. fst p \<noteq> fst (xs ! x)) xs"
  have "set (swap_remove x xs) = set xs - {xs ! x}"
    using set_swap_remove assms by (metis distinct_map)
  also have "\<dots> = set ?ys"
    using assms distinct_map [of fst xs] nth_mem [of x xs] unfolding set_filter inj_on_def by blast
  finally have "map_of (swap_remove x xs) = map_of ?ys"
    using d assms(1) by (subst map_of_inject_set) (auto simp: distinct_map_filter)
  also have "\<dots> = (map_of xs)(fst (xs ! x) := None)"
    by (rule map_of_filter_key)
  finally show ?thesis .
qed

lemma map_of_list_update:
  assumes "distinct (map fst xs)" "j < length xs"
  shows "map_of (xs[j := (fst (xs ! j), y)]) = (map_of xs)(fst (xs ! j) \<mapsto> y)"
  using assms
proof (induction xs arbitrary: j)
  case (Cons a xs)
  show ?case
  proof (cases j)
    case (Suc k)
    then have upd: "map_of (xs[k := (fst (xs ! k), y)]) = (map_of xs)(fst (xs ! k) \<mapsto> y)"
      by (intro Cons.IH) (use Cons.prems Suc in auto)
    moreover have "fst (xs ! k) \<in> fst ` set xs" using Cons.prems Suc by simp
    moreover have "fst a \<notin> fst ` set xs" using Cons.prems by simp
    ultimately have "fst (xs ! k) \<noteq> fst a" by metis
    with upd show ?thesis using Suc by (auto simp: fun_eq_iff)
  qed auto
qed simp

lemma io_lookup_shrink:
  assumes "io_inv st" "x < live st" "entries st' = swap_remove x (entries st)"
  shows "io_lookup st' = (io_lookup st)(ir_id (ior st ! x) := None)"
proof -
  have "x < length (map entry_pair (entries st))"
    using assms(2) length_entries [OF assms(1)] by simp
  moreover from this have "fst (map entry_pair (entries st) ! x) = ir_id (ior st ! x)"
    using nth_entries [OF assms(1,2)] by (simp add: entry_pair_def)
  ultimately show ?thesis
    using map_of_swap_remove [OF entry_keys_distinct [OF assms(1)], of x] assms(3)
    by (simp add: io_lookup_def map_swap_remove)
qed

lemma below_fdcnt_iff:
  "i < 2 ^ 32 \<Longrightarrow> below_fdcnt (int i) st \<longleftrightarrow> i < live st"
  by (simp add: below_fdcnt_def word_less_nat_alt unat_of_nat)

lemma io_remove_inv:
  assumes "io_inv st" "current_ioc st = -1" "q \<in> dom (idcells st)"
  obtains st' where "cheops_io_remove q st = Ret (0, st')" "io_inv st'" "current_ioc st' = -1"
    "maxfdcnt st' = maxfdcnt st" "io_lookup st' = (io_lookup st)(q := None)"
    "dom (idcells st') = dom (idcells st) - {q}"
proof -
  obtain v where v: "idcells st q = Some v" using assms(3) by auto
  obtain i where i: "i < live st" "ir_id (ior st ! i) = q" "v = int i"
    using io_inv_cell [OF assms(1) v] .
  obtain st' where st': "io_shrink i st = Ret (0, st')" "io_inv st'" "current_ioc st' = current_ioc st"
    "maxfdcnt st' = maxfdcnt st" "entries st' = swap_remove i (entries st)"
    "dom (idcells st') = dom (idcells st) - {ir_id (ior st ! i)}"
    using io_shrink_inv [OF assms(1) i(1)] by metis
  have "below_fdcnt v st" using i io_inv_lengths(3) [OF assms(1)] by (simp add: below_fdcnt_iff)
  then have "cheops_io_remove q st = Ret (0, st')"
    using v i(3) assms(2) st'(1) by (simp add: cheops_io_remove_def deref_def)
  then show thesis
    using that st' io_lookup_shrink [OF assms(1) i(1) st'(5)] assms(2) i(2) by simp
qed

lemma io_change_inv:
  assumes "io_inv st" "q \<in> dom (idcells st)"
  obtains st' e where "cheops_io_change q fd cb ev d st = Ret (Some q, st')" "io_inv st'"
    "current_ioc st' = current_ioc st" "maxfdcnt st' = maxfdcnt st" "idcells st' = idcells st"
    "io_lookup st q = Some e"
    "io_lookup st' = (io_lookup st)(q \<mapsto>
       (case e of (f0, ev0, c0, d0) \<Rightarrow>
         (if fd > -1 then fd else f0, if ev \<noteq> 0 then ev else ev0,
          case cb of None \<Rightarrow> c0 | Some c \<Rightarrow> c, case d of None \<Rightarrow> d0 | Some x \<Rightarrow> x)))"
proof -
  obtain v where v: "idcells st q = Some v" using assms(2) by auto
  obtain i where i: "i < live st" "ir_id (ior st ! i) = q" "v = int i"
    using io_inv_cell [OF assms(1) v] .
  have lens: "live st \<le> length (fds st)" "live st \<le> length (ior st)"
    using io_inv_lengths [OF assms(1)] by auto
  have bel: "below_fdcnt v st" using i io_inv_lengths(3) [OF assms(1)] by (simp add: below_fdcnt_iff)
  let ?p = "fds st ! i" and ?r = "ior st ! i"
  let ?p' = "?p\<lparr>pfd_fd := (if fd > -1 then fd else pfd_fd ?p),
      pfd_events := (if ev \<noteq> 0 then ev else pfd_events ?p)\<rparr>"
  let ?r' = "?r\<lparr>ir_callback := (case cb of None \<Rightarrow> ir_callback ?r | Some c \<Rightarrow> c),
      ir_data := (case d of None \<Rightarrow> ir_data ?r | Some x \<Rightarrow> x)\<rparr>"
  let ?st' = "st\<lparr>fds := (fds st)[i := ?p'], ior := (ior st)[i := ?r']\<rparr>"
  have run: "cheops_io_change q fd cb ev d st = Ret (Some q, ?st')"
    using v i bel lens by (simp add: cheops_io_change_def deref_def aget_def)
  have ids: "map ir_id (take (live st) (ior ?st')) = map ir_id (take (live st) (ior st))"
    using i lens by (auto intro!: nth_equalityI simp: nth_list_update)
  have idn: "ir_id (ior ?st' ! j) = ir_id (ior st ! j)" if "j < live st" for j
    using that lens by (cases "j = i") auto
  have "io_inv ?st'"
    using assms(1) ids [THEN arg_cong, of set] idn by (auto simp: io_inv_def)
  moreover
  have ent: "entries ?st' = (entries st)[i := (?p', ?r')]"
    by (simp add: entries_def take_update_swap update_zip)
  have le: "i < length (entries st)" using i length_entries [OF assms(1)] by simp
  have key: "map entry_pair (entries st) ! i = (q, pfd_fd ?p, pfd_events ?p, ir_callback ?r, ir_data ?r)"
    using nth_entries [OF assms(1) i(1)] le i(2) by (simp add: entry_pair_def)
  have look: "io_lookup st q = Some (pfd_fd ?p, pfd_events ?p, ir_callback ?r, ir_data ?r)"
    using entry_keys_distinct [OF assms(1)] key le
    by (metis io_lookup_def length_map map_of_eq_Some_iff nth_mem)
  moreover have "io_lookup ?st' = (io_lookup st)(q \<mapsto> snd (entry_pair (?p', ?r')))"
  proof -
    from map_of_list_update [OF entry_keys_distinct [OF assms(1)], of i "snd (entry_pair (?p', ?r'))"] le key
    show ?thesis
      by (simp add: io_lookup_def ent map_update entry_pair_def i(2))
  qed
  ultimately show thesis
    using run by (intro that [of ?st']) (auto simp: entry_pair_def)
qed

lemma io_lookup_snoc:
  assumes "io_inv st" "q \<notin> dom (idcells st)"
    "entries st' = entries st @ [e]" "fst (entry_pair e) = q"
  shows "io_lookup st' = (io_lookup st)(q \<mapsto> snd (entry_pair e))"
proof -
  obtain k v where e: "entry_pair e = (k, v)" by (cases "entry_pair e")
  have "io_lookup st q = None" using dom_io_lookup [OF assms(1)] assms(2) by auto
  then show ?thesis
    using assms(3,4) e by (auto simp: io_lookup_def map_add_def fun_eq_iff split: option.split)
qed

section \<open>The contract of the table\<close>

text \<open>
  A client sees a finite map from handles to what it registered. The laws say how adding,
  changing and removing act on it; they hold while the table has room to grow.
\<close>

locale handle_table =
  fixes ok :: "'s \<Rightarrow> bool"
    and look :: "'s \<Rightarrow> 'h \<Rightarrow> 'v option"
    and add :: "'h \<Rightarrow> 'v \<Rightarrow> 's \<Rightarrow> 's option"
    and remove :: "'h \<Rightarrow> 's \<Rightarrow> 's option"
  assumes add_ok: "ok s \<Longrightarrow> look s h = None \<Longrightarrow> add h v s = Some t \<Longrightarrow> ok t \<and> look t = (look s)(h \<mapsto> v)"
    and remove_total: "ok s \<Longrightarrow> look s h \<noteq> None \<Longrightarrow> remove h s \<noteq> None"
    and remove_ok: "ok s \<Longrightarrow> look s h \<noteq> None \<Longrightarrow> remove h s = Some t \<Longrightarrow> ok t \<and> look t = (look s)(h := None)"
begin

lemma add_remove:
  assumes "ok s" "look s h = None" "add h v s = Some t"
  obtains u where "remove h t = Some u" "ok u" "look u = look s"
proof -
  have t: "ok t" "look t = (look s)(h \<mapsto> v)" using add_ok [OF assms] by auto
  then obtain u where u: "remove h t = Some u" using remove_total [of t h] by auto
  then have "look u = (look t)(h := None)" "ok u" using remove_ok [of t h u] t by auto
  then show thesis using that u t assms(2) by (metis fun_upd_triv fun_upd_upd)
qed

lemma remove_other:
  assumes "ok s" "look s h \<noteq> None" "remove h s = Some t" "k \<noteq> h"
  shows "look t k = look s k"
  using remove_ok [OF assms(1-3)] assms(4) by simp

lemma remove_commute:
  assumes "ok s" "look s h \<noteq> None" "look s k \<noteq> None" "h \<noteq> k"
    "remove h s = Some t" "remove k s = Some u"
  obtains t' u' where "remove k t = Some t'" "remove h u = Some u'" "look t' = look u'"
proof -
  have t: "ok t" "look t = (look s)(h := None)" and u: "ok u" "look u = (look s)(k := None)"
    using remove_ok assms by metis+
  obtain t' where t': "remove k t = Some t'" using remove_total [of t k] t assms by auto
  obtain u' where u': "remove h u = Some u'" using remove_total [of u h] u assms by auto
  have "look t' = (look t)(k := None)" using remove_ok [OF t(1) _ t'] t assms(3,4) by simp
  moreover have "look u' = (look u)(h := None)" using remove_ok [OF u(1) _ u'] u assms(2,4) by simp
  ultimately have "look t' = look u'" using t u assms(4) by (auto simp: fun_eq_iff)
  with t' u' show thesis by (rule that)
qed

end

text \<open>
  The C operations as the contract has them: an add whose allocations succeed, and a removal
  outside a callback.
\<close>

definition quiet_ok :: "('c, 'd) io_state \<Rightarrow> bool" where
  "quiet_ok st \<longleftrightarrow> io_inv st \<and> current_ioc st = -1"

definition table_add ::
  "nat \<Rightarrow> int \<times> u16 \<times> 'c \<times> 'd \<Rightarrow> ('c, 'd) io_state \<Rightarrow> ('c, 'd) io_state option" where
  "table_add q v st =
     (case v of (fd, ev, cb, d) \<Rightarrow>
       if room st
       then (case cheops_io_add
               (Some \<lparr>ir_callback = cb, ir_data = d, ir_id = q\<rparr>,
                Some \<lparr>pfd_fd = fd, pfd_events = ev, pfd_revents = 0\<rparr>) (Some q) fd cb ev d st of
               Ret (Some _, st') \<Rightarrow> Some st' | _ \<Rightarrow> None)
       else None)"

definition table_remove :: "nat \<Rightarrow> ('c, 'd) io_state \<Rightarrow> ('c, 'd) io_state option" where
  "table_remove q st =
     (case cheops_io_remove q st of Ret (r, st') \<Rightarrow> (if r = 0 then Some st' else None) | _ \<Rightarrow> None)"

lemma table_add_ok:
  assumes "quiet_ok st" "io_lookup st q = None" "table_add q v st = Some st'"
  shows "quiet_ok st' \<and> io_lookup st' = (io_lookup st)(q \<mapsto> v)"
proof -
  obtain fd ev cb d where v: "v = (fd, ev, cb, d)" by (cases v) auto
  have inv: "io_inv st" and room: "room st"
    using assms(1,3) by (auto simp: quiet_ok_def table_add_def v split: if_splits)
  have fresh: "idcells st q = None"
    using dom_io_lookup [OF inv] assms(2) by (metis domIff)
  let ?m = "(Some \<lparr>ir_callback = cb, ir_data = d, ir_id = q\<rparr>,
      Some \<lparr>pfd_fd = fd, pfd_events = ev, pfd_revents = 0\<rparr>)"
  obtain r st2 where run: "cheops_io_add ?m (Some q) fd cb ev d st = Ret (r, st2)"
    and st2: "io_inv st2" "current_ioc st2 = current_ioc st" "r = None \<or> r = Some q"
      "\<And>q. r = Some q \<Longrightarrow> entries st2 = entries st @
         [(\<lparr>pfd_fd = fd, pfd_events = ev, pfd_revents = 0\<rparr>, \<lparr>ir_callback = cb, ir_data = d, ir_id = q\<rparr>)]"
    by (rule io_add_inv [OF inv room, where p = "Some q" and m = ?m and fd = fd and cb = cb and ev = ev and d = d])
      (use fresh in blast)+
  have "st' = st2" "r = Some q"
    using assms(3) run room st2(3) by (auto simp: table_add_def v split: option.splits)
  moreover have "io_lookup st2 = (io_lookup st)(q \<mapsto> v)" if "r = Some q"
    using io_lookup_snoc [OF inv _ st2(4) [OF that]] fresh by (auto simp: entry_pair_def v)
  ultimately show ?thesis using st2 assms(1) by (simp add: quiet_ok_def)
qed

interpretation iotab: handle_table quiet_ok io_lookup table_add table_remove
proof
  fix s t :: "('c, 'd) io_state" and h v
  assume "quiet_ok s" "io_lookup s h = None" "table_add h v s = Some t"
  then show "quiet_ok t \<and> io_lookup t = (io_lookup s)(h \<mapsto> v)" by (rule table_add_ok)
next
  fix s t :: "('c, 'd) io_state" and h
  assume s: "quiet_ok s" "io_lookup s h \<noteq> None"
  then have i: "io_inv s" "current_ioc s = -1" by (simp_all add: quiet_ok_def)
  then have "h \<in> dom (idcells s)" using dom_io_lookup [of s] s by auto
  with i obtain u where u: "cheops_io_remove h s = Ret (0, u)" "io_inv u" "current_ioc u = -1"
    "io_lookup u = (io_lookup s)(h := None)"
    using io_remove_inv [of s h] by metis
  then show "table_remove h s \<noteq> None" by (simp add: table_remove_def)
  assume "table_remove h s = Some t"
  with u show "quiet_ok t \<and> io_lookup t = (io_lookup s)(h := None)"
    by (simp add: table_remove_def quiet_ok_def)
qed

section \<open>Waiting\<close>

text \<open>Writing what \<^verbatim>\<open>poll\<close> found into an entry, and what an entry says.\<close>

lemma revents_look:
  assumes "quiet_ok io" "x < live io"
  shows "quiet_ok (io\<lparr>fds := (fds io)[x := (fds io ! x)\<lparr>pfd_revents := ev\<rparr>]\<rparr>)"
    "io_lookup (io\<lparr>fds := (fds io)[x := (fds io ! x)\<lparr>pfd_revents := ev\<rparr>]\<rparr>) = io_lookup io"
proof -
  let ?io = "io\<lparr>fds := (fds io)[x := (fds io ! x)\<lparr>pfd_revents := ev\<rparr>]\<rparr>"
  have inv: "io_inv io" using assms(1) by (simp add: quiet_ok_def)
  then have inv': "io_inv ?io" by (simp add: io_inv_def)
  then show "quiet_ok ?io" using assms(1) by (simp add: quiet_ok_def)
  have lens: "live io \<le> length (fds io)" using io_inv_lengths [OF inv] by simp
  have "map entry_pair (entries ?io) = map entry_pair (entries io)"
  proof (rule nth_equalityI)
    fix i assume "i < length (map entry_pair (entries ?io))"
    then have i: "i < live io" using length_entries [OF inv'] by simp
    then show "map entry_pair (entries ?io) ! i = map entry_pair (entries io) ! i"
      using nth_entries [OF inv i] nth_entries [OF inv', of i] lens length_entries [OF inv] length_entries [OF inv']
      by (cases "i = x") (simp_all add: entry_pair_def)
  qed (use length_entries [OF inv] length_entries [OF inv'] in simp)
  then show "io_lookup ?io = io_lookup io" by (simp add: io_lookup_def)
qed

lemma io_entry:
  assumes "quiet_ok io" "x < live io"
  shows "io_lookup io (ir_id (ior io ! x)) =
    Some (pfd_fd (fds io ! x), pfd_events (fds io ! x), ir_callback (ior io ! x), ir_data (ior io ! x))"
proof -
  have inv: "io_inv io" using assms(1) by (simp add: quiet_ok_def)
  have "entry_pair (entries io ! x) \<in> set (map entry_pair (entries io))"
    using length_entries [OF inv] assms(2) by simp
  then show ?thesis
    using nth_entries [OF inv assms(2)] entry_keys_distinct [OF inv]
    by (auto simp: io_lookup_def entry_pair_def)
qed

text \<open>
  A callback that keeps to its own entry: it answers an \<^verbatim>\<open>int\<close>, may ask for its own removal,
  and changes the rest of the program at will. Each call is logged with its handle and
  whether it gave up its entry.
\<close>

definition logged ::
  "(nat \<Rightarrow> 'c \<Rightarrow> int \<Rightarrow> u16 \<Rightarrow> 'd \<Rightarrow> 'e \<Rightarrow> int \<times> bool \<times> 'e) \<Rightarrow> ('c, 'd, 'e \<times> (nat \<times> bool) list) io_callback_sem" where
  "logged f c h fd ev d w =
     (case w of (st, e, log) \<Rightarrow>
      case f h c fd ev d e of (r, self, e') \<Rightarrow>
        Ret (r, st\<lparr>remove_current_ioc := self\<rparr>, e', log @ [(h, r = 0 \<or> self)]))"

definition fired :: "(pollfd \<times> ('c, 'd) io_rec) list \<Rightarrow> nat list" where
  "fired es = map (\<lambda>(p, r). ir_id r) (filter (\<lambda>(p, r). pfd_revents p \<noteq> 0) es)"

lemma io_inv_ioc [simp]:
  "io_inv (st\<lparr>remove_current_ioc := b\<rparr>) = io_inv st"
  "io_inv (st\<lparr>current_ioc := v\<rparr>) = io_inv st"
  by (simp_all add: io_inv_def)

lemma entries_ioc [simp]:
  "entries (st\<lparr>remove_current_ioc := b\<rparr>) = entries st"
  "entries (st\<lparr>current_ioc := v\<rparr>) = entries st"
  by (simp_all add: entries_def)

lemma io_lookup_ioc [simp]:
  "io_lookup (st\<lparr>remove_current_ioc := b\<rparr>) = io_lookup st"
  "io_lookup (st\<lparr>current_ioc := v\<rparr>) = io_lookup st"
  by (simp_all add: io_lookup_def)

lemma drop_swap_remove_subset:
  "x < length xs \<Longrightarrow> set (drop (Suc x) (swap_remove x xs)) \<subseteq> set (drop (Suc x) xs)"
  by (cases xs rule: rev_cases) (auto simp: swap_remove_def drop_update_cancel)

text \<open>One round of the loop body at an entry that exists.\<close>

lemma io_dispatch_logged:
  assumes inv: "io_inv st" and x: "x < live st"
  obtains st' e' log' where "io_dispatch (logged f) x (st, e, log) = Ret (st', e', log @ log')"
    "io_inv st'" "live st' \<le> live st"
    "pfd_revents (fds st ! x) = 0 \<Longrightarrow> log' = [] \<and> entries st' = entries st"
    "pfd_revents (fds st ! x) \<noteq> 0 \<Longrightarrow> \<exists>b. log' = [(ir_id (ior st ! x), b)] \<and>
       entries st' = (if b then swap_remove x (entries st) else entries st)"
    "io_lookup st' = (io_lookup st) |` (- {h. (h, True) \<in> set log'})"
proof (cases "pfd_revents (fds st ! x) = 0")
  case True
  then show thesis
    using that [of st e "[]"] inv x io_inv_lengths(1) [OF inv]
    by (simp add: io_dispatch_def aget_def restrict_map_def)
next
  case False
  let ?h = "ir_id (ior st ! x)" and ?p = "fds st ! x" and ?r = "ior st ! x"
  have lens: "x < length (fds st)" "x < length (ior st)" using io_inv_lengths [OF inv] x by auto
  have h: "idcells st ?h = Some (int x)" by (rule io_inv_handle [OF inv x])
  obtain r self e1 where f: "f ?h (ir_callback ?r) (pfd_fd ?p) (pfd_revents ?p) (ir_data ?r) e = (r, self, e1)"
    by (metis prod_cases3)
  let ?b = "r = 0 \<or> self"
  let ?st1 = "st\<lparr>current_ioc := int x, remove_current_ioc := self\<rparr>"
  show thesis
  proof (cases ?b)
    case True
    obtain st2 where st2: "io_shrink x ?st1 = Ret (0, st2)" "io_inv st2" "live st2 = live st - 1"
      "entries st2 = swap_remove x (entries st)"
    proof (rule io_shrink_inv [of ?st1 x])
      show "io_inv ?st1" "x < live ?st1" using inv x by simp_all
    qed auto
    have "io_lookup st2 = (io_lookup st)(?h := None)" by (rule io_lookup_shrink [OF inv x st2(4)])
    moreover have "io_dispatch (logged f) x (st, e, log)
        = Ret (st2\<lparr>current_ioc := -1\<rparr>, e1, log @ [(?h, True)])"
      using True False by (auto simp: io_dispatch_def aget_def deref_def logged_def lens h f st2(1))
    ultimately show thesis
      using st2(2-4) False
      by (intro that [of "st2\<lparr>current_ioc := -1\<rparr>" e1 "[(?h, True)]"])
        (auto simp: restrict_map_def fun_eq_iff)
  next
    case b: False
    then have "io_dispatch (logged f) x (st, e, log)
        = Ret (?st1\<lparr>current_ioc := -1\<rparr>, e1, log @ [(?h, False)])"
      using False by (auto simp: io_dispatch_def aget_def deref_def logged_def lens h f)
    then show thesis
      using inv False by (intro that [of "?st1\<lparr>current_ioc := -1\<rparr>" e1 "[(?h, False)]"]) auto
  qed
qed

lemma fired_Cons:
  "fired (e # es) = (if pfd_revents (fst e) \<noteq> 0 then ir_id (snd e) # fired es else fired es)"
  by (cases e) (simp add: fired_def)

lemma fired_drop:
  assumes "io_inv st" "x < live st"
  shows "fired (drop x (entries st)) =
     (if pfd_revents (fds st ! x) \<noteq> 0 then [ir_id (ior st ! x)] else []) @ fired (drop (Suc x) (entries st))"
proof -
  have "drop x (entries st) = (fds st ! x, ior st ! x) # drop (Suc x) (entries st)"
    using assms by (simp add: Cons_nth_drop_Suc [symmetric] length_entries nth_entries)
  then show ?thesis by (simp add: fired_Cons)
qed

lemma map_ir_id_entries:
  "io_inv st \<Longrightarrow> map (\<lambda>(p, r). ir_id r) (entries st) = map ir_id (take (live st) (ior st))"
  using io_inv_lengths [of st] by (auto simp: entries_def intro!: nth_equalityI)

lemma fired_fresh:
  assumes "io_inv st" "x < live st"
  shows "ir_id (ior st ! x) \<notin> set (fired (drop (Suc x) (entries st)))"
proof
  let ?ks = "map (\<lambda>(p, r). ir_id r) (entries st)"
  assume "ir_id (ior st ! x) \<in> set (fired (drop (Suc x) (entries st)))"
  then have "?ks ! x \<in> set (drop (Suc x) ?ks)"
    using assms by (auto simp: fired_def drop_map length_entries nth_entries intro: rev_image_eqI)
  moreover have "distinct ?ks" using map_ir_id_entries [OF assms(1)] handles_distinct [OF assms(1)] by simp
  moreover have "x < length ?ks" using assms by (simp add: length_entries)
  ultimately show False by (metis id_take_nth_drop distinct.simps(2) distinct_append)
qed

lemma io_wait_loop_logged:
  assumes "io_inv st" "live st - x < n"
  shows "\<exists>st' e' log'. io_wait_loop n (logged f) x (st, e, log) = Ret (st', e', log @ log') \<and>
     io_inv st' \<and> distinct (map fst log') \<and>
     set (map fst log') \<subseteq> set (fired (drop x (entries st))) \<and>
     io_lookup st' = (io_lookup st) |` (- {h. (h, True) \<in> set log'}) \<and>
     ((\<forall>h. (h, True) \<notin> set log') \<longrightarrow>
        map fst log' = fired (drop x (entries st)) \<and> entries st' = entries st)"
  using assms
proof (induction n arbitrary: st x e log)
  case 0
  then show ?case by simp
next
  case (Suc n)
  show ?case
  proof (cases "x < live st")
    case False
    then have "drop x (entries st) = []" using length_entries [OF Suc.prems(1)] by simp
    then show ?thesis using Suc.prems False
      by (intro exI [of _ st] exI [of _ e] exI [of _ "[]"]) (simp add: fired_def restrict_map_def)
  next
    case True
    let ?h = "ir_id (ior st ! x)"
    obtain st1 e1 l1 where d: "io_dispatch (logged f) x (st, e, log) = Ret (st1, e1, log @ l1)"
      and st1: "io_inv st1" "live st1 \<le> live st"
        "pfd_revents (fds st ! x) = 0 \<Longrightarrow> l1 = [] \<and> entries st1 = entries st"
        "pfd_revents (fds st ! x) \<noteq> 0 \<Longrightarrow> \<exists>b. l1 = [(?h, b)] \<and>
           entries st1 = (if b then swap_remove x (entries st) else entries st)"
        "io_lookup st1 = (io_lookup st) |` (- {h. (h, True) \<in> set l1})"
      using io_dispatch_logged [OF Suc.prems(1) True] by metis
    have "live st1 - Suc x < n" using st1(2) Suc.prems(2) True by simp
    from Suc.IH [OF st1(1) this, of e1 "log @ l1"] obtain st' e' l2 where
      ih: "io_wait_loop n (logged f) (Suc x) (st1, e1, log @ l1) = Ret (st', e', (log @ l1) @ l2)"
        "io_inv st'" "distinct (map fst l2)" "set (map fst l2) \<subseteq> set (fired (drop (Suc x) (entries st1)))"
        "io_lookup st' = (io_lookup st1) |` (- {h. (h, True) \<in> set l2})"
        "(\<forall>h. (h, True) \<notin> set l2) \<Longrightarrow>
           map fst l2 = fired (drop (Suc x) (entries st1)) \<and> entries st' = entries st1"
      by blast
    have sub: "set (fired (drop (Suc x) (entries st1))) \<subseteq> set (fired (drop (Suc x) (entries st)))"
      using st1(3,4) drop_swap_remove_subset [of x "entries st"] True length_entries [OF Suc.prems(1)]
      by (cases "pfd_revents (fds st ! x) = 0") (auto simp: fired_def split: if_splits)
    have l1: "map fst l1 = (if pfd_revents (fds st ! x) \<noteq> 0 then [?h] else [])"
      using st1(3,4) by auto
    have "distinct (map fst (l1 @ l2))"
      using ih(3,4) sub fired_fresh [OF Suc.prems(1) True] l1 by auto
    moreover have "set (map fst (l1 @ l2)) \<subseteq> set (fired (drop x (entries st)))"
      using ih(4) sub l1 fired_drop [OF Suc.prems(1) True] by auto
    moreover have "io_lookup st' = (io_lookup st) |` (- {h. (h, True) \<in> set (l1 @ l2)})"
      unfolding ih(5) st1(5) by (auto simp: restrict_map_def fun_eq_iff)
    moreover have "map fst (l1 @ l2) = fired (drop x (entries st)) \<and> entries st' = entries st"
      if no: "\<forall>h. (h, True) \<notin> set (l1 @ l2)"
    proof -
      have "entries st1 = entries st"
        using st1(3,4) no by (cases "pfd_revents (fds st ! x) = 0") auto
      then show ?thesis using ih(6) no l1 fired_drop [OF Suc.prems(1) True] by auto
    qed
    moreover have "io_wait_loop (Suc n) (logged f) x (st, e, log) = Ret (st', e', log @ (l1 @ l2))"
      using d ih(1) True by simp
    ultimately show ?thesis using ih(2) by blast
  qed
qed

section \<open>Properties\<close>

text \<open>
  The states a client reaches outside the callbacks; \<open>k\<close> counts the adds, since every add
  grows the arrays by 512 and \<^verbatim>\<open>maxfdcnt\<close> has 32 bits. The client uses the handles that it was
  given and has not given back.
\<close>

inductive io_reach :: "nat \<Rightarrow> ('c, 'd) io_state \<Rightarrow> bool" where
  init: "io_reach 0 io_init"
| add: "io_reach k st \<Longrightarrow> (\<And>q. p = Some q \<Longrightarrow> idcells st q = None) \<Longrightarrow>
    cheops_io_add m p fd cb ev d st = Ret (r, st') \<Longrightarrow> io_reach (Suc k) st'"
| change: "io_reach k st \<Longrightarrow> q \<in> dom (idcells st) \<Longrightarrow>
    cheops_io_change q fd cb' ev d' st = Ret (r, st') \<Longrightarrow> io_reach k st'"
| remove: "io_reach k st \<Longrightarrow> q \<in> dom (idcells st) \<Longrightarrow>
    cheops_io_remove q st = Ret (r', st') \<Longrightarrow> io_reach k st'"

lemma io_init_inv: "io_inv io_init" "current_ioc io_init = -1"
  by (simp_all add: io_inv_def io_init_def)

lemma io_reach_size:
  "io_reach k st \<Longrightarrow> k < 8388607 \<Longrightarrow>
     io_inv st \<and> current_ioc st = -1 \<and> unat (maxfdcnt st + 1) \<le> 512 * k"
proof (induction rule: io_reach.induct)
  case init
  then show ?case by (simp add: io_init_inv) (simp add: io_init_def)
next
  case (add k st p m fd cb ev d r st')
  then have i: "io_inv st" "current_ioc st = -1" "unat (maxfdcnt st + 1) \<le> 512 * k" by auto
  then have "room st" using add.prems by (simp add: room_def)
  from io_add_inv [OF i(1) this add.hyps(2)] obtain r2 st2 where
    "cheops_io_add m p fd cb ev d st = Ret (r2, st2)" "io_inv st2" "current_ioc st2 = -1"
    "unat (maxfdcnt st2 + 1) \<le> unat (maxfdcnt st + 1) + 512"
    using i(2) by metis
  with add.hyps(3) i(3) show ?case by auto
next
  case (change k st q fd cb' ev d' r st')
  then have i: "io_inv st" "current_ioc st = -1" "unat (maxfdcnt st + 1) \<le> 512 * k" by auto
  from io_change_inv [OF i(1) change.hyps(2)] obtain st2 where
    "cheops_io_change q fd cb' ev d' st = Ret (Some q, st2)" "io_inv st2"
    "current_ioc st2 = current_ioc st" "maxfdcnt st2 = maxfdcnt st"
    by metis
  with change.hyps(3) i show ?case by auto
next
  case (remove k st q r' st')
  then have i: "io_inv st" "current_ioc st = -1" "unat (maxfdcnt st + 1) \<le> 512 * k" by auto
  from io_remove_inv [OF i(1,2) remove.hyps(2)] obtain st2 where
    "cheops_io_remove q st = Ret (0, st2)" "io_inv st2" "current_ioc st2 = -1"
    "maxfdcnt st2 = maxfdcnt st"
    by metis
  with remove.hyps(3) i show ?case by auto
qed

text \<open>A table with one entry, for the examples.\<close>

definition io_one :: "(int, int) io_state" where
  "io_one = \<lparr>fds = (replicate 512 \<lparr>pfd_fd = 0, pfd_events = 0, pfd_revents = 0\<rparr>)
                [0 := \<lparr>pfd_fd = 3, pfd_events = 1, pfd_revents = 0\<rparr>],
     ior = (replicate 512 \<lparr>ir_callback = 0, ir_data = 0, ir_id = 0\<rparr>)
                [0 := \<lparr>ir_callback = 1, ir_data = 10, ir_id = 7\<rparr>],
     idcells = [7 \<mapsto> 0], fdcnt = 1, maxfdcnt = 511, current_ioc = -1, remove_current_ioc = False\<rparr>"

lemma io_one_cells: "idcells io_one = [7 \<mapsto> 0]" "live io_one = 1"
  by (simp_all add: io_one_def)

lemma io_one_reach: "io_reach 1 io_one"
proof -
  have "cheops_io_add (Some \<lparr>ir_callback = 0, ir_data = 0, ir_id = 0\<rparr>,
      Some \<lparr>pfd_fd = 0, pfd_events = 0, pfd_revents = 0\<rparr>) (Some 7) 3 1 1 10 io_init = Ret (Some 7, io_one)"
    by (simp add: cheops_io_add_def io_grow_def io_init_def io_one_def Let_def GROW_SHRINK_SIZE_def
        aset_def aget_def resize_def word_gt_0)
  from io_reach.add [OF io_reach.init _ this] show ?thesis by (simp add: io_init_def)
qed

text \<open>
  C5. Memory safety of the descriptor table: in every state reached by fewer than 8388607
  adds, and any changes and removals of live handles, with any allocation failures, the
  arrays hold the live entries, every handle cell holds its entry's index, no handle has
  leaked, and the next add, change or removal of a live handle has a defined outcome.
\<close>

theorem io_reachable_safe:
  assumes "io_reach k st" "k < 8388607"
  shows "io_inv st
     \<and> (\<forall>m p fd cb ev d. (p = None \<or> the p \<notin> dom (idcells st)) \<longrightarrow>
          (\<exists>r st'. cheops_io_add m p fd cb ev d st = Ret (r, st')))
     \<and> (\<forall>q \<in> dom (idcells st). (\<exists>st'. cheops_io_remove q st = Ret (0, st')) \<and>
          (\<forall>fd cb ev d. \<exists>st'. cheops_io_change q fd cb ev d st = Ret (Some q, st')))"
proof (intro conjI allI ballI impI)
  have i: "io_inv st" "current_ioc st = -1" "room st"
    using io_reach_size [OF assms] assms(2) by (simp_all add: room_def)
  show "io_inv st" by (rule i(1))
  show "\<exists>r st'. cheops_io_add m p fd cb ev d st = Ret (r, st')"
    if "p = None \<or> the p \<notin> dom (idcells st)" for m p fd cb ev d
  proof (rule io_add_inv [OF i(1,3), of p m fd cb ev d])
    show "\<And>q. p = Some q \<Longrightarrow> idcells st q = None" using that by auto
  qed auto
  show "\<exists>st'. cheops_io_remove q st = Ret (0, st')" if "q \<in> dom (idcells st)" for q
    by (rule io_remove_inv [OF i(1,2) that]) auto
  show "\<exists>st'. cheops_io_change q fd cb ev d st = Ret (Some q, st')"
    if "q \<in> dom (idcells st)" for q fd cb ev d
    by (rule io_change_inv [OF i(1) that]) auto
qed

lemma io_reachable_safe_witness:
  "io_inv io_one \<and> (\<exists>st'. cheops_io_remove 7 io_one = Ret (0, st'))
   \<and> (\<exists>r st'. cheops_io_add (None, None) (Some 8) 4 (2::int) 1 (20::int) io_one = Ret (r, st'))"
  using io_reachable_safe [OF io_one_reach] by (simp add: io_one_cells)

text \<open>
  C3. Between waits and below 8388607 adds, the table refines a finite map from handles to what was
  registered: an add that returns a handle extends the map there, one that returns \<^verbatim>\<open>NULL\<close> changes
  nothing, a change updates the entry of the handle alone, and a removal deletes it alone, although
  the code moves the last entry into the gap. What a change does with the events is what the code
  does and not what \<^verbatim>\<open>io.h\<close> says: they are updated unless they are 0, where the header has "if
  >-1" (lemma \<open>io_change_events\<close> below).
\<close>

theorem io_ops_refine_map:
  assumes "io_reach k st" "k < 8388607"
  shows "(cheops_io_add m p fd cb ev d st = Ret (r, st1) \<and> (p = None \<or> the p \<notin> dom (idcells st)) \<longrightarrow>
       io_lookup st1 = (case r of None \<Rightarrow> io_lookup st | Some q \<Rightarrow> (io_lookup st)(q \<mapsto> (fd, ev, cb, d))))
     \<and> (q \<in> dom (idcells st) \<longrightarrow> (\<exists>st2. cheops_io_remove q st = Ret (0, st2) \<and>
          io_lookup st2 = (io_lookup st)(q := None)))
     \<and> (q \<in> dom (idcells st) \<longrightarrow> (\<exists>st3 f0 ev0 c0 d0. cheops_io_change q fd' cb' ev' d' st = Ret (Some q, st3) \<and>
          io_lookup st q = Some (f0, ev0, c0, d0) \<and>
          io_lookup st3 = (io_lookup st)(q \<mapsto>
            (if fd' > -1 then fd' else f0, if ev' \<noteq> 0 then ev' else ev0,
             case cb' of None \<Rightarrow> c0 | Some c \<Rightarrow> c, case d' of None \<Rightarrow> d0 | Some x \<Rightarrow> x))))"
proof (intro conjI impI)
  have i: "io_inv st" "current_ioc st = -1" "room st"
    using io_reach_size [OF assms] assms(2) by (simp_all add: room_def)
  show "io_lookup st1 = (case r of None \<Rightarrow> io_lookup st | Some q \<Rightarrow> (io_lookup st)(q \<mapsto> (fd, ev, cb, d)))"
    if a: "cheops_io_add m p fd cb ev d st = Ret (r, st1) \<and> (p = None \<or> the p \<notin> dom (idcells st))"
  proof -
    have fresh: "\<And>q. p = Some q \<Longrightarrow> idcells st q = None" using a by auto
    obtain r' st' where st': "cheops_io_add m p fd cb ev d st = Ret (r', st')"
      "r' = None \<Longrightarrow> entries st' = entries st \<and> idcells st' = idcells st" "r' = None \<or> r' = p"
      "\<And>q. r' = Some q \<Longrightarrow> entries st' = entries st @
         [(\<lparr>pfd_fd = fd, pfd_events = ev, pfd_revents = 0\<rparr>, \<lparr>ir_callback = cb, ir_data = d, ir_id = q\<rparr>)]"
      by (rule io_add_inv [OF i(1,3), where p = p and m = m and fd = fd and cb = cb and ev = ev and d = d])
        (use fresh in blast)+
    have eq: "r' = r" "st' = st1" using a st'(1) by auto
    show ?thesis
    proof (cases r)
      case None
      then show ?thesis using st'(2) eq by (simp add: io_lookup_def)
    next
      case (Some q)
      then have "q \<notin> dom (idcells st)" using st'(3) fresh eq by auto
      then show ?thesis
        using io_lookup_snoc [OF i(1) _ st'(4)] Some eq by (auto simp: entry_pair_def)
    qed
  qed
  assume q: "q \<in> dom (idcells st)"
  show "\<exists>st2. cheops_io_remove q st = Ret (0, st2) \<and> io_lookup st2 = (io_lookup st)(q := None)"
    by (rule io_remove_inv [OF i(1,2) q]) auto
  obtain st3 e where st3: "cheops_io_change q fd' cb' ev' d' st = Ret (Some q, st3)"
    "io_lookup st q = Some e"
    "io_lookup st3 = (io_lookup st)(q \<mapsto>
       (case e of (f0, ev0, c0, d0) \<Rightarrow>
         (if fd' > -1 then fd' else f0, if ev' \<noteq> 0 then ev' else ev0,
          case cb' of None \<Rightarrow> c0 | Some c \<Rightarrow> c, case d' of None \<Rightarrow> d0 | Some x \<Rightarrow> x)))"
    using io_change_inv [OF i(1) q, of fd' cb' ev' d'] by metis
  then show "\<exists>st3 f0 ev0 c0 d0. cheops_io_change q fd' cb' ev' d' st = Ret (Some q, st3) \<and>
          io_lookup st q = Some (f0, ev0, c0, d0) \<and>
          io_lookup st3 = (io_lookup st)(q \<mapsto>
            (if fd' > -1 then fd' else f0, if ev' \<noteq> 0 then ev' else ev0,
             case cb' of None \<Rightarrow> c0 | Some c \<Rightarrow> c, case d' of None \<Rightarrow> d0 | Some x \<Rightarrow> x))"
    by (cases e) auto
qed

lemma io_ops_refine_map_witness:
  "\<exists>st2. cheops_io_remove 7 io_one = Ret (0, st2) \<and> io_lookup st2 = (io_lookup io_one)(7 := None)"
  using io_ops_refine_map [OF io_one_reach, of "(None, None)" None 0 0 0 0 None io_one 7 0 None 0 None]
  by (simp add: io_one_cells)

text \<open>
  The disagreement of \<^verbatim>\<open>io.h\<close> and \<^verbatim>\<open>io.c\<close>: by the header, events of 0 would be stored and events of
  -1 would leave the entry alone; the code does the opposite of both.
\<close>

lemma io_change_events:
  assumes "io_inv st" "q \<in> dom (idcells st)"
  shows "\<exists>st0 st1 f ev c d. io_lookup st q = Some (f, ev, c, d) \<and>
    cheops_io_change q (-1) None 0 None st = Ret (Some q, st0) \<and> io_lookup st0 q = Some (f, ev, c, d) \<and>
    cheops_io_change q (-1) None (- 1) None st = Ret (Some q, st1) \<and> io_lookup st1 q = Some (f, - 1, c, d)"
proof -
  obtain st0 e0 where 0: "cheops_io_change q (-1) None 0 None st = Ret (Some q, st0)"
    "io_lookup st q = Some e0" "io_lookup st0 = (io_lookup st)(q \<mapsto> e0)"
    by (rule io_change_inv [OF assms, of "-1" None 0 None]) (auto split: prod.splits)
  obtain st1 where 1: "cheops_io_change q (-1) None (- 1) None st = Ret (Some q, st1)"
    "io_lookup st1 q = Some (case e0 of (f, ev, c, d) \<Rightarrow> (f, - 1, c, d))"
    by (rule io_change_inv [OF assms, of "-1" None "- 1" None]) (use 0(2) in \<open>auto split: prod.splits\<close>)
  show ?thesis using 0 1 by (cases e0) auto
qed

definition reported :: "u16 list \<Rightarrow> ('c, 'd) io_state \<Rightarrow> nat list" where
  "reported evs st = map (\<lambda>i. ir_id (ior st ! i)) (filter (\<lambda>i. evs ! i \<noteq> 0) [0..<live st])"

lemma set_revents_facts:
  assumes "io_inv st" "length evs = live st"
  shows "io_inv (set_revents evs st)" "live (set_revents evs st) = live st"
    "io_lookup (set_revents evs st) = io_lookup st"
    "fired (entries (set_revents evs st)) = reported evs st"
proof -
  have lens: "live st \<le> length (fds st)" "live st \<le> length (ior st)"
    using io_inv_lengths [OF assms(1)] by auto
  have "length (fds (set_revents evs st)) = length (fds st)"
    using assms(2) lens by (simp add: set_revents_def)
  then show "io_inv (set_revents evs st)"
    using assms(1) by (simp add: io_inv_def) (simp add: set_revents_def)
  show "live (set_revents evs st) = live st" by (simp add: set_revents_def)
  have ent: "entries (set_revents evs st) =
      map (\<lambda>i. ((fds st ! i)\<lparr>pfd_revents := evs ! i\<rparr>, ior st ! i)) [0..<live st]"
    using lens assms(2) by (intro nth_equalityI) (auto simp: entries_def set_revents_def nth_append)
  have ent0: "entries st = map (\<lambda>i. (fds st ! i, ior st ! i)) [0..<live st]"
    using lens by (intro nth_equalityI) (auto simp: entries_def)
  show "io_lookup (set_revents evs st) = io_lookup st"
    by (simp add: io_lookup_def ent ent0 entry_pair_def o_def)
  show "fired (entries (set_revents evs st)) = reported evs st"
    by (simp add: fired_def ent reported_def filter_map o_def)
qed

text \<open>
  C4. One wait whose callbacks leave the rest of the table alone (each may ask for the removal of its
  own entry, return what it likes and change the rest of the program; it neither adds, changes
  nor removes another entry) returns, calls each entry that \<^verbatim>\<open>poll\<close> reported at most once and no
  other, and removes exactly the entries whose callback returned 0 or removed itself; if none did,
  it calls all reported entries in table order. Without that condition it fails: see
  \<open>io_wait_stale_index\<close> below.
\<close>

theorem io_wait_calls:
  assumes "io_inv st" "length evs = live st" "live st < n" "0 < res"
  shows "\<exists>st' e' log. cheops_io_wait n (logged f) res evs (st, e, []) = Ret (res, st', e', log)
     \<and> io_inv st' \<and> distinct (map fst log) \<and> set (map fst log) \<subseteq> set (reported evs st)
     \<and> io_lookup st' = (io_lookup st) |` (- {h. (h, True) \<in> set log})
     \<and> ((\<forall>h. (h, True) \<notin> set log) \<longrightarrow> map fst log = reported evs st)"
proof -
  note s = set_revents_facts [OF assms(1,2)]
  have fuel: "live (set_revents evs st) - 0 < n" using assms(3) s(2) by simp
  obtain st' e' log where
    "io_wait_loop n (logged f) 0 (set_revents evs st, e, []) = Ret (st', e', log)" "io_inv st'"
    "distinct (map fst log)" "set (map fst log) \<subseteq> set (reported evs st)"
    "io_lookup st' = (io_lookup st) |` (- {h. (h, True) \<in> set log})"
    "(\<forall>h. (h, True) \<notin> set log) \<Longrightarrow> map fst log = reported evs st"
    using io_wait_loop_logged [OF s(1) fuel, of f e "[]"] unfolding s drop_0 append_Nil
    by blast
  then show ?thesis using assms(4) by (auto simp: cheops_io_wait_def)
qed

lemma io_wait_calls_witness:
  "\<exists>st' e' log. cheops_io_wait 2 (logged (\<lambda>h c fd ev d e. (d - 10, False, e + d))) 1 [1] (io_one, 5, [])
       = Ret (1, st', e', log)
     \<and> set (map fst log) \<subseteq> {7}
     \<and> io_lookup st' = (io_lookup io_one) |` (- {h. (h, True) \<in> set log})"
proof -
  have inv: "io_inv io_one" using io_reach_size [OF io_one_reach] by simp
  have "set (reported [1] io_one) = {7}" by (simp add: reported_def io_one_cells) (simp add: io_one_def)
  then show ?thesis
    using io_wait_calls [OF inv, of "[1]" 2 1 "\<lambda>h c fd ev d e. (d - 10, False, e + d)" 5]
    by (auto simp: io_one_cells)
qed

text \<open>
  The limit of that contract: a callback of the last entry that removes another entry and
  returns 0 makes \<^verbatim>\<open>cheops_io_wait\<close> use the handle that it has just freed, because
  \<^verbatim>\<open>io_shrink\<close> has moved the current entry away from the index \<open>x\<close>.
\<close>

definition io_two :: "(int, int) io_state" where
  "io_two = \<lparr>fds = [\<lparr>pfd_fd = 3, pfd_events = 1, pfd_revents = 0\<rparr>, \<lparr>pfd_fd = 4, pfd_events = 1, pfd_revents = 0\<rparr>],
     ior = [\<lparr>ir_callback = 1, ir_data = 10, ir_id = 7\<rparr>, \<lparr>ir_callback = 2, ir_data = 7, ir_id = 8\<rparr>],
     idcells = [7 \<mapsto> 0, 8 \<mapsto> 1], fdcnt = 2, maxfdcnt = 1023, current_ioc = -1, remove_current_ioc = False\<rparr>"

definition drops_other :: "(int, int, unit) io_callback_sem" where
  "drops_other c h fd ev d w =
     (case w of (st, e) \<Rightarrow> obind (cheops_io_remove (nat d) st) (\<lambda>(_, st'). Ret (0, st', e)))"

lemma io_wait_stale_index: "cheops_io_wait 3 drops_other 1 [0, 1] (io_two, ()) = UB"
proof -
  have "case cheops_io_wait 3 drops_other 1 [0, 1] (io_two, ()) of UB \<Rightarrow> True | _ \<Rightarrow> False"
    by code_simp
  then show ?thesis by (auto split: outcome.splits)
qed

end
