(* ===== verification/Misc_Parse.thy ===== *)
theory Misc_Parse
  imports Cheops_Prelude
begin

text \<open>
  The tokenizer of command lines, \<^verbatim>\<open>parse\<close> of \<^verbatim>\<open>misc.c\<close>: it cuts the line in place, writing
  NULs into the buffer, and stores in \<^verbatim>\<open>argv\<close> where each token starts. The buffer is the
  list \<open>mem\<close> of its characters, a pointer into it an offset, and \<^verbatim>\<open>argv\<close> a list as long as
  the caller's array; any access outside them is \<open>UB\<close>.
\<close>

section \<open>The code\<close>

abbreviation blank :: "char \<Rightarrow> bool" where
  "blank ch \<equiv> ch = CHR '' '' \<or> ch = CHR 0x09"

abbreviation QUOTE :: char where "QUOTE \<equiv> CHR 0x22"

text \<open>\<^verbatim>\<open>while(*s && ((*s == ' ') || (*s == '\t'))) s++;\<close> on the rest of the buffer.\<close>

fun skip_blanks :: "char list \<Rightarrow> nat \<Rightarrow> nat outcome" where
  "skip_blanks [] s = UB"
| "skip_blanks (ch # cs) s = (if ch \<noteq> NUL \<and> blank ch then skip_blanks cs (Suc s) else Ret s)"

text \<open>A blank outside quotes: the result is the position after \<^verbatim>\<open>s--; s++\<close>.\<close>

definition parse_blank ::
  "char list \<Rightarrow> nat list \<Rightarrow> nat \<Rightarrow> nat \<Rightarrow> (char list \<times> nat list \<times> nat \<times> nat) outcome" where
  "parse_blank mem argv c s =
     obind (aset mem s NUL) (\<lambda>mem'.
     obind (skip_blanks (drop (Suc s) mem') (Suc s)) (\<lambda>s'.
     obind (aget mem' s') (\<lambda>ch.
       if ch \<noteq> NUL
       then obind (aset argv c s') (\<lambda>argv'. Ret (mem', argv', Suc c, s'))
       else Ret (mem', argv, c, s'))))"

definition parse_step ::
  "char \<Rightarrow> char list \<Rightarrow> nat list \<Rightarrow> nat \<Rightarrow> bool \<Rightarrow> nat
     \<Rightarrow> (char list \<times> nat list \<times> nat \<times> bool \<times> nat) outcome" where
  "parse_step ch mem argv c inquote s =
     (if ch = QUOTE
      then (if \<not> inquote
            then obind (aget argv (c - 1)) (\<lambda>v.
                 obind (aset argv (c - 1) (Suc v)) (\<lambda>argv'. Ret (mem, argv', c, True, Suc s)))
            else obind (parse_blank (mem[s := CHR '' '']) argv c s) (\<lambda>(mem', argv', c', s').
                   Ret (mem', argv', c', False, s')))
      else if blank ch \<and> \<not> inquote
      then obind (parse_blank mem argv c s) (\<lambda>(mem', argv', c', s'). Ret (mem', argv', c', False, s'))
      else Ret (mem, argv, c, inquote, Suc s))"

fun parse_loop ::
  "nat \<Rightarrow> char list \<Rightarrow> nat list \<Rightarrow> nat \<Rightarrow> bool \<Rightarrow> nat \<Rightarrow> (int \<times> nat list \<times> char list) outcome" where
  "parse_loop 0 mem argv c inquote s = NoFuel"
| "parse_loop (Suc n) mem argv c inquote s =
     obind (aget mem s) (\<lambda>ch.
       if ch = NUL then Ret (if inquote then -1 else int c, argv, mem)
       else obind (parse_step ch mem argv c inquote s) (\<lambda>(mem', argv', c', q', s').
              parse_loop n mem' argv' c' q' s'))"

declare parse_loop.simps(2) [simp del]

definition parse :: "nat list \<Rightarrow> char list \<Rightarrow> (int \<times> nat list \<times> char list) outcome" where
  "parse argv mem =
     obind (aset argv 0 0) (\<lambda>argv'. parse_loop (Suc (length mem)) mem argv' 1 False 0)"

section \<open>Command lines\<close>

text \<open>A line is a list of tokens, each but the first after a run of blanks.\<close>

datatype token = Plain string | Quoted string

primrec content :: "token \<Rightarrow> string" where
  "content (Plain w) = w"
| "content (Quoted w) = w"

primrec render :: "token \<Rightarrow> string" where
  "render (Plain w) = w"
| "render (Quoted w) = QUOTE # w @ [QUOTE]"

primrec token_ok :: "token \<Rightarrow> bool" where
  "token_ok (Plain w) \<longleftrightarrow> w \<noteq> [] \<and> (\<forall>ch \<in> set w. ch \<noteq> NUL \<and> ch \<noteq> QUOTE \<and> \<not> blank ch)"
| "token_ok (Quoted w) \<longleftrightarrow> (\<forall>ch \<in> set w. ch \<noteq> NUL \<and> ch \<noteq> QUOTE)"

definition sep_ok :: "string \<Rightarrow> bool" where
  "sep_ok ws \<longleftrightarrow> ws \<noteq> [] \<and> (\<forall>ch \<in> set ws. blank ch)"

fun line_tail :: "(string \<times> token) list \<Rightarrow> string" where
  "line_tail [] = []"
| "line_tail ((ws, t) # ts) = ws @ render t @ line_tail ts"

text \<open>The string that starts at an offset of the buffer.\<close>

definition str_at :: "char list \<Rightarrow> nat \<Rightarrow> string" where
  "str_at mem o' = takeWhile (\<lambda>ch. ch \<noteq> NUL) (drop o' mem)"

text \<open>A finished token: its text and terminator lie in the part of the buffer behind us.\<close>

definition done_at :: "char list \<Rightarrow> nat \<Rightarrow> string \<Rightarrow> bool" where
  "done_at pre p w \<longleftrightarrow> NUL \<notin> set w \<and> (\<exists>a b. pre = a @ w @ NUL # b \<and> length a = p)"

lemma done_at_append: "done_at pre p w \<Longrightarrow> done_at (pre @ x) p w"
  unfolding done_at_def by (metis append.assoc append_Cons)

lemma done_at_str: "done_at mem p w \<Longrightarrow> str_at mem p = w"
  by (auto simp: done_at_def str_at_def takeWhile_append takeWhile_eq_all_conv)

lemma skip_blanks_run:
  assumes "\<forall>ch \<in> set ws. blank ch" "rest \<noteq> []" "\<not> blank (hd rest)"
  shows "skip_blanks (ws @ rest) s = Ret (s + length ws)"
  using assms
proof (induction ws arbitrary: s)
  case Nil
  then show ?case by (cases rest) auto
next
  case (Cons a ws)
  have "skip_blanks (ws @ rest) (Suc s) = Ret (Suc s + length ws)"
    using Cons by auto
  then show ?case using Cons.prems(1) by auto
qed

lemma parse_blank_run:
  assumes "\<forall>ch \<in> set ws. blank ch" "rest \<noteq> []" "\<not> blank (hd rest)"
  shows "parse_blank (pre @ x # ws @ rest) argv c (length pre) =
     (let s' = length pre + Suc (length ws); mem' = pre @ NUL # ws @ rest in
      if hd rest \<noteq> NUL then obind (aset argv c s') (\<lambda>argv'. Ret (mem', argv', Suc c, s'))
      else Ret (mem', argv, c, s'))"
proof -
  have "(pre @ NUL # ws @ rest) ! (length pre + Suc (length ws)) = hd rest"
    using assms(2) by (simp add: nth_append hd_conv_nth)
  then show ?thesis
    using skip_blanks_run [OF assms, of "Suc (length pre)"] assms(2)
    by (simp add: parse_blank_def aset_def aget_def Let_def)
qed

text \<open>Characters that only advance the position.\<close>

lemma parse_loop_word:
  assumes "\<forall>ch \<in> set w. ch \<noteq> NUL \<and> ch \<noteq> QUOTE \<and> (\<not> q \<longrightarrow> \<not> blank ch)"
  shows "parse_loop (length w + n) (pre @ w @ rest) argv c q (length pre)
       = parse_loop n (pre @ w @ rest) argv c q (length (pre @ w))"
  using assms
proof (induction w arbitrary: pre)
  case (Cons a w)
  have "parse_loop (length (a # w) + n) (pre @ (a # w) @ rest) argv c q (length pre)
      = parse_loop (length w + n) (pre @ (a # w) @ rest) argv c q (Suc (length pre))"
    using Cons.prems by (auto simp: aget_def parse_step_def parse_loop.simps(2))
  also have "\<dots> = parse_loop (length w + n) ((pre @ [a]) @ w @ rest) argv c q (length (pre @ [a]))"
    by simp
  also have "\<dots> = parse_loop n ((pre @ [a]) @ w @ rest) argv c q (length ((pre @ [a]) @ w))"
    by (rule Cons.IH) (use Cons.prems in auto)
  finally show ?case by simp
qed simp

text \<open>One token and the blanks after it.\<close>

lemma parse_loop_token:
  assumes t: "token_ok t" and ws: "\<forall>ch \<in> set ws. blank ch"
    and q: "ws \<noteq> [] \<or> (\<exists>w. t = Quoted w)"
    and rest: "rest \<noteq> []" "\<not> blank (hd rest)"
    and c: "0 < c" "c \<le> length argv" "argv ! (c - 1) = length pre"
  obtains k pre' argv' where "k \<le> length (render t @ ws)"
    "length pre' = length (pre @ render t @ ws)" "take (length pre) pre' = pre"
    "length argv' = length argv" "\<forall>i < c - 1. argv' ! i = argv ! i"
    "done_at pre' (argv' ! (c - 1)) (content t)"
    "\<And>n. parse_loop (k + n) (pre @ render t @ ws @ rest) argv c False (length pre) =
       (if hd rest \<noteq> NUL
        then obind (aset argv' c (length pre')) (\<lambda>argv''. parse_loop n (pre' @ rest) argv'' (Suc c) False (length pre'))
        else parse_loop n (pre' @ rest) argv' c False (length pre'))"
proof (cases t)
  case (Plain w)
  obtain x ws' where x: "ws = x # ws'" using q Plain by (cases ws) auto
  have w: "\<forall>ch \<in> set w. ch \<noteq> NUL \<and> ch \<noteq> QUOTE \<and> (\<not> False \<longrightarrow> \<not> blank ch)" using t Plain by simp
  have bx: "blank x" "\<forall>ch \<in> set ws'. blank ch" using ws x by auto
  let ?pre' = "(pre @ w) @ NUL # ws'"
  have run: "parse_loop ((length w + 1) + n) (pre @ w @ x # ws' @ rest) argv c False (length pre) =
       (if hd rest \<noteq> NUL
        then obind (aset argv c (length ?pre')) (\<lambda>argv''. parse_loop n (?pre' @ rest) argv'' (Suc c) False (length ?pre'))
        else parse_loop n (?pre' @ rest) argv c False (length ?pre'))" for n
  proof -
    have "parse_loop ((length w + 1) + n) (pre @ w @ x # ws' @ rest) argv c False (length pre)
        = parse_loop (Suc n) ((pre @ w) @ x # ws' @ rest) argv c False (length (pre @ w))"
      using parse_loop_word [OF w, of "Suc n" pre "x # ws' @ rest" argv c] by simp
    also have "\<dots> = obind (parse_blank ((pre @ w) @ x # ws' @ rest) argv c (length (pre @ w)))
          (\<lambda>(mem', argv', c', s'). parse_loop n mem' argv' c' False s')"
    proof -
      have "((pre @ w) @ x # ws' @ rest) ! length (pre @ w) = x" by (rule nth_append_length)
      moreover have "x \<noteq> NUL" "x \<noteq> QUOTE" using bx(1) by auto
      ultimately show ?thesis using bx(1)
        by (simp add: aget_def parse_step_def parse_loop.simps(2) split_def del: append_assoc)
    qed
    also have "\<dots> = (if hd rest \<noteq> NUL
        then obind (aset argv c (length ?pre')) (\<lambda>argv''. parse_loop n (?pre' @ rest) argv'' (Suc c) False (length ?pre'))
        else parse_loop n (?pre' @ rest) argv c False (length ?pre'))"
      using parse_blank_run [OF bx(2) rest, of "pre @ w" x argv c] by (simp add: Let_def add.assoc)
    finally show ?thesis .
  qed
  have dn: "done_at ?pre' (argv ! (c - 1)) w"
  proof -
    have "NUL \<notin> set w" using w by blast
    then show ?thesis
      unfolding done_at_def c(3) by (intro conjI exI [of _ pre] exI [of _ ws']) simp_all
  qed
  show thesis
  proof (rule that [of "length w + 1" ?pre' argv])
    show "parse_loop (length w + 1 + n) (pre @ render t @ ws @ rest) argv c False (length pre) =
       (if hd rest \<noteq> NUL
        then obind (aset argv c (length ?pre')) (\<lambda>argv''. parse_loop n (?pre' @ rest) argv'' (Suc c) False (length ?pre'))
        else parse_loop n (?pre' @ rest) argv c False (length ?pre'))" for n
      unfolding Plain x render.simps append_Cons by (rule run)
    show "done_at ?pre' (argv ! (c - 1)) (content t)" unfolding Plain content.simps by (rule dn)
  qed (simp_all add: Plain x)
next
  case (Quoted w)
  have w: "\<forall>ch \<in> set w. ch \<noteq> NUL \<and> ch \<noteq> QUOTE \<and> (\<not> True \<longrightarrow> \<not> blank ch)" using t Quoted by simp
  let ?argv = "argv[c - 1 := Suc (length pre)]"
  let ?pre' = "((pre @ [QUOTE]) @ w) @ NUL # ws"
  let ?mem = "((pre @ [QUOTE]) @ w) @ QUOTE # ws @ rest"
  have run: "parse_loop (Suc (length w + 1) + n) ?mem argv c False (length pre) =
       (if hd rest \<noteq> NUL
        then obind (aset ?argv c (length ?pre')) (\<lambda>argv''. parse_loop n (?pre' @ rest) argv'' (Suc c) False (length ?pre'))
        else parse_loop n (?pre' @ rest) ?argv c False (length ?pre'))" for n
  proof -
    have "parse_loop (Suc (length w + 1) + n) ?mem argv c False (length pre)
        = parse_loop (length w + Suc n) ((pre @ [QUOTE]) @ w @ QUOTE # ws @ rest) ?argv c True (length (pre @ [QUOTE]))"
    proof -
      have "aget ?mem (length pre) = Ret QUOTE" by (simp add: aget_def nth_append)
      moreover have "parse_step QUOTE ?mem argv c False (length pre) = Ret (?mem, ?argv, c, True, Suc (length pre))"
        using c by (simp add: parse_step_def aget_def aset_def)
      moreover have "Suc (length w + 1) + n = Suc (length w + Suc n)" by simp
      ultimately show ?thesis by (simp only: parse_loop.simps(2) obind.simps) simp
    qed
    also have "\<dots> = parse_loop (Suc n) ?mem ?argv c True (length ((pre @ [QUOTE]) @ w))"
      using parse_loop_word [OF w, of "Suc n" "pre @ [QUOTE]" "QUOTE # ws @ rest" ?argv c] by simp
    also have "\<dots> = obind (parse_blank (((pre @ [QUOTE]) @ w) @ CHR '' '' # ws @ rest) ?argv c (length ((pre @ [QUOTE]) @ w)))
          (\<lambda>(mem', argv', c', s'). parse_loop n mem' argv' c' False s')"
    proof -
      have "aget ?mem (length ((pre @ [QUOTE]) @ w)) = Ret QUOTE" by (simp add: aget_def nth_append)
      moreover have "?mem[length ((pre @ [QUOTE]) @ w) := CHR '' ''] = ((pre @ [QUOTE]) @ w) @ CHR '' '' # ws @ rest"
        by (rule list_update_length)
      ultimately show ?thesis
        by (simp only: parse_loop.simps(2) obind.simps parse_step_def) (simp add: split_def)
    qed
    also have "\<dots> = (if hd rest \<noteq> NUL
        then obind (aset ?argv c (length ?pre')) (\<lambda>argv''. parse_loop n (?pre' @ rest) argv'' (Suc c) False (length ?pre'))
        else parse_loop n (?pre' @ rest) ?argv c False (length ?pre'))"
      using parse_blank_run [OF ws rest, of "(pre @ [QUOTE]) @ w" "CHR '' ''" ?argv c]
      by (simp add: Let_def add.assoc)
    finally show ?thesis .
  qed
  have dn: "done_at ?pre' (?argv ! (c - 1)) w"
  proof -
    have "NUL \<notin> set w" "?argv ! (c - 1) = Suc (length pre)" using w c by auto
    then show ?thesis
      unfolding done_at_def by (intro conjI exI [of _ "pre @ [QUOTE]"] exI [of _ ws]) simp_all
  qed
  have mem: "pre @ render t @ ws @ rest = ?mem" by (simp add: Quoted)
  show thesis
  proof (rule that [of "Suc (length w + 1)" ?pre' ?argv])
    show "parse_loop (Suc (length w + 1) + n) (pre @ render t @ ws @ rest) argv c False (length pre) =
       (if hd rest \<noteq> NUL
        then obind (aset ?argv c (length ?pre')) (\<lambda>argv''. parse_loop n (?pre' @ rest) argv'' (Suc c) False (length ?pre'))
        else parse_loop n (?pre' @ rest) ?argv c False (length ?pre'))" for n
      unfolding mem by (rule run)
    show "done_at ?pre' (?argv ! (c - 1)) (content t)" unfolding Quoted content.simps by (rule dn)
  qed (simp_all add: Quoted)
qed

definition line_ok :: "token \<Rightarrow> (string \<times> token) list \<Rightarrow> string \<Rightarrow> bool" where
  "line_ok t ts tr \<longleftrightarrow> token_ok t \<and> (\<forall>(ws, u) \<in> set ts. sep_ok ws \<and> token_ok u) \<and> (\<forall>ch \<in> set tr. blank ch)"

lemma render_head: "token_ok t \<Longrightarrow> \<exists>ch cs. render t = ch # cs \<and> \<not> blank ch \<and> ch \<noteq> NUL"
proof (cases t)
  case (Plain w)
  assume "token_ok t"
  with Plain show ?thesis by (cases w) simp_all
qed simp

text \<open>The end of a line: the last token, trailing blanks, and the NUL.\<close>

lemma parse_loop_last:
  assumes t: "token_ok t" and tr: "\<forall>ch \<in> set tr. blank ch"
    and c: "0 < c" "c \<le> length argv" "argv ! (c - 1) = length pre"
    and n: "length (render t @ tr) < n"
  obtains argv' mem' where
    "parse_loop n (pre @ render t @ tr @ NUL # x) argv c False (length pre) = Ret (int c, argv', mem')"
    "length argv' = length argv" "\<forall>i < c - 1. argv' ! i = argv ! i"
    "done_at mem' (argv' ! (c - 1)) (content t)" "take (length pre) mem' = pre"
proof (cases "tr = [] \<and> (\<forall>w. t \<noteq> Quoted w)")
  case True
  then obtain w where w: "t = Plain w" by (cases t) auto
  obtain k where k: "n = length w + Suc k" using n w by (auto dest: less_imp_Suc_add)
  have wo: "\<forall>ch \<in> set w. ch \<noteq> NUL \<and> ch \<noteq> QUOTE \<and> (\<not> False \<longrightarrow> \<not> blank ch)" using t w by simp
  have "parse_loop n (pre @ render t @ tr @ NUL # x) argv c False (length pre)
      = Ret (int c, argv, pre @ w @ NUL # x)"
    using True w k parse_loop_word [OF wo, of "Suc k" pre "NUL # x" argv c]
    by (simp add: aget_def nth_append parse_loop.simps(2))
  moreover have "done_at (pre @ w @ NUL # x) (argv ! (c - 1)) (content t)"
    using wo c(3) w unfolding done_at_def by auto
  ultimately show thesis by (intro that) auto
next
  case False
  have nn: "NUL # x \<noteq> []" "\<not> blank (hd (NUL # x))" by auto
  have q: "tr \<noteq> [] \<or> (\<exists>w. t = Quoted w)" using False by auto
  obtain k pre' argv' where k: "k \<le> length (render t @ tr)"
    and p: "length pre' = length (pre @ render t @ tr)" "take (length pre) pre' = pre"
      "length argv' = length argv" "\<forall>i < c - 1. argv' ! i = argv ! i"
      "done_at pre' (argv' ! (c - 1)) (content t)"
    and run: "\<And>n. parse_loop (k + n) (pre @ render t @ tr @ NUL # x) argv c False (length pre) =
       parse_loop n (pre' @ NUL # x) argv' c False (length pre')"
    by (rule parse_loop_token [OF t tr q nn c]) auto
  obtain m where m: "n = k + Suc m" using k n by (metis add_Suc_right le_less_trans less_imp_Suc_add)
  have "parse_loop n (pre @ render t @ tr @ NUL # x) argv c False (length pre) = Ret (int c, argv', pre' @ NUL # x)"
    unfolding m run by (simp add: aget_def parse_loop.simps(2))
  then show thesis
    by (rule that [OF _ p(3,4) done_at_append [OF p(5)]]) (use p(1,2) in simp)
qed

lemma parse_loop_tokens:
  assumes "line_ok t ts tr" "0 < c" "c \<le> length argv" "argv ! (c - 1) = length pre"
    "length (render t @ line_tail ts @ tr) < n"
  shows "if c + length ts \<le> length argv
    then \<exists>argv' mem'.
      parse_loop n (pre @ render t @ line_tail ts @ tr @ NUL # x) argv c False (length pre)
        = Ret (int (c + length ts), argv', mem') \<and> length argv' = length argv \<and>
      (\<forall>i < c - 1. argv' ! i = argv ! i) \<and>
      (\<forall>i \<le> length ts. done_at mem' (argv' ! (c - 1 + i)) (content ((t # map snd ts) ! i))) \<and>
      take (length pre) mem' = pre
    else parse_loop n (pre @ render t @ line_tail ts @ tr @ NUL # x) argv c False (length pre) = UB"
  using assms
proof (induction ts arbitrary: t c argv pre n)
  case Nil
  then have "token_ok t" "\<forall>ch \<in> set tr. blank ch" "length (render t @ tr) < n" by (auto simp: line_ok_def)
  from parse_loop_last [OF this(1,2) Nil.prems(2-4) this(3), where x = x] obtain argv' mem' where
    "parse_loop n (pre @ render t @ tr @ NUL # x) argv c False (length pre) = Ret (int c, argv', mem')"
    "length argv' = length argv" "\<forall>i < c - 1. argv' ! i = argv ! i"
    "done_at mem' (argv' ! (c - 1)) (content t)" "take (length pre) mem' = pre" by blast
  then show ?case using Nil.prems(3) by simp
next
  case (Cons wt ts)
  obtain ws u where wt: "wt = (ws, u)" by (cases wt)
  have ok: "token_ok t" "\<forall>ch \<in> set ws. blank ch" "ws \<noteq> []" "token_ok u" "line_ok u ts tr"
    using Cons.prems(1) by (auto simp: line_ok_def wt sep_ok_def)
  obtain ch cs where u: "render u = ch # cs" "\<not> blank ch" "ch \<noteq> NUL"
    using render_head [OF ok(4)] by auto
  let ?rest = "render u @ line_tail ts @ tr @ NUL # x"
  have rest: "?rest \<noteq> []" "\<not> blank (hd ?rest)" "hd ?rest \<noteq> NUL" using u by auto
  obtain k pre' argv' where k: "k \<le> length (render t @ ws)"
    and p: "length pre' = length (pre @ render t @ ws)" "take (length pre) pre' = pre"
      "length argv' = length argv" "\<forall>i < c - 1. argv' ! i = argv ! i"
      "done_at pre' (argv' ! (c - 1)) (content t)"
    and run: "\<And>n. parse_loop (k + n) (pre @ render t @ ws @ ?rest) argv c False (length pre) =
       obind (aset argv' c (length pre')) (\<lambda>argv''. parse_loop n (pre' @ ?rest) argv'' (Suc c) False (length pre'))"
    by (rule parse_loop_token [OF ok(1,2) disjI1 [OF ok(3)] rest(1,2) Cons.prems(2-4)])
      (use rest(3) in auto)
  obtain m where m: "n = k + m" "length (render u @ line_tail ts @ tr) < m"
  proof -
    have "k + length (render u @ line_tail ts @ tr) < n" using k Cons.prems(5) by (simp add: wt)
    then show thesis by (intro that [of "n - k"]) auto
  qed
  have mem: "pre @ render t @ line_tail (wt # ts) @ tr @ NUL # x = pre @ render t @ ws @ ?rest"
    by (simp add: wt)
  show ?case
  proof (cases "c < length argv")
    case False
    then show ?thesis using Cons.prems(3) run p(3) unfolding mem m by (simp add: aset_def)
  next
    case True
    let ?a = "argv'[c := length pre']"
    have ih: "if Suc c + length ts \<le> length ?a
      then \<exists>argv' mem'. parse_loop m (pre' @ ?rest) ?a (Suc c) False (length pre')
          = Ret (int (Suc c + length ts), argv', mem') \<and> length argv' = length ?a \<and>
        (\<forall>i < Suc c - 1. argv' ! i = ?a ! i) \<and>
        (\<forall>i \<le> length ts. done_at mem' (argv' ! (Suc c - 1 + i)) (content ((u # map snd ts) ! i))) \<and>
        take (length pre') mem' = pre'
      else parse_loop m (pre' @ ?rest) ?a (Suc c) False (length pre') = UB"
      by (rule Cons.IH [OF ok(5)]) (use True p(3) m(2) in auto)
    have step: "parse_loop n (pre @ render t @ line_tail (wt # ts) @ tr @ NUL # x) argv c False (length pre)
        = parse_loop m (pre' @ ?rest) ?a (Suc c) False (length pre')"
      unfolding mem m run using True p(3) by (simp add: aset_def)
    show ?thesis
    proof (cases "c + length (wt # ts) \<le> length argv")
      case False
      then show ?thesis using ih p(3) unfolding step by simp
    next
      case le: True
      then obtain a mem' where a: "parse_loop m (pre' @ ?rest) ?a (Suc c) False (length pre')
            = Ret (int (Suc c + length ts), a, mem')" "length a = length ?a"
          "\<forall>i < Suc c - 1. a ! i = ?a ! i"
          "\<forall>i \<le> length ts. done_at mem' (a ! (Suc c - 1 + i)) (content ((u # map snd ts) ! i))"
          "take (length pre') mem' = pre'"
        using ih p(3) by auto
      have c0: "a ! (c - 1) = argv' ! (c - 1)" using a(3) Cons.prems(2) by simp
      have "done_at mem' (a ! (c - 1)) (content t)"
        using done_at_append [OF p(5), of "drop (length pre') mem'"] a(5) c0
        by (metis append_take_drop_id)
      then have "done_at mem' (a ! (c - 1 + i)) (content ((t # map snd (wt # ts)) ! i))"
        if "i \<le> length (wt # ts)" for i
        using that a(4) Cons.prems(2) wt by (cases i) auto
      moreover have "\<forall>i < c - 1. a ! i = argv ! i" using a(3) p(4) by auto
      moreover have "take (length pre) mem' = take (length pre) (take (length pre') mem')"
        by (simp add: p(1) min_def)
      then have "take (length pre) mem' = pre" using a(5) p(2) by simp
      ultimately show ?thesis
        unfolding step a(1) using le a(2) p(3) by simp
    qed
  qed
qed

section \<open>Properties\<close>

text \<open>
  C6. Round trip of command lines: parsing a line made of words and quoted strings, with
  runs of spaces and tabs between them and perhaps behind them, returns the number of
  tokens, and each \<^verbatim>\<open>argv\<close> entry points to the text of its token, quotes removed, when the
  caller's array has room for them; when it has not, the call writes past its end, since
  the argument \<^verbatim>\<open>args\<close> is not consulted.
\<close>

theorem parse_tokens:
  assumes "line_ok t ts tr" "0 < length argv"
  shows "if length ts < length argv
    then \<exists>argv' mem'. parse argv (render t @ line_tail ts @ tr @ NUL # x)
        = Ret (int (Suc (length ts)), argv', mem') \<and>
      (\<forall>i \<le> length ts. str_at mem' (argv' ! i) = content ((t # map snd ts) ! i))
    else parse argv (render t @ line_tail ts @ tr @ NUL # x) = UB"
proof -
  let ?n = "Suc (length (render t @ line_tail ts @ tr @ NUL # x))"
  let ?run = "parse_loop ?n ([] @ render t @ line_tail ts @ tr @ NUL # x) (argv[0 := 0]) 1 False (length ([]::char list))"
  have run: "parse argv (render t @ line_tail ts @ tr @ NUL # x) = ?run"
    using assms(2) by (simp add: parse_def aset_def)
  have "if 1 + length ts \<le> length (argv[0 := 0])
    then \<exists>argv' mem'. ?run = Ret (int (1 + length ts), argv', mem') \<and> length argv' = length (argv[0 := 0]) \<and>
      (\<forall>i < 1 - 1. argv' ! i = argv[0 := 0] ! i) \<and>
      (\<forall>i \<le> length ts. done_at mem' (argv' ! (1 - 1 + i)) (content ((t # map snd ts) ! i))) \<and>
      take (length ([]::string)) mem' = []
    else ?run = UB"
    by (rule parse_loop_tokens [OF assms(1)]) (use assms(2) in \<open>cases argv; simp\<close>)+
  then show ?thesis
    unfolding run using done_at_str by (cases "length ts < length argv") fastforce+
qed

lemma parse_tokens_witness:
  "\<exists>argv' mem'. parse [0, 0, 0]
      (render (Plain ''ping'') @ line_tail [('' '', Quoted ''a b''), (''  '', Plain ''c'')] @ '' '' @ [NUL])
      = Ret (3, argv', mem') \<and> str_at mem' (argv' ! 1) = ''a b''"
  using parse_tokens [of "Plain ''ping''" "[('' '', Quoted ''a b''), (''  '', Plain ''c'')]" "'' ''" "[0, 0, 0]" "[]"]
  by (force simp: line_ok_def sep_ok_def)

text \<open>A line whose quote is not closed.\<close>

lemma parse_unclosed:
  assumes "\<forall>ch \<in> set w. ch \<noteq> NUL \<and> ch \<noteq> QUOTE" "0 < length argv"
  shows "parse argv (QUOTE # w @ NUL # x) = Ret (-1, argv[0 := 1], QUOTE # w @ NUL # x)"
proof -
  have w: "\<forall>ch \<in> set w. ch \<noteq> NUL \<and> ch \<noteq> QUOTE \<and> (\<not> True \<longrightarrow> \<not> blank ch)" using assms(1) by simp
  have "parse argv (QUOTE # w @ NUL # x)
      = parse_loop (length w + (2 + length x)) ([QUOTE] @ w @ NUL # x) (argv[0 := 1]) 1 True (length [QUOTE])"
    using assms(2) by (simp add: parse_def aset_def aget_def parse_loop.simps(2) parse_step_def)
  also have "\<dots> = parse_loop (2 + length x) ([QUOTE] @ w @ NUL # x) (argv[0 := 1]) 1 True (length ([QUOTE] @ w))"
    by (rule parse_loop_word [OF w])
  also have "\<dots> = Ret (-1, argv[0 := 1], QUOTE # w @ NUL # x)"
    by (simp add: parse_loop.simps(2) aget_def nth_append)
  finally show ?thesis .
qed

end
