(* ===== verification/Ip_Utils.thy ===== *)
theory Ip_Utils
  imports Cheops_Prelude
begin

text \<open>
  The helpers for addresses, \<^verbatim>\<open>ip_utils.h\<close> and \<^verbatim>\<open>ip_utils.c\<close> without its FreeBSD parts:
  the test of a netmask, the class and broadcast macros, the Internet checksum, the ICMP
  probe that is sent by hand, and the routes read from \<^verbatim>\<open>/proc/net/route\<close>.

  An address in network byte order is the \<^typ>\<open>u32\<close> that the little-endian host sees, so
  byte 0 of its memory is its low byte.
\<close>

section \<open>Masks and classes\<close>

text \<open>The loop of \<^verbatim>\<open>allones\<close>; 32 shifts empty the mask, so 33 rounds of fuel suffice.\<close>

fun allones_loop :: "nat \<Rightarrow> u32 \<Rightarrow> u32 option" where
  "allones_loop 0 m = None"
| "allones_loop (Suc n) m =
     (if m AND 0x80000000 \<noteq> 0 then allones_loop n (push_bit 1 m) else Some m)"

definition allones :: "u32 \<Rightarrow> int option" where
  "allones m = map_option (\<lambda>r. if r = 0 then 1 else 0) (allones_loop 33 m)"

definition addr_byte :: "nat \<Rightarrow> u32 \<Rightarrow> u8" where
  "addr_byte i x = ucast (drop_bit (8 * i) x)"

definition IP_CLASSA :: "u32 \<Rightarrow> bool" where "IP_CLASSA x \<longleftrightarrow> addr_byte 0 x AND 0x80 = 0"
definition IP_CLASSB :: "u32 \<Rightarrow> bool" where "IP_CLASSB x \<longleftrightarrow> addr_byte 0 x AND 0xc0 = 0x80"
definition IP_CLASSC :: "u32 \<Rightarrow> bool" where "IP_CLASSC x \<longleftrightarrow> addr_byte 0 x AND 0xe0 = 0xc0"

definition IP_CLASSA_BROADCAST :: "u32 \<Rightarrow> bool" where
  "IP_CLASSA_BROADCAST x \<longleftrightarrow>
     (addr_byte 3 x = 0xff \<and> addr_byte 2 x = 0xff \<and> addr_byte 1 x = 0xff) \<or>
     (addr_byte 3 x = 0 \<and> addr_byte 2 x = 0 \<and> addr_byte 1 x = 0)"

definition IP_CLASSB_BROADCAST :: "u32 \<Rightarrow> bool" where
  "IP_CLASSB_BROADCAST x \<longleftrightarrow>
     (addr_byte 3 x = 0xff \<and> addr_byte 2 x = 0xff) \<or> (addr_byte 3 x = 0 \<and> addr_byte 2 x = 0)"

definition IP_CLASSC_BROADCAST :: "u32 \<Rightarrow> bool" where
  "IP_CLASSC_BROADCAST x \<longleftrightarrow> addr_byte 3 x = 0xff \<or> addr_byte 3 x = 0"

section \<open>The checksum\<close>

text \<open>
  The sum of the 16-bit words as the host reads them, an odd last byte being the low half of
  a word. \<^verbatim>\<open>sum\<close> is an \<^verbatim>\<open>int\<close>; it is exact up to 65536 bytes, and the code sums 28 at most.
\<close>

fun sum_words :: "u8 list \<Rightarrow> int" where
  "sum_words (lo # hi # bs) = uint lo + 256 * uint hi + sum_words bs"
| "sum_words [lo] = uint lo"
| "sum_words [] = 0"

definition fold_sum :: "int \<Rightarrow> int" where
  "fold_sum acc =
     (let s1 = acc div 65536 + acc mod 65536 in (s1 + s1 div 65536) mod 65536)"

definition inet_checksum :: "u8 list \<Rightarrow> u16" where
  "inet_checksum bs = NOT (word_of_int (fold_sum (sum_words bs)))"

section \<open>The probe\<close>

text \<open>
  The bytes that \<^verbatim>\<open>sendicmp\<close> hands to \<^verbatim>\<open>sendto\<close>; \<open>src\<close> is the answer of \<^verbatim>\<open>getlocalip\<close>. A
  header field in network order is stored big-endian, the checksums as the host's own
  16-bit words.
\<close>

definition ICMP_ECHO :: u8 where "ICMP_ECHO = 8"
definition IPPROTO_ICMP :: u8 where "IPPROTO_ICMP = 1"

definition icmp_header :: "u16 \<Rightarrow> int \<Rightarrow> int \<Rightarrow> u8 list" where
  "icmp_header csum pid ttl =
     [ICMP_ECHO, 0] @ le16 csum @ be16 (word_of_int pid) @ be16 (word_of_int ttl)"

definition ip_header :: "u16 \<Rightarrow> int \<Rightarrow> int \<Rightarrow> u32 \<Rightarrow> u32 \<Rightarrow> u8 list" where
  "ip_header csum pid ttl src to =
     [0x45, 0] @ be16 28 @ be16 (word_of_int pid) @ [0, 0, word_of_int ttl, IPPROTO_ICMP]
       @ le16 csum @ le32 src @ le32 to"

definition sendicmp :: "int \<Rightarrow> u32 \<Rightarrow> int \<Rightarrow> u32 \<Rightarrow> u8 list" where
  "sendicmp pid src ttl to =
     (let icmp = icmp_header (inet_checksum (icmp_header 0 pid ttl)) pid ttl;
          csum = inet_checksum (ip_header 0 pid ttl src to @ icmp)
      in ip_header (if csum = 0 then 0xffff else csum) pid ttl src to @ icmp)"

section \<open>Facts on the checksum\<close>

lemma sum_words_nonneg: "0 \<le> sum_words bs"
  by (induction bs rule: sum_words.induct) auto

lemma sum_words_append: "even (length a) \<Longrightarrow> sum_words (a @ b) = sum_words a + sum_words b"
  by (induction a rule: sum_words.induct) auto

lemma split_16: "0 \<le> x \<Longrightarrow> x < 65536 \<Longrightarrow> x = x mod 256 + 256 * (x div 256 mod 256)" for x :: int
proof -
  assume x: "0 \<le> x" "x < 65536"
  then have "x div 256 < 256" "0 \<le> x div 256" by (simp_all add: pos_imp_zdiv_nonneg_iff div_less_iff_less_mult)
  then have "x div 256 mod 256 = x div 256" by simp
  then show ?thesis by simp
qed

lemma sum_words_le16: "sum_words (le16 w @ bs) = uint w + sum_words bs"
proof -
  have "uint w = uint (ucast w :: u8) + 256 * uint (ucast (drop_bit 8 w) :: u8)"
    by (simp add: unsigned_ucast_eq take_bit_eq_mod drop_bit_eq_div uint_mod_distrib
        unsigned_drop_bit_eq uint_div_distrib) (rule split_16, use uint_bounded [of w] in simp_all)
  then show ?thesis by (simp add: le16_def be16_def)
qed

lemma fold_sum_range: "0 \<le> fold_sum t" "fold_sum t < 65536"
  by (simp_all add: fold_sum_def Let_def)

lemma fold_sum_cases:
  assumes "0 \<le> t" "t < 4294967296"
  shows "\<exists>k. t = fold_sum t + 65535 * k" "fold_sum t = 0 \<longleftrightarrow> t = 0"
proof -
  define s1 where "s1 = t div 65536 + t mod 65536"
  have s1: "0 \<le> s1" "s1 < 131072" "s1 = t - 65535 * (t div 65536)" "s1 = 0 \<longleftrightarrow> t = 0"
    using assms by (auto simp: s1_def minus_mult_div_eq_mod [symmetric])
  have "t div 65536 \<le> 65535" "t mod 65536 \<le> 65535"
    using assms(2) pos_mod_bound [of 65536 t] by (linarith, linarith)
  then have s1_max: "s1 \<le> 131070" by (simp add: s1_def)
  have f: "fold_sum t = (if s1 < 65536 then s1 else s1 - 65535)"
  proof (cases "s1 < 65536")
    case False
    have "s1 div 65536 = 1" using False s1(2) by (simp add: div_pos_geq)
    moreover have "(s1 + 1) mod 65536 = s1 + 1 - 65536"
      using False s1_max by (simp add: mod_pos_geq)
    ultimately show ?thesis using False by (simp add: fold_sum_def Let_def s1_def [symmetric])
  qed (use s1(1) in \<open>simp add: fold_sum_def Let_def s1_def [symmetric]\<close>)
  then have "t = fold_sum t + 65535 * (t div 65536 + (if s1 < 65536 then 0 else 1))"
    using s1(3) by auto
  then show "\<exists>k. t = fold_sum t + 65535 * k" by blast
  show "fold_sum t = 0 \<longleftrightarrow> t = 0" using f s1(1,4) by auto
qed

lemma fold_sum_add_multiple:
  assumes "0 < t" "t < 2147483648" "0 \<le> u" "u < 2147483648" "65535 dvd u"
  shows "fold_sum (t + u) = fold_sum t"
proof -
  obtain k where k: "t = fold_sum t + 65535 * k" using fold_sum_cases [of t] assms by auto
  obtain l where l: "t + u = fold_sum (t + u) + 65535 * l" using fold_sum_cases [of "t + u"] assms by auto
  obtain m where m: "u = 65535 * m" using assms(5) by (auto elim: dvdE)
  have eq: "fold_sum t + 65535 * (k + m - l) = fold_sum (t + u)" using k l m by simp
  moreover have "0 < fold_sum t" "0 < fold_sum (t + u)"
    using fold_sum_cases(2) [of t] fold_sum_cases(2) [of "t + u"] fold_sum_range(1) [of t]
      fold_sum_range(1) [of "t + u"] assms by linarith+
  moreover note fold_sum_range(2) [of t] fold_sum_range(2) [of "t + u"]
  moreover define j where "j = k + m - l"
  ultimately have b: "fold_sum t + 65535 * j = fold_sum (t + u)" "0 < fold_sum t" "0 < fold_sum (t + u)"
    "fold_sum t \<le> 65535" "fold_sum (t + u) \<le> 65535" using eq by auto
  have "j < 1" using b by linarith
  moreover have "-1 < j" using b by linarith
  ultimately have "k + m - l = 0" by (simp add: j_def)
  with eq show ?thesis by simp
qed

lemma uint_inet_checksum: "uint (inet_checksum bs) = 65535 - fold_sum (sum_words bs)"
proof -
  have "uint (word_of_int (fold_sum (sum_words bs)) :: u16) = fold_sum (sum_words bs)"
    using fold_sum_range [of "sum_words bs"] by (simp add: uint_word_of_int)
  moreover have "(- x - 1) mod 65536 = 65535 - x" if "0 \<le> x" "x < 65536" for x :: int
    using that mod_add_self2 [of "- x - 1" 65536] mod_pos_pos_trivial [of "65535 - x" 65536] by simp
  ultimately show ?thesis
    using fold_sum_range [of "sum_words bs"]
    unfolding inet_checksum_def unsigned_not_eq by (simp add: not_eq_complement take_bit_eq_mod)
qed

text \<open>A packet whose words sum to a positive multiple of 65535 passes the check.\<close>

definition checksum_ok :: "u8 list \<Rightarrow> bool" where
  "checksum_ok bs \<longleftrightarrow> inet_checksum bs = 0"

lemma checksum_ok_iff:
  assumes "sum_words bs < 4294967296"
  shows "checksum_ok bs \<longleftrightarrow> 0 < sum_words bs \<and> 65535 dvd sum_words bs"
proof -
  have z: "inet_checksum bs = 0 \<longleftrightarrow> fold_sum (sum_words bs) = 65535"
  proof -
    have "inet_checksum bs = 0 \<longleftrightarrow> uint (inet_checksum bs) = 0" by (simp add: uint_0_iff)
    then show ?thesis unfolding uint_inet_checksum by linarith
  qed
  obtain k where k: "sum_words bs = fold_sum (sum_words bs) + 65535 * k"
    using fold_sum_cases(1) [OF sum_words_nonneg assms] by blast
  have nz: "fold_sum (sum_words bs) = 0 \<longleftrightarrow> sum_words bs = 0"
    by (rule fold_sum_cases(2) [OF sum_words_nonneg assms])
  have r: "0 \<le> fold_sum (sum_words bs)" "fold_sum (sum_words bs) < 65536" by (rule fold_sum_range)+
  have "65535 dvd sum_words bs \<longleftrightarrow> 65535 dvd fold_sum (sum_words bs)"
    by (subst k) (simp add: dvd_add_left_iff)
  moreover have "65535 dvd f \<longleftrightarrow> f = 0 \<or> f = 65535" if "0 \<le> f" "f < 65536" for f :: int
    using that zdvd_not_zless [of f 65535] by fastforce
  ultimately show ?thesis
    unfolding checksum_ok_def z using nz r sum_words_nonneg [of bs] by auto
qed

lemma sum_words_bound: "sum_words bs \<le> 65535 * int (length bs)"
proof (induction bs rule: sum_words.induct)
  case (1 lo hi bs)
  have "uint lo < 256" "uint hi < 256" using uint_lt2p [of lo] uint_lt2p [of hi] by simp_all
  with 1 show ?case by simp
next
  case (2 lo)
  have "uint lo < 256" using uint_lt2p [of lo] by simp
  then show ?case by simp
qed simp

lemma sum_words_small: "length bs < 32768 \<Longrightarrow> sum_words bs < 2147483648"
  using sum_words_bound [of bs] by linarith

lemma checksum_fill:
  assumes "even (length a)"
  shows "sum_words (a @ le16 w @ b) = uint w + sum_words (a @ le16 0 @ b)"
  using assms by (simp add: sum_words_append sum_words_le16)

lemma checksum_ok_complement:
  assumes "0 \<le> t" "t < 2147483648" "sum_words bs = 65535 - fold_sum t + t"
  shows "checksum_ok bs"
proof -
  obtain k where k: "t = fold_sum t + 65535 * k" using fold_sum_cases(1) [of t] assms by auto
  define f where "f = fold_sum t"
  have "t = f + 65535 * k" "sum_words bs = 65535 - f + t" unfolding f_def by (fact k assms(3))+
  then have eq: "sum_words bs = 65535 * (k + 1)" by (simp add: algebra_simps)
  have "fold_sum t \<le> 65535" using fold_sum_range(2) [of t] by linarith
  then have pos: "0 < sum_words bs"
    using assms fold_sum_cases(2) [of t] fold_sum_range(1) [of t] by (cases "t = 0") auto
  have "sum_words bs < 4294967296" using assms fold_sum_range(1) [of t] by linarith
  moreover have "65535 dvd sum_words bs" unfolding eq by simp
  ultimately show ?thesis using pos by (simp add: checksum_ok_iff)
qed

text \<open>The words of the header but its checksum field.\<close>

lemma sum_ip_header: "sum_words (ip_header w pid ttl src to @ b)
    = uint w + (sum_words (ip_header 0 pid ttl src to) + sum_words b)"
proof -
  let ?a = "[0x45, 0] @ be16 28 @ be16 (word_of_int pid) @ [0, 0, word_of_int ttl, IPPROTO_ICMP] :: u8 list"
  let ?b = "le32 src @ le32 to"
  have split: "ip_header v pid ttl src to = ?a @ le16 v @ ?b" for v by (simp add: ip_header_def)
  have "even (length (ip_header 0 pid ttl src to))" by (simp add: ip_header_def)
  then have "sum_words (ip_header 0 pid ttl src to @ b) = sum_words (ip_header 0 pid ttl src to) + sum_words b"
    by (rule sum_words_append)
  moreover have "sum_words (ip_header w pid ttl src to @ b) = uint w + sum_words (ip_header 0 pid ttl src to @ b)"
    using checksum_fill [of ?a w "?b @ b"] unfolding split by simp
  ultimately show ?thesis by simp
qed

lemma sum_icmp_header: "sum_words (icmp_header w pid ttl) = uint w + sum_words (icmp_header 0 pid ttl)"
  using checksum_fill [of "[ICMP_ECHO, 0]" w "be16 (word_of_int pid) @ be16 (word_of_int ttl)"]
  by (simp add: icmp_header_def)

lemma length_headers [simp]: "length (ip_header w pid ttl src to) = 20" "length (icmp_header w pid ttl) = 8"
  by (simp_all add: ip_header_def icmp_header_def)

section \<open>Properties\<close>

text \<open>
  C7. The checksum verifies: writing it into the zeroed, word-aligned checksum field of a
  packet of less than 32768 bytes gives a packet whose own checksum is 0, whatever the
  packet's parity.
\<close>

theorem inet_checksum_verifies:
  assumes "even (length a)" "length a + length b < 32766"
  shows "inet_checksum (a @ le16 (inet_checksum (a @ le16 0 @ b)) @ b) = 0"
proof -
  let ?t = "sum_words (a @ le16 0 @ b)"
  have "0 \<le> ?t" "?t < 2147483648"
    using assms(2) by (simp_all add: sum_words_nonneg sum_words_small)
  from checksum_ok_complement [OF this, of "a @ le16 (inet_checksum (a @ le16 0 @ b)) @ b"]
  show ?thesis
    unfolding checksum_fill [OF assms(1), of "inet_checksum _"] uint_inet_checksum checksum_ok_def
    by simp
qed

lemma inet_checksum_verifies_witness:
  "inet_checksum ([8, 0] @ le16 (inet_checksum ([8, 0] @ le16 0 @ [1, 2, 3])) @ [1, 2, 3]) = 0"
  using inet_checksum_verifies [of "[8, 0]" "[1, 2, 3]"] by simp

text \<open>
  C8. The packet of \<^verbatim>\<open>sendicmp\<close>, field by field: 28 bytes; an IP header of version 4 and five words
  without options, service 0, the length 28, the process id, no fragment bits, the given TTL, the
  protocol ICMP and the two addresses; behind it an ICMP message of type 8 (echo request) and code 0
  with the process id and the TTL as its sequence number. The ICMP checksum verifies, and so does
  the checksum of the IP header alone, although the code computes it over header and message
  together and replaces 0 by 0xffff.
\<close>

theorem sendicmp_packet:
  "length (sendicmp pid src ttl to) = 28
   \<and> inet_checksum (drop 20 (sendicmp pid src ttl to)) = 0
   \<and> inet_checksum (take 20 (sendicmp pid src ttl to)) = 0
   \<and> sendicmp pid src ttl to ! 0 = 0x45 \<and> sendicmp pid src ttl to ! 1 = 0
   \<and> of_be16 (drop 2 (sendicmp pid src ttl to)) = 28
   \<and> of_be16 (drop 4 (sendicmp pid src ttl to)) = word_of_int pid
   \<and> sendicmp pid src ttl to ! 6 = 0 \<and> sendicmp pid src ttl to ! 7 = 0
   \<and> sendicmp pid src ttl to ! 8 = word_of_int ttl \<and> sendicmp pid src ttl to ! 9 = 1
   \<and> of_le32 (drop 12 (sendicmp pid src ttl to)) = src
   \<and> of_le32 (drop 16 (sendicmp pid src ttl to)) = to
   \<and> sendicmp pid src ttl to ! 20 = 8 \<and> sendicmp pid src ttl to ! 21 = 0
   \<and> of_be16 (drop 24 (sendicmp pid src ttl to)) = word_of_int pid
   \<and> of_be16 (drop 26 (sendicmp pid src ttl to)) = word_of_int ttl"
proof -
  let ?ic = "inet_checksum (icmp_header 0 pid ttl)"
  let ?icmp = "icmp_header ?ic pid ttl"
  let ?c = "inet_checksum (ip_header 0 pid ttl src to @ ?icmp)"
  let ?cs = "if ?c = 0 then 0xffff else ?c"
  let ?h = "ip_header ?cs pid ttl src to"
  let ?t = "sum_words (ip_header 0 pid ttl src to)"
  have pkt: "sendicmp pid src ttl to = ?h @ ?icmp" by (simp add: sendicmp_def Let_def)
  have icmp: "checksum_ok ?icmp"
    by (rule checksum_ok_complement [of "sum_words (icmp_header 0 pid ttl)"])
      (simp_all add: sum_words_nonneg sum_words_small sum_icmp_header [of ?ic] uint_inet_checksum)
  then have i: "0 < sum_words ?icmp" "65535 dvd sum_words ?icmp" "sum_words ?icmp < 2147483648"
    using checksum_ok_iff [of ?icmp] sum_words_small [of ?icmp] by simp_all
  have t: "0 < ?t" "?t < 2147483648"
  proof -
    show "0 < ?t" using sum_words_nonneg by (simp add: ip_header_def add_pos_nonneg)
    show "?t < 2147483648" by (rule sum_words_small) simp
  qed
  have s: "sum_words (ip_header w pid ttl src to) = uint w + ?t" for w
    using sum_ip_header [of w pid ttl src to "[]"] by simp
  have "fold_sum (sum_words (ip_header 0 pid ttl src to @ ?icmp)) = fold_sum ?t"
    using sum_ip_header [of 0 pid ttl src to ?icmp] fold_sum_add_multiple [OF t _ i(3) i(2)] i(1) by simp
  then have c: "uint ?c = 65535 - fold_sum ?t" by (simp add: uint_inet_checksum)
  have head: "checksum_ok ?h"
  proof (cases "?c = 0")
    case False
    then show ?thesis using t c s [of ?c] by (intro checksum_ok_complement [of ?t]) simp_all
  next
    case True
    then have "fold_sum ?t = 65535" using c by simp
    then obtain k where "?t = 65535 + 65535 * k" using fold_sum_cases(1) [of ?t] t by auto
    moreover have h: "sum_words ?h = 65535 + ?t" unfolding if_P [OF True] by (subst s) simp
    ultimately have "sum_words ?h = 65535 * (k + 2)" by simp
    moreover have "0 < sum_words ?h" "sum_words ?h < 4294967296" unfolding h using t by simp_all
    ultimately show ?thesis by (simp add: checksum_ok_iff)
  qed
  have d12: "drop 12 (?h @ ?icmp) = le32 src @ le32 to @ ?icmp"
    and d16: "drop 16 (?h @ ?icmp) = le32 to @ ?icmp"
    and d26: "drop 26 (?h @ ?icmp) = be16 (word_of_int ttl)"
    and d2: "drop 2 (?h @ ?icmp) = be16 28 @ drop 4 (?h @ ?icmp)"
    and d4: "drop 4 (?h @ ?icmp) = be16 (word_of_int pid) @ drop 6 (?h @ ?icmp)"
    and d24: "drop 24 (?h @ ?icmp) = be16 (word_of_int pid) @ be16 (word_of_int ttl)"
    and n: "(?h @ ?icmp) ! 8 = word_of_int ttl" "(?h @ ?icmp) ! 0 = 0x45" "(?h @ ?icmp) ! 1 = 0"
      "(?h @ ?icmp) ! 6 = 0" "(?h @ ?icmp) ! 7 = 0" "(?h @ ?icmp) ! 9 = 1"
    by (simp_all add: ip_header_def icmp_header_def le16_def be16_def IPPROTO_ICMP_def)
  have n20: "(?h @ ?icmp) ! 20 = 8" "(?h @ ?icmp) ! 21 = 0"
    by (simp_all add: nth_append icmp_header_def ICMP_ECHO_def)
  have f2: "of_be16 (drop 2 (?h @ ?icmp)) = 28" and f4: "of_be16 (drop 4 (?h @ ?icmp)) = word_of_int pid"
    by (subst d2, simp) (subst d4, simp)
  show ?thesis
    using icmp head unfolding pkt f2 f4 d12 d16 d24 d26 n n20 checksum_ok_def by simp
qed

text \<open>The masks that pass \<^verbatim>\<open>allones\<close>: the ones are at the top.\<close>

definition prefix_mask :: "nat \<Rightarrow> u32" where
  "prefix_mask k = push_bit (32 - k) (mask k)"

lemma top_bit: "m AND 0x80000000 \<noteq> 0 \<longleftrightarrow> bit (m :: u32) 31"
  by (simp add: bit_iff_and_push_bit_not_eq_0)

lemma allones_loop_result:
  "(\<forall>i < 32. bit m i \<longrightarrow> 32 - n \<le> i) \<Longrightarrow>
   \<exists>r. allones_loop (Suc n) m = Some r \<and> (r = 0 \<longleftrightarrow> (\<exists>k \<le> 32. \<forall>i < 32. bit m i \<longleftrightarrow> 32 - k \<le> i))"
proof (induction n arbitrary: m)
  case 0
  then have "m = 0" by (auto intro!: bit_word_eqI)
  then show ?case by (auto intro!: exI [of _ 0])
next
  case (Suc n)
  show ?case
  proof (cases "bit m 31")
    case True
    have sh: "bit (push_bit 1 m) i \<longleftrightarrow> 0 < i \<and> bit m (i - 1)" if "i < 32" for i
      unfolding bit_push_bit_iff using that by (cases i) simp_all
    have "\<forall>i < 32. bit (push_bit 1 m) i \<longrightarrow> 32 - n \<le> i"
    proof (intro allI impI)
      fix i assume i: "i < 32" "bit (push_bit 1 m) i"
      then have "0 < i" "bit m (i - 1)" using sh by blast+
      then have "32 - Suc n \<le> i - 1" using Suc.prems i(1) by simp
      then show "32 - n \<le> i" using \<open>0 < i\<close> by simp
    qed
    from Suc.IH [OF this] obtain r where r: "allones_loop (Suc n) (push_bit 1 m) = Some r"
      "r = 0 \<longleftrightarrow> (\<exists>k \<le> 32. \<forall>i < 32. bit (push_bit 1 m) i \<longleftrightarrow> 32 - k \<le> i)" by blast
    have "(\<exists>k \<le> 32. \<forall>i < 32. bit (push_bit 1 m) i \<longleftrightarrow> 32 - k \<le> i)
        \<longleftrightarrow> (\<exists>k \<le> 32. \<forall>i < 32. bit m i \<longleftrightarrow> 32 - k \<le> i)"
    proof
      assume "\<exists>k \<le> 32. \<forall>i < 32. bit (push_bit 1 m) i \<longleftrightarrow> 32 - k \<le> i"
      then obtain k where k: "k \<le> 32" "\<forall>i < 32. bit (push_bit 1 m) i \<longleftrightarrow> 32 - k \<le> i" by blast
      have "k < 32" using k(2) sh [of 0] by (cases "k = 32") auto
      moreover have "bit m i \<longleftrightarrow> 32 - Suc k \<le> i" if "i < 32" for i
        using k(2) sh [of "Suc i"] that True by (cases "i = 31") auto
      ultimately show "\<exists>k \<le> 32. \<forall>i < 32. bit m i \<longleftrightarrow> 32 - k \<le> i" by (intro exI [of _ "Suc k"]) auto
    next
      assume "\<exists>k \<le> 32. \<forall>i < 32. bit m i \<longleftrightarrow> 32 - k \<le> i"
      then obtain k where k: "k \<le> 32" "\<forall>i < 32. bit m i \<longleftrightarrow> 32 - k \<le> i" by blast
      have "0 < k" using k(2) True by (cases k) auto
      moreover have "bit (push_bit 1 m) i \<longleftrightarrow> 32 - (k - 1) \<le> i" if "i < 32" for i
        using k sh [OF that] that \<open>0 < k\<close> by (cases i) auto
      ultimately show "\<exists>k \<le> 32. \<forall>i < 32. bit (push_bit 1 m) i \<longleftrightarrow> 32 - k \<le> i"
        using k(1) by (intro exI [of _ "k - 1"]) auto
    qed
    then show ?thesis using r True by (simp add: top_bit)
  next
    case False
    have "m = 0 \<longleftrightarrow> (\<exists>k \<le> 32. \<forall>i < 32. bit m i \<longleftrightarrow> 32 - k \<le> i)"
    proof
      assume "m = 0"
      then show "\<exists>k \<le> 32. \<forall>i < 32. bit m i \<longleftrightarrow> 32 - k \<le> i" by (intro exI [of _ 0]) auto
    next
      assume "\<exists>k \<le> 32. \<forall>i < 32. bit m i \<longleftrightarrow> 32 - k \<le> i"
      then obtain k where k: "k \<le> 32" "\<forall>i < 32. bit m i \<longleftrightarrow> 32 - k \<le> i" by blast
      then have "k = 0" using False by (cases k) auto
      then show "m = 0" using k by (auto intro!: bit_word_eqI)
    qed
    then show ?thesis using False by (simp add: top_bit)
  qed
qed

lemma allones_prefix:
  "allones m = Some (if \<exists>k \<le> 32. m = prefix_mask k then 1 else 0)"
proof -
  have pm: "m = prefix_mask k \<longleftrightarrow> (\<forall>i < 32. bit m i \<longleftrightarrow> 32 - k \<le> i)" if "k \<le> 32" for k
    using that by (auto simp: prefix_mask_def bit_push_bit_iff bit_mask_iff intro!: bit_word_eqI)
  obtain r where r: "allones_loop 33 m = Some r"
    "r = 0 \<longleftrightarrow> (\<exists>k \<le> 32. \<forall>i < 32. bit m i \<longleftrightarrow> 32 - k \<le> i)"
    using allones_loop_result [of m 32] by auto
  then show ?thesis using pm by (auto simp: allones_def)
qed

text \<open>A network is the range from its first to its last address.\<close>

lemma uint_round: "uint (push_bit j (drop_bit j (y :: u32))) = 2 ^ j * (uint y div 2 ^ j)"
proof -
  have "take_bit 32 (uint y) = uint y" using uint_lt2p [of y] by (intro take_bit_int_eq_self) simp_all
  then have "uint (push_bit j (drop_bit j y)) = take_bit 32 (push_bit j (drop_bit j (uint y)))"
    by (simp add: unsigned_push_bit_eq unsigned_drop_bit_eq)
  also have "\<dots> = push_bit j (drop_bit j (uint y))"
  proof -
    have "2 ^ j * (uint y div 2 ^ j) \<le> uint y"
    proof -
      have "0 \<le> uint y mod 2 ^ j" by simp
      then show ?thesis using mult_div_mod_eq [of "2 ^ j" "uint y"] by linarith
    qed
    then have "2 ^ j * (uint y div 2 ^ j) < 2 ^ 32" using uint_lt2p [of y] by simp
    moreover have "0 \<le> 2 ^ j * (uint y div 2 ^ j)" by (intro mult_nonneg_nonneg) (simp_all add: pos_imp_zdiv_nonneg_iff)
    ultimately have "take_bit 32 (2 ^ j * (uint y div 2 ^ j)) = 2 ^ j * (uint y div 2 ^ j)"
      by (intro take_bit_int_eq_self)
    then show ?thesis by (simp add: push_bit_eq_mult drop_bit_eq_div mult.commute)
  qed
  finally show ?thesis by (simp add: push_bit_eq_mult drop_bit_eq_div mult.commute)
qed

lemma prefix_mask_not: "k \<le> 32 \<Longrightarrow> prefix_mask k = NOT (mask (32 - k))"
  by (rule bit_word_eqI) (auto simp: prefix_mask_def bit_simps)

lemma and_not_mask: "y AND NOT (mask j) = push_bit j (drop_bit j (y :: u32))"
  by (rule bit_word_eqI) (auto simp: bit_simps)

lemma uint_top: 
  assumes "j \<le> 32" shows "uint (push_bit j (drop_bit j (y :: u32)) OR mask j) = 2 ^ j * (uint y div 2 ^ j) + 2 ^ j - 1"
proof -
  have "uint (mask j :: u32) = mask j"
    using assms by (intro bit_eqI) (auto simp: bit_uint_iff bit_simps)
  then have "uint (push_bit j (drop_bit j (y :: u32)) OR mask j) = 2 ^ j * (uint y div 2 ^ j) OR mask j"
    by (simp add: unsigned_or_eq uint_round)
  also have "\<dots> = 2 ^ j * (uint y div 2 ^ j) + mask j"
  proof -
    have e: "2 ^ j * (uint y div 2 ^ j) = push_bit j (uint y div 2 ^ j)" by (simp add: push_bit_eq_mult mult.commute)
    show ?thesis unfolding e by (rule disjunctive_add [symmetric]) (auto simp: bit_simps)
  qed
  finally show ?thesis by (simp add: mask_eq_exp_minus_1)
qed

lemma network_range:
  assumes "k \<le> 32"
  shows "(y AND prefix_mask k \<le> x \<and> x \<le> (y AND prefix_mask k OR NOT (prefix_mask k))) \<longleftrightarrow>
    x AND prefix_mask k = y AND prefix_mask k"
proof -
  let ?j = "32 - k"
  let ?b = "2 ^ ?j * (uint y div 2 ^ ?j)"
  have m: "prefix_mask k = NOT (mask ?j)" using prefix_mask_not [OF assms] .
  have "(y AND prefix_mask k \<le> x \<and> x \<le> (y AND prefix_mask k OR NOT (prefix_mask k))) \<longleftrightarrow>
      ?b \<le> uint x \<and> uint x \<le> ?b + 2 ^ ?j - 1"
    unfolding m bit.double_compl and_not_mask word_le_def uint_round uint_top [OF diff_le_self] ..
  also have "\<dots> \<longleftrightarrow> uint x div 2 ^ ?j = uint y div 2 ^ ?j"
  proof
    assume b: "?b \<le> uint x \<and> uint x \<le> ?b + 2 ^ ?j - 1"
    then show "uint x div 2 ^ ?j = uint y div 2 ^ ?j"
      by (intro int_div_pos_eq [where r = "uint x - ?b"]) auto
  next
    assume e: "uint x div 2 ^ ?j = uint y div 2 ^ ?j"
    have "uint x = 2 ^ ?j * (uint x div 2 ^ ?j) + uint x mod 2 ^ ?j" by simp
    moreover have "0 \<le> uint x mod 2 ^ ?j" "uint x mod 2 ^ ?j < 2 ^ ?j" by simp_all
    ultimately show "?b \<le> uint x \<and> uint x \<le> ?b + 2 ^ ?j - 1" unfolding e by linarith
  qed
  also have "\<dots> \<longleftrightarrow> uint (push_bit ?j (drop_bit ?j x)) = uint (push_bit ?j (drop_bit ?j y))"
    unfolding uint_round by simp
  also have "\<dots> \<longleftrightarrow> x AND prefix_mask k = y AND prefix_mask k"
    unfolding m and_not_mask word_uint_eq_iff ..
  finally show ?thesis .
qed

text \<open>
  \<^verbatim>\<open>allones\<close> always returns, and returns non-zero exactly on the 33 masks whose ones are
  all at the top, the netmasks of prefix length 0 to 32.
\<close>

theorem allones_netmask:
  "allones m = Some (if \<exists>k \<le> 32. m = prefix_mask k then 1 else 0)"
  by (rule allones_prefix)

end
