(* ===== verification/Routes.thy ===== *)
theory Routes
  imports Ip_Utils
begin

text \<open>
  The routing table of the Linux part of \<^verbatim>\<open>init_route_tables\<close>, and \<^verbatim>\<open>getlocalip\<close>, which
  looks the local address of a destination up in it (both in \<^verbatim>\<open>ip_utils.c\<close>).

  The interfaces that \<^verbatim>\<open>SIOCGIFCONF\<close> lists and the text of \<^verbatim>\<open>/proc/net/route\<close> are
  arguments; the text holds no NUL. \<^verbatim>\<open>numroutes\<close> is a \<^verbatim>\<open>short\<close> and wraps. An entry of \<^verbatim>\<open>routes\<close> that the code leaves (partly) as
  \<^verbatim>\<open>malloc\<close> returned it is \<^theory_text>\<open>None\<close>, and reading it is \<open>UB\<close>.
\<close>

section \<open>The standard library\<close>

abbreviation NL :: char where "NL \<equiv> CHR 0x0A"

text \<open>\<^verbatim>\<open>fgets\<close>: the string read, the rest of the file, and whether the end was met.\<close>

fun read_chunk :: "nat \<Rightarrow> string \<Rightarrow> string \<times> string \<times> bool" where
  "read_chunk 0 s = ([], s, False)"
| "read_chunk (Suc k) [] = ([], [], True)"
| "read_chunk (Suc k) (c # s) =
     (if c = NL then ([c], s, False)
      else (case read_chunk k s of (a, r, e) \<Rightarrow> (c # a, r, e)))"

definition ROUTE_BUF :: nat where "ROUTE_BUF = 1024"

definition fgets :: "string \<Rightarrow> string option \<times> string \<times> bool" where
  "fgets s = (case read_chunk (ROUTE_BUF - 1) s of (a, r, e) \<Rightarrow> (if a = [] then None else Some a, r, e))"

text \<open>The tokens that repeated calls of \<^verbatim>\<open>strtok(_, "\t ")\<close> return.\<close>

abbreviation sep_char :: "char \<Rightarrow> bool" where
  "sep_char ch \<equiv> ch = CHR 0x09 \<or> ch = CHR 0x20"

fun tokens_from :: "string \<Rightarrow> string \<Rightarrow> string list" where
  "tokens_from acc [] = (if acc = [] then [] else [rev acc])"
| "tokens_from acc (c # cs) =
     (if sep_char c then (if acc = [] then tokens_from [] cs else rev acc # tokens_from [] cs)
      else tokens_from (c # acc) cs)"

definition strtok_all :: "string \<Rightarrow> string list" where
  "strtok_all s = tokens_from [] s"

text \<open>\<^verbatim>\<open>strtoul(_, NULL, 16)\<close>.\<close>

definition hex_val :: "char \<Rightarrow> nat option" where
  "hex_val c =
     (let n = of_char c :: nat in
      if 48 \<le> n \<and> n \<le> 57 then Some (n - 48)
      else if 65 \<le> n \<and> n \<le> 70 then Some (n - 55)
      else if 97 \<le> n \<and> n \<le> 102 then Some (n - 87)
      else None)"

definition c_isspace :: "char \<Rightarrow> bool" where
  "c_isspace c \<longleftrightarrow> (let n = of_char c :: nat in n = 32 \<or> (9 \<le> n \<and> n \<le> 13))"

fun hex_digits :: "nat \<Rightarrow> string \<Rightarrow> nat" where
  "hex_digits acc [] = acc"
| "hex_digits acc (c # cs) = (case hex_val c of None \<Rightarrow> acc | Some d \<Rightarrow> hex_digits (16 * acc + d) cs)"

definition strtoul16 :: "string \<Rightarrow> u64" where
  "strtoul16 s0 =
     (let s1 = dropWhile c_isspace s0;
          neg = (case s1 of c # _ \<Rightarrow> c = CHR ''-'' | [] \<Rightarrow> False);
          s2 = (case s1 of c # cs \<Rightarrow> (if c = CHR ''-'' \<or> c = CHR ''+'' then cs else s1) | [] \<Rightarrow> []);
          s3 = (case s2 of
                  a # b # c # cs \<Rightarrow>
                    (if a = CHR ''0'' \<and> (b = CHR ''x'' \<or> b = CHR ''X'') \<and> hex_val c \<noteq> None
                     then c # cs else s2)
                | _ \<Rightarrow> s2);
          v = hex_digits 0 s3
      in if v \<ge> 2 ^ 64 then -1 else if neg then - word_of_nat v else word_of_nat v)"

section \<open>The code\<close>

record interfacerec =
  if_name :: string
  if_addr :: u32

record routerec =
  rt_addr :: u32
  rt_naddr :: u64
  rt_iface :: interfacerec

text \<open>The lines counted by \<^verbatim>\<open>while (!feof (f))\<close>.\<close>

lemma read_chunk_shorter:
  "read_chunk k s = (a, r, e) \<Longrightarrow> length s = length a + length r \<and> (a = [] \<and> k > 0 \<longrightarrow> e \<and> s = [])"
  by (induction k s arbitrary: a r e rule: read_chunk.induct) (auto split: prod.splits if_splits)

lemma fgets_shorter:
  "fgets s = (m, r, e) \<Longrightarrow> (m = None \<longrightarrow> e) \<and> (m \<noteq> None \<longrightarrow> length r < length s)"
  using read_chunk_shorter [of "ROUTE_BUF - 1" s]
  by (auto simp: fgets_def ROUTE_BUF_def split: prod.splits if_splits)

function count_lines :: "string \<Rightarrow> nat" where
  "count_lines s = (case fgets s of (_, r, e) \<Rightarrow> if e then 1 else Suc (count_lines r))"
  by auto
termination
proof (relation "measure length")
  fix s m r e y
  assume "(m, y) = fgets s" "(r, e) = y" "\<not> e"
  then show "(r, s) \<in> measure length" using fgets_shorter [of s m r e] by auto
qed simp

declare count_lines.simps [simp del]

text \<open>The rest of a line that did not fit the buffer.\<close>

function skip_long :: "string \<Rightarrow> string" where
  "skip_long s =
     (case fgets s of
        (None, r, _) \<Rightarrow> r
      | (Some b, r, _) \<Rightarrow> if last b = NL then r else skip_long r)"
  by auto
termination
proof (relation "measure length")
  fix s x y r e b
  assume "(x, y) = fgets s" "x = Some b" "(r, e) = y"
  then show "(r, s) \<in> measure length" using fgets_shorter [of s x r e] by auto
qed simp

declare skip_long.simps [simp del]

text \<open>One line: the entry that it leaves in \<^verbatim>\<open>routes\<close>.\<close>

definition parse_route :: "interfacerec list \<Rightarrow> string \<Rightarrow> routerec option outcome" where
  "parse_route ifs buf =
     (case strtok_all buf of
        [] \<Rightarrow> Ret None
      | iface # ts \<Rightarrow>
         if length iface \<ge> 16 then Ret None
         else
           (case ts of
              [] \<Rightarrow> UB
            | dst # ts' \<Rightarrow>
               if length ts' < 6 then Ret None
               else
                 (case filter (\<lambda>i. if_name i = iface) ifs of
                    [] \<Rightarrow> Exit 1
                  | hits \<Rightarrow> Ret (Some \<lparr>rt_addr = ucast (strtoul16 dst),
                                     rt_naddr = strtoul16 (ts' ! 5), rt_iface = last hits\<rparr>))))"

fun read_routes ::
  "nat \<Rightarrow> interfacerec list \<Rightarrow> string \<Rightarrow> routerec option list outcome" where
  "read_routes 0 ifs f = Ret []"
| "read_routes (Suc n) ifs f =
     (case fgets f of
        (None, _) \<Rightarrow> Exit 1
      | (Some buf, r, _) \<Rightarrow>
         if length buf = ROUTE_BUF - 1
         then obind (read_routes n ifs (skip_long r)) (\<lambda>rs. Ret (None # rs))
         else obind (parse_route ifs buf) (\<lambda>e.
              obind (read_routes n ifs r) (\<lambda>rs. Ret (e # rs))))"

text \<open>
  \<^verbatim>\<open>numroutes\<close>, a \<^verbatim>\<open>short\<close>: it is counted up for every line and then down by one. With a
  negative number no entry is read, nor looked at later.
\<close>

definition to_short :: "int \<Rightarrow> int" where
  "to_short x = signed_take_bit 15 x"

lemma to_short_pred: "to_short (to_short x - 1) = to_short (x - 1)"
  using signed_take_bit_diff [of 15 x "1 :: int"] by (simp add: to_short_def signed_take_bit_int_eq_self)

lemma to_short_id: "- 32768 \<le> x \<Longrightarrow> x \<le> 32767 \<Longrightarrow> to_short x = x"
  by (simp add: to_short_def signed_take_bit_int_eq_self)

definition init_route_tables :: "interfacerec list \<Rightarrow> string \<Rightarrow> routerec option list outcome" where
  "init_route_tables ifs f =
     (case fgets f of
        (_, r, e) \<Rightarrow> read_routes (nat (to_short (to_short (if e then 0 else int (count_lines r)) - 1))) ifs r)"

fun find_route :: "u32 \<Rightarrow> routerec option list \<Rightarrow> u32 outcome" where
  "find_route dest [] = Ret 0"
| "find_route dest (None # rs) = UB"
| "find_route dest (Some r # rs) =
     (if (ucast dest AND rt_naddr r) = ucast (rt_addr r) then Ret (if_addr (rt_iface r))
      else find_route dest rs)"

definition getlocalip :: "interfacerec list \<Rightarrow> string \<Rightarrow> u32 \<Rightarrow> u32 outcome" where
  "getlocalip ifs f dest = obind (init_route_tables ifs f) (find_route dest)"

section \<open>Tables as the kernel prints them\<close>

definition hex_digit :: "nat \<Rightarrow> char" where
  "hex_digit d = char_of (if d < 10 then 48 + d else 55 + d)"

primrec hexn :: "nat \<Rightarrow> nat \<Rightarrow> string" where
  "hexn 0 n = []"
| "hexn (Suc k) n = hexn k (n div 16) @ [hex_digit (n mod 16)]"

record kroute =
  kr_iface :: string
  kr_dest :: u32
  kr_mid :: "string list"
  kr_mask :: u32
  kr_tail :: string

definition kline :: "kroute \<Rightarrow> string" where
  "kline k = kr_iface k @ CHR 0x09 # hexn 8 (unat (kr_dest k)) @ CHR 0x09
     # concat (map (\<lambda>m. m @ [CHR 0x09]) (kr_mid k)) @ hexn 8 (unat (kr_mask k)) @ CHR 0x09
     # kr_tail k @ [NL]"

definition field_ok :: "string \<Rightarrow> bool" where
  "field_ok s \<longleftrightarrow> s \<noteq> [] \<and> (\<forall>c \<in> set s. \<not> sep_char c \<and> c \<noteq> NL)"

definition kroute_ok :: "kroute \<Rightarrow> bool" where
  "kroute_ok k \<longleftrightarrow> field_ok (kr_iface k) \<and> length (kr_iface k) < 16 \<and> length (kr_mid k) = 5 \<and>
     (\<forall>m \<in> set (kr_mid k). field_ok m) \<and> NL \<notin> set (kr_tail k) \<and> length (kline k) < 1023"

lemma hex_val_digit: "d < 16 \<Longrightarrow> hex_val (hex_digit d) = Some d"
  by (auto simp: hex_digit_def hex_val_def Let_def)

lemma hex_digits_append:
  "(\<forall>c \<in> set s. hex_val c \<noteq> None) \<Longrightarrow> hex_digits acc (s @ t) = hex_digits (hex_digits acc s) t"
  by (induction s arbitrary: acc) auto

lemma hexn_hex: "\<forall>c \<in> set (hexn k n). hex_val c \<noteq> None"
  by (induction k arbitrary: n) (auto simp: hex_val_digit)

lemma hex_digits_hexn: "hex_digits 0 (hexn k n) = n mod 16 ^ k"
proof (induction k arbitrary: n)
  case (Suc k)
  have "16 * (n div 16 mod 16 ^ k) + n mod 16 = n mod (16 * 16 ^ k)"
    by (simp add: mod_mult2_eq)
  then show ?case using Suc hexn_hex [of k "n div 16"]
    by (simp add: hex_digits_append hex_val_digit)
qed simp

lemma length_hexn [simp]: "length (hexn k n) = k"
  by (induction k arbitrary: n) auto

lemma hex_char_plain:
  "hex_val c \<noteq> None \<Longrightarrow> \<not> c_isspace c \<and> c \<noteq> CHR ''-'' \<and> c \<noteq> CHR ''+'' \<and> c \<noteq> CHR ''x'' \<and> c \<noteq> CHR ''X''
     \<and> \<not> sep_char c \<and> c \<noteq> NL"
  by (auto simp: hex_val_def c_isspace_def Let_def split: if_splits)

lemma strtoul16_hexn: "strtoul16 (hexn 8 (unat w)) = ucast (w :: u32)"
proof -
  have "length (hexn 8 (unat w)) = Suc (Suc (Suc 5))" by simp
  then obtain a b c t where h: "hexn 8 (unat w) = a # b # c # t"
    unfolding length_Suc_conv by blast
  have hx: "hex_val a \<noteq> None" "hex_val b \<noteq> None" using hexn_hex [of 8 "unat w"] h by auto
  have v: "hex_digits 0 (hexn 8 (unat w)) = unat w"
    using unsigned_less [of w, where ?'a = nat] by (simp add: hex_digits_hexn)
  have "unat w < 2 ^ 64" using unsigned_less [of w, where ?'a = nat] by simp
  then show ?thesis
    using hex_char_plain [OF hx(1)] hex_char_plain [OF hx(2)] v
    by (simp add: strtoul16_def h Let_def)
qed

lemma tokens_from_word:
  "\<forall>c \<in> set w. \<not> sep_char c \<Longrightarrow> sep_char c \<Longrightarrow> rev acc @ w \<noteq> [] \<Longrightarrow>
     tokens_from acc (w @ c # rest) = (rev acc @ w) # tokens_from [] rest"
proof (induction w arbitrary: acc)
  case (Cons a w)
  have "tokens_from (a # acc) (w @ c # rest) = (rev (a # acc) @ w) # tokens_from [] rest"
    by (rule Cons.IH) (use Cons.prems in auto)
  then show ?case using Cons.prems(1) by auto
qed auto

lemma strtok_word: "\<forall>c \<in> set w. \<not> sep_char c \<Longrightarrow> w \<noteq> [] \<Longrightarrow>
    strtok_all (w @ CHR 0x09 # rest) = w # strtok_all rest"
  using tokens_from_word [of w "CHR 0x09" "[]" rest] by (simp add: strtok_all_def)

lemma strtok_fields:
  "\<forall>m \<in> set ms. field_ok m \<Longrightarrow>
     strtok_all (concat (map (\<lambda>m. m @ [CHR 0x09]) ms) @ rest) = ms @ strtok_all rest"
proof (induction ms)
  case (Cons m ms)
  then have "\<forall>c \<in> set m. \<not> sep_char c" "m \<noteq> []" by (auto simp: field_ok_def)
  with Cons show ?case by (simp add: strtok_word)
qed simp

lemma hexn8_field: "field_ok (hexn 8 n)"
proof -
  have "hexn 8 n \<noteq> []" using length_hexn [of 8 n] by (metis length_0_conv zero_neq_numeral)
  then show ?thesis using hexn_hex [of 8 n] hex_char_plain by (fastforce simp: field_ok_def)
qed

lemma strtok_kline:
  assumes "kroute_ok k"
  shows "strtok_all (kline k) = kr_iface k # hexn 8 (unat (kr_dest k)) # kr_mid k
      @ hexn 8 (unat (kr_mask k)) # strtok_all (kr_tail k @ [NL])"
proof -
  have w: "strtok_all (x @ CHR 0x09 # rest) = x # strtok_all rest" if "field_ok x" for x rest
    using that by (auto intro!: strtok_word simp: field_ok_def)
  have "field_ok (kr_iface k)" "\<forall>m \<in> set (kr_mid k). field_ok m" using assms by (auto simp: kroute_ok_def)
  then show ?thesis
    unfolding kline_def by (simp add: w hexn8_field strtok_fields)
qed

lemma read_chunk_line:
  "NL \<notin> set w \<Longrightarrow> length w < k \<Longrightarrow> read_chunk k (w @ NL # s) = (w @ [NL], s, False)"
proof (induction w arbitrary: k)
  case Nil
  then show ?case by (cases k) auto
next
  case (Cons a w)
  then show ?case by (cases k) auto
qed

lemma fgets_line: "NL \<notin> set w \<Longrightarrow> length w < 1023 \<Longrightarrow> fgets (w @ NL # s) = (Some (w @ [NL]), s, False)"
  by (simp add: fgets_def ROUTE_BUF_def read_chunk_line)

lemma kline_line:
  assumes "kroute_ok k"
  obtains w where "kline k = w @ [NL]" "NL \<notin> set w" "length w < 1022"
proof
  let ?w = "kr_iface k @ CHR 0x09 # hexn 8 (unat (kr_dest k)) @ CHR 0x09
     # concat (map (\<lambda>m. m @ [CHR 0x09]) (kr_mid k)) @ hexn 8 (unat (kr_mask k)) @ CHR 0x09 # kr_tail k"
  show "kline k = ?w @ [NL]" by (simp add: kline_def)
  then show "length ?w < 1022" using assms by (auto simp: kroute_ok_def)
  show "NL \<notin> set ?w"
  proof -
    have nl: "NL \<notin> set s" if "field_ok s" for s using that unfolding field_ok_def by blast
    have "NL \<notin> set (concat (map (\<lambda>m. m @ [CHR 0x09]) ms))" if "\<forall>m \<in> set ms. field_ok m" for ms
      using that nl by (induction ms) simp_all
    then show ?thesis using assms nl hexn8_field by (simp add: kroute_ok_def)
  qed
qed

lemma fgets_nil: "fgets [] = (None, [], True)"
proof -
  have "read_chunk k [] = ([], [], True)" if "0 < k" for k using that by (cases k) auto
  then show ?thesis by (simp add: fgets_def ROUTE_BUF_def)
qed

lemma fgets_kline: "kroute_ok k \<Longrightarrow> fgets (kline k @ s) = (Some (kline k), s, False)"
  by (erule kline_line) (simp add: fgets_line)

lemma count_klines: "\<forall>k \<in> set ks. kroute_ok k \<Longrightarrow> count_lines (concat (map kline ks)) = Suc (length ks)"
  by (induction ks) (simp_all add: count_lines.simps [of "[]"] fgets_nil
      count_lines.simps [of "kline _ @ _"] fgets_kline)

text \<open>The entry that a line stands for.\<close>

definition route_of :: "interfacerec list \<Rightarrow> kroute \<Rightarrow> routerec" where
  "route_of ifs k = \<lparr>rt_addr = kr_dest k, rt_naddr = ucast (kr_mask k),
     rt_iface = last (filter (\<lambda>i. if_name i = kr_iface k) ifs)\<rparr>"

lemma parse_route_kline:
  assumes "kroute_ok k" "kr_iface k \<in> if_name ` set ifs"
  shows "parse_route ifs (kline k) = Ret (Some (route_of ifs k))"
proof -
  have "filter (\<lambda>i. if_name i = kr_iface k) ifs \<noteq> []" using assms(2) by (auto simp: filter_empty_conv)
  then show ?thesis
    using assms(1) by (auto simp: parse_route_def strtok_kline kroute_ok_def strtoul16_hexn route_of_def
        nth_append ucast_u64_u32 split: list.split)
qed

lemma read_routes_klines:
  assumes "\<forall>k \<in> set ks. kroute_ok k \<and> kr_iface k \<in> if_name ` set ifs"
  shows "read_routes (length ks) ifs (concat (map kline ks)) = Ret (map (\<lambda>k. Some (route_of ifs k)) ks)"
  using assms
proof (induction ks)
  case (Cons k ks)
  have "length (kline k) \<noteq> 1023" using Cons.prems by (auto simp: kroute_ok_def)
  then show ?case using Cons by (simp add: fgets_kline parse_route_kline ROUTE_BUF_def)
qed simp

lemma and_ucast_eq: "(ucast a AND ucast b :: u64) = ucast c \<longleftrightarrow> a AND b = (c :: u32)"
proof -
  have "(ucast a AND ucast b :: u64) = ucast (a AND b)" by (simp add: unsigned_and_eq)
  moreover have "(ucast x :: u64) = ucast y \<longleftrightarrow> x = y" for x y :: u32
    by (metis ucast_u64_u32)
  ultimately show ?thesis by metis
qed

section \<open>Property\<close>

text \<open>
  C9. Reading back a routing table as the kernel prints it, with fewer than 32768 routes, every
  interface of which is known, and lines shorter than 1023 characters, loses nothing, and \<^verbatim>\<open>getlocalip\<close> answers the address of the interface of the first
  route that covers the destination, or 0.0.0.0; it has no invalid access and no exit.
\<close>

theorem getlocalip_first_route:
  assumes "\<forall>k \<in> set ks. kroute_ok k \<and> kr_iface k \<in> if_name ` set ifs"
    and "NL \<notin> set title" "length title < 1023" "length ks < 32768"
  shows "getlocalip ifs (title @ NL # concat (map kline ks)) dest =
    Ret (case find (\<lambda>k. dest AND kr_mask k = kr_dest k) ks of
           None \<Rightarrow> 0
         | Some k \<Rightarrow> if_addr (last (filter (\<lambda>i. if_name i = kr_iface k) ifs)))"
proof -
  have "\<forall>k \<in> set ks. kroute_ok k" using assms(1) by auto
  then have "init_route_tables ifs (title @ NL # concat (map kline ks))
      = Ret (map (\<lambda>k. Some (route_of ifs k)) ks)"
    using read_routes_klines [OF assms(1)]
    by (simp add: init_route_tables_def fgets_line [OF assms(2,3)] count_klines to_short_pred to_short_id
        assms(4)) (use assms(4) in \<open>simp add: to_short_id\<close>)
  moreover have "find_route dest (map (\<lambda>k. Some (route_of ifs k)) ks) =
      Ret (case find (\<lambda>k. dest AND kr_mask k = kr_dest k) ks of
           None \<Rightarrow> 0
         | Some k \<Rightarrow> if_addr (last (filter (\<lambda>i. if_name i = kr_iface k) ifs)))"
    by (induction ks) (auto simp: route_of_def and_ucast_eq)
  ultimately show ?thesis by (simp add: getlocalip_def)
qed

text \<open>Behind the bound: with 65536 routes the number is 0, and no destination has a local address.\<close>

lemma getlocalip_wraps:
  assumes "\<forall>k \<in> set ks. kroute_ok k" "NL \<notin> set title" "length title < 1023" "length ks = 65536"
  shows "getlocalip ifs (title @ NL # concat (map kline ks)) dest = Ret 0"
proof -
  have "to_short 65536 = 0" by (simp add: to_short_def signed_take_bit_eq_take_bit_shift take_bit_eq_mod)
  then show ?thesis
    using assms
    by (simp add: getlocalip_def init_route_tables_def fgets_line count_klines to_short_pred)
qed

text \<open>An example: a network route and the default route, both over \<^verbatim>\<open>eth0\<close>.\<close>

definition two_routes :: "kroute list" where
  "two_routes =
     [\<lparr>kr_iface = ''lo'', kr_dest = 0x7f, kr_mid = [''0'', ''1'', ''0'', ''0'', ''0''], kr_mask = 0xff, kr_tail = ''0''\<rparr>,
      \<lparr>kr_iface = ''eth0'', kr_dest = 0, kr_mid = [''0'', ''1'', ''0'', ''0'', ''0''], kr_mask = 0, kr_tail = ''0''\<rparr>]"

lemma getlocalip_first_route_witness:
  "getlocalip [\<lparr>if_name = ''lo'', if_addr = 0x0100007f\<rparr>, \<lparr>if_name = ''eth0'', if_addr = 0x0a00a8c0\<rparr>]
     (''Iface'' @ NL # concat (map kline two_routes)) 0x08080808 = Ret 0x0a00a8c0"
proof -
  have "\<forall>k \<in> set two_routes. kroute_ok k \<and> kr_iface k \<in> {''lo'', ''eth0''}"
    by (simp add: two_routes_def kroute_ok_def field_ok_def kline_def)
  then show ?thesis
    by (subst getlocalip_first_route) (auto simp: two_routes_def)
qed

end
