(* ===== verification/Wire.thy ===== *)
theory Wire
  imports Cheops_Prelude
begin

text \<open>
  The event format of \<^verbatim>\<open>event.h\<close> and the error event of \<^verbatim>\<open>cerror.c\<close>: an event is a 12-byte
  header in network byte order and a body that starts \<^verbatim>\<open>hlen\<close> bytes into it. The bodies are
  C structures, laid out as an LP64 compiler does it: a pointer is aligned to 8 bytes,
  which leaves padding in front of it. A pointer \<^verbatim>\<open>np\<close> travels through a peer as 8 opaque
  bytes.
\<close>

section \<open>Constants\<close>

definition MAX_EVENT :: nat where "MAX_EVENT = 256"
definition MAX_EVENT_SIZE :: nat where "MAX_EVENT_SIZE = 65536"

definition FLAG_FORCE :: u32 where "FLAG_FORCE = 1"
definition FLAG_PROXY :: u32 where "FLAG_PROXY = 2"
definition FLAG_IGNORE :: u32 where "FLAG_IGNORE = 4"

definition EVENT_DISCOVER_IPV4 :: u16 where "EVENT_DISCOVER_IPV4 = 2"
definition EVENT_OS_SCAN :: u16 where "EVENT_OS_SCAN = 3"
definition EVENT_SET_SETTINGS :: u16 where "EVENT_SET_SETTINGS = 4"
definition EVENT_DNS_QUERY :: u16 where "EVENT_DNS_QUERY = 5"
definition EVENT_MAP_ICMP :: u16 where "EVENT_MAP_ICMP = 6"
definition EVENT_PROBE :: u16 where "EVENT_PROBE = 7"
definition EVENT_AUTH_REQUEST :: u16 where "EVENT_AUTH_REQUEST = 8"
definition REPLY_ERROR :: u16 where "REPLY_ERROR = 101"
definition REPLY_DISCOVER_IPV4 :: u16 where "REPLY_DISCOVER_IPV4 = 102"
definition REPLY_OS_SCAN :: u16 where "REPLY_OS_SCAN = 103"
definition REPLY_DNS_QUERY :: u16 where "REPLY_DNS_QUERY = 105"
definition REPLY_MAP_ICMP :: u16 where "REPLY_MAP_ICMP = 106"
definition REPLY_PROBE :: u16 where "REPLY_PROBE = 107"
definition REPLY_AUTH_REQUEST :: u16 where "REPLY_AUTH_REQUEST = 108"

lemmas event_types =
  EVENT_DISCOVER_IPV4_def EVENT_OS_SCAN_def EVENT_SET_SETTINGS_def EVENT_DNS_QUERY_def
  EVENT_MAP_ICMP_def EVENT_PROBE_def EVENT_AUTH_REQUEST_def REPLY_ERROR_def
  REPLY_DISCOVER_IPV4_def REPLY_OS_SCAN_def REPLY_DNS_QUERY_def REPLY_MAP_ICMP_def
  REPLY_PROBE_def REPLY_AUTH_REQUEST_def

section \<open>The header\<close>

record event_hdr =
  h_len :: u32
  h_hlen :: u16
  h_type :: u16
  h_flags :: u32

definition EVENT_HDR_SIZE :: nat where "EVENT_HDR_SIZE = 12"

text \<open>The header as its senders fill it with \<^verbatim>\<open>htonl\<close> and \<^verbatim>\<open>htons\<close>, and as receivers read it.\<close>

definition hdr_bytes :: "event_hdr \<Rightarrow> u8 list" where
  "hdr_bytes h = be32 (h_len h) @ be16 (h_hlen h) @ be16 (h_type h) @ be32 (h_flags h)"

definition hdr_of :: "u8 list \<Rightarrow> event_hdr" where
  "hdr_of bs = \<lparr>h_len = of_be32 bs, h_hlen = of_be16 (drop 4 bs), h_type = of_be16 (drop 6 bs),
     h_flags = of_be32 (drop 8 bs)\<rparr>"

lemma length_hdr_bytes [simp]: "length (hdr_bytes h) = 12"
  by (simp add: hdr_bytes_def)

lemma hdr_of_hdr_bytes [wire_simps, simp]: "hdr_of (hdr_bytes h @ xs) = h"
  by (simp add: hdr_of_def hdr_bytes_def)

lemma hdr_of_hdr_bytes_nil [wire_simps, simp]: "hdr_of (hdr_bytes h) = h"
  using hdr_of_hdr_bytes [of h "[]"] by simp

text \<open>An event as every sender of the repository builds it: 12 header bytes, then the body.\<close>

definition mk_event :: "u16 \<Rightarrow> u32 \<Rightarrow> u8 list \<Rightarrow> u8 list" where
  "mk_event ty fl body =
     hdr_bytes \<lparr>h_len = word_of_nat (12 + length body), h_hlen = 12, h_type = ty, h_flags = fl\<rparr> @ body"

lemma length_mk_event [simp]: "length (mk_event ty fl body) = 12 + length body"
  by (simp add: mk_event_def)

lemma drop_mk_event [simp]: "drop 12 (mk_event ty fl body) = body"
  by (simp add: mk_event_def)

text \<open>A pointer that a peer carries.\<close>

definition ptr_bytes :: "u64 \<Rightarrow> u8 list" where "ptr_bytes p = le64 p"
definition ptr_of :: "u8 list \<Rightarrow> u64" where "ptr_of bs = of_le64 bs"

lemma ptr_simps [wire_simps, simp]: "length (ptr_bytes p) = 8" "ptr_of (ptr_bytes p @ xs) = p"
  "ptr_of (ptr_bytes p) = p"
  using of_le64_le64 [of p "[]"] by (simp_all add: ptr_bytes_def ptr_of_def)

section \<open>The error event\<close>

definition ERROR_UNIMPL :: u16 where "ERROR_UNIMPL = 1"

text \<open>
  \<^verbatim>\<open>cheops_error\<close> after formatting: \<open>text\<close> is what \<^verbatim>\<open>vsnprintf\<close> would write without a limit;
  the buffer leaves it 65520 bytes with its NUL. The NUL is not part of the event.
\<close>

definition error_event :: "u16 \<Rightarrow> cstring \<Rightarrow> u8 list" where
  "error_event err text =
     (let c = take 65519 text in
      mk_event REPLY_ERROR FLAG_IGNORE
        (be16 err @ be16 (word_of_nat (length c)) @ map byte_of_char c))"

text \<open>\<^verbatim>\<open>"Unsupported message type %d\n"\<close>.\<close>

fun show_nat_fuel :: "nat \<Rightarrow> nat \<Rightarrow> string" where
  "show_nat_fuel 0 n = []"
| "show_nat_fuel (Suc k) n =
     (if n < 10 then [char_of (48 + n)] else show_nat_fuel k (n div 10) @ [char_of (48 + n mod 10)])"

definition show_nat :: "nat \<Rightarrow> string" where "show_nat n = show_nat_fuel 20 n"

definition unsupported_text :: "u16 \<Rightarrow> cstring" where
  "unsupported_text ty = ''Unsupported message type '' @ show_nat (unat ty) @ [CHR 0x0A]"

end
