(* ===== verification/Event.thy ===== *)
theory Event
  imports Wire Io
begin

text \<open>
  The event layer, \<^verbatim>\<open>event.c\<close>: the agents (connections), the table of handlers, the receive
  state machine that cuts the byte stream into events, the login gate, and sending. It is
  modelled without SSL, which \<^verbatim>\<open>cheops-config.h\<close> leaves off. An agent is an allocated cell;
  the list \<^verbatim>\<open>agents\<close> holds addresses. The descriptor table is the one of \<^theory_text>\<open>Io\<close>, with
  the three callbacks of this file and the agent's address as data.

  Answers of the system are arguments: \<^verbatim>\<open>malloc\<close> (\<^theory_text>\<open>None\<close> for NULL), \<^verbatim>\<open>accept\<close>, \<^verbatim>\<open>socket\<close>,
  \<^verbatim>\<open>bind\<close>, \<^verbatim>\<open>listen\<close>, \<^verbatim>\<open>connect\<close>, \<^verbatim>\<open>read\<close>, what \<^verbatim>\<open>write\<close> returns for a descriptor and
  bytes, and the password database.
\<close>

section \<open>State\<close>

definition AGENT_RECV_BUFFER_LENGTH :: nat where "AGENT_RECV_BUFFER_LENGTH = 65536"
definition AGENT_TYPE_LOCAL :: u32 where "AGENT_TYPE_LOCAL = 1"
definition AGENT_TYPE_IPV4 :: u32 where "AGENT_TYPE_IPV4 = 2"
definition AGENT_FLAGS_LOGGED_IN :: u32 where "AGENT_FLAGS_LOGGED_IN = 1"
definition AGENT_FLAGS_AUTHENTICATE_CLIENTS :: u32 where "AGENT_FLAGS_AUTHENTICATE_CLIENTS = 2"

definition CHEOPS_IO_IN :: u16 where "CHEOPS_IO_IN = 1"
definition CHEOPS_IO_ERR :: u16 where "CHEOPS_IO_ERR = 8"
definition CHEOPS_IO_HUP :: u16 where "CHEOPS_IO_HUP = 16"
definition CHEOPS_IO_NVAL :: u16 where "CHEOPS_IO_NVAL = 32"

datatype agent_more = MORE_NULL | Unix_connect_string | Local_string | Ipv4_connect_string | Ipv4_string

record agent =
  ag_type :: u32
  ag_id :: "nat option"
  ag_s :: int
  ag_buffer :: "u8 list"
  ag_write :: nat
  ag_expected :: int
  ag_flags :: u32
  ag_more :: agent_more

datatype ev_cb = HANDLE_AGENT | HANDLE_UNIX_CONNECT | HANDLE_IPV4_CONNECT

datatype 'h handler = HandleAuthRequest | Handler 'h

record 'h ev_state =
  handlers :: "'h handler option list"
  handlers_initialized :: bool
  agents :: "nat list"
  aheap :: "nat \<Rightarrow> agent option"
  our_local_agent :: "nat option"
  our_local_ipv4_agent :: "nat option"
  authenticate_connecting_clients :: int
  ev_io :: "(ev_cb, nat) io_state"
  ev_sent :: "(int \<times> u8 list) list"
  ev_closed :: "int list"
  ev_unlinked :: "cstring list"

definition ev_init :: "'h ev_state" where
  "ev_init = \<lparr>handlers = replicate MAX_EVENT None, handlers_initialized = False, agents = [],
     aheap = Map.empty, our_local_agent = None, our_local_ipv4_agent = None,
     authenticate_connecting_clients = 0, ev_io = io_init, ev_sent = [], ev_closed = [],
     ev_unlinked = []\<rparr>"

section \<open>Flags\<close>

definition agent_authenticate_clients :: "nat option \<Rightarrow> int \<Rightarrow> 'h ev_state \<Rightarrow> 'h ev_state outcome" where
  "agent_authenticate_clients a enable st =
     (case a of
        None \<Rightarrow> Ret st
      | Some p \<Rightarrow>
         obind (deref (aheap st) p) (\<lambda>ag.
           Ret (st\<lparr>aheap := (aheap st)(p \<mapsto> ag\<lparr>ag_flags :=
             (if enable \<noteq> 0 then ag_flags ag OR AGENT_FLAGS_AUTHENTICATE_CLIENTS
              else ag_flags ag AND NOT AGENT_FLAGS_AUTHENTICATE_CLIENTS)\<rparr>)\<rparr>)))"

definition agent_authenticating_clients :: "nat option \<Rightarrow> 'h ev_state \<Rightarrow> int outcome" where
  "agent_authenticating_clients a st =
     (case a of
        None \<Rightarrow> Ret 0
      | Some p \<Rightarrow>
         obind (deref (aheap st) p) (\<lambda>ag.
           Ret (if ag_flags ag AND AGENT_FLAGS_AUTHENTICATE_CLIENTS \<noteq> 0 then 1 else 0)))"

definition authenticate_clients :: "int \<Rightarrow> 'h ev_state \<Rightarrow> 'h ev_state" where
  "authenticate_clients enable st =
     st\<lparr>authenticate_connecting_clients := (if enable \<noteq> 0 then 1 else 0)\<rparr>"

definition authenticating_clients :: "'h ev_state \<Rightarrow> int" where
  "authenticating_clients st = authenticate_connecting_clients st"

section \<open>Agents\<close>

text \<open>
  \<^verbatim>\<open>new_agent\<close>; the fields that it leaves as \<^verbatim>\<open>malloc\<close> returned them come from \<open>junk\<close>, whose
  buffer has the declared size.
\<close>

definition new_agent :: "agent \<Rightarrow> nat option \<Rightarrow> 'h ev_state \<Rightarrow> nat option \<times> 'h ev_state" where
  "new_agent junk p st =
     (case p of
        None \<Rightarrow> (None, st)
      | Some a \<Rightarrow> (Some a, st\<lparr>aheap := (aheap st)(a \<mapsto>
           junk\<lparr>ag_write := 0, ag_expected := -1, ag_flags := 0\<rparr>)\<rparr>))"

text \<open>\<^verbatim>\<open>get_local_name\<close>; \<open>home\<close> is the environment's \<^verbatim>\<open>HOME\<close>.\<close>

definition MAX_SUN_LEN :: nat where "MAX_SUN_LEN = 108"

definition get_local_name :: "cstring option \<Rightarrow> cstring option" where
  "get_local_name home =
     (case home of
        None \<Rightarrow> None
      | Some c \<Rightarrow>
         let buf = take 255 (c @ ''/.cheops/comsocket'') in
         if length buf > MAX_SUN_LEN then None else Some buf)"

text \<open>\<^verbatim>\<open>event_destroy_agent\<close>: an address that is not in the list is left alone.\<close>

definition event_destroy_agent :: "cstring option \<Rightarrow> nat \<Rightarrow> 'h ev_state \<Rightarrow> 'h ev_state outcome" where
  "event_destroy_agent home a st =
     (if a \<notin> set (agents st) then Ret st
      else
        obind (deref (aheap st) a) (\<lambda>ag.
        let st1 = st\<lparr>agents := remove1 a (agents st), ev_closed := ev_closed st @ [ag_s ag]\<rparr> in
        obind (case ag_id ag of
                 None \<Rightarrow> Ret st1
               | Some q \<Rightarrow> obind (cheops_io_remove q (ev_io st1)) (\<lambda>(_, io). Ret (st1\<lparr>ev_io := io\<rparr>))) (\<lambda>st2.
        let st3 = (if our_local_agent st2 = Some a
                   then (case get_local_name home of
                           None \<Rightarrow> st2\<lparr>our_local_agent := None\<rparr>
                         | Some c \<Rightarrow> st2\<lparr>ev_unlinked := ev_unlinked st2 @ [c], our_local_agent := None\<rparr>)
                   else st2)
        in Ret (st3\<lparr>aheap := (aheap st3)(a := None)\<rparr>))))"

fun event_cleanup_loop :: "nat \<Rightarrow> cstring option \<Rightarrow> 'h ev_state \<Rightarrow> 'h ev_state outcome" where
  "event_cleanup_loop 0 home st = NoFuel"
| "event_cleanup_loop (Suc n) home st =
     (case agents st of
        [] \<Rightarrow> Ret st
      | a # _ \<Rightarrow> obind (event_destroy_agent home a st) (\<lambda>st'. event_cleanup_loop n home st'))"

definition event_cleanup :: "cstring option \<Rightarrow> 'h ev_state \<Rightarrow> 'h ev_state outcome" where
  "event_cleanup home st = event_cleanup_loop (Suc (length (agents st))) home st"

section \<open>Sending\<close>

definition agent_write :: "(int \<Rightarrow> u8 list \<Rightarrow> int) \<Rightarrow> agent \<Rightarrow> u8 list \<Rightarrow> int" where
  "agent_write wr ag bs =
     (if ag_type ag = AGENT_TYPE_LOCAL \<or> ag_type ag = AGENT_TYPE_IPV4 then wr (ag_s ag) bs else -1)"

definition event_send ::
  "(int \<Rightarrow> u8 list \<Rightarrow> int) \<Rightarrow> nat \<Rightarrow> u8 list \<Rightarrow> 'h ev_state \<Rightarrow> (int \<times> 'h ev_state) outcome" where
  "event_send wr a ev st =
     (if a \<notin> set (agents st) then Ret (-1, st)
      else
        obind (deref (aheap st) a) (\<lambda>ag.
        let bs = take (unat (h_len (hdr_of ev))) ev; res = agent_write wr ag bs in
          Ret (res, st\<lparr>ev_sent := ev_sent st @
                 (if res > 0 then [(ag_s ag, take (nat res) bs)] else [])\<rparr>)))"

definition cheops_error ::
  "(int \<Rightarrow> u8 list \<Rightarrow> int) \<Rightarrow> nat \<Rightarrow> u16 \<Rightarrow> cstring \<Rightarrow> 'h ev_state \<Rightarrow> 'h ev_state outcome" where
  "cheops_error wr a err text st =
     obind (event_send wr a (error_event err text) st) (\<lambda>(_, st'). Ret st')"

section \<open>Handlers\<close>

text \<open>The slot of a \<^verbatim>\<open>short\<close>: negative ones pass the test and lie before the array.\<close>

definition register_slot ::
  "int \<Rightarrow> 'h handler option \<Rightarrow> bool \<Rightarrow> 'h ev_state \<Rightarrow> (int \<times> 'h ev_state) outcome" where
  "register_slot ty h replace st =
     (if ty < int MAX_EVENT
      then if ty < 0 then UB
           else obind (aget (handlers st) (nat ty)) (\<lambda>old.
                  Ret (0, if replace \<or> old = None
                          then st\<lparr>handlers := (handlers st)[nat ty := h]\<rparr> else st))
      else Ret (-1, st))"

definition event_register_handler ::
  "int \<Rightarrow> 'h handler option \<Rightarrow> bool \<Rightarrow> 'h ev_state \<Rightarrow> (int \<times> 'h ev_state) outcome" where
  "event_register_handler ty h replace st =
     obind (if handlers_initialized st then Ret st
            else obind (register_slot (uint EVENT_AUTH_REQUEST) (Some HandleAuthRequest) True
                          (st\<lparr>handlers_initialized := True\<rparr>)) (\<lambda>(_, st'). Ret st'))
       (\<lambda>st'. register_slot ty h replace st')"

section \<open>Logging in\<close>

text \<open>
  The password database as \<^verbatim>\<open>getpwnam\<close>, \<^verbatim>\<open>getspnam\<close> and \<^verbatim>\<open>crypt\<close> answer it. A name or
  password is the C string that starts at its field.
\<close>

record auth_db =
  db_getpwnam :: "cstring \<Rightarrow> cstring option"
  db_getspnam :: "cstring \<Rightarrow> cstring option"
  db_crypt :: "cstring \<Rightarrow> cstring \<Rightarrow> cstring option"

definition send_auth_request_reply ::
  "(int \<Rightarrow> u8 list \<Rightarrow> int) \<Rightarrow> nat \<Rightarrow> int \<Rightarrow> 'h ev_state \<Rightarrow> (int \<times> 'h ev_state) outcome" where
  "send_auth_request_reply wr a authenticated st =
     obind (event_send wr a (mk_event REPLY_AUTH_REQUEST 0 (be32 (word_of_int authenticated))) st)
       (\<lambda>(res, st'). Ret (if res < 0 then 0 else 1, st'))"

definition handle_auth_request ::
  "(int \<Rightarrow> u8 list \<Rightarrow> int) \<Rightarrow> auth_db \<Rightarrow> u8 list \<Rightarrow> nat \<Rightarrow> 'h ev_state \<Rightarrow> (int \<times> 'h ev_state) outcome" where
  "handle_auth_request wr db e a st =
     (let user = bytes_cstr e; pass = bytes_cstr (drop 35 e) in
      case db_getpwnam db user of
        None \<Rightarrow> obind (send_auth_request_reply wr a 0 st) (\<lambda>(_, st'). Ret (1, st'))
      | Some pw_name \<Rightarrow>
         (case db_getspnam db pw_name of
            None \<Rightarrow> obind (send_auth_request_reply wr a 0 st) (\<lambda>(_, st'). Ret (1, st'))
          | Some sp_pwdp \<Rightarrow>
             (case db_crypt db pass sp_pwdp of
                None \<Rightarrow> UB
              | Some enc \<Rightarrow>
                 if sp_pwdp = enc
                 then obind (deref (aheap st) a) (\<lambda>ag.
                      obind (send_auth_request_reply wr a 1
                               (st\<lparr>aheap := (aheap st)(a \<mapsto> ag\<lparr>ag_flags := ag_flags ag OR AGENT_FLAGS_LOGGED_IN\<rparr>)\<rparr>))
                        (\<lambda>(_, st'). Ret (1, st')))
                 else obind (send_auth_request_reply wr a 0 st) (\<lambda>(_, st'). Ret (1, st')))))"

end
