(* ===== verification/Event_Recv.thy ===== *)
theory Event_Recv
  imports Event
begin

text \<open>
  The callbacks of \<^verbatim>\<open>event.c\<close>: \<^verbatim>\<open>handle_agent\<close>, which reads from a connection, cuts the
  bytes into events and calls their handlers, and the functions that accept, open and
  create connections.

  A handler that other files register is a function on the world, the event state with
  the state \<open>'w\<close> of the rest of the program; it is given the event (the bytes of its length)
  and where its body starts.
\<close>

section \<open>Receiving\<close>

type_synonym ('h, 'w) handler_sem =
  "'h \<Rightarrow> u8 list \<Rightarrow> nat \<Rightarrow> nat \<Rightarrow> 'h ev_state \<times> 'w \<Rightarrow> ('h ev_state \<times> 'w) outcome"

record ('h, 'w) ev_env =
  env_wr :: "int \<Rightarrow> u8 list \<Rightarrow> int"
  env_db :: auth_db
  env_home :: "cstring option"
  env_hs :: "('h, 'w) handler_sem"

definition call_handler ::
  "('h, 'w) ev_env \<Rightarrow> 'h handler \<Rightarrow> u8 list \<Rightarrow> nat \<Rightarrow> 'h ev_state \<times> 'w \<Rightarrow> ('h ev_state \<times> 'w) outcome" where
  "call_handler env f buf a w =
     (let h = hdr_of buf in
      case f of
        HandleAuthRequest \<Rightarrow>
          obind (handle_auth_request (env_wr env) (env_db env) (drop (unat (h_hlen h)) buf) a (fst w))
            (\<lambda>(_, st). Ret (st, snd w))
      | Handler c \<Rightarrow> env_hs env c (take (unat (h_len h)) buf) (unat (h_hlen h)) a w)"

definition unsupported ::
  "('h, 'w) ev_env \<Rightarrow> event_hdr \<Rightarrow> nat \<Rightarrow> 'h ev_state \<times> 'w \<Rightarrow> ('h ev_state \<times> 'w) outcome" where
  "unsupported env h a w =
     (if h_flags h AND FLAG_IGNORE = 0
      then obind (cheops_error (env_wr env) a ERROR_UNIMPL (unsupported_text (h_type h)) (fst w))
             (\<lambda>st. Ret (st, snd w))
      else Ret w)"

text \<open>A complete event at the start of the buffer.\<close>

definition handle_message ::
  "('h, 'w) ev_env \<Rightarrow> nat \<Rightarrow> 'h ev_state \<times> 'w \<Rightarrow> ('h ev_state \<times> 'w) outcome" where
  "handle_message env a w =
     obind (deref (aheap (fst w)) a) (\<lambda>ag.
       let buf = ag_buffer ag; h = hdr_of buf in
       if unat (h_type h) \<ge> MAX_EVENT then Ret w
       else if unat (h_hlen h) > unat (h_len h) then Ret w
       else if ag_flags ag AND AGENT_FLAGS_LOGGED_IN \<noteq> 0 \<or> authenticating_clients (fst w) = 0
       then obind (aget (handlers (fst w)) (unat (h_type h))) (\<lambda>slot.
              case slot of
                Some f \<Rightarrow> call_handler env f buf a w
              | None \<Rightarrow> unsupported env h a w)
       else if h_type h = EVENT_AUTH_REQUEST
       then obind (aget (handlers (fst w)) (unat EVENT_AUTH_REQUEST)) (\<lambda>slot.
              case slot of Some f \<Rightarrow> call_handler env f buf a w | None \<Rightarrow> UB)
       else unsupported env h a w)"

text \<open>
  The event is handled and the bytes behind it are moved to the start; the result is
  \<^verbatim>\<open>res\<close>, their number. (\<^verbatim>\<open>memcpy\<close> moves overlapping bytes here; it is taken to copy upwards.)
\<close>

definition agent_message ::
  "('h, 'w) ev_env \<Rightarrow> nat \<Rightarrow> 'h ev_state \<times> 'w \<Rightarrow> (nat \<times> 'h ev_state \<times> 'w) outcome" where
  "agent_message env a w =
     obind (handle_message env a w) (\<lambda>(st, w').
     obind (deref (aheap st) a) (\<lambda>ag.
       let k = nat (ag_expected ag); res = ag_write ag - k;
           buf = take res (drop k (ag_buffer ag)) @ drop res (ag_buffer ag)
       in Ret (res, st\<lparr>aheap := (aheap st)(a \<mapsto>
                 ag\<lparr>ag_buffer := buf, ag_write := 0, ag_expected := 0\<rparr>)\<rparr>, w')))"

text \<open>
  From the label \<^verbatim>\<open>again\<close>: \<open>res\<close> bytes are new behind \<^verbatim>\<open>write_ptr\<close>. The first test is one of
  unsigned 64-bit numbers. Each round takes an event of at least one byte, so one more
  than the buffer's size is enough fuel.
\<close>

fun agent_again ::
  "nat \<Rightarrow> ('h, 'w) ev_env \<Rightarrow> nat \<Rightarrow> nat \<Rightarrow> 'h ev_state \<times> 'w \<Rightarrow> (int \<times> 'h ev_state \<times> 'w) outcome" where
  "agent_again 0 env res a w = NoFuel"
| "agent_again (Suc n) env res a w =
     obind (deref (aheap (fst w)) a) (\<lambda>ag.
       let len = h_len (hdr_of (ag_buffer ag));
           few = (of_nat res :: u64) < 4 - of_nat (ag_write ag) in
       if \<not> few \<and> unat len > AGENT_RECV_BUFFER_LENGTH then Ret (0, w)
       else
         let ag1 = ag\<lparr>ag_write := ag_write ag + res, ag_expected := (if few then 0 else uint len)\<rparr>;
             w1 = ((fst w)\<lparr>aheap := (aheap (fst w))(a \<mapsto> ag1)\<rparr>, snd w) in
         if int (ag_write ag1) \<ge> ag_expected ag1 \<and> ag_expected ag1 > 0
         then obind (agent_message env a w1) (\<lambda>(res', w2). agent_again n env res' a w2)
         else Ret (1, w1))"

definition agent_close :: "('h, 'w) ev_env \<Rightarrow> nat \<Rightarrow> 'h ev_state \<times> 'w \<Rightarrow> (int \<times> 'h ev_state \<times> 'w) outcome" where
  "agent_close env a w =
     obind (event_destroy_agent (env_home env) a (fst w)) (\<lambda>st. Ret (0, st, snd w))"

definition store_bytes :: "nat \<Rightarrow> u8 list \<Rightarrow> agent \<Rightarrow> agent" where
  "store_bytes off bs ag =
     ag\<lparr>ag_buffer := take off (ag_buffer ag) @ bs @ drop (off + length bs) (ag_buffer ag)\<rparr>"

text \<open>
  \<^verbatim>\<open>handle_agent\<close>; \<open>rd\<close> is what \<^verbatim>\<open>read\<close> answers: \<^theory_text>\<open>None\<close> for an error, no bytes at the end of
  the stream, and never more than was asked for.
\<close>

definition handle_agent ::
  "('h, 'w) ev_env \<Rightarrow> u8 list option \<Rightarrow> int \<Rightarrow> u16 \<Rightarrow> nat option \<Rightarrow> 'h ev_state \<times> 'w
     \<Rightarrow> (int \<times> 'h ev_state \<times> 'w) outcome" where
  "handle_agent env rd fd events data w =
     (case data of
        None \<Rightarrow> Ret (0, w)
      | Some a \<Rightarrow>
         obind (deref (aheap (fst w)) a) (\<lambda>ag.
         if ag_s ag \<noteq> fd then Ret (0, w)
         else if events AND (CHEOPS_IO_ERR OR CHEOPS_IO_HUP OR CHEOPS_IO_NVAL) \<noteq> 0
         then agent_close env a ((fst w)\<lparr>aheap := (aheap (fst w))(a \<mapsto> ag\<lparr>ag_id := None\<rparr>)\<rparr>, snd w)
         else
           let want = AGENT_RECV_BUFFER_LENGTH - ag_write ag in
           if want = 0 then Exit 1
           else
             (case map_option (take want) rd of
                None \<Rightarrow> agent_close env a w
              | Some [] \<Rightarrow> agent_close env a w
              | Some bs \<Rightarrow>
                 if ag_expected ag = -1
                 then
                   let ag1 = store_bytes 0 bs ag; len = h_len (hdr_of (ag_buffer ag1));
                       w1 = ((fst w)\<lparr>aheap := (aheap (fst w))(a \<mapsto> ag1)\<rparr>, snd w) in
                   if \<not> length bs < 4 \<and> unat len > AGENT_RECV_BUFFER_LENGTH then Ret (0, w1)
                   else
                     let ag2 = ag1\<lparr>ag_write := ag_write ag + length bs,
                                   ag_expected := (if length bs < 4 then 0 else uint len)\<rparr>;
                         w2 = ((fst w)\<lparr>aheap := (aheap (fst w))(a \<mapsto> ag2)\<rparr>, snd w) in
                     if int (ag_write ag2) \<ge> ag_expected ag2 \<and> ag_expected ag2 > 0
                     then obind (agent_message env a w2) (\<lambda>(res', w3).
                            agent_again (Suc AGENT_RECV_BUFFER_LENGTH) env res' a w3)
                     else Ret (1, w2)
                 else
                   agent_again (Suc AGENT_RECV_BUFFER_LENGTH) env (length bs) a
                     ((fst w)\<lparr>aheap := (aheap (fst w))(a \<mapsto> store_bytes (ag_write ag) bs ag)\<rparr>, snd w))))"

section \<open>Connecting\<close>

text \<open>What the system answers to one attempt: the allocations of an agent and of its table entry.\<close>

record alloc_env =
  al_junk :: agent
  al_agent :: "nat option"
  al_grow :: "(ev_cb, nat) grow_answer"
  al_handle :: "nat option"

definition link_agent ::
  "alloc_env \<Rightarrow> u32 \<Rightarrow> int \<Rightarrow> ev_cb \<Rightarrow> u16 \<Rightarrow> agent_more \<Rightarrow> 'h ev_state \<Rightarrow> (nat option \<times> 'h ev_state) outcome" where
  "link_agent al ty s cb ev what st =
     (case new_agent (al_junk al) (al_agent al) st of
        (None, st1) \<Rightarrow> Ret (None, st1)
      | (Some a, st1) \<Rightarrow>
         obind (cheops_io_add (al_grow al) (al_handle al) s cb ev a (ev_io st1)) (\<lambda>(q, io).
         obind (deref (aheap st1) a) (\<lambda>ag.
           Ret (Some a, st1\<lparr>ev_io := io, agents := a # agents st1,
             aheap := (aheap st1)(a \<mapsto> ag\<lparr>ag_type := ty, ag_s := s, ag_id := q, ag_more := what\<rparr>)\<rparr>))))"

definition handle_unix_connect ::
  "int \<Rightarrow> alloc_env \<Rightarrow> int \<Rightarrow> nat option \<Rightarrow> 'h ev_state \<Rightarrow> (int \<times> 'h ev_state) outcome" where
  "handle_unix_connect accepted al fd data st =
     (case data of
        None \<Rightarrow> Ret (0, st)
      | Some a \<Rightarrow>
         obind (deref (aheap st) a) (\<lambda>ag.
         if ag_s ag \<noteq> fd then Ret (0, st)
         else if accepted < 0 then Ret (1, st)
         else obind (link_agent al AGENT_TYPE_LOCAL accepted HANDLE_AGENT CHEOPS_IO_IN Unix_connect_string st)
                (\<lambda>(_, st'). Ret (1, st'))))"

definition handle_ipv4_connect ::
  "(int \<Rightarrow> u8 list \<Rightarrow> int) \<Rightarrow> int \<Rightarrow> alloc_env \<Rightarrow> int \<Rightarrow> nat option \<Rightarrow> 'h ev_state \<Rightarrow> (int \<times> 'h ev_state) outcome" where
  "handle_ipv4_connect wr accepted al fd data st =
     (case data of
        None \<Rightarrow> Ret (0, st)
      | Some a \<Rightarrow>
         obind (deref (aheap st) a) (\<lambda>ag.
         if ag_s ag \<noteq> fd then Ret (0, st)
         else if accepted < 0 then Ret (1, st)
         else obind (link_agent al AGENT_TYPE_IPV4 accepted HANDLE_AGENT CHEOPS_IO_IN Ipv4_connect_string st)
                (\<lambda>(b, st').
                  case b of
                    None \<Rightarrow> Ret (1, st')
                  | Some b \<Rightarrow>
                     if authenticating_clients st' \<noteq> 0
                     then obind (send_auth_request_reply wr b 0 st') (\<lambda>(_, st''). Ret (1, st''))
                     else Ret (1, st'))))"

text \<open>The client's side; a failed \<^verbatim>\<open>socket\<close> gives a negative descriptor.\<close>

definition local_agent ::
  "cstring option \<Rightarrow> int \<Rightarrow> int \<Rightarrow> alloc_env \<Rightarrow> 'h ev_state \<Rightarrow> (nat option \<times> 'h ev_state) outcome" where
  "local_agent home sock connected al st =
     (case our_local_agent st of
        Some a \<Rightarrow> Ret (Some a, st)
      | None \<Rightarrow>
         (case get_local_name home of
            None \<Rightarrow> Ret (None, st)
          | Some _ \<Rightarrow>
             if sock < 0 then Ret (None, st)
             else if connected < 0 then Ret (None, st)
             else link_agent al AGENT_TYPE_LOCAL sock HANDLE_AGENT (CHEOPS_IO_IN OR CHEOPS_IO_ERR) Local_string st))"

definition ipv4_agent ::
  "int \<Rightarrow> int \<Rightarrow> bool \<Rightarrow> alloc_env \<Rightarrow> 'h ev_state \<Rightarrow> (nat option \<times> 'h ev_state) outcome" where
  "ipv4_agent sock connected is_client al st =
     (if our_local_ipv4_agent st \<noteq> None \<and> \<not> is_client then Ret (our_local_ipv4_agent st, st)
      else if sock < 0
      then Ret (None, if is_client then st else st\<lparr>our_local_ipv4_agent := None\<rparr>)
      else if connected < 0 then Ret (None, st)
      else
        obind (link_agent al AGENT_TYPE_IPV4 sock HANDLE_AGENT (CHEOPS_IO_IN OR CHEOPS_IO_ERR) Ipv4_string st)
          (\<lambda>(a, st'). Ret (a, if is_client then st' else st'\<lparr>our_local_ipv4_agent := a\<rparr>)))"

definition event_request_agent ::
  "u32 \<Rightarrow> cstring option \<Rightarrow> int \<Rightarrow> int \<Rightarrow> alloc_env \<Rightarrow> 'h ev_state \<Rightarrow> (nat option \<times> 'h ev_state) outcome" where
  "event_request_agent ty home sock connected al st =
     (if ty = AGENT_TYPE_LOCAL then local_agent home sock connected al st
      else if ty = AGENT_TYPE_IPV4 then ipv4_agent sock connected True al st
      else Ret (None, st))"

text \<open>
  The listening sockets. \<^verbatim>\<open>bind\<close> of the local one is tried again once after \<^verbatim>\<open>unlink\<close>; the
  result is the descriptor or -1, with what was unlinked.
\<close>

definition make_local_socket ::
  "int \<Rightarrow> int \<Rightarrow> int \<Rightarrow> int \<Rightarrow> cstring \<Rightarrow> 'h ev_state \<Rightarrow> int \<times> 'h ev_state" where
  "make_local_socket sock bind1 bind2 listened c st =
     (if sock < 0 then (-1, st)
      else
        let (bound, st1) =
          (if bind1 < 0 then (bind2, st\<lparr>ev_unlinked := ev_unlinked st @ [c]\<rparr>) else (bind1, st)) in
        if bound < 0 then (-1, st1\<lparr>ev_closed := ev_closed st1 @ [sock]\<rparr>)
        else if listened < 0 then (-1, st1\<lparr>ev_closed := ev_closed st1 @ [sock]\<rparr>)
        else (sock, st1))"

definition make_ipv4_socket :: "int \<Rightarrow> int \<Rightarrow> int \<Rightarrow> 'h ev_state \<Rightarrow> int \<times> 'h ev_state" where
  "make_ipv4_socket sock bound listened st =
     (if sock < 0 then (-1, st)
      else if bound < 0 then (-1, st\<lparr>ev_closed := ev_closed st @ [sock]\<rparr>)
      else if listened < 0 then (-1, st\<lparr>ev_closed := ev_closed st @ [sock]\<rparr>)
      else (sock, st))"

record sock_env =
  sk_socket :: int
  sk_bind1 :: int
  sk_bind2 :: int
  sk_listen :: int

definition create_local ::
  "cstring option \<Rightarrow> sock_env \<Rightarrow> alloc_env \<Rightarrow> 'h ev_state \<Rightarrow> (int \<times> 'h ev_state) outcome" where
  "create_local home sk al st =
     (if our_local_agent st \<noteq> None then Ret (-1, st)
      else
        (case get_local_name home of
           None \<Rightarrow> Ret (-1, st)
         | Some c \<Rightarrow>
            let (res, st1) = make_local_socket (sk_socket sk) (sk_bind1 sk) (sk_bind2 sk) (sk_listen sk) c st in
            if res > -1
            then obind (link_agent al AGENT_TYPE_LOCAL res HANDLE_UNIX_CONNECT CHEOPS_IO_IN MORE_NULL st1)
                   (\<lambda>(a, st2). Ret (if a = None then -1 else 0,
                       if a = None then st2 else st2\<lparr>our_local_agent := a\<rparr>))
            else Ret (res, st1)))"

definition create_ipv4 ::
  "sock_env \<Rightarrow> alloc_env \<Rightarrow> 'h ev_state \<Rightarrow> (int \<times> 'h ev_state) outcome" where
  "create_ipv4 sk al st =
     (let (res, st1) = make_ipv4_socket (sk_socket sk) (sk_bind1 sk) (sk_listen sk) st in
      if res > -1
      then obind (link_agent al AGENT_TYPE_IPV4 res HANDLE_IPV4_CONNECT CHEOPS_IO_IN MORE_NULL st1)
             (\<lambda>(a, st2). Ret (if a = None then -1 else 0, st2))
      else Ret (res, st1))"

definition event_create_agent ::
  "u32 \<Rightarrow> cstring option \<Rightarrow> sock_env \<Rightarrow> alloc_env \<Rightarrow> sock_env \<Rightarrow> alloc_env \<Rightarrow> 'h ev_state
     \<Rightarrow> (int \<times> 'h ev_state) outcome" where
  "event_create_agent ty home sk1 al1 sk2 al2 st =
     obind (if ty AND AGENT_TYPE_LOCAL \<noteq> 0 then create_local home sk1 al1 st else Ret (-1, st))
       (\<lambda>(res, st1). if ty AND AGENT_TYPE_IPV4 \<noteq> 0 then create_ipv4 sk2 al2 st1 else Ret (res, st1))"

section \<open>The stream\<close>

declare agent_again.simps(2) [simp del]

lemma hdr_of_append: "12 \<le> length m \<Longrightarrow> hdr_of (m @ t) = hdr_of m"
proof -
  assume "12 \<le> length m"
  then obtain a b c d e f g h i j k l r where m: "m = a # b # c # d # e # f # g # h # i # j # k # l # r"
    by (auto simp: Suc_le_length_iff numeral_eq_Suc)
  show ?thesis by (simp add: m hdr_of_def)
qed

lemma of_be32_append: "4 \<le> length m \<Longrightarrow> of_be32 (m @ t) = of_be32 m"
  by (auto simp: Suc_le_length_iff numeral_eq_Suc)

lemma h_len_hdr_of: "h_len (hdr_of m) = of_be32 m"
  by (simp add: hdr_of_def)

text \<open>A whole event, and what the reader has when the next one has not fully arrived.\<close>

definition event_ok :: "u8 list \<Rightarrow> bool" where
  "event_ok m \<longleftrightarrow> 12 \<le> length m \<and> length m = unat (h_len (hdr_of m))"

definition partial :: "u8 list \<Rightarrow> bool" where
  "partial r \<longleftrightarrow> length r < 4 \<or> (length r < unat (of_be32 r) \<and> unat (of_be32 r) \<le> AGENT_RECV_BUFFER_LENGTH)"

text \<open>The handlers of the rest of the program, as the log of their calls.\<close>

definition log_call :: "('h, ('h \<times> u8 list) list) handler_sem" where
  "log_call c msg off a w = Ret (fst w, snd w @ [(c, msg)])"

text \<open>
  The calls that an event asks for, and the events that are not answered by an error and not
  handled in this file.
\<close>

definition calls_of :: "'h handler option list \<Rightarrow> u8 list \<Rightarrow> ('h \<times> u8 list) list" where
  "calls_of tbl m =
     (let h = hdr_of m in
      if unat (h_type h) \<ge> MAX_EVENT \<or> unat (h_hlen h) > unat (h_len h) then []
      else (case tbl ! unat (h_type h) of Some (Handler c) \<Rightarrow> [(c, m)] | _ \<Rightarrow> []))"

definition plain_event :: "'h handler option list \<Rightarrow> u8 list \<Rightarrow> bool" where
  "plain_event tbl m \<longleftrightarrow>
     (let h = hdr_of m in
      unat (h_type h) \<ge> MAX_EVENT \<or> unat (h_hlen h) > unat (h_len h) \<or>
      (case tbl ! unat (h_type h) of
         None \<Rightarrow> h_flags h AND FLAG_IGNORE \<noteq> 0
       | Some HandleAuthRequest \<Rightarrow> False
       | Some (Handler c) \<Rightarrow> True))"

definition reader :: "nat \<Rightarrow> u8 list \<Rightarrow> nat \<Rightarrow> int \<Rightarrow> 'h ev_state \<Rightarrow> 'h ev_state" where
  "reader a buf n x st =
     st\<lparr>aheap := (aheap st)(a \<mapsto> (the (aheap st a))\<lparr>ag_buffer := buf, ag_write := n, ag_expected := x\<rparr>)\<rparr>"

lemma reader_simps [simp]:
  "aheap (reader a buf n x st) a = Some ((the (aheap st a))\<lparr>ag_buffer := buf, ag_write := n, ag_expected := x\<rparr>)"
  "handlers (reader a buf n x st) = handlers st"
  "authenticate_connecting_clients (reader a buf n x st) = authenticate_connecting_clients st"
  "reader a b2 n2 x2 (reader a buf n x st) = reader a b2 n2 x2 st"
  by (simp_all add: reader_def)

definition serving :: "nat \<Rightarrow> 'h ev_state \<Rightarrow> bool" where
  "serving a st \<longleftrightarrow> aheap st a \<noteq> None \<and> length (handlers st) = MAX_EVENT \<and>
     (ag_flags (the (aheap st a)) AND AGENT_FLAGS_LOGGED_IN \<noteq> 0 \<or> authenticating_clients st = 0)"

lemma serving_reader [simp]: "aheap st a \<noteq> None \<Longrightarrow> serving a (reader a buf n x st) = serving a st"
  by (simp add: serving_def authenticating_clients_def)

lemma handle_message_logged:
  assumes "env_hs env = log_call" "serving a st" "event_ok m" "plain_event (handlers st) m"
  shows "handle_message env a (reader a (m @ t) n x st, w)
    = Ret (reader a (m @ t) n x st, w @ calls_of (handlers st) m)"
proof -
  have h: "hdr_of (m @ t) = hdr_of m" "take (unat (h_len (hdr_of m))) (m @ t) = m"
    using assms(3) by (simp_all add: event_ok_def hdr_of_append)
  have len: "length (handlers st) = 256" using assms(2) by (simp add: serving_def MAX_EVENT_def)
  show ?thesis
  proof (cases "unat (h_type (hdr_of m)) \<ge> MAX_EVENT \<or> unat (h_hlen (hdr_of m)) > unat (h_len (hdr_of m))")
    case True
    then show ?thesis by (auto simp: handle_message_def deref_def Let_def h calls_of_def)
  next
    case False
    have gate: "ag_flags (the (aheap st a)) AND AGENT_FLAGS_LOGGED_IN \<noteq> 0 \<or> authenticate_connecting_clients st = 0"
      using assms(2) by (simp add: serving_def authenticating_clients_def)
    have slot: "aget (handlers st) (unat (h_type (hdr_of m))) = Ret (handlers st ! unat (h_type (hdr_of m)))"
      using False len by (simp add: aget_def MAX_EVENT_def)
    have "handle_message env a (reader a (m @ t) n x st, w) =
        (case handlers st ! unat (h_type (hdr_of m)) of
           Some f \<Rightarrow> call_handler env f (m @ t) a (reader a (m @ t) n x st, w)
         | None \<Rightarrow> unsupported env (hdr_of m) a (reader a (m @ t) n x st, w))"
      using False gate slot
      by (auto simp: handle_message_def deref_def aget_def Let_def h authenticating_clients_def)
    then show ?thesis
      using assms(1,4) False
      by (auto simp del: take_append simp: plain_event_def calls_of_def Let_def call_handler_def h
          log_call_def unsupported_def
          split: option.splits handler.splits)
  qed
qed

lemma agent_message_logged:
  assumes "env_hs env = log_call" "serving a st" "event_ok m" "plain_event (handlers st) m"
    "n = length m + length t"
  shows "agent_message env a (reader a (m @ t @ junk) n (int (length m)) st, w)
    = Ret (length t, reader a (t @ drop (length t) (m @ t @ junk)) 0 0 st, w @ calls_of (handlers st) m)"
  using handle_message_logged [OF assms(1-4), of "t @ junk" n "int (length m)" w] assms(5)
  by (simp add: agent_message_def deref_def Let_def reader_def)

lemma few_small: "r < 2 ^ 32 \<Longrightarrow> (of_nat r :: u64) < 4 \<longleftrightarrow> r < 4"
  by (simp add: word_less_nat_alt unat_of_nat)

lemma agent_again_stream:
  assumes "env_hs env = log_call" "serving a st" "\<forall>m \<in> set ms. event_ok m \<and> plain_event (handlers st) m"
    "partial rest" "length ms < n" "length (concat ms @ rest) \<le> AGENT_RECV_BUFFER_LENGTH"
  obtains junk' x' where
    "agent_again n env (length (concat ms @ rest)) a (reader a (concat ms @ rest @ junk) 0 x st, w)
      = Ret (1, reader a (rest @ junk') (length rest) x' st, w @ concat (map (calls_of (handlers st)) ms))"
    "x' \<noteq> -1" "length junk' + length rest = length (concat ms @ rest @ junk)"
    "length rest < 4 \<Longrightarrow> x' = 0"
  using assms(3,5,6)
proof (induction ms arbitrary: n x junk w thesis)
  case Nil
  then obtain k where n: "n = Suc k" by (cases n) auto
  have len: "of_be32 (rest @ junk) = of_be32 rest" if "4 \<le> length rest"
    using that by (rule of_be32_append)
  have small: "length rest < 2 ^ 32" using Nil.prems(4) by (simp add: AGENT_RECV_BUFFER_LENGTH_def)
  show ?case
  proof (cases "length rest < 4")
    case True
    then have "agent_again n env (length (concat [] @ rest)) a (reader a (concat [] @ rest @ junk) 0 x st, w)
        = Ret (1, reader a (rest @ junk) (length rest) 0 st, w @ concat (map (calls_of (handlers st)) []))"
      using few_small [OF small] by (simp add: n agent_again.simps(2) deref_def Let_def reader_def)
    then show ?thesis by (rule Nil.prems(1)) auto
  next
    case False
    then have p: "length rest < unat (of_be32 rest)" "unat (of_be32 rest) \<le> AGENT_RECV_BUFFER_LENGTH"
      using assms(4) by (auto simp: partial_def)
    have "int (length rest) < uint (of_be32 rest)" using p(1) by (metis of_nat_less_iff uint_nat)
    then have "agent_again n env (length (concat [] @ rest)) a (reader a (concat [] @ rest @ junk) 0 x st, w)
        = Ret (1, reader a (rest @ junk) (length rest) (uint (of_be32 rest)) st, w @ concat (map (calls_of (handlers st)) []))"
      using few_small [OF small] False p len
      by (simp add: n agent_again.simps(2) deref_def Let_def reader_def h_len_hdr_of)
    moreover have "uint (of_be32 rest) \<noteq> -1" using uint_ge_0 [of "of_be32 rest"] by linarith
    ultimately show ?thesis by (rule Nil.prems(1)) (use False in auto)
  qed
next
  case (Cons m ms)
  obtain k where n: "n = Suc k" "length ms < k" using Cons.prems(3) by (cases n) auto
  have m: "event_ok m" "plain_event (handlers st) m" using Cons.prems(2) by auto
  let ?t = "concat ms @ rest"
  have h: "hdr_of (m @ ?t @ junk) = hdr_of m" "12 \<le> length m" "unat (h_len (hdr_of m)) = length m"
    using m(1) by (simp_all add: event_ok_def hdr_of_append)
  have sz: "length m + length ?t \<le> AGENT_RECV_BUFFER_LENGTH" using Cons.prems(4) by simp
  then have small: "length m + length ?t < 2 ^ 32" by (simp add: AGENT_RECV_BUFFER_LENGTH_def)
  have few: "\<not> (of_nat (length m + length ?t) :: u64) < 4" using few_small [OF small] h(2) by simp
  have ui: "uint (h_len (hdr_of m)) = int (length m)" using h(3) by (metis uint_nat)
  have eq: "concat (m # ms) @ rest @ junk = m @ ?t @ junk" by simp
  have ne: "m \<noteq> []" using h(2) by auto
  have "agent_again n env (length (concat (m # ms) @ rest)) a (reader a (concat (m # ms) @ rest @ junk) 0 x st, w)
      = obind (agent_message env a (reader a (m @ ?t @ junk) (length m + length ?t) (int (length m)) st, w))
          (\<lambda>(res', w2). agent_again k env res' a w2)"
    unfolding n(1) eq using few h sz ui ne
    by (simp add: agent_again.simps(2) deref_def Let_def) (simp add: reader_def)
  also have "\<dots> = agent_again k env (length ?t) a
      (reader a (?t @ drop (length ?t) (m @ ?t @ junk)) 0 0 st, w @ calls_of (handlers st) m)"
    unfolding agent_message_logged [OF assms(1,2) m refl] by simp
  also have "?t @ drop (length ?t) (m @ ?t @ junk) = concat ms @ rest @ drop (length ?t) (m @ ?t @ junk)"
    by simp
  finally have step: "agent_again n env (length (concat (m # ms) @ rest)) a (reader a (concat (m # ms) @ rest @ junk) 0 x st, w)
      = agent_again k env (length ?t) a
      (reader a (concat ms @ rest @ drop (length ?t) (m @ ?t @ junk)) 0 0 st, w @ calls_of (handlers st) m)" .
  obtain junk' x' where ih: "agent_again k env (length ?t) a
      (reader a (concat ms @ rest @ drop (length ?t) (m @ ?t @ junk)) 0 0 st, w @ calls_of (handlers st) m)
      = Ret (1, reader a (rest @ junk') (length rest) x' st,
          (w @ calls_of (handlers st) m) @ concat (map (calls_of (handlers st)) ms))"
    "x' \<noteq> -1" "length junk' + length rest = length (concat ms @ rest @ drop (length ?t) (m @ ?t @ junk))"
    "length rest < 4 \<Longrightarrow> x' = 0"
    using Cons.IH [OF _ _ n(2)] Cons.prems(2) sz by (metis (no_types, lifting) add_leD2 list.set_intros(2))
  have "length (concat ms @ rest @ drop (length ?t) (m @ ?t @ junk)) = length (concat (m # ms) @ rest @ junk)"
    unfolding eq by (simp only: length_append length_drop)
  with ih(3) have len: "length junk' + length rest = length (concat (m # ms) @ rest @ junk)" by metis
  show ?case
    by (rule Cons.prems(1) [OF _ ih(2) len ih(4)]) (simp add: step [simplified] ih(1) [simplified])
qed

lemma store_bytes_reader:
  "aheap st a = Some ag \<Longrightarrow> st\<lparr>aheap := (aheap st)(a \<mapsto> store_bytes off bs ag)\<rparr>
     = reader a (take off (ag_buffer ag) @ bs @ drop (off + length bs) (ag_buffer ag)) (ag_write ag) (ag_expected ag) st"
  by (simp add: reader_def store_bytes_def)

text \<open>A read at a boundary of the stream does the same in both states that stand for one.\<close>

lemma handle_agent_boundary:
  assumes "aheap (fst w) a = Some ag" "ag_s ag = fd" "ag_write ag = 0" "ag_expected ag = -1 \<or> ag_expected ag = 0"
    "events AND (CHEOPS_IO_ERR OR CHEOPS_IO_HUP OR CHEOPS_IO_NVAL) = 0"
    "bs \<noteq> []" "length bs \<le> AGENT_RECV_BUFFER_LENGTH"
    "length bs < 4 \<or> unat (of_be32 bs) \<le> AGENT_RECV_BUFFER_LENGTH"
  obtains n where "AGENT_RECV_BUFFER_LENGTH < n"
    "handle_agent env (Some bs) fd events (Some a) w
      = agent_again n env (length bs) a
          (reader a (bs @ drop (length bs) (ag_buffer ag)) 0 (ag_expected ag) (fst w), snd w)"
proof (cases "ag_expected ag = -1")
  case False
  then show thesis
    using assms by (intro that [of "Suc AGENT_RECV_BUFFER_LENGTH"])
      (auto simp: handle_agent_def deref_def Let_def store_bytes_reader AGENT_RECV_BUFFER_LENGTH_def
        split: list.split)
next
  case True
  let ?buf = "bs @ drop (length bs) (ag_buffer ag)"
  have small: "length bs < 2 ^ 32" using assms(7) by (simp add: AGENT_RECV_BUFFER_LENGTH_def)
  have few: "(of_nat (length bs) :: u64) < 4 - of_nat 0 \<longleftrightarrow> length bs < 4" using few_small [OF small] by simp
  have len: "unat (h_len (hdr_of ?buf)) \<le> AGENT_RECV_BUFFER_LENGTH" if "\<not> length bs < 4"
    using that assms(8) of_be32_append [of bs] by (simp add: h_len_hdr_of)
  let ?w2 = "(reader a ?buf (length bs) (if length bs < 4 then 0 else uint (h_len (hdr_of ?buf))) (fst w), snd w)"
  have step: "(if int (length bs) \<ge> (if length bs < 4 then 0 else uint (h_len (hdr_of ?buf)))
          \<and> (if length bs < 4 then 0 else uint (h_len (hdr_of ?buf))) > 0
       then obind (agent_message env a ?w2) (\<lambda>(res', w3). agent_again n env res' a w3)
       else Ret (1, ?w2))
     = agent_again (Suc n) env (length bs) a (reader a ?buf 0 (ag_expected ag) (fst w), snd w)" for n
  proof (cases "length bs < 4")
    case True
    then show ?thesis using few assms(1) by (simp add: agent_again.simps(2) deref_def Let_def reader_def)
  next
    case False
    then have "\<not> AGENT_RECV_BUFFER_LENGTH < unat (h_len (hdr_of ?buf))" using len by simp
    then show ?thesis
      using False few assms(1) by (simp add: agent_again.simps(2) deref_def Let_def reader_def)
  qed
  have "handle_agent env (Some bs) fd events (Some a) w =
      (if int (length bs) \<ge> (if length bs < 4 then 0 else uint (h_len (hdr_of ?buf)))
          \<and> (if length bs < 4 then 0 else uint (h_len (hdr_of ?buf))) > 0
       then obind (agent_message env a ?w2) (\<lambda>(res', w3). agent_again (Suc AGENT_RECV_BUFFER_LENGTH) env res' a w3)
       else Ret (1, ?w2))"
    using assms True len
    by (cases bs) (auto simp: handle_agent_def deref_def Let_def store_bytes_def reader_def AGENT_RECV_BUFFER_LENGTH_def)
  also have "\<dots> = agent_again (Suc (Suc AGENT_RECV_BUFFER_LENGTH)) env (length bs) a
          (reader a ?buf 0 (ag_expected ag) (fst w), snd w)"
    by (rule step)
  finally show thesis by (rule that [rotated]) simp
qed

text \<open>
  C10. The stream is cut right: a read that starts at an event boundary and brings any number
  of whole events and a part of the next one calls exactly the handlers of the whole events,
  in order, each with the bytes of its event, and leaves the part at the start of the buffer;
  the connection is kept.
\<close>

theorem handle_agent_stream:
  assumes "aheap st a = Some ag" "ag_s ag = fd" "ag_write ag = 0" "ag_expected ag \<in> {-1, 0}"
    "events AND (CHEOPS_IO_ERR OR CHEOPS_IO_HUP OR CHEOPS_IO_NVAL) = 0"
    "env_hs env = log_call" "serving a st"
    "\<forall>m \<in> set ms. event_ok m \<and> plain_event (handlers st) m" "partial rest"
    "concat ms @ rest \<noteq> []" "length (concat ms @ rest) \<le> AGENT_RECV_BUFFER_LENGTH"
    "length (ag_buffer ag) = AGENT_RECV_BUFFER_LENGTH"
  shows "\<exists>st' ag'. handle_agent env (Some (concat ms @ rest)) fd events (Some a) (st, w)
       = Ret (1, st', w @ concat (map (calls_of (handlers st)) ms))
     \<and> st' = st\<lparr>aheap := (aheap st)(a \<mapsto> ag')\<rparr>
     \<and> ag_write ag' = length rest \<and> take (length rest) (ag_buffer ag') = rest
     \<and> length (ag_buffer ag') = AGENT_RECV_BUFFER_LENGTH \<and> ag_expected ag' \<noteq> -1
     \<and> (rest = [] \<longrightarrow> ag_expected ag' = 0)"
proof -
  let ?bs = "concat ms @ rest"
  have ev: "12 \<le> length m" "length m = unat (of_be32 m)" if "m \<in> set ms" for m
    using assms(8) that by (auto simp: event_ok_def h_len_hdr_of)
  have first: "length ?bs < 4 \<or> unat (of_be32 ?bs) \<le> AGENT_RECV_BUFFER_LENGTH"
  proof (cases ms)
    case Nil
    then show ?thesis using assms(9) by (auto simp: partial_def)
  next
    case (Cons m ms')
    then have "unat (of_be32 ?bs) = length m" using ev [of m] of_be32_append [of m] by simp
    then show ?thesis using assms(11) Cons by simp
  qed
  have exp: "ag_expected ag = -1 \<or> ag_expected ag = 0" using assms(4) by simp
  obtain n where n: "AGENT_RECV_BUFFER_LENGTH < n"
    "handle_agent env (Some ?bs) fd events (Some a) (st, w)
      = agent_again n env (length ?bs) a
          (reader a (?bs @ drop (length ?bs) (ag_buffer ag)) 0 (ag_expected ag) st, w)"
    using handle_agent_boundary [of "(st, w)" a ag fd events ?bs env] assms(1-3,5,10,11) exp first by auto
  have "length ms \<le> length (concat ms)"
    using ev by (induction ms) (auto, fastforce)
  then have fuel: "length ms < n" using n(1) assms(11) by simp
  obtain junk' x' where r: "agent_again n env (length ?bs) a
        (reader a (concat ms @ rest @ drop (length ?bs) (ag_buffer ag)) 0 (ag_expected ag) st, w)
      = Ret (1, reader a (rest @ junk') (length rest) x' st, w @ concat (map (calls_of (handlers st)) ms))"
    "x' \<noteq> -1" "length junk' + length rest = length (concat ms @ rest @ drop (length ?bs) (ag_buffer ag))"
    "length rest < 4 \<Longrightarrow> x' = 0"
    by (rule agent_again_stream [OF assms(6,7,8,9) fuel assms(11), where w = w and x = "ag_expected ag"
          and junk = "drop (length ?bs) (ag_buffer ag)"]) blast
  show ?thesis
    using n(2) r assms(1,11,12) by (intro exI) (auto simp: reader_def)
qed

text \<open>An example: an agent process with one connection and two handlers.\<close>

definition demo_agent :: agent where
  "demo_agent = \<lparr>ag_type = AGENT_TYPE_IPV4, ag_id = Some 7, ag_s = 5, ag_buffer = replicate 65536 0,
     ag_write = 0, ag_expected = -1, ag_flags = 0, ag_more = Ipv4_connect_string\<rparr>"

definition demo_state :: "int ev_state" where
  "demo_state = ev_init\<lparr>agents := [3], aheap := [3 \<mapsto> demo_agent],
     handlers := (replicate 256 None)[6 := Some (Handler 60), 7 := Some (Handler 70)]\<rparr>"

definition demo_env :: "(int, (int \<times> u8 list) list) ev_env" where
  "demo_env = \<lparr>env_wr = (\<lambda>fd bs. int (length bs)),
     env_db = \<lparr>db_getpwnam = (\<lambda>_. None), db_getspnam = (\<lambda>_. None), db_crypt = (\<lambda>_ _. None)\<rparr>,
     env_home = None, env_hs = log_call\<rparr>"

lemma demo_serving: "serving 3 demo_state"
  by (simp add: serving_def demo_state_def authenticating_clients_def ev_init_def MAX_EVENT_def)

lemma mk_event_ok: "12 + length body < 2 ^ 32 \<Longrightarrow> event_ok (mk_event ty fl body)"
  unfolding event_ok_def mk_event_def hdr_of_hdr_bytes event_hdr.simps
  by (subst unat_of_nat) simp_all

lemma hdr_of_mk_event: "hdr_of (mk_event ty fl body) =
    \<lparr>h_len = word_of_nat (12 + length body), h_hlen = 12, h_type = ty, h_flags = fl\<rparr>"
  by (simp add: mk_event_def)

lemma demo_handler: "handlers demo_state ! 6 = Some (Handler 60)" "handlers demo_state ! 7 = Some (Handler 70)"
  by (simp_all add: demo_state_def)

lemma handle_agent_stream_witness:
  "\<exists>st'. handle_agent demo_env (Some (mk_event 7 0 [1, 2] @ mk_event 6 0 [] @ [0, 0])) 5 CHEOPS_IO_IN (Some 3) (demo_state, [])
       = Ret (1, st', [(70, mk_event 7 0 [1, 2]), (60, mk_event 6 0 [])])"
proof -
  have ok: "\<forall>m \<in> set [mk_event 7 0 [1, 2], mk_event 6 0 []]. event_ok m \<and> plain_event (handlers demo_state) m"
    by (simp add: mk_event_ok plain_event_def hdr_of_mk_event demo_handler)
  have calls: "concat (map (calls_of (handlers demo_state)) [mk_event 7 0 [1, 2], mk_event 6 0 []])
      = [(70, mk_event 7 0 [1, 2]), (60, mk_event 6 0 [])]"
    by (simp add: calls_of_def hdr_of_mk_event demo_handler MAX_EVENT_def)
  have "\<exists>st' ag'. handle_agent demo_env (Some (concat [mk_event 7 0 [1, 2], mk_event 6 0 []] @ [0, 0])) 5 CHEOPS_IO_IN (Some 3) (demo_state, [])
       = Ret (1, st', [] @ concat (map (calls_of (handlers demo_state)) [mk_event 7 0 [1, 2], mk_event 6 0 []]))
     \<and> st' = demo_state\<lparr>aheap := (aheap demo_state)(3 \<mapsto> ag')\<rparr>
     \<and> ag_write ag' = length [0, 0 :: u8] \<and> take (length [0, 0 :: u8]) (ag_buffer ag') = [0, 0]
     \<and> length (ag_buffer ag') = AGENT_RECV_BUFFER_LENGTH \<and> ag_expected ag' \<noteq> -1
     \<and> ([0, 0 :: u8] = [] \<longrightarrow> ag_expected ag' = 0)"
    by (rule handle_agent_stream [OF _ _ _ _ _ _ demo_serving ok, where ag = demo_agent])
      (simp_all add: demo_state_def demo_agent_def demo_env_def partial_def AGENT_RECV_BUFFER_LENGTH_def
        CHEOPS_IO_IN_def CHEOPS_IO_ERR_def CHEOPS_IO_HUP_def CHEOPS_IO_NVAL_def)
  then show ?thesis unfolding calls by auto
qed

section \<open>An event that arrives in pieces\<close>

text \<open>Successive reads of one connection.\<close>

fun reads ::
  "('h, 'w) ev_env \<Rightarrow> u8 list list \<Rightarrow> int \<Rightarrow> nat \<Rightarrow> 'h ev_state \<times> 'w \<Rightarrow> ('h ev_state \<times> 'w) outcome" where
  "reads env [] fd a w = Ret w"
| "reads env (bs # css) fd a w =
     obind (handle_agent env (Some bs) fd CHEOPS_IO_IN (Some a) w) (\<lambda>(_, w'). reads env css fd a w')"

lemma few_wraps: "4 < n \<Longrightarrow> n \<le> 65536 \<Longrightarrow> r \<le> 65536 \<Longrightarrow> (of_nat r :: u64) < 4 - of_nat n"
proof -
  assume a: "4 < n" "n \<le> 65536" "r \<le> 65536"
  have "unat (4 - of_nat n :: u64) = 2 ^ 64 + 4 - n"
    using a unat_sub_if' [of 4 "of_nat n :: u64"] by (simp add: unat_of_nat)
  then show ?thesis using a by (simp add: word_less_nat_alt unat_of_nat)
qed

lemma events_in: "CHEOPS_IO_IN AND (CHEOPS_IO_ERR OR CHEOPS_IO_HUP OR CHEOPS_IO_NVAL) = 0"
  by (simp add: CHEOPS_IO_IN_def CHEOPS_IO_ERR_def CHEOPS_IO_HUP_def CHEOPS_IO_NVAL_def)

lemma stalled_read:
  assumes "aheap st a = Some ag" "ag_s ag = fd" "4 < ag_write ag" "ag_expected ag \<noteq> -1"
    "bs \<noteq> []" "ag_write ag + length bs \<le> AGENT_RECV_BUFFER_LENGTH"
  obtains ag' where "handle_agent env (Some bs) fd CHEOPS_IO_IN (Some a) (st, w)
      = Ret (1, st\<lparr>aheap := (aheap st)(a \<mapsto> ag')\<rparr>, w)"
    "ag_s ag' = fd" "ag_write ag' = ag_write ag + length bs" "ag_expected ag' = 0"
proof -
  have few: "(of_nat (length bs) :: u64) < 4 - of_nat (ag_write ag)"
    using few_wraps [of "ag_write ag" "length bs"] assms(3,6) by (simp add: AGENT_RECV_BUFFER_LENGTH_def)
  have "AGENT_RECV_BUFFER_LENGTH - ag_write ag \<noteq> 0" "take (AGENT_RECV_BUFFER_LENGTH - ag_write ag) bs = bs"
    using assms(5,6) by (cases bs, auto)
  then have "handle_agent env (Some bs) fd CHEOPS_IO_IN (Some a) (st, w)
      = agent_again (Suc AGENT_RECV_BUFFER_LENGTH) env (length bs) a
          (st\<lparr>aheap := (aheap st)(a \<mapsto> store_bytes (ag_write ag) bs ag)\<rparr>, w)"
    using assms(1,2,4,5) events_in by (cases bs) (auto simp: handle_agent_def deref_def Let_def)
  also have "\<dots> = Ret (1, st\<lparr>aheap := (aheap st)(a \<mapsto>
      (store_bytes (ag_write ag) bs ag)\<lparr>ag_write := ag_write ag + length bs, ag_expected := 0\<rparr>)\<rparr>, w)"
    using few by (simp add: agent_again.simps(2) deref_def Let_def store_bytes_def)
  finally show thesis
    by (rule that) (simp_all add: store_bytes_def assms(2))
qed

text \<open>
  C12. An event that arrives in pieces is lost: once more than 4 bytes of it are in the buffer
  without all of it, no read ever calls a handler again, whatever it brings, and when the
  buffer is full the next read ends the process with \<^verbatim>\<open>exit(1)\<close>. (The code subtracts the
  bytes it has from \<^verbatim>\<open>sizeof\<close> of the length field, which is unsigned.)
\<close>

theorem split_event_stalls:
  assumes "aheap st a = Some ag" "ag_s ag = fd" "4 < ag_write ag" "ag_expected ag \<noteq> -1"
    "[] \<notin> set css" "ag_write ag + length (concat css) \<le> AGENT_RECV_BUFFER_LENGTH"
  shows "\<exists>ag'. reads env css fd a (st, w) = Ret (st\<lparr>aheap := (aheap st)(a \<mapsto> ag')\<rparr>, w)
     \<and> ag_write ag' = ag_write ag + length (concat css)
     \<and> (ag_write ag' = AGENT_RECV_BUFFER_LENGTH \<longrightarrow>
          (\<forall>rd. handle_agent env rd fd CHEOPS_IO_IN (Some a) (st\<lparr>aheap := (aheap st)(a \<mapsto> ag')\<rparr>, w) = Exit 1))"
  using assms
proof (induction css arbitrary: st ag)
  case Nil
  then show ?case
    using events_in by (intro exI [of _ ag]) (simp add: map_upd_triv handle_agent_def deref_def Let_def)
next
  case (Cons bs css)
  have b: "bs \<noteq> []" "ag_write ag + length bs \<le> AGENT_RECV_BUFFER_LENGTH" using Cons.prems(5,6) by auto
  obtain ag1 where ag1: "handle_agent env (Some bs) fd CHEOPS_IO_IN (Some a) (st, w)
      = Ret (1, st\<lparr>aheap := (aheap st)(a \<mapsto> ag1)\<rparr>, w)"
    "ag_s ag1 = fd" "ag_write ag1 = ag_write ag + length bs" "ag_expected ag1 = 0"
    using stalled_read [OF Cons.prems(1-4) b] by metis
  let ?st1 = "st\<lparr>aheap := (aheap st)(a \<mapsto> ag1)\<rparr>"
  have ih: "\<exists>ag'. reads env css fd a (?st1, w) = Ret (?st1\<lparr>aheap := (aheap ?st1)(a \<mapsto> ag')\<rparr>, w)
     \<and> ag_write ag' = ag_write ag1 + length (concat css)
     \<and> (ag_write ag' = AGENT_RECV_BUFFER_LENGTH \<longrightarrow>
          (\<forall>rd. handle_agent env rd fd CHEOPS_IO_IN (Some a) (?st1\<lparr>aheap := (aheap ?st1)(a \<mapsto> ag')\<rparr>, w) = Exit 1))"
    by (rule Cons.IH) (use ag1 Cons.prems in auto)
  from ih obtain ag' where "reads env css fd a (?st1, w) = Ret (?st1\<lparr>aheap := (aheap ?st1)(a \<mapsto> ag')\<rparr>, w)"
    "ag_write ag' = ag_write ag1 + length (concat css)"
    "ag_write ag' = AGENT_RECV_BUFFER_LENGTH \<longrightarrow>
      (\<forall>rd. handle_agent env rd fd CHEOPS_IO_IN (Some a) (?st1\<lparr>aheap := (aheap ?st1)(a \<mapsto> ag')\<rparr>, w) = Exit 1)"
    by blast
  moreover have "?st1\<lparr>aheap := (aheap ?st1)(a \<mapsto> ag')\<rparr> = st\<lparr>aheap := (aheap st)(a \<mapsto> ag')\<rparr>" by simp
  moreover have "reads env (bs # css) fd a (st, w) = reads env css fd a (?st1, w)" by (simp add: ag1(1))
  moreover have "ag_write ag1 + length (concat css) = ag_write ag + length (concat (bs # css))"
    using ag1(3) by simp
  ultimately show ?case by metis
qed

lemma split_event_stalls_witness:
  "\<exists>ag'. reads demo_env [drop 7 (mk_event 7 0 [1, 2])] 5 3
       (demo_state\<lparr>aheap := [3 \<mapsto> demo_agent\<lparr>ag_write := 7, ag_expected := 14\<rparr>]\<rparr>, [])
     = Ret (demo_state\<lparr>aheap := [3 \<mapsto> ag']\<rparr>, [])"
  using split_event_stalls [of "demo_state\<lparr>aheap := [3 \<mapsto> demo_agent\<lparr>ag_write := 7, ag_expected := 14\<rparr>]\<rparr>" 3
      "demo_agent\<lparr>ag_write := 7, ag_expected := 14\<rparr>" 5 "[drop 7 (mk_event 7 0 [1, 2])]" demo_env "[]"]
  by (auto simp: demo_agent_def AGENT_RECV_BUFFER_LENGTH_def mk_event_def hdr_bytes_def)

end
