(* ===== verification/Event_Login.thy ===== *)
theory Event_Login
  imports Event_Recv
begin

text \<open>
  The login gate of \<^verbatim>\<open>event.c\<close>: before a connection has logged in, nothing that it sends
  reaches a handler of the program; and what an authentication request does.
\<close>

section \<open>Sending changes nothing else\<close>

lemma event_send_frame:
  assumes "event_send wr a ev st = Ret (r, st')"
  shows "\<exists>s. st' = st\<lparr>ev_sent := s\<rparr>"
proof (cases "a \<in> set (agents st)")
  case True
  then show ?thesis using assms by (auto simp: event_send_def Let_def)
next
  case False
  then have "st' = st\<lparr>ev_sent := ev_sent st\<rparr>" using assms by (simp add: event_send_def)
  then show ?thesis by blast
qed

lemma auth_reply_frame:
  "send_auth_request_reply wr a v st = Ret (r, st') \<Longrightarrow> \<exists>s. st' = st\<lparr>ev_sent := s\<rparr>"
  by (auto simp: send_auth_request_reply_def dest: event_send_frame)

lemma cheops_error_frame: "cheops_error wr a err txt st = Ret st' \<Longrightarrow> \<exists>s. st' = st\<lparr>ev_sent := s\<rparr>"
  by (auto simp: cheops_error_def dest: event_send_frame)

section \<open>The gate\<close>

text \<open>A database that accepts nobody, and a connection that has not logged in.\<close>

definition accepts :: "auth_db \<Rightarrow> cstring \<Rightarrow> cstring \<Rightarrow> bool" where
  "accepts db user pass \<longleftrightarrow>
     (\<exists>pw sp. db_getpwnam db user = Some pw \<and> db_getspnam db pw = Some sp \<and> db_crypt db pass sp = Some sp)"

definition gated :: "nat \<Rightarrow> 'h ev_state \<Rightarrow> bool" where
  "gated a st \<longleftrightarrow> authenticating_clients st \<noteq> 0 \<and>
     handlers st ! unat EVENT_AUTH_REQUEST \<in> {None, Some HandleAuthRequest} \<and>
     (\<forall>ag. aheap st a = Some ag \<longrightarrow> ag_flags ag AND AGENT_FLAGS_LOGGED_IN = 0)"

lemma gated_sent [simp]: "gated a (st\<lparr>ev_sent := s\<rparr>) = gated a st"
  by (simp add: gated_def authenticating_clients_def)

lemma gated_upd:
  "gated a st \<Longrightarrow> ag_flags ag AND AGENT_FLAGS_LOGGED_IN = 0 \<Longrightarrow> gated a (st\<lparr>aheap := (aheap st)(a \<mapsto> ag)\<rparr>)"
  by (simp add: gated_def authenticating_clients_def)

lemma gated_flags: "gated a st \<Longrightarrow> aheap st a = Some ag \<Longrightarrow> ag_flags ag AND AGENT_FLAGS_LOGGED_IN = 0"
  by (simp add: gated_def)

lemma handle_auth_denied:
  assumes "\<forall>user pass. \<not> accepts db user pass" "handle_auth_request wr db e a st = Ret (r, st')"
  shows "\<exists>s. st' = st\<lparr>ev_sent := s\<rparr>"
proof -
  have "sp \<noteq> enc" if "db_getpwnam db u = Some pw" "db_getspnam db pw = Some sp" "db_crypt db p sp = Some enc"
    for u p pw sp enc
    using assms(1) that by (auto simp: accepts_def)
  then show ?thesis
    using assms(2) by (auto simp: handle_auth_request_def Let_def dest: auth_reply_frame split: option.splits if_splits)
qed

lemma unsupported_frame:
  "unsupported env h a w = Ret w' \<Longrightarrow> snd w' = snd w \<and> (\<exists>s. fst w' = (fst w)\<lparr>ev_sent := s\<rparr>)"
proof (cases "h_flags h AND FLAG_IGNORE = 0")
  case True
  then show "unsupported env h a w = Ret w' \<Longrightarrow> snd w' = snd w \<and> (\<exists>s. fst w' = (fst w)\<lparr>ev_sent := s\<rparr>)"
    by (auto simp: unsupported_def dest: cheops_error_frame)
next
  case False
  assume "unsupported env h a w = Ret w'"
  then have "w' = w" using False by (simp add: unsupported_def)
  then show "snd w' = snd w \<and> (\<exists>s. fst w' = (fst w)\<lparr>ev_sent := s\<rparr>)"
    by (intro conjI exI [of _ "ev_sent (fst w)"]) simp_all
qed

lemma handle_message_gated:
  assumes "\<forall>user pass. \<not> accepts (env_db env) user pass" "gated a (fst w)"
    "handle_message env a w = Ret w'"
  shows "snd w' = snd w \<and> (\<exists>s. fst w' = (fst w)\<lparr>ev_sent := s\<rparr>)"
proof -
  have self: "snd w = snd w \<and> (\<exists>s. fst w = (fst w)\<lparr>ev_sent := s\<rparr>)"
    by (intro conjI exI [of _ "ev_sent (fst w)"]) simp_all
  obtain ag where ag: "aheap (fst w) a = Some ag"
    using assms(3) by (auto simp: handle_message_def)
  have gate: "\<not> (ag_flags ag AND AGENT_FLAGS_LOGGED_IN \<noteq> 0 \<or> authenticating_clients (fst w) = 0)"
    using assms(2) ag by (simp add: gated_def)
  let ?h = "hdr_of (ag_buffer ag)"
  consider (skip) "w' = w" | (unsup) "unsupported env ?h a w = Ret w'"
    | (auth) f where "handlers (fst w) ! unat EVENT_AUTH_REQUEST = Some f" "call_handler env f (ag_buffer ag) a w = Ret w'"
  proof -
    note cases = that
    show thesis
    proof (cases "unat (h_type ?h) \<ge> MAX_EVENT \<or> unat (h_hlen ?h) > unat (h_len ?h)")
      case True
      then show thesis using assms(3) ag cases(1) by (auto simp: handle_message_def deref_def Let_def split: if_splits)
    next
      case wf: False
      show thesis
      proof (cases "h_type ?h = EVENT_AUTH_REQUEST")
        case False
        then have "unsupported env ?h a w = Ret w'"
          using assms(3) ag gate wf by (simp add: handle_message_def deref_def Let_def)
        then show thesis by (rule cases(2))
      next
        case True
        then have "obind (aget (handlers (fst w)) (unat EVENT_AUTH_REQUEST)) (\<lambda>slot.
              case slot of Some f \<Rightarrow> call_handler env f (ag_buffer ag) a w | None \<Rightarrow> UB) = Ret w'"
          using assms(3) ag gate wf by (simp only: handle_message_def deref_def Let_def) simp
        then show thesis using cases(3) by (auto split: option.splits)
      qed
    qed
  qed
  then show ?thesis
  proof cases
    case skip
    then show ?thesis using self by simp
  next
    case unsup
    then show ?thesis by (rule unsupported_frame)
  next
    case auth
    then have "f = HandleAuthRequest" using assms(2) by (auto simp: gated_def)
    then show ?thesis
      using auth(2) by (auto simp: call_handler_def Let_def dest: handle_auth_denied [OF assms(1)])
  qed
qed

lemma agent_message_gated:
  assumes "\<forall>user pass. \<not> accepts (env_db env) user pass" "gated a (fst w)"
    "agent_message env a w = Ret (res, w')"
  shows "gated a (fst w') \<and> snd w' = snd w"
proof -
  obtain w1 ag where w1: "handle_message env a w = Ret w1" and ag: "aheap (fst w1) a = Some ag"
    and w': "fst w' = (fst w1)\<lparr>aheap := (aheap (fst w1))(a \<mapsto> ag\<lparr>ag_buffer :=
        take (ag_write ag - nat (ag_expected ag)) (drop (nat (ag_expected ag)) (ag_buffer ag))
          @ drop (ag_write ag - nat (ag_expected ag)) (ag_buffer ag), ag_write := 0, ag_expected := 0\<rparr>)\<rparr>"
      "snd w' = snd w1"
    using assms(3) by (auto simp: agent_message_def Let_def)
  have g1: "gated a (fst w1)" "snd w1 = snd w"
    using handle_message_gated [OF assms(1,2) w1] assms(2) by auto
  have "ag_flags ag AND AGENT_FLAGS_LOGGED_IN = 0" using gated_flags [OF g1(1) ag] .
  then show ?thesis using gated_upd [OF g1(1)] w' g1(2) by simp
qed

lemma agent_again_gated:
  assumes "\<forall>user pass. \<not> accepts (env_db env) user pass"
  shows "gated a (fst w) \<Longrightarrow> agent_again n env res a w = Ret (r, w') \<Longrightarrow> gated a (fst w') \<and> snd w' = snd w"
proof (induction n arbitrary: res w)
  case (Suc n)
  obtain ag where ag: "aheap (fst w) a = Some ag" using Suc.prems(2) by (auto simp: agent_again.simps(2))
  have fl: "ag_flags ag AND AGENT_FLAGS_LOGGED_IN = 0" by (rule gated_flags [OF Suc.prems(1) ag])
  let ?few = "(of_nat res :: u64) < 4 - of_nat (ag_write ag)"
  let ?ag1 = "ag\<lparr>ag_write := ag_write ag + res, ag_expected := (if ?few then 0 else uint (h_len (hdr_of (ag_buffer ag))))\<rparr>"
  let ?w1 = "((fst w)\<lparr>aheap := (aheap (fst w))(a \<mapsto> ?ag1)\<rparr>, snd w)"
  have g1: "gated a (fst ?w1)" using gated_upd [OF Suc.prems(1)] fl by simp
  consider "w' = w" | "w' = ?w1"
    | res' w2 where "agent_message env a ?w1 = Ret (res', w2)" "agent_again n env res' a w2 = Ret (r, w')"
    using Suc.prems(2) ag
    by (auto simp: agent_again.simps(2) deref_def Let_def split: if_splits)
  then show ?case
  proof cases
    case 1
    then show ?thesis using Suc.prems(1) by simp
  next
    case 2
    then show ?thesis using g1 by simp
  next
    case 3
    then have "gated a (fst w2)" "snd w2 = snd w" using agent_message_gated [OF assms g1 3(1)] by auto
    then show ?thesis using Suc.IH [OF _ 3(2)] by simp
  qed
qed simp

lemma event_destroy_agent_frame:
  assumes "event_destroy_agent home a st = Ret st'"
  shows "handlers st' = handlers st" "authenticate_connecting_clients st' = authenticate_connecting_clients st"
    "a \<in> set (agents st) \<Longrightarrow> aheap st' = (aheap st)(a := None)" "a \<notin> set (agents st) \<Longrightarrow> st' = st"
  using assms by (auto simp: event_destroy_agent_def Let_def split: if_splits option.splits)

lemma agent_close_gated:
  assumes "gated a (fst w)" "agent_close env a w = Ret (r, w')"
  shows "gated a (fst w') \<and> snd w' = snd w"
proof -
  have d: "event_destroy_agent (env_home env) a (fst w) = Ret (fst w')" "snd w' = snd w"
    using assms(2) by (auto simp: agent_close_def)
  show ?thesis
    using event_destroy_agent_frame [OF d(1)] assms(1) d(2)
    by (cases "a \<in> set (agents (fst w))") (auto simp: gated_def authenticating_clients_def)
qed

text \<open>
  The ways in which a call of \<^verbatim>\<open>handle_agent\<close> returns: nothing done, closed, an event that is too
  large, bytes stored, or events handled.
\<close>

definition same_but_buffer :: "agent \<Rightarrow> agent \<Rightarrow> bool" where
  "same_but_buffer ag ag' \<longleftrightarrow> ag_id ag' = ag_id ag \<and> ag_s ag' = ag_s ag \<and> ag_flags ag' = ag_flags ag"

definition put_agent :: "nat \<Rightarrow> agent \<Rightarrow> 'h ev_state \<times> 'w \<Rightarrow> 'h ev_state \<times> 'w" where
  "put_agent a ag w = ((fst w)\<lparr>aheap := (aheap (fst w))(a \<mapsto> ag)\<rparr>, snd w)"

lemma handle_agent_cases:
  assumes "handle_agent env rd fd events (Some a) w = Ret (r, w')" "aheap (fst w) a = Some ag"
  obtains (same) "w' = w" "r = 0" "ag_s ag \<noteq> fd"
  | (gone) "agent_close env a (put_agent a (ag\<lparr>ag_id := None\<rparr>) w) = Ret (r, w')"
  | (closed) "agent_close env a w = Ret (r, w')"
  | (large) ag' where "same_but_buffer ag ag'" "w' = put_agent a ag' w" "r = 0"
      "unat (h_len (hdr_of (ag_buffer ag'))) > AGENT_RECV_BUFFER_LENGTH"
  | (stored) ag' where "same_but_buffer ag ag'" "w' = put_agent a ag' w" "r = 1"
  | (msg) ag' res w3 where "same_but_buffer ag ag'" "agent_message env a (put_agent a ag' w) = Ret (res, w3)"
      "agent_again (Suc AGENT_RECV_BUFFER_LENGTH) env res a w3 = Ret (r, w')"
  | (again) ag' res where "same_but_buffer ag ag'"
      "agent_again (Suc AGENT_RECV_BUFFER_LENGTH) env res a (put_agent a ag' w) = Ret (r, w')"
proof -
  note cases = that
  note ag = assms(2)
  have st: "same_but_buffer ag (store_bytes off bs ag)" for off bs by (simp add: store_bytes_def same_but_buffer_def)
  show thesis
  proof (cases "ag_s ag \<noteq> fd")
    case True
    then show thesis using assms(1) ag cases(1) by (auto simp: handle_agent_def deref_def)
  next
    case fd: False
    show thesis
    proof (cases "events AND (CHEOPS_IO_ERR OR CHEOPS_IO_HUP OR CHEOPS_IO_NVAL) \<noteq> 0")
      case True
      then show thesis using assms(1) ag cases(2) fd by (simp add: handle_agent_def deref_def put_agent_def)
    next
      case ev: False
      define want where "want = AGENT_RECV_BUFFER_LENGTH - ag_write ag"
      have want: "want \<noteq> 0" using assms(1) ag fd ev by (auto simp: handle_agent_def deref_def Let_def want_def)
      show thesis
      proof (cases "map_option (take want) rd = None \<or> map_option (take want) rd = Some []")
        case True
        then show thesis using assms(1) ag cases(3) fd ev want
          by (auto simp: handle_agent_def deref_def Let_def want_def)
      next
        case False
        then obtain b bs where bs: "map_option (take want) rd = Some (b # bs)" by (metis list.exhaust option.exhaust)
        show thesis
        proof (cases "ag_expected ag = -1")
          case False
          then show thesis using assms(1) ag fd ev want bs cases(7) [OF st]
            by (auto simp: handle_agent_def deref_def Let_def want_def [symmetric] put_agent_def)
        next
          case True
          let ?a1 = "store_bytes 0 (b # bs) ag"
          let ?len = "h_len (hdr_of (ag_buffer ?a1))"
          let ?a2 = "?a1\<lparr>ag_write := ag_write ag + length (b # bs),
              ag_expected := (if length (b # bs) < 4 then 0 else uint ?len)\<rparr>"
          have f2: "same_but_buffer ag ?a2" using st by (simp add: same_but_buffer_def)
          have "w' = put_agent a ?a1 w \<and> r = 0 \<and> unat ?len > AGENT_RECV_BUFFER_LENGTH \<or>
              w' = put_agent a ?a2 w \<and> r = 1 \<or>
              (\<exists>res w3. agent_message env a (put_agent a ?a2 w) = Ret (res, w3) \<and>
              agent_again (Suc AGENT_RECV_BUFFER_LENGTH) env res a w3 = Ret (r, w'))"
            using assms(1) ag fd ev want bs True
            by (simp add: handle_agent_def deref_def Let_def want_def [symmetric] put_agent_def split: if_splits)
          then show thesis using cases(4) [OF st] cases(5) [OF f2] cases(6) [OF f2] by blast
        qed
      qed
    qed
  qed
qed

lemma handle_agent_gated:
  assumes "\<forall>user pass. \<not> accepts (env_db env) user pass" "gated a (fst w)"
    "handle_agent env rd fd events (Some a) w = Ret (r, w')"
  shows "gated a (fst w') \<and> snd w' = snd w"
proof -
  obtain ag where ag: "aheap (fst w) a = Some ag" using assms(3) by (auto simp: handle_agent_def)
  have fl: "ag_flags ag AND AGENT_FLAGS_LOGGED_IN = 0" by (rule gated_flags [OF assms(2) ag])
  have up: "gated a (fst (put_agent a ag' w))" "snd (put_agent a ag' w) = snd w"
    if "ag_flags ag' = ag_flags ag" for ag'
    using gated_upd [OF assms(2), of ag'] fl that by (simp_all add: put_agent_def)
  have up': "gated a (fst (put_agent a ag' w))" "snd (put_agent a ag' w) = snd w"
    if "same_but_buffer ag ag'" for ag'
    using up that by (simp_all add: same_but_buffer_def)
  from assms(3) ag show ?thesis
  proof (cases rule: handle_agent_cases)
    case same
    then show ?thesis using assms(2) by simp
  next
    case gone
    then show ?thesis using agent_close_gated [OF up(1) gone] up(2) by simp
  next
    case closed
    then show ?thesis by (rule agent_close_gated [OF assms(2)])
  next
    case (large ag')
    then show ?thesis using up' [OF large(1)] by simp
  next
    case (stored ag')
    then show ?thesis using up' [OF stored(1)] by simp
  next
    case (msg ag' res w3)
    have "gated a (fst w3) \<and> snd w3 = snd w"
      using agent_message_gated [OF assms(1) up'(1) [OF msg(1)] msg(2)] up'(2) [OF msg(1)] by simp
    then show ?thesis using agent_again_gated [OF assms(1) _ msg(3)] by simp
  next
    case (again ag' res)
    then show ?thesis using agent_again_gated [OF assms(1) up'(1) [OF again(1)] again(2)] up'(2) [OF again(1)] by simp
  qed
qed

section \<open>Properties\<close>

text \<open>
  C11. The gate holds: while authentication is required and the database accepts nobody, no
  read of a connection that is not logged in, whatever its bytes, calls a handler of the
  program or logs the connection in, even when it brings many events.
\<close>

theorem no_login_no_call:
  assumes "\<forall>user pass. \<not> accepts (env_db env) user pass"
    "authenticating_clients st \<noteq> 0"
    "handlers st ! unat EVENT_AUTH_REQUEST \<in> {None, Some HandleAuthRequest}"
    "aheap st a = Some ag" "ag_flags ag AND AGENT_FLAGS_LOGGED_IN = 0"
    "handle_agent env rd fd events (Some a) (st, w) = Ret (r, st', w')"
  shows "w' = w \<and> (\<forall>ag'. aheap st' a = Some ag' \<longrightarrow> ag_flags ag' AND AGENT_FLAGS_LOGGED_IN = 0)"
proof -
  have "gated a (fst (st, w))" using assms(2-5) by (simp add: gated_def)
  from handle_agent_gated [OF assms(1) this assms(6)] show ?thesis by (simp add: gated_def)
qed

lemma no_login_no_call_witness:
  "\<exists>st'. handle_agent demo_env (Some [0, 0]) 5 CHEOPS_IO_IN (Some 3)
       (demo_state\<lparr>authenticate_connecting_clients := 1\<rparr>, [(9, [])]) = Ret (1, st', [(9, [])])
     \<and> (\<forall>ag'. aheap st' 3 = Some ag' \<longrightarrow> ag_flags ag' AND AGENT_FLAGS_LOGGED_IN = 0)"
proof -
  let ?st = "demo_state\<lparr>authenticate_connecting_clients := 1\<rparr>"
  have run: "\<exists>st'. handle_agent demo_env (Some [0, 0]) 5 CHEOPS_IO_IN (Some 3) (?st, [(9, [])]) = Ret (1, st', [(9, [])])"
    using events_in
    by (simp add: handle_agent_def deref_def Let_def demo_state_def demo_agent_def store_bytes_def
        AGENT_RECV_BUFFER_LENGTH_def)
  then obtain st' where st': "handle_agent demo_env (Some [0, 0]) 5 CHEOPS_IO_IN (Some 3) (?st, [(9, [])]) = Ret (1, st', [(9, [])])"
    by blast
  have "[(9 :: int, [] :: u8 list)] = [(9, [])] \<and> (\<forall>ag'. aheap st' 3 = Some ag' \<longrightarrow> ag_flags ag' AND AGENT_FLAGS_LOGGED_IN = 0)"
    by (rule no_login_no_call [OF _ _ _ _ _ st', of demo_agent])
      (simp_all add: accepts_def demo_env_def authenticating_clients_def demo_state_def ev_init_def
        EVENT_AUTH_REQUEST_def demo_agent_def)
  with st' show ?thesis by blast
qed

text \<open>The body of a request as a client lays it out: two fields of 35 bytes.\<close>

definition field35 :: "cstring \<Rightarrow> u8 list" where
  "field35 s = cstr_bytes s @ replicate (34 - length s) 0"

lemma field35_user: "NUL \<notin> set u \<Longrightarrow> length u < 35 \<Longrightarrow> bytes_cstr (field35 u @ xs) = u"
  by (simp add: field35_def bytes_cstr_cstr_bytes)

lemma length_field35 [simp]: "length u < 35 \<Longrightarrow> length (field35 u) = 35"
  by (simp add: field35_def)

text \<open>
  An authentication request for a user of the database logs its connection in if and only
  if the password's hash is the stored one, and is answered by exactly one event, which says
  so.
\<close>

theorem auth_request_spec:
  assumes "NUL \<notin> set user" "length user < 35" "NUL \<notin> set pass" "length pass < 35"
    "db_getpwnam db user = Some pw" "db_getspnam db pw = Some sp" "db_crypt db pass sp = Some enc"
    "a \<in> set (agents st)" "aheap st a = Some ag" "ag_type ag = AGENT_TYPE_IPV4"
    "\<forall>bs. wr (ag_s ag) bs = int (length bs)"
  shows "\<exists>st'. handle_auth_request wr db (field35 user @ field35 pass @ tail) a st = Ret (1, st')
     \<and> aheap st' = (aheap st)(a \<mapsto> ag\<lparr>ag_flags :=
          (if enc = sp then ag_flags ag OR AGENT_FLAGS_LOGGED_IN else ag_flags ag)\<rparr>)
     \<and> ev_sent st' = ev_sent st @
          [(ag_s ag, mk_event REPLY_AUTH_REQUEST 0 (be32 (if enc = sp then 1 else 0)))]"
proof -
  have u: "bytes_cstr (field35 user @ field35 pass @ tail) = user"
    by (rule field35_user [OF assms(1,2)])
  have p: "bytes_cstr (drop 35 (field35 user @ field35 pass @ tail)) = pass"
    using field35_user [OF assms(3,4)] assms(2) by simp
  have send: "event_send wr a (mk_event REPLY_AUTH_REQUEST 0 (be32 v)) st1
      = Ret (16, st1\<lparr>ev_sent := ev_sent st1 @ [(ag_s ag, mk_event REPLY_AUTH_REQUEST 0 (be32 v))]\<rparr>)"
    if "a \<in> set (agents st1)" "aheap st1 a = Some ag1" "ag_type ag1 = AGENT_TYPE_IPV4" "ag_s ag1 = ag_s ag"
    for st1 :: "'a ev_state" and ag1 v
  proof -
    let ?e = "mk_event REPLY_AUTH_REQUEST 0 (be32 v)"
    have "take (unat (h_len (hdr_of ?e))) ?e = ?e" by (simp add: hdr_of_mk_event)
    then show ?thesis
      using that assms(11) by (simp add: event_send_def deref_def Let_def agent_write_def)
  qed
  show ?thesis
  proof (cases "enc = sp")
    case True
    then show ?thesis
      using assms(5-10) unfolding handle_auth_request_def u p Let_def
      by (simp add: send_auth_request_reply_def deref_def send)
  next
    case False
    then show ?thesis
      using assms(5-10) unfolding handle_auth_request_def u p Let_def
      by (auto simp add: send_auth_request_reply_def deref_def send map_upd_triv)
  qed
qed

lemma auth_request_spec_witness:
  "\<exists>st'. handle_auth_request (\<lambda>fd bs. int (length bs))
       \<lparr>db_getpwnam = (\<lambda>u. Some u), db_getspnam = (\<lambda>_. Some ''xy''), db_crypt = (\<lambda>p s. Some (p @ ''y''))\<rparr>
       (field35 ''root'' @ field35 ''x'' @ []) 3 demo_state = Ret (1, st')
     \<and> ev_sent st' = [(5, mk_event REPLY_AUTH_REQUEST 0 (be32 1))]"
  using auth_request_spec [of "''root''" "''x''"
      "\<lparr>db_getpwnam = (\<lambda>u. Some u), db_getspnam = (\<lambda>_. Some ''xy''), db_crypt = (\<lambda>p s. Some (p @ ''y''))\<rparr>"
      "''root''" "''xy''" "''xy''" 3 demo_state demo_agent "\<lambda>fd bs. int (length bs)" "[]"]
  by (auto simp: demo_state_def demo_agent_def ev_init_def)

text \<open>
  A locked account, for which \<^verbatim>\<open>crypt\<close> has no answer, makes the agent compare a string with
  \<^verbatim>\<open>NULL\<close>.
\<close>

lemma auth_locked_account:
  assumes "NUL \<notin> set user" "length user < 35" "NUL \<notin> set pass" "length pass < 35"
    "db_getpwnam db user = Some pw" "db_getspnam db pw = Some sp" "db_crypt db pass sp = None"
  shows "handle_auth_request wr db (field35 user @ field35 pass @ tail) a st = UB"
proof -
  have u: "bytes_cstr (field35 user @ field35 pass @ tail) = user"
    by (rule field35_user [OF assms(1,2)])
  have p: "bytes_cstr (drop 35 (field35 user @ field35 pass @ tail)) = pass"
    using field35_user [OF assms(3,4)] assms(2) by simp
  show ?thesis using assms(5-7) unfolding handle_auth_request_def u p Let_def by simp
qed

end
