(* ===== verification/Event_Agents.thy ===== *)
theory Event_Agents
  imports Event_Login
begin

text \<open>
  The life of the connections of \<^verbatim>\<open>event.c\<close>: the list of agents, their cells and their entries
  in the descriptor table stay consistent through every way of opening and closing one, so
  that a callback is never given a freed agent.
\<close>

section \<open>The invariant\<close>

definition ev_inv :: "'h ev_state \<Rightarrow> bool" where
  "ev_inv st \<longleftrightarrow>
     distinct (agents st) \<and> (\<forall>a \<in> set (agents st). aheap st a \<noteq> None) \<and> quiet_ok (ev_io st) \<and>
     (\<forall>q s ev cb a. io_lookup (ev_io st) q = Some (s, ev, cb, a) \<longrightarrow>
        a \<in> set (agents st) \<and> (\<exists>ag. aheap st a = Some ag \<and> ag_id ag = Some q \<and> ag_s ag = s)) \<and>
     (\<forall>a \<in> set (agents st). \<forall>ag q. aheap st a = Some ag \<longrightarrow> ag_id ag = Some q \<longrightarrow>
        (\<exists>ev cb. io_lookup (ev_io st) q = Some (ag_s ag, ev, cb, a)))"

lemma ev_invD:
  assumes "ev_inv st"
  shows "distinct (agents st)" "\<And>a. a \<in> set (agents st) \<Longrightarrow> aheap st a \<noteq> None" "quiet_ok (ev_io st)"
    "\<And>q s ev cb a. io_lookup (ev_io st) q = Some (s, ev, cb, a) \<Longrightarrow>
        a \<in> set (agents st) \<and> (\<exists>ag. aheap st a = Some ag \<and> ag_id ag = Some q \<and> ag_s ag = s)"
    "\<And>a ag q. a \<in> set (agents st) \<Longrightarrow> aheap st a = Some ag \<Longrightarrow> ag_id ag = Some q \<Longrightarrow>
        \<exists>ev cb. io_lookup (ev_io st) q = Some (ag_s ag, ev, cb, a)"
  using assms unfolding ev_inv_def by blast+

lemma ev_inv_init: "ev_inv ev_init"
  by (simp add: ev_inv_def ev_init_def quiet_ok_def io_init_inv)
    (simp add: io_lookup_def entries_def io_init_def)

text \<open>An update that touches neither the agents nor the table.\<close>

lemma ev_inv_cong:
  assumes "ev_inv st" "agents st' = agents st" "ev_io st' = ev_io st"
    "\<And>a. a \<in> set (agents st) \<Longrightarrow> \<exists>ag ag'. aheap st a = Some ag \<and> aheap st' a = Some ag' \<and>
       ag_id ag' = ag_id ag \<and> ag_s ag' = ag_s ag"
  shows "ev_inv st'"
proof -
  note i = ev_invD [OF assms(1)]
  show ?thesis
    unfolding ev_inv_def assms(2,3)
  proof (intro conjI ballI allI impI)
    show "distinct (agents st)" "quiet_ok (ev_io st)" using i by auto
    show "aheap st' a \<noteq> None" if "a \<in> set (agents st)" for a using assms(4) [OF that] by auto
    fix q s ev cb a assume l: "io_lookup (ev_io st) q = Some (s, ev, cb, a)"
    then show "a \<in> set (agents st)" using i(4) by blast
    then show "\<exists>ag. aheap st' a = Some ag \<and> ag_id ag = Some q \<and> ag_s ag = s"
      using i(4) [OF l] assms(4) [of a] by auto
  next
    fix a ag q assume "a \<in> set (agents st)" "aheap st' a = Some ag" "ag_id ag = Some q"
    then show "\<exists>ev cb. io_lookup (ev_io st) q = Some (ag_s ag, ev, cb, a)"
      using i(5) [of a _ q] assms(4) [of a] by auto
  qed
qed

lemma ev_inv_frame [simp]:
  "ev_inv (st\<lparr>ev_sent := s\<rparr>) = ev_inv st" "ev_inv (st\<lparr>ev_closed := c\<rparr>) = ev_inv st"
  "ev_inv (st\<lparr>ev_unlinked := u\<rparr>) = ev_inv st" "ev_inv (st\<lparr>our_local_agent := l\<rparr>) = ev_inv st"
  "ev_inv (st\<lparr>our_local_ipv4_agent := l\<rparr>) = ev_inv st" "ev_inv (st\<lparr>handlers := h\<rparr>) = ev_inv st"
  "ev_inv (st\<lparr>handlers_initialized := b\<rparr>) = ev_inv st"
  "ev_inv (st\<lparr>authenticate_connecting_clients := v\<rparr>) = ev_inv st"
  by (simp_all add: ev_inv_def)

text \<open>What \<^verbatim>\<open>malloc\<close> may answer: addresses that are not in use.\<close>

definition alloc_ok :: "alloc_env \<Rightarrow> 'h ev_state \<Rightarrow> bool" where
  "alloc_ok al st \<longleftrightarrow>
     (\<forall>a. al_agent al = Some a \<longrightarrow> a \<notin> set (agents st)) \<and>
     (\<forall>q. al_handle al = Some q \<longrightarrow> idcells (ev_io st) q = None) \<and> room (ev_io st)"

lemma link_agent_inv:
  assumes inv: "ev_inv st" and ok: "alloc_ok al st"
    and run: "link_agent al ty s cb ev what st = Ret (r, st')"
  shows "ev_inv st' \<and> r = al_agent al \<and>
    (\<forall>a. r = Some a \<longrightarrow> agents st' = a # agents st \<and>
       (\<exists>ag. aheap st' a = Some ag \<and> ag_s ag = s \<and> ag_type ag = ty \<and> ag_flags ag = 0 \<and>
          ag_write ag = 0 \<and> ag_expected ag = -1)) \<and>
    (r = None \<longrightarrow> st' = st)"
proof (cases "al_agent al")
  case None
  then show ?thesis using run inv by (simp add: link_agent_def new_agent_def)
next
  case (Some a)
  note i = ev_invD [OF inv]
  let ?new = "(al_junk al)\<lparr>ag_write := 0, ag_expected := -1, ag_flags := 0\<rparr>"
  have q: "io_inv (ev_io st)" "current_ioc (ev_io st) = -1" using i(3) by (auto simp: quiet_ok_def)
  have fresh: "\<And>q. al_handle al = Some q \<Longrightarrow> idcells (ev_io st) q = None" "room (ev_io st)" "a \<notin> set (agents st)"
    using ok Some by (auto simp: alloc_ok_def)
  obtain h io where add: "cheops_io_add (al_grow al) (al_handle al) s cb ev a (ev_io st) = Ret (h, io)"
    and io: "io_inv io" "current_ioc io = -1" "h = None \<or> h = al_handle al"
      "h = None \<Longrightarrow> entries io = entries (ev_io st)"
      "\<And>q. h = Some q \<Longrightarrow> entries io = entries (ev_io st) @
         [(\<lparr>pfd_fd = s, pfd_events = ev, pfd_revents = 0\<rparr>, \<lparr>ir_callback = cb, ir_data = a, ir_id = q\<rparr>)]"
    by (rule io_add_inv [OF q(1) fresh(2), where p = "al_handle al" and m = "al_grow al" and fd = s
          and cb = cb and ev = ev and d = a]) (use fresh(1) q(2) in auto)
  let ?ag = "?new\<lparr>ag_type := ty, ag_s := s, ag_id := h, ag_more := what\<rparr>"
  have st': "st' = st\<lparr>ev_io := io, agents := a # agents st, aheap := (aheap st)(a \<mapsto> ?ag)\<rparr>" and r: "r = Some a"
    using run add by (auto simp: link_agent_def new_agent_def Some)
  have look: "io_lookup io = (case h of None \<Rightarrow> io_lookup (ev_io st) | Some q \<Rightarrow> (io_lookup (ev_io st))(q \<mapsto> (s, ev, cb, a)))"
  proof (cases h)
    case None
    then show ?thesis using io(4) by (simp add: io_lookup_def)
  next
    case (Some q)
    then have "q \<notin> dom (idcells (ev_io st))" using io(3) fresh(1) by auto
    then show ?thesis using io_lookup_snoc [OF q(1) _ io(5) [OF Some]] Some by (auto simp: entry_pair_def)
  qed
  have "ev_inv st'"
    unfolding ev_inv_def
  proof (intro conjI ballI allI impI)
    show "distinct (agents st')" using i(1) fresh(3) by (simp add: st')
    show "quiet_ok (ev_io st')" using io(1,2) by (simp add: st' quiet_ok_def)
    show "aheap st' b \<noteq> None" if "b \<in> set (agents st')" for b using that i(2) by (auto simp: st')
    fix q s' ev' cb' b assume l: "io_lookup (ev_io st') q = Some (s', ev', cb', b)"
    have new: "h = Some q \<and> b = a \<and> s' = s \<or> io_lookup (ev_io st) q = Some (s', ev', cb', b)"
      using l look by (auto simp: st' split: option.splits if_splits)
    then have "h = Some q \<and> b = a \<and> s' = s \<or> b \<in> set (agents st) \<and> b \<noteq> a \<and>
        (\<exists>ag. aheap st b = Some ag \<and> ag_id ag = Some q \<and> ag_s ag = s')"
      using i(4) fresh(3) by blast
    then show "b \<in> set (agents st')" "\<exists>ag. aheap st' b = Some ag \<and> ag_id ag = Some q \<and> ag_s ag = s'"
      by (auto simp: st')
  next
    fix b ag q assume b: "b \<in> set (agents st')" "aheap st' b = Some ag" "ag_id ag = Some q"
    show "\<exists>ev cb. io_lookup (ev_io st') q = Some (ag_s ag, ev, cb, b)"
    proof (cases "b = a")
      case True
      then have "h = Some q" "ag_s ag = s" using b by (auto simp: st')
      then show ?thesis using True look by (simp add: st')
    next
      case False
      then have "\<exists>ev cb. io_lookup (ev_io st) q = Some (ag_s ag, ev, cb, b)"
        using i(5) [of b ag q] b by (auto simp: st')
      moreover have "h \<noteq> Some q"
      proof
        assume "h = Some q"
        then have "idcells (ev_io st) q = None" using io(3) fresh(1) by auto
        then have "io_lookup (ev_io st) q = None" using dom_io_lookup [OF q(1)] by (metis domIff)
        then show False using \<open>\<exists>ev cb. _\<close> by simp
      qed
      ultimately show ?thesis using look by (auto simp: st' split: option.splits)
    qed
  qed
  then show ?thesis using r Some by (auto simp: st')
qed

lemma destroy_inv:
  assumes inv: "ev_inv st" and a: "a \<in> set (agents st)"
  obtains st' ag where "event_destroy_agent home a st = Ret st'" "ev_inv st'" "aheap st a = Some ag"
    "agents st' = remove1 a (agents st)" "ev_closed st' = ev_closed st @ [ag_s ag]"
    "aheap st' = (aheap st)(a := None)" "maxfdcnt (ev_io st') = maxfdcnt (ev_io st)"
    "dom (io_lookup (ev_io st')) = dom (io_lookup (ev_io st)) - set_option (ag_id ag)"
    "io_lookup (ev_io st') = (\<lambda>x. if Some x = ag_id ag then None else io_lookup (ev_io st) x)"
proof -
  note i = ev_invD [OF inv]
  obtain ag where ag: "aheap st a = Some ag" using i(2) [OF a] by auto
  have q: "io_inv (ev_io st)" "current_ioc (ev_io st) = -1" using i(3) by (auto simp: quiet_ok_def)
  obtain io where io: "(case ag_id ag of None \<Rightarrow> Ret (st\<lparr>agents := remove1 a (agents st), ev_closed := ev_closed st @ [ag_s ag]\<rparr>)
       | Some q \<Rightarrow> obind (cheops_io_remove q (ev_io st)) (\<lambda>(_, io).
            Ret (st\<lparr>agents := remove1 a (agents st), ev_closed := ev_closed st @ [ag_s ag], ev_io := io\<rparr>)))
     = Ret (st\<lparr>agents := remove1 a (agents st), ev_closed := ev_closed st @ [ag_s ag], ev_io := io\<rparr>)"
    "quiet_ok io" "maxfdcnt io = maxfdcnt (ev_io st)"
    "io_lookup io = (case ag_id ag of None \<Rightarrow> io_lookup (ev_io st) | Some q \<Rightarrow> (io_lookup (ev_io st))(q := None))"
  proof (cases "ag_id ag")
    case None
    then show thesis using that [of "ev_io st"] i(3) by simp
  next
    case (Some q)
    then obtain ev cb where "io_lookup (ev_io st) q = Some (ag_s ag, ev, cb, a)" using i(5) [OF a ag] by blast
    then have "q \<in> dom (idcells (ev_io st))" using dom_io_lookup [OF \<open>io_inv (ev_io st)\<close>] by blast
    from io_remove_inv [OF \<open>io_inv (ev_io st)\<close> \<open>current_ioc (ev_io st) = -1\<close> this] obtain io where
      "cheops_io_remove q (ev_io st) = Ret (0, io)" "io_inv io" "current_ioc io = -1"
      "maxfdcnt io = maxfdcnt (ev_io st)" "io_lookup io = (io_lookup (ev_io st))(q := None)" by metis
    then show thesis using that [of io] Some by (simp add: quiet_ok_def)
  qed
  let ?st2 = "st\<lparr>agents := remove1 a (agents st), ev_closed := ev_closed st @ [ag_s ag], ev_io := io\<rparr>"
  let ?st4 = "?st2\<lparr>aheap := (aheap st)(a := None)\<rparr>"
  obtain l u where run: "event_destroy_agent home a st = Ret (?st4\<lparr>our_local_agent := l, ev_unlinked := u\<rparr>)"
  proof -
    have "event_destroy_agent home a st = obind (Ret ?st2) (\<lambda>st2.
        let st3 = (if our_local_agent st2 = Some a
                   then (case get_local_name home of
                           None \<Rightarrow> st2\<lparr>our_local_agent := None\<rparr>
                         | Some c \<Rightarrow> st2\<lparr>ev_unlinked := ev_unlinked st2 @ [c], our_local_agent := None\<rparr>)
                   else st2)
        in Ret (st3\<lparr>aheap := (aheap st3)(a := None)\<rparr>))"
      unfolding event_destroy_agent_def using a ag by (simp only: io(1) [symmetric]) (cases "ag_id ag"; simp add: deref_def Let_def)
    then have run0: "event_destroy_agent home a st =
        (let st3 = (if our_local_agent ?st2 = Some a
                    then (case get_local_name home of
                            None \<Rightarrow> ?st2\<lparr>our_local_agent := None\<rparr>
                          | Some c \<Rightarrow> ?st2\<lparr>ev_unlinked := ev_unlinked ?st2 @ [c], our_local_agent := None\<rparr>)
                    else ?st2)
         in Ret (st3\<lparr>aheap := (aheap st3)(a := None)\<rparr>))" by simp
    show thesis
    proof (cases "our_local_agent st = Some a")
      case False
      then show thesis using run0 by (intro that [of "ev_unlinked st" "our_local_agent st"]) (simp add: Let_def)
    next
      case True
      show thesis
      proof (cases "get_local_name home")
        case None
        then show thesis using run0 True by (intro that [of "ev_unlinked st" None]) (simp add: Let_def)
      next
        case (Some c)
        then show thesis using run0 True by (intro that [of "ev_unlinked st @ [c]" None]) (simp add: Let_def)
      qed
    qed
  qed
  have look: "io_lookup io x = (if Some x = ag_id ag then None else io_lookup (ev_io st) x)" for x
    using io(4) by (auto split: option.splits)
  have "ev_inv ?st4"
    unfolding ev_inv_def
  proof (intro conjI ballI allI impI)
    show "distinct (agents ?st4)" using i(1) by simp
    show "quiet_ok (ev_io ?st4)" using io(2) by simp
    show "aheap ?st4 b \<noteq> None" if "b \<in> set (agents ?st4)" for b using that i(1,2) by (auto simp: set_remove1_eq)
    fix x s ev cb b assume "io_lookup (ev_io ?st4) x = Some (s, ev, cb, b)"
    then have l: "Some x \<noteq> ag_id ag" "io_lookup (ev_io st) x = Some (s, ev, cb, b)"
      using look [of x] by (auto split: if_splits)
    then obtain ag' where "b \<in> set (agents st)" "aheap st b = Some ag'" "ag_id ag' = Some x" "ag_s ag' = s"
      using i(4) by blast
    moreover from this have "b \<noteq> a" using l(1) ag by auto
    ultimately show "b \<in> set (agents ?st4)" "\<exists>ag. aheap ?st4 b = Some ag \<and> ag_id ag = Some x \<and> ag_s ag = s"
      using i(1) by (auto simp: set_remove1_eq)
  next
    fix b ag' x assume b: "b \<in> set (agents ?st4)" "aheap ?st4 b = Some ag'" "ag_id ag' = Some x"
    then have b': "b \<in> set (agents st)" "b \<noteq> a" "aheap st b = Some ag'"
      using i(1) by (auto simp: set_remove1_eq split: if_splits)
    obtain ev cb where l: "io_lookup (ev_io st) x = Some (ag_s ag', ev, cb, b)" using i(5) [OF b'(1,3) b(3)] by blast
    have "Some x \<noteq> ag_id ag"
    proof
      assume "Some x = ag_id ag"
      then obtain ev' cb' where "io_lookup (ev_io st) x = Some (ag_s ag, ev', cb', a)" using i(5) [OF a ag] by metis
      with l b'(2) show False by simp
    qed
    then show "\<exists>ev cb. io_lookup (ev_io ?st4) x = Some (ag_s ag', ev, cb, b)" using l look [of x] by simp
  qed
  moreover have "dom (io_lookup io) = dom (io_lookup (ev_io st)) - set_option (ag_id ag)"
    using look by (auto simp: dom_def)
  ultimately show thesis
    using run ag io(3) look by (intro that [of "?st4\<lparr>our_local_agent := l, ev_unlinked := u\<rparr>"]) (auto simp: fun_eq_iff)
qed

lemma destroy_look:
  assumes "ev_inv st" "a \<in> set (agents st)"
  shows "\<exists>st' ag. event_destroy_agent home a st = Ret st' \<and> ev_inv st' \<and> aheap st a = Some ag \<and>
    agents st' = remove1 a (agents st) \<and> aheap st' = (aheap st)(a := None) \<and>
    ev_closed st' = ev_closed st @ [ag_s ag] \<and>
    io_lookup (ev_io st') = (\<lambda>x. if Some x = ag_id ag then None else io_lookup (ev_io st) x)"
proof (rule destroy_inv [OF assms, of home])
  fix st' ag
  assume "event_destroy_agent home a st = Ret st'" "ev_inv st'" "aheap st a = Some ag"
    "agents st' = remove1 a (agents st)" "aheap st' = (aheap st)(a := None)"
    "ev_closed st' = ev_closed st @ [ag_s ag]"
    "io_lookup (ev_io st') = (\<lambda>x. if Some x = ag_id ag then None else io_lookup (ev_io st) x)"
  then show ?thesis by (intro exI [of _ st'] exI [of _ ag] conjI)
qed

section \<open>Everything that opens and closes connections\<close>

lemma event_send_inv:
  assumes "ev_inv st" "event_send wr a ev st = Ret (r, st')"
  shows "ev_inv st'"
  using assms by (auto simp: event_send_def Let_def split: if_splits)

lemma connect_inv:
  assumes "ev_inv st" "alloc_ok al st"
  shows "handle_unix_connect acc al fd data st = Ret (r, st') \<Longrightarrow> ev_inv st'"
    "handle_ipv4_connect wr acc al fd data st = Ret (r, st') \<Longrightarrow> ev_inv st'"
proof -
  show "handle_unix_connect acc al fd data st = Ret (r, st') \<Longrightarrow> ev_inv st'"
    using link_agent_inv [OF assms] assms(1)
    by (auto simp: handle_unix_connect_def split: option.splits if_splits)
  assume h: "handle_ipv4_connect wr acc al fd data st = Ret (r, st')"
  show "ev_inv st'"
  proof (cases "st' = st")
    case False
    let ?link = "link_agent al AGENT_TYPE_IPV4 acc HANDLE_AGENT CHEOPS_IO_IN Ipv4_connect_string st"
    obtain p ag where pag: "data = Some p" "aheap st p = Some ag" "ag_s ag = fd" "\<not> acc < 0"
      using h False by (auto simp: handle_ipv4_connect_def split: option.splits if_splits)
    have "handle_ipv4_connect wr acc al fd data st = obind ?link (\<lambda>(b, st'). case b of None \<Rightarrow> Ret (1, st')
        | Some b \<Rightarrow> if authenticating_clients st' \<noteq> 0
            then obind (send_auth_request_reply wr b 0 st') (\<lambda>(_, st''). Ret (1, st''))
            else Ret (1, st'))"
      using pag by (simp add: handle_ipv4_connect_def deref_def)
    then obtain b st1 where l: "?link = Ret (b, st1)"
      and c: "st' = st1 \<or> (\<exists>b r'. send_auth_request_reply wr b 0 st1 = Ret (r', st'))"
      using h by (cases ?link) (auto split: option.splits if_splits prod.splits)
    then show ?thesis
      using link_agent_inv [OF assms l] by (auto simp: send_auth_request_reply_def dest: event_send_inv)
  qed (use assms in simp)
qed

lemma request_inv:
  assumes "ev_inv st" "alloc_ok al st"
  shows "event_request_agent ty home sock conn al st = Ret (r, st') \<Longrightarrow> ev_inv st'"
  using link_agent_inv [OF assms] assms(1)
  by (auto simp: event_request_agent_def local_agent_def ipv4_agent_def split: option.splits if_splits)

lemma make_socket_frame:
  "\<exists>u c. snd (make_local_socket s b1 b2 l path st) = st\<lparr>ev_unlinked := u, ev_closed := c\<rparr>"
  "\<exists>c. snd (make_ipv4_socket s b1 l st) = st\<lparr>ev_closed := c\<rparr>"
proof -
  let ?l = "snd (make_local_socket s b1 b2 l path st)" and ?i = "snd (make_ipv4_socket s b1 l st)"
  have "?l = st\<lparr>ev_unlinked := ev_unlinked ?l, ev_closed := ev_closed ?l\<rparr>"
    by (simp add: make_local_socket_def Let_def)
  then show "\<exists>u c. ?l = st\<lparr>ev_unlinked := u, ev_closed := c\<rparr>" by blast
  have "?i = st\<lparr>ev_closed := ev_closed ?i\<rparr>"
    by (simp add: make_ipv4_socket_def)
  then show "\<exists>c. ?i = st\<lparr>ev_closed := c\<rparr>" by blast
qed

lemma alloc_ok_frame [simp]: "alloc_ok al (st\<lparr>ev_unlinked := u\<rparr>) = alloc_ok al st"
  "alloc_ok al (st\<lparr>ev_closed := c\<rparr>) = alloc_ok al st"
  by (simp_all add: alloc_ok_def)

lemma create_local_inv:
  assumes "ev_inv st" "alloc_ok al st" "create_local home sk al st = Ret (r, st')"
  shows "ev_inv st'"
proof (cases "our_local_agent st = None \<and> get_local_name home \<noteq> None")
  case False
  then show ?thesis
    using assms by (cases "our_local_agent st"; cases "get_local_name home"; simp add: create_local_def)
next
  case True
  then obtain c where c: "get_local_name home = Some c" by auto
  define ms where "ms = make_local_socket (sk_socket sk) (sk_bind1 sk) (sk_bind2 sk) (sk_listen sk) c st"
  obtain u d where f: "snd ms = st\<lparr>ev_unlinked := u, ev_closed := d\<rparr>"
    using make_socket_frame(1) unfolding ms_def by blast
  have i: "ev_inv (snd ms)" "alloc_ok al (snd ms)" using assms(1,2) by (simp_all add: f)
  show ?thesis
    using assms(3) True c link_agent_inv [OF i] i(1)
    by (auto simp: create_local_def ms_def [symmetric] split_beta split: if_splits)
qed

lemma create_ipv4_inv:
  assumes "ev_inv st" "alloc_ok al st" "create_ipv4 sk al st = Ret (r, st')"
  shows "ev_inv st'"
proof -
  define ms where "ms = make_ipv4_socket (sk_socket sk) (sk_bind1 sk) (sk_listen sk) st"
  obtain d where f: "snd ms = st\<lparr>ev_closed := d\<rparr>"
    using make_socket_frame(2) unfolding ms_def by blast
  have i: "ev_inv (snd ms)" "alloc_ok al (snd ms)" using assms(1,2) by (simp_all add: f)
  show ?thesis
    using assms(3) link_agent_inv [OF i] i(1)
    by (auto simp: create_ipv4_def ms_def [symmetric] split_beta split: if_splits)
qed

section \<open>What a read does to the connections\<close>

text \<open>
  The handlers of the program, as far as the connections go: they send, and leave the rest of the
  event layer alone (those of the agent set timers and table entries of their own).
\<close>

definition only_sends :: "('h, 'w) ev_env \<Rightarrow> bool" where
  "only_sends env \<longleftrightarrow> (\<forall>c m off a w w'. env_hs env c m off a w = Ret w' \<longrightarrow>
     (\<exists>s. fst w' = (fst w)\<lparr>ev_sent := s\<rparr>))"

definition same_conns :: "'h ev_state \<Rightarrow> 'h ev_state \<Rightarrow> bool" where
  "same_conns st st' \<longleftrightarrow> agents st' = agents st \<and> ev_io st' = ev_io st \<and>
     (\<forall>a. map_option (\<lambda>ag. (ag_id ag, ag_s ag)) (aheap st' a) = map_option (\<lambda>ag. (ag_id ag, ag_s ag)) (aheap st a))"

lemma same_conns_refl [simp]: "same_conns st st"
  by (simp add: same_conns_def)

lemma same_conns_trans: "same_conns st st1 \<Longrightarrow> same_conns st1 st2 \<Longrightarrow> same_conns st st2"
  by (simp add: same_conns_def)

lemma same_conns_sent: "\<exists>s. st' = st\<lparr>ev_sent := s\<rparr> \<Longrightarrow> same_conns st st'"
  by (auto simp: same_conns_def)

lemma same_conns_put:
  "aheap (fst w) a = Some ag \<Longrightarrow> ag_id ag' = ag_id ag \<Longrightarrow> ag_s ag' = ag_s ag \<Longrightarrow>
     same_conns (fst w) ((fst w)\<lparr>aheap := (aheap (fst w))(a \<mapsto> ag')\<rparr>)"
  by (simp add: same_conns_def)

lemma same_conns_inv: "same_conns st st' \<Longrightarrow> ev_inv st \<Longrightarrow> ev_inv st'"
proof (rule ev_inv_cong)
  assume c: "same_conns st st'" and i: "ev_inv st"
  then show "agents st' = agents st" "ev_io st' = ev_io st" "ev_inv st" by (simp_all add: same_conns_def)
  fix a assume "a \<in> set (agents st)"
  then obtain ag where "aheap st a = Some ag" using ev_invD(2) [OF i] by auto
  moreover have "map_option (\<lambda>ag. (ag_id ag, ag_s ag)) (aheap st' a) = map_option (\<lambda>ag. (ag_id ag, ag_s ag)) (aheap st a)"
    using c by (simp add: same_conns_def)
  ultimately show "\<exists>ag ag'. aheap st a = Some ag \<and> aheap st' a = Some ag' \<and> ag_id ag' = ag_id ag \<and> ag_s ag' = ag_s ag"
    by auto
qed

lemma handle_auth_conns:
  assumes "handle_auth_request wr db e a st = Ret (r, st')"
  shows "same_conns st st'"
proof -
  have reply: "same_conns st1 st2" if "send_auth_request_reply wr a v st1 = Ret (r', st2)" for v r' and st1 st2 :: "'a ev_state"
    using auth_reply_frame [OF that] by (rule same_conns_sent)
  have put: "same_conns st (st\<lparr>aheap := (aheap st)(a \<mapsto> ag\<lparr>ag_flags := f\<rparr>)\<rparr>)" if "aheap st a = Some ag" for ag f
    using same_conns_put [of "(st, ())" a ag] that by simp
  show ?thesis
    using assms by (auto simp: handle_auth_request_def Let_def split: option.splits if_splits
        dest: reply intro: same_conns_trans [OF put])
qed

lemma handle_message_conns:
  assumes "only_sends env" "handle_message env a w = Ret w'"
  shows "same_conns (fst w) (fst w')"
proof -
  have unsup: "same_conns (fst w) (fst v)" if "unsupported env h a w = Ret v" for h v
    using unsupported_frame [OF that] by (intro same_conns_sent) simp
  have call: "same_conns (fst w) (fst v)" if c: "call_handler env f buf a w = Ret v" for f buf v
  proof (cases f)
    case HandleAuthRequest
    then show ?thesis using c by (auto simp: call_handler_def Let_def dest: handle_auth_conns)
  next
    case (Handler x)
    then have "env_hs env x (take (unat (h_len (hdr_of buf))) buf) (unat (h_hlen (hdr_of buf))) a w = Ret v"
      using c by (simp add: call_handler_def Let_def)
    then have "\<exists>s. fst v = (fst w)\<lparr>ev_sent := s\<rparr>"
      using assms(1) unfolding only_sends_def by blast
    then show ?thesis by (rule same_conns_sent)
  qed
  show ?thesis
    using assms(2) by (auto simp: handle_message_def Let_def split: if_splits option.splits intro: unsup call)
qed

lemma agent_message_conns:
  assumes "only_sends env" "agent_message env a w = Ret (res, w')"
  shows "same_conns (fst w) (fst w')"
proof -
  obtain w1 ag buf where w1: "handle_message env a w = Ret w1" and ag: "aheap (fst w1) a = Some ag"
    and w': "fst w' = (fst w1)\<lparr>aheap := (aheap (fst w1))(a \<mapsto> ag\<lparr>ag_buffer := buf, ag_write := 0, ag_expected := 0\<rparr>)\<rparr>"
    using assms(2) by (auto simp: agent_message_def Let_def)
  show ?thesis
    using same_conns_trans [OF handle_message_conns [OF assms(1) w1] same_conns_put [OF ag]] w' by simp
qed

text \<open>An event that is larger than the buffer: its length is at the start of it.\<close>

definition too_large :: "nat \<Rightarrow> 'h ev_state \<Rightarrow> bool" where
  "too_large a st \<longleftrightarrow>
     (case aheap st a of None \<Rightarrow> False
      | Some ag \<Rightarrow> unat (h_len (hdr_of (ag_buffer ag))) > AGENT_RECV_BUFFER_LENGTH)"

lemma agent_again_conns:
  assumes "only_sends env"
  shows "agent_again n env res a w = Ret (r, w') \<Longrightarrow>
    same_conns (fst w) (fst w') \<and> (r = 0 \<longrightarrow> too_large a (fst w'))"
proof (induction n arbitrary: res w)
  case (Suc n)
  obtain ag where ag: "aheap (fst w) a = Some ag" using Suc.prems by (auto simp: agent_again.simps(2))
  let ?few = "(of_nat res :: u64) < 4 - of_nat (ag_write ag)"
  let ?ag1 = "ag\<lparr>ag_write := ag_write ag + res, ag_expected := (if ?few then 0 else uint (h_len (hdr_of (ag_buffer ag))))\<rparr>"
  let ?w1 = "((fst w)\<lparr>aheap := (aheap (fst w))(a \<mapsto> ?ag1)\<rparr>, snd w)"
  have p1: "same_conns (fst w) (fst ?w1)" using same_conns_put [OF ag, of ?ag1] by simp
  consider "w' = w" "unat (h_len (hdr_of (ag_buffer ag))) > AGENT_RECV_BUFFER_LENGTH" | "w' = ?w1" "r = 1"
    | res' w2 where "agent_message env a ?w1 = Ret (res', w2)" "agent_again n env res' a w2 = Ret (r, w')"
    using Suc.prems ag
    by (auto simp: agent_again.simps(2) deref_def Let_def split: if_splits)
  then show ?case
  proof cases
    case 1
    then show ?thesis using ag by (simp add: too_large_def)
  next
    case 2
    then show ?thesis using p1 by simp
  next
    case 3
    have "same_conns (fst w) (fst w2)"
      using same_conns_trans [OF p1 agent_message_conns [OF assms 3(1)]] .
    then show ?thesis using Suc.IH [OF 3(2)] same_conns_trans by blast
  qed
qed simp

text \<open>
  So a read leaves the connections as they are, or closes its own; it gives up its table entry
  only when it closes, or for an event that is too large.
\<close>

lemma handle_agent_conns:
  assumes "only_sends env" "handle_agent env rd fd events (Some a) w = Ret (r, w')"
    "aheap (fst w) a = Some ag" "ag_s ag = fd"
  obtains (kept) "same_conns (fst w) (fst w')" "r = 0 \<longrightarrow> too_large a (fst w')"
  | (closed) i where "r = 0" "i = None \<or> i = ag_id ag"
      "event_destroy_agent (env_home env) a ((fst w)\<lparr>aheap := (aheap (fst w))(a \<mapsto> ag\<lparr>ag_id := i\<rparr>)\<rparr>) = Ret (fst w')"
proof -
  have put: "same_conns (fst w) (fst (put_agent a ag' w))" if "same_but_buffer ag ag'" for ag'
    using same_conns_put [OF assms(3), of ag'] that by (simp add: put_agent_def same_but_buffer_def)
  from assms(2,3) show thesis
  proof (cases rule: handle_agent_cases)
    case same
    then show thesis using assms(4) by simp
  next
    case gone
    then show thesis using closed [of None] by (auto simp: agent_close_def put_agent_def)
  next
    case closed
    have "(fst w)\<lparr>aheap := (aheap (fst w))(a \<mapsto> ag\<lparr>ag_id := ag_id ag\<rparr>)\<rparr> = fst w"
      using assms(3) by (simp add: map_upd_triv)
    then show thesis using that(2) [of "ag_id ag"] closed by (auto simp: agent_close_def)
  next
    case (large ag')
    then show thesis using that(1) put [OF large(1)] by (simp add: too_large_def put_agent_def)
  next
    case (stored ag')
    then show thesis using that(1) put [OF stored(1)] by simp
  next
    case (msg ag' res w3)
    have "same_conns (fst w) (fst w3)"
      using same_conns_trans [OF put [OF msg(1)] agent_message_conns [OF assms(1) msg(2)]] .
    then show thesis using that(1) agent_again_conns [OF assms(1) msg(3)] same_conns_trans by blast
  next
    case (again ag' res)
    then show thesis using that(1) agent_again_conns [OF assms(1) again(2)] same_conns_trans [OF put [OF again(1)]] by blast
  qed
qed

section \<open>The callbacks in the loop\<close>

text \<open>
  The callbacks of this file as \<^verbatim>\<open>cheops_io_wait\<close> calls them: what \<^verbatim>\<open>read\<close> and \<^verbatim>\<open>accept\<close> answer then
  is \<open>rd\<close> and \<open>acc\<close>. The table that they see has the entry under way marked.
\<close>

definition ev_callback ::
  "('h, 'w) ev_env \<Rightarrow> u8 list option \<Rightarrow> int \<Rightarrow> alloc_env \<Rightarrow> (ev_cb, nat, 'h ev_state \<times> 'w) io_callback_sem" where
  "ev_callback env rd acc al f h fd ev a s =
     (case s of (io, st, w) \<Rightarrow>
      obind (case f of
               HANDLE_AGENT \<Rightarrow> handle_agent env rd fd ev (Some a) (st\<lparr>ev_io := io\<rparr>, w)
             | HANDLE_UNIX_CONNECT \<Rightarrow>
                 obind (handle_unix_connect acc al fd (Some a) (st\<lparr>ev_io := io\<rparr>)) (\<lambda>(r, st'). Ret (r, st', w))
             | HANDLE_IPV4_CONNECT \<Rightarrow>
                 obind (handle_ipv4_connect (env_wr env) acc al fd (Some a) (st\<lparr>ev_io := io\<rparr>))
                   (\<lambda>(r, st'). Ret (r, st', w)))
        (\<lambda>(r, st', w'). Ret (r, ev_io st', st', w')))"

text \<open>\<^verbatim>\<open>poll\<close> has found \<open>ev\<close> for entry \<open>x\<close>, whose callback is called.\<close>

definition polled :: "nat \<Rightarrow> u16 \<Rightarrow> ('c, 'd) io_state \<Rightarrow> ('c, 'd) io_state" where
  "polled x ev io = io\<lparr>fds := (fds io)[x := (fds io ! x)\<lparr>pfd_revents := ev\<rparr>]\<rparr>"

definition ev_dispatch ::
  "('h, 'w) ev_env \<Rightarrow> u8 list option \<Rightarrow> int \<Rightarrow> alloc_env \<Rightarrow> nat \<Rightarrow> u16 \<Rightarrow> 'h ev_state \<times> 'w
     \<Rightarrow> ('h ev_state \<times> 'w) outcome" where
  "ev_dispatch env rd acc al x ev s =
     obind (io_dispatch (ev_callback env rd acc al) x (polled x ev (ev_io (fst s)), s))
       (\<lambda>(io', st, w). Ret (st\<lparr>ev_io := io'\<rparr>, w))"

text \<open>The mark of the entry under way, which only \<^verbatim>\<open>cheops_io_remove\<close> reads.\<close>

definition marked :: "int \<Rightarrow> bool \<Rightarrow> ('c, 'd) io_state \<Rightarrow> ('c, 'd) io_state" where
  "marked v b io = io\<lparr>current_ioc := v, remove_current_ioc := b\<rparr>"

lemma marked_simps [simp]:
  "fds (marked v b io) = fds io" "ior (marked v b io) = ior io" "idcells (marked v b io) = idcells io"
  "fdcnt (marked v b io) = fdcnt io" "maxfdcnt (marked v b io) = maxfdcnt io"
  "current_ioc (marked v b io) = v" "remove_current_ioc (marked v b io) = b"
  by (simp_all add: marked_def)

lemma marked_inv [simp]: "io_inv (marked v b io) = io_inv io" "live (marked v b io) = live io"
    "io_lookup (marked v b io) = io_lookup io" "entries (marked v b io) = entries io"
    "room (marked v b io) = room io"
  by (simp_all add: marked_def io_inv_def io_lookup_def entries_def room_def)

text \<open>
  The read of an entry that meets an event larger than the buffer, the one way in which
  \<^verbatim>\<open>handle_agent\<close> gives up its entry without closing the connection.
\<close>

definition oversize ::
  "('h, 'w) ev_env \<Rightarrow> u8 list option \<Rightarrow> nat \<Rightarrow> u16 \<Rightarrow> 'h ev_state \<times> 'w \<Rightarrow> bool" where
  "oversize env rd x ev s \<longleftrightarrow>
     (let io = ev_io (fst s); e = ior io ! x in
      ir_callback e = HANDLE_AGENT \<and>
      (case handle_agent env rd (pfd_fd (fds io ! x)) ev (Some (ir_data e))
              ((fst s)\<lparr>ev_io := marked (int x) False (polled x ev io)\<rparr>, snd s) of
         Ret (r, st, w) \<Rightarrow> r = 0 \<and> too_large (ir_data e) st
       | _ \<Rightarrow> False))"

lemma ev_inv_look_cong:
  assumes "ev_inv st" "agents st' = agents st" "aheap st' = aheap st" "quiet_ok (ev_io st')"
    "io_lookup (ev_io st') = io_lookup (ev_io st)"
  shows "ev_inv st'"
  using assms unfolding ev_inv_def by simp

lemma destroy_parts:
  assumes "event_destroy_agent home a st = Ret st'" "a \<in> set (agents st)" "aheap st a = Some ag"
  shows "agents st' = remove1 a (agents st)" "aheap st' = (aheap st)(a := None)"
    "ag_id ag = None \<Longrightarrow> ev_io st' = ev_io st"
    "ag_id ag = Some q \<Longrightarrow> \<exists>r. cheops_io_remove q (ev_io st) = Ret (r, ev_io st')"
  using assms by (auto simp: event_destroy_agent_def Let_def split: if_splits option.splits)


lemma marked_add:
  "cheops_io_add m p fd cb ev d (marked v b io) =
     obind (cheops_io_add m p fd cb ev d io) (\<lambda>(q, io'). Ret (q, marked v b io'))"
proof -
  obtain fl io1 where g: "(if fdcnt io < maxfdcnt io then io_grow m io else (0, io)) = (fl, io1)" by fastforce
  have "io_grow m (marked v b io) = (case io_grow m io of (r, io') \<Rightarrow> (r, marked v b io'))"
    by (simp add: io_grow_def marked_def Let_def split: option.split)
  then have g': "(if fdcnt (marked v b io) < maxfdcnt (marked v b io) then io_grow m (marked v b io)
      else (0, marked v b io)) = (fl, marked v b io1)"
    using g by (cases "fdcnt io < maxfdcnt io") auto
  show ?thesis
  proof (cases "fl = 0")
    case True
    then show ?thesis
      unfolding cheops_io_add_def g g'
      by (cases "aset (fds io1) (unat (fdcnt io1)) \<lparr>pfd_fd = fd, pfd_events = ev, pfd_revents = 0\<rparr>";
          cases "aget (ior io1) (unat (fdcnt io1))"; cases p; simp)
        (auto simp: aset_def aget_def marked_def Let_def)
  next
    case False
    then show ?thesis unfolding cheops_io_add_def g g' by simp
  qed
qed

definition marked_st :: "int \<Rightarrow> bool \<Rightarrow> 'h ev_state \<Rightarrow> 'h ev_state" where
  "marked_st v b st = st\<lparr>ev_io := marked v b (ev_io st)\<rparr>"

lemma marked_st_simps [simp]:
  "agents (marked_st v b st) = agents st" "aheap (marked_st v b st) = aheap st"
  "ev_io (marked_st v b st) = marked v b (ev_io st)"
  "authenticating_clients (marked_st v b st) = authenticating_clients st"
  by (simp_all add: marked_st_def authenticating_clients_def)

lemma marked_link:
  "link_agent al ty s cb ev what (marked_st v b st) =
     obind (link_agent al ty s cb ev what st) (\<lambda>(a, st'). Ret (a, marked_st v b st'))"
proof (cases "al_agent al")
  case None
  then show ?thesis by (simp add: link_agent_def new_agent_def)
next
  case (Some a)
  show ?thesis
    by (cases "cheops_io_add (al_grow al) (al_handle al) s cb ev a (ev_io st)")
      (auto simp: link_agent_def new_agent_def Some marked_add marked_st_def deref_def)
qed

lemma marked_send:
  "event_send wr a ev (marked_st v b st) = obind (event_send wr a ev st) (\<lambda>(r, st'). Ret (r, marked_st v b st'))"
  by (cases "aheap st a") (auto simp: event_send_def deref_def Let_def marked_st_def)

text \<open>A connection that is accepted: the mark plays no part, and the listening entry stays.\<close>

lemma marked_accept:
  assumes "aheap st a = Some ag" "ag_s ag = fd"
  shows "handle_unix_connect acc al fd (Some a) (marked_st v b st) = Ret (r, st') \<Longrightarrow>
      \<exists>st0. handle_unix_connect acc al fd (Some a) st = Ret (r, st0) \<and> st' = marked_st v b st0 \<and> r = 1"
    "handle_ipv4_connect wr acc al fd (Some a) (marked_st v b st) = Ret (r, st') \<Longrightarrow>
      \<exists>st0. handle_ipv4_connect wr acc al fd (Some a) st = Ret (r, st0) \<and> st' = marked_st v b st0 \<and> r = 1"
proof -
  show "\<exists>st0. handle_unix_connect acc al fd (Some a) st = Ret (r, st0) \<and> st' = marked_st v b st0 \<and> r = 1"
    if "handle_unix_connect acc al fd (Some a) (marked_st v b st) = Ret (r, st')"
    using that assms
    by (cases "link_agent al AGENT_TYPE_LOCAL acc HANDLE_AGENT CHEOPS_IO_IN Unix_connect_string st")
      (auto simp: handle_unix_connect_def deref_def marked_link split: if_splits)
  show "\<exists>st0. handle_ipv4_connect wr acc al fd (Some a) st = Ret (r, st0) \<and> st' = marked_st v b st0 \<and> r = 1"
    if h: "handle_ipv4_connect wr acc al fd (Some a) (marked_st v b st) = Ret (r, st')"
  proof (cases "acc < 0")
    case True
    then show ?thesis using h assms by (auto simp: handle_ipv4_connect_def deref_def)
  next
    case False
    then obtain c st1 where l: "link_agent al AGENT_TYPE_IPV4 acc HANDLE_AGENT CHEOPS_IO_IN Ipv4_connect_string st = Ret (c, st1)"
      using h assms by (auto simp: handle_ipv4_connect_def deref_def marked_link)
    show ?thesis
    proof (cases "c = None \<or> authenticating_clients st1 = 0")
      case True
      then show ?thesis using h assms False l
        by (auto simp: handle_ipv4_connect_def deref_def marked_link split: option.splits)
    next
      case auth: False
      then obtain c' where c': "c = Some c'" by auto
      show ?thesis using h assms False l auth
        by (auto simp: c' handle_ipv4_connect_def deref_def marked_link send_auth_request_reply_def marked_send)
    qed
  qed
qed

lemma idle_look [simp]:
  "quiet_ok (io\<lparr>current_ioc := -1\<rparr>) = io_inv io" "io_lookup (io\<lparr>current_ioc := -1\<rparr>) = io_lookup io"
  by (simp_all add: quiet_ok_def io_lookup_def entries_def)

lemma polled_look:
  assumes "quiet_ok io" "x < live io"
  shows "quiet_ok (polled x ev io)" "io_lookup (polled x ev io) = io_lookup io" "live (polled x ev io) = live io"
    "pfd_revents (fds (polled x ev io) ! x) = ev" "ior (polled x ev io) = ior io"
    "pfd_fd (fds (polled x ev io) ! x) = pfd_fd (fds io ! x)" "idcells (polled x ev io) = idcells io"
    "x < length (fds (polled x ev io))"
proof -
  have "x < length (fds io)" using io_inv_lengths(1) [of io] assms by (simp add: quiet_ok_def)
  then show "pfd_revents (fds (polled x ev io) ! x) = ev" "pfd_fd (fds (polled x ev io) ! x) = pfd_fd (fds io ! x)"
    "x < length (fds (polled x ev io))" by (simp_all add: polled_def)
qed (use revents_look [OF assms, of ev] in \<open>simp_all add: polled_def\<close>)

text \<open>One turn of the loop keeps the connections consistent.\<close>

lemma ev_dispatch_inv:
  assumes inv: "ev_inv st" and x: "x < live (ev_io st)" and al: "alloc_ok al st" and hs: "only_sends env"
    and fits: "\<not> oversize env rd x ev (st, w)"
    and run: "ev_dispatch env rd acc al x ev (st, w) = Ret (st', w')"
  shows "ev_inv st'"
proof -
  let ?io = "polled x ev (ev_io st)"
  note q = ev_invD(3) [OF inv]
  note pl = polled_look [OF q x, of ev]
  have i: "io_inv ?io" "current_ioc ?io = -1" using pl(1) by (simp_all add: quiet_ok_def)
  have xl: "x < live ?io" using x pl(3) by simp
  let ?e = "ior (ev_io st) ! x" and ?fd = "pfd_fd (fds (ev_io st) ! x)"
  have look: "io_lookup (ev_io st) (ir_id ?e) = Some (?fd, pfd_events (fds (ev_io st) ! x), ir_callback ?e, ir_data ?e)"
    by (rule io_entry [OF q x])
  then obtain ag where ag: "ir_data ?e \<in> set (agents st)" "aheap st (ir_data ?e) = Some ag"
    "ag_id ag = Some (ir_id ?e)" "ag_s ag = ?fd"
    using ev_invD(4) [OF inv look] by auto
  define a where "a = ir_data ?e"
  have cell: "idcells ?io (ir_id (ior ?io ! x)) = Some (int x)" by (rule io_inv_handle [OF i(1) xl])
  have lens: "x < length (ior ?io)" using io_inv_lengths [OF i(1)] xl by simp
  let ?st = "marked_st (int x) False (st\<lparr>ev_io := ?io\<rparr>)"
  have inv1: "ev_inv (st\<lparr>ev_io := ?io\<rparr>)"
    by (rule ev_inv_look_cong [OF inv]) (simp_all add: pl)
  have ag1: "aheap (st\<lparr>ev_io := ?io\<rparr>) a = Some ag" "aheap ?st a = Some ag" using ag by (simp_all add: a_def)
  have al1: "alloc_ok al (st\<lparr>ev_io := ?io\<rparr>)"
    using al by (simp add: alloc_ok_def pl room_def) (simp add: polled_def)
  show ?thesis
  proof (cases "ev = 0")
    case True
    then have "st' = st\<lparr>ev_io := ?io\<rparr>"
      using run pl(4,8) by (simp add: ev_dispatch_def io_dispatch_def aget_def)
    then show ?thesis using inv1 by simp
  next
    case False
    obtain r io2 st2 w2 io3 where
      cb: "ev_callback env rd acc al (ir_callback ?e) (ir_id ?e) ?fd ev a (marked (int x) False ?io, st, w) = Ret (r, io2, st2, w2)"
      and sh: "(if r = 0 \<or> remove_current_ioc io2 then obind (io_shrink x io2) (\<lambda>(_, st2). Ret st2) else Ret io2) = Ret io3"
      and st': "st' = st2\<lparr>ev_io := io3\<lparr>current_ioc := -1\<rparr>\<rparr>"
      using run False pl(4-8) cell lens
      by (auto simp: ev_dispatch_def io_dispatch_def aget_def deref_def a_def marked_def [symmetric])
    have st1: "st\<lparr>ev_io := marked (int x) False ?io\<rparr> = ?st" by (simp add: marked_st_def)
    show ?thesis
    proof (cases "ir_callback ?e = HANDLE_AGENT")
      case False
      then obtain st0 where st0: "st2 = marked_st (int x) False st0" "io2 = ev_io st2" "r = 1" "ev_inv st0"
      proof (cases "ir_callback ?e")
        case HANDLE_UNIX_CONNECT
        then have "handle_unix_connect acc al ?fd (Some a) ?st = Ret (r, st2)" "io2 = ev_io st2"
          using cb st1 by (auto simp: ev_callback_def)
        then show thesis
          using that marked_accept(1) [OF ag1(1) ag(4)] connect_inv(1) [OF inv1 al1] by blast
      next
        case HANDLE_IPV4_CONNECT
        then have "handle_ipv4_connect (env_wr env) acc al ?fd (Some a) ?st = Ret (r, st2)" "io2 = ev_io st2"
          using cb st1 by (auto simp: ev_callback_def)
        then show thesis
          using that marked_accept(2) [OF ag1(1) ag(4)] connect_inv(2) [OF inv1 al1] by blast
      qed simp
      have "io3 = marked (int x) False (ev_io st0)" using sh st0 by simp
      moreover have "quiet_ok (ev_io st0)" using ev_invD(3) [OF st0(4)] .
      ultimately show ?thesis
        unfolding st' st0(1)
        by (intro ev_inv_look_cong [OF st0(4)]) (simp_all add: quiet_ok_def)
    next
      case agent: True
      then have h: "handle_agent env rd ?fd ev (Some a) (?st, w) = Ret (r, st2, w2)" and io2: "io2 = ev_io st2"
        using cb st1 by (auto simp: ev_callback_def)
      have nl: "\<not> (r = 0 \<and> too_large a st2)"
        using fits h agent by (auto simp: oversize_def Let_def a_def marked_st_def)
      have "aheap (fst (?st, w)) a = Some ag" using ag1(2) by simp
      from hs h this ag(4) show ?thesis
      proof (cases rule: handle_agent_conns)
        case kept
        then have s: "same_conns ?st st2" "r \<noteq> 0" using nl by auto
        then have io3: "io3 = marked (int x) False ?io" using sh io2 by (simp add: same_conns_def)
        have "same_conns st (st2\<lparr>ev_io := ev_io st\<rparr>)" using s(1) by (simp add: same_conns_def)
        then have inv2: "ev_inv (st2\<lparr>ev_io := ev_io st\<rparr>)" using inv by (rule same_conns_inv)
        show ?thesis
          unfolding st' io3 using i pl
          by (intro ev_inv_look_cong [OF inv2]) (simp_all add: quiet_ok_def)
      next
        case (closed j)
        let ?ag = "ag\<lparr>ag_id := j\<rparr>"
        let ?stj = "?st\<lparr>aheap := (aheap ?st)(a \<mapsto> ?ag)\<rparr>"
        have d: "event_destroy_agent (env_home env) a ?stj = Ret st2" using closed(3) by simp
        have a0: "a \<in> set (agents st)" using ag(1) by (simp add: a_def)
        have a1: "a \<in> set (agents ?stj)" "aheap ?stj a = Some ?ag" using ag(1) by (simp_all add: a_def)
        note parts = destroy_parts [OF d a1]
        have io2': "io2 = marked (int x) (j \<noteq> None) ?io"
        proof (cases j)
          case None
          then show ?thesis using parts(3) io2 by simp
        next
          case (Some k)
          then have "k = ir_id ?e" using closed(2) ag(3) by simp
          then have "cheops_io_remove k (marked (int x) False ?io) = Ret (-1, marked (int x) True ?io)"
            using cell pl(5) by (simp add: cheops_io_remove_def deref_def marked_def)
          then show ?thesis using parts(4) [of k] Some io2 by auto
        qed
        have inv_io2: "io_inv io2" "x < live io2" using i xl by (simp_all add: io2')
        obtain io4 where io4: "io_shrink x io2 = Ret (0, io4)" "io_inv io4" "entries io4 = swap_remove x (entries io2)"
          using io_shrink_inv [OF inv_io2] by metis
        then have io34: "io3 = io4" using sh closed(1) by simp
        have look4: "io_lookup io4 = (io_lookup (ev_io st))(ir_id ?e := None)"
          using io_lookup_shrink [OF inv_io2 io4(3)] pl by (simp add: io2')
        obtain std ag' where "event_destroy_agent (env_home env) a st = Ret std" and std: "ev_inv std" "aheap st a = Some ag'" "agents std = remove1 a (agents st)"
          "aheap std = (aheap st)(a := None)"
          "io_lookup (ev_io std) = (\<lambda>y. if Some y = ag_id ag' then None else io_lookup (ev_io st) y)"
          using destroy_look [OF inv a0, of "env_home env"] by (elim exE conjE) (rule that; assumption)
        have "io_lookup (ev_io std) = io_lookup io4"
          using std(2,5) ag(2,3) by (auto simp: look4 a_def fun_eq_iff)
        then show ?thesis
          unfolding st' io34 using parts(1,2) std(3,4) io4(2)
          by (intro ev_inv_look_cong [OF std(1)])
            simp_all
      qed
    qed
  qed
qed

text \<open>
  Without the condition on the size it fails: an event larger than the buffer frees the handle that
  the agent keeps, and closing the agent then uses it.
\<close>

lemma oversize_dangles:
  assumes inv: "ev_inv st" and x: "x < live (ev_io st)" and cb: "ir_callback (ior (ev_io st) ! x) = HANDLE_AGENT"
    and a: "ir_data (ior (ev_io st) ! x) = a" "aheap st a = Some ag" "ag_expected ag = -1" "ag_write ag = 0"
    and bs: "4 \<le> length bs" "length bs \<le> AGENT_RECV_BUFFER_LENGTH" "unat (of_be32 bs) > AGENT_RECV_BUFFER_LENGTH"
  shows "\<exists>st'. ev_dispatch env (Some bs) acc al x CHEOPS_IO_IN (st, w) = Ret (st', w) \<and>
    a \<in> set (agents st') \<and> event_destroy_agent home a st' = UB"
proof -
  let ?io = "polled x CHEOPS_IO_IN (ev_io st)" and ?e = "ior (ev_io st) ! x"
  note q = ev_invD(3) [OF inv]
  note pl = polled_look [OF q x, of CHEOPS_IO_IN]
  have i: "io_inv ?io" "x < live ?io" using pl(1,3) x by (simp_all add: quiet_ok_def)
  have cell: "idcells ?io (ir_id (ior ?io ! x)) = Some (int x)" by (rule io_inv_handle [OF i])
  have lens: "x < length (ior ?io)" using io_inv_lengths [OF i(1)] i(2) by simp
  have ag: "a \<in> set (agents st)" "ag_id ag = Some (ir_id ?e)" "ag_s ag = pfd_fd (fds (ev_io st) ! x)"
    using ev_invD(4) [OF inv io_entry [OF q x]] a by auto
  let ?ag = "store_bytes 0 bs ag"
  have len: "h_len (hdr_of (ag_buffer ?ag)) = of_be32 bs"
    using bs(1) by (simp add: store_bytes_def h_len_hdr_of of_be32_append)
  have ne: "CHEOPS_IO_IN \<noteq> 0" by (simp add: CHEOPS_IO_IN_def)
  obtain b bs' where bs': "bs = b # bs'" using bs(1) by (cases bs) auto
  have "handle_agent env (Some bs) (pfd_fd (fds (ev_io st) ! x)) CHEOPS_IO_IN (Some a) (st\<lparr>ev_io := io\<rparr>, w) =
      Ret (0, st\<lparr>ev_io := io, aheap := (aheap st)(a \<mapsto> ?ag)\<rparr>, w)" for io
    using a(2-4) ag(3) bs events_in len bs' by (simp add: handle_agent_def deref_def Let_def AGENT_RECV_BUFFER_LENGTH_def)
  then have call: "ev_callback env (Some bs) acc al HANDLE_AGENT h (pfd_fd (fds (ev_io st) ! x)) CHEOPS_IO_IN a (io, st, w) =
      Ret (0, io, st\<lparr>ev_io := io, aheap := (aheap st)(a \<mapsto> ?ag)\<rparr>, w)" for io h
    by (simp add: ev_callback_def)
  let ?m = "marked (int x) False ?io"
  have mi: "io_inv ?m" "x < live ?m" using i by simp_all
  obtain io2 where io2: "io_shrink x ?m = Ret (0, io2)" "dom (idcells io2) = dom (idcells ?m) - {ir_id (ior ?m ! x)}"
    using io_shrink_inv [OF mi] by metis
  let ?st' = "st\<lparr>ev_io := io2\<lparr>current_ioc := -1\<rparr>, aheap := (aheap st)(a \<mapsto> ?ag)\<rparr>"
  have "ev_dispatch env (Some bs) acc al x CHEOPS_IO_IN (st, w) = Ret (?st', w)"
    using ne pl(4-8) cell lens cb a(1) call io2(1)
    by (simp add: ev_dispatch_def io_dispatch_def aget_def deref_def marked_def [symmetric])
  moreover have "idcells io2 (ir_id ?e) = None" using io2(2) pl(5) by auto
  then have "event_destroy_agent home a ?st' = UB"
    using ag(1,2) by (simp add: event_destroy_agent_def deref_def Let_def store_bytes_def cheops_io_remove_def)
  ultimately show ?thesis using ag(1) by (intro exI [of _ ?st']) simp
qed

text \<open>
  The states reached by listening, connecting, sending, registering handlers, logging in and
  closing, and by every call that the loop makes of the callbacks of this file (accepting, reading
  and handling whole events, closing on an error or at the end of the stream), with any answers of
  the system; only the read of an event that is larger than the buffer is left out.
\<close>

inductive ev_reach :: "'h ev_state \<times> 'w \<Rightarrow> bool" where
  init: "ev_reach (ev_init, w)"
| listen_local: "ev_reach (st, w) \<Longrightarrow> alloc_ok al st \<Longrightarrow> create_local home sk al st = Ret (r, st') \<Longrightarrow> ev_reach (st', w)"
| listen_ipv4: "ev_reach (st, w) \<Longrightarrow> alloc_ok al st \<Longrightarrow> create_ipv4 sk al st = Ret (r, st') \<Longrightarrow> ev_reach (st', w)"
| request: "ev_reach (st, w) \<Longrightarrow> alloc_ok al st \<Longrightarrow> event_request_agent ty home sock conn al st = Ret (p, st') \<Longrightarrow> ev_reach (st', w)"
| send: "ev_reach (st, w) \<Longrightarrow> event_send wr a ev st = Ret (r, st') \<Longrightarrow> ev_reach (st', w)"
| register: "ev_reach (st, w) \<Longrightarrow> event_register_handler t h b st = Ret (r, st') \<Longrightarrow> ev_reach (st', w)"
| flags: "ev_reach (st, w) \<Longrightarrow> ev_reach (authenticate_clients v st, w)"
| destroy: "ev_reach (st, w) \<Longrightarrow> event_destroy_agent home a st = Ret st' \<Longrightarrow> ev_reach (st', w)"
| event: "ev_reach (st, w) \<Longrightarrow> alloc_ok al st \<Longrightarrow> only_sends env \<Longrightarrow> x < live (ev_io st) \<Longrightarrow>
    \<not> oversize env rd x ev (st, w) \<Longrightarrow> ev_dispatch env rd acc al x ev (st, w) = Ret s' \<Longrightarrow> ev_reach s'"
| other: "ev_reach (st, w) \<Longrightarrow> ev_reach (st, w')"

lemma register_frame:
  "event_register_handler t h b st = Ret (r, st') \<Longrightarrow> \<exists>hs i. st' = st\<lparr>handlers := hs, handlers_initialized := i\<rparr>"
proof -
  have slot: "\<exists>hs. st2 = st1\<lparr>handlers := hs\<rparr>" if "register_slot t h b st1 = Ret (r, st2)"
    for t h b r and st1 st2 :: "'a ev_state"
  proof -
    have "st2 = st1 \<or> (\<exists>hs. st2 = st1\<lparr>handlers := hs\<rparr>)"
      using that by (auto simp: register_slot_def split: if_splits)
    moreover have "st1 = st1\<lparr>handlers := handlers st1\<rparr>" by simp
    ultimately show ?thesis by blast
  qed
  assume "event_register_handler t h b st = Ret (r, st')"
  then obtain st1 where st1: "register_slot t h b st1 = Ret (r, st')"
    "st1 = st \<or> (\<exists>r. register_slot (uint EVENT_AUTH_REQUEST) (Some HandleAuthRequest) True (st\<lparr>handlers_initialized := True\<rparr>) = Ret (r, st1))"
    by (auto simp: event_register_handler_def split: if_splits)
  obtain hs where hs: "st' = st1\<lparr>handlers := hs\<rparr>" using slot [OF st1(1)] by blast
  from st1(2) show ?thesis
  proof
    assume "st1 = st"
    then have "st' = st\<lparr>handlers := hs, handlers_initialized := handlers_initialized st\<rparr>" using hs by simp
    then show ?thesis by blast
  next
    assume "\<exists>r. register_slot (uint EVENT_AUTH_REQUEST) (Some HandleAuthRequest) True (st\<lparr>handlers_initialized := True\<rparr>) = Ret (r, st1)"
    then obtain hs1 where "st1 = st\<lparr>handlers_initialized := True, handlers := hs1\<rparr>" using slot by blast
    then have "st' = st\<lparr>handlers := hs, handlers_initialized := True\<rparr>" using hs by simp
    then show ?thesis by blast
  qed
qed

lemma ev_reach_inv: "ev_reach s \<Longrightarrow> ev_inv (fst s)"
proof (induction rule: ev_reach.induct)
  case init then show ?case by (simp add: ev_inv_init)
next
  case listen_local then show ?case using create_local_inv by fastforce
next
  case listen_ipv4 then show ?case using create_ipv4_inv by fastforce
next
  case request then show ?case using request_inv by fastforce
next
  case send then show ?case using event_send_inv by fastforce
next
  case (register st w t h b r st')
  then obtain hs i where "st' = st\<lparr>handlers := hs, handlers_initialized := i\<rparr>" using register_frame by blast
  then show ?case using register.IH by simp
next
  case flags then show ?case by (simp add: authenticate_clients_def)
next
  case (destroy st w home a st')
  have inv: "ev_inv st" using destroy.IH by simp
  show ?case
  proof (cases "a \<in> set (agents st)")
    case True
    obtain st1 where "event_destroy_agent home a st = Ret st1" "ev_inv st1"
      using destroy_look [OF inv True, of home] by (elim exE conjE) (rule that; assumption)
    then show ?thesis using destroy.hyps(2) by simp
  next
    case False
    then show ?thesis using destroy by (simp add: event_destroy_agent_def)
  qed
next
  case (event st w al env x rd ev acc s')
  then show ?case using ev_dispatch_inv [of st x al env rd ev w acc] by (cases s') auto
qed simp

lemma cleanup_loop:
  assumes "ev_inv st" "length (agents st) < n"
  shows "\<exists>st'. event_cleanup_loop n home st = Ret st' \<and> ev_inv st' \<and> agents st' = [] \<and>
    ev_closed st' = ev_closed st @ map (\<lambda>a. ag_s (the (aheap st a))) (agents st) \<and>
    (\<forall>a. aheap st' a = (if a \<in> set (agents st) then None else aheap st a))"
  using assms
proof (induction n arbitrary: st)
  case (Suc n)
  show ?case
  proof (cases "agents st")
    case Nil
    then show ?thesis using Suc.prems by auto
  next
    case (Cons a as)
    have d: "distinct (a # as)" using ev_invD(1) [OF Suc.prems(1)] Cons by simp
    have a: "a \<in> set (agents st)" using Cons by simp
    obtain st1 ag where st1: "event_destroy_agent home a st = Ret st1" "ev_inv st1" "aheap st a = Some ag"
      "agents st1 = remove1 a (agents st)" "ev_closed st1 = ev_closed st @ [ag_s ag]"
      "aheap st1 = (aheap st)(a := None)"
      using destroy_look [OF Suc.prems(1) a, of home] by (elim exE conjE) (rule that; assumption)
    have as: "agents st1 = as" using st1(4) Cons by simp
    have "length (agents st1) < n" using as Suc.prems(2) Cons by simp
    from Suc.IH [OF st1(2) this] obtain st' where st': "event_cleanup_loop n home st1 = Ret st'" "ev_inv st'"
      "agents st' = []" "ev_closed st' = ev_closed st1 @ map (\<lambda>a. ag_s (the (aheap st1 a))) as"
      "\<forall>x. aheap st' x = (if x \<in> set as then None else aheap st1 x)"
      unfolding as by blast
    have "map (\<lambda>a. ag_s (the (aheap st1 a))) as = map (\<lambda>a. ag_s (the (aheap st a))) as"
      using d st1(6) by auto
    then show ?thesis using st' st1 Cons by auto
  qed
qed simp

section \<open>Properties\<close>

text \<open>
  C13. The connections stay consistent, as long as no event larger than the buffer arrives (see
  \<open>oversize_dangles\<close>), the handlers of the program only send, and \<^verbatim>\<open>malloc\<close> gives addresses that are
  not in use: in every state that listening, connecting, sending, registering, closing and the
  calls of the loop (accepting, reading, handling events, errors, the end of a stream) lead to, the
  agents are distinct live cells, every entry of the
  descriptor table belongs to a listed agent that holds its handle and descriptor, and every
  agent with a handle has its entry; so no callback is given a freed agent.
\<close>

theorem ev_reachable_consistent:
  assumes "ev_reach (st, w)"
  shows "distinct (agents st) \<and> (\<forall>a \<in> set (agents st). aheap st a \<noteq> None)
     \<and> (\<forall>q s ev cb a. io_lookup (ev_io st) q = Some (s, ev, cb, a) \<longrightarrow>
          a \<in> set (agents st) \<and> (\<exists>ag. aheap st a = Some ag \<and> ag_id ag = Some q \<and> ag_s ag = s))
     \<and> (\<forall>a \<in> set (agents st). \<forall>ag q. aheap st a = Some ag \<longrightarrow> ag_id ag = Some q \<longrightarrow>
          (\<exists>ev cb. io_lookup (ev_io st) q = Some (ag_s ag, ev, cb, a)))"
  using ev_reach_inv [OF assms] unfolding ev_inv_def fst_conv by blast

text \<open>An agent process that listens for connections.\<close>

definition demo_alloc :: "nat \<Rightarrow> nat \<Rightarrow> alloc_env" where
  "demo_alloc a q = \<lparr>al_junk = demo_agent, al_agent = Some a,
     al_grow = (Some \<lparr>ir_callback = HANDLE_AGENT, ir_data = 0, ir_id = 0\<rparr>,
                Some \<lparr>pfd_fd = 0, pfd_events = 0, pfd_revents = 0\<rparr>), al_handle = Some q\<rparr>"

lemma demo_listen:
  obtains st where "create_ipv4 \<lparr>sk_socket = 4, sk_bind1 = 0, sk_bind2 = 0, sk_listen = 0\<rparr> (demo_alloc 9 7)
     (ev_init :: int ev_state) = Ret (0, st)" "ev_reach (st, ())" "agents st = [9]"
proof -
  let ?run = "create_ipv4 \<lparr>sk_socket = 4, sk_bind1 = 0, sk_bind2 = 0, sk_listen = 0\<rparr> (demo_alloc 9 7) (ev_init :: int ev_state)"
  have ok: "alloc_ok (demo_alloc 9 7) (ev_init :: int ev_state)"
    by (simp add: alloc_ok_def demo_alloc_def ev_init_def room_def) (simp add: io_init_def)
  have "\<exists>st. ?run = Ret (0, st)"
    by (simp add: create_ipv4_def make_ipv4_socket_def link_agent_def new_agent_def demo_alloc_def
        ev_init_def cheops_io_add_def io_grow_def io_init_def Let_def GROW_SHRINK_SIZE_def aset_def
        aget_def resize_def word_gt_0 deref_def)
  then obtain st where st: "?run = Ret (0, st)" by blast
  have link: "link_agent (demo_alloc 9 7) AGENT_TYPE_IPV4 4 HANDLE_IPV4_CONNECT CHEOPS_IO_IN MORE_NULL ev_init = Ret (Some 9, st)"
  proof -
    obtain b where b: "link_agent (demo_alloc 9 7) AGENT_TYPE_IPV4 4 HANDLE_IPV4_CONNECT CHEOPS_IO_IN MORE_NULL ev_init = Ret (b, st)"
      using st by (auto simp: create_ipv4_def make_ipv4_socket_def)
    then have "b = Some 9" using link_agent_inv [OF ev_inv_init ok b] by (simp add: demo_alloc_def)
    with b show ?thesis by simp
  qed
  have "agents st = [9]"
    using link_agent_inv [OF ev_inv_init ok link] by (simp add: ev_init_def)
  moreover have "ev_reach (st, ())" by (rule ev_reach.listen_ipv4 [OF ev_reach.init ok st])
  ultimately show thesis using that st by blast
qed

lemma ev_reachable_consistent_witness:
  "\<exists>st :: int ev_state. ev_reach (st, ()) \<and> agents st = [9] \<and> aheap st 9 \<noteq> None"
proof -
  obtain st :: "int ev_state" where "ev_reach (st, ())" "agents st = [9]" using demo_listen by metis
  with ev_reachable_consistent [of st "()"] show ?thesis by auto
qed

text \<open>
  C14. \<^verbatim>\<open>event_cleanup\<close> returns: from every state reached without an event larger than the buffer
  (the conditions of the consistency above), it closes every socket once, in
  list order, frees every agent, and leaves the descriptor table without entries.
\<close>

theorem event_cleanup_closes_all:
  assumes "ev_reach (st, w)"
  shows "\<exists>st'. event_cleanup home st = Ret st' \<and> agents st' = []
     \<and> ev_closed st' = ev_closed st @ map (\<lambda>a. ag_s (the (aheap st a))) (agents st)
     \<and> (\<forall>a \<in> set (agents st). aheap st' a = None)
     \<and> io_lookup (ev_io st') = Map.empty"
proof -
  obtain st' where st': "event_cleanup home st = Ret st'" "ev_inv st'" "agents st' = []"
    "ev_closed st' = ev_closed st @ map (\<lambda>a. ag_s (the (aheap st a))) (agents st)"
    "\<forall>a. aheap st' a = (if a \<in> set (agents st) then None else aheap st a)"
    using cleanup_loop [OF ev_reach_inv [OF assms, unfolded fst_conv], of "Suc (length (agents st))" home]
    by (auto simp: event_cleanup_def)
  have "io_lookup (ev_io st') q = None" for q
    using ev_invD(4) [OF st'(2), of q] st'(3) by (cases "io_lookup (ev_io st') q") auto
  then show ?thesis using st' by auto
qed

lemma event_cleanup_closes_all_witness:
  "\<exists>st st' :: int ev_state. agents st = [9] \<and> event_cleanup None st = Ret st' \<and> agents st' = []"
proof -
  obtain st :: "int ev_state" where "ev_reach (st, ())" "agents st = [9]" using demo_listen by metis
  with event_cleanup_closes_all [of st "()" None] show ?thesis by blast
qed

end
