(* ===== verification/Agent_Map.thy ===== *)
theory Agent_Map
  imports Event Sched Ip_Utils
begin

text \<open>
  Route mapping, \<^verbatim>\<open>agent-map.c\<close>: a list of requests, each of which probes its destination with
  growing ttl and reports every link it learns to its agent; the receive side that advances
  or ends requests, and the timer that retransmits. FreeBSD parts are left out.

  An address is the \<^typ>\<open>u32\<close> in network byte order as the host sees it. The nodes of the list
  \<^verbatim>\<open>mrq\<close> are known to nothing but the list, so it is a list of values. Unused fields
  (\<^verbatim>\<open>nodes\<close>) and text for the debug log are left out. Arguments are: what \<^verbatim>\<open>write\<close> returns,
  \<^verbatim>\<open>getlocalip\<close> (\<^theory_text>\<open>Routes\<close>), \<^verbatim>\<open>getpid\<close>, \<^verbatim>\<open>time\<close>, \<^verbatim>\<open>socket\<close>, \<^verbatim>\<open>setsockopt\<close>, whether
  \<^verbatim>\<open>malloc\<close> has memory, the memory and the clock of the scheduler, and the four bytes of
  padding that the static event buffer holds.
\<close>

section \<open>State\<close>

datatype agent_timer = PING_SEND | MAP_TIMEOUT

record 'h net_world =
  nw_ev :: "'h ev_state"
  nw_sched :: "(agent_timer, u64 option) sched_state"

record map_request =
  ma_np :: u64
  ma_dest :: u32
  ma_last :: u32
  ma_ttl :: u8
  ma_retries :: int
  ma_sent :: int
  ma_agent :: nat

record 'h map_world = "'h net_world" +
  mrq :: "map_request list"
  map_socket :: int
  timeout_installed :: int
  map_out :: "(u32 \<times> u8 list) list"

record map_env =
  me_write :: "int \<Rightarrow> u8 list \<Rightarrow> int"
  me_localip :: "u32 \<Rightarrow> u32"
  me_pid :: int
  me_time :: int
  me_socket :: int
  me_setsockopt :: int
  me_malloc :: bool
  me_sched_mem :: "(agent_timer, u64 option) sched option"
  me_now :: "timeval option"
  me_pad :: "u8 list"

definition MAP_MAX :: u8 where "MAP_MAX = 60"
definition MAP_TIMEOUT_MAX :: nat where "MAP_TIMEOUT_MAX = 5"
definition MAP_REQUEST_TIMEOUT :: int where "MAP_REQUEST_TIMEOUT = 10"
definition MAX_MAP_REQUEST_RETRIES :: int where "MAX_MAP_REQUEST_RETRIES = 3"
definition EMPTY_PORT :: int where "EMPTY_PORT = 33434"

definition ICMP_ECHOREPLY :: u8 where "ICMP_ECHOREPLY = 0"
definition ICMP_DEST_UNREACH :: u8 where "ICMP_DEST_UNREACH = 3"
definition ICMP_TIME_EXCEEDED :: u8 where "ICMP_TIME_EXCEEDED = 11"
definition ICMP_MINLEN :: nat where "ICMP_MINLEN = 8"

lemmas icmp_types = ICMP_ECHOREPLY_def ICMP_DEST_UNREACH_def ICMP_TIME_EXCEEDED_def

section \<open>Sending\<close>

definition map_event :: "u8 list \<Rightarrow> u64 \<Rightarrow> u32 \<Rightarrow> u32 \<Rightarrow> u32 \<Rightarrow> u8 list" where
  "map_event pad np dest addr1 addr2 =
     mk_event REPLY_MAP_ICMP 0 (be32 dest @ be32 addr1 @ be32 addr2 @ pad @ ptr_bytes np)"

definition map_connect ::
  "map_env \<Rightarrow> nat \<Rightarrow> u64 \<Rightarrow> u32 \<Rightarrow> u32 \<Rightarrow> u32 \<Rightarrow> ('h, 'z) map_world_scheme
     \<Rightarrow> ('h, 'z) map_world_scheme outcome" where
  "map_connect env a np dest addr1 addr2 w =
     obind (event_send (me_write env) a (map_event (me_pad env) np dest addr1 addr2) (nw_ev w))
       (\<lambda>(_, ev). Ret (w\<lparr>nw_ev := ev\<rparr>))"

definition init_map_socket ::
  "map_env \<Rightarrow> ('h, 'z) map_world_scheme \<Rightarrow> ('h, 'z) map_world_scheme outcome" where
  "init_map_socket env w =
     (if me_socket env < 0 then Exit 1
      else if me_setsockopt env < 0 then Exit 1
      else Ret (w\<lparr>map_socket := me_socket env\<rparr>))"

text \<open>The packet of a probe is the one of \<^theory_text>\<open>Ip_Utils\<close>.\<close>

definition probe_packet :: "map_env \<Rightarrow> u32 \<Rightarrow> u8 \<Rightarrow> u8 list" where
  "probe_packet env dest ttl = sendicmp (me_pid env) (me_localip env dest) (sint ttl) dest"

definition mr_probe ::
  "map_env \<Rightarrow> map_request \<Rightarrow> ('h, 'z) map_world_scheme
     \<Rightarrow> (map_request \<times> ('h, 'z) map_world_scheme) outcome" where
  "mr_probe env mr w =
     (let mr' = mr\<lparr>ma_retries := ma_retries mr + 1, ma_sent := me_time env\<rparr> in
      obind (if map_socket w < 0 then init_map_socket env w else Ret w) (\<lambda>w1.
        Ret (mr', w1\<lparr>map_out := map_out w1 @ [(ma_dest mr', probe_packet env (ma_dest mr') (ma_ttl mr'))]\<rparr>)))"

section \<open>The timer\<close>

text \<open>
  The walk of \<^verbatim>\<open>map_timeout\<close>. A request that is probed is looked at once more, so two rounds
  per request and one for the end are enough fuel.
\<close>

fun map_timeout_loop ::
  "nat \<Rightarrow> map_env \<Rightarrow> int \<Rightarrow> nat \<Rightarrow> map_request list \<Rightarrow> ('h, 'z) map_world_scheme
     \<Rightarrow> (map_request list \<times> ('h, 'z) map_world_scheme) outcome" where
  "map_timeout_loop 0 env current cnt mrs w = NoFuel"
| "map_timeout_loop (Suc n) env current cnt mrs w =
     (case mrs of
        [] \<Rightarrow> Ret ([], w)
      | mr # rest \<Rightarrow>
         if current > ma_sent mr + MAP_REQUEST_TIMEOUT
         then
           if Suc cnt > MAP_TIMEOUT_MAX then Ret (mrs, w)
           else if ma_retries mr > MAX_MAP_REQUEST_RETRIES
           then map_timeout_loop n env current (Suc cnt) rest w
           else obind (mr_probe env mr w) (\<lambda>(mr', w').
                  map_timeout_loop n env current (Suc cnt) (mr' # rest) w')
         else obind (map_timeout_loop n env current cnt rest w) (\<lambda>(rest', w'). Ret (mr # rest', w')))"

definition map_timeout ::
  "map_env \<Rightarrow> ('h, 'z) map_world_scheme \<Rightarrow> (int \<times> ('h, 'z) map_world_scheme) outcome" where
  "map_timeout env w =
     (if mrq w = [] then Ret (0, w\<lparr>timeout_installed := 0\<rparr>)
      else obind (map_timeout_loop (2 * length (mrq w) + 1) env (me_time env) 0 (mrq w) w)
             (\<lambda>(mrs, w'). Ret (1, w'\<lparr>mrq := mrs\<rparr>)))"

section \<open>Requests\<close>

definition start_mapping ::
  "map_env \<Rightarrow> u32 \<Rightarrow> nat \<Rightarrow> u64 \<Rightarrow> ('h, 'z) map_world_scheme \<Rightarrow> ('h, 'z) map_world_scheme outcome" where
  "start_mapping env ip a np w =
     (let lip = me_localip env ip in
      if lip = ip then Ret w
      else if \<exists>mr \<in> set (mrq w). ma_dest mr = ip \<and> np = ma_np mr then Ret w
      else if \<not> me_malloc env then UB
      else
        let mr = \<lparr>ma_np = np, ma_dest = ip, ma_last = lip, ma_ttl = 1, ma_retries = 0, ma_sent = 0,
                  ma_agent = a\<rparr>;
            w1 = (if timeout_installed w = 0
                  then (let (i, s) = cheops_sched_add (me_sched_mem env) (me_now env) 100 MAP_TIMEOUT
                                       None (nw_sched w)
                        in w\<lparr>timeout_installed := i, nw_sched := s\<rparr>)
                  else w)
        in obind (mr_probe env mr w1) (\<lambda>(mr', w2). Ret (w2\<lparr>mrq := mr' # mrq w2\<rparr>)))"

definition handle_map_icmp_request ::
  "map_env \<Rightarrow> u8 list \<Rightarrow> nat \<Rightarrow> ('h, 'z) map_world_scheme \<Rightarrow> (int \<times> ('h, 'z) map_world_scheme) outcome" where
  "handle_map_icmp_request env e a w =
     obind (start_mapping env (of_be32 e) a (ptr_of (drop 8 e)) w) (\<lambda>w'. Ret (0, w'))"

section \<open>Receiving\<close>

text \<open>
  The fields of a received packet. \<open>buf\<close> is the receiver's buffer of 1024 bytes, of which
  the first \<open>len\<close> are received; no offset below exceeds 144, so each is inside it.
\<close>

definition ip_hlen :: "u8 list \<Rightarrow> nat" where "ip_hlen b = 4 * (unat (b ! 0) mod 16)"
definition ip_p :: "u8 list \<Rightarrow> u8" where "ip_p b = b ! 9"
definition ip_dst :: "u8 list \<Rightarrow> u32" where "ip_dst b = of_le32 (drop 16 b)"
definition icmp_type :: "u8 list \<Rightarrow> u8" where "icmp_type b = b ! 0"
definition icmp_seq :: "u8 list \<Rightarrow> u16" where "icmp_seq b = of_be16 (drop 6 b)"
definition udp_dest :: "u8 list \<Rightarrow> u16" where "udp_dest b = of_be16 (drop 2 b)"

text \<open>
  The loop for a router's answer. The condition \<^verbatim>\<open>(ttl = mr->ttl)\<close> is an assignment: the ttl of
  the answer is overwritten, and the test is that the request's own is not zero.
\<close>

fun map_hops ::
  "map_env \<Rightarrow> u32 \<Rightarrow> u32 \<Rightarrow> map_request list \<Rightarrow> ('h, 'z) map_world_scheme
     \<Rightarrow> (map_request list \<times> ('h, 'z) map_world_scheme) outcome" where
  "map_hops env dst sin [] w = Ret ([], w)"
| "map_hops env dst sin (mr # rest) w =
     (if ma_dest mr = dst \<and> ma_ttl mr \<noteq> 0
      then
        if ma_ttl mr < MAP_MAX
        then
          obind (map_connect env (ma_agent mr) (ma_np mr) (ma_dest mr) (ma_last mr) sin w) (\<lambda>w1.
          obind (mr_probe env (mr\<lparr>ma_ttl := ma_ttl mr + 1, ma_retries := 0, ma_last := sin\<rparr>) w1) (\<lambda>(mr', w2).
          obind (map_hops env dst sin rest w2) (\<lambda>(rest', w3). Ret (mr' # rest', w3))))
        else map_hops env dst sin rest w
      else obind (map_hops env dst sin rest w) (\<lambda>(rest', w'). Ret (mr # rest', w')))"

text \<open>The loop for the destination's answer, with the value of \<^verbatim>\<open>ret\<close>.\<close>

fun map_done ::
  "map_env \<Rightarrow> u32 \<Rightarrow> map_request list \<Rightarrow> int \<Rightarrow> ('h, 'z) map_world_scheme
     \<Rightarrow> (map_request list \<times> int \<times> ('h, 'z) map_world_scheme) outcome" where
  "map_done env sin [] ret w = Ret ([], ret, w)"
| "map_done env sin (mr # rest) ret w =
     (if ma_dest mr = sin \<and> ma_ttl mr \<noteq> 0
      then obind (map_connect env (ma_agent mr) (ma_np mr) (ma_dest mr) (ma_last mr) sin w)
             (map_done env sin rest 1)
      else obind (map_done env sin rest ret w) (\<lambda>(rest', ret', w'). Ret (mr # rest', ret', w')))"

definition map_last_hop ::
  "map_env \<Rightarrow> u8 list \<Rightarrow> int \<Rightarrow> u32 \<Rightarrow> ('h, 'z) map_world_scheme
     \<Rightarrow> (int \<times> ('h, 'z) map_world_scheme) outcome" where
  "map_last_hop env buf len sin w =
     (let hl = ip_hlen buf; icmp = drop hl buf in
      if len \<noteq> int (hl + ICMP_MINLEN) then Ret (0, w)
      else
        let ttl = (if ip_p buf = IPPROTO_ICMP then ucast (icmp_seq icmp)
                   else word_of_int (uint (udp_dest icmp) - EMPTY_PORT) :: u8)
        in if ttl \<ge> MAP_MAX then Ret (0, w)
           else obind (map_done env sin (mrq w) 0 w) (\<lambda>(mrs, ret, w'). Ret (ret, w'\<lparr>mrq := mrs\<rparr>)))"

definition handle_map ::
  "map_env \<Rightarrow> u8 list \<Rightarrow> int \<Rightarrow> u32 \<Rightarrow> ('h, 'z) map_world_scheme
     \<Rightarrow> (int \<times> ('h, 'z) map_world_scheme) outcome" where
  "handle_map env buf len sin w =
     (let hl = ip_hlen buf; ty = icmp_type (drop hl buf);
          buf' = drop (hl + ICMP_MINLEN) buf; len' = len - int (hl + ICMP_MINLEN) in
      if ty = ICMP_TIME_EXCEEDED
      then if len' < int (ip_hlen buf' + ICMP_MINLEN) then Ret (0, w)
           else obind (map_hops env (ip_dst buf') sin (mrq w) w) (\<lambda>(mrs, w'). Ret (0, w'\<lparr>mrq := mrs\<rparr>))
      else if ty = ICMP_DEST_UNREACH
      then if uint (udp_dest (drop (ip_hlen buf') buf')) < EMPTY_PORT then Ret (0, w)
           else map_last_hop env buf' len' sin w
      else if ty = ICMP_ECHOREPLY then map_last_hop env buf len sin w
      else Ret (0, w))"

section \<open>Lemmas\<close>

text \<open>An agent whose writes all succeed, and the world after it was sent a list of events.\<close>

definition link_up :: "map_env \<Rightarrow> nat \<Rightarrow> int \<Rightarrow> 'h ev_state \<Rightarrow> bool" where
  "link_up env a s ev \<longleftrightarrow> a \<in> set (agents ev) \<and> length (me_pad env) = 4 \<and>
     (\<exists>ag. aheap ev a = Some ag \<and> ag_s ag = s \<and>
        (ag_type ag = AGENT_TYPE_LOCAL \<or> ag_type ag = AGENT_TYPE_IPV4)) \<and>
     (\<forall>bs. me_write env s bs = int (length bs))"

definition sent_to :: "int \<Rightarrow> u8 list list \<Rightarrow> 'h ev_state \<Rightarrow> 'h ev_state" where
  "sent_to s ms ev = ev\<lparr>ev_sent := ev_sent ev @ map (Pair s) ms\<rparr>"

lemma sent_to_simps [simp]:
  "agents (sent_to s ms ev) = agents ev" "aheap (sent_to s ms ev) = aheap ev"
  "ev_sent (sent_to s ms ev) = ev_sent ev @ map (Pair s) ms"
  "sent_to s ns (sent_to s ms ev) = sent_to s (ms @ ns) ev" "sent_to s [] ev = ev"
  "link_up env a s' (sent_to s ms ev) = link_up env a s' ev"
  by (simp_all add: sent_to_def link_up_def)

lemma event_send_up:
  assumes "link_up env a s ev" "length body \<le> 1000"
  shows "event_send (me_write env) a (mk_event ty fl body) ev =
    Ret (int (length body) + 12, sent_to s [mk_event ty fl body] ev)"
proof -
  from assms(1) obtain ag where ag: "a \<in> set (agents ev)" "aheap ev a = Some ag" "ag_s ag = s"
    "ag_type ag = AGENT_TYPE_LOCAL \<or> ag_type ag = AGENT_TYPE_IPV4"
    "\<And>bs. me_write env s bs = int (length bs)" unfolding link_up_def by blast
  have "unat (word_of_nat (12 + length body) :: u32) = 12 + length body"
    using assms(2) by (simp del: of_nat_add add: unat_of_nat)
  then have "unat (h_len (hdr_of (mk_event ty fl body))) = length (mk_event ty fl body)"
    by (simp add: mk_event_def)
  moreover have "nat (12 + int (length body)) = 12 + length body" "mk_event ty fl body \<noteq> []"
    by (simp_all add: nat_add_distrib flip: length_greater_0_conv)
  ultimately show ?thesis
    using ag by (simp add: event_send_def agent_write_def deref_def sent_to_def Let_def)
qed

lemma map_connect_up:
  assumes "link_up env a s (nw_ev w)"
  shows "map_connect env a np d x y w =
    Ret (w\<lparr>nw_ev := sent_to s [map_event (me_pad env) np d x y] (nw_ev w)\<rparr>)"
  using event_send_up [OF assms, of "be32 d @ be32 x @ be32 y @ me_pad env @ ptr_bytes np"
      REPLY_MAP_ICMP 0] assms
  by (simp add: map_connect_def map_event_def link_up_def)

lemma mr_probe_open:
  "0 \<le> map_socket w \<Longrightarrow> mr_probe env mr w =
     Ret (mr\<lparr>ma_retries := ma_retries mr + 1, ma_sent := me_time env\<rparr>,
       w\<lparr>map_out := map_out w @ [(ma_dest mr, probe_packet env (ma_dest mr) (ma_ttl mr))]\<rparr>)"
  by (simp add: mr_probe_def Let_def)

lemma map_hops_pass:
  "d \<notin> ma_dest ` set pre \<Longrightarrow>
     map_hops env d sin (pre @ mrs) w = obind (map_hops env d sin mrs w) (\<lambda>(r, w'). Ret (pre @ r, w'))"
proof (induction pre arbitrary: w)
  case Nil
  show ?case by (cases "map_hops env d sin mrs w") auto
next
  case (Cons mr pre)
  then show ?case by (cases "map_hops env d sin mrs w") auto
qed

lemma map_hops_none: "d \<notin> ma_dest ` set mrs \<Longrightarrow> map_hops env d sin mrs w = Ret (mrs, w)"
  using map_hops_pass [of d mrs env sin "[]" w] by simp

lemma map_done_pass:
  "d \<notin> ma_dest ` set pre \<Longrightarrow>
     map_done env d (pre @ mrs) ret w = obind (map_done env d mrs ret w) (\<lambda>(r, x). Ret (pre @ r, x))"
proof (induction pre)
  case Nil
  show ?case by (cases "map_done env d mrs ret w") auto
next
  case (Cons mr pre)
  then show ?case by (cases "map_done env d mrs ret w") auto
qed

lemma map_done_none: "d \<notin> ma_dest ` set mrs \<Longrightarrow> map_done env d mrs ret w = Ret (mrs, ret, w)"
  using map_done_pass [of d mrs env "[]" ret w] by simp


text \<open>The packets a request is answered with, and a run of packets through \<^verbatim>\<open>handle_map\<close>.\<close>

definition exceeded :: "u32 \<Rightarrow> u8 list \<times> int \<times> u32 \<Rightarrow> bool" where
  "exceeded d = (\<lambda>(buf, len, sin).
     let hl = ip_hlen buf; inner = drop (hl + 8) buf in
       icmp_type (drop hl buf) = ICMP_TIME_EXCEEDED \<and> ip_dst inner = d \<and>
       len \<ge> int (hl + 8 + ip_hlen inner + 8))"

definition answered :: "u32 \<Rightarrow> u8 list \<times> int \<times> u32 \<Rightarrow> bool" where
  "answered d = (\<lambda>(buf, len, sin).
     let hl = ip_hlen buf; icmp = drop hl buf in
       icmp_type icmp = ICMP_ECHOREPLY \<and> sin = d \<and> len = int (hl + 8) \<and>
       ip_p buf = IPPROTO_ICMP \<and> (ucast (icmp_seq icmp) :: u8) < MAP_MAX)"

fun receive_all ::
  "map_env \<Rightarrow> (u8 list \<times> int \<times> u32) list \<Rightarrow> ('h, 'z) map_world_scheme \<Rightarrow> ('h, 'z) map_world_scheme outcome" where
  "receive_all env [] w = Ret w"
| "receive_all env ((buf, len, sin) # ps) w =
     obind (handle_map env buf len sin w) (\<lambda>(_, w'). receive_all env ps w')"

abbreviation from_ip :: "u8 list \<times> int \<times> u32 \<Rightarrow> u32" where "from_ip p \<equiv> snd (snd p)"

lemma handle_map_exceeded:
  assumes "exceeded d (buf, len, sin)" "mrq w = pre @ mr # post" "ma_dest mr = d"
    "d \<notin> ma_dest ` set (pre @ post)" "0 < ma_ttl mr" "ma_ttl mr < 60"
    "link_up env (ma_agent mr) s (nw_ev w)" "0 \<le> map_socket w"
  shows "handle_map env buf len sin w = Ret (0, w\<lparr>
    nw_ev := sent_to s [map_event (me_pad env) (ma_np mr) d (ma_last mr) sin] (nw_ev w),
    map_out := map_out w @ [(d, probe_packet env d (ma_ttl mr + 1))],
    mrq := pre @ mr\<lparr>ma_ttl := ma_ttl mr + 1, ma_retries := 1, ma_last := sin, ma_sent := me_time env\<rparr> # post\<rparr>)"
proof -
  have ttl: "ma_ttl mr \<noteq> 0" "ma_ttl mr < MAP_MAX" using assms(5,6) by (auto simp: MAP_MAX_def)
  have "handle_map env buf len sin w =
      obind (map_hops env d sin (mrq w) w) (\<lambda>(mrs, w'). Ret (0, w'\<lparr>mrq := mrs\<rparr>))"
    using assms(1) by (simp add: handle_map_def exceeded_def Let_def ICMP_MINLEN_def)
  moreover have "d \<notin> ma_dest ` set pre" "d \<notin> ma_dest ` set post" using assms(4) by auto
  ultimately show ?thesis
    using assms(2,3,7,8) ttl
    by (simp add: map_hops_pass map_hops_none map_connect_up mr_probe_open)
qed

lemma handle_map_answered:
  assumes "answered d (buf, len, sin)" "mrq w = pre @ mr # post" "ma_dest mr = d"
    "d \<notin> ma_dest ` set (pre @ post)" "0 < ma_ttl mr" "link_up env (ma_agent mr) s (nw_ev w)"
  shows "handle_map env buf len sin w = Ret (1, w\<lparr>
    nw_ev := sent_to s [map_event (me_pad env) (ma_np mr) d (ma_last mr) d] (nw_ev w), mrq := pre @ post\<rparr>)"
proof -
  have "ma_ttl mr \<noteq> 0" "d \<notin> ma_dest ` set pre" "d \<notin> ma_dest ` set post"
    using assms(4,5) by auto
  moreover have "handle_map env buf len sin w =
      obind (map_done env d (mrq w) 0 w) (\<lambda>(mrs, ret, w'). Ret (ret, w'\<lparr>mrq := mrs\<rparr>))"
    using assms(1)
    by (auto simp: handle_map_def answered_def Let_def ICMP_MINLEN_def icmp_types map_last_hop_def)
  ultimately show ?thesis
    using assms(2,3,6) by (simp add: map_done_pass map_done_none map_connect_up)
qed


text \<open>The whole walk, of a request that stands anywhere in the list.\<close>

lemma receive_path:
  assumes "mrq w = pre @ mr # post" "ma_dest mr = d" "d \<notin> ma_dest ` set (pre @ post)"
    "0 < ma_ttl mr" "unat (ma_ttl mr) + length ps \<le> 60" "\<forall>p \<in> set ps. exceeded d p" "answered d q"
    "link_up env (ma_agent mr) s (nw_ev w)" "0 \<le> map_socket w"
  shows "\<exists>w'. receive_all env (ps @ [q]) w = Ret w' \<and> mrq w' = pre @ post \<and>
    nw_ev w' = sent_to s (map (\<lambda>(x, y). map_event (me_pad env) (ma_np mr) d x y)
      (zip (ma_last mr # map from_ip ps) (map from_ip ps @ [d]))) (nw_ev w) \<and>
    map_out w' = map_out w @
      map (\<lambda>k. (d, probe_packet env d (ma_ttl mr + word_of_nat k))) [1..<Suc (length ps)]"
  using assms
proof (induction ps arbitrary: w mr)
  case Nil
  obtain buf len sin where q: "q = (buf, len, sin)" by (cases q)
  with Nil show ?case
    using handle_map_answered [of d buf len sin w pre mr post env s] by simp
next
  case (Cons p ps)
  obtain buf len sin where p: "p = (buf, len, sin)" by (cases p)
  let ?mr = "mr\<lparr>ma_ttl := ma_ttl mr + 1, ma_retries := 1, ma_last := sin, ma_sent := me_time env\<rparr>"
  let ?w = "w\<lparr>nw_ev := sent_to s [map_event (me_pad env) (ma_np mr) d (ma_last mr) sin] (nw_ev w),
    map_out := map_out w @ [(d, probe_packet env d (ma_ttl mr + 1))], mrq := pre @ ?mr # post\<rparr>"
  have ttl: "ma_ttl mr < 60" "unat (ma_ttl mr + 1) = Suc (unat (ma_ttl mr))"
    using Cons.prems(5) by (simp_all add: word_less_nat_alt unat_word_ariths)
  then have pos: "0 < ma_ttl mr + 1" by (simp add: word_less_nat_alt)
  have one: "handle_map env buf len sin w = Ret (0, ?w)"
    by (rule handle_map_exceeded)
      (use Cons.prems(1-4,6,8,9) ttl(1) p in \<open>simp_all add: p\<close>)
  have "\<exists>w'. receive_all env (ps @ [q]) ?w = Ret w' \<and> mrq w' = pre @ post \<and>
    nw_ev w' = sent_to s (map (\<lambda>(x, y). map_event (me_pad env) (ma_np ?mr) d x y)
      (zip (ma_last ?mr # map from_ip ps) (map from_ip ps @ [d]))) (nw_ev ?w) \<and>
    map_out w' = map_out ?w @
      map (\<lambda>k. (d, probe_packet env d (ma_ttl ?mr + word_of_nat k))) [1..<Suc (length ps)]"
    by (rule Cons.IH) (use Cons.prems ttl(2) pos in simp_all)
  moreover have "map (\<lambda>k. (d, probe_packet env d (ma_ttl mr + word_of_nat k))) [1..<Suc (length (p # ps))]
      = (d, probe_packet env d (ma_ttl mr + 1)) #
        map (\<lambda>k. (d, probe_packet env d (ma_ttl mr + 1 + word_of_nat k))) [1..<Suc (length ps)]"
    by (simp add: map_upt_from_1 add.assoc del: upt_Suc)
  ultimately show ?case
    using one p by auto
qed


lemma start_mapping_new:
  assumes "me_localip env d \<noteq> d" "d \<notin> ma_dest ` set (mrq w)" "me_malloc env"
    "0 \<le> map_socket w \<or> 0 \<le> me_socket env \<and> 0 \<le> me_setsockopt env"
  shows "\<exists>w'. start_mapping env d a np w = Ret w' \<and> nw_ev w' = nw_ev w \<and> 0 \<le> map_socket w' \<and>
    map_out w' = map_out w @ [(d, probe_packet env d 1)] \<and>
    mrq w' = \<lparr>ma_np = np, ma_dest = d, ma_last = me_localip env d, ma_ttl = 1, ma_retries = 1,
      ma_sent = me_time env, ma_agent = a\<rparr> # mrq w"
  using assms
  by (auto simp: start_mapping_def Let_def mr_probe_def init_map_socket_def split: prod.splits)

text \<open>Packets to try it on: what a router and the destination send back for a probe.\<close>

definition router_answer :: "u8 list \<Rightarrow> u8 list" where
  "router_answer probe = 0x45 # replicate 19 0 @ [ICMP_TIME_EXCEEDED, 0, 0, 0, 0, 0, 0, 0] @ probe"

definition host_answer :: "u16 \<Rightarrow> u8 list" where
  "host_answer seq = 0x45 # replicate 8 0 @ IPPROTO_ICMP # replicate 10 0 @
     [ICMP_ECHOREPLY, 0, 0, 0, 0, 0] @ be16 seq"

lemma exceeded_router_answer: "exceeded d (router_answer (probe_packet env d ttl), 56, r)"
  by (simp add: exceeded_def router_answer_def ip_hlen_def icmp_type_def ip_dst_def probe_packet_def
      sendicmp_def ip_header_def Let_def)

lemma answered_host_answer: "seq < 60 \<Longrightarrow> answered d (host_answer seq, 28, d)"
  by (simp add: answered_def host_answer_def ip_hlen_def icmp_type_def ip_p_def icmp_seq_def
      Let_def MAP_MAX_def word_less_nat_alt unsigned_ucast_eq take_bit_eq_mod
      nth_append)


section \<open>What is kept\<close>

text \<open>Every request is probed with a ttl of 1 to 60, at most four times with each, and is known once.\<close>

definition mr_ok :: "map_request \<Rightarrow> bool" where
  "mr_ok mr \<longleftrightarrow> 1 \<le> unat (ma_ttl mr) \<and> unat (ma_ttl mr) \<le> 60 \<and> 1 \<le> ma_retries mr \<and> ma_retries mr \<le> 4"

abbreviation mr_key :: "map_request \<Rightarrow> u32 \<times> u64" where "mr_key mr \<equiv> (ma_dest mr, ma_np mr)"

definition mrs_ok :: "map_request list \<Rightarrow> bool" where
  "mrs_ok mrs \<longleftrightarrow> distinct (map mr_key mrs) \<and> (\<forall>mr \<in> set mrs. mr_ok mr)"

lemma mr_probe_facts:
  "mr_probe env mr w = Ret (mr', w') \<Longrightarrow>
     mr' = mr\<lparr>ma_retries := ma_retries mr + 1, ma_sent := me_time env\<rparr> \<and>
     mrq w' = mrq w \<and> nw_ev w' = nw_ev w \<and> length (map_out w') = Suc (length (map_out w))"
  by (auto simp: mr_probe_def init_map_socket_def Let_def split: if_splits)

lemma map_connect_facts:
  "map_connect env a np d x y w = Ret w' \<Longrightarrow> mrq w' = mrq w \<and> map_out w' = map_out w"
  by (auto simp: map_connect_def)

lemma mrs_ok_Cons:
  "mrs_ok (mr # mrs) \<longleftrightarrow> mr_key mr \<notin> mr_key ` set mrs \<and> mr_ok mr \<and> mrs_ok mrs"
  by (auto simp: mrs_ok_def)

lemma map_hops_ok:
  "map_hops env d sin mrs w = Ret (mrs', w') \<Longrightarrow> mrs_ok mrs \<Longrightarrow>
     mrs_ok mrs' \<and> mr_key ` set mrs' \<subseteq> mr_key ` set mrs \<and> mrq w' = mrq w"
proof (induction env d sin mrs w arbitrary: mrs' w' rule: map_hops.induct)
  case (2 env dst sin mr rest w)
  have rest: "mrs_ok rest" and mr: "mr_ok mr" "mr_key mr \<notin> mr_key ` set rest"
    using 2(5) by (simp_all add: mrs_ok_Cons)
  consider (hop) "ma_dest mr = dst \<and> ma_ttl mr \<noteq> 0" "ma_ttl mr < MAP_MAX"
    | (full) "ma_dest mr = dst \<and> ma_ttl mr \<noteq> 0" "\<not> ma_ttl mr < MAP_MAX"
    | (other) "\<not> (ma_dest mr = dst \<and> ma_ttl mr \<noteq> 0)" by blast
  then show ?case
  proof cases
    case hop
    then obtain w1 mr' w2 rest' where c: "map_connect env (ma_agent mr) (ma_np mr) (ma_dest mr) (ma_last mr) sin w = Ret w1"
      and p: "mr_probe env (mr\<lparr>ma_ttl := ma_ttl mr + 1, ma_retries := 0, ma_last := sin\<rparr>) w1 = Ret (mr', w2)"
      and r: "map_hops env dst sin rest w2 = Ret (rest', w')" and m: "mrs' = mr' # rest'"
      using 2(4) by auto
    have IH: "mrs_ok rest' \<and> mr_key ` set rest' \<subseteq> mr_key ` set rest \<and> mrq w' = mrq w2"
      by (rule 2(1) [OF hop r rest])
    have "mr_ok mr'"
      using mr(1) hop(2) mr_probe_facts [OF p]
      by (auto simp: mr_ok_def MAP_MAX_def word_less_nat_alt unat_word_ariths)
    moreover have "mr_key mr' = mr_key mr" using mr_probe_facts [OF p] by simp
    ultimately show ?thesis
      using IH mr(2) mr_probe_facts [OF p] map_connect_facts [OF c] by (auto simp: m mrs_ok_Cons)
  next
    case full
    have "map_hops env dst sin rest w = Ret (mrs', w')" using 2(4) full by simp
    from 2(2) [OF _ _ this rest] full show ?thesis by auto
  next
    case other
    then obtain rest' where r: "map_hops env dst sin rest w = Ret (rest', w')" "mrs' = mr # rest'"
      using 2(4) by (auto split: if_splits)
    from 2(3) [OF other r(1) rest] mr show ?thesis by (auto simp: r(2) mrs_ok_Cons)
  qed
qed simp


lemma map_done_ok:
  "map_done env sin mrs ret w = Ret (mrs', ret', w') \<Longrightarrow> mrs_ok mrs \<Longrightarrow>
     mrs_ok mrs' \<and> mr_key ` set mrs' \<subseteq> mr_key ` set mrs"
proof (induction env sin mrs ret w arbitrary: mrs' ret' w' rule: map_done.induct)
  case (2 env sin mr rest ret w)
  have rest: "mrs_ok rest" and mr: "mr_ok mr" "mr_key mr \<notin> mr_key ` set rest"
    using 2(4) by (simp_all add: mrs_ok_Cons)
  show ?case
  proof (cases "ma_dest mr = sin \<and> ma_ttl mr \<noteq> 0")
    case True
    then obtain w1 where "map_done env sin rest 1 w1 = Ret (mrs', ret', w')" using 2(3) by auto
    from 2(1) [OF True this rest] show ?thesis by auto
  next
    case False
    then obtain rest' where r: "map_done env sin rest ret w = Ret (rest', ret', w')" "mrs' = mr # rest'"
      using 2(3) by (auto split: if_splits)
    from 2(2) [OF False r(1) rest] mr show ?thesis by (auto simp: r(2) mrs_ok_Cons)
  qed
qed simp

lemma map_timeout_loop_ok:
  "map_timeout_loop n env current cnt mrs w = Ret (mrs', w') \<Longrightarrow> mrs_ok mrs \<Longrightarrow>
     mrs_ok mrs' \<and> mr_key ` set mrs' \<subseteq> mr_key ` set mrs"
proof (induction n arbitrary: cnt mrs w mrs' w')
  case (Suc n)
  show ?case
  proof (cases mrs)
    case (Cons mr rest)
    have rest: "mrs_ok rest" and mr: "mr_ok mr" "mr_key mr \<notin> mr_key ` set rest"
      using Suc(3) by (simp_all add: Cons mrs_ok_Cons)
    consider (stop) "mrs' = mrs"
      | (drop) "map_timeout_loop n env current (Suc cnt) rest w = Ret (mrs', w')"
      | (probe) mr' w1 where "ma_retries mr \<le> 3" "mr_probe env mr w = Ret (mr', w1)"
          "map_timeout_loop n env current (Suc cnt) (mr' # rest) w1 = Ret (mrs', w')"
      | (pass) rest' where "map_timeout_loop n env current cnt rest w = Ret (rest', w')" "mrs' = mr # rest'"
      using Suc(2) by (auto simp: Cons MAX_MAP_REQUEST_RETRIES_def not_less split: if_splits)
    then show ?thesis
    proof cases
      case drop
      from Suc.IH [OF drop rest] show ?thesis by (auto simp: Cons)
    next
      case probe
      have "mr_ok mr'" "mr_key mr' = mr_key mr"
        using mr_probe_facts [OF probe(2)] mr(1) probe(1) by (auto simp: mr_ok_def)
      then have "mrs_ok (mr' # rest)" using mr(2) rest by (auto simp: mrs_ok_Cons)
      from Suc.IH [OF probe(3) this] show ?thesis using \<open>mr_key mr' = mr_key mr\<close> by (auto simp: Cons)
    next
      case pass
      from Suc.IH [OF pass(1) rest] mr show ?thesis by (auto simp: pass(2) Cons mrs_ok_Cons)
    qed (use Suc(3) in simp)
  qed (use Suc(2,3) in auto)
qed simp

lemma start_mapping_ok:
  assumes "start_mapping env d a np w = Ret w'" "mrs_ok (mrq w)"
  shows "mrs_ok (mrq w')"
proof (cases "me_localip env d = d \<or> (\<exists>mr \<in> set (mrq w). ma_dest mr = d \<and> np = ma_np mr)")
  case True
  then have "start_mapping env d a np w = Ret w" 
    by (cases "me_localip env d = d") (simp_all add: start_mapping_def Let_def)
  then show ?thesis using assms by simp
next
  case False
  let ?mr = "\<lparr>ma_np = np, ma_dest = d, ma_last = me_localip env d, ma_ttl = 1, ma_retries = 0,
    ma_sent = 0, ma_agent = a\<rparr>"
  from False assms(1) obtain w1 mr' w2 where "mr_probe env ?mr w1 = Ret (mr', w2)" "mrq w1 = mrq w"
    "w' = w2\<lparr>mrq := mr' # mrq w2\<rparr>"
    by (auto simp: start_mapping_def Let_def split: if_splits prod.splits)
  with mr_probe_facts [OF this(1)] False assms(2) show ?thesis
    by (auto simp: mrs_ok_Cons mr_ok_def)
qed

lemma map_last_hop_ok:
  assumes "map_last_hop env buf len sin w = Ret (ret, w')" "mrs_ok (mrq w)"
  shows "mrs_ok (mrq w')"
  using assms map_done_ok [OF _ assms(2), of env sin 0 w]
  by (auto simp: map_last_hop_def Let_def simp del: map_done.simps split: if_splits)

lemma handle_map_ok:
  assumes "handle_map env buf len sin w = Ret (ret, w')" "mrs_ok (mrq w)"
  shows "mrs_ok (mrq w')"
proof -
  consider "w' = w" | buf' len' where "map_last_hop env buf' len' sin w = Ret (ret, w')"
    | d mrs w1 where "map_hops env d sin (mrq w) w = Ret (mrs, w1)" "w' = w1\<lparr>mrq := mrs\<rparr>"
    using assms(1) unfolding handle_map_def Let_def
    by (auto simp del: map_hops.simps split: if_splits)
  then show ?thesis
  proof cases
    case 2
    from map_last_hop_ok [OF 2 assms(2)] show ?thesis .
  next
    case 3
    from map_hops_ok [OF 3(1) assms(2)] show ?thesis by (simp add: 3(2))
  qed (use assms(2) in simp)
qed

lemma map_timeout_ok:
  assumes "map_timeout env w = Ret (r, w')" "mrs_ok (mrq w)"
  shows "mrs_ok (mrq w')"
  using assms map_timeout_loop_ok [of _ env "me_time env" 0 "mrq w" w]
  by (auto simp: map_timeout_def simp del: map_timeout_loop.simps split: if_splits)

text \<open>The states that requests, packets and the timer lead to; other code does not touch \<^verbatim>\<open>mrq\<close>.\<close>

inductive map_reach :: "('h, 'z) map_world_scheme \<Rightarrow> bool" where
  start: "mrq w = [] \<Longrightarrow> map_reach w"
| request: "map_reach w \<Longrightarrow> handle_map_icmp_request env e a w = Ret (r, w') \<Longrightarrow> map_reach w'"
| packet: "map_reach w \<Longrightarrow> handle_map env buf len sin w = Ret (r, w') \<Longrightarrow> map_reach w'"
| timer: "map_reach w \<Longrightarrow> map_timeout env w = Ret (r, w') \<Longrightarrow> map_reach w'"
| other: "map_reach w \<Longrightarrow> mrq w' = mrq w \<Longrightarrow> map_reach w'"

lemma map_reach_ok: "map_reach w \<Longrightarrow> mrs_ok (mrq w)"
proof (induction rule: map_reach.induct)
  case (request w env e a r w')
  then show ?case using start_mapping_ok by (auto simp: handle_map_icmp_request_def)
next
  case (packet w env buf len sin r w')
  from handle_map_ok [OF packet(2,3)] show ?case .
next
  case (timer w env r w')
  from map_timeout_ok [OF timer(2,3)] show ?case .
qed (simp_all add: mrs_ok_def)


text \<open>What the timer means to do: late requests are probed again, or dropped after their fourth probe.\<close>

definition overdue :: "map_env \<Rightarrow> map_request \<Rightarrow> bool" where
  "overdue env mr \<longleftrightarrow> me_time env > ma_sent mr + 10"

definition retransmit :: "map_env \<Rightarrow> map_request list \<Rightarrow> map_request list" where
  "retransmit env mrs =
     map (\<lambda>mr. if overdue env mr then mr\<lparr>ma_retries := ma_retries mr + 1, ma_sent := me_time env\<rparr> else mr)
       (filter (\<lambda>mr. \<not> (overdue env mr \<and> ma_retries mr > 3)) mrs)"

definition retransmitted :: "map_env \<Rightarrow> map_request list \<Rightarrow> (u32 \<times> u8 list) list" where
  "retransmitted env mrs =
     map (\<lambda>mr. (ma_dest mr, probe_packet env (ma_dest mr) (ma_ttl mr)))
       (filter (\<lambda>mr. overdue env mr \<and> ma_retries mr \<le> 3) mrs)"

lemma map_timeout_loop_spec:
  assumes "2 * length xs < n" "cnt + length (filter (overdue env) xs) \<le> 5" "0 \<le> map_socket w"
    "ys = [] \<or> cnt + length (filter (overdue env) xs) = 5 \<and> overdue env (hd ys)"
  shows "map_timeout_loop n env (me_time env) cnt (xs @ ys) w =
    Ret (retransmit env xs @ ys, w\<lparr>map_out := map_out w @ retransmitted env xs\<rparr>)"
  using assms
proof (induction xs arbitrary: n cnt w)
  case Nil
  then obtain k where "n = Suc k" by (cases n) auto
  with Nil show ?case
    by (cases ys)
      (auto simp: overdue_def MAP_REQUEST_TIMEOUT_def MAP_TIMEOUT_MAX_def retransmit_def retransmitted_def)
next
  case (Cons mr xs)
  then obtain k where n: "n = Suc (Suc k)" "2 * length xs < k" by (cases n; cases "n - 1") auto
  let ?mr = "mr\<lparr>ma_retries := ma_retries mr + 1, ma_sent := me_time env\<rparr>"
  let ?w = "w\<lparr>map_out := map_out w @ [(ma_dest mr, probe_packet env (ma_dest mr) (ma_ttl mr))]\<rparr>"
  consider "\<not> overdue env mr" | "overdue env mr" "ma_retries mr > 3" | "overdue env mr" "ma_retries mr \<le> 3"
    by linarith
  then show ?case
  proof cases
    case 1
    with Cons.IH [of "Suc k" cnt w] Cons.prems n show ?thesis
      by (simp add: overdue_def MAP_REQUEST_TIMEOUT_def retransmit_def retransmitted_def del: map_timeout_loop.simps)
        (simp add: overdue_def MAP_REQUEST_TIMEOUT_def map_timeout_loop.simps(2) [of "Suc k"] del: map_timeout_loop.simps)
  next
    case 2
    with Cons.IH [of "Suc k" "Suc cnt" w] Cons.prems n show ?thesis
      by (simp add: overdue_def MAP_REQUEST_TIMEOUT_def MAP_TIMEOUT_MAX_def MAX_MAP_REQUEST_RETRIES_def
          retransmit_def retransmitted_def map_timeout_loop.simps(2) [of "Suc k"] del: map_timeout_loop.simps)
  next
    case 3
    have "map_timeout_loop k env (me_time env) (Suc cnt) (xs @ ys) ?w =
        Ret (retransmit env xs @ ys, ?w\<lparr>map_out := map_out ?w @ retransmitted env xs\<rparr>)"
      by (rule Cons.IH) (use Cons.prems n 3 in auto)
    with 3 Cons.prems n show ?thesis
      by (simp add: overdue_def MAP_REQUEST_TIMEOUT_def MAP_TIMEOUT_MAX_def MAX_MAP_REQUEST_RETRIES_def
          retransmit_def retransmitted_def map_timeout_loop.simps(2) [of "Suc k"]
          map_timeout_loop.simps(2) [of k] mr_probe_open del: map_timeout_loop.simps)
  qed
qed


text \<open>Nothing here touches the state of the theories that extend the world, or the scheduler.\<close>

definition same_rest :: "('h, 'z) map_world_scheme \<Rightarrow> ('h, 'z) map_world_scheme \<Rightarrow> bool" where
  "same_rest w w' \<longleftrightarrow> map_world.more w' = map_world.more w \<and> nw_sched w' = nw_sched w \<and>
     agents (nw_ev w') = agents (nw_ev w) \<and> aheap (nw_ev w') = aheap (nw_ev w)"

lemma event_send_adds:
  assumes "event_send wr a m ev = Ret (r, ev')"
  shows "\<exists>x. ev' = ev\<lparr>ev_sent := ev_sent ev @ x\<rparr>"
proof (cases "a \<in> set (agents ev)")
  case True
  then show ?thesis using assms unfolding event_send_def Let_def by auto
next
  case False
  then have "ev' = ev\<lparr>ev_sent := ev_sent ev @ []\<rparr>" using assms by (simp add: event_send_def)
  then show ?thesis by blast
qed

lemma map_connect_rest:
  assumes "map_connect env a np d x y w = Ret w'"
  shows "same_rest w w'"
proof -
  obtain r ev where e: "event_send (me_write env) a (map_event (me_pad env) np d x y) (nw_ev w) = Ret (r, ev)"
    "w' = w\<lparr>nw_ev := ev\<rparr>" using assms by (auto simp: map_connect_def)
  from event_send_adds [OF e(1)] show ?thesis by (auto simp: e(2) same_rest_def)
qed

lemma mr_probe_rest: "mr_probe env mr w = Ret (mr', w') \<Longrightarrow> same_rest w w'"
  by (auto simp: mr_probe_def init_map_socket_def same_rest_def Let_def split: if_splits)

lemma same_rest_trans: "same_rest w w1 \<Longrightarrow> same_rest w1 w2 \<Longrightarrow> same_rest w w2"
  by (simp add: same_rest_def)

lemma same_rest_mrq [simp]: "same_rest w (w'\<lparr>mrq := mrs\<rparr>) = same_rest w w'"
  by (simp add: same_rest_def)

lemma map_hops_rest: "map_hops env d sin mrs w = Ret (mrs', w') \<Longrightarrow> same_rest w w'"
proof (induction env d sin mrs w arbitrary: mrs' w' rule: map_hops.induct)
  case (2 env dst sin mr rest w)
  show ?case
  proof (cases "ma_dest mr = dst \<and> ma_ttl mr \<noteq> 0")
    case True
    show ?thesis
    proof (cases "ma_ttl mr < MAP_MAX")
      case hop: True
      then obtain w1 mr' w2 rest' where "map_connect env (ma_agent mr) (ma_np mr) (ma_dest mr) (ma_last mr) sin w = Ret w1"
        "mr_probe env (mr\<lparr>ma_ttl := ma_ttl mr + 1, ma_retries := 0, ma_last := sin\<rparr>) w1 = Ret (mr', w2)"
        and r: "map_hops env dst sin rest w2 = Ret (rest', w')"
        using 2(4) True by auto
      from map_connect_rest [OF this(1)] mr_probe_rest [OF this(2)] 2(1) [OF True hop r]
      show ?thesis by (blast intro: same_rest_trans)
    next
      case False
      with True 2(4) have "map_hops env dst sin rest w = Ret (mrs', w')" by simp
      from 2(2) [OF True False this] show ?thesis .
    qed
  next
    case False
    then obtain rest' where "map_hops env dst sin rest w = Ret (rest', w')" using 2(4) by (auto split: if_splits)
    from 2(3) [OF False this] show ?thesis .
  qed
qed (simp add: same_rest_def)

lemma map_done_rest: "map_done env sin mrs ret w = Ret (mrs', ret', w') \<Longrightarrow> same_rest w w'"
proof (induction env sin mrs ret w arbitrary: mrs' ret' w' rule: map_done.induct)
  case (2 env sin mr rest ret w)
  show ?case
  proof (cases "ma_dest mr = sin \<and> ma_ttl mr \<noteq> 0")
    case True
    then obtain w1 where c: "map_connect env (ma_agent mr) (ma_np mr) (ma_dest mr) (ma_last mr) sin w = Ret w1"
      and r: "map_done env sin rest 1 w1 = Ret (mrs', ret', w')" using 2(3) by auto
    from same_rest_trans [OF map_connect_rest [OF c] 2(1) [OF True r]] show ?thesis .
  next
    case False
    then obtain rest' where "map_done env sin rest ret w = Ret (rest', ret', w')"
      using 2(3) by (auto split: if_splits)
    from 2(2) [OF False this] show ?thesis .
  qed
qed (simp add: same_rest_def)

lemma map_last_hop_rest: "map_last_hop env buf len sin w = Ret (ret, w') \<Longrightarrow> same_rest w w'"
  using map_done_rest [of env sin "mrq w" 0 w]
  by (auto simp: map_last_hop_def Let_def same_rest_def simp del: map_done.simps split: if_splits)

lemma handle_map_rest:
  assumes "handle_map env buf len sin w = Ret (ret, w')"
  shows "same_rest w w'"
proof -
  consider "w' = w" | buf' len' where "map_last_hop env buf' len' sin w = Ret (ret, w')"
    | d mrs w1 where "map_hops env d sin (mrq w) w = Ret (mrs, w1)" "w' = w1\<lparr>mrq := mrs\<rparr>"
    using assms unfolding handle_map_def Let_def
    by (auto simp del: map_hops.simps split: if_splits)
  then show ?thesis
  proof cases
    case 2
    from map_last_hop_rest [OF 2] show ?thesis .
  next
    case 3
    from map_hops_rest [OF 3(1)] show ?thesis by (simp add: 3(2))
  qed (simp add: same_rest_def)
qed

section \<open>Properties\<close>

definition map_demo_env :: "int \<Rightarrow> map_env" where
  "map_demo_env t = \<lparr>me_write = \<lambda>_ bs. int (length bs), me_localip = \<lambda>_. 0x0100000A, me_pid = 77,
     me_time = t, me_socket = 9, me_setsockopt = 0, me_malloc = True, me_sched_mem = None,
     me_now = None, me_pad = [0, 0, 0, 0]\<rparr>"

definition map_demo_agent :: agent where
  "map_demo_agent = \<lparr>ag_type = AGENT_TYPE_LOCAL, ag_id = None, ag_s = 5, ag_buffer = [], ag_write = 0,
     ag_expected = 0, ag_flags = 0, ag_more = MORE_NULL\<rparr>"

definition map_demo :: "map_request list \<Rightarrow> int map_world" where
  "map_demo mrs = \<lparr>nw_ev = ev_init\<lparr>agents := [1], aheap := [1 \<mapsto> map_demo_agent]\<rparr>,
     nw_sched = sched_init, mrq = mrs, map_socket = -1, timeout_installed = 0, map_out = []\<rparr>"

lemma link_up_demo: "link_up (map_demo_env t) 1 5 (nw_ev (map_demo mrs))"
  by (simp add: link_up_def map_demo_def map_demo_env_def map_demo_agent_def)

text \<open>
  C15. A mapped path is reported link by link: after a map request for \<open>d\<close>, the answers of
  fewer than sixty routers and then of \<open>d\<close>, the agent has been sent exactly the links from the
  local address through the routers to \<open>d\<close>, in order and with the request's pointer; the probes
  had the ttls 1, 2, and so on, and the request is gone.
\<close>

theorem map_path_links:
  assumes "me_localip env d \<noteq> d" "d \<notin> ma_dest ` set (mrq w)" "me_malloc env"
    "0 \<le> map_socket w \<or> 0 \<le> me_socket env \<and> 0 \<le> me_setsockopt env"
    "link_up env a s (nw_ev w)" "length pad = 4"
    "\<forall>p \<in> set ps. exceeded d p" "length ps < 60" "answered d q"
  shows "\<exists>w1 w2. handle_map_icmp_request env (be32 d @ pad @ ptr_bytes np) a w = Ret (0, w1)
    \<and> receive_all env (ps @ [q]) w1 = Ret w2 \<and> mrq w2 = mrq w
    \<and> ev_sent (nw_ev w2) = ev_sent (nw_ev w) @ map (\<lambda>(x, y). (s, map_event (me_pad env) np d x y))
        (zip (me_localip env d # map from_ip ps) (map from_ip ps @ [d]))
    \<and> map_out w2 = map_out w @
        map (\<lambda>k. (d, probe_packet env d (word_of_nat k))) [1..<length ps + 2]"
proof -
  obtain w1 where w1: "start_mapping env d a np w = Ret w1" "nw_ev w1 = nw_ev w" "0 \<le> map_socket w1"
    "map_out w1 = map_out w @ [(d, probe_packet env d 1)]"
    "mrq w1 = [] @ \<lparr>ma_np = np, ma_dest = d, ma_last = me_localip env d, ma_ttl = 1, ma_retries = 1,
       ma_sent = me_time env, ma_agent = a\<rparr> # mrq w"
    using start_mapping_new [OF assms(1-4)] by auto
  have "handle_map_icmp_request env (be32 d @ pad @ ptr_bytes np) a w = Ret (0, w1)"
    using w1(1) assms(6) by (simp add: handle_map_icmp_request_def)
  moreover have "map (\<lambda>k. (d, probe_packet env d (word_of_nat k))) [1..<length ps + 2]
      = (d, probe_packet env d 1) # map (\<lambda>k. (d, probe_packet env d (1 + word_of_nat k))) [1..<Suc (length ps)]"
    by (simp add: map_upt_from_1 del: upt_Suc)
  ultimately show ?thesis
    using receive_path [OF w1(5), of d ps q env s] w1 assms(2,5,7-9)
    by (auto simp: comp_def split_def)
qed

theorem map_path_links_witness:
  "\<exists>w1 w2. handle_map_icmp_request (map_demo_env 50) (be32 0x0900000A @ [0, 0, 0, 0] @ ptr_bytes 3) 1 (map_demo [])
      = Ret (0, w1)
    \<and> receive_all (map_demo_env 50)
        ([(router_answer (probe_packet (map_demo_env 50) 0x0900000A 1), 56, 0x0500000A)] @
         [(host_answer 2, 28, 0x0900000A)]) w1 = Ret w2
    \<and> mrq w2 = []
    \<and> ev_sent (nw_ev w2) = [(5, map_event [0, 0, 0, 0] 3 0x0900000A 0x0100000A 0x0500000A),
        (5, map_event [0, 0, 0, 0] 3 0x0900000A 0x0500000A 0x0900000A)]"
  using map_path_links [of "map_demo_env 50" "0x0900000A" "map_demo []" 1 5 "[0, 0, 0, 0]"
      "[(router_answer (probe_packet (map_demo_env 50) 0x0900000A 1), 56, 0x0500000A)]"
      "(host_answer 2, 28, 0x0900000A)" 3]
    exceeded_router_answer answered_host_answer [of 2 "0x0900000A"] link_up_demo [of 50 "[]"]
  by (auto simp: map_demo_def map_demo_env_def ev_init_def)

text \<open>
  C16. Whatever requests, packets and timeouts come in, mapping stays bounded: no destination is
  known twice for one pointer, every ttl is from 1 to 60, and every request has been
  probed at least once and at most four times at its ttl.
\<close>

theorem map_requests_bounded:
  assumes "map_reach w"
  shows "distinct (map mr_key (mrq w)) \<and> (\<forall>mr \<in> set (mrq w). mr_ok mr)"
  using map_reach_ok [OF assms] by (simp add: mrs_ok_def)

theorem map_requests_bounded_witness:
  "\<exists>w :: int map_world. handle_map_icmp_request (map_demo_env 50) (be32 0x0900000A @ [0, 0, 0, 0] @ ptr_bytes 3) 1
       (map_demo []) = Ret (0, w) \<and> length (mrq w) = 1 \<and> (\<forall>mr \<in> set (mrq w). mr_ok mr)"
proof -
  have start: "map_reach (map_demo [])" by (rule map_reach.start) (simp add: map_demo_def)
  obtain w where w: "handle_map_icmp_request (map_demo_env 50) (be32 0x0900000A @ [0, 0, 0, 0] @ ptr_bytes 3) 1
       (map_demo []) = Ret (0, w)" "length (mrq w) = 1"
    using start_mapping_new [of "map_demo_env 50" "0x0900000A" "map_demo []" 1 3]
    by (auto simp: map_demo_def map_demo_env_def handle_map_icmp_request_def)
  with map_requests_bounded [OF map_reach.request [OF start w(1)]] show ?thesis by blast
qed

text \<open>
  C17. The timer always returns, and acts on the late requests in order until it has seen five:
  of these it probes again those with at most three retries and drops the others;
  every other request is as before.
\<close>

theorem map_timeout_spec:
  assumes "mrq w = xs @ ys" "mrq w \<noteq> []" "0 \<le> map_socket w" "length (filter (overdue env) xs) \<le> 5"
    "ys = [] \<or> length (filter (overdue env) xs) = 5 \<and> overdue env (hd ys)"
  shows "map_timeout env w = Ret (1, w\<lparr>map_out := map_out w @ retransmitted env xs,
    mrq := retransmit env xs @ ys\<rparr>)"
  using map_timeout_loop_spec [of xs "2 * length (mrq w) + 1" 0 env w ys] assms
  by (simp add: map_timeout_def del: map_timeout_loop.simps)


theorem map_timeout_spec_witness:
  "map_timeout (map_demo_env 50) ((map_demo [\<lparr>ma_np = 3, ma_dest = 9, ma_last = 1, ma_ttl = 2,
       ma_retries = 1, ma_sent = 20, ma_agent = 1\<rparr>])\<lparr>map_socket := 9\<rparr>) =
     Ret (1, (map_demo [\<lparr>ma_np = 3, ma_dest = 9, ma_last = 1, ma_ttl = 2, ma_retries = 2,
       ma_sent = 50, ma_agent = 1\<rparr>])\<lparr>map_socket := 9, map_out := [(9, probe_packet (map_demo_env 50) 9 2)]\<rparr>)"
  using map_timeout_spec [of "(map_demo [\<lparr>ma_np = 3, ma_dest = 9, ma_last = 1, ma_ttl = 2,
       ma_retries = 1, ma_sent = 20, ma_agent = 1\<rparr>])\<lparr>map_socket := 9\<rparr>"
      "[\<lparr>ma_np = 3, ma_dest = 9, ma_last = 1, ma_ttl = 2, ma_retries = 1, ma_sent = 20, ma_agent = 1\<rparr>]" "[]"
      "map_demo_env 50"]
  by (simp add: map_demo_def overdue_def retransmit_def retransmitted_def map_demo_env_def)

end
