(* ===== verification/Discover.thy ===== *)
theory Discover
  imports Agent_Map Cache
begin

text \<open>
  Discovery of hosts, \<^verbatim>\<open>agent-discover.c\<close> and \<^verbatim>\<open>agent-settings.c\<close>: a queue of address ranges, each
  pinged one address at a time by a timer callback, which skips cached addresses and starts
  over for every retry; and the receive side of the socket, which route mapping shares.

  An address in network byte order is what the wire and \<^verbatim>\<open>sin_addr\<close> hold; \<^verbatim>\<open>current\<close> is in host
  order, so that it can be counted up. A queue entry is an allocated cell whose pointer travels
  through the pinged host and is looked up before it is used. The address cache, the
  scheduler, the agents and the map requests are those of their theories; registering the socket
  in the descriptor table is recorded. Arguments are, beside those of
  \<^theory_text>\<open>Agent_Map\<close>: what \<^verbatim>\<open>getprotobyname\<close> and \<^verbatim>\<open>socket\<close> answer, what \<^verbatim>\<open>sendto\<close> returns (by the
  number of pings out and of failures in this call), the clock, and \<^verbatim>\<open>malloc\<close>.
\<close>

section \<open>State\<close>

definition PING_TIMEOUT_INTERVAL :: u32 where "PING_TIMEOUT_INTERVAL = 3000"
definition PING_INTERVAL :: int where "PING_INTERVAL = 78"

record ping_q =
  pq_start :: u32
  pq_end :: u32
  pq_current :: u32
  pq_desched :: u32
  pq_retry :: u32
  pq_flags :: u32
  pq_np :: u64
  pq_time :: u32
  pq_a :: nat

record 'h ping_world = "'h map_world" +
  pingQ :: "u64 list"
  pheap :: "u64 \<Rightarrow> ping_q option"
  ping_socket :: int
  ping_retries :: u32
  ping_cache :: "u32 cache_state"
  ping_io :: "int list"
  ping_out :: "(u32 \<times> u8 list) list"

record ping_env =
  pe_map :: map_env
  pe_proto :: bool
  pe_socket :: int
  pe_sendto :: "nat \<Rightarrow> nat \<Rightarrow> int"
  pe_tv :: timeval
  pe_malloc :: "u64 option"
  pe_cache_mem :: bool

section \<open>Requests\<close>

text \<open>The error reply, whose two numbers stay in host order.\<close>

definition discover_error :: "cstring \<Rightarrow> u8 list" where
  "discover_error text =
     mk_event REPLY_ERROR 0 (le16 99 @ le16 (word_of_nat (length text)) @ map byte_of_char text)"

definition discover_timer ::
  "ping_env \<Rightarrow> int \<Rightarrow> u64 \<Rightarrow> ('h, 'z) ping_world_scheme \<Rightarrow> int \<times> ('h, 'z) ping_world_scheme" where
  "discover_timer env ms p w =
     (let (i, s) = cheops_sched_add (me_sched_mem (pe_map env)) (me_now (pe_map env)) ms PING_SEND
                     (Some p) (nw_sched w)
      in (i, w\<lparr>nw_sched := s\<rparr>))"

definition handle_discover_request ::
  "ping_env \<Rightarrow> event_hdr \<Rightarrow> u8 list \<Rightarrow> nat \<Rightarrow> ('h, 'z) ping_world_scheme
     \<Rightarrow> (int \<times> ('h, 'z) ping_world_scheme) outcome" where
  "handle_discover_request env h e a w =
     (let start = of_be32 e; last = of_be32 (drop 4 e);
          err = (if bswap32 start > bswap32 last then Some (''Start is larger than Finish'' @ [CHR 0x0A])
                 else if start = 0 \<or> last = 0 then Some (''Can'' @ [CHR 0x27] @ ''t Discover 0.0.0.0'' @ [CHR 0x0A])
                 else None)
      in case err of
           Some text \<Rightarrow>
             obind (event_send (me_write (pe_map env)) a (discover_error text) (nw_ev w)) (\<lambda>(res, ev).
               Ret (if res < 0 then -1 else 0, w\<lparr>nw_ev := ev\<rparr>))
         | None \<Rightarrow>
             (case pe_malloc env of
                None \<Rightarrow> Exit 1
              | Some p \<Rightarrow>
                  let q = \<lparr>pq_start = start, pq_end = last, pq_current = bswap32 start, pq_desched = 0,
                           pq_retry = 0, pq_flags = bswap32 (h_flags h), pq_np = ptr_of (drop 16 e),
                           pq_time = 0, pq_a = a\<rparr>;
                      (i, w1) = discover_timer env 1 p (w\<lparr>pingQ := p # pingQ w\<rparr>)
                  in Ret (-1, w1\<lparr>pheap := (pheap w1)(p \<mapsto> q\<lparr>pq_desched := word_of_int i\<rparr>)\<rparr>)))"

definition remove_ping_q :: "u64 \<Rightarrow> ('h, 'z) ping_world_scheme \<Rightarrow> int \<times> ('h, 'z) ping_world_scheme" where
  "remove_ping_q p w =
     (if p \<in> set (pingQ w)
      then (1, w\<lparr>pingQ := remove1 p (pingQ w), pheap := (pheap w)(p := None)\<rparr>)
      else (0, w))"

definition in_ping_q :: "u64 \<Rightarrow> ('h, 'z) ping_world_scheme \<Rightarrow> bool" where
  "in_ping_q p w \<longleftrightarrow> p \<in> set (pingQ w)"

definition in_ping_q_range :: "u64 \<Rightarrow> u32 \<Rightarrow> ('h, 'z) ping_world_scheme \<Rightarrow> bool outcome" where
  "in_ping_q_range p ip w =
     (if in_ping_q p w
      then obind (deref (pheap w) p) (\<lambda>q.
             Ret (bswap32 ip \<le> bswap32 (pq_end q) \<and> bswap32 ip \<ge> bswap32 (pq_start q)))
      else Ret False)"

definition discover_reply :: "u8 list \<Rightarrow> ping_q \<Rightarrow> u32 \<Rightarrow> u8 list" where
  "discover_reply pad q ip =
     mk_event REPLY_DISCOVER_IPV4 (bswap32 (pq_flags q)) (be32 ip @ pad @ ptr_bytes (pq_np q))"

definition send_discover_reply ::
  "ping_env \<Rightarrow> u32 \<Rightarrow> ping_q \<Rightarrow> ('h, 'z) ping_world_scheme
     \<Rightarrow> (int \<times> ('h, 'z) ping_world_scheme) outcome" where
  "send_discover_reply env ip q w =
     obind (event_send (me_write (pe_map env)) (pq_a q) (discover_reply (me_pad (pe_map env)) q ip) (nw_ev w))
       (\<lambda>(res, ev). Ret (if res < 0 then 0 else 1, w\<lparr>nw_ev := ev\<rparr>))"

section \<open>Receiving\<close>

definition handle_ping_recieve ::
  "ping_env \<Rightarrow> u8 list \<Rightarrow> int \<Rightarrow> u32 \<Rightarrow> ('h, 'z) ping_world_scheme
     \<Rightarrow> (int \<times> ('h, 'z) ping_world_scheme) outcome" where
  "handle_ping_recieve env buf len sin w =
     (let hlen = ip_hlen buf; icmp = drop hlen buf; p = ptr_of (drop 8 icmp) in
      if len < int (hlen + ICMP_MINLEN) then Ret (1, w)
      else
        obind (handle_map (pe_map env) buf len sin w) (\<lambda>(m, w1).
        if m \<noteq> 0 then Ret (1, w1)
        else if icmp_type icmp = ICMP_TIME_EXCEEDED \<or> icmp_type icmp = ICMP_DEST_UNREACH then Ret (1, w1)
        else if icmp_type icmp \<noteq> ICMP_ECHOREPLY then Ret (1, w1)
        else
          obind (in_ping_q_range p sin w1) (\<lambda>ok.
          if \<not> ok then Ret (1, w1)
          else
            obind (add_to_cache (pe_cache_mem env) (pe_tv env) sin False (ping_cache w1)) (\<lambda>(_, c).
            obind (deref (pheap w1) p) (\<lambda>q.
            obind (send_discover_reply env sin q (w1\<lparr>ping_cache := c\<rparr>)) (\<lambda>(_, w2). Ret (1, w2)))))))"

section \<open>Pinging\<close>

text \<open>
  The packet: the pointer is copied over the identifier and the sequence number, which the
  four bytes before the second copy keep, and once more behind them.
\<close>

definition ping_bytes :: "u64 \<Rightarrow> u16 \<Rightarrow> u8 list" where
  "ping_bytes p csum = [ICMP_ECHO, 0] @ le16 csum @ take 4 (ptr_bytes p) @ ptr_bytes p"

definition ping_packet :: "u64 \<Rightarrow> u8 list" where
  "ping_packet p = ping_bytes p (inet_checksum (ping_bytes p 0))"

definition ping_broadcast :: "u32 \<Rightarrow> bool" where
  "ping_broadcast to \<longleftrightarrow>
     (if IP_CLASSA to \<and> IP_CLASSA_BROADCAST to then True
      else if IP_CLASSB to \<and> IP_CLASSB_BROADCAST to then True
      else IP_CLASSC to \<and> IP_CLASSC_BROADCAST to)"

definition ping_open :: "ping_env \<Rightarrow> ('h, 'z) ping_world_scheme \<Rightarrow> ('h, 'z) ping_world_scheme outcome" where
  "ping_open env w =
     (if ping_socket w < 0
      then if \<not> pe_proto env then Exit 1
           else if pe_socket env < 0 then Exit 1
           else Ret (w\<lparr>ping_socket := pe_socket env, ping_io := ping_io w @ [pe_socket env]\<rparr>)
      else Ret w)"

text \<open>
  What one pass of the loop body does with the current address: whether \<^verbatim>\<open>continue\<close> skips
  the advance, the new \<^verbatim>\<open>sent_something\<close> and \<^verbatim>\<open>negative_retry\<close>, and the world.
\<close>

definition ping_address ::
  "ping_env \<Rightarrow> u64 \<Rightarrow> ping_q \<Rightarrow> bool \<Rightarrow> nat \<Rightarrow> ('h, 'z) ping_world_scheme
     \<Rightarrow> (bool \<times> bool \<times> nat \<times> ('h, 'z) ping_world_scheme) outcome" where
  "ping_address env p q something neg w =
     (if pq_flags q AND FLAG_FORCE \<noteq> 0 \<or> in_cache (bswap32 (pq_current q)) (ping_cache w) = 0
      then
        obind (ping_open env w) (\<lambda>w1.
        let to = bswap32 (pq_current q) in
        if ping_broadcast to then Ret (False, something, neg, w1)
        else
          let sent = pe_sendto env (length (ping_out w1)) neg in
          if sent < 0
          then if neg < 4 then Ret (True, False, Suc neg, w1) else Ret (False, True, Suc neg, w1)
          else Ret (False, True, neg, w1\<lparr>ping_out := ping_out w1 @ [(to, ping_packet p)]\<rparr>))
      else if pq_retry q = 0
      then obind (send_discover_reply env (bswap32 (pq_current q)) q w) (\<lambda>(_, w1).
             Ret (False, something, neg, w1))
      else Ret (False, something, neg, w))"

definition ping_advance :: "ping_q \<Rightarrow> ping_q" where
  "ping_advance q =
     (if pq_current q = bswap32 (pq_end q)
      then q\<lparr>pq_current := bswap32 (pq_start q), pq_retry := pq_retry q + 1\<rparr>
      else q\<lparr>pq_current := pq_current q + 1\<rparr>)"

text \<open>
  The loop, which ends with the entry when the retries have expired and else with the entry
  advanced past the address that was pinged. It has no bound of its own and takes fuel.
\<close>

fun ping_loop ::
  "nat \<Rightarrow> ping_env \<Rightarrow> u64 \<Rightarrow> ping_q \<Rightarrow> nat \<Rightarrow> ('h, 'z) ping_world_scheme
     \<Rightarrow> (ping_q option \<times> ('h, 'z) ping_world_scheme) outcome" where
  "ping_loop 0 env p q neg w = NoFuel"
| "ping_loop (Suc n) env p q neg w =
     (if pq_retry q > ping_retries w then Ret (None, snd (remove_ping_q p w))
      else
        obind (ping_address env p q False neg w) (\<lambda>(cont, something, neg', w').
        let q' = (if cont then q else ping_advance q) in
        if something then Ret (Some q', w') else ping_loop n env p q' neg' w'))"

text \<open>The unsigned number of milliseconds of a time; the conversions wrap.\<close>

definition ping_ms :: "timeval \<Rightarrow> u32" where
  "ping_ms tv = word_of_int (tv_sec tv) * 1000 + word_of_int (to_int32 (tv_usec tv) sdiv 1000)"

text \<open>The wait at the end of the range; its test \<^verbatim>\<open>time < 0\<close> is one of an unsigned number.\<close>

definition ping_wait :: "u32 \<Rightarrow> ping_q \<Rightarrow> u32 \<Rightarrow> u32" where
  "ping_wait retries q ms =
     (if pq_retry q > retries then PING_TIMEOUT_INTERVAL
      else if pq_time q = 0 then PING_TIMEOUT_INTERVAL
      else if ms - pq_time q > PING_TIMEOUT_INTERVAL then 1
      else if ms - pq_time q \<le> 0 then ms - pq_time q + PING_TIMEOUT_INTERVAL
      else - ms + pq_time q + PING_TIMEOUT_INTERVAL)"

definition ping_send ::
  "nat \<Rightarrow> ping_env \<Rightarrow> u64 \<Rightarrow> ('h, 'z) ping_world_scheme \<Rightarrow> (int \<times> ('h, 'z) ping_world_scheme) outcome" where
  "ping_send fuel env p w =
     obind (deref (pheap w) p) (\<lambda>q.
     obind (ping_loop fuel env p q 0 w) (\<lambda>(r, w1).
       case r of
         None \<Rightarrow> Ret (0, w1)
       | Some q1 \<Rightarrow>
           if pq_current q1 = bswap32 (pq_end q1)
           then Ret (0, snd (discover_timer env
                  (to_int32 (uint (ping_wait (ping_retries w1) q1 (ping_ms (pe_tv env))))) p
                  (w1\<lparr>pheap := (pheap w1)(p \<mapsto> q1)\<rparr>)))
           else if pq_current q1 = bswap32 (pq_start q1)
           then Ret (0, snd (discover_timer env PING_INTERVAL p
                  (w1\<lparr>pheap := (pheap w1)(p \<mapsto> q1\<lparr>pq_time := ping_ms (pe_tv env)\<rparr>)\<rparr>)))
           else Ret (1, w1\<lparr>pheap := (pheap w1)(p \<mapsto> q1)\<rparr>)))"

section \<open>Settings\<close>

definition SET_DISCOVER_RETRIES :: u32 where "SET_DISCOVER_RETRIES = 1"

text \<open>\<^verbatim>\<open>handle_set_settings\<close>; both fields are read in host order.\<close>

definition handle_set_settings ::
  "u8 list \<Rightarrow> ('h, 'z) ping_world_scheme \<Rightarrow> int \<times> ('h, 'z) ping_world_scheme" where
  "handle_set_settings e w =
     (if of_le32 e AND SET_DISCOVER_RETRIES \<noteq> 0 then (0, w\<lparr>ping_retries := of_le32 (drop 4 e)\<rparr>)
      else (0, w))"


section \<open>The work that is left\<close>

text \<open>
  The abstraction of an entry: the rounds and addresses it still has to look at, up to the
  retries \<open>rt\<close>. The loop takes them off one by one.
\<close>

definition todo :: "nat \<Rightarrow> ping_q \<Rightarrow> (nat \<times> u32) list" where
  "todo rt q =
     (let s = unat (bswap32 (pq_start q)); e = unat (bswap32 (pq_end q)) in
      if unat (pq_retry q) > rt then []
      else map (\<lambda>k. (unat (pq_retry q), word_of_nat k)) [unat (pq_current q)..<Suc e] @
           concat (map (\<lambda>r. map (\<lambda>k. (r, word_of_nat k)) [s..<Suc e]) [Suc (unat (pq_retry q))..<Suc rt]))"

definition pq_ok :: "ping_q \<Rightarrow> bool" where
  "pq_ok q \<longleftrightarrow> bswap32 (pq_start q) \<le> pq_current q \<and> pq_current q \<le> bswap32 (pq_end q)"

lemma todo_expired: "unat (pq_retry q) > rt \<Longrightarrow> todo rt q = []"
  by (simp add: todo_def)

lemma todo_advance:
  assumes "pq_ok q" "unat (pq_retry q) \<le> rt" "rt < 2 ^ 32 - 1"
  shows "pq_ok (ping_advance q)"
    "todo rt q = (unat (pq_retry q), pq_current q) # todo rt (ping_advance q)"
proof -
  let ?c = "pq_current q" and ?e = "bswap32 (pq_end q)" and ?s = "bswap32 (pq_start q)"
  let ?r = "unat (pq_retry q)"
  have ce: "unat ?c \<le> unat ?e" "unat ?s \<le> unat ?c"
    using assms(1) by (simp_all add: pq_ok_def word_le_nat_alt)
  have r: "unat (pq_retry q + 1) = Suc ?r"
    using assms(2,3) by (simp add: unat_word_ariths)
  show "pq_ok (ping_advance q)"
  proof (cases "?c = ?e")
    case False
    then have "unat ?c < unat ?e" using ce(1) by (metis nat_less_le unsigned_word_eqI)
    then have "unat (?c + 1) = Suc (unat ?c)" using unsigned_less [of ?e, where ?'a = nat]
      by (simp add: unat_word_ariths)
    with False \<open>unat ?c < unat ?e\<close> ce show ?thesis
      by (simp add: pq_ok_def ping_advance_def word_le_nat_alt)
  qed (use ce in \<open>simp add: pq_ok_def ping_advance_def word_le_nat_alt\<close>)
  show "todo rt q = (?r, ?c) # todo rt (ping_advance q)"
  proof (cases "?c = ?e")
    case True
    have "[Suc ?r..<Suc rt] = (if ?r = rt then [] else Suc ?r # [Suc (Suc ?r)..<Suc rt])"
      using assms(2) by (simp add: upt_conv_Cons del: upt_Suc)
    then show ?thesis
      using True assms(2) r
      by (auto simp: todo_def ping_advance_def Let_def simp del: upt_Suc split: if_splits)
        (simp_all add: upt_conv_Cons)
  next
    case False
    then have "unat ?c < unat ?e" using ce(1) by (metis nat_less_le unsigned_word_eqI)
    then have "unat (?c + 1) = Suc (unat ?c)" using unsigned_less [of ?e, where ?'a = nat]
      by (simp add: unat_word_ariths)
    moreover have "[unat ?c..<Suc (unat ?e)] = unat ?c # [Suc (unat ?c)..<Suc (unat ?e)]"
      using \<open>unat ?c < unat ?e\<close> by (simp add: upt_conv_Cons del: upt_Suc)
    ultimately show ?thesis
      using False assms(2) by (simp add: todo_def ping_advance_def Let_def del: upt_Suc)
  qed
qed


lemma ping_advance_simps [simp]:
  "pq_start (ping_advance q) = pq_start q" "pq_end (ping_advance q) = pq_end q"
  "pq_flags (ping_advance q) = pq_flags q" "pq_np (ping_advance q) = pq_np q"
  "pq_a (ping_advance q) = pq_a q" "pq_time (ping_advance q) = pq_time q"
  by (simp_all add: ping_advance_def)

section \<open>A run in which everything is delivered\<close>

text \<open>
  The pings and the replies that a list of work stands for, when the addresses \<open>known\<close> are
  cached, and the environments in which nothing fails.
\<close>

definition force :: "ping_q \<Rightarrow> bool" where "force q \<longleftrightarrow> pq_flags q AND FLAG_FORCE \<noteq> 0"

definition pings :: "u64 \<Rightarrow> bool \<Rightarrow> u32 cache_state \<Rightarrow> (nat \<times> u32) list \<Rightarrow> (u32 \<times> u8 list) list" where
  "pings p fo c items = map (\<lambda>(r, a). (bswap32 a, ping_packet p))
     (filter (\<lambda>(r, a). (fo \<or> in_cache (bswap32 a) c = 0) \<and> \<not> ping_broadcast (bswap32 a)) items)"

definition replies :: "u8 list \<Rightarrow> ping_q \<Rightarrow> u32 cache_state \<Rightarrow> (nat \<times> u32) list \<Rightarrow> u8 list list" where
  "replies pad q c items = map (\<lambda>(r, a). discover_reply pad q (bswap32 a))
     (filter (\<lambda>(r, a). \<not> force q \<and> in_cache (bswap32 a) c \<noteq> 0 \<and> r = 0) items)"

definition ping_ideal :: "ping_env \<Rightarrow> nat \<Rightarrow> int \<Rightarrow> ('h, 'z) ping_world_scheme \<Rightarrow> bool" where
  "ping_ideal env a s w \<longleftrightarrow> link_up (pe_map env) a s (nw_ev w) \<and> (\<forall>i j. 0 \<le> pe_sendto env i j) \<and>
     (0 \<le> ping_socket w \<or> pe_proto env \<and> 0 \<le> pe_socket env)"

lemma pings_Cons: "pings p fo c (x # xs) = pings p fo c [x] @ pings p fo c xs"
  and replies_Cons: "replies pad q c (x # xs) = replies pad q c [x] @ replies pad q c xs"
  by (simp_all add: pings_def replies_def)

lemma pings_append: "pings p fo c (xs @ ys) = pings p fo c xs @ pings p fo c ys"
  and replies_append: "replies pad q c (xs @ ys) = replies pad q c xs @ replies pad q c ys"
  by (simp_all add: pings_def replies_def)

lemma replies_cong:
  "pq_flags q' = pq_flags q \<Longrightarrow> pq_np q' = pq_np q \<Longrightarrow> replies pad q' c xs = replies pad q c xs"
  by (simp add: replies_def discover_reply_def force_def)

text \<open>What a step of the loop leaves alone, and what it adds.\<close>

definition ping_step :: "ping_env \<Rightarrow> u64 \<Rightarrow> ping_q \<Rightarrow> int \<Rightarrow> (nat \<times> u32) list
     \<Rightarrow> ('h, 'z) ping_world_scheme \<Rightarrow> ('h, 'z) ping_world_scheme \<Rightarrow> bool" where
  "ping_step env p q s items w w' \<longleftrightarrow>
     nw_ev w' = sent_to s (replies (me_pad (pe_map env)) q (ping_cache w) items) (nw_ev w) \<and>
     ping_out w' = ping_out w @ pings p (force q) (ping_cache w) items \<and>
     ping_cache w' = ping_cache w \<and> ping_retries w' = ping_retries w \<and>
     (0 \<le> ping_socket w \<longrightarrow> 0 \<le> ping_socket w')"

lemma ping_step_refl: "ping_step env p q s [] w w"
  by (simp add: ping_step_def pings_def replies_def)

lemma ping_step_trans:
  assumes "ping_step env p q s [x] w w1" "ping_step env p q' s xs w1 w2"
    "pq_flags q' = pq_flags q" "pq_np q' = pq_np q"
  shows "ping_step env p q s (x # xs) w w2"
  using assms pings_Cons [of p _ _ x xs] replies_Cons [of _ q _ x xs]
  by (simp add: ping_step_def replies_cong [OF assms(3,4)] force_def)

lemma ping_step_ideal: "ping_step env p q s items w w' \<Longrightarrow> ping_ideal env' a s w \<Longrightarrow> ping_ideal env' a s w'"
  by (auto simp: ping_step_def ping_ideal_def)

lemma send_discover_reply_up:
  assumes "link_up (pe_map env) (pq_a q) s (nw_ev w)"
  shows "send_discover_reply env ip q w =
    Ret (1, w\<lparr>nw_ev := sent_to s [discover_reply (me_pad (pe_map env)) q ip] (nw_ev w)\<rparr>)"
  using event_send_up [OF assms, of "be32 ip @ me_pad (pe_map env) @ ptr_bytes (pq_np q)"] assms
  by (simp add: send_discover_reply_def discover_reply_def link_up_def)

lemma ping_address_ideal:
  assumes "ping_ideal env (pq_a q) s w"
  shows "\<exists>something w'. ping_address env p q False 0 w = Ret (False, something, 0, w') \<and>
    ping_step env p q s [(unat (pq_retry q), pq_current q)] w w' \<and>
    pingQ w' = pingQ w \<and> pheap w' = pheap w \<and> nw_sched w' = nw_sched w"
proof (cases "force q \<or> in_cache (bswap32 (pq_current q)) (ping_cache w) = 0")
  case True
  obtain w1 where w1: "ping_open env w = Ret w1" "nw_ev w1 = nw_ev w" "ping_out w1 = ping_out w"
    "ping_cache w1 = ping_cache w" "ping_retries w1 = ping_retries w" "0 \<le> ping_socket w1"
    "pingQ w1 = pingQ w" "pheap w1 = pheap w" "nw_sched w1 = nw_sched w"
  proof (rule that [of "if ping_socket w < 0
        then w\<lparr>ping_socket := pe_socket env, ping_io := ping_io w @ [pe_socket env]\<rparr> else w"])
  qed (use assms in \<open>auto simp: ping_open_def ping_ideal_def\<close>)
  have s: "0 \<le> pe_sendto env (length (ping_out w)) 0" using assms by (simp add: ping_ideal_def)
  show ?thesis
    using True w1 s
    by (cases "ping_broadcast (bswap32 (pq_current q))")
      (auto simp: ping_address_def force_def ping_step_def pings_def replies_def Let_def)
next
  case False
  then show ?thesis
    using assms send_discover_reply_up [of env q s w "bswap32 (pq_current q)"]
    by (cases "pq_retry q = 0")
      (auto simp: ping_address_def force_def ping_step_def pings_def replies_def ping_ideal_def unat_eq_0)
qed


lemma ping_loop_ideal:
  assumes "length (todo (unat (ping_retries w)) q) < n" "ping_ideal env (pq_a q) s w" "pq_ok q"
    "unat (ping_retries w) < 2 ^ 32 - 1"
  shows "\<exists>items r w'. ping_loop n env p q 0 w = Ret (r, w') \<and> ping_step env p q s items w w' \<and>
    nw_sched w' = nw_sched w \<and>
    (case r of
       None \<Rightarrow> items = todo (unat (ping_retries w)) q \<and> pingQ w' = remove1 p (pingQ w)
     | Some q' \<Rightarrow> items \<noteq> [] \<and> todo (unat (ping_retries w)) q = items @ todo (unat (ping_retries w)) q' \<and>
         pq_ok q' \<and> pq_a q' = pq_a q \<and> pq_flags q' = pq_flags q \<and> pq_np q' = pq_np q \<and> pq_time q' = pq_time q \<and>
         pingQ w' = pingQ w)"
  using assms
proof (induction n arbitrary: q w)
  case (Suc n)
  let ?t = "todo (unat (ping_retries w))"
  show ?case
  proof (cases "pq_retry q > ping_retries w")
    case True
    then have "?t q = []" by (simp add: todo_expired word_less_nat_alt)
    with True show ?thesis
      by (auto intro!: exI [of _ "[]"] simp: remove_ping_q_def ping_step_def pings_def replies_def
          remove1_idem)
  next
    case False
    then have le: "unat (pq_retry q) \<le> unat (ping_retries w)" by (simp add: word_le_nat_alt not_less)
    note adv = todo_advance [OF Suc.prems(3) le Suc.prems(4)]
    obtain something w1 where one: "ping_address env p q False 0 w = Ret (False, something, 0, w1)"
      "ping_step env p q s [(unat (pq_retry q), pq_current q)] w w1"
      "pingQ w1 = pingQ w" "nw_sched w1 = nw_sched w"
      using ping_address_ideal [OF Suc.prems(2)] by blast
    have rt: "ping_retries w1 = ping_retries w" using one(2) by (simp add: ping_step_def)
    show ?thesis
    proof (cases something)
      case True
      then have "ping_loop (Suc n) env p q 0 w = Ret (Some (ping_advance q), w1)"
        using False one(1) by simp
      then show ?thesis using one adv by (intro exI [of _ "[(unat (pq_retry q), pq_current q)]"]) auto
    next
      case go: False
      have "length (todo (unat (ping_retries w1)) (ping_advance q)) < n"
        using Suc.prems(1) adv(2) rt by simp
      note IH = Suc.IH [OF this, unfolded ping_advance_simps rt, OF ping_step_ideal [OF one(2) Suc.prems(2)]
          adv(1) Suc.prems(4)]
      obtain items r w' where rest: "ping_loop n env p (ping_advance q) 0 w1 = Ret (r, w')"
        "ping_step env p (ping_advance q) s items w1 w'" "nw_sched w' = nw_sched w1"
        "case r of None \<Rightarrow> items = ?t (ping_advance q) \<and> pingQ w' = remove1 p (pingQ w1)
          | Some q' \<Rightarrow> items \<noteq> [] \<and> ?t (ping_advance q) = items @ ?t q' \<and> pq_ok q' \<and>
              pq_a q' = pq_a q \<and> pq_flags q' = pq_flags q \<and> pq_np q' = pq_np q \<and> pq_time q' = pq_time q \<and> pingQ w' = pingQ w1"
        using IH by blast
      have "ping_step env p q s ((unat (pq_retry q), pq_current q) # items) w w'"
        by (rule ping_step_trans [OF one(2) rest(2)]) simp_all
      moreover have "ping_loop (Suc n) env p q 0 w = Ret (r, w')" using False one(1) go rest(1) by simp
      ultimately show ?thesis
        using rest(3,4) one(3,4) adv(2)
        by (intro exI [of _ "(unat (pq_retry q), pq_current q) # items"]) (auto split: option.splits)
    qed
  qed
qed simp


lemma discover_timer_simps [simp]:
  "nw_ev (snd (discover_timer env ms p w)) = nw_ev w"
  "pingQ (snd (discover_timer env ms p w)) = pingQ w"
  "pheap (snd (discover_timer env ms p w)) = pheap w"
  "ping_out (snd (discover_timer env ms p w)) = ping_out w"
  "ping_cache (snd (discover_timer env ms p w)) = ping_cache w"
  "ping_retries (snd (discover_timer env ms p w)) = ping_retries w"
  "ping_socket (snd (discover_timer env ms p w)) = ping_socket w"
  by (simp_all add: discover_timer_def split_def Let_def)

lemma ping_step_update:
  "nw_ev w2 = nw_ev w1 \<Longrightarrow> ping_out w2 = ping_out w1 \<Longrightarrow> ping_cache w2 = ping_cache w1 \<Longrightarrow>
   ping_retries w2 = ping_retries w1 \<Longrightarrow> ping_socket w2 = ping_socket w1 \<Longrightarrow>
   ping_step env p q s items w w1 \<Longrightarrow> ping_step env p q s items w w2"
  by (simp add: ping_step_def)

lemma ping_send_ideal:
  assumes "pheap w p = Some q" "length (todo (unat (ping_retries w)) q) < n"
    "ping_ideal env (pq_a q) s w" "pq_ok q" "unat (ping_retries w) < 2 ^ 32 - 1"
  shows "\<exists>items ret w'. ping_send n env p w = Ret (ret, w') \<and> ping_step env p q s items w w' \<and>
    (items = todo (unat (ping_retries w)) q \<and> pingQ w' = remove1 p (pingQ w) \<or>
     (\<exists>q'. items \<noteq> [] \<and> todo (unat (ping_retries w)) q = items @ todo (unat (ping_retries w)) q' \<and>
        pq_ok q' \<and> pq_a q' = pq_a q \<and> pq_flags q' = pq_flags q \<and> pq_np q' = pq_np q \<and>
        pq_time q' \<in> {pq_time q, ping_ms (pe_tv env)} \<and>
        pingQ w' = pingQ w \<and> pheap w' p = Some q'))"
proof -
  obtain items r w1 where l: "ping_loop n env p q 0 w = Ret (r, w1)" "ping_step env p q s items w w1"
    "case r of
       None \<Rightarrow> items = todo (unat (ping_retries w)) q \<and> pingQ w1 = remove1 p (pingQ w)
     | Some q' \<Rightarrow> items \<noteq> [] \<and> todo (unat (ping_retries w)) q = items @ todo (unat (ping_retries w)) q' \<and>
         pq_ok q' \<and> pq_a q' = pq_a q \<and> pq_flags q' = pq_flags q \<and> pq_np q' = pq_np q \<and> pq_time q' = pq_time q \<and>
         pingQ w1 = pingQ w"
    using ping_loop_ideal [OF assms(2-5)] by blast
  show ?thesis
  proof (cases r)
    case None
    then show ?thesis
      using l assms(1) by (auto simp: ping_send_def deref_def intro!: exI [of _ items])
  next
    case (Some q1)
    let ?t = "q1\<lparr>pq_time := ping_ms (pe_tv env)\<rparr>"
    have t: "todo rt ?t = todo rt q1" "pq_ok ?t = pq_ok q1" for rt
      by (simp_all add: todo_def pq_ok_def Let_def)
    have "\<exists>ret w' q'. ping_send n env p w = Ret (ret, w') \<and> (q' = q1 \<or> q' = ?t) \<and>
      pheap w' p = Some q' \<and> nw_ev w' = nw_ev w1 \<and> ping_out w' = ping_out w1 \<and> pingQ w' = pingQ w1 \<and>
      ping_cache w' = ping_cache w1 \<and> ping_retries w' = ping_retries w1 \<and> ping_socket w' = ping_socket w1"
    proof -
      have "ping_send n env p w =
        (if pq_current q1 = bswap32 (pq_end q1)
         then Ret (0, snd (discover_timer env
                  (to_int32 (uint (ping_wait (ping_retries w1) q1 (ping_ms (pe_tv env))))) p
                  (w1\<lparr>pheap := (pheap w1)(p \<mapsto> q1)\<rparr>)))
         else if pq_current q1 = bswap32 (pq_start q1)
         then Ret (0, snd (discover_timer env PING_INTERVAL p (w1\<lparr>pheap := (pheap w1)(p \<mapsto> ?t)\<rparr>)))
         else Ret (1, w1\<lparr>pheap := (pheap w1)(p \<mapsto> q1)\<rparr>))"
        using l(1) assms(1) unfolding Some ping_send_def by (simp add: deref_def)
      then consider
          "ping_send n env p w = Ret (0, snd (discover_timer env
             (to_int32 (uint (ping_wait (ping_retries w1) q1 (ping_ms (pe_tv env))))) p
             (w1\<lparr>pheap := (pheap w1)(p \<mapsto> q1)\<rparr>)))"
        | "ping_send n env p w =
             Ret (0, snd (discover_timer env PING_INTERVAL p (w1\<lparr>pheap := (pheap w1)(p \<mapsto> ?t)\<rparr>)))"
        | "ping_send n env p w = Ret (1, w1\<lparr>pheap := (pheap w1)(p \<mapsto> q1)\<rparr>)"
        by presburger
      then show ?thesis
      proof cases
        case 1
        show ?thesis by (rule exI, rule exI, rule exI [of _ q1], rule conjI, rule 1) simp
      next
        case 2
        show ?thesis by (rule exI, rule exI, rule exI [of _ ?t], rule conjI, rule 2) simp
      next
        case 3
        show ?thesis by (rule exI, rule exI, rule exI [of _ q1], rule conjI, rule 3) simp
      qed
    qed
    then obtain ret w' q' where w': "ping_send n env p w = Ret (ret, w')" "q' = q1 \<or> q' = ?t"
      "pheap w' p = Some q'" "nw_ev w' = nw_ev w1" "ping_out w' = ping_out w1" "pingQ w' = pingQ w1"
      "ping_cache w' = ping_cache w1" "ping_retries w' = ping_retries w1" "ping_socket w' = ping_socket w1"
      by blast
    have "ping_step env p q s items w w'"
      by (rule ping_step_update [OF _ _ _ _ _ l(2)]) (use w' in simp_all)
    moreover have "todo rt q' = todo rt q1" "pq_ok q' = pq_ok q1" "pq_a q' = pq_a q1"
        "pq_flags q' = pq_flags q1" "pq_np q' = pq_np q1"
        "pq_time q' \<in> {pq_time q1, ping_ms (pe_tv env)}" for rt
      using w'(2) t by auto
    ultimately show ?thesis using w' l(3) Some by auto
  qed
qed


lemma todo_new:
  assumes "pq_current q = bswap32 (pq_start q)" "pq_retry q = 0"
  shows "todo rt q = concat (map (\<lambda>r. map (\<lambda>k. (r, word_of_nat k))
    [unat (bswap32 (pq_start q))..<Suc (unat (bswap32 (pq_end q)))]) [0..<Suc rt])"
  using assms by (simp add: todo_def Let_def upt_conv_Cons [of 0 "Suc rt"] del: upt_Suc)


section \<open>A run in which sending may fail\<close>

definition ping_can :: "ping_env \<Rightarrow> nat \<Rightarrow> ('h, 'z) ping_world_scheme \<Rightarrow> bool" where
  "ping_can env a w \<longleftrightarrow> (a \<in> set (agents (nw_ev w)) \<longrightarrow> aheap (nw_ev w) a \<noteq> None) \<and>
     (0 \<le> ping_socket w \<or> pe_proto env \<and> 0 \<le> pe_socket env)"

lemma event_send_total:
  "(a \<in> set (agents ev) \<longrightarrow> aheap ev a \<noteq> None) \<Longrightarrow>
     \<exists>r ev'. event_send wr a m ev = Ret (r, ev') \<and> agents ev' = agents ev \<and> aheap ev' = aheap ev"
  by (cases "a \<in> set (agents ev)"; cases "aheap ev a")
    (simp_all add: event_send_def deref_def Let_def del: obind_Ret_iff deref_Ret)

lemma send_discover_reply_total:
  assumes "ping_can env (pq_a q) w"
  shows "\<exists>r w'. send_discover_reply env ip q w = Ret (r, w') \<and> ping_can env (pq_a q) w' \<and>
    ping_retries w' = ping_retries w"
proof -
  obtain r ev where "event_send (me_write (pe_map env)) (pq_a q) (discover_reply (me_pad (pe_map env)) q ip)
      (nw_ev w) = Ret (r, ev)" "agents ev = agents (nw_ev w)" "aheap ev = aheap (nw_ev w)"
    using event_send_total assms unfolding ping_can_def by blast
  then show ?thesis using assms by (simp add: send_discover_reply_def ping_can_def)
qed

lemma ping_address_total:
  assumes "ping_can env (pq_a q) w"
  shows "\<exists>cont something neg' w'. ping_address env p q False neg w = Ret (cont, something, neg', w') \<and>
    ping_can env (pq_a q) w' \<and> ping_retries w' = ping_retries w \<and>
    (cont \<longrightarrow> neg < 4 \<and> neg' = Suc neg \<and> \<not> something) \<and> (\<not> cont \<and> \<not> something \<longrightarrow> neg' = neg)"
proof (cases "pq_flags q AND FLAG_FORCE \<noteq> 0 \<or> in_cache (bswap32 (pq_current q)) (ping_cache w) = 0")
  case True
  obtain w1 where "ping_open env w = Ret w1" "ping_can env (pq_a q) w1" "ping_retries w1 = ping_retries w"
  proof (rule that [of "if ping_socket w < 0
        then w\<lparr>ping_socket := pe_socket env, ping_io := ping_io w @ [pe_socket env]\<rparr> else w"])
  qed (use assms in \<open>auto simp: ping_open_def ping_can_def\<close>)
  then show ?thesis
    using True by (auto simp: ping_address_def Let_def ping_can_def)
next
  case False
  then show ?thesis
    using assms send_discover_reply_total [OF assms, of "bswap32 (pq_current q)"]
    by (cases "pq_retry q = 0") (auto simp: ping_address_def)
qed

lemma ping_loop_total:
  assumes "length (todo (unat (ping_retries w)) q) + (4 - neg) < n" "ping_can env (pq_a q) w" "pq_ok q"
    "unat (ping_retries w) < 2 ^ 32 - 1"
  shows "\<exists>r w'. ping_loop n env p q neg w = Ret (r, w')"
  using assms
proof (induction n arbitrary: q neg w)
  case (Suc n)
  show ?case
  proof (cases "pq_retry q > ping_retries w")
    case False
    then have le: "unat (pq_retry q) \<le> unat (ping_retries w)" by (simp add: word_le_nat_alt not_less)
    note adv = todo_advance [OF Suc.prems(3) le Suc.prems(4)]
    obtain cont something neg' w1 where one: "ping_address env p q False neg w = Ret (cont, something, neg', w1)"
      "ping_can env (pq_a q) w1" "ping_retries w1 = ping_retries w"
      "cont \<longrightarrow> neg < 4 \<and> neg' = Suc neg \<and> \<not> something" "\<not> cont \<and> \<not> something \<longrightarrow> neg' = neg"
      using ping_address_total [OF Suc.prems(2)] by metis
    let ?q = "if cont then q else ping_advance q"
    have "\<exists>r w'. ping_loop n env p ?q neg' w1 = Ret (r, w')" if "\<not> something"
      by (rule Suc.IH) (use Suc.prems one adv that in auto)
    then show ?thesis using False one(1) by auto
  qed simp
qed simp

section \<open>Being called again\<close>

lemma ping_address_frame:
  "ping_address env p q x neg w = Ret (c, y, neg', w') \<Longrightarrow>
     nw_sched w' = nw_sched w \<and> ping_retries w' = ping_retries w \<and> pingQ w' = pingQ w \<and> pheap w' = pheap w"
  by (auto simp: ping_address_def ping_open_def send_discover_reply_def Let_def split: if_splits)

lemma ping_loop_frame:
  "ping_loop n env p q neg w = Ret (r, w') \<Longrightarrow>
     nw_sched w' = nw_sched w \<and> ping_retries w' = ping_retries w \<and>
     pingQ w' = (if r = None then remove1 p (pingQ w) else pingQ w)"
proof (induction n arbitrary: q neg w)
  case (Suc n)
  show ?case
  proof (cases "pq_retry q > ping_retries w")
    case True
    then show ?thesis using Suc.prems by (auto simp: remove_ping_q_def remove1_idem)
  next
    case False
    then obtain c y neg' w1 where one: "ping_address env p q False neg w = Ret (c, y, neg', w1)"
      and rest: "y \<and> r \<noteq> None \<and> w' = w1 \<or>
        ping_loop n env p (if c then q else ping_advance q) neg' w1 = Ret (r, w')"
      using Suc.prems by (auto simp: Let_def split: if_splits)
    show ?thesis using rest ping_address_frame [OF one] Suc.IH by metis
  qed
qed simp

lemma sched_add_pending:
  assumes "ms \<noteq> 0"
  shows "\<exists>s. mset (schedq (snd (cheops_sched_add (Some m) (Some t) ms c d st))) = add_mset s (mset (schedq st)) \<and>
    sd_callback s = c \<and> sd_data s = d"
  using assms
  by (auto simp: cheops_sched_add_def sched_alloc_def sched_settime_def schedule_def Let_def split: list.splits)

lemma ping_wait_alt:
  "ping_wait rt q ms =
     (if pq_retry q > rt \<or> pq_time q = 0 then 3000
      else if ms - pq_time q > 3000 then 1 else 3000 - (ms - pq_time q))"
proof -
  have "- ms + pq_time q + 3000 = 3000 - (ms - pq_time q)" by simp
  moreover have "ms - pq_time q \<le> 0 \<longleftrightarrow> ms = pq_time q" by simp
  ultimately show ?thesis by (simp add: ping_wait_def PING_TIMEOUT_INTERVAL_def)
qed

lemma to_int32_small: "d \<le> 3000 \<Longrightarrow> to_int32 (uint (3000 - d)) = 0 \<longleftrightarrow> d = (3000 :: u32)"
proof -
  assume d: "d \<le> 3000"
  then have sub: "uint (3000 - d) = 3000 - uint d"
    using uint_sub_lem [of d 3000] by (simp add: word_le_def)
  have r: "0 \<le> uint d" "uint d \<le> 3000" using d by (simp_all add: word_le_def)
  then have "to_int32 (3000 - uint d) = 3000 - uint d" by (intro to_int32_id) linarith+
  moreover have "uint d = 3000 \<longleftrightarrow> d = 3000" by (simp add: word_uint_eq_iff)
  ultimately show ?thesis using sub by simp
qed

lemma ping_wait_zero:
  "to_int32 (uint (ping_wait rt q ms)) = 0 \<longleftrightarrow>
     pq_retry q \<le> rt \<and> pq_time q \<noteq> 0 \<and> ms - pq_time q = 3000"
  using to_int32_small [of "ms - pq_time q"]
  by (auto simp: ping_wait_alt to_int32_id not_less not_le)


text \<open>
  No discovery is lost but in one case: after a call of the timer that keeps its entry,
  either it returns 1 and is repeated, or it has set a new timer for the entry; only when
  exactly 3000 ms have passed at the last address it does neither, and the entry stays
  in the queue forever.
\<close>

theorem ping_send_continues:
  assumes "ping_send n env p w = Ret (r, w')" "p \<in> set (pingQ w')" "distinct (pingQ w)"
    "me_sched_mem (pe_map env) = Some m" "me_now (pe_map env) = Some t"
  shows "\<exists>q. pheap w' p = Some q \<and>
    (if pq_current q = bswap32 (pq_end q) \<and> pq_retry q \<le> ping_retries w' \<and> pq_time q \<noteq> 0 \<and>
        ping_ms (pe_tv env) - pq_time q = 3000
     then r = 0 \<and> nw_sched w' = nw_sched w
     else r = 1 \<and> nw_sched w' = nw_sched w \<or>
       r = 0 \<and> (\<exists>sd. mset (schedq (nw_sched w')) = add_mset sd (mset (schedq (nw_sched w))) \<and>
         sd_callback sd = PING_SEND \<and> sd_data sd = Some p))"
proof -
  obtain q0 x w1 where q0: "pheap w p = Some q0" and l: "ping_loop n env p q0 0 w = Ret (x, w1)"
    using assms(1) by (auto simp: ping_send_def)
  note fr = ping_loop_frame [OF l]
  have "x \<noteq> None"
  proof
    assume "x = None"
    then have "pingQ w' = remove1 p (pingQ w)" using assms(1) q0 l fr by (simp add: ping_send_def deref_def)
    then show False using assms(2,3) by simp
  qed
  then obtain q where x: "x = Some q" by blast
  have timer: "\<exists>sd. mset (schedq (nw_sched (snd (discover_timer env ms p (w1\<lparr>pheap := h\<rparr>))))) =
      add_mset sd (mset (schedq (nw_sched w))) \<and> sd_callback sd = PING_SEND \<and> sd_data sd = Some p"
    if "ms \<noteq> 0" for ms h
    using sched_add_pending [OF that, of m t PING_SEND "Some p" "nw_sched w"] assms(4,5) fr
    by (simp add: discover_timer_def split_def Let_def)
  have zero: "nw_sched (snd (discover_timer env 0 p (w1\<lparr>pheap := h\<rparr>))) = nw_sched w" for h
    using fr by (simp add: discover_timer_def cheops_sched_add_def)
  let ?ms = "to_int32 (uint (ping_wait (ping_retries w1) q (ping_ms (pe_tv env))))"
  have eq: "ping_send n env p w =
      (if pq_current q = bswap32 (pq_end q)
       then Ret (0, snd (discover_timer env ?ms p (w1\<lparr>pheap := (pheap w1)(p \<mapsto> q)\<rparr>)))
       else if pq_current q = bswap32 (pq_start q)
       then Ret (0, snd (discover_timer env PING_INTERVAL p
              (w1\<lparr>pheap := (pheap w1)(p \<mapsto> q\<lparr>pq_time := ping_ms (pe_tv env)\<rparr>)\<rparr>)))
       else Ret (1, w1\<lparr>pheap := (pheap w1)(p \<mapsto> q)\<rparr>))"
    using l q0 unfolding x ping_send_def by (simp add: deref_def)
  show ?thesis
  proof (cases "pq_current q = bswap32 (pq_end q)")
    case True
    then have "r = 0" "w' = snd (discover_timer env ?ms p (w1\<lparr>pheap := (pheap w1)(p \<mapsto> q)\<rparr>))"
      using assms(1) eq by simp_all
    moreover obtain ms where ms: "ms = ?ms" by blast
    moreover have "ms = 0 \<longleftrightarrow> pq_retry q \<le> ping_retries w1 \<and> pq_time q \<noteq> 0 \<and>
        ping_ms (pe_tv env) - pq_time q = 3000" unfolding ms by (rule ping_wait_zero)
    ultimately show ?thesis
      using True timer [of ms] zero fr by (cases "ms = 0") auto
  next
    case False
    then show ?thesis
    proof (cases "pq_current q = bswap32 (pq_start q)")
      case True
      then have "r = 0" "w' = snd (discover_timer env PING_INTERVAL p
          (w1\<lparr>pheap := (pheap w1)(p \<mapsto> q\<lparr>pq_time := ping_ms (pe_tv env)\<rparr>)\<rparr>))"
        using assms(1) eq False by simp_all
      then show ?thesis using False timer [of PING_INTERVAL] by (simp add: PING_INTERVAL_def)
    qed (use assms(1) eq fr in auto)
  qed
qed

section \<open>The timer of an entry\<close>

text \<open>
  The turn of \<^verbatim>\<open>cheops_sched_runq\<close> for a timer of \<^verbatim>\<open>ping_send\<close>: the timer is off the queue while the
  callback runs, and goes back with its old period if the callback returns non-zero.
\<close>

definition ping_timer_cb ::
  "nat \<Rightarrow> ping_env \<Rightarrow> (agent_timer, u64 option, ('h, 'z) ping_world_scheme outcome) callback_sem" where
  "ping_timer_cb fuel env c d s =
     (case (s, d) of
        ((st, Ret w), Some p) \<Rightarrow>
          (case ping_send fuel env p (w\<lparr>nw_sched := st\<rparr>) of
             Ret (r, w') \<Rightarrow> (r, nw_sched w', Ret w')
           | Exit n \<Rightarrow> (0, st, Exit n) | UB \<Rightarrow> (0, st, UB) | NoFuel \<Rightarrow> (0, st, NoFuel))
      | ((st, e), _) \<Rightarrow> (0, st, e))"

definition ping_timer :: "u64 \<Rightarrow> (agent_timer, u64 option) sched \<Rightarrow> bool" where
  "ping_timer p s \<longleftrightarrow> sd_callback s = PING_SEND \<and> sd_data s = Some p"

definition ping_turn ::
  "nat \<Rightarrow> ping_env \<Rightarrow> u64 \<Rightarrow> (agent_timer, u64 option) sched \<Rightarrow> ('h, 'z) ping_world_scheme
     \<Rightarrow> ('h, 'z) ping_world_scheme outcome" where
  "ping_turn fuel env p s w =
     (let st = nw_sched w;
          (st', e) = runq_one (\<lambda>e. (me_now (pe_map env), e)) (ping_timer_cb fuel env) s
            (st\<lparr>schedq := remove_first (ping_timer p) (schedq st), schedcnt := schedcnt st - 1\<rparr>, Ret w)
      in obind e (\<lambda>w'. Ret (w'\<lparr>nw_sched := st'\<rparr>)))"

text \<open>
  One discovery on its own: the turns of its timer, each in its own environment, as long as the
  queue holds a timer for the entry. Without one nothing ever calls \<^verbatim>\<open>ping_send\<close> for it again.
\<close>

fun ping_run ::
  "nat \<Rightarrow> nat \<Rightarrow> (nat \<Rightarrow> ping_env) \<Rightarrow> u64 \<Rightarrow> ('h, 'z) ping_world_scheme \<Rightarrow> ('h, 'z) ping_world_scheme outcome" where
  "ping_run 0 fuel es p w = NoFuel"
| "ping_run (Suc n) fuel es p w =
     (case find (ping_timer p) (schedq (nw_sched w)) of
        None \<Rightarrow> Ret w
      | Some s \<Rightarrow>
          obind (ping_turn fuel (es 0) p s w) (\<lambda>w'. ping_run n fuel (\<lambda>k. es (Suc k)) p w'))"

definition timers_of :: "u64 \<Rightarrow> ('h, 'z) ping_world_scheme \<Rightarrow> (agent_timer, u64 option) sched multiset" where
  "timers_of p w = filter_mset (ping_timer p) (mset (schedq (nw_sched w)))"

lemma find_SomeD: "find P xs = Some x \<Longrightarrow> x \<in> set xs \<and> P x"
  by (induction xs) (auto split: if_splits)

lemma find_timer:
  "timers_of p w = {#s#} \<Longrightarrow> find (ping_timer p) (schedq (nw_sched w)) = Some s"
  "timers_of p w = {#} \<Longrightarrow> find (ping_timer p) (schedq (nw_sched w)) = None"
proof -
  have mem: "s' \<in># timers_of p w" if "find (ping_timer p) (schedq (nw_sched w)) = Some s'" for s'
    using find_SomeD [OF that] by (simp add: timers_of_def)
  show "find (ping_timer p) (schedq (nw_sched w)) = Some s" if t: "timers_of p w = {#s#}"
  proof (cases "find (ping_timer p) (schedq (nw_sched w))")
    case None
    have "s \<in># timers_of p w" by (simp add: t)
    then show ?thesis using None by (auto simp: timers_of_def find_None_iff)
  next
    case (Some s')
    then show ?thesis using mem t by auto
  qed
  show "find (ping_timer p) (schedq (nw_sched w)) = None" if t: "timers_of p w = {#}"
    using mem t by (cases "find (ping_timer p) (schedq (nw_sched w))") auto
qed

text \<open>The entry that has just been left without a timer.\<close>

definition ping_stuck :: "u32 \<Rightarrow> ping_env \<Rightarrow> ping_q \<Rightarrow> bool" where
  "ping_stuck rt env q \<longleftrightarrow> pq_current q = bswap32 (pq_end q) \<and> pq_retry q \<le> rt \<and> pq_time q \<noteq> 0 \<and>
     ping_ms (pe_tv env) - pq_time q = 3000"

lemma ping_send_gone:
  assumes "ping_send n env p w = Ret (r, w')" "p \<in> set (pingQ w)" "p \<notin> set (pingQ w')"
  shows "r = 0 \<and> nw_sched w' = nw_sched w"
proof -
  obtain q x w1 where q: "pheap w p = Some q" and l: "ping_loop n env p q 0 w = Ret (x, w1)"
    using assms(1) by (auto simp: ping_send_def)
  note fr = ping_loop_frame [OF l]
  show ?thesis
  proof (cases x)
    case None
    then show ?thesis using assms(1) q l fr by (simp add: ping_send_def deref_def)
  next
    case (Some q1)
    then have "pingQ w' = pingQ w"
      using assms(1) q l fr by (auto simp: ping_send_def deref_def split: if_splits)
    then show ?thesis using assms(2,3) by simp
  qed
qed

text \<open>A turn does what is left of the work, and the queue then holds a timer for the rest.\<close>

lemma ping_turn_ideal:
  assumes "pheap w p = Some q" "length (todo (unat (ping_retries w)) q) < fuel"
    "ping_ideal env (pq_a q) s w" "pq_ok q" "unat (ping_retries w) < 2 ^ 32 - 1"
    and Q: "p \<in> set (pingQ w)" "distinct (pingQ w)" and sd: "timers_of p w = {#sd#}"
    and mem: "me_sched_mem (pe_map env) = Some m" "me_now (pe_map env) = Some t"
  shows "\<exists>items w'. ping_turn fuel env p sd w = Ret w' \<and> ping_step env p q s items w w' \<and>
    (items = todo (unat (ping_retries w)) q \<and> pingQ w' = remove1 p (pingQ w) \<and> timers_of p w' = {#} \<or>
     (\<exists>q'. items \<noteq> [] \<and> todo (unat (ping_retries w)) q = items @ todo (unat (ping_retries w)) q' \<and>
        pq_ok q' \<and> pq_a q' = pq_a q \<and> pq_flags q' = pq_flags q \<and> pq_np q' = pq_np q \<and>
        pq_time q' \<in> {pq_time q, ping_ms (pe_tv env)} \<and>
        pingQ w' = pingQ w \<and> pheap w' p = Some q' \<and>
        ((\<exists>sd'. timers_of p w' = {#sd'#}) \<or> timers_of p w' = {#} \<and> ping_stuck (ping_retries w) env q')))"
proof -
  let ?st = "nw_sched w"
  define st0 where "st0 = ?st\<lparr>schedq := remove_first (ping_timer p) (schedq ?st), schedcnt := schedcnt ?st - 1\<rparr>"
  define w0 where "w0 = w\<lparr>nw_sched := st0\<rparr>"
  have fs: "find (ping_timer p) (schedq ?st) = Some sd" by (rule find_timer(1) [OF sd])
  have pt: "sd_callback sd = PING_SEND" "sd_data sd = Some p" using find_SomeD [OF fs] by (simp_all add: ping_timer_def)
  have "filter_mset (ping_timer p) (mset (schedq ?st)) = {#sd#}" using sd by (simp add: timers_of_def)
  then have f0: "filter_mset (ping_timer p) (mset (schedq st0)) = {#}"
    using mset_remove_first_find [OF fs] find_SomeD [OF fs] by (simp add: st0_def)
  have w0: "pheap w0 = pheap w" "pingQ w0 = pingQ w" "ping_retries w0 = ping_retries w" "nw_sched w0 = st0"
    "nw_ev w0 = nw_ev w" "ping_out w0 = ping_out w" "ping_cache w0 = ping_cache w" "ping_socket w0 = ping_socket w"
    by (simp_all add: w0_def)
  have id0: "ping_ideal env (pq_a q) s w0" using assms(3) by (simp add: ping_ideal_def w0)
  obtain items r w1 where one: "ping_send fuel env p w0 = Ret (r, w1)" "ping_step env p q s items w0 w1"
    and cs: "items = todo (unat (ping_retries w)) q \<and> pingQ w1 = remove1 p (pingQ w) \<or>
     (\<exists>q'. items \<noteq> [] \<and> todo (unat (ping_retries w)) q = items @ todo (unat (ping_retries w)) q' \<and>
        pq_ok q' \<and> pq_a q' = pq_a q \<and> pq_flags q' = pq_flags q \<and> pq_np q' = pq_np q \<and>
        pq_time q' \<in> {pq_time q, ping_ms (pe_tv env)} \<and>
        pingQ w1 = pingQ w \<and> pheap w1 p = Some q')"
    using ping_send_ideal [of w0 p q fuel env s] assms(1,2,4,5) id0 unfolding w0 by blast
  obtain t' where t': "sched_settime (Some t) (sd_resched sd) = Some t'" using sched_settime_Some by blast
  define st1 where "st1 = (if r \<noteq> 0 then schedule (sd\<lparr>sd_when := t'\<rparr>) (nw_sched w1) else sched_release sd (nw_sched w1))"
  let ?w' = "w1\<lparr>nw_sched := st1\<rparr>"
  have run: "ping_turn fuel env p sd w = Ret ?w'"
    using one(1) t' mem(2)
    by (simp add: ping_turn_def runq_one_def ping_timer_cb_def pt st0_def [symmetric] w0_def [symmetric] st1_def Let_def)
  have step: "ping_step env p q s items w ?w'" using one(2) by (simp add: ping_step_def w0)
  have tq: "timers_of p ?w' = filter_mset (ping_timer p) (mset (schedq (nw_sched w1))) +
      (if r \<noteq> 0 then {#sd\<lparr>sd_when := t'\<rparr>#} else {#})"
    using pt by (simp add: timers_of_def st1_def schedule_def ping_timer_def)
  from cs show ?thesis
  proof (elim disjE exE conjE)
    assume g: "items = todo (unat (ping_retries w)) q" "pingQ w1 = remove1 p (pingQ w)"
    then have "p \<notin> set (pingQ w1)" using Q(2) by simp
    then have "r = 0" "nw_sched w1 = st0" using ping_send_gone [OF one(1)] Q(1) w0 by auto
    then have "timers_of p ?w' = {#}" using tq f0 by simp
    then show ?thesis using run step g by (intro exI [of _ items] exI [of _ ?w']) simp
  next
    fix q' assume q': "items \<noteq> []" "todo (unat (ping_retries w)) q = items @ todo (unat (ping_retries w)) q'"
      "pq_ok q'" "pq_a q' = pq_a q" "pq_flags q' = pq_flags q" "pq_np q' = pq_np q"
      "pq_time q' \<in> {pq_time q, ping_ms (pe_tv env)}" "pingQ w1 = pingQ w" "pheap w1 p = Some q'"
    have rt: "ping_retries w1 = ping_retries w" using one(2) by (simp add: ping_step_def w0)
    have c: "if ping_stuck (ping_retries w) env q' then r = 0 \<and> nw_sched w1 = st0
       else r = 1 \<and> nw_sched w1 = st0 \<or>
         r = 0 \<and> (\<exists>sd. mset (schedq (nw_sched w1)) = add_mset sd (mset (schedq st0)) \<and>
           sd_callback sd = PING_SEND \<and> sd_data sd = Some p)"
      using ping_send_continues [OF one(1) _ _ mem] Q q'(8,9) rt unfolding w0 ping_stuck_def by auto
    have "(\<exists>sd'. timers_of p ?w' = {#sd'#}) \<or> timers_of p ?w' = {#} \<and> ping_stuck (ping_retries w) env q'"
      using c f0 unfolding tq by (auto simp: ping_timer_def split: if_splits)
    with q' show ?thesis
      by (intro exI [of _ items] exI [of _ ?w'], intro conjI run step, intro disjI2 exI [of _ q']) simp
  qed
qed

lemma ping_run_ideal:
  assumes "pheap w p = Some q" "p \<in> set (pingQ w)" "distinct (pingQ w)"
    "Suc (length (todo (unat (ping_retries w)) q)) < n" "length (todo (unat (ping_retries w)) q) < fuel"
    "\<forall>k. ping_ideal (es k) (pq_a q) s w \<and> me_pad (pe_map (es k)) = pad \<and>
       me_sched_mem (pe_map (es k)) \<noteq> None \<and> me_now (pe_map (es k)) \<noteq> None"
    "pq_ok q" "unat (ping_retries w) < 2 ^ 32 - 1" "timers_of p w = {#sd#}"
  shows "\<exists>w' items rest. ping_run n fuel es p w = Ret w' \<and> todo (unat (ping_retries w)) q = items @ rest \<and>
    ev_sent (nw_ev w') = ev_sent (nw_ev w) @ map (Pair s) (replies pad q (ping_cache w) items) \<and>
    ping_out w' = ping_out w @ pings p (force q) (ping_cache w) items \<and>
    (rest = [] \<and> pingQ w' = remove1 p (pingQ w) \<or>
     pingQ w' = pingQ w \<and> (\<exists>k T. ping_ms (pe_tv (es k)) - T = 3000 \<and> T \<noteq> 0 \<and>
       (T = pq_time q \<or> (\<exists>j \<le> k. T = ping_ms (pe_tv (es j))))))"
  using assms
proof (induction n arbitrary: w q es sd)
  case (Suc n)
  let ?t = "todo (unat (ping_retries w))"
  have id: "ping_ideal (es k) (pq_a q) s w" "me_pad (pe_map (es k)) = pad" for k
    using Suc.prems(6) by auto
  obtain m t where mt: "me_sched_mem (pe_map (es 0)) = Some m" "me_now (pe_map (es 0)) = Some t"
    using Suc.prems(6) by blast
  obtain n' where n': "n = Suc n'" using Suc.prems(4) by (cases n) auto
  obtain items w1 where one: "ping_turn fuel (es 0) p sd w = Ret w1"
    "ping_step (es 0) p q s items w w1"
    and cs: "items = ?t q \<and> pingQ w1 = remove1 p (pingQ w) \<and> timers_of p w1 = {#} \<or>
     (\<exists>q'. items \<noteq> [] \<and> ?t q = items @ ?t q' \<and> pq_ok q' \<and> pq_a q' = pq_a q \<and>
        pq_flags q' = pq_flags q \<and> pq_np q' = pq_np q \<and>
        pq_time q' \<in> {pq_time q, ping_ms (pe_tv (es 0))} \<and>
        pingQ w1 = pingQ w \<and> pheap w1 p = Some q' \<and>
        ((\<exists>sd'. timers_of p w1 = {#sd'#}) \<or> timers_of p w1 = {#} \<and> ping_stuck (ping_retries w) (es 0) q'))"
    using ping_turn_ideal [OF Suc.prems(1) Suc.prems(5) id(1) Suc.prems(7,8,2,3,9) mt] by blast
  have st: "ev_sent (nw_ev w1) = ev_sent (nw_ev w) @ map (Pair s) (replies pad q (ping_cache w) items)"
    "ping_out w1 = ping_out w @ pings p (force q) (ping_cache w) items"
    "ping_cache w1 = ping_cache w" "ping_retries w1 = ping_retries w"
    using one(2) by (simp_all add: ping_step_def id(2))
  have run: "ping_run (Suc n) fuel es p w = ping_run n fuel (\<lambda>k. es (Suc k)) p w1"
    using find_timer(1) [OF Suc.prems(9)] one(1) by simp
  have stop: "ping_run n fuel (\<lambda>k. es (Suc k)) p w1 = Ret w1" if "timers_of p w1 = {#}"
    using find_timer(2) [OF that] by (simp add: n')
  from cs show ?case
  proof (elim disjE exE conjE)
    assume "items = ?t q" "pingQ w1 = remove1 p (pingQ w)" "timers_of p w1 = {#}"
    with stop st show ?thesis
      unfolding run by (intro exI [of _ w1] exI [of _ items] exI [of _ "[]"]) simp
  next
    fix q' assume q': "?t q = items @ ?t q'" "pq_time q' \<in> {pq_time q, ping_ms (pe_tv (es 0))}"
      "pingQ w1 = pingQ w" "timers_of p w1 = {#}" "ping_stuck (ping_retries w) (es 0) q'"
    have "ping_ms (pe_tv (es 0)) - pq_time q' = 3000" "pq_time q' \<noteq> 0" using q'(5) by (simp_all add: ping_stuck_def)
    with q'(2) have "\<exists>k T. ping_ms (pe_tv (es k)) - T = 3000 \<and> T \<noteq> 0 \<and>
        (T = pq_time q \<or> (\<exists>j \<le> k. T = ping_ms (pe_tv (es j))))"
      by (intro exI [of _ 0] exI [of _ "pq_time q'"]) auto
    with stop [OF q'(4)] st q'(1,3) show ?thesis
      unfolding run by (intro exI [of _ w1] exI [of _ items] exI [of _ "?t q'"]) simp
  next
    fix q' sd' assume q': "items \<noteq> []" "?t q = items @ ?t q'" "pq_ok q'" "pq_a q' = pq_a q"
      "pq_flags q' = pq_flags q" "pq_np q' = pq_np q"
      "pq_time q' \<in> {pq_time q, ping_ms (pe_tv (es 0))}" "pingQ w1 = pingQ w" "pheap w1 p = Some q'"
      "timers_of p w1 = {#sd'#}"
    have env: "ping_ideal (es (Suc k)) (pq_a q') s w1 \<and> me_pad (pe_map (es (Suc k))) = pad \<and>
        me_sched_mem (pe_map (es (Suc k))) \<noteq> None \<and> me_now (pe_map (es (Suc k))) \<noteq> None" for k
      using ping_step_ideal [OF one(2) id(1)] id(2) q'(4) Suc.prems(6) by simp
    have "length (?t q') < length (?t q)" using q'(1,2) by simp
    then have n: "Suc (length (?t q')) < n" "length (?t q') < fuel" using Suc.prems(4,5) by linarith+
    obtain w' xs ys where rest: "ping_run n fuel (\<lambda>k. es (Suc k)) p w1 = Ret w'" "?t q' = xs @ ys"
      "ev_sent (nw_ev w') = ev_sent (nw_ev w1) @ map (Pair s) (replies pad q' (ping_cache w1) xs)"
      "ping_out w' = ping_out w1 @ pings p (force q') (ping_cache w1) xs"
      and fin: "ys = [] \<and> pingQ w' = remove1 p (pingQ w) \<or>
       pingQ w' = pingQ w \<and> (\<exists>k T. ping_ms (pe_tv (es (Suc k))) - T = 3000 \<and> T \<noteq> 0 \<and>
         (T = pq_time q' \<or> (\<exists>j \<le> k. T = ping_ms (pe_tv (es (Suc j))))))"
      using Suc.IH [of w1 q' "\<lambda>k. es (Suc k)", unfolded st(4) q'(8), OF q'(9) Suc.prems(2,3) n
          allI [OF env] q'(3) Suc.prems(8) q'(10)] by blast
    have fo: "force q' = force q" using q'(5) by (simp add: force_def)
    have fin': "ys = [] \<and> pingQ w' = remove1 p (pingQ w) \<or>
       pingQ w' = pingQ w \<and> (\<exists>k T. ping_ms (pe_tv (es k)) - T = 3000 \<and> T \<noteq> 0 \<and>
         (T = pq_time q \<or> (\<exists>j \<le> k. T = ping_ms (pe_tv (es j)))))"
      using fin
    proof (elim disjE exE conjE)
      fix k T assume "pingQ w' = pingQ w" "ping_ms (pe_tv (es (Suc k))) - T = 3000" "T \<noteq> 0" "T = pq_time q'"
      moreover from this q'(7) have "T = pq_time q \<or> (\<exists>j \<le> Suc k. T = ping_ms (pe_tv (es j)))"
        by (cases "T = pq_time q") (auto intro: exI [of _ 0])
      ultimately show ?thesis by blast
    next
      fix k T j assume "pingQ w' = pingQ w" "ping_ms (pe_tv (es (Suc k))) - T = 3000" "T \<noteq> 0" "j \<le> k"
        "T = ping_ms (pe_tv (es (Suc j)))"
      moreover from this have "\<exists>j \<le> Suc k. T = ping_ms (pe_tv (es j))" by (intro exI [of _ "Suc j"]) simp
      ultimately show ?thesis by blast
    qed simp
    show ?thesis
      using rest st(1-3) q'(2) fin' fo
      unfolding run by (intro exI [of _ w'] exI [of _ "items @ xs"] exI [of _ ys])
        (simp add: pings_append replies_append replies_cong [OF q'(5,6)])
  qed
qed simp

section \<open>Answers\<close>

lemma same_rest_ping:
  assumes "same_rest w w'"
  shows "pingQ w' = pingQ w" "pheap w' = pheap w" "ping_cache w' = ping_cache w"
    "ping_retries w' = ping_retries w" "ping_out w' = ping_out w"
  using assms by (cases w; cases w'; simp add: same_rest_def)+

lemma link_up_rest: "same_rest w w' \<Longrightarrow> link_up env a s (nw_ev w') = link_up env a s (nw_ev w)"
  by (simp add: same_rest_def link_up_def)

text \<open>A state in which every queued entry is allocated.\<close>

definition ping_inv :: "('h, 'z) ping_world_scheme \<Rightarrow> bool" where
  "ping_inv w \<longleftrightarrow> distinct (pingQ w) \<and> (\<forall>p \<in> set (pingQ w). pheap w p \<noteq> None)"

text \<open>An echo reply of \<open>sin\<close> to the entry \<open>p\<close> that the queue still holds and whose range has \<open>sin\<close>.\<close>

definition genuine :: "u8 list \<Rightarrow> u32 \<Rightarrow> ping_q \<Rightarrow> ('h, 'z) ping_world_scheme \<Rightarrow> bool" where
  "genuine buf sin q w \<longleftrightarrow>
     (let icmp = drop (ip_hlen buf) buf; p = ptr_of (drop 8 icmp) in
      icmp_type icmp = ICMP_ECHOREPLY \<and> p \<in> set (pingQ w) \<and> pheap w p = Some q \<and>
      bswap32 (pq_start q) \<le> bswap32 sin \<and> bswap32 sin \<le> bswap32 (pq_end q))"

lemma add_to_cache_ok:
  assumes "cache_inv st"
  obtains ds st' where "add_to_cache True now d False st = Ret (ds, st')" "in_cache d st' = 1"
  using add_to_cache_facts [OF assms] by blast

lemma handle_ping_genuine:
  assumes "genuine buf sin q w" "int (ip_hlen buf + 8) \<le> len" "handle_map (pe_map env) buf len sin w = Ret (0, w1)"
    "cache_inv (ping_cache w)" "pe_cache_mem env" "link_up (pe_map env) (pq_a q) s (nw_ev w)"
  shows "\<exists>w'. handle_ping_recieve env buf len sin w = Ret (1, w') \<and> in_cache sin (ping_cache w') = 1 \<and>
    ev_sent (nw_ev w') = ev_sent (nw_ev w1) @ [(s, discover_reply (me_pad (pe_map env)) q sin)] \<and>
    pingQ w' = pingQ w \<and> pheap w' = pheap w \<and> ping_out w' = ping_out w"
proof -
  note rest = handle_map_rest [OF assms(3)]
  note r = same_rest_ping [OF rest] link_up_rest [OF rest]
  let ?p = "ptr_of (drop 8 (drop (ip_hlen buf) buf))"
  obtain ds c where c: "add_to_cache True (pe_tv env) sin False (ping_cache w1) = Ret (ds, c)" "in_cache sin c = 1"
    using add_to_cache_ok [OF assms(4)] r(3) by metis
  have "in_ping_q_range ?p sin w1 = Ret True" "deref (pheap w1) ?p = Ret q"
    using assms(1) r by (simp_all add: genuine_def in_ping_q_range_def in_ping_q_def Let_def)
  moreover have "link_up (pe_map env) (pq_a q) s (nw_ev (w1\<lparr>ping_cache := c\<rparr>))" using assms(6) r by simp
  note send_discover_reply_up [OF this, of sin]
  ultimately show ?thesis
    using assms(1-3,5) c r
    by (simp add: handle_ping_recieve_def genuine_def Let_def ICMP_MINLEN_def icmp_types not_less)
qed

lemma handle_ping_other:
  assumes "\<nexists>q. genuine buf sin q w" "ping_inv w" "int (ip_hlen buf + 8) \<le> len"
    "handle_map (pe_map env) buf len sin w = Ret (m, w1)"
  shows "handle_ping_recieve env buf len sin w = Ret (1, w1)"
proof -
  note rr = same_rest_ping [OF handle_map_rest [OF assms(4)]]
  let ?p = "ptr_of (drop 8 (drop (ip_hlen buf) buf))"
  have "in_ping_q_range ?p sin w1 = Ret False" if e: "icmp_type (drop (ip_hlen buf) buf) = ICMP_ECHOREPLY"
  proof (cases "?p \<in> set (pingQ w)")
    case True
    then obtain q where "pheap w ?p = Some q" using assms(2) by (auto simp: ping_inv_def)
    moreover from this have "\<not> genuine buf sin q w" using assms(1) by blast
    ultimately show ?thesis
      using True e rr by (auto simp: genuine_def in_ping_q_range_def in_ping_q_def Let_def)
  qed (simp add: in_ping_q_range_def in_ping_q_def rr)
  then show ?thesis
    using assms(3,4) by (simp add: handle_ping_recieve_def Let_def ICMP_MINLEN_def not_less)
qed

section \<open>Properties\<close>

lemma bswap32_0 [simp]: "bswap32 0 = 0" "bswap32 w = 0 \<longleftrightarrow> w = 0"
proof -
  show "bswap32 0 = 0" by (simp add: bswap32_def le32_def be32_def)
  then show "bswap32 w = 0 \<longleftrightarrow> w = 0" by (metis bswap32_involution)
qed

text \<open>The addresses of a range, each in every round up to \<open>rt\<close>, in the order they are pinged.\<close>

definition all_rounds :: "nat \<Rightarrow> u32 \<Rightarrow> u32 \<Rightarrow> (nat \<times> u32) list" where
  "all_rounds rt lo hi = concat (map (\<lambda>r. map (\<lambda>k. (r, word_of_nat k)) [unat lo..<Suc (unat hi)]) [0..<Suc rt])"

definition range_entry :: "event_hdr \<Rightarrow> u32 \<Rightarrow> u32 \<Rightarrow> u64 \<Rightarrow> nat \<Rightarrow> ping_q" where
  "range_entry h lo hi np a = \<lparr>pq_start = bswap32 lo, pq_end = bswap32 hi, pq_current = lo, pq_desched = 0,
     pq_retry = 0, pq_flags = bswap32 (h_flags h), pq_np = np, pq_time = 0, pq_a = a\<rparr>"

lemma discover_request_queued:
  assumes "0 < lo" "lo \<le> hi" "pe_malloc env = Some p" "length pad = 8"
  shows "\<exists>w' i. handle_discover_request env h (be32 (bswap32 lo) @ be32 (bswap32 hi) @ pad @ ptr_bytes np) a w
      = Ret (-1, w') \<and> pingQ w' = p # pingQ w \<and>
      pheap w' = (pheap w)(p \<mapsto> range_entry h lo hi np a\<lparr>pq_desched := i\<rparr>)"
proof -
  have "hi \<noteq> 0" "lo \<noteq> 0" "\<not> lo > hi" using assms(1,2) by auto
  then show ?thesis
    using assms(3,4)
    by (simp add: handle_discover_request_def Let_def range_entry_def discover_timer_def split_def)
      blast
qed

text \<open>The same when the timer can be set and the queue holds none for the entry: then it holds one.\<close>

lemma discover_request_new:
  assumes "0 < lo" "lo \<le> hi" "pe_malloc env = Some p" "length pad = 8"
    and mem: "me_sched_mem (pe_map env) \<noteq> None" "me_now (pe_map env) \<noteq> None"
    and none: "\<forall>s \<in> set (schedq (nw_sched w)). sd_data s \<noteq> Some p"
  shows "\<exists>w' i sd. handle_discover_request env h (be32 (bswap32 lo) @ be32 (bswap32 hi) @ pad @ ptr_bytes np) a w
      = Ret (-1, w') \<and> pingQ w' = p # pingQ w \<and>
      pheap w' = (pheap w)(p \<mapsto> range_entry h lo hi np a\<lparr>pq_desched := i\<rparr>) \<and>
      nw_ev w' = nw_ev w \<and> ping_out w' = ping_out w \<and> ping_cache w' = ping_cache w \<and>
      ping_retries w' = ping_retries w \<and> ping_socket w' = ping_socket w \<and> timers_of p w' = {#sd#}"
proof -
  have ne: "hi \<noteq> 0" "lo \<noteq> 0" "\<not> lo > hi" using assms(1,2) by auto
  define w1 where "w1 = snd (discover_timer env 1 p (w\<lparr>pingQ := p # pingQ w\<rparr>))"
  define i where "i = fst (discover_timer env 1 p (w\<lparr>pingQ := p # pingQ w\<rparr>))"
  obtain m t where mt: "me_sched_mem (pe_map env) = Some m" "me_now (pe_map env) = Some t" using mem by auto
  obtain sd where sd: "mset (schedq (nw_sched w1)) = add_mset sd (mset (schedq (nw_sched w)))"
    "sd_callback sd = PING_SEND" "sd_data sd = Some p"
    using sched_add_pending [of 1 m t PING_SEND "Some p" "nw_sched w"]
    by (auto simp: w1_def discover_timer_def split_def Let_def mt)
  have "filter_mset (ping_timer p) (mset (schedq (nw_sched w))) = {#}"
    using none by (intro multiset_eqI) (auto simp: ping_timer_def count_eq_zero_iff)
  then have "filter_mset (ping_timer p) (mset (schedq (nw_sched w1))) = {#sd#}"
    using sd by (simp add: ping_timer_def)
  moreover have "handle_discover_request env h (be32 (bswap32 lo) @ be32 (bswap32 hi) @ pad @ ptr_bytes np) a w
      = Ret (-1, w1\<lparr>pheap := (pheap w1)(p \<mapsto> range_entry h lo hi np a\<lparr>pq_desched := word_of_int i\<rparr>)\<rparr>)"
    using assms(3,4) ne
    by (simp add: handle_discover_request_def Let_def range_entry_def split_def w1_def [symmetric] i_def [symmetric])
  ultimately show ?thesis
    by (intro exI [of _ "w1\<lparr>pheap := (pheap w1)(p \<mapsto> range_entry h lo hi np a\<lparr>pq_desched := word_of_int i\<rparr>)\<rparr>"]
        exI [of _ "word_of_int i"] exI [of _ sd]) (simp add: timers_of_def w1_def)
qed

text \<open>An example: one address, 10.0.0.5, and an agent that can be written to.\<close>

definition ping_demo_env :: "int \<Rightarrow> ping_env" where
  "ping_demo_env t = \<lparr>pe_map = (map_demo_env t)\<lparr>me_sched_mem := Some \<lparr>sd_id = 0, sd_when = TV 0 0,
       sd_resched = 0, sd_data = None, sd_callback = PING_SEND\<rparr>, me_now := Some (TV t 0)\<rparr>,
     pe_proto = True, pe_socket = 7, pe_sendto = \<lambda>_ _. 16, pe_tv = TV t 0, pe_malloc = Some 64,
     pe_cache_mem = True\<rparr>"

definition demo_hdr :: event_hdr where
  "demo_hdr = \<lparr>h_len = 36, h_hlen = 12, h_type = EVENT_DISCOVER_IPV4, h_flags = 0\<rparr>"

definition ping_demo :: "u64 list \<Rightarrow> (u64 \<Rightarrow> ping_q option) \<Rightarrow> int ping_world" where
  "ping_demo qs h = \<lparr>nw_ev = nw_ev (map_demo []), nw_sched = sched_init, mrq = [], map_socket = -1,
     timeout_installed = 0, map_out = [], pingQ = qs, pheap = h, ping_socket = -1, ping_retries = 1,
     ping_cache = cache_init, ping_io = [], ping_out = []\<rparr>"

lemma ping_ideal_demo: "ping_ideal (ping_demo_env t) 1 5 (ping_demo qs h)"
  by (simp add: ping_ideal_def ping_demo_def ping_demo_env_def link_up_def map_demo_def map_demo_env_def
      map_demo_agent_def)

lemma demo_no_broadcast: "\<not> ping_broadcast (bswap32 0x0A000005)" by code_simp

definition demo_entry :: ping_q where "demo_entry = range_entry demo_hdr 0x0A000005 0x0A000006 9 1"

lemma demo_entry_simps: "pq_start demo_entry = bswap32 0x0A000005" "pq_end demo_entry = bswap32 0x0A000006"
  "pq_current demo_entry = 0x0A000005" "pq_retry demo_entry = 0" "pq_time demo_entry = 0"
  "pq_flags demo_entry = 0" "pq_a demo_entry = 1"
  by (simp_all add: demo_entry_def range_entry_def demo_hdr_def)

lemma demo_todo: "length (todo 1 demo_entry) = 4"
  by (simp add: todo_def demo_entry_simps Let_def)

definition demo_reply :: "u8 list" where
  "demo_reply = 0x45 # replicate 19 0 @ [ICMP_ECHOREPLY, 0, 0, 0, 0, 0, 0, 0] @ ptr_bytes 64"

lemma demo_genuine: "genuine demo_reply (bswap32 0x0A000005) demo_entry (ping_demo [64] [64 \<mapsto> demo_entry])"
  by (simp add: genuine_def demo_reply_def ip_hlen_def icmp_type_def Let_def ping_demo_def demo_entry_simps)

text \<open>
  C18. Discovery is complete: after a request for the addresses \<open>lo\<close> to \<open>hi\<close>, its timers run until the
  scheduler holds none for the entry, and by then every address that is not cached (or any, with
  the force flag) and is no broadcast address has been pinged once in each of the
  \<^verbatim>\<open>ping_retries + 1\<close> rounds, in order, every cached one has been reported to the agent once, and
  the entry is gone; or the entry was left in the queue without a timer after a part of that work,
  and then the clock of one turn showed exactly 3000 ms more than that of an earlier one (the
  finding on the wait of 0 ms). The discovery is taken on its own: \<^verbatim>\<open>sendto\<close>, \<^verbatim>\<open>write\<close>, \<^verbatim>\<open>malloc\<close>
  and \<^verbatim>\<open>gettimeofday\<close> do not fail, the agent stays connected, and no answer comes in meanwhile, which
  would put its address in the cache.
\<close>

theorem discover_pings_all:
  assumes "0 < lo" "lo \<le> hi" "pe_malloc env = Some p" "p \<notin> set (pingQ w)" "distinct (pingQ w)"
    "me_sched_mem (pe_map env) \<noteq> None" "me_now (pe_map env) \<noteq> None"
    "\<forall>s \<in> set (schedq (nw_sched w)). sd_data s \<noteq> Some p"
    "\<forall>k. ping_ideal (es k) a s w \<and> me_pad (pe_map (es k)) = pad4 \<and>
       me_sched_mem (pe_map (es k)) \<noteq> None \<and> me_now (pe_map (es k)) \<noteq> None"
    "length pad = 8"
    "unat (ping_retries w) < 2 ^ 32 - 1" "items = all_rounds (unat (ping_retries w)) lo hi"
    "q = range_entry h lo hi np a" "Suc (length items) < n" "length items < fuel"
  shows "\<exists>w1 w2 xs rest. handle_discover_request env h (be32 (bswap32 lo) @ be32 (bswap32 hi) @ pad @ ptr_bytes np) a w
        = Ret (-1, w1)
    \<and> ping_run n fuel es p w1 = Ret w2 \<and> items = xs @ rest
    \<and> ping_out w2 = ping_out w @ pings p (force q) (ping_cache w) xs
    \<and> ev_sent (nw_ev w2) = ev_sent (nw_ev w) @ map (Pair s) (replies pad4 q (ping_cache w) xs)
    \<and> (rest = [] \<and> pingQ w2 = pingQ w \<or>
       p \<in> set (pingQ w2) \<and> (\<exists>j k. j \<le> k \<and> ping_ms (pe_tv (es k)) - ping_ms (pe_tv (es j)) = 3000))"
proof -
  obtain w1 i sd where w1: "handle_discover_request env h (be32 (bswap32 lo) @ be32 (bswap32 hi) @ pad @ ptr_bytes np) a w
      = Ret (-1, w1)" "pingQ w1 = p # pingQ w" "pheap w1 = (pheap w)(p \<mapsto> q\<lparr>pq_desched := i\<rparr>)"
    "nw_ev w1 = nw_ev w" "ping_out w1 = ping_out w" "ping_cache w1 = ping_cache w"
    "ping_retries w1 = ping_retries w" "ping_socket w1 = ping_socket w" "timers_of p w1 = {#sd#}"
    using discover_request_new [OF assms(1-3,10,6-8), of h np a] unfolding assms(13) by blast
  let ?q = "q\<lparr>pq_desched := i\<rparr>"
  have t: "todo (unat (ping_retries w1)) ?q = items"
    unfolding assms(12) all_rounds_def w1(7) by (subst todo_new) (simp_all add: assms(13) range_entry_def)
  have env: "\<forall>k. ping_ideal (es k) (pq_a ?q) s w1 \<and> me_pad (pe_map (es k)) = pad4 \<and>
      me_sched_mem (pe_map (es k)) \<noteq> None \<and> me_now (pe_map (es k)) \<noteq> None"
    using assms(9) w1(4,8) by (simp add: ping_ideal_def assms(13) range_entry_def)
  have q: "pheap w1 p = Some ?q" "p \<in> set (pingQ w1)" "distinct (pingQ w1)" "pq_ok ?q"
    "unat (ping_retries w1) < 2 ^ 32 - 1"
    using w1(2,3,7) assms(2,4,5,11) by (simp_all add: pq_ok_def assms(13) range_entry_def)
  have same: "force ?q = force q" "replies pad4 ?q c xs = replies pad4 q c xs" for c xs
    by (simp add: force_def, rule replies_cong) simp_all
  have time: "pq_time ?q = 0" by (simp add: assms(13) range_entry_def)
  obtain w2 xs rest where run: "ping_run n fuel es p w1 = Ret w2" "items = xs @ rest"
    "ev_sent (nw_ev w2) = ev_sent (nw_ev w1) @ map (Pair s) (replies pad4 ?q (ping_cache w1) xs)"
    "ping_out w2 = ping_out w1 @ pings p (force ?q) (ping_cache w1) xs"
    "rest = [] \<and> pingQ w2 = remove1 p (pingQ w1) \<or>
     pingQ w2 = pingQ w1 \<and> (\<exists>k T. ping_ms (pe_tv (es k)) - T = 3000 \<and> T \<noteq> 0 \<and>
       (T = pq_time ?q \<or> (\<exists>j \<le> k. T = ping_ms (pe_tv (es j)))))"
    using ping_run_ideal [OF q(1-3), unfolded t, OF assms(14,15) env q(4,5) w1(9)] by blast
  have "rest = [] \<and> pingQ w2 = pingQ w \<or>
       p \<in> set (pingQ w2) \<and> (\<exists>j k. j \<le> k \<and> ping_ms (pe_tv (es k)) - ping_ms (pe_tv (es j)) = 3000)"
    using run(5) w1(2) time by auto
  then show ?thesis using run(1-4) w1 same by (intro exI [of _ w1] exI [of _ w2] exI [of _ xs] exI [of _ rest]) simp
qed

text \<open>A clock that shows 50, 54 and from then on 58 seconds.\<close>

definition demo_envs :: "nat \<Rightarrow> ping_env" where
  "demo_envs k = ping_demo_env (if k = 0 then 50 else if k = 1 then 54 else 58)"

theorem discover_pings_all_witness:
  "\<exists>w1 w2. handle_discover_request (ping_demo_env 50) demo_hdr
        (be32 (bswap32 0x0A000005) @ be32 (bswap32 0x0A000005) @ replicate 8 0 @ ptr_bytes 9) 1 (ping_demo [] Map.empty)
        = Ret (-1, w1)
    \<and> ping_run 9 9 demo_envs 64 w1 = Ret w2
    \<and> ping_out w2 = [(bswap32 0x0A000005, ping_packet 64), (bswap32 0x0A000005, ping_packet 64)]"
proof -
  have items: "all_rounds (Suc 0) 0x0A000005 0x0A000005 = [(0, 0x0A000005), (Suc 0, 0x0A000005)]"
    by (simp add: all_rounds_def)
  have cache: "pings 64 b cache_init [(0, 0x0A000005), (Suc 0, 0x0A000005)] =
      [(bswap32 0x0A000005, ping_packet 64), (bswap32 0x0A000005, ping_packet 64)]" for b
    by (simp add: pings_def demo_no_broadcast in_cache_def cache_init_def)
  have w: "ping_retries (ping_demo [] Map.empty) = 1" "pingQ (ping_demo [] Map.empty) = []"
    "ping_cache (ping_demo [] Map.empty) = cache_init" "ping_out (ping_demo [] Map.empty) = []"
    "schedq (nw_sched (ping_demo [] Map.empty)) = []"
    "pe_malloc (ping_demo_env 50) = Some 64" "me_pad (pe_map (ping_demo_env t)) = [0, 0, 0, 0]"
    "me_sched_mem (pe_map (ping_demo_env t)) \<noteq> None" "me_now (pe_map (ping_demo_env t)) \<noteq> None" for t
    by (simp_all add: ping_demo_def ping_demo_env_def map_demo_env_def sched_init_def)
  have env: "\<forall>k. ping_ideal (demo_envs k) 1 5 (ping_demo [] Map.empty) \<and> me_pad (pe_map (demo_envs k)) = [0, 0, 0, 0] \<and>
      me_sched_mem (pe_map (demo_envs k)) \<noteq> None \<and> me_now (pe_map (demo_envs k)) \<noteq> None"
    using ping_ideal_demo w(7-9) unfolding demo_envs_def by blast
  have ms: "ping_ms (TV 50 0) = 50000" "ping_ms (TV 54 0) = 54000" "ping_ms (TV 58 0) = 58000"
    by (simp_all add: ping_ms_def to_int32_id)
  have clock: "ping_ms (pe_tv (demo_envs k)) - ping_ms (pe_tv (demo_envs j)) \<noteq> 3000" if "j \<le> k" for j k
    using that by (auto simp: demo_envs_def ping_demo_env_def ms)
  show ?thesis
    using discover_pings_all [where lo = "0x0A000005" and hi = "0x0A000005" and env = "ping_demo_env 50"
        and p = 64 and w = "ping_demo [] Map.empty" and es = demo_envs
        and a = 1 and s = 5 and ?pad4.0 = "[0, 0, 0, 0]" and pad = "replicate 8 0" and h = demo_hdr
        and np = 9 and n = 9 and fuel = 9, OF _ _ w(6) _ _ w(8,9) _ env _ _ refl refl] clock
    by (auto simp: w(1-5) items cache)
qed

theorem ping_send_continues_witness:
  "\<exists>w' sd. ping_send 9 (ping_demo_env 50) 64 (ping_demo [64] [64 \<mapsto> demo_entry]) = Ret (0, w')
    \<and> mset (schedq (nw_sched w')) = {#sd#} \<and> sd_data sd = Some 64"
proof -
  let ?w = "ping_demo [64] [64 \<mapsto> demo_entry]"
  have can: "ping_can (ping_demo_env 50) (pq_a demo_entry) ?w"
    by (simp add: ping_can_def ping_demo_def ping_demo_env_def map_demo_def map_demo_env_def)
  have l: "ping_loop 9 (ping_demo_env 50) 64 demo_entry 0 ?w = Ret (Some (ping_advance demo_entry),
      ?w\<lparr>ping_socket := 7, ping_io := [7], ping_out := [(bswap32 0x0A000005, ping_packet 64)]\<rparr>)"
    by (simp add: ping_loop.simps(2) [of 8, simplified] ping_address_def ping_open_def demo_entry_simps ping_demo_def ping_demo_env_def
        in_cache_def cache_init_def demo_no_broadcast Let_def)
  have adv: "pq_current (ping_advance demo_entry) = 0x0A000006"
    by (simp add: ping_advance_def demo_entry_simps)
  have p: "deref (pheap ?w) 64 = Ret demo_entry" "pingQ ?w = [64]" by (simp_all add: ping_demo_def)
  define w1 where "w1 = ?w\<lparr>ping_socket := 7, ping_io := [7], ping_out := [(bswap32 0x0A000005, ping_packet 64)]\<rparr>"
  define w' where "w' = snd (discover_timer (ping_demo_env 50) (to_int32 (uint (ping_wait (ping_retries w1)
      (ping_advance demo_entry) (ping_ms (pe_tv (ping_demo_env 50)))))) 64
      (w1\<lparr>pheap := (pheap w1)(64 \<mapsto> ping_advance demo_entry)\<rparr>))"
  have w': "ping_send 9 (ping_demo_env 50) 64 ?w = Ret (0, w')" "pingQ w' = [64]"
    "pheap w' 64 = Some (ping_advance demo_entry)"
    unfolding ping_send_def p(1) obind.simps l w'_def w1_def [symmetric]
    using p(2) by (simp_all add: adv demo_entry_simps w1_def)
  have "me_sched_mem (pe_map (ping_demo_env 50)) \<noteq> None" "me_now (pe_map (ping_demo_env 50)) \<noteq> None"
    by (simp_all add: ping_demo_env_def)
  then obtain m t where mt: "me_sched_mem (pe_map (ping_demo_env 50)) = Some m"
    "me_now (pe_map (ping_demo_env 50)) = Some t" by blast
  have "\<exists>sd. mset (schedq (nw_sched w')) = add_mset sd (mset (schedq (nw_sched ?w))) \<and> sd_data sd = Some 64"
    using ping_send_continues [OF w'(1) _ _ mt] w'(2,3)
    by (auto simp: ping_demo_def demo_entry_simps split: if_splits)
  then show ?thesis using w'(1) by (auto simp: ping_demo_def sched_init_def)
qed

text \<open>
  \<^verbatim>\<open>ping_send\<close> always returns, whatever \<^verbatim>\<open>sendto\<close> and the cache answer: one round of its loop for
  each address that is left, and four for failures, are enough.
\<close>

theorem ping_send_returns:
  assumes "pheap w p = Some q" "pq_ok q" "ping_can env (pq_a q) w" "unat (ping_retries w) < 2 ^ 32 - 1"
    "length (todo (unat (ping_retries w)) q) + 4 < fuel"
  shows "\<exists>r w'. ping_send fuel env p w = Ret (r, w')"
proof -
  obtain x w1 where "ping_loop fuel env p q 0 w = Ret (x, w1)"
    using ping_loop_total [of w q 0 fuel env p] assms(2-5) by auto
  then show ?thesis using assms(1) by (cases x) (simp_all add: ping_send_def deref_def)
qed

theorem ping_send_returns_witness:
  "\<exists>r w'. ping_send 9 (ping_demo_env 50) 64 (ping_demo [64] [64 \<mapsto> demo_entry]) = Ret (r, w')"
  by (rule ping_send_returns [of _ _ demo_entry])
    (use demo_todo in \<open>simp_all add: ping_demo_def pq_ok_def demo_entry_simps ping_can_def map_demo_def
      ping_demo_env_def\<close>)

text \<open>
  C19. Only genuine answers are reported: a packet that is no echo reply with the pointer of a
  queued entry, from an address in that entry's range, has no effect but that of route
  mapping; a genuine one makes its address cached and is reported to the entry's agent.
\<close>

theorem ping_reply_genuine:
  assumes "ping_inv w" "cache_inv (ping_cache w)" "pe_cache_mem env" "int (ip_hlen buf + 8) \<le> len"
    "handle_map (pe_map env) buf len sin w = Ret (0, w1)"
  shows "((\<nexists>q. genuine buf sin q w) \<longrightarrow> handle_ping_recieve env buf len sin w = Ret (1, w1)) \<and>
    (\<forall>q s. genuine buf sin q w \<and> link_up (pe_map env) (pq_a q) s (nw_ev w) \<longrightarrow>
       (\<exists>w'. handle_ping_recieve env buf len sin w = Ret (1, w') \<and> in_cache sin (ping_cache w') = 1 \<and>
          ev_sent (nw_ev w') = ev_sent (nw_ev w1) @ [(s, discover_reply (me_pad (pe_map env)) q sin)] \<and>
          pingQ w' = pingQ w \<and> pheap w' = pheap w))"
  using handle_ping_genuine [OF _ assms(4,5,2,3)] handle_ping_other [OF _ assms(1,4,5)] by blast


theorem ping_reply_genuine_witness:
  "\<exists>w'. handle_ping_recieve (ping_demo_env 50) demo_reply 36 (bswap32 0x0A000005) (ping_demo [64] [64 \<mapsto> demo_entry])
      = Ret (1, w') \<and> in_cache (bswap32 0x0A000005) (ping_cache w') = 1"
proof -
  let ?w = "ping_demo [64] [64 \<mapsto> demo_entry]"
  have m: "handle_map (pe_map (ping_demo_env 50)) demo_reply 36 (bswap32 0x0A000005) ?w = Ret (0, ?w)"
    by (simp add: handle_map_def demo_reply_def ip_hlen_def icmp_type_def icmp_types Let_def map_last_hop_def
        ICMP_MINLEN_def)
  have hl: "int (ip_hlen demo_reply + 8) \<le> 36" by (simp add: demo_reply_def ip_hlen_def)
  have inv: "ping_inv ?w" "cache_inv (ping_cache ?w)" "pe_cache_mem (ping_demo_env 50)"
    by (simp_all add: ping_inv_def ping_demo_def cache_inv_def cache_init_def MAX_PING_CACHE_ENTRIES_def
        ping_demo_env_def)
  have "link_up (pe_map (ping_demo_env 50)) (pq_a demo_entry) 5 (nw_ev ?w)"
    using ping_ideal_demo by (simp add: ping_ideal_def demo_entry_simps)
  with ping_reply_genuine [OF inv hl m] demo_genuine show ?thesis by blast
qed

end
