(* ===== verification/C_Text.thy ===== *)
theory C_Text
  imports Wire
begin

text \<open>
  What the program uses of the C library on text: \<^verbatim>\<open>atoi\<close>, and addresses between dotted text and
  \<^verbatim>\<open>in_addr\<close> (\<^verbatim>\<open>inet_aton\<close>, \<^verbatim>\<open>inet_addr\<close>, \<^verbatim>\<open>inet_ntoa\<close>, which \<^verbatim>\<open>ip2str\<close> of \<^verbatim>\<open>ip_utils.c\<close>
  calls), as the GNU library does it. An address is the \<^typ>\<open>u32\<close> in network byte order, as the
  host sees it.
\<close>

section \<open>Numbers\<close>

definition c_isspace :: "char \<Rightarrow> bool" where
  "c_isspace c \<longleftrightarrow> c = CHR 0x20 \<or> (9 \<le> (of_char c :: nat) \<and> (of_char c :: nat) \<le> 13)"

text \<open>The value of a digit, 99 for no digit.\<close>

definition digit_val :: "char \<Rightarrow> nat" where
  "digit_val c = (let n = of_char c in
     if 48 \<le> n \<and> n \<le> 57 then n - 48
     else if 97 \<le> n \<and> n \<le> 102 then n - 87
     else if 65 \<le> n \<and> n \<le> 70 then n - 55 else 99)"

fun read_digits :: "nat \<Rightarrow> nat \<Rightarrow> string \<Rightarrow> nat \<times> string" where
  "read_digits b acc [] = (acc, [])"
| "read_digits b acc (c # cs) =
     (if digit_val c < b then read_digits b (acc * b + digit_val c) cs else (acc, c # cs))"

text \<open>\<^verbatim>\<open>atoi\<close>: \<^verbatim>\<open>strtol\<close>, which saturates at 64 bits, and the conversion to \<^verbatim>\<open>int\<close>.\<close>

definition strtol10 :: "string \<Rightarrow> int" where
  "strtol10 s =
     (let t = dropWhile c_isspace s;
          neg = (t \<noteq> [] \<and> hd t = CHR ''-'');
          u = (if t \<noteq> [] \<and> (hd t = CHR ''-'' \<or> hd t = CHR ''+'') then tl t else t);
          n = int (fst (read_digits 10 0 u))
      in max (- (2 ^ 63)) (min (2 ^ 63 - 1) (if neg then - n else n)))"

definition atoi :: "string \<Rightarrow> int" where
  "atoi s = to_int32 (strtol10 s)"

section \<open>Addresses\<close>

definition dotted :: "u32 \<Rightarrow> string" where
  "dotted a =
     (let b = (\<lambda>i. show_nat (unat (ucast (drop_bit (8 * i) a) :: u8))) in
      b 0 @ ''.'' @ b 1 @ ''.'' @ b 2 @ ''.'' @ b 3)"

definition ip2str :: "u32 \<Rightarrow> string" where "ip2str ip = dotted ip"

text \<open>A part of the text: octal after 0, hexadecimal after 0x, else decimal.\<close>

definition strtoul0 :: "string \<Rightarrow> nat \<times> string" where
  "strtoul0 cs =
     (case cs of
        c # d # e # r \<Rightarrow>
          if c = CHR ''0'' \<and> (d = CHR ''x'' \<or> d = CHR ''X'') \<and> digit_val e < 16
          then read_digits 16 0 (e # r)
          else if c = CHR ''0'' then read_digits 8 0 cs else read_digits 10 0 cs
      | c # r \<Rightarrow> if c = CHR ''0'' then read_digits 8 0 cs else read_digits 10 0 cs
      | [] \<Rightarrow> (0, []))"

text \<open>The values between the dots, of which \<open>k\<close> may follow; all but the last are bytes.\<close>

fun aton_parts :: "nat \<Rightarrow> string \<Rightarrow> nat list option" where
  "aton_parts k cs =
     (if cs = [] \<or> \<not> digit_val (hd cs) < 10 then None
      else case strtoul0 cs of
        (v, []) \<Rightarrow> if v > 0xffffffff then None else Some [v]
      | (v, c # r) \<Rightarrow>
          if v > 0xffffffff then None
          else if c = CHR ''.''
          then (if v > 255 then None
                else case k of 0 \<Rightarrow> None | Suc j \<Rightarrow> map_option (Cons v) (aton_parts j r))
          else if c_isspace c then Some [v] else None)"

definition inet_aton :: "string \<Rightarrow> u32 option" where
  "inet_aton cs =
     (case aton_parts 3 cs of
        Some [a, b, c, d] \<Rightarrow>
          if d > 0xff then None else Some (bswap32 (word_of_nat (((a * 256 + b) * 256 + c) * 256 + d)))
      | Some [a, b, d] \<Rightarrow>
          if d > 0xffff then None else Some (bswap32 (word_of_nat ((a * 256 + b) * 65536 + d)))
      | Some [a, d] \<Rightarrow> if d > 0xffffff then None else Some (bswap32 (word_of_nat (a * 16777216 + d)))
      | Some [d] \<Rightarrow> Some (bswap32 (word_of_nat d))
      | _ \<Rightarrow> None)"

definition INADDR_NONE :: u32 where "INADDR_NONE = 0xffffffff"

definition inet_addr :: "string \<Rightarrow> u32" where
  "inet_addr cs = (case inet_aton cs of None \<Rightarrow> INADDR_NONE | Some a \<Rightarrow> a)"

section \<open>Lemmas\<close>

lemma read_digits_append:
  "\<forall>c \<in> set ds. digit_val c < b \<Longrightarrow>
     read_digits b acc (ds @ r) = read_digits b (fst (read_digits b acc ds)) r"
  by (induction ds arbitrary: acc) auto

lemma read_digits_all:
  "\<forall>c \<in> set ds. digit_val c < b \<Longrightarrow> read_digits b acc ds = (foldl (\<lambda>a c. a * b + digit_val c) acc ds, [])"
  by (induction ds arbitrary: acc) auto

lemma digit_char: "d < 10 \<Longrightarrow> digit_val (char_of (48 + d)) = d"
  by (simp add: digit_val_def Let_def of_char_mod_256)

text \<open>A printed number: its digits, its value, and its first digit.\<close>

lemma show_nat_fuel_digits: "c \<in> set (show_nat_fuel k n) \<Longrightarrow> digit_val c < 10"
  by (induction k arbitrary: n) (auto simp: digit_char split: if_splits)

lemma show_nat_fuel_value:
  "n < 10 ^ k \<Longrightarrow> foldl (\<lambda>a c. a * 10 + digit_val c) 0 (show_nat_fuel k n) = n"
proof (induction k arbitrary: n)
  case (Suc k)
  show ?case
  proof (cases "n < 10")
    case False
    have "n div 10 < 10 ^ k" using Suc.prems by (simp add: div_less_iff_less_mult)
    with Suc.IH [of "n div 10"] False show ?thesis by (simp add: digit_char)
  qed (simp add: digit_char)
qed simp

lemma show_nat_fuel_head:
  "0 < n \<Longrightarrow> n < 10 ^ k \<Longrightarrow> \<exists>c r. show_nat_fuel k n = c # r \<and> digit_val c \<noteq> 0"
proof (induction k arbitrary: n)
  case (Suc k)
  show ?case
  proof (cases "n < 10")
    case False
    then have "0 < n div 10" "n div 10 < 10 ^ k" using Suc.prems by (simp_all add: div_less_iff_less_mult)
    from Suc.IH [OF this] False show ?thesis by auto
  qed (use Suc.prems in \<open>simp add: digit_char\<close>)
qed simp


lemma read_digits_show:
  assumes "n < 10 ^ 20" "r = [] \<or> digit_val (hd r) \<ge> 10"
  shows "read_digits 10 0 (show_nat n @ r) = (n, r)"
proof -
  have d: "\<forall>c \<in> set (show_nat n). digit_val c < 10" using show_nat_fuel_digits by (simp add: show_nat_def)
  have "read_digits 10 v r = (v, r)" for v using assms(2) by (cases r) auto
  then show ?thesis
    using read_digits_append [OF d, of 0 r] read_digits_all [OF d, of 0] show_nat_fuel_value [OF assms(1)]
    by (simp add: show_nat_def)
qed

lemma strtoul0_show:
  assumes "n < 10 ^ 20" "r = [] \<or> hd r = CHR ''.''"
  shows "strtoul0 (show_nat n @ r) = (n, r)"
proof (cases "n = 0")
  case True
  have z: "show_nat 0 = ''0''" by code_simp
  have "digit_val (CHR ''0'') = 0" "digit_val (CHR ''.'') = 99" by (simp_all add: digit_val_def)
  then show ?thesis
    using assms(2) True by (cases r; cases "tl r") (auto simp: z strtoul0_def)
next
  case False
  then obtain c t where s: "show_nat n = c # t" "digit_val c \<noteq> 0"
    using show_nat_fuel_head [of n 20] assms(1) by (auto simp: show_nat_def)
  then have "c \<noteq> CHR ''0''" by (auto simp: digit_val_def)
  moreover have "digit_val (CHR ''.'') = 99" by (simp add: digit_val_def)
  then have "read_digits 10 0 (show_nat n @ r) = (n, r)"
    using read_digits_show [OF assms(1), of r] assms(2) by auto
  ultimately show ?thesis by (simp add: strtoul0_def s(1) split: list.split)
qed

lemma show_nat_head: "digit_val (hd (show_nat n @ r)) < 10" "show_nat n @ r \<noteq> []"
proof -
  have ne: "show_nat_fuel (Suc k) n \<noteq> []" for k by simp
  then have "show_nat n \<noteq> []" using ne [of 19] by (simp add: show_nat_def eval_nat_numeral)
  then show "digit_val (hd (show_nat n @ r)) < 10" "show_nat n @ r \<noteq> []"
    using show_nat_fuel_digits [of "hd (show_nat n)" 20 n] by (simp_all add: show_nat_def)
qed

lemma aton_parts_show:
  assumes "n \<le> 255"
  shows "aton_parts k (show_nat n) = Some [n]"
    "aton_parts (Suc k) (show_nat n @ CHR ''.'' # r) = map_option (Cons n) (aton_parts k r)"
  using assms show_nat_head [of n "[]"] show_nat_head [of n "CHR ''.'' # r"]
    strtoul0_show [of n "[]"] strtoul0_show [of n "CHR ''.'' # r"]
  by (simp_all add: aton_parts.simps [of k] aton_parts.simps [of "Suc k"] del: aton_parts.simps)

lemma unat_byte: "unat (b :: u8) \<le> 255"
  using unsigned_less [of b, where ?'a = nat] by simp

lemma bytes_of_addr:
  "word_of_nat (((unat (ucast a :: u8) * 256 + unat (ucast (drop_bit 8 a) :: u8)) * 256
      + unat (ucast (drop_bit 16 a) :: u8)) * 256 + unat (ucast (drop_bit 24 a) :: u8)) = bswap32 a"
proof -
  have b: "bswap32 a = of_be32 [ucast a, ucast (drop_bit 8 a), ucast (drop_bit 16 a), ucast (drop_bit 24 a)]"
    by (simp del: of_be32.simps add: bswap32_def le32_def be32_def)
  have e: "of_be32 [w, x, y, z] = word_of_nat (((unat w * 256 + unat x) * 256 + unat y) * 256 + unat z)"
    for w x y z :: u8
  proof -
    have len: "bit (v :: u8) k \<Longrightarrow> k < 8" for v k using bit_imp_le_length [of v k] by simp
    let ?A = "push_bit 24 (ucast w) :: u32" and ?B = "push_bit 16 (ucast x) :: u32"
      and ?C = "push_bit 8 (ucast y) :: u32" and ?D = "ucast z :: u32"
    have 1: "?A OR ?B = ?A + ?B"
      by (rule disjunctive_add [symmetric]) (use len [of x] in \<open>fastforce simp: bit_simps\<close>)
    have 2: "(?A OR ?B) OR ?C = (?A OR ?B) + ?C"
      by (rule disjunctive_add [symmetric]) (use len [of y] in \<open>fastforce simp: bit_simps\<close>)
    have 3: "((?A OR ?B) OR ?C) OR ?D = ((?A OR ?B) OR ?C) + ?D"
      by (rule disjunctive_add [symmetric]) (use len [of z] in \<open>fastforce simp: bit_simps\<close>)
    have "of_be32 [w, x, y, z] = ((?A OR ?B) OR ?C) OR ?D" by (simp add: or.assoc)
    then have "of_be32 [w, x, y, z] = ?A + ?B + ?C + ?D" unfolding 3 unfolding 2 unfolding 1 .
    then show ?thesis by (simp add: push_bit_eq_mult algebra_simps)
  qed
  show ?thesis unfolding b e by (simp only: drop_bit_0)
qed

lemma inet_aton_dotted [simp]: "inet_aton (dotted a) = Some a"
proof -
  let ?b = "\<lambda>i. unat (ucast (drop_bit (8 * i) a) :: u8)"
  have "aton_parts 3 (dotted a) = Some [?b 0, ?b 1, ?b 2, ?b 3]"
    using unat_byte aton_parts_show
    by (simp add: dotted_def Let_def eval_nat_numeral del: aton_parts.simps)
  then have "inet_aton (dotted a) = Some (bswap32 (word_of_nat (((?b 0 * 256 + ?b 1) * 256 + ?b 2) * 256 + ?b 3)))"
    using unat_byte [of "ucast (drop_bit 24 a)"] by (simp add: inet_aton_def del: of_nat_add of_nat_mult)
  then show ?thesis using bytes_of_addr [of a] by (simp del: of_nat_add of_nat_mult)
qed

end
