(* ===== verification/Nmap.thy ===== *)
theory Nmap
  imports C_Text
begin

text \<open>
  The scanner, \<^verbatim>\<open>agent-nmapxml.c\<close>: the command line, the reading of the output of \<^verbatim>\<open>nmap\<close>, and
  the walk over the XML tree it is parsed to. The XML library is not part of the program:
  a node is what its accessors return (whether \<^verbatim>\<open>xmlIsBlankNode\<close>, the name, the properties of
  \<^verbatim>\<open>xmlGetProp\<close>, the children), and \<^verbatim>\<open>xmlParseDoc\<close> is an argument, as is what the pipe of
  \<^verbatim>\<open>popen\<close> delivers. Freeing and the debug print are left out, and
  \<^verbatim>\<open>malloc\<close> is taken to succeed.
\<close>

section \<open>Types\<close>

datatype xml = XmlNode (x_blank: bool) (x_name: string) (x_props: "(string \<times> string) list")
  (x_children: "xml list")

definition xmlGetProp :: "xml \<Rightarrow> string \<Rightarrow> cstring option" where
  "xmlGetProp node name = map_of (x_props node) name"

record nmap_host_port_t =
  np_protocol :: u32
  np_portid :: u32
  np_state :: u32
  np_service :: "cstring option"
  np_owner :: "cstring option"
  np_proto :: u32
  np_rpcnum :: u32
  np_rpclowver :: u32
  np_rpchighver :: u32

record nmap_scan_t =
  ns_scanner :: "cstring option"
  ns_args :: "cstring option"
  ns_version :: "cstring option"
  ns_addr :: "cstring option"
  ns_ports :: "nmap_host_port_t list"
  ns_uptime_seconds :: "cstring option"
  ns_uptime_last_boot :: "cstring option"
  ns_os_name :: "cstring option"

definition PORT_STATE_OPEN :: u32 where "PORT_STATE_OPEN = 1"
definition PORT_STATE_CLOSED :: u32 where "PORT_STATE_CLOSED = 2"
definition PORT_STATE_FILTERED :: u32 where "PORT_STATE_FILTERED = 3"
definition PORT_STATE_UNFILTERED :: u32 where "PORT_STATE_UNFILTERED = 4"
definition PORT_STATE_UNKNOWN :: u32 where "PORT_STATE_UNKNOWN = 5"
definition PORT_PROTOCOL_TCP :: u32 where "PORT_PROTOCOL_TCP = 1"
definition PORT_PROTOCOL_UDP :: u32 where "PORT_PROTOCOL_UDP = 2"
definition PORT_PROTOCOL_IP :: u32 where "PORT_PROTOCOL_IP = 3"
definition PORT_PROTO_NONE :: u32 where "PORT_PROTO_NONE = 0"
definition PORT_PROTO_RPC :: u32 where "PORT_PROTO_RPC = 1"

lemmas port_consts = PORT_STATE_OPEN_def PORT_STATE_CLOSED_def PORT_STATE_FILTERED_def
  PORT_STATE_UNFILTERED_def PORT_STATE_UNKNOWN_def PORT_PROTOCOL_TCP_def PORT_PROTOCOL_UDP_def
  PORT_PROTOCOL_IP_def PORT_PROTO_NONE_def PORT_PROTO_RPC_def

section \<open>The walk over the tree\<close>

text \<open>The loop over the children that are not blank, and an assignment that a property makes.\<close>

definition each_child :: "(xml \<Rightarrow> 's \<Rightarrow> 's) \<Rightarrow> xml \<Rightarrow> 's \<Rightarrow> 's" where
  "each_child f node s = foldl (\<lambda>s n. if x_blank n then s else f n s) s (x_children node)"

definition with_prop :: "xml \<Rightarrow> string \<Rightarrow> (cstring \<Rightarrow> 's \<Rightarrow> 's) \<Rightarrow> 's \<Rightarrow> 's" where
  "with_prop node name f s = (case xmlGetProp node name of None \<Rightarrow> s | Some v \<Rightarrow> f v s)"

definition parseNmapScanPortService :: "xml \<Rightarrow> nmap_host_port_t \<Rightarrow> nmap_host_port_t" where
  "parseNmapScanPortService node port =
     (let port = with_prop node ''name'' (\<lambda>v p. p\<lparr>np_service := Some v\<rparr>) port;
          port = (case xmlGetProp node ''proto'' of
                    Some v \<Rightarrow> port\<lparr>np_proto := if v = ''rpc'' then PORT_PROTO_RPC else PORT_PROTO_NONE\<rparr>
                  | None \<Rightarrow> port\<lparr>np_proto := PORT_PROTO_NONE\<rparr>);
          port = with_prop node ''rpcnum'' (\<lambda>v p. p\<lparr>np_rpcnum := word_of_int (atoi v)\<rparr>) port;
          port = with_prop node ''lowver'' (\<lambda>v p. p\<lparr>np_rpclowver := word_of_int (atoi v)\<rparr>) port
      in with_prop node ''highver'' (\<lambda>v p. p\<lparr>np_rpchighver := word_of_int (atoi v)\<rparr>) port)"

definition parseNmapScanPortState :: "xml \<Rightarrow> nmap_host_port_t \<Rightarrow> nmap_host_port_t" where
  "parseNmapScanPortState node port =
     port\<lparr>np_state :=
       (case xmlGetProp node ''state'' of
          Some v \<Rightarrow>
            if v = ''open'' then PORT_STATE_OPEN
            else if v = ''closed'' then PORT_STATE_CLOSED
            else if v = ''filtered'' then PORT_STATE_FILTERED
            else if v = ''UNfilitered'' then PORT_STATE_UNFILTERED
            else if v = ''unknown'' then PORT_STATE_UNKNOWN
            else PORT_STATE_UNKNOWN
        | None \<Rightarrow> PORT_STATE_UNKNOWN)\<rparr>"

definition parseNmapScanPortOwner :: "xml \<Rightarrow> nmap_host_port_t \<Rightarrow> nmap_host_port_t" where
  "parseNmapScanPortOwner node port = with_prop node ''name'' (\<lambda>v p. p\<lparr>np_owner := Some v\<rparr>) port"

definition no_port :: nmap_host_port_t where
  "no_port = \<lparr>np_protocol = 0, np_portid = 0, np_state = 0, np_service = None, np_owner = None,
     np_proto = 0, np_rpcnum = 0, np_rpclowver = 0, np_rpchighver = 0\<rparr>"

definition parseNmapScanPort :: "xml \<Rightarrow> nmap_scan_t \<Rightarrow> nmap_scan_t" where
  "parseNmapScanPort node nms =
     (let port = with_prop node ''protocol'' (\<lambda>v p.
                   if v = ''tcp'' then p\<lparr>np_protocol := PORT_PROTOCOL_TCP\<rparr>
                   else if v = ''udp'' then p\<lparr>np_protocol := PORT_PROTOCOL_UDP\<rparr>
                   else if v = ''ip'' then p\<lparr>np_protocol := PORT_PROTOCOL_IP\<rparr>
                   else p) no_port;
          port = with_prop node ''portid'' (\<lambda>v p. p\<lparr>np_portid := word_of_int (atoi v)\<rparr>) port;
          port = each_child (\<lambda>n p.
                   if x_name n = ''service'' then parseNmapScanPortService n p
                   else if x_name n = ''state'' then parseNmapScanPortState n p
                   else if x_name n = ''owner'' then parseNmapScanPortOwner n p
                   else p) node port
      in nms\<lparr>ns_ports := port # ns_ports nms\<rparr>)"

definition parseNmapScanPorts :: "xml \<Rightarrow> nmap_scan_t \<Rightarrow> nmap_scan_t" where
  "parseNmapScanPorts node nms =
     each_child (\<lambda>n s. if x_name n = ''port'' then parseNmapScanPort n s else s) node nms"

definition parseNmapScanOSosmatch :: "xml \<Rightarrow> nmap_scan_t \<Rightarrow> nmap_scan_t" where
  "parseNmapScanOSosmatch node nms = with_prop node ''name'' (\<lambda>v s. s\<lparr>ns_os_name := Some v\<rparr>) nms"

definition parseNmapScanOS :: "xml \<Rightarrow> nmap_scan_t \<Rightarrow> nmap_scan_t" where
  "parseNmapScanOS node nms =
     each_child (\<lambda>n s. if x_name n = ''osmatch'' then parseNmapScanOSosmatch n s else s) node nms"

definition parseNmapScanAddress :: "xml \<Rightarrow> nmap_scan_t \<Rightarrow> nmap_scan_t" where
  "parseNmapScanAddress node nms =
     with_prop node ''addr'' (\<lambda>v s.
       if xmlGetProp node ''addrtype'' = Some ''ipv4'' then s\<lparr>ns_addr := Some v\<rparr> else s) nms"

definition parseNmapScanUptime :: "xml \<Rightarrow> nmap_scan_t \<Rightarrow> nmap_scan_t" where
  "parseNmapScanUptime node nms =
     with_prop node ''lastboot'' (\<lambda>v s. s\<lparr>ns_uptime_last_boot := Some v\<rparr>)
       (with_prop node ''seconds'' (\<lambda>v s. s\<lparr>ns_uptime_seconds := Some v\<rparr>) nms)"

definition parseNmapScanHost :: "xml \<Rightarrow> nmap_scan_t \<Rightarrow> nmap_scan_t" where
  "parseNmapScanHost node nms =
     each_child (\<lambda>n s.
       if x_name n = ''ports'' then parseNmapScanPorts n s
       else if x_name n = ''os'' then parseNmapScanOS n s
       else if x_name n = ''address'' then parseNmapScanAddress n s
       else if x_name n = ''uptime'' then parseNmapScanUptime n s
       else s) node nms"

definition no_scan :: nmap_scan_t where
  "no_scan = \<lparr>ns_scanner = None, ns_args = None, ns_version = None, ns_addr = None, ns_ports = [],
     ns_uptime_seconds = None, ns_uptime_last_boot = None, ns_os_name = None\<rparr>"

text \<open>The document is its root, which an empty one lacks.\<close>

definition parseNmapScan :: "xml option \<Rightarrow> nmap_scan_t option" where
  "parseNmapScan doc =
     (case doc of
        None \<Rightarrow> None
      | Some cur \<Rightarrow>
          if x_name cur \<noteq> ''nmaprun'' then None
          else
            let ret = with_prop cur ''version'' (\<lambda>v s. s\<lparr>ns_version := Some v\<rparr>) no_scan;
                ret = with_prop cur ''args'' (\<lambda>v s. s\<lparr>ns_args := Some v\<rparr>) ret;
                ret = with_prop cur ''scanner'' (\<lambda>v s. s\<lparr>ns_scanner := Some v\<rparr>) ret
            in Some (each_child (\<lambda>n s. if x_name n = ''host'' then parseNmapScanHost n s else s) cur ret))"

section \<open>The command\<close>

definition OS_SCAN_OPTION_UDP_SCAN :: u64 where "OS_SCAN_OPTION_UDP_SCAN = 2 ^ 0"
definition OS_SCAN_OPTION_TCP_CONNECT_SCAN :: u64 where "OS_SCAN_OPTION_TCP_CONNECT_SCAN = 2 ^ 1"
definition OS_SCAN_OPTION_TCP_SYN_SCAN :: u64 where "OS_SCAN_OPTION_TCP_SYN_SCAN = 2 ^ 2"
definition OS_SCAN_OPTION_STEALTH_FIN :: u64 where "OS_SCAN_OPTION_STEALTH_FIN = 2 ^ 3"
definition OS_SCAN_OPTION_STEALTH_XMAS :: u64 where "OS_SCAN_OPTION_STEALTH_XMAS = 2 ^ 4"
definition OS_SCAN_OPTION_STEALTH_NULL :: u64 where "OS_SCAN_OPTION_STEALTH_NULL = 2 ^ 5"
definition OS_SCAN_OPTION_SCAN_MASK :: u64 where
  "OS_SCAN_OPTION_SCAN_MASK = OS_SCAN_OPTION_TCP_CONNECT_SCAN OR OS_SCAN_OPTION_TCP_SYN_SCAN OR OS_SCAN_OPTION_STEALTH_FIN OR OS_SCAN_OPTION_STEALTH_XMAS OR
     OS_SCAN_OPTION_STEALTH_NULL"
definition OS_SCAN_OPTION_DONT_PING :: u64 where "OS_SCAN_OPTION_DONT_PING = 2 ^ 6"
definition OS_SCAN_OPTION_USE_PORT_RANGE :: u64 where "OS_SCAN_OPTION_USE_PORT_RANGE = 2 ^ 7"
definition OS_SCAN_OPTION_FASTSCAN :: u64 where "OS_SCAN_OPTION_FASTSCAN = 2 ^ 8"
definition OS_SCAN_OPTION_OSSCAN :: u64 where "OS_SCAN_OPTION_OSSCAN = 2 ^ 9"
definition OS_SCAN_OPTION_RPC_SCAN :: u64 where "OS_SCAN_OPTION_RPC_SCAN = 2 ^ 10"
definition OS_SCAN_OPTION_IDENTD_SCAN :: u64 where "OS_SCAN_OPTION_IDENTD_SCAN = 2 ^ 11"
definition OS_SCAN_OPTION_TIMIMG_PARANOID :: u64 where "OS_SCAN_OPTION_TIMIMG_PARANOID = 2 ^ 12"
definition OS_SCAN_OPTION_TIMIMG_SNEAKY :: u64 where "OS_SCAN_OPTION_TIMIMG_SNEAKY = 2 ^ 13"
definition OS_SCAN_OPTION_TIMIMG_POLITE :: u64 where "OS_SCAN_OPTION_TIMIMG_POLITE = 2 ^ 14"
definition OS_SCAN_OPTION_TIMIMG_NORMAL :: u64 where "OS_SCAN_OPTION_TIMIMG_NORMAL = 2 ^ 15"
definition OS_SCAN_OPTION_TIMIMG_AGGRESSIVE :: u64 where "OS_SCAN_OPTION_TIMIMG_AGGRESSIVE = 2 ^ 16"
definition OS_SCAN_OPTION_TIMIMG_INSANE :: u64 where "OS_SCAN_OPTION_TIMIMG_INSANE = 2 ^ 17"
definition OS_SCAN_OPTION_TIMIMG_MASK :: u64 where
  "OS_SCAN_OPTION_TIMIMG_MASK = OS_SCAN_OPTION_TIMIMG_PARANOID OR OS_SCAN_OPTION_TIMIMG_SNEAKY OR OS_SCAN_OPTION_TIMIMG_POLITE OR OS_SCAN_OPTION_TIMIMG_NORMAL OR OS_SCAN_OPTION_TIMIMG_AGGRESSIVE OR OS_SCAN_OPTION_TIMIMG_INSANE"

definition scan_text :: "u64 \<Rightarrow> string" where
  "scan_text options =
     (let m = options AND OS_SCAN_OPTION_SCAN_MASK in
      if m = OS_SCAN_OPTION_TCP_CONNECT_SCAN then '' -sT''
      else if m = OS_SCAN_OPTION_TCP_SYN_SCAN then '' -sS''
      else if m = OS_SCAN_OPTION_STEALTH_FIN then '' -sF''
      else if m = OS_SCAN_OPTION_STEALTH_XMAS then '' -sX''
      else if m = OS_SCAN_OPTION_STEALTH_NULL then '' -sN'' else '''')"

definition timing_text :: "u64 \<Rightarrow> string" where
  "timing_text options =
     (let m = options AND OS_SCAN_OPTION_TIMIMG_MASK in
      if m = OS_SCAN_OPTION_TIMIMG_PARANOID then '' -T Paranoid''
      else if m = OS_SCAN_OPTION_TIMIMG_SNEAKY then '' -T Sneaky''
      else if m = OS_SCAN_OPTION_TIMIMG_POLITE then '' -T Polite''
      else if m = OS_SCAN_OPTION_TIMIMG_NORMAL then '' -T Normal''
      else if m = OS_SCAN_OPTION_TIMIMG_AGGRESSIVE then '' -T Aggressive''
      else if m = OS_SCAN_OPTION_TIMIMG_INSANE then '' -T Insane'' else '''')"

definition flag_text :: "u64 \<Rightarrow> string" where
  "flag_text options =
     (let on = (\<lambda>f t. if options AND f \<noteq> 0 then t else '''') in
      on OS_SCAN_OPTION_OSSCAN '' -O'' @ on OS_SCAN_OPTION_UDP_SCAN '' -sU'' @ on OS_SCAN_OPTION_RPC_SCAN '' -sR'' @
      on OS_SCAN_OPTION_IDENTD_SCAN '' -I'' @ on OS_SCAN_OPTION_FASTSCAN '' -F'' @ on OS_SCAN_OPTION_DONT_PING '' -P0'')"

definition nmap_cmd :: "cstring \<Rightarrow> u64 \<Rightarrow> cstring \<Rightarrow> string" where
  "nmap_cmd ip options port_range =
     ''nmap '' @ ip @ '' -oX - -n'' @ scan_text options @ timing_text options @ flag_text options @
     (if options AND OS_SCAN_OPTION_USE_PORT_RANGE \<noteq> 0 then '' -p '' @ port_range else '''')"

section \<open>Running it\<close>

text \<open>
  \<open>popen\<close> answers a command with what its pipe delivers, or \<^theory_text>\<open>None\<close> for NULL; \<open>parse\<close> is
  \<^verbatim>\<open>xmlParseDoc\<close>. The command is built in 500 bytes, each step appending to it. The first
  loop skips to a \<^verbatim>\<open><\<close>; when there is none, what is parsed was never written.
\<close>

definition NMAP_BUFFER :: nat where "NMAP_BUFFER = 80000"

definition runNmapScan ::
  "(string \<Rightarrow> string option) \<Rightarrow> (string \<Rightarrow> xml option option) \<Rightarrow> cstring \<Rightarrow> u64 \<Rightarrow> cstring
     \<Rightarrow> xml option option outcome" where
  "runNmapScan popen parse_doc ip options port_range =
     (let cmd = nmap_cmd ip options port_range in
      if length cmd \<ge> 500 then UB
      else case popen cmd of
        None \<Rightarrow> Ret None
      | Some out \<Rightarrow>
          let text = dropWhile (\<lambda>c. c \<noteq> CHR ''<'') out in
          if text = [] then UB
          else if length text + 1 \<ge> NMAP_BUFFER then Ret None
          else Ret (parse_doc (takeWhile (\<lambda>c. c \<noteq> NUL) text)))"

definition nmap_scan ::
  "(string \<Rightarrow> string option) \<Rightarrow> (string \<Rightarrow> xml option option) \<Rightarrow> cstring \<Rightarrow> u64 \<Rightarrow> cstring
     \<Rightarrow> nmap_scan_t option outcome" where
  "nmap_scan popen parse_doc ip options port_range =
     obind (runNmapScan popen parse_doc ip options port_range) (\<lambda>d.
       case d of None \<Rightarrow> Ret None | Some doc \<Rightarrow> Ret (parseNmapScan doc))"

end
