(* ===== verification/Os_Scan.thy ===== *)
theory Os_Scan
  imports Nmap Event
begin

text \<open>
  OS scans: \<^verbatim>\<open>agent-osscan.c\<close>, which queues requests, runs the scanner of \<^theory_text>\<open>Nmap\<close> in a second
  thread and packs what it found into a reply, and \<^verbatim>\<open>handle_os_scan_reply\<close> of
  \<^verbatim>\<open>gui-handlers.c\<close>, which unpacks it.

  An option is a type, a length and fields in network byte order, followed by strings. The
  strings and the pointer are copied as they are; the address is one of network order already.
  The two threads share a queue, a semaphore, one buffer and one slot for the reply to be sent,
  which two mutexes guard; they are steps of \<open>os_step\<close>.
\<close>

section \<open>Packing\<close>

definition OS_SCAN_OPTION_OS :: u32 where "OS_SCAN_OPTION_OS = 1"
definition OS_SCAN_OPTION_PORT :: u32 where "OS_SCAN_OPTION_PORT = 2"
definition OS_SCAN_OPTION_UPTIME :: u32 where "OS_SCAN_OPTION_UPTIME = 3"

lemmas os_options = OS_SCAN_OPTION_OS_def OS_SCAN_OPTION_PORT_def OS_SCAN_OPTION_UPTIME_def

definition or_empty :: "cstring option \<Rightarrow> cstring" where
  "or_empty s = (case s of None \<Rightarrow> '''' | Some t \<Rightarrow> t)"

definition os_option :: "cstring \<Rightarrow> u8 list" where
  "os_option name =
     be32 OS_SCAN_OPTION_OS @ be32 (word_of_nat (8 + length name + 1)) @ cstr_bytes name"

definition port_option :: "nmap_host_port_t \<Rightarrow> u8 list" where
  "port_option port =
     (let text = cstr_bytes (or_empty (np_service port)) @ cstr_bytes (or_empty (np_owner port)) in
      be32 OS_SCAN_OPTION_PORT @ be32 (word_of_nat (36 + length text)) @ be32 (np_protocol port) @
      be32 (np_state port) @ be32 (np_portid port) @ be32 (np_proto port) @ be32 (np_rpcnum port) @
      be32 (np_rpclowver port) @ be32 (np_rpchighver port) @ text)"

definition uptime_option :: "cstring \<Rightarrow> cstring option \<Rightarrow> u8 list" where
  "uptime_option seconds last_boot =
     (let text = cstr_bytes (or_empty last_boot) in
      be32 OS_SCAN_OPTION_UPTIME @ be32 (word_of_nat (12 + length text)) @
      be32 (word_of_int (atoi seconds)) @ text)"

definition scan_options :: "nmap_scan_t \<Rightarrow> u8 list list" where
  "scan_options n =
     (case ns_os_name n of None \<Rightarrow> [] | Some name \<Rightarrow> [os_option name]) @
     map port_option (ns_ports n) @
     (case ns_uptime_seconds n of None \<Rightarrow> [] | Some s \<Rightarrow> [uptime_option s (ns_uptime_last_boot n)])"

text \<open>
  The event that \<^verbatim>\<open>send_osscan_reply\<close> leaves in its buffer of \<^verbatim>\<open>MAX_EVENT_SIZE\<close> bytes, past whose
  end a long scan is written. A scan without an address makes \<^verbatim>\<open>inet_addr\<close> read NULL.
\<close>

definition osscan_body :: "u32 \<Rightarrow> u64 \<Rightarrow> u8 list list \<Rightarrow> u8 list" where
  "osscan_body ip np opts = be32 (word_of_nat (length opts)) @ le32 ip @ ptr_bytes np @ concat opts"

definition send_osscan_reply :: "nmap_scan_t \<Rightarrow> u64 \<Rightarrow> u8 list outcome" where
  "send_osscan_reply n np =
     (case ns_addr n of
        None \<Rightarrow> UB
      | Some addr \<Rightarrow>
          let ev = mk_event REPLY_OS_SCAN 0 (osscan_body (inet_addr addr) np (scan_options n)) in
          if length ev > MAX_EVENT_SIZE then UB else Ret ev)"

section \<open>Unpacking\<close>

record os_port_entry =
  op_port :: u32
  op_protocol :: u32
  op_name :: cstring
  op_version :: "cstring option"
  op_owner :: cstring
  op_state :: u32
  op_rpcnum :: u32
  op_rpclowver :: u32
  op_rpchighver :: u32
  op_proto :: u32

record os_stats =
  os_name :: "cstring option"
  os_ports :: "os_port_entry list"
  os_uptime_seconds :: u32
  os_uptime_last_boot :: "cstring option"

definition no_os_stats :: os_stats where
  "no_os_stats = \<lparr>os_name = None, os_ports = [], os_uptime_seconds = 0, os_uptime_last_boot = None\<rparr>"

text \<open>A field, and the string, at an offset of what is left of the event; past it is undefined.\<close>

definition field :: "nat \<Rightarrow> u8 list \<Rightarrow> u32 outcome" where
  "field i bs = (if i + 4 \<le> length bs then Ret (of_be32 (drop i bs)) else UB)"

definition text_at :: "nat \<Rightarrow> u8 list \<Rightarrow> cstring outcome" where
  "text_at i bs = (if 0 \<in> set (drop i bs) then Ret (bytes_cstr (drop i bs)) else UB)"

definition read_port :: "u8 list \<Rightarrow> os_port_entry outcome" where
  "read_port opt =
     obind (field 8 opt) (\<lambda>protocol. obind (field 12 opt) (\<lambda>state. obind (field 16 opt) (\<lambda>number.
     obind (field 20 opt) (\<lambda>proto. obind (field 24 opt) (\<lambda>rpcnum. obind (field 28 opt) (\<lambda>low.
     obind (field 32 opt) (\<lambda>high. obind (text_at 36 opt) (\<lambda>name.
     obind (text_at (36 + length name + 1) opt) (\<lambda>owner.
       Ret \<lparr>op_port = number, op_protocol = protocol, op_name = name, op_version = None, op_owner = owner,
            op_state = state, op_rpcnum = rpcnum, op_rpclowver = low, op_rpchighver = high,
            op_proto = proto\<rparr>)))))))))"

text \<open>
  The loop of \<^verbatim>\<open>handle_os_scan_reply\<close>. \<open>num\<close> options are read; an unknown one is logged and
  skipped. The ports, also handed to \<^verbatim>\<open>add_service\<close> and \<^verbatim>\<open>do_probe\<close>, are put in front.
\<close>

fun read_options :: "nat \<Rightarrow> u8 list \<Rightarrow> os_stats \<Rightarrow> os_stats outcome" where
  "read_options 0 bs d = Ret d"
| "read_options (Suc n) bs d =
     obind (field 0 bs) (\<lambda>ty. obind (field 4 bs) (\<lambda>len.
     obind (if ty = OS_SCAN_OPTION_OS
            then obind (text_at 8 bs) (\<lambda>s. Ret (d\<lparr>os_name := Some s\<rparr>))
            else if ty = OS_SCAN_OPTION_UPTIME
            then obind (field 8 bs) (\<lambda>secs. obind (text_at 12 bs) (\<lambda>s.
                   Ret (if s \<noteq> [] then d\<lparr>os_uptime_seconds := secs, os_uptime_last_boot := Some s\<rparr>
                        else d\<lparr>os_uptime_seconds := secs\<rparr>)))
            else if ty = OS_SCAN_OPTION_PORT
            then obind (read_port bs) (\<lambda>p. Ret (d\<lparr>os_ports := p # os_ports d\<rparr>))
            else Ret d)
       (\<lambda>d'. read_options n (drop (unat len) bs) d')))"

text \<open>
  The reply as a whole: for the page and the address of a known host, the new data. The number
  of options is an \<^verbatim>\<open>int\<close>.
\<close>

definition osscan_key :: "u8 list \<Rightarrow> u64 \<times> u32" where
  "osscan_key e = (ptr_of (drop 8 e), of_le32 (drop 4 e))"

definition read_osscan_reply :: "u8 list \<Rightarrow> os_stats outcome" where
  "read_osscan_reply e = read_options (nat (sint (of_be32 e))) (drop 16 e) no_os_stats"

section \<open>The round trip\<close>

definition entry_of :: "nmap_host_port_t \<Rightarrow> os_port_entry" where
  "entry_of p = \<lparr>op_port = np_portid p, op_protocol = np_protocol p, op_name = or_empty (np_service p),
     op_version = None, op_owner = or_empty (np_owner p), op_state = np_state p, op_rpcnum = np_rpcnum p,
     op_rpclowver = np_rpclowver p, op_rpchighver = np_rpchighver p, op_proto = np_proto p\<rparr>"

definition plain :: "cstring option \<Rightarrow> bool" where
  "plain s \<longleftrightarrow> (\<forall>t. s = Some t \<longrightarrow> NUL \<notin> set t)"

lemma plain_or_empty: "plain s \<Longrightarrow> NUL \<notin> set (or_empty s)"
  by (cases s) (auto simp: plain_def or_empty_def)

lemma cstr_at [simp]: "0 \<in> set (cstr_bytes s)"
  by (simp add: cstr_bytes_def)

lemma read_os_option:
  assumes "NUL \<notin> set name" "length name < 2 ^ 31"
  shows "read_options (Suc n) (os_option name @ rest) d = read_options n rest (d\<lparr>os_name := Some name\<rparr>)"
proof -
  have "unat (word_of_nat (9 + length name) :: u32) = 9 + length name"
    using assms(2) by (simp del: of_nat_add add: unat_of_nat)
  then show ?thesis
    using assms(1)
    by (simp add: os_option_def field_def text_at_def os_options bytes_cstr_cstr_bytes del: of_nat_add)
qed

lemma read_uptime_option:
  assumes "plain b" "length (or_empty b) < 2 ^ 31"
  shows "read_options (Suc n) (uptime_option secs b @ rest) d =
    read_options n rest (d\<lparr>os_uptime_seconds := word_of_int (atoi secs),
      os_uptime_last_boot := if or_empty b = '''' then os_uptime_last_boot d else Some (or_empty b)\<rparr>)"
proof -
  have "unat (word_of_nat (12 + Suc (length (or_empty b))) :: u32) = 12 + Suc (length (or_empty b))"
    using assms(2) by (simp del: of_nat_add of_nat_Suc add: unat_of_nat)
  then show ?thesis
    using plain_or_empty [OF assms(1)]
    by (simp add: uptime_option_def Let_def field_def text_at_def os_options bytes_cstr_cstr_bytes
        del: of_nat_add of_nat_Suc)
qed

lemma read_port_option:
  assumes "plain (np_service p)" "plain (np_owner p)"
    "length (or_empty (np_service p)) + length (or_empty (np_owner p)) < 2 ^ 31"
  shows "read_options (Suc n) (port_option p @ rest) d =
    read_options n rest (d\<lparr>os_ports := entry_of p # os_ports d\<rparr>)"
proof -
  let ?s = "or_empty (np_service p)" and ?o = "or_empty (np_owner p)"
  let ?n = "36 + (Suc (length ?s) + Suc (length ?o))"
  have n: "unat (word_of_nat ?n :: u32) = ?n"
    using assms(3) by (simp del: of_nat_add of_nat_Suc add: unat_of_nat)
  have opt: "port_option p @ rest = be32 OS_SCAN_OPTION_PORT @ be32 (word_of_nat ?n) @ be32 (np_protocol p) @
      be32 (np_state p) @ be32 (np_portid p) @ be32 (np_proto p) @ be32 (np_rpcnum p) @
      be32 (np_rpclowver p) @ be32 (np_rpchighver p) @ cstr_bytes ?s @ cstr_bytes ?o @ rest"
    by (simp add: port_option_def Let_def del: of_nat_add of_nat_Suc)
  have "read_port (port_option p @ rest) = Ret (entry_of p)"
    using plain_or_empty [OF assms(1)] plain_or_empty [OF assms(2)]
    unfolding opt by (simp add: read_port_def field_def text_at_def bytes_cstr_cstr_bytes entry_of_def)
  then show ?thesis
    using n unfolding opt by (simp add: field_def os_options del: of_nat_add of_nat_Suc)
qed

lemma read_ports_options:
  assumes "\<forall>p \<in> set ps. plain (np_service p) \<and> plain (np_owner p) \<and>
      length (or_empty (np_service p)) + length (or_empty (np_owner p)) < 2 ^ 31"
  shows "read_options (length ps + n) (concat (map port_option ps) @ rest) d =
    read_options n rest (d\<lparr>os_ports := rev (map entry_of ps) @ os_ports d\<rparr>)"
  using assms
proof (induction ps arbitrary: d)
  case (Cons p ps)
  then show ?case using read_port_option [of p "length ps + n" "concat (map port_option ps) @ rest" d] by simp
qed simp

text \<open>What the other side holds after a scan, with the ports in the order they were prepended in.\<close>

definition os_view :: "nmap_scan_t \<Rightarrow> os_stats" where
  "os_view n = \<lparr>os_name = ns_os_name n, os_ports = rev (map entry_of (ns_ports n)),
     os_uptime_seconds = (case ns_uptime_seconds n of None \<Rightarrow> 0 | Some s \<Rightarrow> word_of_int (atoi s)),
     os_uptime_last_boot = (if ns_uptime_seconds n = None \<or> or_empty (ns_uptime_last_boot n) = '''' then None
                            else ns_uptime_last_boot n)\<rparr>"

definition scan_plain :: "nmap_scan_t \<Rightarrow> bool" where
  "scan_plain n \<longleftrightarrow> plain (ns_os_name n) \<and> plain (ns_uptime_last_boot n) \<and>
     (\<forall>p \<in> set (ns_ports n). plain (np_service p) \<and> plain (np_owner p))"

lemma concat_member: "x \<in> set xs \<Longrightarrow> length x \<le> length (concat xs)"
  by (induction xs) auto

lemma length_concat_ge: "\<forall>x \<in> set xs. 0 < length x \<Longrightarrow> length xs \<le> length (concat xs)"
proof (induction xs)
  case (Cons x xs)
  then have "length xs \<le> length (concat xs)" "0 < length x" by auto
  then show ?case by (simp del: length_concat length_greater_0_conv)
qed simp

lemma options_nonempty: "x \<in> set (scan_options n) \<Longrightarrow> 0 < length x"
  unfolding scan_options_def os_option_def port_option_def uptime_option_def Let_def
  by (auto simp: be32_def split: option.splits)

lemma read_scan_options:
  assumes "scan_plain n" "length (concat (scan_options n)) < 2 ^ 31"
  shows "read_options (length (scan_options n)) (concat (scan_options n) @ rest) no_os_stats = Ret (os_view n)"
proof -
  have len: "length x < 2 ^ 31" if "x \<in> set (scan_options n)" for x
    using concat_member [OF that] assms(2) by simp
  define up where "up = (case ns_uptime_seconds n of None \<Rightarrow> [] | Some s \<Rightarrow> [uptime_option s (ns_uptime_last_boot n)])"
  have ports: "\<forall>p \<in> set (ns_ports n). plain (np_service p) \<and> plain (np_owner p) \<and>
      length (or_empty (np_service p)) + length (or_empty (np_owner p)) < 2 ^ 31"
  proof
    fix p assume p: "p \<in> set (ns_ports n)"
    then have "length (port_option p) < 2 ^ 31" by (intro len) (simp add: scan_options_def)
    with p assms(1) show "plain (np_service p) \<and> plain (np_owner p) \<and>
        length (or_empty (np_service p)) + length (or_empty (np_owner p)) < 2 ^ 31"
      by (simp add: scan_plain_def port_option_def Let_def)
  qed
  have up': "read_options (length up) (concat up @ rest) (d\<lparr>os_ports := ps\<rparr>) =
      Ret (d\<lparr>os_ports := ps, os_uptime_seconds := os_uptime_seconds (os_view n),
        os_uptime_last_boot := os_uptime_last_boot (os_view n)\<rparr>)"
    if "os_uptime_seconds d = 0" "os_uptime_last_boot d = None" for d ps
  proof (cases "ns_uptime_seconds n")
    case None
    then show ?thesis using that by (cases d) (simp add: up_def os_view_def)
  next
    case (Some s)
    then have "length (uptime_option s (ns_uptime_last_boot n)) < 2 ^ 31"
      by (intro len) (simp add: scan_options_def)
    then have "length (or_empty (ns_uptime_last_boot n)) < 2 ^ 31" by (simp add: uptime_option_def Let_def)
    moreover have "plain (ns_uptime_last_boot n)" using assms(1) by (simp add: scan_plain_def)
    moreover have "or_empty (ns_uptime_last_boot n) \<noteq> '''' \<Longrightarrow>
        Some (or_empty (ns_uptime_last_boot n)) = ns_uptime_last_boot n"
      by (cases "ns_uptime_last_boot n") (simp_all add: or_empty_def)
    ultimately show ?thesis
      using Some that by (simp add: up_def read_uptime_option os_view_def del: read_options.simps(2))
  qed
  show ?thesis
  proof (cases "ns_os_name n")
    case None
    then show ?thesis
      using read_ports_options [OF ports, of "length up" "concat up @ rest"] up' [of no_os_stats]
      by (simp add: scan_options_def up_def [symmetric] no_os_stats_def os_view_def)
  next
    case (Some name)
    then have "os_option name \<in> set (scan_options n)" by (simp add: scan_options_def)
    from len [OF this] have "length name < 2 ^ 31" by (simp add: os_option_def)
    moreover have "NUL \<notin> set name" using assms(1) Some by (simp add: scan_plain_def plain_def)
    ultimately show ?thesis
      using read_ports_options [OF ports, of "length up" "concat up @ rest"] Some
        up' [of "no_os_stats\<lparr>os_name := Some name\<rparr>"]
      by (simp add: scan_options_def up_def [symmetric] read_os_option no_os_stats_def os_view_def
          del: read_options.simps(2))
  qed
qed

lemma osscan_roundtrip:
  assumes "send_osscan_reply n np = Ret ev" "scan_plain n"
  shows "\<exists>body addr. ev = mk_event REPLY_OS_SCAN 0 body \<and> ns_addr n = Some addr \<and>
    read_osscan_reply (body @ rest) = Ret (os_view n) \<and> osscan_key (body @ rest) = (np, inet_addr addr)"
proof -
  obtain addr where addr: "ns_addr n = Some addr"
    "ev = mk_event REPLY_OS_SCAN 0 (osscan_body (inet_addr addr) np (scan_options n))"
    "length ev \<le> 65536"
    using assms(1) by (auto simp: send_osscan_reply_def Let_def MAX_EVENT_SIZE_def split: option.splits if_splits)
  then have l: "length (concat (scan_options n)) < 2 ^ 31"
    by (simp add: osscan_body_def)
  have "length (scan_options n) \<le> length (concat (scan_options n))"
    by (rule length_concat_ge) (use options_nonempty in blast)
  then have "length (scan_options n) < 2 ^ 31" using l by simp
  then have num: "nat (sint (word_of_nat (length (scan_options n)) :: u32)) = length (scan_options n)"
    by (simp add: signed_of_nat signed_take_bit_int_eq_self)
  let ?body = "osscan_body (inet_addr addr) np (scan_options n)"
  have "read_osscan_reply (?body @ rest) = Ret (os_view n)" "osscan_key (?body @ rest) = (np, inet_addr addr)"
    using read_scan_options [OF assms(2) l, of rest] num
    by (simp_all add: read_osscan_reply_def osscan_body_def osscan_key_def)
  with addr show ?thesis by blast
qed

section \<open>The report of the scanner\<close>

text \<open>
  What \<^verbatim>\<open>nmap\<close> reports of one host, as the tree it prints: the root, blank nodes between the
  elements, the host, its address, its ports in order, the name of the system and the uptime.
\<close>

definition blank :: xml where "blank = XmlNode True ''text'' [] []"

definition elem :: "string \<Rightarrow> (string \<times> string) list \<Rightarrow> xml list \<Rightarrow> xml" where
  "elem name props children = XmlNode False name props (concat (map (\<lambda>c. [blank, c]) children) @ [blank])"

definition opt_prop :: "string \<Rightarrow> string option \<Rightarrow> (string \<times> string) list" where
  "opt_prop name v = (case v of None \<Rightarrow> [] | Some s \<Rightarrow> [(name, s)])"

definition num :: "u32 \<Rightarrow> string" where "num n = show_nat (unat n)"

definition protocol_text :: "u32 \<Rightarrow> string" where
  "protocol_text p = (if p = PORT_PROTOCOL_TCP then ''tcp'' else if p = PORT_PROTOCOL_UDP then ''udp'' else ''ip'')"

definition state_text :: "u32 \<Rightarrow> string" where
  "state_text s = (if s = PORT_STATE_OPEN then ''open'' else if s = PORT_STATE_CLOSED then ''closed''
     else if s = PORT_STATE_FILTERED then ''filtered'' else ''unknown'')"

definition port_xml :: "nmap_host_port_t \<Rightarrow> xml" where
  "port_xml p =
     elem ''port'' [(''protocol'', protocol_text (np_protocol p)), (''portid'', num (np_portid p))]
       ([elem ''state'' [(''state'', state_text (np_state p))] []] @
        (case np_owner p of None \<Rightarrow> [] | Some v \<Rightarrow> [elem ''owner'' [(''name'', v)] []]) @
        [elem ''service'' (opt_prop ''name'' (np_service p) @
           [(''proto'', if np_proto p = PORT_PROTO_RPC then ''rpc'' else ''tcp''), (''rpcnum'', num (np_rpcnum p)),
            (''lowver'', num (np_rpclowver p)), (''highver'', num (np_rpchighver p))]) []])"

definition report_xml :: "nmap_scan_t \<Rightarrow> xml" where
  "report_xml n =
     elem ''nmaprun'' (opt_prop ''scanner'' (ns_scanner n) @ opt_prop ''args'' (ns_args n) @
         opt_prop ''version'' (ns_version n))
       [elem ''host'' []
         ([elem ''status'' [(''state'', ''up'')] []] @
          (case ns_addr n of None \<Rightarrow> []
           | Some v \<Rightarrow> [elem ''address'' [(''addr'', v), (''addrtype'', ''ipv4'')] []]) @
          [elem ''ports'' [] (map port_xml (ns_ports n))] @
          (case ns_os_name n of None \<Rightarrow> []
           | Some v \<Rightarrow> [elem ''os'' [] [elem ''osmatch'' [(''name'', v)] []]]) @
          [elem ''uptime'' (opt_prop ''seconds'' (ns_uptime_seconds n) @
             opt_prop ''lastboot'' (ns_uptime_last_boot n)) []])]"

definition port_ok :: "nmap_host_port_t \<Rightarrow> bool" where
  "port_ok p \<longleftrightarrow> np_protocol p \<in> {PORT_PROTOCOL_TCP, PORT_PROTOCOL_UDP, PORT_PROTOCOL_IP} \<and>
     np_state p \<in> {PORT_STATE_OPEN, PORT_STATE_CLOSED, PORT_STATE_FILTERED, PORT_STATE_UNKNOWN} \<and>
     np_proto p \<in> {PORT_PROTO_NONE, PORT_PROTO_RPC} \<and>
     unat (np_portid p) < 2 ^ 31 \<and> unat (np_rpcnum p) < 2 ^ 31 \<and>
     unat (np_rpclowver p) < 2 ^ 31 \<and> unat (np_rpchighver p) < 2 ^ 31"

lemma digit_no_sign: "digit_val c < 10 \<Longrightarrow> \<not> c_isspace c \<and> c \<noteq> CHR ''-'' \<and> c \<noteq> CHR ''+''"
  by (auto simp: digit_val_def c_isspace_def Let_def split: if_splits)

lemma atoi_show_nat:
  assumes "n < 2 ^ 31"
  shows "atoi (show_nat n) = int n"
proof -
  have h: "show_nat n \<noteq> []" "digit_val (hd (show_nat n)) < 10"
    using show_nat_head [of n "[]"] by simp_all
  then have "dropWhile c_isspace (show_nat n) = show_nat n"
    using digit_no_sign by (cases "show_nat n") auto
  moreover have "read_digits 10 0 (show_nat n) = (n, [])"
    using read_digits_show [of n "[]"] assms by simp
  ultimately have "strtol10 (show_nat n) = int n"
    using h assms digit_no_sign [OF h(2)] by (simp add: strtol10_def Let_def)
  then show ?thesis using assms by (simp add: atoi_def to_int32_id)
qed

lemma word_atoi_num: "unat n < 2 ^ 31 \<Longrightarrow> word_of_int (atoi (num n)) = n"
  by (simp add: num_def atoi_show_nat)

lemma elem_simps [simp]: "x_blank (elem nm ps cs) = False" "x_name (elem nm ps cs) = nm"
  "xmlGetProp (elem nm ps cs) a = map_of ps a"
  by (simp_all add: elem_def xmlGetProp_def)

lemma each_child_elem [simp]:
  "each_child f (elem nm ps cs) s = foldl (\<lambda>s n. if x_blank n then s else f n s) s cs"
proof -
  have "foldl (\<lambda>s n. if x_blank n then s else f n s) s (concat (map (\<lambda>c. [blank, c]) cs) @ [blank]) =
      foldl (\<lambda>s n. if x_blank n then s else f n s) s cs" for s
    by (induction cs arbitrary: s) (simp_all add: blank_def)
  then show ?thesis by (simp add: each_child_def elem_def)
qed

lemma x_blank_port [simp]: "x_blank (port_xml p) = False" "x_name (port_xml p) = ''port''"
  by (simp_all add: port_xml_def)

lemma parse_service_xml:
  assumes "proto \<in> {PORT_PROTO_NONE, PORT_PROTO_RPC}" "unat a < 2 ^ 31" "unat b < 2 ^ 31" "unat c < 2 ^ 31"
  shows "parseNmapScanPortService (elem ''service'' (opt_prop ''name'' w @
      [(''proto'', if proto = PORT_PROTO_RPC then ''rpc'' else ''tcp''), (''rpcnum'', num a),
       (''lowver'', num b), (''highver'', num c)]) []) q =
    q\<lparr>np_service := (case w of None \<Rightarrow> np_service q | Some v \<Rightarrow> Some v), np_proto := proto,
      np_rpcnum := a, np_rpclowver := b, np_rpchighver := c\<rparr>"
  using assms word_atoi_num [of a] word_atoi_num [of b] word_atoi_num [of c]
  by (cases w) (auto simp: parseNmapScanPortService_def with_prop_def opt_prop_def port_consts Let_def)

lemma parse_state_xml:
  assumes "st \<in> {PORT_STATE_OPEN, PORT_STATE_CLOSED, PORT_STATE_FILTERED, PORT_STATE_UNKNOWN}"
  shows "parseNmapScanPortState (elem ''state'' [(''state'', state_text st)] []) q = q\<lparr>np_state := st\<rparr>"
  using assms by (auto simp: parseNmapScanPortState_def state_text_def port_consts)

lemma parse_port_xml:
  assumes "port_ok p"
  shows "parseNmapScanPort (port_xml p) s = s\<lparr>ns_ports := p # ns_ports s\<rparr>"
proof -
  have n: "word_of_int (atoi (num (np_portid p))) = np_portid p"
    using assms by (simp add: port_ok_def word_atoi_num)
  have t: "np_protocol p = PORT_PROTOCOL_TCP \<or> np_protocol p = PORT_PROTOCOL_UDP \<or> np_protocol p = PORT_PROTOCOL_IP"
    using assms by (auto simp: port_ok_def)
  have pr: "(if protocol_text (np_protocol p) = ''tcp'' then q\<lparr>np_protocol := PORT_PROTOCOL_TCP\<rparr>
      else if protocol_text (np_protocol p) = ''udp'' then q\<lparr>np_protocol := PORT_PROTOCOL_UDP\<rparr>
      else if protocol_text (np_protocol p) = ''ip'' then q\<lparr>np_protocol := PORT_PROTOCOL_IP\<rparr> else q) =
      q\<lparr>np_protocol := np_protocol p\<rparr>" for q
    using t by (auto simp: protocol_text_def port_consts)
  have port: "xmlGetProp (port_xml p) ''protocol'' = Some (protocol_text (np_protocol p))"
    "xmlGetProp (port_xml p) ''portid'' = Some (num (np_portid p))"
    by (simp_all add: port_xml_def)
  have ow: "parseNmapScanPortOwner (elem ''owner'' [(''name'', v)] []) q = q\<lparr>np_owner := Some v\<rparr>" for v q
    by (simp add: parseNmapScanPortOwner_def with_prop_def)
  show ?thesis
    unfolding parseNmapScanPort_def with_prop_def port option.case pr n Let_def
    unfolding port_xml_def each_child_elem
    using assms by (cases "np_owner p"; cases p)
      (auto simp: port_ok_def parse_state_xml parse_service_xml ow no_port_def split del: if_split split: option.split)
qed

lemma parse_ports_xml:
  assumes "\<forall>p \<in> set ps. port_ok p"
  shows "parseNmapScanPorts (elem ''ports'' [] (map port_xml ps)) s = s\<lparr>ns_ports := rev ps @ ns_ports s\<rparr>"
  using assms unfolding parseNmapScanPorts_def each_child_elem
  by (induction ps arbitrary: s) (simp_all add: parse_port_xml)

lemma parse_report_xml:
  assumes "\<forall>p \<in> set (ns_ports n). port_ok p"
  shows "parseNmapScan (Some (report_xml n)) = Some (n\<lparr>ns_ports := rev (ns_ports n)\<rparr>)"
proof -
  let ?s = "\<lambda>s. s\<lparr>ns_uptime_seconds := (case ns_uptime_seconds n of None \<Rightarrow> ns_uptime_seconds s | v \<Rightarrow> v),
    ns_uptime_last_boot := (case ns_uptime_last_boot n of None \<Rightarrow> ns_uptime_last_boot s | v \<Rightarrow> v)\<rparr>"
  have up: "parseNmapScanUptime (elem ''uptime'' (opt_prop ''seconds'' a @ opt_prop ''lastboot'' b) []) s =
      s\<lparr>ns_uptime_seconds := (case a of None \<Rightarrow> ns_uptime_seconds s | v \<Rightarrow> v),
        ns_uptime_last_boot := (case b of None \<Rightarrow> ns_uptime_last_boot s | v \<Rightarrow> v)\<rparr>" for a b s
    by (cases a; cases b) (simp_all add: parseNmapScanUptime_def with_prop_def opt_prop_def)
  have ad: "parseNmapScanAddress (elem ''address'' [(''addr'', v), (''addrtype'', ''ipv4'')] []) s =
      s\<lparr>ns_addr := Some v\<rparr>" for v s
    by (simp add: parseNmapScanAddress_def with_prop_def)
  have os: "parseNmapScanOS (elem ''os'' [] [elem ''osmatch'' [(''name'', v)] []]) s = s\<lparr>ns_os_name := Some v\<rparr>" for v s
    by (simp add: parseNmapScanOS_def parseNmapScanOSosmatch_def with_prop_def)
  let ?h = "[elem ''status'' [(''state'', ''up'')] []] @
          (case ns_addr n of None \<Rightarrow> []
           | Some v \<Rightarrow> [elem ''address'' [(''addr'', v), (''addrtype'', ''ipv4'')] []]) @
          [elem ''ports'' [] (map port_xml (ns_ports n))] @
          (case ns_os_name n of None \<Rightarrow> []
           | Some v \<Rightarrow> [elem ''os'' [] [elem ''osmatch'' [(''name'', v)] []]]) @
          [elem ''uptime'' (opt_prop ''seconds'' (ns_uptime_seconds n) @
             opt_prop ''lastboot'' (ns_uptime_last_boot n)) []]"
  have host: "parseNmapScanHost (elem ''host'' [] ?h) s =
      ?s (s\<lparr>ns_addr := (case ns_addr n of None \<Rightarrow> ns_addr s | v \<Rightarrow> v), ns_ports := rev (ns_ports n) @ ns_ports s,
        ns_os_name := (case ns_os_name n of None \<Rightarrow> ns_os_name s | v \<Rightarrow> v)\<rparr>)" for s
    unfolding parseNmapScanHost_def each_child_elem
    by (cases "ns_addr n"; cases "ns_os_name n"; cases "ns_uptime_seconds n"; cases "ns_uptime_last_boot n")
      (simp_all add: up ad os parse_ports_xml [OF assms])
  have attrs: "with_prop (report_xml n) ''scanner'' (\<lambda>v s. s\<lparr>ns_scanner := Some v\<rparr>)
      (with_prop (report_xml n) ''args'' (\<lambda>v s. s\<lparr>ns_args := Some v\<rparr>)
        (with_prop (report_xml n) ''version'' (\<lambda>v s. s\<lparr>ns_version := Some v\<rparr>) no_scan)) =
      no_scan\<lparr>ns_scanner := ns_scanner n, ns_args := ns_args n, ns_version := ns_version n\<rparr>"
    by (cases "ns_scanner n"; cases "ns_args n"; cases "ns_version n")
      (simp_all add: report_xml_def with_prop_def opt_prop_def no_scan_def)
  have name: "x_name (report_xml n) = ''nmaprun''" by (simp add: report_xml_def)
  have child: "each_child f (report_xml n) s = f (elem ''host'' [] ?h) s"
    for f :: "xml \<Rightarrow> nmap_scan_t \<Rightarrow> nmap_scan_t" and s
    unfolding report_xml_def each_child_elem by (simp only: foldl.simps elem_simps if_False)
  have "parseNmapScan (Some (report_xml n)) = Some (parseNmapScanHost (elem ''host'' [] ?h)
      (no_scan\<lparr>ns_scanner := ns_scanner n, ns_args := ns_args n, ns_version := ns_version n\<rparr>))"
    unfolding parseNmapScan_def Let_def attrs option.case name child by simp
  then show ?thesis
    unfolding host by (cases n) (auto simp: no_scan_def split: option.split)
qed

text \<open>
  C20. A scan reaches its client: the command that is run asks \<^verbatim>\<open>nmap\<close> for the address of the request
  and for XML on its output; and what the scanner reports of a host, in the XML that \<^verbatim>\<open>popen\<close>
  delivers and the XML library parses, is walked, packed, sent and unpacked to the same name, the
  same ports in the same order and the same uptime, for the pointer of the request and the address
  that the report names. The command has fewer than 500 characters, the output fewer than 79999,
  the reply at most 65536 bytes, the texts of the report hold no NUL, and its ports are of the
  protocols and states that the code knows, with numbers below \<^verbatim>\<open>2^31\<close>.
\<close>

theorem scan_reaches_gui:
  assumes "length (nmap_cmd ip options ports) < 500" "popen (nmap_cmd ip options ports) = Some out"
    "CHR ''<'' \<in> set out" "length out < 79999"
    "parse_doc (takeWhile (\<lambda>c. c \<noteq> NUL) (dropWhile (\<lambda>c. c \<noteq> CHR ''<'') out)) = Some (Some (report_xml r))"
    "\<forall>p \<in> set (ns_ports r). port_ok p" "scan_plain r" "ns_addr r = Some addr"
    "length (concat (scan_options r)) \<le> 65536 - 28"
  shows "\<exists>opts n body d. nmap_cmd ip options ports = ''nmap '' @ ip @ '' -oX -'' @ opts \<and>
    nmap_scan popen parse_doc ip options ports = Ret (Some n) \<and>
    send_osscan_reply n np = Ret (mk_event REPLY_OS_SCAN 0 body) \<and>
    osscan_key body = (np, inet_addr addr) \<and> read_osscan_reply body = Ret d \<and>
    os_name d = ns_os_name r \<and> os_ports d = map entry_of (ns_ports r) \<and>
    os_uptime_seconds d = (case ns_uptime_seconds r of None \<Rightarrow> 0 | Some s \<Rightarrow> word_of_int (atoi s))"
proof -
  let ?n = "r\<lparr>ns_ports := rev (ns_ports r)\<rparr>"
  have "dropWhile (\<lambda>c. c \<noteq> CHR ''<'') out \<noteq> []" "length (dropWhile (\<lambda>c. c \<noteq> CHR ''<'') out) < 79999"
    using assms(3) le_less_trans [OF length_dropWhile_le assms(4)] by (auto simp: dropWhile_eq_Nil_conv)
  then have scan: "nmap_scan popen parse_doc ip options ports = Ret (Some ?n)"
    using assms(1,2,5,6)
    by (simp add: nmap_scan_def runNmapScan_def NMAP_BUFFER_def Let_def parse_report_xml)
  have plain: "scan_plain ?n" using assms(7) by (simp add: scan_plain_def)
  have "length (concat (scan_options ?n)) = length (concat (scan_options r))"
    by (simp add: scan_options_def rev_map [symmetric] sum_list_rev split: option.split)
  then obtain body where body: "send_osscan_reply ?n np = Ret (mk_event REPLY_OS_SCAN 0 body)"
    using assms(8,9) by (simp add: send_osscan_reply_def osscan_body_def MAX_EVENT_SIZE_def Let_def)
  obtain body' where b: "mk_event REPLY_OS_SCAN 0 body = mk_event REPLY_OS_SCAN 0 body'"
    "read_osscan_reply body' = Ret (os_view ?n)" "osscan_key body' = (np, inet_addr addr)"
    using osscan_roundtrip [OF body plain, of "[]"] assms(8) by auto
  from b(1) have "body = body'" by (metis drop_mk_event)
  moreover have "\<exists>opts. nmap_cmd ip options ports = ''nmap '' @ ip @ '' -oX -'' @ opts"
    by (simp add: nmap_cmd_def)
  ultimately show ?thesis using b body scan by (auto simp: os_view_def rev_map)
qed

definition sample_port :: nmap_host_port_t where
  "sample_port = no_port\<lparr>np_protocol := PORT_PROTOCOL_TCP, np_portid := 22, np_state := PORT_STATE_OPEN,
     np_service := Some ''ssh''\<rparr>"

definition sample_scan :: nmap_scan_t where
  "sample_scan = no_scan\<lparr>ns_addr := Some ''10.0.0.1'', ns_ports := [sample_port],
     ns_os_name := Some ''Linux'', ns_uptime_seconds := Some ''60''\<rparr>"

lemma sample_scan_ok:
  "\<forall>p \<in> set (ns_ports sample_scan). port_ok p" "scan_plain sample_scan" "ns_addr sample_scan = Some ''10.0.0.1''"
  "length (concat (scan_options sample_scan)) \<le> 65536 - 28"
  by (simp_all add: sample_scan_def sample_port_def no_scan_def no_port_def port_ok_def port_consts
      scan_plain_def plain_def or_empty_def scan_options_def os_option_def port_option_def uptime_option_def)

lemma scan_reaches_gui_witness:
  "\<exists>opts n body d. nmap_cmd ''10.0.0.1'' OS_SCAN_OPTION_OSSCAN ''22'' = ''nmap '' @ ''10.0.0.1'' @ '' -oX -'' @ opts \<and>
    nmap_scan (\<lambda>_. Some ''<nmaprun>'') (\<lambda>_. Some (Some (report_xml sample_scan))) ''10.0.0.1''
      OS_SCAN_OPTION_OSSCAN ''22'' = Ret (Some n) \<and>
    send_osscan_reply n 7 = Ret (mk_event REPLY_OS_SCAN 0 body) \<and>
    osscan_key body = (7, inet_addr ''10.0.0.1'') \<and> read_osscan_reply body = Ret d \<and>
    os_name d = ns_os_name sample_scan \<and> os_ports d = map entry_of (ns_ports sample_scan) \<and>
    os_uptime_seconds d = (case ns_uptime_seconds sample_scan of None \<Rightarrow> 0 | Some s \<Rightarrow> word_of_int (atoi s))"
proof (rule scan_reaches_gui [where out = "''<nmaprun>''"])
  show "length (nmap_cmd ''10.0.0.1'' OS_SCAN_OPTION_OSSCAN ''22'') < 500" by code_simp
qed (use sample_scan_ok in simp_all)

section \<open>The command line\<close>

lemma length_nmap_cmd: "length (nmap_cmd ip options ports) \<le> 57 + length ip + length ports"
proof -
  have "length (scan_text options) \<le> 4" by (simp add: scan_text_def Let_def)
  moreover have "length (timing_text options) \<le> 14" by (simp add: timing_text_def Let_def)
  moreover have "length (flag_text options) \<le> 21" by (simp add: flag_text_def Let_def)
  ultimately show ?thesis by (simp add: nmap_cmd_def)
qed

text \<open>
  A scan with an address and a list of ports of at most 443 characters together stays
  within the buffer of its command, and a pipe that delivers a tag, of whatever length, is read
  without going out of bounds; with options other than the port range, nothing of the text of
  the client is in the command.
\<close>

theorem nmap_scan_safe:
  assumes "length ip + length ports < 443"
    "\<forall>cmd out. popen cmd = Some out \<longrightarrow> CHR ''<'' \<in> set out"
  shows "(\<exists>r. nmap_scan popen parse_doc ip options ports = Ret r) \<and>
    (options AND OS_SCAN_OPTION_USE_PORT_RANGE = 0 \<longrightarrow> nmap_cmd ip options ports = nmap_cmd ip options ports')"
proof
  have "length (nmap_cmd ip options ports) < 500" using length_nmap_cmd [of ip options ports] assms(1) by simp
  then show "\<exists>r. nmap_scan popen parse_doc ip options ports = Ret r"
    using assms(2)
    by (auto simp: nmap_scan_def runNmapScan_def Let_def dropWhile_eq_Nil_conv split: option.split)
qed (simp add: nmap_cmd_def)

lemma nmap_scan_safe_witness:
  "(\<exists>r. nmap_scan (\<lambda>_. Some ''<'') (\<lambda>_. None) ''10.0.0.1'' OS_SCAN_OPTION_DONT_PING ''1-5'' = Ret r) \<and>
   nmap_cmd ''10.0.0.1'' OS_SCAN_OPTION_DONT_PING ''1-5'' = nmap_cmd ''10.0.0.1'' OS_SCAN_OPTION_DONT_PING ''; reboot''"
  using nmap_scan_safe [where ip = "''10.0.0.1''" and ports = "''1-5''" and popen = "\<lambda>_. Some ''<''"
      and parse_doc = "\<lambda>_. None" and options = OS_SCAN_OPTION_DONT_PING and ports' = "''; reboot''"]
  by (simp add: OS_SCAN_OPTION_DONT_PING_def OS_SCAN_OPTION_USE_PORT_RANGE_def)

text \<open>With the option, the text of the client is what the shell gets, which is not an error of the model.\<close>

lemma nmap_cmd_injection:
  "nmap_cmd ''10.0.0.1'' OS_SCAN_OPTION_USE_PORT_RANGE ''1; reboot'' = ''nmap 10.0.0.1 -oX - -n -p 1; reboot''"
  by code_simp

lemma nmap_cmd_overflow:
  assumes "length ports = 500"
  shows "nmap_scan popen parse_doc ip OS_SCAN_OPTION_USE_PORT_RANGE ports = UB"
  using assms by (simp add: nmap_scan_def runNmapScan_def nmap_cmd_def OS_SCAN_OPTION_USE_PORT_RANGE_def)

section \<open>The two threads\<close>

record os_detect_queue =
  oq_name :: cstring
  oq_np :: u64
  oq_agent :: nat
  oq_flags :: u32
  oq_ports :: cstring

text \<open>
  Where the scanning thread is: waiting for the semaphore, scanning an entry that it took from
  the queue, or between the two mutexes of \<^verbatim>\<open>send_osscan_reply\<close> with the reply in the buffer.
\<close>

datatype os_pc = Waiting | Scanning os_detect_queue | Written nat

text \<open>
  The state of the two threads. The reply is sent from the one buffer, \<^verbatim>\<open>ebuf_os\<close>, to
  \<^verbatim>\<open>agent_to_send\<close>. \<open>os_read_locked\<close> is \<^verbatim>\<open>os_read_mutex\<close>; \<open>os_sending\<close> is the main thread
  in \<^verbatim>\<open>osscan_timer\<close> with that mutex taken; \<open>os_sent\<close> are the calls of \<^verbatim>\<open>event_send\<close>.
\<close>

record os_world =
  os_detect_q :: "os_detect_queue list"
  os_detect_q_outstanding :: int
  os_detect_go_sem :: nat
  os_pc :: os_pc
  ebuf_os :: "u8 list"
  agent_to_send :: "nat option"
  os_read_locked :: bool
  os_sending :: bool
  os_sent :: "(nat option \<times> u8 list) list"

definition init_osscan :: os_world where
  "init_osscan = \<lparr>os_detect_q = [], os_detect_q_outstanding = 0, os_detect_go_sem = 0, os_pc = Waiting,
     ebuf_os = [], agent_to_send = None, os_read_locked = True, os_sending = False, os_sent = []\<rparr>"

definition enqueue_osscan ::
  "cstring \<Rightarrow> u64 \<Rightarrow> nat \<Rightarrow> cstring \<Rightarrow> u32 \<Rightarrow> os_world \<Rightarrow> os_world" where
  "enqueue_osscan name np a ports flags w =
     (if np \<noteq> 0
      then w\<lparr>os_detect_q_outstanding := os_detect_q_outstanding w + 1,
             os_detect_q := os_detect_q w @ [\<lparr>oq_name = name, oq_np = np, oq_agent = a, oq_flags = flags,
               oq_ports = ports\<rparr>],
             os_detect_go_sem := os_detect_go_sem w + 1\<rparr>
      else w)"

definition handle_osscan_request :: "u8 list \<Rightarrow> nat \<Rightarrow> os_world \<Rightarrow> (int \<times> os_world) outcome" where
  "handle_osscan_request e a w =
     obind (text_at 16 e) (\<lambda>ports.
       Ret (0, enqueue_osscan (ip2str (of_be32 (drop 4 e))) (ptr_of (drop 8 e)) a ports (of_be32 e) w))"

definition dequeue_osscan :: "os_world \<Rightarrow> os_world" where
  "dequeue_osscan w =
     (let w = w\<lparr>os_detect_go_sem := os_detect_go_sem w - 1\<rparr> in
      case os_detect_q w of
        [] \<Rightarrow> w
      | q # rest \<Rightarrow> w\<lparr>os_detect_q_outstanding := os_detect_q_outstanding w - 1, os_detect_q := rest,
                      os_pc := Scanning q\<rparr>)"

definition scan_entry ::
  "(string \<Rightarrow> string option) \<Rightarrow> (string \<Rightarrow> xml option option) \<Rightarrow> os_detect_queue \<Rightarrow> u8 list option outcome" where
  "scan_entry popen parse_doc q =
     obind (nmap_scan popen parse_doc (oq_name q) (ucast (oq_flags q)) (oq_ports q)) (\<lambda>n.
       case n of
         None \<Rightarrow> Ret None
       | Some n \<Rightarrow> obind (send_osscan_reply n (oq_np q)) (\<lambda>ev. Ret (Some ev)))"

definition agent_osscan_send_event :: "nat \<Rightarrow> os_world \<Rightarrow> os_world" where
  "agent_osscan_send_event a w = w\<lparr>agent_to_send := Some a, os_read_locked := False, os_pc := Waiting\<rparr>"

text \<open>
  The steps, each of which is atomic by a mutex or touches one shared variable; a step that
  the thread cannot take is \<^theory_text>\<open>None\<close>. A request leaves the list mutex before it posts the
  semaphore; until then it is not seen.
\<close>

datatype os_label =
    Request nat "u8 list"
  | Dequeue
  | Scanned "string \<Rightarrow> string option" "string \<Rightarrow> xml option option"
  | Publish
  | Timer
  | Send

definition os_step :: "os_label \<Rightarrow> os_world \<Rightarrow> os_world outcome option" where
  "os_step l w =
     (case l of
        Request a e \<Rightarrow> if os_sending w then None else Some (obind (handle_osscan_request e a w) (\<lambda>(r, w). Ret w))
      | Dequeue \<Rightarrow>
          if os_pc w = Waiting \<and> os_detect_go_sem w > 0 then Some (Ret (dequeue_osscan w)) else None
      | Scanned popen parse_doc \<Rightarrow>
          (case os_pc w of
             Scanning q \<Rightarrow> Some (obind (scan_entry popen parse_doc q) (\<lambda>r.
               case r of
                 None \<Rightarrow> Ret (w\<lparr>os_pc := Waiting\<rparr>)
               | Some ev \<Rightarrow> Ret (w\<lparr>ebuf_os := ev, os_pc := Written (oq_agent q)\<rparr>)))
           | _ \<Rightarrow> None)
      | Publish \<Rightarrow>
          (case os_pc w of Written a \<Rightarrow> Some (Ret (agent_osscan_send_event a w)) | _ \<Rightarrow> None)
      | Timer \<Rightarrow>
          if os_sending w then None
          else if os_read_locked w then Some (Ret w)
          else Some (Ret (w\<lparr>os_read_locked := True, os_sending := True\<rparr>))
      | Send \<Rightarrow>
          if os_sending w
          then Some (Ret (w\<lparr>os_sent := os_sent w @ [(agent_to_send w, ebuf_os w)], os_sending := False\<rparr>))
          else None)"

fun os_run :: "os_label list \<Rightarrow> os_world \<Rightarrow> os_world option" where
  "os_run [] w = Some w"
| "os_run (l # ls) w = (case os_step l w of Some (Ret w') \<Rightarrow> os_run ls w' | _ \<Rightarrow> None)"

subsection \<open>Requests are served in order\<close>

definition request_entry :: "nat \<Rightarrow> u8 list \<Rightarrow> os_detect_queue list" where
  "request_entry a e =
     (if ptr_of (drop 8 e) = 0 then []
      else [\<lparr>oq_name = ip2str (of_be32 (drop 4 e)), oq_np = ptr_of (drop 8 e), oq_agent = a,
             oq_flags = of_be32 e, oq_ports = bytes_cstr (drop 16 e)\<rparr>])"

fun os_requests :: "os_label list \<Rightarrow> os_detect_queue list" where
  "os_requests [] = []"
| "os_requests (Request a e # ls) = request_entry a e @ os_requests ls"
| "os_requests (l # ls) = os_requests ls"

fun os_dequeues :: "os_label list \<Rightarrow> nat" where
  "os_dequeues [] = 0"
| "os_dequeues (Dequeue # ls) = Suc (os_dequeues ls)"
| "os_dequeues (l # ls) = os_dequeues ls"

lemma os_run_snoc:
  "os_run (ls @ [l]) w = Some w' \<longleftrightarrow> (\<exists>v. os_run ls w = Some v \<and> os_step l v = Some (Ret w'))"
  by (induction ls arbitrary: w) (auto split: option.splits outcome.splits)

lemma os_requests_append [simp]: "os_requests (xs @ ys) = os_requests xs @ os_requests ys"
  by (induction xs rule: os_requests.induct) simp_all

lemma os_dequeues_append [simp]: "os_dequeues (xs @ ys) = os_dequeues xs + os_dequeues ys"
  by (induction xs rule: os_dequeues.induct) simp_all

text \<open>
  C21. The scanning thread serves the requests in the order in which they came, however the
  threads interleave: the queue is what is left of the requests after as many as were dequeued,
  the thread scans the last one dequeued, and the counter and the semaphore are the length of
  the queue, so that the thread is woken for every request.
\<close>

theorem osscan_in_order:
  assumes "os_run ls init_osscan = Some w"
  shows "os_detect_q w = drop (os_dequeues ls) (os_requests ls) \<and>
    os_dequeues ls \<le> length (os_requests ls) \<and>
    os_detect_go_sem w = length (os_detect_q w) \<and>
    os_detect_q_outstanding w = int (length (os_detect_q w)) \<and>
    (\<forall>q. os_pc w = Scanning q \<longrightarrow> os_dequeues ls > 0 \<and> q = os_requests ls ! (os_dequeues ls - 1))"
  using assms
proof (induction ls arbitrary: w rule: rev_induct)
  case Nil
  then show ?case by (auto simp: init_osscan_def)
next
  case (snoc l ls)
  then obtain v where v: "os_run ls init_osscan = Some v" "os_step l v = Some (Ret w)"
    by (auto simp: os_run_snoc)
  note IH = snoc.IH [OF v(1)]
  show ?case
  proof (cases l)
    case (Request a e)
    then have "w = v \<and> request_entry a e = [] \<or>
        w = v\<lparr>os_detect_q_outstanding := os_detect_q_outstanding v + 1,
          os_detect_q := os_detect_q v @ request_entry a e, os_detect_go_sem := os_detect_go_sem v + 1\<rparr> \<and>
        length (request_entry a e) = 1"
      using v(2) by (auto simp: os_step_def handle_osscan_request_def enqueue_osscan_def request_entry_def
          text_at_def split: if_splits)
    then show ?thesis using IH Request by (auto simp: nth_append)
  next
    case Dequeue
    with v(2) have w: "w = dequeue_osscan v" "os_detect_go_sem v > 0" by (auto simp: os_step_def split: if_splits)
    moreover have "os_detect_go_sem v = length (os_detect_q v)" using IH by blast
    ultimately obtain q rest where q: "os_detect_q v = q # rest" by (metis length_greater_0_conv neq_Nil_conv)
    let ?k = "os_dequeues ls"
    have k: "?k < length (os_requests ls)" "os_requests ls ! ?k = q" "drop (Suc ?k) (os_requests ls) = rest"
      using q IH by (metis drop_all linorder_not_less list.distinct(1),
        metis hd_drop_conv_nth drop_all linorder_not_less list.distinct(1) list.sel(1),
        metis drop_Suc tl_drop list.sel(3))
    show ?thesis using q k w Dequeue IH by (auto simp: dequeue_osscan_def Let_def)
  qed (use IH v(2) in \<open>auto simp: os_step_def agent_osscan_send_event_def split: os_pc.splits if_splits option.splits\<close>)
qed

subsection \<open>Replies\<close>

text \<open>The replies that the scanning thread writes in a run, and to whom.\<close>

definition step_reply :: "os_world \<Rightarrow> os_world \<Rightarrow> (nat \<times> u8 list) list" where
  "step_reply w w' =
     (case os_pc w of
        Scanning q \<Rightarrow> (case os_pc w' of Written a \<Rightarrow> [(a, ebuf_os w')] | _ \<Rightarrow> [])
      | _ \<Rightarrow> [])"

fun os_replies :: "os_label list \<Rightarrow> os_world \<Rightarrow> (nat \<times> u8 list) list" where
  "os_replies [] w = []"
| "os_replies (l # ls) w =
     (case os_step l w of Some (Ret w') \<Rightarrow> step_reply w w' @ os_replies ls w' | _ \<Rightarrow> [])"

text \<open>A reply is on its way to \<^verbatim>\<open>event_send\<close>; a run in which no scan ends while one is.\<close>

definition os_pending :: "os_world \<Rightarrow> bool" where
  "os_pending w \<longleftrightarrow> \<not> os_read_locked w \<or> os_sending w \<or> (case os_pc w of Written a \<Rightarrow> True | _ \<Rightarrow> False)"

fun paced :: "os_label list \<Rightarrow> os_world \<Rightarrow> bool" where
  "paced [] w = True"
| "paced (l # ls) w =
     ((case l of Scanned popen parse_doc \<Rightarrow> \<not> os_pending w | _ \<Rightarrow> True) \<and>
      (case os_step l w of Some (Ret w') \<Rightarrow> paced ls w' | _ \<Rightarrow> True))"

definition in_flight :: "os_world \<Rightarrow> (nat option \<times> u8 list) list" where
  "in_flight w =
     (if os_pending w
      then [(case os_pc w of Written a \<Rightarrow> Some a | _ \<Rightarrow> agent_to_send w, ebuf_os w)]
      else [])"

definition one_in_flight :: "os_world \<Rightarrow> bool" where
  "one_in_flight w \<longleftrightarrow> \<not> (\<not> os_read_locked w \<and> os_sending w) \<and>
     ((\<exists>a. os_pc w = Written a) \<longrightarrow> os_read_locked w \<and> \<not> os_sending w)"

lemma paced_step:
  assumes "one_in_flight w" "os_step l w = Some (Ret w')"
    "case l of Scanned popen parse_doc \<Rightarrow> \<not> os_pending w | _ \<Rightarrow> True"
  shows "one_in_flight w'"
    "os_sent w' @ in_flight w' = os_sent w @ in_flight w @ map (\<lambda>(a, e). (Some a, e)) (step_reply w w')"
  using assms
  by (cases l; auto simp: os_step_def one_in_flight_def in_flight_def os_pending_def step_reply_def
      handle_osscan_request_def enqueue_osscan_def dequeue_osscan_def agent_osscan_send_event_def Let_def
      split: os_pc.splits if_splits option.splits list.splits)+

lemma paced_run:
  assumes "one_in_flight w" "os_run ls w = Some w'" "paced ls w"
  shows "os_sent w' @ in_flight w' = os_sent w @ in_flight w @ map (\<lambda>(a, e). (Some a, e)) (os_replies ls w)"
  using assms
proof (induction ls arbitrary: w)
  case (Cons l ls)
  then obtain v where v: "os_step l w = Some (Ret v)" "os_run ls v = Some w'"
    by (auto split: option.splits outcome.splits)
  then show ?case using Cons.IH [of v] Cons.prems paced_step [OF Cons.prems(1) v(1)] by simp
qed simp

text \<open>
  C22. When no scan ends while the reply of an earlier one waits for the timer, every reply is
  sent once, in order and to the agent that asked for it; only the last may still be on its way.
\<close>

theorem osscan_replies_delivered:
  assumes "os_run ls init_osscan = Some w" "paced ls init_osscan"
  shows "map (\<lambda>(a, e). (Some a, e)) (os_replies ls init_osscan) = os_sent w @ in_flight w"
  using paced_run [OF _ assms]
  by (simp add: init_osscan_def one_in_flight_def in_flight_def os_pending_def)

definition sample_request :: "u64 \<Rightarrow> u8 list" where
  "sample_request np = be32 0 @ [1, 0, 0, 10] @ ptr_bytes np @ [0]"

definition sample_labels :: "nat \<Rightarrow> u64 \<Rightarrow> os_label list" where
  "sample_labels a np =
     [Request a (sample_request np), Dequeue,
      Scanned (\<lambda>_. Some ''<nmaprun>'') (\<lambda>_. Some (Some (report_xml sample_scan)))]"

definition sample_reply :: "u64 \<Rightarrow> u8 list" where
  "sample_reply np = mk_event REPLY_OS_SCAN 0 (osscan_body (inet_addr ''10.0.0.1'') np (scan_options sample_scan))"

lemma sample_scanned:
  assumes "oq_flags q = 0" "oq_ports q = ''''" "oq_name q = ''10.0.0.1''"
  shows "scan_entry (\<lambda>_. Some ''<nmaprun>'') (\<lambda>_. Some (Some (report_xml sample_scan))) q =
    Ret (Some (sample_reply (oq_np q)))"
proof -
  have "length (nmap_cmd ''10.0.0.1'' 0 '''') < 500" by code_simp
  moreover have "sample_scan\<lparr>ns_ports := rev (ns_ports sample_scan)\<rparr> = sample_scan" by (simp add: sample_scan_def)
  ultimately have "nmap_scan (\<lambda>_. Some ''<nmaprun>'') (\<lambda>_. Some (Some (report_xml sample_scan))) ''10.0.0.1'' 0 '''' =
      Ret (Some sample_scan)"
    by (simp add: nmap_scan_def runNmapScan_def NMAP_BUFFER_def Let_def parse_report_xml [OF sample_scan_ok(1)])
  then show ?thesis
    using assms sample_scan_ok
    by (simp add: scan_entry_def send_osscan_reply_def sample_reply_def osscan_body_def MAX_EVENT_SIZE_def Let_def
        del: length_concat)
qed

lemma sample_request_entry:
  assumes "np \<noteq> 0"
  shows "handle_osscan_request (sample_request np) a w =
    Ret (0, w\<lparr>os_detect_q_outstanding := os_detect_q_outstanding w + 1,
      os_detect_q := os_detect_q w @ [\<lparr>oq_name = ''10.0.0.1'', oq_np = np, oq_agent = a, oq_flags = 0,
        oq_ports = ''''\<rparr>], os_detect_go_sem := os_detect_go_sem w + 1\<rparr>)"
proof -
  have "ip2str (of_be32 [1, 0, 0, 10]) = ''10.0.0.1''" "bytes_cstr [0] = ''''" by code_simp+
  then show ?thesis
    using assms by (simp add: handle_osscan_request_def enqueue_osscan_def sample_request_def text_at_def)
qed

lemma sample_run:
  assumes "np \<noteq> 0" "\<not> os_sending w" "os_pc w = Waiting" "os_detect_q w = []"
  shows "os_run (sample_labels a np @ ls) w = os_run ls (w\<lparr>ebuf_os := sample_reply np, os_pc := Written a\<rparr>)"
  using assms
  by (cases w) (simp add: sample_labels_def os_step_def sample_request_entry dequeue_osscan_def sample_scanned)

lemma sample_paced:
  assumes "np \<noteq> 0" "\<not> os_pending w" "os_pc w = Waiting" "os_detect_q w = []"
  shows "paced (sample_labels a np @ ls) w = paced ls (w\<lparr>ebuf_os := sample_reply np, os_pc := Written a\<rparr>)"
  using assms
  by (cases w) (simp add: sample_labels_def os_step_def sample_request_entry dequeue_osscan_def sample_scanned
      os_pending_def)

lemma osscan_in_order_witness:
  "os_detect_q (init_osscan\<lparr>ebuf_os := sample_reply 7, os_pc := Written 1\<rparr>) =
     drop (os_dequeues (sample_labels 1 7)) (os_requests (sample_labels 1 7))"
  using osscan_in_order [of "sample_labels 1 7"] sample_run [of 7 init_osscan 1 "[]"]
  by (simp add: init_osscan_def)

lemma osscan_replies_delivered_witness:
  "map (\<lambda>(a, e). (Some a, e)) (os_replies (sample_labels 1 7 @ [Publish, Timer, Send]) init_osscan) =
     [(Some 1, sample_reply 7)]"
proof -
  define w where "w = init_osscan\<lparr>ebuf_os := sample_reply 7, agent_to_send := Some 1,
    os_sent := [(Some 1, sample_reply 7)]\<rparr>"
  have "os_run (sample_labels 1 7 @ [Publish, Timer, Send]) init_osscan = Some w"
    by (subst sample_run) (simp_all add: w_def init_osscan_def os_step_def agent_osscan_send_event_def)
  moreover have "paced (sample_labels 1 7 @ [Publish, Timer, Send]) init_osscan"
    by (subst sample_paced) (simp_all add: init_osscan_def os_pending_def os_step_def agent_osscan_send_event_def)
  ultimately show ?thesis
    using osscan_replies_delivered [of "sample_labels 1 7 @ [Publish, Timer, Send]" w]
    by (simp add: w_def in_flight_def os_pending_def init_osscan_def)
qed

text \<open>
  Without it: two clients ask for a scan, and the second scan ends before the timer has sent the
  first reply. The first reply is lost, and the reply to agent 2 is sent to agent 1 too.
\<close>

lemma osscan_reply_misdirected:
  "\<exists>w. os_run (sample_labels 1 7 @ [Publish] @ sample_labels 2 8 @ [Timer, Send, Publish, Timer, Send]) init_osscan =
      Some w \<and> os_sent w = [(Some 1, sample_reply 8), (Some 2, sample_reply 8)]"
  by (subst sample_run, simp_all add: init_osscan_def os_step_def agent_osscan_send_event_def)
    (subst sample_run, simp_all add: os_step_def agent_osscan_send_event_def)

end
