(* ===== verification/Registry.thy ===== *)
theory Registry
  imports C_Text
begin

text \<open>
  The lists in which the program registers things by a key: the scripts of the client
  (\<^verbatim>\<open>script.c\<close>), the names of services (\<^verbatim>\<open>cheops-osscan.c\<close>) and, in \<^theory_text>\<open>Probe\<close>, the probes of
  the agent. \<open>registry\<close> is the contract of the first and the last: an entry has a key and
  a pointer, adding one replaces the entry of its key.

  An entry of a \<^verbatim>\<open>GList\<close> is the address of an object and the object; \<^verbatim>\<open>malloc\<close> is an address
  that no object has.
\<close>

section \<open>The contract\<close>

locale registry =
  fixes key :: "'v \<Rightarrow> 'k"
    and ok :: "'s \<Rightarrow> bool"
    and look :: "'s \<Rightarrow> 'k \<Rightarrow> 'v option"
    and fits :: "'v \<Rightarrow> 's \<Rightarrow> bool"
    and apart :: "'v \<Rightarrow> 'v \<Rightarrow> bool"
    and put :: "'v \<Rightarrow> 's \<Rightarrow> 's"
    and drop_ptr :: "'v \<Rightarrow> 's \<Rightarrow> 's"
  assumes look_key: "ok s \<Longrightarrow> look s k = Some v \<Longrightarrow> key v = k"
    and put_law: "ok s \<Longrightarrow> fits v s \<Longrightarrow> ok (put v s) \<and> look (put v s) = (look s)(key v \<mapsto> v)"
    and put_fits: "ok s \<Longrightarrow> fits v s \<Longrightarrow> fits w s \<Longrightarrow> apart v w \<Longrightarrow> fits w (put v s)"
    and drop_law: "ok s \<Longrightarrow> look s k = Some v \<Longrightarrow> ok (drop_ptr v s) \<and> look (drop_ptr v s) = (look s)(k := None)"
begin

lemma put_replaces:
  assumes "ok s" "fits v s" "fits w s" "apart v w" "key w = key v"
  shows "look (put w (put v s)) = (look s)(key v \<mapsto> w)"
  using put_law [OF assms(1,2)] put_fits [OF assms(1-4)] put_law [of "put v s" w] assms(5) by simp

lemma put_drop:
  assumes "ok s" "fits v s"
  shows "ok (drop_ptr v (put v s)) \<and> look (drop_ptr v (put v s)) = (look s)(key v := None)"
  using put_law [OF assms] drop_law [of "put v s" "key v" v] by simp

lemma put_all:
  assumes "ok s" "\<forall>v \<in> set vs. fits v s" "sorted_wrt apart vs"
  shows "ok (fold put vs s) \<and> look (fold put vs s) = look s ++ map_of (rev (map (\<lambda>v. (key v, v)) vs))"
  using assms
proof (induction vs arbitrary: s)
  case (Cons v vs)
  have s: "ok (put v s)" "look (put v s) = (look s)(key v \<mapsto> v)"
    using put_law [of s v] Cons.prems by auto
  have "\<forall>w \<in> set vs. fits w (put v s)"
    using put_fits [of s v] Cons.prems by auto
  moreover have "sorted_wrt apart vs" using Cons.prems(3) by simp
  ultimately show ?case
    using Cons.IH [OF s(1)] by (auto simp: fun_eq_iff map_add_def s(2) split: option.split)
qed simp

end

section \<open>Lists of pointers to objects with a key\<close>

definition klook :: "('a \<Rightarrow> 'k) \<Rightarrow> (nat \<times> 'a) list \<Rightarrow> 'k \<Rightarrow> (nat \<times> 'a) option" where
  "klook key xs k = find (\<lambda>(p, s). key s = k) xs"

definition keyed :: "('a \<Rightarrow> 'k) \<Rightarrow> (nat \<times> 'a) list \<Rightarrow> bool" where
  "keyed key xs \<longleftrightarrow> distinct (map fst xs) \<and> distinct (map (\<lambda>(p, s). key s) xs)"

definition drop_address :: "nat \<Rightarrow> (nat \<times> 'a) list \<Rightarrow> (nat \<times> 'a) list" where
  "drop_address p xs = remove_first (\<lambda>x. fst x = p) xs"

lemma klook_map_of: "klook key xs = map_of (map (\<lambda>(p, s). (key s, (p, s))) xs)"
  by (induction xs) (auto simp: klook_def fun_eq_iff)

lemma klook_key: "klook key xs k = Some v \<Longrightarrow> key (snd v) = k"
  by (auto simp: klook_def find_Some_iff)

lemma klook_mem: "klook key xs k = Some v \<Longrightarrow> v \<in> set xs"
  by (auto simp: klook_def find_Some_iff intro: nth_mem)

lemma klook_None: "klook key xs k = None \<longleftrightarrow> k \<notin> (\<lambda>(p, s). key s) ` set xs"
  by (auto simp: klook_def find_None_iff)

lemma keyed_drop: "keyed key xs \<Longrightarrow> keyed key (drop_address p xs)"
  by (simp add: keyed_def drop_address_def distinct_map_remove_first)

lemma drop_address_filter: "keyed key xs \<Longrightarrow> drop_address p xs = filter (\<lambda>x. fst x \<noteq> p) xs"
  by (simp add: keyed_def drop_address_def remove_first_key)

lemma klook_drop:
  assumes "keyed key xs" "klook key xs k = Some (p, s)"
  shows "klook key (drop_address p xs) = (klook key xs)(k := None)"
proof
  fix l
  note mem = klook_mem [OF assms(2)]
  have inj: "inj_on fst (set xs)" "inj_on (\<lambda>(p, s). key s) (set xs)"
    using assms(1) by (auto simp: keyed_def distinct_map)
  have "klook key (drop_address p xs) l = find (\<lambda>(q, t). key t = l \<and> q \<noteq> p) xs"
    unfolding drop_address_filter [OF assms(1)] klook_def
    by (induction xs) auto
  also have "\<dots> = (if l = k then None else klook key xs l)"
  proof (cases "l = k")
    case True
    have "q = p" if "(q, t) \<in> set xs" "key t = k" for q t
      using inj(2) mem that klook_key [OF assms(2)] by (fastforce simp: inj_on_def)
    then show ?thesis using True by (auto simp: find_None_iff)
  next
    case False
    have "key t \<noteq> l \<or> q \<noteq> p" if "(q, t) \<in> set xs" for q t
      using inj(1) mem that klook_key [OF assms(2)] False by (fastforce simp: inj_on_def)
    then have "find (\<lambda>(q, t). key t = l \<and> q \<noteq> p) xs = find (\<lambda>(q, t). key t = l) xs"
      by (intro find_cong) auto
    then show ?thesis using False by (simp add: klook_def)
  qed
  finally show "klook key (drop_address p xs) l = ((klook key xs)(k := None)) l" by simp
qed

text \<open>Replacing the entry of a key by a new one at the end.\<close>

definition kput :: "('a \<Rightarrow> 'k) \<Rightarrow> nat \<times> 'a \<Rightarrow> (nat \<times> 'a) list \<Rightarrow> (nat \<times> 'a) list" where
  "kput key v xs =
     (case klook key xs (key (snd v)) of None \<Rightarrow> xs | Some (p, s) \<Rightarrow> drop_address p xs) @ [v]"

definition kfits :: "nat \<times> 'a \<Rightarrow> (nat \<times> 'a) list \<Rightarrow> bool" where
  "kfits v xs \<longleftrightarrow> fst v \<notin> fst ` set xs"

lemma kput_law:
  assumes "keyed key xs" "kfits v xs"
  shows "keyed key (kput key v xs) \<and> klook key (kput key v xs) = (klook key xs)(key (snd v) \<mapsto> v)"
proof -
  let ?k = "key (snd v)"
  define ys where "ys = (case klook key xs ?k of None \<Rightarrow> xs | Some (p, s) \<Rightarrow> drop_address p xs)"
  have ys: "keyed key ys" "klook key ys = (klook key xs)(?k := None)" "set ys \<subseteq> set xs"
    using assms(1) klook_drop [OF assms(1)] keyed_drop [OF assms(1)] set_remove_first_subset
    by (auto simp: ys_def drop_address_def split: option.splits dest: set_remove_first_subset [THEN subsetD])
  then have k: "?k \<notin> (\<lambda>(p, s). key s) ` set ys" by (metis klook_None fun_upd_same)
  moreover have "fst v \<notin> fst ` set ys" using assms(2) ys(3) by (auto simp: kfits_def)
  ultimately have "keyed key (ys @ [v])" using ys(1) by (cases v) (auto simp: keyed_def)
  moreover have "klook key (ys @ [v]) = (klook key ys)(?k \<mapsto> v)"
  proof
    fix l
    have "klook key (ys @ [v]) l = (if l = ?k then Some v else klook key ys l)"
      using k by (induction ys) (cases v, auto simp: klook_def)
    then show "klook key (ys @ [v]) l = ((klook key ys)(?k \<mapsto> v)) l" by simp
  qed
  moreover have "kput key v xs = ys @ [v]" by (simp add: kput_def ys_def)
  ultimately show ?thesis using ys(2) by simp
qed

lemma kput_fits: "kfits v xs \<Longrightarrow> kfits w xs \<Longrightarrow> fst v \<noteq> fst w \<Longrightarrow> kfits w (kput key v xs)"
  by (auto simp: kfits_def kput_def drop_address_def split: option.splits
      dest: set_remove_first_subset [THEN subsetD])

interpretation klist: registry "\<lambda>v. key (snd v)" "keyed key" "klook key" kfits "\<lambda>v w. fst v \<noteq> fst w"
    "kput key" "\<lambda>v. drop_address (fst v)"
  for key :: "'a \<Rightarrow> 'k"
  by unfold_locales (auto simp: klook_key kput_law kput_fits klook_drop keyed_drop)

section \<open>Scripts\<close>

record script_t =
  sc_name :: cstring
  sc_script :: cstring
  sc_flags :: u32

type_synonym scripts = "(nat \<times> script_t) list"

definition SCRIPT_FLAGS_VIEWABLE :: u32 where "SCRIPT_FLAGS_VIEWABLE = 1"

definition script_get :: "cstring \<Rightarrow> scripts \<Rightarrow> (nat \<times> script_t) option" where
  "script_get name sl = klook sc_name sl name"

definition script_remove_ptr :: "nat option \<Rightarrow> scripts \<Rightarrow> scripts" where
  "script_remove_ptr p sl = (case p of None \<Rightarrow> sl | Some q \<Rightarrow> drop_address q sl)"

definition script_remove :: "cstring \<Rightarrow> scripts \<Rightarrow> scripts" where
  "script_remove name sl =
     (case script_get name sl of None \<Rightarrow> sl | Some (p, s) \<Rightarrow> script_remove_ptr (Some p) sl)"

text \<open>\<open>q\<close> is what \<^verbatim>\<open>malloc\<close> returns.\<close>

definition script_add ::
  "nat option \<Rightarrow> cstring \<Rightarrow> cstring \<Rightarrow> u32 \<Rightarrow> scripts \<Rightarrow> (nat \<times> scripts) outcome" where
  "script_add q name script flags sl =
     (let sl = script_remove_ptr (map_option fst (script_get name sl)) sl in
      case q of
        None \<Rightarrow> Exit 1
      | Some q \<Rightarrow> Ret (q, sl @ [(q, \<lparr>sc_name = name, sc_script = script, sc_flags = flags\<rparr>)]))"

definition script_change ::
  "nat option \<Rightarrow> nat \<Rightarrow> cstring \<Rightarrow> cstring \<Rightarrow> u32 \<Rightarrow> scripts \<Rightarrow> (nat option \<times> scripts) outcome" where
  "script_change q scr name script flags sl =
     (if scr \<in> fst ` set sl
      then obind (script_add q name script flags (script_remove_ptr (Some scr) sl))
             (\<lambda>(p, sl). Ret (Some p, sl))
      else Ret (None, sl))"

definition default_list :: "(cstring \<times> cstring \<times> u32) list" where
  "default_list =
     [(''traceroute'', ''xterm -hold -e /usr/sbin/traceroute %i'', SCRIPT_FLAGS_VIEWABLE),
      (''ping'', ''xterm -hold -e ping %i'', SCRIPT_FLAGS_VIEWABLE)]"

fun script_add_all :: "(nat option \<times> cstring \<times> cstring \<times> u32) list \<Rightarrow> scripts \<Rightarrow> scripts outcome" where
  "script_add_all [] sl = Ret sl"
| "script_add_all ((q, name, script, flags) # rest) sl =
     obind (script_add q name script flags sl) (\<lambda>(p, sl). script_add_all rest sl)"

definition script_default :: "nat option list \<Rightarrow> scripts \<Rightarrow> scripts outcome" where
  "script_default qs sl =
     (let sl = fold (\<lambda>(p, s). script_remove_ptr (Some p)) sl sl in
      script_add_all (zip qs default_list) [])"

section \<open>Services\<close>

record service_cache =
  sv_port :: u16
  sv_protocol :: u8
  sv_name :: cstring

definition service_is :: "u16 \<Rightarrow> u8 \<Rightarrow> service_cache \<Rightarrow> bool" where
  "service_is port protocol p \<longleftrightarrow> sv_port p = port \<and> sv_protocol p = protocol"

definition add_service :: "u16 \<Rightarrow> u8 \<Rightarrow> cstring \<Rightarrow> service_cache list \<Rightarrow> service_cache list" where
  "add_service port protocol name services =
     (if \<exists>p \<in> set services. service_is port protocol p then services
      else \<lparr>sv_port = port, sv_protocol = protocol, sv_name = name\<rparr> # services)"

text \<open>
  The loop of \<^verbatim>\<open>remove_service\<close> never sets \<^verbatim>\<open>prev\<close>, so that a match drops all that is in front
  of it, and goes on to the successor of what it has just freed.
\<close>

definition remove_service :: "u16 \<Rightarrow> u8 \<Rightarrow> service_cache list \<Rightarrow> service_cache list outcome" where
  "remove_service port protocol services =
     (if \<exists>p \<in> set services. service_is port protocol p then UB else Ret services)"

definition remove_all_services :: "service_cache list \<Rightarrow> service_cache list" where
  "remove_all_services services = []"

definition get_service :: "u16 \<Rightarrow> u8 \<Rightarrow> service_cache list \<Rightarrow> cstring option" where
  "get_service port protocol services = map_option sv_name (find (service_is port protocol) services)"

section \<open>The scripts keep the contract\<close>

lemma script_add_kput:
  "script_add (Some q) name script flags sl =
     Ret (q, kput sc_name (q, \<lparr>sc_name = name, sc_script = script, sc_flags = flags\<rparr>) sl)"
  by (auto simp: script_add_def kput_def script_get_def script_remove_ptr_def split: option.split)

definition as_script :: "nat \<times> cstring \<times> cstring \<times> u32 \<Rightarrow> nat \<times> script_t" where
  "as_script e = (case e of (q, name, script, flags) \<Rightarrow>
     (q, \<lparr>sc_name = name, sc_script = script, sc_flags = flags\<rparr>))"

lemma script_add_all_fold:
  "script_add_all (map (apfst Some) es) sl = Ret (fold (kput sc_name) (map as_script es) sl)"
  by (induction es arbitrary: sl) (auto simp: script_add_kput as_script_def)

lemma fst_as_script [simp]: "fst (as_script e) = fst e"
  by (cases e) (simp add: as_script_def)

text \<open>
  Scripts are found by their name: after a list of additions at fresh addresses, as the
  reading of a configuration makes them, every name of the list has the last script added under
  it, every other name the one it had, and no name has two.
\<close>

theorem scripts_last_wins:
  assumes "keyed sc_name sl" "distinct (map fst es)" "\<forall>e \<in> set es. fst e \<notin> fst ` set sl"
  shows "\<exists>sl'. script_add_all (map (apfst Some) es) sl = Ret sl' \<and> keyed sc_name sl' \<and>
    (\<forall>name. script_get name sl' =
       (case find (\<lambda>(q, n, script, flags). n = name) (rev es) of
          None \<Rightarrow> script_get name sl
        | Some e \<Rightarrow> Some (as_script e)))"
proof -
  let ?vs = "map as_script es"
  have "\<forall>v \<in> set ?vs. kfits v sl" using assms(3) by (simp add: kfits_def)
  moreover have "sorted_wrt (\<lambda>v w. fst v \<noteq> fst w) ?vs"
    using assms(2) by (induction es) (auto simp: image_iff)
  ultimately have k: "keyed sc_name (fold (kput sc_name) ?vs sl)"
    "klook sc_name (fold (kput sc_name) ?vs sl) =
      klook sc_name sl ++ map_of (rev (map (\<lambda>v. (sc_name (snd v), v)) ?vs))"
    using klist.put_all [OF assms(1), of ?vs] by simp_all
  have "map_of (rev (map (\<lambda>v. (sc_name (snd v), v)) ?vs)) name =
      map_option as_script (find (\<lambda>(q, n, script, flags). n = name) (rev es))" for name
  proof -
    have "map_of (map (\<lambda>v. (sc_name (snd v), v)) (map as_script xs)) name =
        map_option as_script (find (\<lambda>(q, n, script, flags). n = name) xs)" for xs
      by (induction xs) (auto simp: as_script_def)
    from this [of "rev es"] show ?thesis by (simp add: rev_map)
  qed
  then show ?thesis
    using k by (auto simp: script_add_all_fold script_get_def map_add_def split: option.split)
qed

lemma scripts_last_wins_witness:
  "\<exists>sl'. script_add_all (map (apfst Some)
       [(1, ''ping'', ''ping %i'', 1), (2, ''ssh'', ''ssh %i'', 0), (3, ''ping'', ''ping -n %i'', 1)]) [] = Ret sl' \<and>
     script_get ''ping'' sl' = Some (3, \<lparr>sc_name = ''ping'', sc_script = ''ping -n %i'', sc_flags = 1\<rparr>) \<and>
     script_get ''ftp'' sl' = None"
  using scripts_last_wins [of "[]" "[(1, ''ping'', ''ping %i'', 1), (2, ''ssh'', ''ssh %i'', 0), (3, ''ping'', ''ping -n %i'', 1)]"]
  by (auto simp: keyed_def as_script_def script_get_def klook_def)

lemma script_change_keeps:
  assumes "keyed sc_name sl" "q \<notin> fst ` set sl" "scr \<in> fst ` set sl"
  obtains sl' where "script_change (Some q) scr name script flags sl = Ret (Some q, sl')" "keyed sc_name sl'"
    "script_get name sl' = Some (q, \<lparr>sc_name = name, sc_script = script, sc_flags = flags\<rparr>)"
proof -
  have "kfits (q, \<lparr>sc_name = name, sc_script = script, sc_flags = flags\<rparr>) (drop_address scr sl)"
    using assms(2) by (auto simp: kfits_def drop_address_def dest: set_remove_first_subset [THEN subsetD])
  from kput_law [OF keyed_drop [OF assms(1)] this] show thesis
    using assms(3) that by (auto simp: script_change_def script_add_kput script_remove_ptr_def script_get_def)
qed

section \<open>Services are cached once\<close>

lemma get_add_service:
  "get_service pt pr (add_service port protocol name sv) =
     (if pt = port \<and> pr = protocol \<and> get_service pt pr sv = None then Some name else get_service pt pr sv)"
  by (auto simp: get_service_def add_service_def service_is_def find_None_iff)

end
