(* ===== verification/Probe.thy ===== *)
theory Probe
  imports Registry Sched Io Event
begin

text \<open>
  The probes, \<^verbatim>\<open>probe.c\<close>: the list of what is known about ports, the functions that read a
  version from a socket, and \<^verbatim>\<open>get_version\<close>, which opens a socket, watches it and sets a timer;
  and the clients of it in the agent, \<^verbatim>\<open>agent-probe.c\<close>.

  The callbacks run on the table of \<^theory_text>\<open>Io\<close> and the timers of \<^theory_text>\<open>Sched\<close>, with the address of the
  \<^verbatim>\<open>probe_data\<close> as their argument. An access to a freed \<^verbatim>\<open>probe_data\<close>, \<^verbatim>\<open>probe\<close> or handle is
  undefined. What \<^verbatim>\<open>socket\<close>, \<^verbatim>\<open>fcntl\<close>, \<^verbatim>\<open>connect\<close>, \<^verbatim>\<open>read\<close>, \<^verbatim>\<open>malloc\<close> and the clock answer are arguments.
\<close>

section \<open>Reading a version\<close>

text \<open>
  \<^verbatim>\<open>get_text\<close>: \<open>got\<close> is what \<^verbatim>\<open>read\<close> delivered into the 2048 bytes, \<^theory_text>\<open>None\<close> for an error. The
  terminator goes behind it, out of bounds when the buffer is full.
\<close>

definition PROBE_BUFFER :: nat where "PROBE_BUFFER = 2048"

definition get_text :: "u8 list option \<Rightarrow> cstring option outcome" where
  "get_text got =
     (case got of
        None \<Rightarrow> Ret None
      | Some bs \<Rightarrow> if length bs < PROBE_BUFFER then Ret (Some (bytes_cstr (bs @ [0]))) else UB)"

fun strstr :: "cstring \<Rightarrow> cstring \<Rightarrow> cstring option" where
  "strstr s t =
     (if take (length t) s = t then Some s
      else case s of [] \<Rightarrow> None | c # cs \<Rightarrow> strstr cs t)"

definition after_text :: "cstring \<Rightarrow> u8 list option \<Rightarrow> cstring option outcome" where
  "after_text after got =
     obind (get_text got) (\<lambda>c.
       case c of
         None \<Rightarrow> Ret None
       | Some c \<Rightarrow>
           (case strstr c after of
              None \<Rightarrow> Ret None
            | Some c \<Rightarrow>
                if CHR 0x0A \<in> set (take (length after) c)
                then Ret (Some (drop (length after) c))
                else Ret (Some (takeWhile (\<lambda>x. x \<noteq> CHR 0x0A) (drop (length after) c)))))"

definition to_lower :: "char \<Rightarrow> char" where
  "to_lower c = (if 65 \<le> (of_char c :: nat) \<and> (of_char c :: nat) \<le> 90 then char_of ((of_char c :: nat) + 32) else c)"

definition strcasecmp_eq :: "cstring \<Rightarrow> cstring \<Rightarrow> bool" where
  "strcasecmp_eq s t \<longleftrightarrow> map to_lower s = map to_lower t"

definition no_answer :: "cstring \<Rightarrow> bool" where
  "no_answer c \<longleftrightarrow> strcasecmp_eq c ''No Answer'' \<or> strcasecmp_eq c ''Inoperable''"

fun skip_words :: "nat \<Rightarrow> cstring \<Rightarrow> cstring" where
  "skip_words 0 c = c"
| "skip_words (Suc n) c =
     (if no_answer c then c
      else skip_words n (if CHR '' '' \<in> set c then tl (dropWhile (\<lambda>x. x \<noteq> CHR '' '') c) else c))"

fun join_lines :: "nat \<Rightarrow> cstring \<Rightarrow> cstring" where
  "join_lines 0 c = c"
| "join_lines (Suc n) c =
     (if no_answer c then c
      else join_lines n (case dropWhile (\<lambda>x. x \<noteq> CHR 0x0A) c of
                           [] \<Rightarrow> c
                         | _ # rest \<Rightarrow> takeWhile (\<lambda>x. x \<noteq> CHR 0x0A) c @ CHR '' '' # rest))"

definition strip_version :: "nat \<Rightarrow> u8 list option \<Rightarrow> cstring option outcome" where
  "strip_version n got = obind (get_text got) (\<lambda>c. Ret (map_option (skip_words n) c))"

definition strip_newline :: "nat \<Rightarrow> u8 list option \<Rightarrow> cstring option outcome" where
  "strip_newline n got = obind (get_text got) (\<lambda>c. Ret (map_option (join_lines n) c))"

section \<open>What is known about ports\<close>

text \<open>The functions that a probe may have, with their arguments.\<close>

datatype probe_recieve_cb = After_text cstring | Strip_version nat | Strip_newline nat
datatype probe_send_cb = Send_text "cstring option"

definition call_recieve :: "probe_recieve_cb \<Rightarrow> u8 list option \<Rightarrow> cstring option outcome" where
  "call_recieve f got =
     (case f of
        After_text after \<Rightarrow> after_text after got
      | Strip_version n \<Rightarrow> strip_version n got
      | Strip_newline n \<Rightarrow> strip_newline n got)"

definition send_text :: "probe_send_cb \<Rightarrow> cstring option" where
  "send_text f = (case f of Send_text t \<Rightarrow> t)"

record probe =
  p_port :: u16
  p_send :: "probe_send_cb option"
  p_recieve :: "probe_recieve_cb option"

type_synonym probes = "(nat \<times> probe) list"

definition get_probe :: "u16 \<Rightarrow> probes \<Rightarrow> (nat \<times> probe) option" where
  "get_probe port ps = klook p_port ps port"

definition remove_probe :: "nat option \<Rightarrow> probes \<Rightarrow> probes" where
  "remove_probe p ps = (case p of None \<Rightarrow> ps | Some q \<Rightarrow> drop_address q ps)"

definition register_probe ::
  "nat option \<Rightarrow> u16 \<Rightarrow> probe_send_cb option \<Rightarrow> probe_recieve_cb option \<Rightarrow> probes \<Rightarrow> probes outcome" where
  "register_probe q port send_cb recieve ps =
     (if port > 0
      then let ps = remove_probe (map_option fst (get_probe port ps)) ps in
           case q of
             None \<Rightarrow> Exit 1
           | Some q \<Rightarrow> Ret (ps @ [(q, \<lparr>p_port = port, p_send = send_cb, p_recieve = recieve\<rparr>)])
      else Ret ps)"

definition probesa :: "(u16 \<times> probe_send_cb option \<times> probe_recieve_cb option) list" where
  "probesa =
     [(21, None, Some (Strip_version 1)), (22, None, Some (Strip_version 0)), (25, None, Some (Strip_version 1)),
      (80, Some (Send_text (Some (''GET / HTTP/1.0'' @ [CHR 0x0A, CHR 0x0A]))), Some (After_text ''Server: '')),
      (110, None, Some (Strip_version 2)), (119, None, Some (Strip_version 1)), (143, None, Some (Strip_version 2)),
      (444, None, Some (Strip_version 0)), (5900, None, Some (Strip_version 0)), (5901, None, Some (Strip_version 0)),
      (5902, None, Some (Strip_version 0)), (5903, None, Some (Strip_version 0)), (5904, None, Some (Strip_version 0)),
      (5905, None, Some (Strip_version 0)), (5906, None, Some (Strip_version 0)), (5907, None, Some (Strip_version 0))]"

definition init_probes :: "nat option list \<Rightarrow> probes \<Rightarrow> probes outcome" where
  "init_probes qs ps =
     fold (\<lambda>(q, port, send_cb, recieve) r. obind r (register_probe q port send_cb recieve))
       (zip qs probesa) (Ret ps)"

section \<open>A probe under way\<close>

definition POLLIN :: u16 where "POLLIN = 1"
definition POLLOUT :: u16 where "POLLOUT = 4"
definition PROBE_DATA_FLAGS_SEND :: u32 where "PROBE_DATA_FLAGS_SEND = 1"

text \<open>
  \<open>'c\<close> are the functions that clients pass, \<open>'u\<close> what they pass for them. What they do to the
  program is not that of the probes: their calls are logged, as is what is sent and closed.
\<close>

record ('c, 'u) probe_data =
  pd_cb :: "'c option"
  pd_timeout_cb :: "'c option"
  pd_user_data :: 'u
  pd_socket :: int
  pd_ip :: u32
  pd_siid :: "nat option"
  pd_soid :: "nat option"
  pd_tid :: int
  pd_flags :: u32
  pd_p :: nat

datatype ('c, 'u) probe_call =
    Version_call 'c u32 u16 "cstring option" 'u
  | Timeout_call 'c int u32 u16 'u
  | Sent int cstring
  | Closed int

record ('c, 'u) probe_world =
  pw_probes :: probes
  pw_data :: "nat \<Rightarrow> ('c, 'u) probe_data option"
  pw_log :: "('c, 'u) probe_call list"

datatype probe_fn = Send_cb | Recieve_cb | Timeout_cb

type_synonym probe_io = "(probe_fn, nat) io_state"
type_synonym probe_sched = "(probe_fn, nat) sched_state"
type_synonym ('c, 'u) probe_state = "probe_io \<times> probe_sched \<times> ('c, 'u) probe_world"

definition logs :: "('c, 'u) probe_call list \<Rightarrow> ('c, 'u) probe_world \<Rightarrow> ('c, 'u) probe_world" where
  "logs es w = w\<lparr>pw_log := pw_log w @ es\<rparr>"

definition io_drop :: "nat option \<Rightarrow> probe_io \<Rightarrow> probe_io outcome" where
  "io_drop q io =
     (case q of None \<Rightarrow> Ret io | Some h \<Rightarrow> obind (cheops_io_remove h io) (\<lambda>(r, io). Ret io))"

definition free_data :: "nat \<Rightarrow> ('c, 'u) probe_world \<Rightarrow> ('c, 'u) probe_world" where
  "free_data d w = w\<lparr>pw_data := (pw_data w)(d := None)\<rparr>"

definition recieve_cb ::
  "u8 list option \<Rightarrow> int \<Rightarrow> nat \<Rightarrow> ('c, 'u) probe_state \<Rightarrow> (int \<times> ('c, 'u) probe_state) outcome" where
  "recieve_cb got fd d s =
     (case s of (io, sched, w) \<Rightarrow>
      obind (deref (pw_data w) d) (\<lambda>pd.
      obind (deref (map_of (pw_probes w)) (pd_p pd)) (\<lambda>p.
      let finish = (\<lambda>w.
            let sched = (if pd_tid pd \<ge> 0 then snd (cheops_sched_del (pd_tid pd) sched) else sched) in
            obind (io_drop (pd_soid pd) io) (\<lambda>io.
              Ret (0, io, sched, free_data d (if pd_socket pd \<ge> 0 then logs [Closed (pd_socket pd)] w else w))))
      in
      case (p_recieve p, pd_cb pd) of
        (Some f, Some cb) \<Rightarrow>
          if pd_flags pd AND PROBE_DATA_FLAGS_SEND \<noteq> 0
          then obind (call_recieve f got) (\<lambda>text.
                 finish (logs [Version_call cb (pd_ip pd) (p_port p) text (pd_user_data pd)] w))
          else Ret (1, s)
      | _ \<Rightarrow> finish w)))"

definition send_cb :: "int \<Rightarrow> nat \<Rightarrow> ('c, 'u) probe_state \<Rightarrow> (int \<times> ('c, 'u) probe_state) outcome" where
  "send_cb fd d s =
     (case s of (io, sched, w) \<Rightarrow>
      obind (deref (pw_data w) d) (\<lambda>pd.
      obind (deref (map_of (pw_probes w)) (pd_p pd)) (\<lambda>p.
      let w = (case p_send p of
                 None \<Rightarrow> w
               | Some f \<Rightarrow> (case send_text f of None \<Rightarrow> w | Some t \<Rightarrow> logs [Sent fd t] w));
          pd = pd\<lparr>pd_flags := pd_flags pd OR PROBE_DATA_FLAGS_SEND, pd_soid := None\<rparr>
      in Ret (0, io, sched, w\<lparr>pw_data := (pw_data w)(d \<mapsto> pd)\<rparr>))))"

definition timeout_cb :: "nat \<Rightarrow> ('c, 'u) probe_state \<Rightarrow> (int \<times> ('c, 'u) probe_state) outcome" where
  "timeout_cb d s =
     (case s of (io, sched, w) \<Rightarrow>
      obind (deref (pw_data w) d) (\<lambda>pd.
      obind (io_drop (pd_soid pd) io) (\<lambda>io.
      obind (io_drop (pd_siid pd) io) (\<lambda>io.
      obind (case pd_timeout_cb pd of
               None \<Rightarrow> Ret w
             | Some t \<Rightarrow>
                 obind (deref (map_of (pw_probes w)) (pd_p pd)) (\<lambda>p.
                   Ret (logs [Timeout_call t (pd_socket pd) (pd_ip pd) (p_port p) (pd_user_data pd)] w)))
        (\<lambda>w.
          Ret (0, io, sched, free_data d (if pd_socket pd \<ge> 0 then logs [Closed (pd_socket pd)] w else w)))))))"

text \<open>The answers of the system to \<^verbatim>\<open>make_nonblock_stream_socket\<close>, and to \<^verbatim>\<open>get_version\<close>.\<close>

record socket_answers =
  sa_socket :: int
  sa_getfl :: int
  sa_setfl :: int
  sa_connect :: int
  sa_in_progress :: bool

definition make_nonblock_stream_socket :: "socket_answers \<Rightarrow> int" where
  "make_nonblock_stream_socket a =
     (if sa_socket a < 0 then -1
      else if sa_getfl a < 0 then -1
      else if sa_setfl a < 0 then -1
      else if sa_connect a < 0 \<and> \<not> sa_in_progress a then -1
      else sa_socket a)"

record probe_answers = socket_answers +
  pa_malloc :: "nat option"
  pa_sched :: "(probe_fn, nat) sched option"
  pa_now :: "timeval option"
  pa_grow_out :: "(probe_fn, nat) grow_answer"
  pa_out :: "nat option"
  pa_grow_in :: "(probe_fn, nat) grow_answer"
  pa_in :: "nat option"

definition get_version ::
  "probe_answers \<Rightarrow> u32 \<Rightarrow> u16 \<Rightarrow> int \<Rightarrow> 'c option \<Rightarrow> 'c option \<Rightarrow> 'u \<Rightarrow> ('c, 'u) probe_state
     \<Rightarrow> ('c, 'u) probe_state outcome" where
  "get_version a addr port timeout_ms cb timeout user_data s =
     (case s of (io, sched, w) \<Rightarrow>
      case (get_probe port (pw_probes w), pa_malloc a) of
        (Some (p, _), Some d) \<Rightarrow>
          let sock = make_nonblock_stream_socket (socket_answers.truncate a) in
          if sock < 0 then Ret s
          else
            (case cheops_sched_add (pa_sched a) (pa_now a) timeout_ms Timeout_cb d sched of (tid, sched) \<Rightarrow>
             obind (cheops_io_add (pa_grow_out a) (pa_out a) sock Send_cb POLLOUT d io) (\<lambda>(soid, io).
             obind (cheops_io_add (pa_grow_in a) (pa_in a) sock Recieve_cb POLLIN d io) (\<lambda>(siid, io).
               Ret (io, sched, w\<lparr>pw_data := (pw_data w)(d \<mapsto>
                 \<lparr>pd_cb = cb, pd_timeout_cb = timeout, pd_user_data = user_data, pd_socket = sock,
                  pd_ip = addr, pd_siid = siid, pd_soid = soid, pd_tid = tid, pd_flags = 0, pd_p = p\<rparr>)\<rparr>))))
      | _ \<Rightarrow> Ret s)"

section \<open>The loop of the agent\<close>

text \<open>
  The callbacks as the table and the queue call them, and what can happen: a request, an event
  that \<^verbatim>\<open>poll\<close> reported for entry \<open>x\<close> of the table, with what is read then, and the first timer.
\<close>

definition probe_io_cb ::
  "u8 list option \<Rightarrow> (probe_fn, nat, probe_sched \<times> ('c, 'u) probe_world) io_callback_sem" where
  "probe_io_cb got f h fd ev d s =
     (case f of
        Recieve_cb \<Rightarrow> recieve_cb got fd d s
      | Send_cb \<Rightarrow> send_cb fd d s
      | Timeout_cb \<Rightarrow> UB)"

definition probe_timer_cb ::
  "(probe_fn, nat, (probe_io \<times> ('c, 'u) probe_world) outcome) callback_sem" where
  "probe_timer_cb f d s =
     (case s of
        (sched, Ret (io, w)) \<Rightarrow>
          (if f = Timeout_cb
           then (case timeout_cb d (io, sched, w) of
                   Ret (r, io, sched, w) \<Rightarrow> (r, sched, Ret (io, w))
                 | Exit n \<Rightarrow> (0, sched, Exit n) | UB \<Rightarrow> (0, sched, UB) | NoFuel \<Rightarrow> (0, sched, NoFuel))
           else (0, sched, UB))
      | (sched, e) \<Rightarrow> (0, sched, e))"

datatype ('c, 'u) probe_label =
    Request probe_answers u32 u16 int 'c "'c option" 'u
  | Event nat u16 "u8 list option"
  | Expire "timeval option"

definition probe_step :: "('c, 'u) probe_label \<Rightarrow> ('c, 'u) probe_state \<Rightarrow> ('c, 'u) probe_state outcome option" where
  "probe_step l s =
     (case s of (io, sched, w) \<Rightarrow>
      case l of
        Request a addr port timeout_ms cb timeout u \<Rightarrow> Some (get_version a addr port timeout_ms (Some cb) timeout u s)
      | Event x ev got \<Rightarrow>
          if x < live io
          then Some (io_dispatch (probe_io_cb got) x
                 (io\<lparr>fds := (fds io)[x := (fds io ! x)\<lparr>pfd_revents := ev\<rparr>]\<rparr>, sched, w))
          else None
      | Expire now \<Rightarrow>
          (case schedq sched of
             [] \<Rightarrow> None
           | current # rest \<Rightarrow>
               Some (case runq_one (\<lambda>e. (now, e)) probe_timer_cb current
                           (sched\<lparr>schedq := rest, schedcnt := schedcnt sched - 1\<rparr>, Ret (io, w)) of
                       (sched, e) \<Rightarrow> obind e (\<lambda>(io, w). Ret (io, sched, w)))))"

section \<open>Who owns what\<close>

text \<open>
  The invariant, over what the table and the queue hold: a probe under way owns its two entries
  and its timer, as far as they could be set, and every entry and every timer has an owner.
\<close>

type_synonym probe_look = "nat \<Rightarrow> (int \<times> u16 \<times> probe_fn \<times> nat) option"
type_synonym probe_pend = "(int \<times> timeval \<times> probe_fn \<times> nat) multiset"

definition probe_holds :: "probe_look \<Rightarrow> probe_pend \<Rightarrow> nat \<Rightarrow> ('c, 'u) probe_data \<Rightarrow> bool" where
  "probe_holds look pend d pd \<longleftrightarrow>
     (\<forall>h. pd_siid pd = Some h \<longrightarrow> look h = Some (pd_socket pd, POLLIN, Recieve_cb, d)) \<and>
     (\<forall>h. pd_soid pd = Some h \<longrightarrow> look h = Some (pd_socket pd, POLLOUT, Send_cb, d)) \<and>
     (pd_flags pd AND PROBE_DATA_FLAGS_SEND \<noteq> 0 \<longrightarrow> pd_soid pd = None) \<and>
     (pd_tid pd = -1 \<or> pd_tid pd \<ge> 0 \<and> (\<exists>t. (pd_tid pd, t, Timeout_cb, d) \<in># pend)) \<and> pd_cb pd \<noteq> None"

definition probe_known :: "('c, 'u) probe_world \<Rightarrow> ('c, 'u) probe_data \<Rightarrow> bool" where
  "probe_known w pd \<longleftrightarrow> (\<exists>p. map_of (pw_probes w) (pd_p pd) = Some p \<and> p_recieve p \<noteq> None)"

definition probe_owned :: "probe_look \<Rightarrow> probe_pend \<Rightarrow> ('c, 'u) probe_world \<Rightarrow> bool" where
  "probe_owned look pend w \<longleftrightarrow>
     (\<forall>d pd. pw_data w d = Some pd \<longrightarrow> probe_holds look pend d pd \<and> probe_known w pd) \<and>
     (\<forall>h fd ev f d. look h = Some (fd, ev, f, d) \<longrightarrow>
        (\<exists>pd. pw_data w d = Some pd \<and>
           (f = Send_cb \<and> pd_soid pd = Some h \<or> f = Recieve_cb \<and> pd_siid pd = Some h))) \<and>
     (\<forall>i t f d. (i, t, f, d) \<in># pend \<longrightarrow>
        0 \<le> i \<and> f = Timeout_cb \<and> (\<exists>pd. pw_data w d = Some pd \<and> pd_tid pd = i)) \<and>
     (\<forall>i t f d t' f' d'. (i, t, f, d) \<in># pend \<longrightarrow> (i, t', f', d') \<in># pend \<longrightarrow> d = d')"

definition probe_inv :: "('c, 'u) probe_state \<Rightarrow> bool" where
  "probe_inv s \<longleftrightarrow>
     (case s of (io, sched, w) \<Rightarrow>
        quiet_ok io \<and> sched_inv sched \<and> (\<forall>(q, p) \<in> set (pw_probes w). p_recieve p \<noteq> None) \<and>
        distinct (map fst (pw_probes w)) \<and> probe_owned (io_lookup io) (sched_pending sched) w)"

lemma probe_ownedD:
  assumes "probe_owned look pend w" "pw_data w d = Some pd"
  shows "probe_holds look pend d pd" "probe_known w pd"
  using assms by (auto simp: probe_owned_def)

lemma probe_ownedE:
  assumes "probe_owned look pend w"
  shows "look h = Some (fd, ev, f, d) \<Longrightarrow> \<exists>pd. pw_data w d = Some pd \<and>
      (f = Send_cb \<and> pd_soid pd = Some h \<or> f = Recieve_cb \<and> pd_siid pd = Some h)"
    "(i, t, f, d) \<in># pend \<Longrightarrow> 0 \<le> i \<and> f = Timeout_cb \<and> (\<exists>pd. pw_data w d = Some pd \<and> pd_tid pd = i)"
    "(i, t, f, d) \<in># pend \<Longrightarrow> (i, t', f', d') \<in># pend \<Longrightarrow> d = d'"
  using assms unfolding probe_owned_def by blast+

lemma logs_simps [simp]: "pw_data (logs es w) = pw_data w" "pw_probes (logs es w) = pw_probes w"
  "pw_log (logs es w) = pw_log w @ es"
  by (simp_all add: logs_def)

lemma free_data_simps [simp]: "pw_data (free_data d w) = (pw_data w)(d := None)"
  "pw_probes (free_data d w) = pw_probes w" "pw_log (free_data d w) = pw_log w"
  by (simp_all add: free_data_def)

lemma probe_holds_mono:
  assumes "probe_holds look pend d pd"
    "\<And>h fd ev f. look h = Some (fd, ev, f, d) \<Longrightarrow> look' h = Some (fd, ev, f, d)"
    "\<And>i t. (i, t, Timeout_cb, d) \<in># pend \<Longrightarrow> (i, t, Timeout_cb, d) \<in># pend'"
  shows "probe_holds look' pend' d pd"
proof -
  have "\<forall>h. pd_siid pd = Some h \<longrightarrow> look' h = Some (pd_socket pd, POLLIN, Recieve_cb, d)"
    "\<forall>h. pd_soid pd = Some h \<longrightarrow> look' h = Some (pd_socket pd, POLLOUT, Send_cb, d)"
    "pd_tid pd = -1 \<or> pd_tid pd \<ge> 0 \<and> (\<exists>t. (pd_tid pd, t, Timeout_cb, d) \<in># pend')"
    using assms unfolding probe_holds_def by blast+
  then show ?thesis using assms(1) by (simp add: probe_holds_def)
qed

text \<open>A probe ends: it is freed with its entries and its timer.\<close>

lemma owned_done:
  assumes own: "probe_owned look pend w" and d: "pw_data w d = Some pd"
    and w': "pw_data w' = (pw_data w)(d := None)" "pw_probes w' = pw_probes w"
    and look': "\<And>h. look' h = (if pd_siid pd = Some h \<or> pd_soid pd = Some h then None else look h)"
    and pend': "pend' = filter_mset (\<lambda>p. fst p \<noteq> pd_tid pd) pend"
  shows "probe_owned look' pend' w'"
proof -
  have other: "look' h = look h" if "look h = Some (fd, ev, f, e)" "e \<noteq> d" for h fd ev f e
    using probe_ownedD(1) [OF own d] that unfolding look' probe_holds_def by auto
  have mine: "look' h = None" if "look h = Some (fd, ev, f, d)" for h fd ev f
    using probe_ownedE(1) [OF own that] d unfolding look' by auto
  have pend: "(i, t, f, e) \<in># pend' \<longleftrightarrow> (i, t, f, e) \<in># pend \<and> e \<noteq> d" for i t f e
  proof (cases "(i, t, f, e) \<in># pend")
    case True
    from probe_ownedE(2) [OF own this] obtain pe where pe: "pw_data w e = Some pe" "pd_tid pe = i" "0 \<le> i" by auto
    have "i = pd_tid pd" if "e = d" using d pe that by simp
    moreover have "e = d" if "i = pd_tid pd"
    proof -
      have "pd_tid pd = -1 \<or> (\<exists>t. (pd_tid pd, t, Timeout_cb, d) \<in># pend)"
        using probe_ownedD(1) [OF own d] by (simp add: probe_holds_def) blast
      with that pe(3) obtain t' where "(i, t', Timeout_cb, d) \<in># pend" by auto
      with True show ?thesis by (rule probe_ownedE(3) [OF own])
    qed
    ultimately show ?thesis using True by (auto simp: pend')
  qed (simp add: pend')
  have data: "pw_data w' e = Some pe \<longleftrightarrow> pw_data w e = Some pe \<and> e \<noteq> d" for e pe
    by (auto simp: w')
  have "probe_holds look' pend' e pe \<and> probe_known w' pe" if "pw_data w' e = Some pe" for e pe
  proof -
    from that have e: "pw_data w e = Some pe" "e \<noteq> d" by (simp_all add: data)
    have "probe_holds look' pend' e pe"
      by (rule probe_holds_mono [OF probe_ownedD(1) [OF own e(1)]]) (simp_all add: other e(2) pend)
    moreover have "probe_known w' pe" using probe_ownedD(2) [OF own e(1)] by (simp add: probe_known_def w')
    ultimately show ?thesis by simp
  qed
  moreover have "\<exists>pe. pw_data w' e = Some pe \<and> (f = Send_cb \<and> pd_soid pe = Some h \<or> f = Recieve_cb \<and> pd_siid pe = Some h)"
    if "look' h = Some (fd, ev, f, e)" for h fd ev f e
  proof -
    from that have "look h = Some (fd, ev, f, e)" by (auto simp: look' split: if_splits)
    moreover from this have "e \<noteq> d" using mine that by fastforce
    ultimately show ?thesis using probe_ownedE(1) [OF own] data by metis
  qed
  moreover have "0 \<le> i \<and> f = Timeout_cb \<and> (\<exists>pe. pw_data w' e = Some pe \<and> pd_tid pe = i)"
    if "(i, t, f, e) \<in># pend'" for i t f e
    using that probe_ownedE(2) [OF own] unfolding pend data by metis
  moreover have "e = e'" if "(i, t, f, e) \<in># pend'" "(i, t', f', e') \<in># pend'" for i t f e t' f' e'
    using that probe_ownedE(3) [OF own] unfolding pend by metis
  ultimately show ?thesis unfolding probe_owned_def by blast
qed

text \<open>The connection is open: the entry for writing is gone.\<close>

lemma owned_sent:
  assumes own: "probe_owned look pend w" and d: "pw_data w d = Some pd"
    and h: "look h = Some (fd, ev, Send_cb, d)"
    and w': "pw_data w' = (pw_data w)(d \<mapsto> pd\<lparr>pd_flags := fl, pd_soid := None\<rparr>)" "pw_probes w' = pw_probes w"
  shows "probe_owned (look(h := None)) pend w'"
proof -
  have so: "pd_soid pd = Some h" using probe_ownedE(1) [OF own h] d by auto
  have other: "(look(h := None)) k = look k" if "look k = Some (fd', ev', f, e)" "f = Recieve_cb \<or> e \<noteq> d" for k fd' ev' f e
    using h that by auto
  have "probe_holds (look(h := None)) pend e pe \<and> probe_known w' pe" if "pw_data w' e = Some pe" for e pe
  proof (cases "e = d")
    case True
    then have pe: "pe = pd\<lparr>pd_flags := fl, pd_soid := None\<rparr>" using that by (simp add: w')
    have "probe_holds (look(h := None)) pend d pe"
      using probe_ownedD(1) [OF own d] h unfolding probe_holds_def pe by auto
    moreover have "probe_known w' pe" using probe_ownedD(2) [OF own d] by (simp add: probe_known_def w' pe)
    ultimately show ?thesis using True by simp
  next
    case False
    then have e: "pw_data w e = Some pe" using that by (simp add: w')
    have "probe_holds (look(h := None)) pend e pe"
      by (rule probe_holds_mono [OF probe_ownedD(1) [OF own e]]) (use other False in auto)
    moreover have "probe_known w' pe" using probe_ownedD(2) [OF own e] by (simp add: probe_known_def w')
    ultimately show ?thesis by simp
  qed
  moreover have "\<exists>pe. pw_data w' e = Some pe \<and> (f = Send_cb \<and> pd_soid pe = Some k \<or> f = Recieve_cb \<and> pd_siid pe = Some k)"
    if k: "(look(h := None)) k = Some (fd', ev', f, e)" for k fd' ev' f e
  proof -
    from k have "k \<noteq> h" "look k = Some (fd', ev', f, e)" by (auto split: if_splits)
    then show ?thesis using probe_ownedE(1) [OF own] so d by (fastforce simp: w')
  qed
  moreover have "0 \<le> i \<and> f = Timeout_cb \<and> (\<exists>pe. pw_data w' e = Some pe \<and> pd_tid pe = i)"
    if "(i, t, f, e) \<in># pend" for i t f e
    using probe_ownedE(2) [OF own that] d by (auto simp: w')
  ultimately show ?thesis unfolding probe_owned_def using probe_ownedE(3) [OF own] by blast
qed

text \<open>A probe starts.\<close>

definition look_add :: "nat option \<Rightarrow> int \<times> u16 \<times> probe_fn \<times> nat \<Rightarrow> probe_look \<Rightarrow> probe_look" where
  "look_add q v look = (case q of None \<Rightarrow> look | Some h \<Rightarrow> look(h \<mapsto> v))"

lemma look_add_Some: "look_add q v look h = Some u \<longleftrightarrow> (q = Some h \<and> v = u) \<or> (q \<noteq> Some h \<and> look h = Some u)"
  by (auto simp: look_add_def split: option.split)

lemma owned_start:
  assumes own: "probe_owned look pend w" and d: "pw_data w d = None"
    and w': "pw_data w' = (pw_data w)(d \<mapsto> pd)" "pw_probes w' = pw_probes w"
    and known: "probe_known w pd" "pd_cb pd \<noteq> None" "pd_flags pd = 0"
    and so: "\<And>h. pd_soid pd = Some h \<Longrightarrow> look h = None"
    and si: "\<And>h. pd_siid pd = Some h \<Longrightarrow> look_add (pd_soid pd) (pd_socket pd, POLLOUT, Send_cb, d) look h = None"
    and look': "look' = look_add (pd_siid pd) (pd_socket pd, POLLIN, Recieve_cb, d)
        (look_add (pd_soid pd) (pd_socket pd, POLLOUT, Send_cb, d) look)"
    and pend': "pd_tid pd = -1 \<and> pend' = pend \<or>
        (0 \<le> pd_tid pd \<and> pd_tid pd \<notin> fst ` set_mset pend \<and> pend' = add_mset (pd_tid pd, tm, Timeout_cb, d) pend)"
  shows "probe_owned look' pend' w'"
proof -
  have sub: "look' h = Some v" if "look h = Some v" for h v
    using so si that by (auto simp: look' look_add_def split: option.split if_splits)
  have psub: "(i, t, f, e) \<in># pend'" if "(i, t, f, e) \<in># pend" for i t f e using pend' that by auto
  have mine: "look h = Some (fd, ev, f, e) \<Longrightarrow> e \<noteq> d" for h fd ev f e
    using probe_ownedE(1) [OF own] d by fastforce
  have pmine: "(i, t, f, e) \<in># pend \<Longrightarrow> e \<noteq> d" for i t f e
    using probe_ownedE(2) [OF own] d by fastforce
  have "probe_holds look' pend' e pe \<and> probe_known w' pe" if "pw_data w' e = Some pe" for e pe
  proof (cases "e = d")
    case True
    then have pe: "pe = pd" using that by (simp add: w')
    have "probe_holds look' pend' d pd"
      using known pend' si unfolding probe_holds_def look' by (auto simp: look_add_def split: option.splits if_splits)
    moreover have "probe_known w' pd" using known by (simp add: probe_known_def w')
    ultimately show ?thesis using True pe by simp
  next
    case False
    then have e: "pw_data w e = Some pe" using that by (simp add: w')
    have "probe_holds look' pend' e pe"
      by (rule probe_holds_mono [OF probe_ownedD(1) [OF own e]]) (auto intro: sub psub)
    moreover have "probe_known w' pe" using probe_ownedD(2) [OF own e] by (simp add: probe_known_def w')
    ultimately show ?thesis by simp
  qed
  moreover have "\<exists>pe. pw_data w' e = Some pe \<and> (f = Send_cb \<and> pd_soid pe = Some h \<or> f = Recieve_cb \<and> pd_siid pe = Some h)"
    if h: "look' h = Some (fd, ev, f, e)" for h fd ev f e
  proof (cases "look h = Some (fd, ev, f, e)")
    case True
    then show ?thesis using probe_ownedE(1) [OF own True] mine [OF True] by (auto simp: w')
  next
    case False
    then show ?thesis using h by (auto simp: look' look_add_Some w')
  qed
  moreover have "0 \<le> i \<and> f = Timeout_cb \<and> (\<exists>pe. pw_data w' e = Some pe \<and> pd_tid pe = i)"
    if i: "(i, t, f, e) \<in># pend'" for i t f e
  proof (cases "(i, t, f, e) \<in># pend")
    case True
    then show ?thesis using probe_ownedE(2) [OF own True] pmine [OF True] by (auto simp: w')
  next
    case False
    then show ?thesis using i pend' by (auto simp: w')
  qed
  moreover have "e = e'" if i: "(i, t, f, e) \<in># pend'" "(i, t', f', e') \<in># pend'" for i t f e t' f' e'
  proof (cases "(i, t, f, e) \<in># pend \<and> (i, t', f', e') \<in># pend")
    case True
    then show ?thesis using probe_ownedE(3) [OF own] by blast
  next
    case False
    have "(pd_tid pd, t'', f'', e'') \<notin># pend" if "pend' \<noteq> pend" for t'' f'' e''
      using pend' that by force
    then show ?thesis using False i pend' by auto
  qed
  ultimately show ?thesis unfolding probe_owned_def by blast
qed

section \<open>What the table does for a probe\<close>

lemma io_add_look:
  assumes "quiet_ok io" "unat (maxfdcnt io + 1) + k < 2 ^ 32 - 512" "\<And>q. p = Some q \<Longrightarrow> io_lookup io q = None"
  obtains r io' where "cheops_io_add m p fd cb ev d io = Ret (r, io')" "quiet_ok io'" "r = None \<or> r = p"
    "io_lookup io' = look_add r (fd, ev, cb, d) (io_lookup io)"
    "unat (maxfdcnt io' + 1) \<le> unat (maxfdcnt io + 1) + 512"
proof -
  have inv: "io_inv io" and room: "room io" using assms(1,2) by (simp_all add: quiet_ok_def room_def)
  have fresh: "idcells io q = None" if "p = Some q" for q
    using assms(3) [OF that] dom_io_lookup [OF inv] by (metis domIff)
  obtain r io' where r: "cheops_io_add m p fd cb ev d io = Ret (r, io')" "io_inv io'"
    "current_ioc io' = current_ioc io" "unat (maxfdcnt io' + 1) \<le> unat (maxfdcnt io + 1) + 512"
    "r = None \<Longrightarrow> entries io' = entries io \<and> idcells io' = idcells io" "r = None \<or> r = p"
    "\<And>q. r = Some q \<Longrightarrow>
       entries io' = entries io @
         [(\<lparr>pfd_fd = fd, pfd_events = ev, pfd_revents = 0\<rparr>, \<lparr>ir_callback = cb, ir_data = d, ir_id = q\<rparr>)] \<and>
       idcells io' = (idcells io)(q \<mapsto> int (live io))"
    by (rule io_add_inv [OF inv room, where p = p and m = m and fd = fd and cb = cb and ev = ev and d = d])
      (use fresh in blast)+
  have "io_lookup io' = look_add r (fd, ev, cb, d) (io_lookup io)"
  proof (cases r)
    case None
    then show ?thesis using r(5) by (simp add: look_add_def io_lookup_def)
  next
    case (Some q)
    then have "q \<notin> dom (idcells io)" using fresh r(6) by auto
    from io_lookup_snoc [OF inv this, of io'] r(7) [OF Some] show ?thesis
      by (simp add: Some look_add_def entry_pair_def)
  qed
  then show thesis using that r assms(1) by (simp add: quiet_ok_def)
qed

lemma io_drop_look:
  assumes "quiet_ok io" "\<And>h. q = Some h \<Longrightarrow> io_lookup io h \<noteq> None"
  obtains io' where "io_drop q io = Ret io'" "quiet_ok io'"
    "io_lookup io' = (case q of None \<Rightarrow> io_lookup io | Some h \<Rightarrow> (io_lookup io)(h := None))"
proof (cases q)
  case None
  then show thesis using that [of io] assms(1) by (simp add: io_drop_def)
next
  case (Some h)
  have i: "io_inv io" "current_ioc io = -1" using assms(1) by (simp_all add: quiet_ok_def)
  have "h \<in> dom (idcells io)" using assms(2) [OF Some] dom_io_lookup [OF i(1)] by auto
  from io_remove_inv [OF i this] show thesis
    using that Some by (auto simp: io_drop_def quiet_ok_def) metis
qed

text \<open>The call of an entry whose callback leaves the table alone.\<close>

lemma io_dispatch_own:
  assumes inv: "quiet_ok io" and x: "x < live io" and ev: "pfd_revents (fds io ! x) \<noteq> 0"
    and cb: "\<And>io'. cb (ir_callback (ior io ! x)) (ir_id (ior io ! x)) (pfd_fd (fds io ! x))
        (pfd_revents (fds io ! x)) (ir_data (ior io ! x)) (io', e) = Ret (r, io', e')"
  obtains io' where "io_dispatch cb x (io, e) = Ret (io', e')" "quiet_ok io'"
    "io_lookup io' = (if r = 0 then (io_lookup io)(ir_id (ior io ! x) := None) else io_lookup io)"
proof -
  have i: "io_inv io" using inv by (simp add: quiet_ok_def)
  have lens: "x < length (fds io)" "x < length (ior io)" using io_inv_lengths [OF i] x by auto
  have h: "idcells io (ir_id (ior io ! x)) = Some (int x)" by (rule io_inv_handle [OF i x])
  let ?io = "io\<lparr>current_ioc := int x, remove_current_ioc := False\<rparr>"
  show thesis
  proof (cases "r = 0")
    case True
    obtain io2 where io2: "io_shrink x ?io = Ret (0, io2)" "io_inv io2" "entries io2 = swap_remove x (entries io)"
    proof (rule io_shrink_inv [of ?io x])
      show "io_inv ?io" "x < live ?io" using i x by simp_all
    qed auto
    have "io_lookup io2 = (io_lookup io)(ir_id (ior io ! x) := None)" by (rule io_lookup_shrink [OF i x io2(3)])
    moreover have "io_dispatch cb x (io, e) = Ret (io2\<lparr>current_ioc := -1\<rparr>, e')"
      using ev cb [of ?io] True by (simp add: io_dispatch_def aget_def deref_def lens h io2(1))
    ultimately show thesis using that [of "io2\<lparr>current_ioc := -1\<rparr>"] io2(2) True by (simp add: quiet_ok_def)
  next
    case False
    then have "io_dispatch cb x (io, e) = Ret (?io\<lparr>current_ioc := -1\<rparr>, e')"
      using ev cb [of ?io] by (simp add: io_dispatch_def aget_def deref_def lens h)
    then show thesis using that [of "?io\<lparr>current_ioc := -1\<rparr>"] i False by (simp add: quiet_ok_def)
  qed
qed

section \<open>The callbacks\<close>

text \<open>
  A read that fails, or that does not fill the 2048 bytes of the buffer of \<^verbatim>\<open>get_text\<close>: one that
  fills them is undefined (lemma \<open>probe_full_buffer\<close>).
\<close>

definition read_fits :: "u8 list option \<Rightarrow> bool" where
  "read_fits got \<longleftrightarrow> (\<forall>bs. got = Some bs \<longrightarrow> length bs < PROBE_BUFFER)"

lemma call_recieve_Ret: "read_fits got \<Longrightarrow> \<exists>text. call_recieve f got = Ret text"
  by (cases f; cases got)
    (auto simp: read_fits_def call_recieve_def after_text_def strip_version_def strip_newline_def get_text_def
      split: option.split)

lemma probe_invD:
  assumes "probe_inv (io, sched, w)"
  shows "quiet_ok io" "sched_inv sched" "probe_owned (io_lookup io) (sched_pending sched) w"
    "\<forall>(q, p) \<in> set (pw_probes w). p_recieve p \<noteq> None" "distinct (map fst (pw_probes w))"
  using assms by (auto simp: probe_inv_def)

lemma del_tid:
  assumes "sched_inv sched" "\<And>i t f d. (i, t, f, d) \<in># sched_pending sched \<Longrightarrow> 0 \<le> i"
    "sched' = (if tid \<ge> 0 then snd (cheops_sched_del tid sched) else sched)"
  shows "sched_inv sched'" "sched_pending sched' = filter_mset (\<lambda>p. fst p \<noteq> tid) (sched_pending sched)"
proof -
  obtain r s where rs: "cheops_sched_del tid sched = (r, s)" by fastforce
  have "filter_mset (\<lambda>p. fst p \<noteq> tid) (sched_pending sched) = sched_pending sched" if "tid < 0"
    using assms(2) that by (subst filter_mset_eq_conv) force
  then show "sched_inv sched'" "sched_pending sched' = filter_mset (\<lambda>p. fst p \<noteq> tid) (sched_pending sched)"
    using schedq.del_law [OF assms(1) rs] assms(1) rs unfolding assms(3) by auto
qed

lemma recieve_cb_spec:
  assumes inv: "probe_inv (io, sched, w)" and h: "io_lookup io h = Some (fd, ev, Recieve_cb, d)"
    and got: "read_fits got"
  obtains (wait) "\<And>io'. recieve_cb got fd' d (io', sched, w) = Ret (1, io', sched, w)"
  | (finished) pd p cb ver sched' w' where "pw_data w d = Some pd" "pd_siid pd = Some h" "pd_soid pd = None"
    "pd_cb pd = Some cb" "map_of (pw_probes w) (pd_p pd) = Some p"
    "\<And>io'. recieve_cb got fd' d (io', sched, w) = Ret (0, io', sched', w')"
    "sched_inv sched'" "sched_pending sched' = filter_mset (\<lambda>p. fst p \<noteq> pd_tid pd) (sched_pending sched)"
    "pw_data w' = (pw_data w)(d := None)" "pw_probes w' = pw_probes w"
    "pw_log w' = pw_log w @ Version_call cb (pd_ip pd) (p_port p) ver (pd_user_data pd) #
       (if pd_socket pd \<ge> 0 then [Closed (pd_socket pd)] else [])"
proof -
  note own = probe_invD(3) [OF inv]
  obtain pd where pd: "pw_data w d = Some pd" "pd_siid pd = Some h" using probe_ownedE(1) [OF own h] by auto
  note holds = probe_ownedD(1) [OF own pd(1)]
  obtain p f where p: "map_of (pw_probes w) (pd_p pd) = Some p" "p_recieve p = Some f"
    using probe_ownedD(2) [OF own pd(1)] by (auto simp: probe_known_def)
  obtain cb where cb: "pd_cb pd = Some cb" using holds by (auto simp: probe_holds_def)
  obtain ver where ver: "call_recieve f got = Ret ver" using call_recieve_Ret [OF got] by blast
  show thesis
  proof (cases "pd_flags pd AND PROBE_DATA_FLAGS_SEND = 0")
    case True
    then show thesis using pd p cb by (intro wait) (simp add: recieve_cb_def deref_def)
  next
    case False
    then have so: "pd_soid pd = None" using holds by (simp add: probe_holds_def)
    let ?sched = "if pd_tid pd \<ge> 0 then snd (cheops_sched_del (pd_tid pd) sched) else sched"
    let ?w = "logs [Version_call cb (pd_ip pd) (p_port p) ver (pd_user_data pd)] w"
    let ?w' = "free_data d (if pd_socket pd \<ge> 0 then logs [Closed (pd_socket pd)] ?w else ?w)"
    have "recieve_cb got fd' d (io', sched, w) = Ret (0, io', ?sched, ?w')" for io'
      using False pd p cb so ver by (simp add: recieve_cb_def deref_def io_drop_def)
    moreover have "\<And>i t f d. (i, t, f, d) \<in># sched_pending sched \<Longrightarrow> 0 \<le> i"
      using probe_ownedE(2) [OF own] by blast
    note t = del_tid [OF probe_invD(2) [OF inv] this refl]
    ultimately show thesis
      by (intro finished [of pd cb p ?sched ?w' ver] pd so cb p t) simp_all
  qed
qed

lemma send_cb_spec:
  assumes inv: "probe_inv (io, sched, w)" and h: "io_lookup io h = Some (fd, ev, Send_cb, d)"
  obtains pd w' where "pw_data w d = Some pd" "pd_soid pd = Some h"
    "\<And>io'. send_cb fd' d (io', sched, w) = Ret (0, io', sched, w')"
    "pw_data w' = (pw_data w)(d \<mapsto> pd\<lparr>pd_flags := pd_flags pd OR PROBE_DATA_FLAGS_SEND, pd_soid := None\<rparr>)"
    "pw_probes w' = pw_probes w" "\<exists>es. pw_log w' = pw_log w @ es"
proof -
  note own = probe_invD(3) [OF inv]
  obtain pd where pd: "pw_data w d = Some pd" "pd_soid pd = Some h" using probe_ownedE(1) [OF own h] by auto
  obtain p where p: "map_of (pw_probes w) (pd_p pd) = Some p"
    using probe_ownedD(2) [OF own pd(1)] by (auto simp: probe_known_def)
  define w1 where "w1 = (case p_send p of None \<Rightarrow> w
      | Some f \<Rightarrow> (case send_text f of None \<Rightarrow> w | Some t \<Rightarrow> logs [Sent fd' t] w))"
  have w1: "pw_data w1 = pw_data w" "pw_probes w1 = pw_probes w" "\<exists>es. pw_log w1 = pw_log w @ es"
    by (auto simp: w1_def split: option.split)
  let ?w = "w1\<lparr>pw_data := (pw_data w1)(d \<mapsto> pd\<lparr>pd_flags := pd_flags pd OR PROBE_DATA_FLAGS_SEND, pd_soid := None\<rparr>)\<rparr>"
  have "send_cb fd' d (io', sched, w) = Ret (0, io', sched, ?w)" for io'
    using pd p unfolding send_cb_def by (simp add: deref_def w1_def [symmetric] Let_def)
  then show thesis using that [of pd ?w] pd w1 by simp
qed

lemma timeout_cb_spec:
  assumes quiet: "quiet_ok io" and own: "probe_owned (io_lookup io) pend w" and d: "pw_data w d = Some pd"
  obtains io' w' where "timeout_cb d (io, sched, w) = Ret (0, io', sched, w')" "quiet_ok io'"
    "\<And>h. io_lookup io' h = (if pd_siid pd = Some h \<or> pd_soid pd = Some h then None else io_lookup io h)"
    "pw_data w' = (pw_data w)(d := None)" "pw_probes w' = pw_probes w"
    "\<exists>port. pw_log w' = pw_log w @
       (case pd_timeout_cb pd of None \<Rightarrow> [] | Some t \<Rightarrow> [Timeout_call t (pd_socket pd) (pd_ip pd) port (pd_user_data pd)]) @
       (if pd_socket pd \<ge> 0 then [Closed (pd_socket pd)] else [])"
proof -
  note holds = probe_ownedD(1) [OF own d]
  obtain p where p: "map_of (pw_probes w) (pd_p pd) = Some p"
    using probe_ownedD(2) [OF own d] by (auto simp: probe_known_def)
  have ne: "pd_siid pd \<noteq> Some h" if "pd_soid pd = Some h" for h
    using holds that by (auto simp: probe_holds_def)
  obtain io1 where io1: "io_drop (pd_soid pd) io = Ret io1" "quiet_ok io1"
    "io_lookup io1 = (case pd_soid pd of None \<Rightarrow> io_lookup io | Some h \<Rightarrow> (io_lookup io)(h := None))"
    by (rule io_drop_look [OF quiet, of "pd_soid pd"]) (use holds in \<open>auto simp: probe_holds_def\<close>)
  have "io_lookup io1 h \<noteq> None" if "pd_siid pd = Some h" for h
    using holds that ne unfolding io1(3) by (auto simp: probe_holds_def split: option.split)
  then obtain io2 where io2: "io_drop (pd_siid pd) io1 = Ret io2" "quiet_ok io2"
    "io_lookup io2 = (case pd_siid pd of None \<Rightarrow> io_lookup io1 | Some h \<Rightarrow> (io_lookup io1)(h := None))"
    by (rule io_drop_look [OF io1(2), of "pd_siid pd"])
  define w1 where "w1 = (case pd_timeout_cb pd of None \<Rightarrow> w
      | Some t \<Rightarrow> logs [Timeout_call t (pd_socket pd) (pd_ip pd) (p_port p) (pd_user_data pd)] w)"
  let ?w = "free_data d (if pd_socket pd \<ge> 0 then logs [Closed (pd_socket pd)] w1 else w1)"
  have w1: "pw_data w1 = pw_data w" "pw_probes w1 = pw_probes w" "pw_log w1 = pw_log w @
      (case pd_timeout_cb pd of None \<Rightarrow> []
       | Some t \<Rightarrow> [Timeout_call t (pd_socket pd) (pd_ip pd) (p_port p) (pd_user_data pd)])"
    by (auto simp: w1_def split: option.split)
  have "timeout_cb d (io, sched, w) = Ret (0, io2, sched, ?w)"
    using d p io1(1) io2(1) by (cases "pd_timeout_cb pd") (simp_all add: timeout_cb_def deref_def w1_def)
  then show thesis
    using that [of io2 ?w] io2(2) w1 unfolding io2(3) io1(3) by (auto split: option.split)
qed

section \<open>Every step keeps the owners\<close>

text \<open>
  What is asked of a step: of a request, fresh objects from \<^verbatim>\<open>malloc\<close>, room for two more entries in
  the table, and a number left for its timer (the counter of \<^verbatim>\<open>sched.c\<close> is an \<^verbatim>\<open>int\<close>); of an event,
  that a read of it does not fill the buffer of \<^verbatim>\<open>get_text\<close>.
\<close>

fun label_ok :: "('c, 'u) probe_label \<Rightarrow> ('c, 'u) probe_state \<Rightarrow> bool" where
  "label_ok (Request a addr port timeout_ms cb timeout u) (io, sched, w) \<longleftrightarrow>
     (\<forall>d. pa_malloc a = Some d \<longrightarrow> pw_data w d = None) \<and>
     (\<forall>h. pa_out a = Some h \<longrightarrow> io_lookup io h = None) \<and>
     (\<forall>h. pa_in a = Some h \<longrightarrow> io_lookup io h = None \<and> pa_out a \<noteq> Some h) \<and>
     unat (maxfdcnt io + 1) + 512 < 2 ^ 32 - 512 \<and> eventcnt sched < 2147483647"
| "label_ok (Event x ev got) s \<longleftrightarrow> read_fits got"
| "label_ok (Expire now) s \<longleftrightarrow> True"

lemma timer_started:
  assumes "sched_inv sched" "eventcnt sched < 2147483647"
    "cheops_sched_add m now ms Timeout_cb d sched = (tid, sched')"
  obtains t where "sched_inv sched'" "tid = -1 \<and> sched_pending sched' = sched_pending sched \<or>
      0 \<le> tid \<and> tid \<notin> fst ` set_mset (sched_pending sched) \<and>
      sched_pending sched' = add_mset (tid, t, Timeout_cb, d) (sched_pending sched)"
  using assms
proof (cases rule: cheops_sched_add_cases)
  case failed
  then show thesis using that by (simp add: sched_pending_def)
next
  case (added t)
  have "tid \<notin> fst ` set_mset (sched_pending sched)"
    unfolding fst_sched_pending using sched_invD(4) [OF assms(1)] added(1) by fastforce
  then show thesis
    using that [of t] added sched_invD(7) [OF assms(1)] by (simp add: sched_pending_def timer_of_def)
qed

lemma step_request:
  assumes inv: "probe_inv (io, sched, w)" and ok: "label_ok (Request a addr port ms cb tmo u) (io, sched, w)"
  shows "\<exists>s'. get_version a addr port ms (Some cb) tmo u (io, sched, w) = Ret s' \<and> probe_inv s'"
proof -
  note own = probe_invD(3) [OF inv]
  let ?sock = "make_nonblock_stream_socket (socket_answers.truncate a)"
  show ?thesis
  proof (cases "get_probe port (pw_probes w) = None \<or> pa_malloc a = None \<or> ?sock < 0")
    case True
    then show ?thesis using inv by (auto simp: get_version_def Let_def split: option.split)
  next
    case False
    then obtain q p d where p: "get_probe port (pw_probes w) = Some (q, p)" "pa_malloc a = Some d" "\<not> ?sock < 0"
      by auto
    obtain tid sched' where add: "cheops_sched_add (pa_sched a) (pa_now a) ms Timeout_cb d sched = (tid, sched')"
      by fastforce
    obtain t where t: "sched_inv sched'" "tid = -1 \<and> sched_pending sched' = sched_pending sched \<or>
        0 \<le> tid \<and> tid \<notin> fst ` set_mset (sched_pending sched) \<and>
        sched_pending sched' = add_mset (tid, t, Timeout_cb, d) (sched_pending sched)"
      by (rule timer_started [OF probe_invD(2) [OF inv] _ add]) (use ok in simp)
    obtain so io1 where io1: "cheops_io_add (pa_grow_out a) (pa_out a) ?sock Send_cb POLLOUT d io = Ret (so, io1)"
      "quiet_ok io1" "so = None \<or> so = pa_out a"
      "io_lookup io1 = look_add so (?sock, POLLOUT, Send_cb, d) (io_lookup io)"
      "unat (maxfdcnt io1 + 1) \<le> unat (maxfdcnt io + 1) + 512"
      by (rule io_add_look [OF probe_invD(1) [OF inv], of 512 "pa_out a" "pa_grow_out a" ?sock Send_cb POLLOUT d])
        (use ok in auto)
    have fi: "io_lookup io1 h = None" if "pa_in a = Some h" for h
      using ok that io1(3) by (auto simp: io1(4) look_add_def split: option.split)
    have room: "unat (maxfdcnt io1 + 1) + 0 < 2 ^ 32 - 512" using ok io1(5) by simp
    obtain si io2 where io2:
      "cheops_io_add (pa_grow_in a) (pa_in a) ?sock Recieve_cb POLLIN d io1 = Ret (si, io2)"
      "quiet_ok io2" "si = None \<or> si = pa_in a"
      "io_lookup io2 = look_add si (?sock, POLLIN, Recieve_cb, d) (io_lookup io1)"
      by (rule io_add_look [OF io1(2), of 0 "pa_in a" "pa_grow_in a" ?sock Recieve_cb POLLIN d])
        (use fi room in auto)
    let ?pd = "\<lparr>pd_cb = Some cb, pd_timeout_cb = tmo, pd_user_data = u, pd_socket = ?sock, pd_ip = addr,
      pd_siid = si, pd_soid = so, pd_tid = tid, pd_flags = 0, pd_p = q\<rparr>"
    let ?w = "w\<lparr>pw_data := (pw_data w)(d \<mapsto> ?pd)\<rparr>"
    have "get_version a addr port ms (Some cb) tmo u (io, sched, w) = Ret (io2, sched', ?w)"
      using p add io1(1) io2(1) by (simp add: get_version_def Let_def)
    moreover have "probe_owned (io_lookup io2) (sched_pending sched') ?w"
    proof (rule owned_start [OF own, where d = d and pd = ?pd and w' = ?w and tm = t])
      show "pw_data w d = None" using ok p(2) by simp
      have "(q, p) \<in> set (pw_probes w)" using p(1) by (auto simp: get_probe_def dest: klook_mem)
      moreover from this have "map_of (pw_probes w) q = Some p"
        using probe_invD(5) [OF inv] by simp
      ultimately show "probe_known w ?pd" using probe_invD(4) [OF inv] by (auto simp: probe_known_def)
      show "io_lookup io h = None" if "pd_soid ?pd = Some h" for h using that io1(3) ok by auto
      show "look_add (pd_soid ?pd) (pd_socket ?pd, POLLOUT, Send_cb, d) (io_lookup io) h = None"
        if "pd_siid ?pd = Some h" for h
        using that io2(3) fi by (auto simp: io1(4))
    qed (use t io1(4) io2(4) in simp_all)
    ultimately show ?thesis using io2(2) t(1) inv by (auto simp: probe_inv_def)
  qed
qed

lemma step_event:
  assumes inv: "probe_inv (io, sched, w)" and got: "read_fits got" and x: "x < live io"
  shows "\<exists>s'. io_dispatch (probe_io_cb got) x
      (io\<lparr>fds := (fds io)[x := (fds io ! x)\<lparr>pfd_revents := ev\<rparr>]\<rparr>, sched, w) = Ret s' \<and> probe_inv s'"
proof -
  let ?io = "io\<lparr>fds := (fds io)[x := (fds io ! x)\<lparr>pfd_revents := ev\<rparr>]\<rparr>"
  have q: "quiet_ok ?io" and look: "io_lookup ?io = io_lookup io"
    using revents_look [OF probe_invD(1) [OF inv] x] by auto
  have inv': "probe_inv (?io, sched, w)" using inv q look by (simp add: probe_inv_def)
  have x': "x < live ?io" using x by simp
  define h where "h = ir_id (ior ?io ! x)"
  define d where "d = ir_data (ior ?io ! x)"
  obtain fd0 ev0 where h: "io_lookup ?io h = Some (fd0, ev0, ir_callback (ior ?io ! x), d)"
    using io_entry [OF q x'] by (simp add: h_def d_def)
  show ?thesis
  proof (cases "pfd_revents (fds ?io ! x) = 0")
    case True
    have "x < length (fds ?io)" using io_inv_lengths(1) [of ?io] q x' by (simp add: quiet_ok_def)
    then have "io_dispatch (probe_io_cb got) x (?io, sched, w) = Ret (?io, sched, w)"
      using True unfolding io_dispatch_def by (simp add: aget_def)
    then show ?thesis using inv' by blast
  next
    case rev: False
    show ?thesis
    proof (cases "ir_callback (ior ?io ! x)")
      case Recieve_cb
      note h' = h [unfolded Recieve_cb]
      show ?thesis
      proof (rule recieve_cb_spec [OF inv' h' got, where fd' = "pfd_fd (fds ?io ! x)"])
        assume wait: "\<And>io'. recieve_cb got (pfd_fd (fds ?io ! x)) d (io', sched, w) = Ret (1, io', sched, w)"
        obtain io2 where "io_dispatch (probe_io_cb got) x (?io, sched, w) = Ret (io2, sched, w)" "quiet_ok io2"
          "io_lookup io2 = (if (1::int) = 0 then (io_lookup ?io)(ir_id (ior ?io ! x) := None) else io_lookup ?io)"
          by (rule io_dispatch_own [OF q x' rev, of "probe_io_cb got" "(sched, w)" 1 "(sched, w)"])
            (use wait Recieve_cb in \<open>simp_all add: probe_io_cb_def d_def\<close>)
        then show ?thesis using inv' by (auto simp: probe_inv_def)
      next
        fix pd p cb ver sched' w'
        assume pd: "pw_data w d = Some pd" "pd_siid pd = Some h" "pd_soid pd = None"
          and call: "\<And>io'. recieve_cb got (pfd_fd (fds ?io ! x)) d (io', sched, w) = Ret (0, io', sched', w')"
          and sch: "sched_inv sched'" "sched_pending sched' = filter_mset (\<lambda>p. fst p \<noteq> pd_tid pd) (sched_pending sched)"
          and w': "pw_data w' = (pw_data w)(d := None)" "pw_probes w' = pw_probes w"
        obtain io2 where io2: "io_dispatch (probe_io_cb got) x (?io, sched, w) = Ret (io2, sched', w')" "quiet_ok io2"
          "io_lookup io2 = (if (0::int) = 0 then (io_lookup ?io)(ir_id (ior ?io ! x) := None) else io_lookup ?io)"
          by (rule io_dispatch_own [OF q x' rev, of "probe_io_cb got" "(sched, w)" 0 "(sched', w')"])
            (use call Recieve_cb in \<open>simp_all add: probe_io_cb_def d_def\<close>)
        have "probe_owned (io_lookup io2) (sched_pending sched') w'"
          by (rule owned_done [OF probe_invD(3) [OF inv'] pd(1) w' _ sch(2)])
            (use io2(3) pd in \<open>simp add: h_def\<close>)
        then show ?thesis using io2(1,2) sch(1) w'(2) inv' by (auto simp: probe_inv_def)
      qed
    next
      case Send_cb
      note h' = h [unfolded Send_cb]
      obtain pd w' where pd: "pw_data w d = Some pd" "pd_soid pd = Some h"
        "\<And>io'. send_cb (pfd_fd (fds ?io ! x)) d (io', sched, w) = Ret (0, io', sched, w')"
        "pw_data w' = (pw_data w)(d \<mapsto> pd\<lparr>pd_flags := pd_flags pd OR PROBE_DATA_FLAGS_SEND, pd_soid := None\<rparr>)"
        "pw_probes w' = pw_probes w"
        by (rule send_cb_spec [OF inv' h', where fd' = "pfd_fd (fds ?io ! x)"], rule that, assumption+)
      obtain io2 where io2: "io_dispatch (probe_io_cb got) x (?io, sched, w) = Ret (io2, sched, w')" "quiet_ok io2"
        "io_lookup io2 = (if (0::int) = 0 then (io_lookup ?io)(ir_id (ior ?io ! x) := None) else io_lookup ?io)"
        by (rule io_dispatch_own [OF q x' rev, of "probe_io_cb got" "(sched, w)" 0 "(sched, w')"])
          (use pd(3) Send_cb in \<open>simp_all add: probe_io_cb_def d_def\<close>)
      have "probe_owned ((io_lookup ?io)(h := None)) (sched_pending sched) w'"
        by (rule owned_sent [OF probe_invD(3) [OF inv'] pd(1) h' pd(4,5)])
      then show ?thesis using io2 inv' pd(5) by (auto simp: probe_inv_def h_def)
    next
      case Timeout_cb
      then show ?thesis using probe_ownedE(1) [OF probe_invD(3) [OF inv'] h] by simp
    qed
  qed
qed

lemma step_expire:
  assumes inv: "probe_inv (io, sched, w)" and queue: "schedq sched = current # rest"
  shows "\<exists>s'. (case runq_one (\<lambda>e. (now, e)) probe_timer_cb current
        (sched\<lparr>schedq := rest, schedcnt := schedcnt sched - 1\<rparr>, Ret (io, w)) of
      (sched, e) \<Rightarrow> obind e (\<lambda>(io, w). Ret (io, sched, w))) = Ret s' \<and> probe_inv s'"
proof -
  let ?s = "sched\<lparr>schedq := rest, schedcnt := schedcnt sched - 1\<rparr>"
  note own = probe_invD(3) [OF inv]
  have pend: "sched_pending sched = add_mset (timer_of current) (sched_pending ?s)"
    by (simp add: sched_pending_def queue)
  then have "(sd_id current, sd_when current, sd_callback current, sd_data current) \<in># sched_pending sched"
    by (simp add: timer_of_def)
  from probe_ownedE(2) [OF own this] obtain pd where cb: "sd_callback current = Timeout_cb"
    and pd: "pw_data w (sd_data current) = Some pd" "pd_tid pd = sd_id current" by auto
  obtain io' w' where to: "timeout_cb (sd_data current) (io, ?s, w) = Ret (0, io', ?s, w')" "quiet_ok io'"
    "\<And>h. io_lookup io' h = (if pd_siid pd = Some h \<or> pd_soid pd = Some h then None else io_lookup io h)"
    "pw_data w' = (pw_data w)(sd_data current := None)" "pw_probes w' = pw_probes w"
    by (rule timeout_cb_spec [OF probe_invD(1) [OF inv] own pd(1), of ?s], rule that, assumption+)
  have pop: "sched_inv ?s" "sd_id current \<notin> sd_id ` set rest"
    using sched_inv_pop [OF probe_invD(2) [OF inv] queue] by auto
  have "sched_pending ?s = filter_mset (\<lambda>p. fst p \<noteq> pd_tid pd) (sched_pending sched)"
  proof -
    have "sd_id current \<notin> fst ` set_mset (sched_pending ?s)" using pop(2) by (simp add: fst_sched_pending)
    from schedq.filter_other [OF this] show ?thesis using pd(2) unfolding pend by (simp add: timer_of_def)
  qed
  then have "probe_owned (io_lookup io') (sched_pending ?s) w'"
    by (intro owned_done [OF own pd(1) to(4,5)] to(3))
  then have "probe_inv (io', sched_release current ?s, w')"
    using to(2,5) sched_inv_release [OF pop(1), of current] inv
    by (auto simp: probe_inv_def sched_pending_def)
  moreover have "runq_one (\<lambda>e. (now, e)) probe_timer_cb current (?s, Ret (io, w)) =
      (sched_release current ?s, Ret (io', w'))"
    using cb to(1) by (simp add: runq_one_def probe_timer_cb_def)
  ultimately show ?thesis by simp
qed

lemma probe_step_inv:
  assumes "probe_inv s" "label_ok l s" "probe_step l s = Some r"
  shows "\<exists>s'. r = Ret s' \<and> probe_inv s'"
proof -
  obtain io sched w where s: "s = (io, sched, w)" by (metis prod_cases3)
  show ?thesis
  proof (cases l)
    case (Request a addr port ms cb tmo u)
    then show ?thesis using step_request [of io sched w a addr port ms cb tmo u] assms by (simp add: s probe_step_def)
  next
    case (Event x ev got)
    then show ?thesis
      using step_event [of io sched w got x ev] assms by (auto simp: s probe_step_def split: if_splits)
  next
    case (Expire now)
    then show ?thesis
      using step_expire [of io sched w _ _ now] assms by (auto simp: s probe_step_def split: list.splits)
  qed
qed

section \<open>The probes of the agent\<close>

text \<open>
  \<^verbatim>\<open>agent-probe.c\<close>. What is passed for the callbacks is the pointer and the agent of the request.
  The port is a 16-bit number in network order in a field of 32 bits; \<open>pad\<close> is the padding.
\<close>

record probe_user_data =
  ud_np :: u64
  ud_a :: nat

datatype agent_probe_fn = My_probe_callback | My_probe_timeout

definition probe_event :: "u64 \<Rightarrow> u32 \<Rightarrow> u16 \<Rightarrow> cstring \<Rightarrow> u8 list" where
  "probe_event np ip port version =
     mk_event REPLY_PROBE 0 (be32 ip @ be16 port @ [0, 0] @ ptr_bytes np @ cstr_bytes version)"

definition my_probe_callback ::
  "(int \<Rightarrow> u8 list \<Rightarrow> int) \<Rightarrow> u32 \<Rightarrow> u16 \<Rightarrow> cstring option \<Rightarrow> probe_user_data \<Rightarrow> 'h ev_state
     \<Rightarrow> 'h ev_state outcome" where
  "my_probe_callback wr ip port version ud ev =
     (case version of
        None \<Rightarrow> Ret ev
      | Some v \<Rightarrow>
          obind (event_send wr (ud_a ud) (probe_event (ud_np ud) ip port v) ev) (\<lambda>(r, ev). Ret ev))"

text \<open>\<open>got\<close> is whether \<^verbatim>\<open>malloc\<close> finds room for the user data, which only the timeout frees.\<close>

definition handle_probe_request ::
  "bool \<Rightarrow> probe_answers \<Rightarrow> u8 list \<Rightarrow> nat \<Rightarrow> (agent_probe_fn, probe_user_data) probe_state
     \<Rightarrow> (int \<times> (agent_probe_fn, probe_user_data) probe_state) outcome" where
  "handle_probe_request got ans e a s =
     (let ip = of_be32 e; port = of_be16 (drop 4 e); timeout = sint (of_be32 (drop 8 e));
          np = ptr_of (drop 16 e) in
      if got
      then obind (get_version ans ip port timeout (Some My_probe_callback) (Some My_probe_timeout)
             \<lparr>ud_np = np, ud_a = a\<rparr> s) (\<lambda>s. Ret (0, s))
      else Exit 1)"

section \<open>Properties\<close>

lemma sorted_wrt_fst: "sorted_wrt (\<lambda>v w. fst v \<noteq> fst w) xs \<longleftrightarrow> distinct (map fst xs)"
  by (induction xs) (auto simp: image_iff)


lemma register_probe_kput:
  "port > 0 \<Longrightarrow> register_probe (Some q) port sd rcv ps =
     Ret (kput p_port (q, \<lparr>p_port = port, p_send = sd, p_recieve = rcv\<rparr>) ps)"
  by (auto simp: register_probe_def kput_def get_probe_def remove_probe_def split: option.split)

definition as_probe :: "nat \<times> u16 \<times> probe_send_cb option \<times> probe_recieve_cb option \<Rightarrow> nat \<times> probe" where
  "as_probe e = (case e of (q, port, sd, rcv) \<Rightarrow> (q, \<lparr>p_port = port, p_send = sd, p_recieve = rcv\<rparr>))"

lemma fst_as_probe [simp]: "fst (as_probe e) = fst e"
  by (cases e) (simp add: as_probe_def)

lemma init_probes_fold:
  "init_probes (map Some qs) ps = Ret (fold (kput p_port) (map as_probe (zip qs probesa)) ps)"
proof -
  have "fold (\<lambda>(q, port, sd, rcv) r. obind r (register_probe q port sd rcv)) (zip (map Some qs) xs) (Ret ps) =
      Ret (fold (kput p_port) (map as_probe (zip qs xs)) ps)"
    if "\<forall>x \<in> set xs. fst x > 0" for xs ps
    using that
  proof (induction xs arbitrary: qs ps)
    case (Cons x xs)
    then show ?case
      by (cases qs; cases x) (simp_all add: register_probe_kput as_probe_def)
  qed simp
  then show ?thesis by (simp add: init_probes_def probesa_def)
qed

lemma set_kput: "set (kput key v xs) \<subseteq> insert v (set xs)"
  by (auto simp: kput_def drop_address_def split: option.split dest: set_remove_first_subset [THEN subsetD])

lemma set_fold_kput: "set (fold (kput key) vs xs) \<subseteq> set vs \<union> set xs"
proof (induction vs arbitrary: xs)
  case (Cons v vs)
  then show ?case using set_kput [of key v xs] by fastforce
qed simp

text \<open>What the agent registers at its start.\<close>

lemma init_probes_facts:
  assumes "distinct qs" "length qs = length probesa" "init_probes (map Some qs) [] = Ret ps"
  shows "keyed p_port ps" "\<forall>(q, p) \<in> set ps. p_recieve p \<noteq> None"
    "get_probe port ps = map_of (rev (map (\<lambda>v. (p_port (snd v), v)) (map as_probe (zip qs probesa)))) port"
proof -
  let ?vs = "map as_probe (zip qs probesa)"
  have ps: "ps = fold (kput p_port) ?vs []" using assms(3) by (simp add: init_probes_fold)
  have "distinct (map fst (zip qs probesa))" using assms(1,2) by simp
  then have "distinct (map fst ?vs)" by (simp add: o_def)
  then have "sorted_wrt (\<lambda>v w. fst v \<noteq> fst w) ?vs" by (simp add: sorted_wrt_fst)
  moreover have "keyed p_port []" "\<forall>v \<in> set ?vs. kfits v []" by (simp_all add: keyed_def kfits_def)
  ultimately have k: "keyed p_port ps \<and> klook p_port ps = klook p_port [] ++ map_of (rev (map (\<lambda>v. (p_port (snd v), v)) ?vs))"
    unfolding ps by (intro klist.put_all)
  then show "keyed p_port ps" by blast
  have e: "klook p_port [] = Map.empty" by (simp add: klook_def fun_eq_iff)
  show "get_probe port ps = map_of (rev (map (\<lambda>v. (p_port (snd v), v)) ?vs)) port"
    using k unfolding get_probe_def e by simp
  have r: "p_recieve p \<noteq> None" if "(q, p) \<in> set ?vs" for q p
  proof -
    from that obtain e where "e \<in> set (zip qs probesa)" "(q, p) = as_probe e" by (auto simp del: set_zip)
    moreover from this(1) have "snd e \<in> set probesa" by (metis prod.collapse set_zip_rightD)
    moreover have "\<forall>x \<in> set probesa. snd (snd x) \<noteq> None" by (simp add: probesa_def)
    ultimately show ?thesis by (fastforce simp: as_probe_def split: prod.splits)
  qed
  have "set ps \<subseteq> set ?vs" using set_fold_kput [of p_port ?vs "[]"] by (simp add: ps)
  then show "\<forall>(q, p) \<in> set ps. p_recieve p \<noteq> None" using r by blast
qed

text \<open>The states of the agent: after \<^verbatim>\<open>init_probes\<close>, requests, events and timers in any order.\<close>

inductive probe_reach :: "('c, 'u) probe_state \<Rightarrow> bool" where
  start: "distinct qs \<Longrightarrow> length qs = length probesa \<Longrightarrow> init_probes (map Some qs) [] = Ret ps \<Longrightarrow>
    probe_reach (io_init, sched_init, \<lparr>pw_probes = ps, pw_data = Map.empty, pw_log = []\<rparr>)"
| step: "probe_reach s \<Longrightarrow> label_ok l s \<Longrightarrow> probe_step l s = Some (Ret s') \<Longrightarrow> probe_reach s'"

lemma io_init_quiet: "quiet_ok io_init" "io_lookup io_init = Map.empty"
  using io_init_inv by (simp_all add: quiet_ok_def) (simp add: io_lookup_def entries_def io_init_def)

lemma probe_reach_inv: "probe_reach s \<Longrightarrow> probe_inv s"
proof (induction rule: probe_reach.induct)
  case (start qs ps)
  note f = init_probes_facts [OF start]
  have e: "sched_pending sched_init = {#}" by (simp add: sched_pending_def sched_init_def)
  show ?case
    using f(1,2) by (simp add: e probe_inv_def io_init_quiet sched_inv_init probe_owned_def keyed_def)
next
  case (step s l s')
  then show ?case using probe_step_inv [of s l "Ret s'"] by simp
qed

text \<open>
  C23. No probe dangles: whatever requests, events and timers come in whatever order, as long as
  no read fills the 2048 bytes of the buffer of \<^verbatim>\<open>get_text\<close>, fewer than 2147483647 timers were ever
  set, the table has room for two more entries and \<^verbatim>\<open>malloc\<close> gives blocks that are not in use, no
  step touches freed memory, and after it every entry of the table and every timer belongs to a
  probe that is under way and knows it, so that none is left behind when a probe ends.
\<close>

theorem probes_never_dangle:
  assumes "probe_reach s" "label_ok l s" "probe_step l s = Some r"
  shows "\<exists>io sched w. r = Ret (io, sched, w) \<and>
    (\<forall>h fd ev f d. io_lookup io h = Some (fd, ev, f, d) \<longrightarrow>
       (\<exists>pd. pw_data w d = Some pd \<and> fd = pd_socket pd \<and>
          (f = Send_cb \<and> pd_soid pd = Some h \<or> f = Recieve_cb \<and> pd_siid pd = Some h))) \<and>
    (\<forall>i t f d. (i, t, f, d) \<in># sched_pending sched \<longrightarrow>
       f = Timeout_cb \<and> (\<exists>pd. pw_data w d = Some pd \<and> pd_tid pd = i))"
proof -
  obtain io sched w where r: "r = Ret (io, sched, w)" "probe_inv (io, sched, w)"
    using probe_step_inv [OF probe_reach_inv [OF assms(1)] assms(2,3)] by auto
  note own = probe_invD(3) [OF r(2)]
  have "\<exists>pd. pw_data w d = Some pd \<and> fd = pd_socket pd \<and>
      (f = Send_cb \<and> pd_soid pd = Some h \<or> f = Recieve_cb \<and> pd_siid pd = Some h)"
    if h: "io_lookup io h = Some (fd, ev, f, d)" for h fd ev f d
  proof -
    obtain pd where pd: "pw_data w d = Some pd"
      "f = Send_cb \<and> pd_soid pd = Some h \<or> f = Recieve_cb \<and> pd_siid pd = Some h"
      using probe_ownedE(1) [OF own h] by blast
    then show ?thesis using probe_ownedD(1) [OF own pd(1)] h by (auto simp: probe_holds_def)
  qed
  then show ?thesis using r(1) probe_ownedE(2) [OF own] by blast
qed

text \<open>
  C24. A probe whose connection is open and that can be read from, by a read that fails or does not
  fill the 2048 bytes of the buffer, ends: its client is told the version once, its socket is closed, and its memory, its entry and its timer are gone, and
  nothing else is.
\<close>

theorem probe_answered:
  assumes "probe_reach (io, sched, w)" "x < live io" "ev \<noteq> 0"
    "\<forall>bs. got = Some bs \<longrightarrow> length bs < PROBE_BUFFER"
    "io_lookup io h = Some (fd, ev0, Recieve_cb, d)" "h = ir_id (ior io ! x)"
    "pw_data w d = Some pd" "pd_flags pd AND PROBE_DATA_FLAGS_SEND \<noteq> 0"
  shows "\<exists>cb p f ver io' sched' w'. probe_step (Event x ev got) (io, sched, w) = Some (Ret (io', sched', w')) \<and>
    pd_cb pd = Some cb \<and> map_of (pw_probes w) (pd_p pd) = Some p \<and> p_recieve p = Some f \<and>
    call_recieve f got = Ret ver \<and>
    pw_log w' = pw_log w @ Version_call cb (pd_ip pd) (p_port p) ver (pd_user_data pd) #
      (if pd_socket pd \<ge> 0 then [Closed (pd_socket pd)] else []) \<and>
    pw_data w' = (pw_data w)(d := None) \<and> io_lookup io' = (io_lookup io)(h := None) \<and>
    sched_pending sched' = filter_mset (\<lambda>p. fst p \<noteq> pd_tid pd) (sched_pending sched)"
proof -
  note inv = probe_reach_inv [OF assms(1)]
  note own = probe_invD(3) [OF inv]
  have fits: "read_fits got" using assms(4) by (simp add: read_fits_def)
  let ?io = "io\<lparr>fds := (fds io)[x := (fds io ! x)\<lparr>pfd_revents := ev\<rparr>]\<rparr>"
  have q: "quiet_ok ?io" and look: "io_lookup ?io = io_lookup io"
    using revents_look [OF probe_invD(1) [OF inv] assms(2)] by auto
  have lens: "x < length (fds io)" "x < length (fds ?io)"
    using io_inv_lengths(1) [of io] probe_invD(1) [OF inv] assms(2) by (simp_all add: quiet_ok_def)
  have rev: "pfd_revents (fds ?io ! x) \<noteq> 0" using assms(3) lens by simp
  have entry: "ir_callback (ior ?io ! x) = Recieve_cb" "ir_data (ior ?io ! x) = d"
    using io_entry [OF probe_invD(1) [OF inv] assms(2)] assms(5,6) by simp_all
  note holds = probe_ownedD(1) [OF own assms(7)]
  obtain p f where p: "map_of (pw_probes w) (pd_p pd) = Some p" "p_recieve p = Some f"
    using probe_ownedD(2) [OF own assms(7)] by (auto simp: probe_known_def)
  obtain cb where cb: "pd_cb pd = Some cb" using holds by (auto simp: probe_holds_def)
  have so: "pd_soid pd = None" using holds assms(8) by (simp add: probe_holds_def)
  obtain ver where ver: "call_recieve f got = Ret ver" using call_recieve_Ret [OF fits] by blast
  let ?sched = "if pd_tid pd \<ge> 0 then snd (cheops_sched_del (pd_tid pd) sched) else sched"
  let ?w = "logs [Version_call cb (pd_ip pd) (p_port p) ver (pd_user_data pd)] w"
  let ?w' = "free_data d (if pd_socket pd \<ge> 0 then logs [Closed (pd_socket pd)] ?w else ?w)"
  have call: "recieve_cb got fd' d (io', sched, w) = Ret (0, io', ?sched, ?w')" for io' fd'
    using assms(7,8) p cb so ver by (simp add: recieve_cb_def deref_def io_drop_def)
  obtain io2 where io2: "io_dispatch (probe_io_cb got) x (?io, sched, w) = Ret (io2, ?sched, ?w')"
    "io_lookup io2 = (if (0::int) = 0 then (io_lookup ?io)(ir_id (ior ?io ! x) := None) else io_lookup ?io)"
    by (rule io_dispatch_own [OF q _ rev, of "probe_io_cb got" "(sched, w)" 0 "(?sched, ?w')"])
      (use call entry assms(2) in \<open>simp_all add: probe_io_cb_def\<close>)
  have "\<And>i t f d. (i, t, f, d) \<in># sched_pending sched \<Longrightarrow> 0 \<le> i" using probe_ownedE(2) [OF own] by blast
  note t = del_tid [OF probe_invD(2) [OF inv] this refl, where tid = "pd_tid pd"]
  have "probe_step (Event x ev got) (io, sched, w) = Some (Ret (io2, ?sched, ?w'))"
    using assms(2) io2(1) by (simp add: probe_step_def)
  moreover have "io_lookup io2 = (io_lookup io)(h := None)" using io2(2) look assms(6) by simp
  ultimately show ?thesis using p cb ver t(2) by (intro exI conjI) (assumption | simp)+
qed

section \<open>A probe of ssh\<close>

definition sample_probes :: probes where
  "sample_probes = map as_probe (zip [1..<17] probesa)"

definition sample_answers :: probe_answers where
  "sample_answers = \<lparr>sa_socket = 9, sa_getfl = 2, sa_setfl = 0, sa_connect = -1, sa_in_progress = True,
     pa_malloc = Some 50,
     pa_sched = Some \<lparr>sd_id = 0, sd_when = TV 0 0, sd_resched = 0, sd_data = 0, sd_callback = Timeout_cb\<rparr>,
     pa_now = Some (TV 10 0),
     pa_grow_out = (Some \<lparr>ir_callback = Send_cb, ir_data = 0, ir_id = 0\<rparr>, Some \<lparr>pfd_fd = 0, pfd_events = 0, pfd_revents = 0\<rparr>),
     pa_out = Some 60,
     pa_grow_in = (Some \<lparr>ir_callback = Send_cb, ir_data = 0, ir_id = 0\<rparr>, Some \<lparr>pfd_fd = 0, pfd_events = 0, pfd_revents = 0\<rparr>),
     pa_in = Some 61\<rparr>"

definition sample_start :: "(agent_probe_fn, probe_user_data) probe_state" where
  "sample_start = (io_init, sched_init, \<lparr>pw_probes = sample_probes, pw_data = Map.empty, pw_log = []\<rparr>)"

definition sample_label :: "(agent_probe_fn, probe_user_data) probe_label" where
  "sample_label = Request sample_answers 5 22 1000 My_probe_callback (Some My_probe_timeout) \<lparr>ud_np = 7, ud_a = 1\<rparr>"

lemma sample_reach: "probe_reach sample_start"
proof -
  have "init_probes (map Some [1..<17]) [] = Ret sample_probes"
    unfolding sample_probes_def by code_simp
  from probe_reach.start [OF _ _ this] show ?thesis by (simp add: sample_start_def probesa_def)
qed

lemma sample_label_ok: "label_ok sample_label sample_start"
  by (simp add: sample_label_def sample_start_def sample_answers_def io_init_quiet) (simp add: io_init_def sched_init_def)

definition sample_open :: "(agent_probe_fn, probe_user_data) probe_state outcome" where
  "sample_open = (case probe_step sample_label sample_start of
     Some (Ret s) \<Rightarrow> (case probe_step (Event 0 4 None) s of Some r \<Rightarrow> r | None \<Rightarrow> UB) | _ \<Rightarrow> UB)"

lemma sample_open_eval:
  "case sample_open of
     Ret (io, sched, w) \<Rightarrow> live io = 1 \<and> ir_id (ior io ! 0) = 61 \<and>
       io_lookup io 61 = Some (9, 1, Recieve_cb, 50) \<and> pw_log w = [] \<and>
       (case pw_data w 50 of
          Some pd \<Rightarrow> pd_flags pd = 1 \<and> pd_ip pd = 5 \<and> pd_user_data pd = \<lparr>ud_np = 7, ud_a = 1\<rparr> \<and> pd_socket pd = 9 \<and>
            pd_cb pd = Some My_probe_callback \<and>
            (case map_of (pw_probes w) (pd_p pd) of
               Some p \<Rightarrow> p_port p = 22 \<and> p_recieve p = Some (Strip_version 0) | None \<Rightarrow> False)
        | None \<Rightarrow> False)
   | _ \<Rightarrow> False"
  by code_simp

lemma probes_never_dangle_witness:
  "\<exists>io sched w. probe_step sample_label sample_start = Some (Ret (io, sched, w)) \<and>
    (\<forall>h fd ev f d. io_lookup io h = Some (fd, ev, f, d) \<longrightarrow>
       (\<exists>pd. pw_data w d = Some pd \<and> fd = pd_socket pd \<and>
          (f = Send_cb \<and> pd_soid pd = Some h \<or> f = Recieve_cb \<and> pd_siid pd = Some h)))"
proof -
  obtain r where "probe_step sample_label sample_start = Some r"
    by (simp add: probe_step_def sample_label_def sample_start_def)
  with probes_never_dangle [OF sample_reach sample_label_ok this] show ?thesis by auto
qed

lemma probe_answered_witness:
  "\<exists>s s'. sample_open = Ret s \<and> probe_step (Event 0 1 (Some (map byte_of_char ''SSH-2.0''))) s = Some (Ret s') \<and>
     pw_log (snd (snd s')) = [Version_call My_probe_callback 5 22 (Some ''SSH-2.0'') \<lparr>ud_np = 7, ud_a = 1\<rparr>, Closed 9]"
proof -
  let ?got = "Some (map byte_of_char ''SSH-2.0'')"
  obtain io sched w where s: "sample_open = Ret (io, sched, w)"
    using sample_open_eval by (auto split: outcome.splits)
  obtain pd p where pd: "live io = 1" "ir_id (ior io ! 0) = 61" "io_lookup io 61 = Some (9, 1, Recieve_cb, 50)"
    "pw_log w = []" "pw_data w 50 = Some pd" "pd_flags pd = 1" "pd_ip pd = 5"
    "pd_user_data pd = \<lparr>ud_np = 7, ud_a = 1\<rparr>" "pd_socket pd = 9" "pd_cb pd = Some My_probe_callback"
    "map_of (pw_probes w) (pd_p pd) = Some p" "p_port p = 22" "p_recieve p = Some (Strip_version 0)"
    using sample_open_eval by (auto simp: s split: option.splits)
  obtain s1 where s1: "probe_step sample_label sample_start = Some (Ret s1)"
    "probe_step (Event 0 4 None) s1 = Some (Ret (io, sched, w))"
    using s by (auto simp: sample_open_def split: option.splits outcome.splits)
  have r1: "probe_reach s1" by (rule probe_reach.step [OF sample_reach sample_label_ok s1(1)])
  have r2: "probe_reach (io, sched, w)"
    by (rule probe_reach.step [OF r1 _ s1(2)]) (simp add: read_fits_def)
  have ver: "call_recieve (Strip_version 0) ?got = Ret (Some ''SSH-2.0'')"
  proof -
    have "case call_recieve (Strip_version 0) ?got of Ret v \<Rightarrow> v = Some ''SSH-2.0'' | _ \<Rightarrow> False" by code_simp
    then show ?thesis by (auto split: outcome.splits)
  qed
  have "length (map byte_of_char ''SSH-2.0'') < PROBE_BUFFER" by (simp add: PROBE_BUFFER_def)
  with pd have "\<exists>cb p f ver io' sched' w'. probe_step (Event 0 1 ?got) (io, sched, w) = Some (Ret (io', sched', w')) \<and>
      pd_cb pd = Some cb \<and> map_of (pw_probes w) (pd_p pd) = Some p \<and> p_recieve p = Some f \<and>
      call_recieve f ?got = Ret ver \<and>
      pw_log w' = pw_log w @ Version_call cb (pd_ip pd) (p_port p) ver (pd_user_data pd) #
        (if pd_socket pd \<ge> 0 then [Closed (pd_socket pd)] else [])"
    using probe_answered [OF r2 _ _ _ pd(3) _ pd(5), of 0 1 ?got] by (auto simp: PROBE_DATA_FLAGS_SEND_def)
  then obtain io' sched' w' where "probe_step (Event 0 1 ?got) (io, sched, w) = Some (Ret (io', sched', w'))"
    "pw_log w' = [Version_call My_probe_callback 5 22 (Some ''SSH-2.0'') \<lparr>ud_np = 7, ud_a = 1\<rparr>, Closed 9]"
    using pd ver by (simp del: list.map) blast
  then show ?thesis using s by (intro exI [of _ "(io, sched, w)"] exI [of _ "(io', sched', w')"]) simp
qed

text \<open>The limits: a full buffer, a probe removed under a request, and a timeout of 0, which sets no timer.\<close>

lemma probe_full_buffer: "call_recieve f (Some (replicate 2048 0)) = UB"
  by (cases f) (simp_all add: call_recieve_def after_text_def strip_version_def strip_newline_def get_text_def PROBE_BUFFER_def)

lemma probe_no_timer:
  assumes "pa_malloc a = Some d" "get_version a addr port 0 cb tmo u (io, sched, w) = Ret (io', sched', w')"
    "get_probe port (pw_probes w) \<noteq> None" "0 \<le> make_nonblock_stream_socket (socket_answers.truncate a)"
  shows "sched' = sched \<and> (\<exists>pd. pw_data w' d = Some pd \<and> pd_tid pd = -1)"
  using assms by (auto simp: get_version_def cheops_sched_add_def Let_def)

end
