(* ===== verification/Canvas.thy ===== *)
theory Canvas
  imports Os_Scan
begin

text \<open>
  The pages of the client: \<^verbatim>\<open>gui-canvas.c\<close> and \<^verbatim>\<open>gui-viewspace.c\<close>, as far as they keep the
  objects of a page, the links between them, the merging of objects and the selection. Drawing
  and widgets are left out, and with them the parts of an object that only they use.

  An object and a link are at an address; a page is at the pointer that events carry. The list
  of the objects of a page is the list of their addresses. Reading an address at which nothing
  is, or no longer is, is undefined.
\<close>

section \<open>State\<close>

record page_object =
  po_ip :: u32
  po_name :: "cstring option"
  po_flags :: u32
  po_links :: "nat list"
  po_merge :: "nat option"
  po_merge_primary :: "nat option"
  po_plink :: "nat option"
  po_os_data :: "os_stats option"

record page_object_link =
  pol_po1 :: nat
  pol_po2 :: nat
  pol_merge1 :: "nat option"
  pol_merge2 :: "nat option"

record net_page =
  np_objects :: "nat list"
  np_plink :: "nat option"
  np_agent :: nat

record canvas =
  cv_po :: "nat \<Rightarrow> page_object option"
  cv_pol :: "nat \<Rightarrow> page_object_link option"
  cv_pages :: "(u64 \<times> net_page) list"

definition PAGE_OBJECT_HIGHLIGHT :: u32 where "PAGE_OBJECT_HIGHLIGHT = 2"
definition PAGE_OBJECT_CREATED_NEW :: u32 where "PAGE_OBJECT_CREATED_NEW = 8"
definition PAGE_OBJECT_OS_DETECT_SENT :: u32 where "PAGE_OBJECT_OS_DETECT_SENT = 0x20"

section \<open>Looking up\<close>

definition net_page_at :: "u64 \<Rightarrow> canvas \<Rightarrow> net_page option" where
  "net_page_at np w = map_of (cv_pages w) np"

definition is_valid_net_page :: "u64 \<Rightarrow> canvas \<Rightarrow> bool" where
  "is_valid_net_page np w \<longleftrightarrow> np \<in> fst ` set (cv_pages w)"

definition is_valid_page_object :: "u64 \<Rightarrow> nat \<Rightarrow> canvas \<Rightarrow> bool" where
  "is_valid_page_object np po w \<longleftrightarrow> (\<exists>page. net_page_at np w = Some page \<and> po \<in> set (np_objects page))"

fun find_ip :: "u32 \<Rightarrow> nat list \<Rightarrow> canvas \<Rightarrow> nat option outcome" where
  "find_ip ip [] w = Ret None"
| "find_ip ip (a # as) w =
     obind (deref (cv_po w) a) (\<lambda>po. if po_ip po = ip then Ret (Some a) else find_ip ip as w)"

definition page_object_get_by_ip :: "u64 \<Rightarrow> u32 \<Rightarrow> canvas \<Rightarrow> nat option outcome" where
  "page_object_get_by_ip np ip w =
     (case net_page_at np w of None \<Rightarrow> Ret None | Some page \<Rightarrow> find_ip ip (np_objects page) w)"

text \<open>\<^verbatim>\<open>strcmp\<close> of a NULL name is undefined.\<close>

fun find_name :: "cstring \<Rightarrow> nat list \<Rightarrow> canvas \<Rightarrow> nat option outcome" where
  "find_name name [] w = Ret None"
| "find_name name (a # as) w =
     obind (deref (cv_po w) a) (\<lambda>po.
       case po_name po of
         None \<Rightarrow> UB
       | Some n \<Rightarrow> if n = name then Ret (Some a) else find_name name as w)"

definition page_object_get :: "u64 \<Rightarrow> cstring \<Rightarrow> canvas \<Rightarrow> nat option outcome" where
  "page_object_get np name w =
     (case net_page_at np w of None \<Rightarrow> Ret None | Some page \<Rightarrow> find_name name (np_objects page) w)"

section \<open>Objects\<close>

definition po_upd :: "nat \<Rightarrow> (page_object \<Rightarrow> page_object) \<Rightarrow> canvas \<Rightarrow> canvas outcome" where
  "po_upd a f w = obind (deref (cv_po w) a) (\<lambda>p. Ret (w\<lparr>cv_po := (cv_po w)(a \<mapsto> f p)\<rparr>))"

definition page_upd :: "u64 \<Rightarrow> (net_page \<Rightarrow> net_page) \<Rightarrow> canvas \<Rightarrow> canvas" where
  "page_upd np f w = w\<lparr>cv_pages := map (\<lambda>(k, page). if k = np then (k, f page) else (k, page)) (cv_pages w)\<rparr>"

definition page_object_new :: page_object where
  "page_object_new = \<lparr>po_ip = 0, po_name = None, po_flags = PAGE_OBJECT_CREATED_NEW, po_links = [],
     po_merge = None, po_merge_primary = None, po_plink = None, po_os_data = None\<rparr>"

text \<open>
  What displaying an object does to it, the drawing apart: a name that is the text of its address is
  dropped, and unless it is shown by the primary it is merged into, it is no longer new.
\<close>

definition display_name :: "u32 \<Rightarrow> cstring option \<Rightarrow> cstring option" where
  "display_name ip name =
     (case name of None \<Rightarrow> None | Some n \<Rightarrow> if inet_aton n = Some ip then None else Some n)"

definition displayed :: "nat \<Rightarrow> page_object \<Rightarrow> page_object" where
  "displayed a po = po\<lparr>po_name := display_name (po_ip po) (po_name po),
     po_flags := (if po_merge_primary po = None \<or> po_merge_primary po = Some a
                  then po_flags po AND NOT PAGE_OBJECT_CREATED_NEW else po_flags po)\<rparr>"

definition page_object_display :: "nat \<Rightarrow> canvas \<Rightarrow> canvas outcome" where
  "page_object_display a = po_upd a (displayed a)"

text \<open>\<open>q\<close> is what \<^verbatim>\<open>malloc\<close> returns for a new object; without memory the client crashes.\<close>

definition add_host_entry_to_net_page ::
  "nat option \<Rightarrow> u64 \<Rightarrow> u32 \<Rightarrow> cstring option \<Rightarrow> canvas \<Rightarrow> (nat option \<times> canvas) outcome" where
  "add_host_entry_to_net_page q np ip name w =
     (case net_page_at np w of
        None \<Rightarrow> Ret (None, w)
      | Some page \<Rightarrow>
          obind (find_ip ip (np_objects page) w) (\<lambda>found.
            case found of
              Some a \<Rightarrow>
                (case name of
                   None \<Rightarrow> Ret (Some a, w)
                 | Some n \<Rightarrow> obind (po_upd a (\<lambda>p. p\<lparr>po_name := Some n\<rparr>) w) (\<lambda>w. Ret (Some a, w)))
            | None \<Rightarrow>
                (case q of
                   None \<Rightarrow> UB
                 | Some a \<Rightarrow>
                     let po = page_object_new\<lparr>po_ip := ip,
                                po_name := Some (case name of Some n \<Rightarrow> n | None \<Rightarrow> ip2str ip)\<rparr> in
                     obind (page_object_display a (page_upd np (\<lambda>page. page\<lparr>np_objects := a # np_objects page\<rparr>)
                              (w\<lparr>cv_po := (cv_po w)(a \<mapsto> po)\<rparr>))) (\<lambda>w. Ret (Some a, w)))))"

definition page_object_free_os_data :: "nat \<Rightarrow> canvas \<Rightarrow> canvas outcome" where
  "page_object_free_os_data a w = po_upd a (\<lambda>p. p\<lparr>po_os_data := None\<rparr>) w"

section \<open>Links\<close>

definition add_link :: "nat \<Rightarrow> nat \<Rightarrow> canvas \<Rightarrow> canvas outcome" where
  "add_link q a w = po_upd a (\<lambda>p. p\<lparr>po_links := po_links p @ [q]\<rparr>) w"

definition drop_link :: "nat \<Rightarrow> nat \<Rightarrow> canvas \<Rightarrow> canvas outcome" where
  "drop_link q a w = po_upd a (\<lambda>p. p\<lparr>po_links := remove1 q (po_links p)\<rparr>) w"

text \<open>\<open>po\<close> is the object whose list the caller is about to free, \<^theory_text>\<open>None\<close> for NULL.\<close>

definition page_object_link_destroy :: "nat \<Rightarrow> nat option \<Rightarrow> canvas \<Rightarrow> canvas outcome" where
  "page_object_link_destroy q po w =
     obind (deref (cv_pol w) q) (\<lambda>pol.
     obind (case pol_merge1 pol of
              Some m \<Rightarrow> if po \<noteq> Some m then drop_link q m w else Ret w
            | None \<Rightarrow> if po \<noteq> Some (pol_po1 pol) then drop_link q (pol_po1 pol) w else Ret w) (\<lambda>w.
     obind (case pol_merge2 pol of
              Some m \<Rightarrow> if po \<noteq> Some m then drop_link q m w else Ret w
            | None \<Rightarrow> if po \<noteq> Some (pol_po2 pol) then drop_link q (pol_po2 pol) w else Ret w) (\<lambda>w.
       Ret (w\<lparr>cv_pol := (cv_pol w)(q := None)\<rparr>))))"

definition links_them :: "nat \<Rightarrow> nat \<Rightarrow> page_object_link \<Rightarrow> bool" where
  "links_them a b pol \<longleftrightarrow> pol_po1 pol = a \<and> pol_po2 pol = b \<or> pol_po1 pol = b \<and> pol_po2 pol = a"

fun find_link :: "nat \<Rightarrow> nat \<Rightarrow> nat list \<Rightarrow> canvas \<Rightarrow> nat option outcome" where
  "find_link a b [] w = Ret None"
| "find_link a b (q # qs) w =
     obind (deref (cv_pol w) q) (\<lambda>pol. if links_them a b pol then Ret (Some q) else find_link a b qs w)"

definition page_object_link_get :: "nat \<Rightarrow> nat \<Rightarrow> canvas \<Rightarrow> nat option outcome" where
  "page_object_link_get a b w =
     obind (deref (cv_po w) a) (\<lambda>po1. obind (deref (cv_po w) b) (\<lambda>po2.
     obind (deref (cv_po w) (case po_merge_primary po1 of Some m \<Rightarrow> m | None \<Rightarrow> a)) (\<lambda>p1.
     obind (find_link a b (po_links p1) w) (\<lambda>found.
       case found of
         Some q \<Rightarrow> Ret (Some q)
       | None \<Rightarrow>
           obind (deref (cv_po w) (case po_merge_primary po2 of Some m \<Rightarrow> m | None \<Rightarrow> b)) (\<lambda>p2.
             find_link a b (po_links p2) w)))))"

definition destroy_found :: "nat \<Rightarrow> nat \<Rightarrow> canvas \<Rightarrow> canvas outcome" where
  "destroy_found a b w =
     obind (page_object_link_get a b w) (\<lambda>found.
       case found of None \<Rightarrow> Ret w | Some q \<Rightarrow> page_object_link_destroy q None w)"

definition net_page_map_page_objects :: "nat option \<Rightarrow> u64 \<Rightarrow> nat \<Rightarrow> nat \<Rightarrow> canvas \<Rightarrow> canvas outcome" where
  "net_page_map_page_objects m np a b w =
     (if np \<noteq> 0 \<and> is_valid_page_object np a w \<and> is_valid_page_object np b w \<and> a \<noteq> b
      then
        obind (destroy_found a b w) (\<lambda>w.
        obind (destroy_found a b w) (\<lambda>w.
        case m of
          None \<Rightarrow> UB
        | Some q \<Rightarrow>
            obind (deref (cv_po w) a) (\<lambda>po. obind (deref (cv_po w) b) (\<lambda>po2.
            let ma = po_merge_primary po; mb = po_merge_primary po2;
                w = w\<lparr>cv_pol := (cv_pol w)(q \<mapsto> \<lparr>pol_po1 = a, pol_po2 = b, pol_merge1 = ma, pol_merge2 = mb\<rparr>)\<rparr>
            in obind (add_link q (case ma of Some p \<Rightarrow> p | None \<Rightarrow> a) w)
                 (add_link q (case mb of Some p \<Rightarrow> p | None \<Rightarrow> b))))))
      else Ret w)"

text \<open>\<^verbatim>\<open>g_list_foreach\<close> with \<^verbatim>\<open>page_object_link_destroy\<close>, over the links of \<open>a\<close>.\<close>

fun destroy_links :: "nat list \<Rightarrow> nat \<Rightarrow> canvas \<Rightarrow> canvas outcome" where
  "destroy_links [] a w = Ret w"
| "destroy_links (q # qs) a w = obind (page_object_link_destroy q (Some a) w) (destroy_links qs a)"

fun unmap_objects :: "nat list \<Rightarrow> canvas \<Rightarrow> canvas outcome" where
  "unmap_objects [] w = Ret w"
| "unmap_objects (a # as) w =
     obind (deref (cv_po w) a) (\<lambda>po.
     obind (destroy_links (po_links po) a w) (\<lambda>w.
     obind (po_upd a (\<lambda>p. p\<lparr>po_links := []\<rparr>) w) (\<lambda>w. unmap_objects as w)))"

definition net_page_unmap_all :: "u64 \<Rightarrow> canvas \<Rightarrow> canvas outcome" where
  "net_page_unmap_all np w =
     (if np = 0 then Ret w
      else case net_page_at np w of None \<Rightarrow> UB | Some page \<Rightarrow> unmap_objects (np_objects page) w)"

section \<open>Merging\<close>

text \<open>
  The walks along \<^verbatim>\<open>merge\<close> and \<^verbatim>\<open>plink\<close>, and the loops of \<^verbatim>\<open>page_object_unmerge\<close>, which start
  again after each link they move, follow pointers that nothing bounds and take fuel.
\<close>

fun merge_chain :: "nat \<Rightarrow> nat option \<Rightarrow> canvas \<Rightarrow> nat list outcome" where
  "merge_chain 0 a w = NoFuel"
| "merge_chain (Suc n) None w = Ret []"
| "merge_chain (Suc n) (Some a) w =
     obind (deref (cv_po w) a) (\<lambda>po. obind (merge_chain n (po_merge po) w) (\<lambda>as. Ret (a # as)))"

definition page_object_get_last_merge :: "nat \<Rightarrow> nat \<Rightarrow> canvas \<Rightarrow> nat option outcome" where
  "page_object_get_last_merge n a w =
     obind (deref (cv_po w) a) (\<lambda>po. obind (merge_chain n (po_merge po) w) (\<lambda>as.
       Ret (if as = [] then None else Some (last as))))"

text \<open>How a link of a merged object is changed: with every test, or with the first that holds.\<close>

definition remerge_all :: "nat \<Rightarrow> nat \<Rightarrow> page_object_link \<Rightarrow> page_object_link" where
  "remerge_all s p pol =
     (let pol = (if pol_po1 pol = s then pol\<lparr>pol_merge1 := Some p\<rparr> else pol);
          pol = (if pol_po2 pol = s then pol\<lparr>pol_merge2 := Some p\<rparr> else pol);
          pol = (if pol_merge1 pol = Some s then pol\<lparr>pol_merge1 := Some p\<rparr> else pol)
      in if pol_merge2 pol = Some s then pol\<lparr>pol_merge2 := Some p\<rparr> else pol)"

definition remerge_first :: "nat \<Rightarrow> nat \<Rightarrow> page_object_link \<Rightarrow> page_object_link" where
  "remerge_first s p pol =
     (if pol_po1 pol = s then pol\<lparr>pol_merge1 := Some p\<rparr>
      else if pol_po2 pol = s then pol\<lparr>pol_merge2 := Some p\<rparr>
      else if pol_merge1 pol = Some s then pol\<lparr>pol_merge1 := Some p\<rparr>
      else if pol_merge2 pol = Some s then pol\<lparr>pol_merge2 := Some p\<rparr>
      else pol)"

fun upd_links :: "(page_object_link \<Rightarrow> page_object_link) \<Rightarrow> nat list \<Rightarrow> canvas \<Rightarrow> canvas outcome" where
  "upd_links f [] w = Ret w"
| "upd_links f (q # qs) w =
     obind (deref (cv_pol w) q) (\<lambda>pol. upd_links f qs (w\<lparr>cv_pol := (cv_pol w)(q \<mapsto> f pol)\<rparr>))"

fun set_primary :: "nat \<Rightarrow> nat list \<Rightarrow> canvas \<Rightarrow> canvas outcome" where
  "set_primary p [] w = Ret w"
| "set_primary p (a # as) w =
     obind (po_upd a (\<lambda>po. po\<lparr>po_merge_primary := Some p\<rparr>) w) (set_primary p as)"

text \<open>The links of \<open>s\<close> are put behind those of \<open>p\<close>.\<close>

definition concat_links :: "nat \<Rightarrow> nat \<Rightarrow> canvas \<Rightarrow> canvas outcome" where
  "concat_links p s w =
     obind (deref (cv_po w) s) (\<lambda>ps.
     obind (po_upd p (\<lambda>po. po\<lparr>po_links := po_links po @ po_links ps\<rparr>) w)
       (po_upd s (\<lambda>po. po\<lparr>po_links := []\<rparr>)))"

text \<open>\<open>s\<close> is the first of a chain of merged objects, which is put behind the chain of \<open>p\<close>.\<close>

definition merge_chains ::
  "(nat \<Rightarrow> nat \<Rightarrow> page_object_link \<Rightarrow> page_object_link) \<Rightarrow> nat \<Rightarrow> nat \<Rightarrow> nat \<Rightarrow> canvas \<Rightarrow> canvas outcome" where
  "merge_chains f n p s w =
     obind (deref (cv_po w) s) (\<lambda>ps.
     obind (upd_links (f s p) (po_links ps) w) (\<lambda>w.
     obind (concat_links p s w) (\<lambda>w.
     obind (page_object_get_last_merge n p w) (\<lambda>last.
     obind (po_upd (case last of Some l \<Rightarrow> l | None \<Rightarrow> p) (\<lambda>po. po\<lparr>po_merge := Some s\<rparr>) w) (\<lambda>w.
     obind (po_upd s (\<lambda>po. po\<lparr>po_merge_primary := Some p\<rparr>) w) (\<lambda>w.
     obind (deref (cv_po w) s) (\<lambda>ps.
     obind (merge_chain n (po_merge ps) w) (\<lambda>as. set_primary p as w))))))))"

definition page_object_merge :: "nat \<Rightarrow> nat \<Rightarrow> nat \<Rightarrow> canvas \<Rightarrow> canvas outcome" where
  "page_object_merge n p s w =
     obind (po_upd p (\<lambda>po. po\<lparr>po_merge_primary := Some p\<rparr>) w) (\<lambda>w.
     obind (deref (cv_po w) s) (\<lambda>ps.
     obind (case po_merge_primary ps of
              Some m \<Rightarrow>
                if m = s then merge_chains remerge_all n p s w
                else merge_chains remerge_first n p m w
            | None \<Rightarrow>
                obind (deref (cv_po w) p) (\<lambda>pp.
                obind (po_upd s (\<lambda>po. po\<lparr>po_merge := po_merge pp\<rparr>) w) (\<lambda>w.
                obind (po_upd p (\<lambda>po. po\<lparr>po_merge := Some s\<rparr>) w) (\<lambda>w.
                obind (po_upd s (\<lambda>po. po\<lparr>po_merge_primary := Some p\<rparr>) w) (\<lambda>w.
                obind (deref (cv_po w) s) (\<lambda>ps.
                obind (upd_links (remerge_first s p) (po_links ps) w) (concat_links p s)))))))
       (\<lambda>w.
     obind (po_upd s (\<lambda>po. po\<lparr>po_flags := po_flags po AND NOT PAGE_OBJECT_HIGHLIGHT\<rparr>) w) (\<lambda>w.
     obind (page_object_display s w) (page_object_display p)))))"

text \<open>
  The loop that takes the links of \<open>s\<close> back from \<open>p\<close>: \<open>current\<close> is the index of the next link
  of \<open>p\<close> to look at.
\<close>

fun unmerge_links :: "nat \<Rightarrow> nat \<Rightarrow> nat \<Rightarrow> nat \<Rightarrow> canvas \<Rightarrow> canvas outcome" where
  "unmerge_links 0 current p s w = NoFuel"
| "unmerge_links (Suc n) current p s w =
     obind (deref (cv_po w) p) (\<lambda>pp.
       if current < length (po_links pp)
       then
         let q = po_links pp ! current in
         obind (deref (cv_po w) s) (\<lambda>ps.
           if q \<in> set (po_links ps) then unmerge_links n (Suc current) p s w
           else
             obind (deref (cv_pol w) q) (\<lambda>pol.
               if pol_po1 pol = s
               then obind (drop_link q p w) (\<lambda>w. obind (add_link q s w) (\<lambda>w.
                      unmerge_links n 0 p s (w\<lparr>cv_pol := (cv_pol w)(q \<mapsto> pol\<lparr>pol_merge1 := None\<rparr>)\<rparr>)))
               else if pol_po2 pol = s
               then obind (drop_link q p w) (\<lambda>w. obind (add_link q s w) (\<lambda>w.
                      unmerge_links n 0 p s (w\<lparr>cv_pol := (cv_pol w)(q \<mapsto> pol\<lparr>pol_merge2 := None\<rparr>)\<rparr>)))
               else unmerge_links n (Suc current) p s w))
       else Ret w)"

text \<open>All of the chain are taken out of the primary.\<close>

fun unmerge_all :: "nat \<Rightarrow> nat \<Rightarrow> nat option \<Rightarrow> canvas \<Rightarrow> canvas outcome" where
  "unmerge_all 0 p a w = NoFuel"
| "unmerge_all (Suc n) p None w = Ret w"
| "unmerge_all (Suc n) p (Some a) w =
     obind (deref (cv_po w) a) (\<lambda>po.
     obind (po_upd a (\<lambda>po. po\<lparr>po_merge := None, po_merge_primary := None\<rparr>) w) (\<lambda>w.
     obind (unmerge_links n 0 p a w) (\<lambda>w.
     obind (page_object_display a w) (unmerge_all n p (po_merge po)))))"

text \<open>The walk that takes \<open>s\<close> out of the chain of \<open>p\<close>; \<open>prev\<close> is the object before \<open>a\<close>.\<close>

fun unchain :: "nat \<Rightarrow> nat \<Rightarrow> nat \<Rightarrow> nat option \<Rightarrow> nat option \<Rightarrow> canvas \<Rightarrow> canvas outcome" where
  "unchain 0 p s prev a w = NoFuel"
| "unchain (Suc n) p s prev None w = Ret w"
| "unchain (Suc n) p s prev (Some a) w =
     obind (deref (cv_po w) s) (\<lambda>ps.
     obind (if a = s
            then po_upd (case prev of Some b \<Rightarrow> b | None \<Rightarrow> p) (\<lambda>po. po\<lparr>po_merge := po_merge ps\<rparr>) w
            else Ret w) (\<lambda>w.
     obind (deref (cv_po w) a) (\<lambda>po. unchain n p s (Some a) (po_merge po) w)))"

definition page_object_unmerge :: "nat \<Rightarrow> nat \<Rightarrow> canvas \<Rightarrow> canvas outcome" where
  "page_object_unmerge n a w =
     obind (deref (cv_po w) a) (\<lambda>po.
       case po_merge_primary po of
         None \<Rightarrow> Ret w
       | Some p \<Rightarrow>
           if p = a
           then
             obind (unmerge_all n a (po_merge po) w) (\<lambda>w.
             obind (po_upd a (\<lambda>po. po\<lparr>po_merge_primary := None, po_merge := None\<rparr>) w) (page_object_display a))
           else
             obind (unmerge_links n 0 p a w) (\<lambda>w.
             obind (deref (cv_po w) p) (\<lambda>pp.
             obind (unchain n p a None (po_merge pp) w) (\<lambda>w.
             obind (deref (cv_po w) p) (\<lambda>pp.
             obind (if po_merge pp = None then po_upd p (\<lambda>po. po\<lparr>po_merge_primary := None\<rparr>) w else Ret w) (\<lambda>w.
             obind (po_upd a (\<lambda>po. po\<lparr>po_merge_primary := None, po_merge := None\<rparr>) w) (\<lambda>w.
             obind (page_object_display a w) (page_object_display p))))))))"

definition page_object_set_merge_primary :: "nat \<Rightarrow> u64 \<Rightarrow> nat \<Rightarrow> nat \<Rightarrow> canvas \<Rightarrow> canvas outcome" where
  "page_object_set_merge_primary n np p new w =
     (if is_valid_page_object np p w \<and> is_valid_page_object np new w
      then obind (deref (cv_po w) new) (\<lambda>po.
             if po_merge_primary po = Some new then Ret w
             else obind (merge_chain n (Some p) w) (\<lambda>as.
                    if new \<in> set as
                    then obind (page_object_unmerge n new w) (page_object_merge n new p)
                    else Ret w))
      else Ret w)"

section \<open>Deleting\<close>

text \<open>
  \<open>ask\<close> is the answer to the question whether all merged objects are to be deleted. The first
  loop of \<^verbatim>\<open>page_object_delete\<close> undoes merges, where \<open>del\<close> is the deletion itself, the second
  one deletes the object.
\<close>

definition delete_object :: "u64 \<Rightarrow> nat \<Rightarrow> canvas \<Rightarrow> canvas outcome" where
  "delete_object np a w =
     (if is_valid_page_object np a w
      then
        obind (deref (cv_po w) a) (\<lambda>po.
        obind (destroy_links (po_links po) a w) (\<lambda>w.
          Ret (page_upd np (\<lambda>page. page\<lparr>np_objects := remove1 a (np_objects page)\<rparr>)
                 (w\<lparr>cv_po := (cv_po w)(a := None)\<rparr>))))
      else Ret w)"

fun delete_chain :: "(nat \<Rightarrow> canvas \<Rightarrow> canvas outcome) \<Rightarrow> nat \<Rightarrow> nat option \<Rightarrow> canvas \<Rightarrow> canvas outcome" where
  "delete_chain del 0 a w = NoFuel"
| "delete_chain del (Suc n) None w = Ret w"
| "delete_chain del (Suc n) (Some a) w =
     obind (deref (cv_po w) a) (\<lambda>po.
     obind (po_upd a (\<lambda>po. po\<lparr>po_merge := None\<rparr>) w) (\<lambda>w.
     obind (del a w) (delete_chain del n (po_merge po))))"

fun unmerge_chain :: "nat \<Rightarrow> nat option \<Rightarrow> canvas \<Rightarrow> canvas outcome" where
  "unmerge_chain 0 a w = NoFuel"
| "unmerge_chain (Suc n) None w = Ret w"
| "unmerge_chain (Suc n) (Some a) w =
     obind (deref (cv_po w) a) (\<lambda>po.
     obind (page_object_unmerge n a w) (unmerge_chain n (po_merge po)))"

fun page_object_delete :: "nat \<Rightarrow> u64 \<Rightarrow> bool \<Rightarrow> bool \<Rightarrow> nat \<Rightarrow> canvas \<Rightarrow> canvas outcome" where
  "page_object_delete 0 np force ask a w = NoFuel"
| "page_object_delete (Suc n) np force ask a w =
     (case net_page_at np w of
        None \<Rightarrow> UB
      | Some page \<Rightarrow>
          if a \<in> set (np_objects page)
          then
            obind (deref (cv_po w) a) (\<lambda>po.
            obind (if po_merge po = None then Ret w
                   else if po_merge_primary po = Some a
                   then (if force \<or> ask
                         then delete_chain (page_object_delete n np force ask) n (po_merge po) w
                         else unmerge_chain n (po_merge po) w)
                   else page_object_unmerge n a w)
              (delete_object np a))
          else Ret w)"

text \<open>Without a page the list of the objects of a freed or foreign page would be read.\<close>

fun delete_all :: "nat \<Rightarrow> u64 \<Rightarrow> nat list \<Rightarrow> canvas \<Rightarrow> canvas outcome" where
  "delete_all n np [] w = Ret w"
| "delete_all n np (a # as) w =
     obind (deref (cv_po w) a) (\<lambda>po. obind (page_object_delete n np True False a w) (delete_all n np as))"

definition net_page_remove :: "nat \<Rightarrow> u64 \<Rightarrow> canvas \<Rightarrow> canvas outcome" where
  "net_page_remove n np w =
     (case net_page_at np w of
        None \<Rightarrow> Ret w
      | Some page \<Rightarrow>
          obind (delete_all n np (np_objects page) w) (\<lambda>w.
            Ret (w\<lparr>cv_pages := filter (\<lambda>(k, page). k \<noteq> np) (cv_pages w)\<rparr>)))"

section \<open>The selection\<close>

definition may_highlight :: "nat \<Rightarrow> page_object \<Rightarrow> bool" where
  "may_highlight a po \<longleftrightarrow> po_merge_primary po = None \<or> po_merge_primary po = Some a"

definition highlighted :: "page_object \<Rightarrow> bool" where
  "highlighted po \<longleftrightarrow> po_flags po AND PAGE_OBJECT_HIGHLIGHT \<noteq> 0"

definition page_object_highlight_highlight :: "nat \<Rightarrow> canvas \<Rightarrow> canvas outcome" where
  "page_object_highlight_highlight a =
     po_upd a (\<lambda>po. if may_highlight a po then po\<lparr>po_flags := po_flags po OR PAGE_OBJECT_HIGHLIGHT\<rparr> else po)"

definition page_object_highlight_unhighlight :: "nat \<Rightarrow> canvas \<Rightarrow> canvas outcome" where
  "page_object_highlight_unhighlight a =
     po_upd a (\<lambda>po. if may_highlight a po then po\<lparr>po_flags := po_flags po AND NOT PAGE_OBJECT_HIGHLIGHT\<rparr> else po)"

definition page_object_highlight_toggle :: "nat \<Rightarrow> canvas \<Rightarrow> canvas outcome" where
  "page_object_highlight_toggle a w =
     obind (deref (cv_po w) a) (\<lambda>po.
       if highlighted po then page_object_highlight_unhighlight a w else page_object_highlight_highlight a w)"

fun net_page_highlight_all :: "bool \<Rightarrow> nat list \<Rightarrow> canvas \<Rightarrow> canvas outcome" where
  "net_page_highlight_all h [] w = Ret w"
| "net_page_highlight_all h (a # as) w =
     obind (deref (cv_po w) a) (\<lambda>po.
     obind (if h
            then (if \<not> highlighted po \<and> may_highlight a po then page_object_highlight_highlight a w else Ret w)
            else (if highlighted po \<and> may_highlight a po then page_object_highlight_unhighlight a w else Ret w))
       (net_page_highlight_all h as))"

text \<open>The list of the selected objects of the current page, put in front of each other.\<close>

fun plink_objects :: "u64 \<Rightarrow> nat list \<Rightarrow> canvas \<Rightarrow> canvas outcome" where
  "plink_objects np [] w = Ret w"
| "plink_objects np (a # as) w =
     obind (deref (cv_po w) a) (\<lambda>po.
       if highlighted po
       then obind (deref (map_of (cv_pages w)) np) (\<lambda>page.
            obind (po_upd a (\<lambda>po. po\<lparr>po_plink := np_plink page\<rparr>) w) (\<lambda>w.
              plink_objects np as (page_upd np (\<lambda>page. page\<lparr>np_plink := Some a\<rparr>) w)))
       else plink_objects np as w)"

definition net_page_unset_plink :: "u64 \<Rightarrow> canvas \<Rightarrow> canvas" where
  "net_page_unset_plink np = page_upd np (\<lambda>page. page\<lparr>np_plink := None\<rparr>)"

definition net_page_set_plink :: "u64 \<Rightarrow> canvas \<Rightarrow> canvas outcome" where
  "net_page_set_plink np w =
     (case net_page_at np w of
        None \<Rightarrow> UB
      | Some page \<Rightarrow> plink_objects np (np_objects page) (net_page_unset_plink np w))"

fun merge_plink :: "nat \<Rightarrow> nat \<Rightarrow> nat option \<Rightarrow> canvas \<Rightarrow> canvas outcome" where
  "merge_plink 0 p a w = NoFuel"
| "merge_plink (Suc n) p None w = Ret w"
| "merge_plink (Suc n) p (Some a) w =
     obind (page_object_merge n p a w) (\<lambda>w.
     obind (deref (cv_po w) a) (\<lambda>po. merge_plink n p (po_plink po) w))"

definition net_page_merge_plink :: "nat \<Rightarrow> u64 \<Rightarrow> canvas \<Rightarrow> canvas outcome" where
  "net_page_merge_plink n np w =
     (case net_page_at np w of
        None \<Rightarrow> UB
      | Some page \<Rightarrow>
          obind (case np_plink page of
                   None \<Rightarrow> Ret w
                 | Some p \<Rightarrow> obind (deref (cv_po w) p) (\<lambda>po. merge_plink n p (po_plink po) w)) (\<lambda>w.
            net_page_highlight_all False (np_objects page) (net_page_unset_plink np w)))"

fun unmerge_plink :: "nat \<Rightarrow> nat option \<Rightarrow> canvas \<Rightarrow> canvas outcome" where
  "unmerge_plink 0 a w = NoFuel"
| "unmerge_plink (Suc n) None w = Ret w"
| "unmerge_plink (Suc n) (Some a) w =
     obind (page_object_unmerge n a w) (\<lambda>w.
     obind (deref (cv_po w) a) (\<lambda>po. unmerge_plink n (po_plink po) w))"

fun delete_plink :: "nat \<Rightarrow> u64 \<Rightarrow> bool \<Rightarrow> nat option \<Rightarrow> canvas \<Rightarrow> canvas outcome" where
  "delete_plink 0 np ask a w = NoFuel"
| "delete_plink (Suc n) np ask None w = Ret w"
| "delete_plink (Suc n) np ask (Some a) w =
     obind (deref (cv_po w) a) (\<lambda>po.
     obind (page_object_delete n np False ask a w) (delete_plink n np ask (po_plink po)))"

definition net_page_delete_page_object :: "nat \<Rightarrow> u64 \<Rightarrow> bool \<Rightarrow> canvas \<Rightarrow> canvas outcome" where
  "net_page_delete_page_object n np ask w =
     (case net_page_at np w of
        None \<Rightarrow> UB
      | Some page \<Rightarrow> obind (delete_plink n np ask (np_plink page) w) (\<lambda>w. Ret (net_page_unset_plink np w)))"

section \<open>Merged objects that are left behind\<close>

text \<open>Object 11 is merged into object 10, and they have a link.\<close>

definition merged_pair :: canvas where
  "merged_pair =
     \<lparr>cv_po = [10 \<mapsto> page_object_new\<lparr>po_flags := 0, po_merge := Some 11, po_merge_primary := Some 10, po_links := [20, 20]\<rparr>,
               11 \<mapsto> page_object_new\<lparr>po_merge_primary := Some 10\<rparr>],
      cv_pol = [20 \<mapsto> \<lparr>pol_po1 = 10, pol_po2 = 11, pol_merge1 = None, pol_merge2 = Some 10\<rparr>],
      cv_pages = [(1, \<lparr>np_objects = [11, 10], np_plink = None, np_agent = 7\<rparr>)]\<rparr>"

definition linked_pair :: canvas where
  "linked_pair =
     \<lparr>cv_po = [10 \<mapsto> page_object_new\<lparr>po_links := [20]\<rparr>, 11 \<mapsto> page_object_new\<lparr>po_links := [20]\<rparr>],
      cv_pol = [20 \<mapsto> \<lparr>pol_po1 = 10, pol_po2 = 11, pol_merge1 = None, pol_merge2 = None\<rparr>],
      cv_pages = [(1, \<lparr>np_objects = [11, 10], np_plink = None, np_agent = 7\<rparr>)]\<rparr>"

lemmas canvas_run = page_object_merge_def page_object_display_def displayed_def display_name_def po_upd_def deref_def concat_links_def Let_def
  remerge_first_def page_object_unmerge_def delete_object_def is_valid_page_object_def net_page_at_def
  page_object_link_destroy_def drop_link_def page_upd_def page_object_new_def

lemma merging_the_pair: "page_object_merge 5 10 11 linked_pair = Ret merged_pair"
proof -
  have "0x8 AND NOT (2 :: u32) = 8" by code_simp
  then show ?thesis
    by (auto simp: linked_pair_def merged_pair_def canvas_run PAGE_OBJECT_HIGHLIGHT_def PAGE_OBJECT_CREATED_NEW_def
        fun_eq_iff intro!: canvas.equality)
qed

text \<open>
  The last object of a chain has no \<^verbatim>\<open>merge\<close> of its own, so that deleting it does not take it out
  of the chain; the primary keeps a pointer to freed memory, which its own deletion follows.
\<close>

lemma deleted_secondary_dangles:
  "\<exists>w. page_object_delete 5 1 False False 11 merged_pair = Ret w \<and> page_object_delete 5 1 False False 10 w = UB"
  by (simp add: merged_pair_def canvas_run numeral_eq_Suc)

text \<open>The link of two merged objects is twice in the list of the primary, and destroyed twice.\<close>

lemma inner_link_destroyed_twice: "net_page_unmap_all 1 merged_pair = UB"
  by (simp add: merged_pair_def canvas_run net_page_unmap_all_def)

end
