(* ===== verification/Canvas_Graph.thy ===== *)
theory Canvas_Graph
  imports Canvas
begin

text \<open>
  The pages of \<^verbatim>\<open>gui-canvas.c\<close> as a graph, as long as no objects are merged: the objects of each
  page with their addresses, and an edge for each link. Adding an object, mapping two of them,
  deleting one, unmapping a page and removing it are shown to be the operations of the graph,
  without any access to freed memory.
\<close>

section \<open>Pages without merged objects\<close>

text \<open>What taking links out of every list, except that of one object, leaves.\<close>

definition strip :: "nat option \<Rightarrow> nat set \<Rightarrow> canvas \<Rightarrow> canvas" where
  "strip k Q w = w\<lparr>cv_po := (\<lambda>x. map_option (\<lambda>p. if k = Some x then p
       else p\<lparr>po_links := filter (\<lambda>q. q \<notin> Q) (po_links p)\<rparr>) (cv_po w x)),
     cv_pol := (\<lambda>q. if q \<in> Q then None else cv_pol w q)\<rparr>"

definition links_ok :: "nat option \<Rightarrow> canvas \<Rightarrow> bool" where
  "links_ok k w \<longleftrightarrow>
     (\<forall>q pol. cv_pol w q = Some pol \<longrightarrow> pol_merge1 pol = None \<and> pol_merge2 pol = None \<and>
        pol_po1 pol \<noteq> pol_po2 pol \<and> cv_po w (pol_po1 pol) \<noteq> None \<and> cv_po w (pol_po2 pol) \<noteq> None) \<and>
     (\<forall>x p. cv_po w x = Some p \<longrightarrow> k = Some x \<or> distinct (po_links p) \<and>
        (\<forall>q \<in> set (po_links p). \<exists>pol. cv_pol w q = Some pol \<and> (x = pol_po1 pol \<or> x = pol_po2 pol)))"

lemma strip_sels [simp]:
  "cv_pages (strip k Q w) = cv_pages w"
  "cv_po (strip k Q w) x = map_option (\<lambda>p. if k = Some x then p
       else p\<lparr>po_links := filter (\<lambda>q. q \<notin> Q) (po_links p)\<rparr>) (cv_po w x)"
  "cv_pol (strip k Q w) q = (if q \<in> Q then None else cv_pol w q)"
  by (simp_all add: strip_def)

lemma canvas_eqI:
  assumes "\<And>x. cv_po v x = cv_po w x" "\<And>q. cv_pol v q = cv_pol w q" "cv_pages v = cv_pages w"
  shows "v = (w :: canvas)"
  using assms by (intro canvas.equality) (auto simp: fun_eq_iff)

lemma strip_none [simp]: "strip k {} w = w"
proof (rule canvas_eqI)
  fix x show "cv_po (strip k {} w) x = cv_po w x" by (cases "cv_po w x") simp_all
qed simp_all

lemma strip_strip [simp]: "strip k Q (strip k R w) = strip k (R \<union> Q) w"
proof (rule canvas_eqI)
  fix x
  have "filter (\<lambda>q. q \<notin> Q) (filter (\<lambda>q. q \<notin> R) xs) = filter (\<lambda>q. q \<notin> R \<union> Q) xs" for xs
    by (simp add: conj_commute)
  then show "cv_po (strip k Q (strip k R w)) x = cv_po (strip k (R \<union> Q) w) x" by (cases "cv_po w x") simp_all
qed auto

lemma links_okD:
  assumes ok: "links_ok k w"
  shows "cv_pol w q = Some pol \<Longrightarrow> pol_merge1 pol = None \<and> pol_merge2 pol = None \<and> pol_po1 pol \<noteq> pol_po2 pol
      \<and> cv_po w (pol_po1 pol) \<noteq> None \<and> cv_po w (pol_po2 pol) \<noteq> None"
    and "cv_po w x = Some p \<Longrightarrow> k \<noteq> Some x \<Longrightarrow> distinct (po_links p)"
    and "cv_po w x = Some p \<Longrightarrow> k \<noteq> Some x \<Longrightarrow> r \<in> set (po_links p) \<Longrightarrow>
      \<exists>pol. cv_pol w r = Some pol \<and> (x = pol_po1 pol \<or> x = pol_po2 pol)"
proof -
  have 1: "\<forall>q pol. cv_pol w q = Some pol \<longrightarrow> pol_merge1 pol = None \<and> pol_merge2 pol = None \<and>
      pol_po1 pol \<noteq> pol_po2 pol \<and> cv_po w (pol_po1 pol) \<noteq> None \<and> cv_po w (pol_po2 pol) \<noteq> None"
    using ok unfolding links_ok_def by (rule conjunct1)
  have 2: "\<forall>x p. cv_po w x = Some p \<longrightarrow> k = Some x \<or> distinct (po_links p) \<and>
        (\<forall>q \<in> set (po_links p). \<exists>pol. cv_pol w q = Some pol \<and> (x = pol_po1 pol \<or> x = pol_po2 pol))"
    using ok unfolding links_ok_def by (rule conjunct2)
  show "cv_pol w q = Some pol \<Longrightarrow> pol_merge1 pol = None \<and> pol_merge2 pol = None \<and> pol_po1 pol \<noteq> pol_po2 pol
      \<and> cv_po w (pol_po1 pol) \<noteq> None \<and> cv_po w (pol_po2 pol) \<noteq> None"
    using 1 by blast
  show "cv_po w x = Some p \<Longrightarrow> k \<noteq> Some x \<Longrightarrow> distinct (po_links p)" using 2 by blast
  show "cv_po w x = Some p \<Longrightarrow> k \<noteq> Some x \<Longrightarrow> r \<in> set (po_links p) \<Longrightarrow>
      \<exists>pol. cv_pol w r = Some pol \<and> (x = pol_po1 pol \<or> x = pol_po2 pol)" using 2 by blast
qed

lemma links_okI:
  assumes "\<And>q pol. cv_pol w q = Some pol \<Longrightarrow> pol_merge1 pol = None \<and> pol_merge2 pol = None \<and>
      pol_po1 pol \<noteq> pol_po2 pol \<and> cv_po w (pol_po1 pol) \<noteq> None \<and> cv_po w (pol_po2 pol) \<noteq> None"
    and "\<And>x p. cv_po w x = Some p \<Longrightarrow> k \<noteq> Some x \<Longrightarrow> distinct (po_links p)"
    and "\<And>x p r. cv_po w x = Some p \<Longrightarrow> k \<noteq> Some x \<Longrightarrow> r \<in> set (po_links p) \<Longrightarrow>
      \<exists>pol. cv_pol w r = Some pol \<and> (x = pol_po1 pol \<or> x = pol_po2 pol)"
  shows "links_ok k w"
  unfolding links_ok_def using assms by metis

lemma links_ok_strip:
  assumes ok: "links_ok k w"
  shows "links_ok k (strip k Q w)"
proof (rule links_okI)
  fix q pol assume "cv_pol (strip k Q w) q = Some pol"
  then have "cv_pol w q = Some pol" by (simp split: if_splits)
  from links_okD(1) [OF ok this] show "pol_merge1 pol = None \<and> pol_merge2 pol = None \<and>
      pol_po1 pol \<noteq> pol_po2 pol \<and> cv_po (strip k Q w) (pol_po1 pol) \<noteq> None \<and> cv_po (strip k Q w) (pol_po2 pol) \<noteq> None"
    by simp
next
  fix x p assume x: "cv_po (strip k Q w) x = Some p" and k: "k \<noteq> Some x"
  then obtain p' where p: "cv_po w x = Some p'" "po_links p = filter (\<lambda>q. q \<notin> Q) (po_links p')" by auto
  show "distinct (po_links p)" using links_okD(2) [OF ok p(1) k] p(2) by simp
  fix r assume "r \<in> set (po_links p)"
  then have "r \<in> set (po_links p')" "r \<notin> Q" using p(2) by auto
  with links_okD(3) [OF ok p(1) k] show "\<exists>pol. cv_pol (strip k Q w) r = Some pol \<and> (x = pol_po1 pol \<or> x = pol_po2 pol)"
    by simp
qed

text \<open>What taking a link out of the lists of the objects of \<open>A\<close> leaves.\<close>

definition pulled :: "nat \<Rightarrow> nat set \<Rightarrow> canvas \<Rightarrow> canvas" where
  "pulled q A w = w\<lparr>cv_po := (\<lambda>x. if x \<in> A then map_option (\<lambda>p. p\<lparr>po_links := remove1 q (po_links p)\<rparr>) (cv_po w x)
                               else cv_po w x)\<rparr>"

lemma pulled_sels [simp]:
  "cv_po (pulled q A w) x = (if x \<in> A then map_option (\<lambda>p. p\<lparr>po_links := remove1 q (po_links p)\<rparr>) (cv_po w x)
     else cv_po w x)"
  "cv_pol (pulled q A w) = cv_pol w" "cv_pages (pulled q A w) = cv_pages w"
  by (simp_all add: pulled_def)

lemma pulled_none: "pulled q {} w = w"
  by (rule canvas_eqI) simp_all

lemma drop_link_pulled: "cv_po w x \<noteq> None \<Longrightarrow> drop_link q x w = Ret (pulled q {x} w)"
  by (auto simp: drop_link_def po_upd_def deref_def pulled_def fun_eq_iff)

lemma drop_unless: "cv_po w x \<noteq> None \<Longrightarrow>
    (if k \<noteq> Some x then drop_link q x w else Ret w) = Ret (pulled q {x. k \<noteq> Some x \<and> x \<in> {y}} w)" if "y = x" for y
  using that by (cases "k = Some x") (auto simp: drop_link_pulled pulled_none intro!: arg_cong [where f = Ret] canvas_eqI)

lemma destroy_strip:
  assumes ok: "links_ok k w" and q: "cv_pol w q = Some pol"
  shows "page_object_link_destroy q k w = Ret (strip k {q} w)"
proof -
  let ?a = "pol_po1 pol" and ?b = "pol_po2 pol"
  let ?w1 = "pulled q {x. k \<noteq> Some x \<and> x \<in> {?a}} w"
  let ?w2 = "pulled q {x. k \<noteq> Some x \<and> x \<in> {?b}} ?w1"
  from links_okD(1) [OF ok q] have pol: "pol_merge1 pol = None" "pol_merge2 pol = None" "?a \<noteq> ?b"
    and ab: "cv_po w ?a \<noteq> None" "cv_po ?w1 ?b \<noteq> None" by simp_all
  have run: "page_object_link_destroy q k w = Ret (?w2\<lparr>cv_pol := (cv_pol w)(q := None)\<rparr>)"
    unfolding page_object_link_destroy_def deref_def q pol option.case obind.simps
      drop_unless [OF refl ab(1)] drop_unless [OF refl ab(2)] by simp
  have "cv_po ?w2 x = cv_po (strip k {q} w) x" for x
  proof (cases "cv_po w x")
    case (Some p)
    show ?thesis
    proof (cases "k = Some x")
      case False
      then have rem: "remove1 q (po_links p) = filter (\<lambda>r. r \<noteq> q) (po_links p)"
        using links_okD(2) [OF ok Some False] by (auto simp: distinct_remove1_removeAll removeAll_filter_not_eq intro: filter_cong)
      have "filter (\<lambda>r. r \<noteq> q) (po_links p) = po_links p" if "x \<noteq> ?a" "x \<noteq> ?b"
      proof -
        have "q \<notin> set (po_links p)" using links_okD(3) [OF ok Some False] q that by force
        then show ?thesis by (induction "po_links p" rule: list.induct) (auto intro: filter_True)
      qed
      then show ?thesis using Some False rem pol(3) by (cases "x = ?a"; cases "x = ?b") auto
    qed (use Some in simp)
  qed auto
  then show ?thesis unfolding run by (intro arg_cong [where f = Ret] canvas_eqI) auto
qed

lemma destroy_links_strip:
  assumes "links_ok (Some a) w" "distinct qs" "\<forall>q \<in> set qs. cv_pol w q \<noteq> None"
  shows "destroy_links qs a w = Ret (strip (Some a) (set qs) w)"
  using assms
proof (induction qs arbitrary: w)
  case (Cons q qs)
  then obtain pol where q: "cv_pol w q = Some pol" by auto
  have "\<forall>r \<in> set qs. cv_pol (strip (Some a) {q} w) r \<noteq> None" using Cons.prems by (auto simp: strip_def)
  then have "destroy_links qs a (strip (Some a) {q} w) = Ret (strip (Some a) (set qs) (strip (Some a) {q} w))"
    using Cons.IH [OF links_ok_strip [OF Cons.prems(1)]] Cons.prems(2) by simp
  then show ?case using destroy_strip [OF Cons.prems(1) q] by simp
qed simp

section \<open>The graph\<close>

record graph =
  gr_hosts :: "u64 \<Rightarrow> (nat \<Rightarrow> u32 option) option"
  gr_edges :: "nat set set"

definition ends :: "page_object_link \<Rightarrow> nat set" where
  "ends pol = {pol_po1 pol, pol_po2 pol}"

definition graph_of :: "canvas \<Rightarrow> graph" where
  "graph_of w =
     \<lparr>gr_hosts = (\<lambda>np. map_option (\<lambda>page a.
        if a \<in> set (np_objects page) then map_option po_ip (cv_po w a) else None) (net_page_at np w)),
      gr_edges = ends ` ran (cv_pol w)\<rparr>"

text \<open>The links an object has, those between two objects, and the part of an object that is no list.\<close>

definition inc :: "nat \<Rightarrow> canvas \<Rightarrow> nat set" where
  "inc a w = {q. \<exists>pol. cv_pol w q = Some pol \<and> a \<in> ends pol}"

definition between :: "nat \<Rightarrow> nat \<Rightarrow> canvas \<Rightarrow> nat set" where
  "between a b w = {q. \<exists>pol. cv_pol w q = Some pol \<and> links_them a b pol}"

definition core :: "canvas \<Rightarrow> nat \<Rightarrow> (u32 \<times> nat option \<times> nat option) option" where
  "core w x = map_option (\<lambda>p. (po_ip p, po_merge p, po_merge_primary p)) (cv_po w x)"

definition pages_ok :: "(u64 \<times> net_page) list \<Rightarrow> (nat \<Rightarrow> (u32 \<times> nat option \<times> nat option) option) \<Rightarrow> bool" where
  "pages_ok P c \<longleftrightarrow> distinct (map fst P) \<and>
     (\<forall>np page. map_of P np = Some page \<longrightarrow> distinct (np_objects page) \<and>
        (\<forall>a \<in> set (np_objects page). c a \<noteq> None) \<and> inj_on (\<lambda>a. fst (the (c a))) (set (np_objects page))) \<and>
     (\<forall>x t. c x = Some t \<longrightarrow> snd t = (None, None) \<and> (\<exists>np page. map_of P np = Some page \<and> x \<in> set (np_objects page))) \<and>
     (\<forall>np page np' page' x. map_of P np = Some page \<longrightarrow> map_of P np' = Some page' \<longrightarrow>
        x \<in> set (np_objects page) \<longrightarrow> x \<in> set (np_objects page') \<longrightarrow> np = np')"

definition links_full :: "canvas \<Rightarrow> bool" where
  "links_full w \<longleftrightarrow>
     (\<forall>q pol x. cv_pol w q = Some pol \<longrightarrow> x \<in> ends pol \<longrightarrow> (\<exists>p. cv_po w x = Some p \<and> q \<in> set (po_links p))) \<and>
     (\<forall>q r pol pol'. cv_pol w q = Some pol \<longrightarrow> cv_pol w r = Some pol' \<longrightarrow> ends pol = ends pol' \<longrightarrow> q = r) \<and>
     (\<forall>q pol. cv_pol w q = Some pol \<longrightarrow> (\<exists>np page. net_page_at np w = Some page \<and> ends pol \<subseteq> set (np_objects page)))"

definition canvas_ok :: "canvas \<Rightarrow> bool" where
  "canvas_ok w \<longleftrightarrow> links_ok None w \<and> links_full w \<and> pages_ok (cv_pages w) (core w)"

lemma links_them_ends: "links_them a b pol \<longleftrightarrow> ends pol = {a, b}"
  by (auto simp: links_them_def ends_def doubleton_eq_iff)

lemma links_fullD:
  assumes "links_full w"
  shows "cv_pol w q = Some pol \<Longrightarrow> x \<in> ends pol \<Longrightarrow> \<exists>p. cv_po w x = Some p \<and> q \<in> set (po_links p)"
    and "cv_pol w q = Some pol \<Longrightarrow> cv_pol w r = Some pol' \<Longrightarrow> ends pol = ends pol' \<Longrightarrow> q = r"
    and "cv_pol w q = Some pol \<Longrightarrow> \<exists>np page. net_page_at np w = Some page \<and> ends pol \<subseteq> set (np_objects page)"
  using assms unfolding links_full_def by blast+

lemma pages_okD:
  assumes "pages_ok P c"
  shows "distinct (map fst P)"
    and "map_of P np = Some page \<Longrightarrow> distinct (np_objects page)"
    and "map_of P np = Some page \<Longrightarrow> a \<in> set (np_objects page) \<Longrightarrow> c a \<noteq> None"
    and "map_of P np = Some page \<Longrightarrow> inj_on (\<lambda>a. fst (the (c a))) (set (np_objects page))"
    and "c x = Some t \<Longrightarrow> snd t = (None, None)"
    and "c x = Some t \<Longrightarrow> \<exists>np page. map_of P np = Some page \<and> x \<in> set (np_objects page)"
    and "map_of P np = Some page \<Longrightarrow> map_of P np' = Some page' \<Longrightarrow>
      x \<in> set (np_objects page) \<Longrightarrow> x \<in> set (np_objects page') \<Longrightarrow> np = np'"
  using assms unfolding pages_ok_def by blast+

lemma core_strip [simp]: "core (strip k Q w) = core w"
  by (auto simp: core_def fun_eq_iff option.map_comp o_def intro!: option.map_cong)

lemma net_page_at_strip [simp]: "net_page_at np (strip k Q w) = net_page_at np w"
  by (simp add: net_page_at_def)

lemma canvas_ok_strip:
  assumes "canvas_ok w"
  shows "canvas_ok (strip None Q w)"
proof -
  have ok: "links_ok None w" "links_full w" "pages_ok (cv_pages w) (core w)" using assms by (simp_all add: canvas_ok_def)
  have "links_full (strip None Q w)"
    unfolding links_full_def
  proof (intro conjI allI impI)
    fix q pol x assume "cv_pol (strip None Q w) q = Some pol" and x: "x \<in> ends pol"
    then have q: "cv_pol w q = Some pol" "q \<notin> Q" by (simp_all split: if_splits)
    from links_fullD(1) [OF ok(2) q(1) x] q(2)
    show "\<exists>p. cv_po (strip None Q w) x = Some p \<and> q \<in> set (po_links p)" by auto
  next
    fix q r pol pol' assume "cv_pol (strip None Q w) q = Some pol" "cv_pol (strip None Q w) r = Some pol'" "ends pol = ends pol'"
    then show "q = r" using links_fullD(2) [OF ok(2)] by (auto split: if_splits)
  next
    fix q pol assume "cv_pol (strip None Q w) q = Some pol"
    then show "\<exists>np page. net_page_at np (strip None Q w) = Some page \<and> ends pol \<subseteq> set (np_objects page)"
      using links_fullD(3) [OF ok(2), of q pol] by (simp split: if_splits)
  qed
  then show ?thesis using ok links_ok_strip by (simp add: canvas_ok_def)
qed

lemma hosts_strip: "gr_hosts (graph_of (strip k Q w)) = gr_hosts (graph_of w)"
  by (auto simp: graph_of_def fun_eq_iff option.map_comp o_def intro!: option.map_cong)

lemma edges_strip: "gr_edges (graph_of (strip k Q w)) = {ends pol | q pol. cv_pol w q = Some pol \<and> q \<notin> Q}"
  by (auto simp: graph_of_def ran_def split: if_splits)

lemma edges_eq: "gr_edges (graph_of w) = {ends pol | q pol. cv_pol w q = Some pol}"
  by (auto simp: graph_of_def ran_def)

text \<open>A link of an object is an edge at it.\<close>

lemma links_inc:
  assumes ok: "canvas_ok w" and a: "cv_po w a = Some p"
  shows "set (po_links p) = inc a w" "distinct (po_links p)"
proof -
  have l: "links_ok None w" "links_full w" using ok by (simp_all add: canvas_ok_def)
  show "set (po_links p) = inc a w"
    using links_okD(3) [OF l(1) a] links_fullD(1) [OF l(2)] a by (fastforce simp: inc_def ends_def)
  show "distinct (po_links p)" using links_okD(2) [OF l(1) a] by simp
qed

section \<open>Deleting and unmapping\<close>

lemma net_page_at_upd: "net_page_at m (page_upd np f w) = (if m = np then map_option f (net_page_at m w) else net_page_at m w)"
proof -
  have "map_of (map (\<lambda>(k, page). if k = np then (k, f page) else (k, page)) xs) m =
      (if m = np then map_option f (map_of xs m) else map_of xs m)" for xs by (induction xs) auto
  then show ?thesis unfolding net_page_at_def page_upd_def by simp
qed

lemma page_upd_sels [simp]:
  "cv_po (page_upd np f w) = cv_po w" "cv_pol (page_upd np f w) = cv_pol w"
  "map fst (cv_pages (page_upd np f w)) = map fst (cv_pages w)" "core (page_upd np f w) = core w"
  by (auto simp: page_upd_def core_def fun_eq_iff)

lemma destroy_own:
  assumes ok: "canvas_ok w" and a: "cv_po w a = Some p"
  shows "destroy_links (po_links p) a w = Ret (strip (Some a) (inc a w) w)"
proof -
  have "links_ok None w" using ok by (simp add: canvas_ok_def)
  then have "links_ok (Some a) w" by (auto simp: links_ok_def)
  moreover have "\<forall>q \<in> set (po_links p). cv_pol w q \<noteq> None" using links_inc(1) [OF ok a] by (auto simp: inc_def)
  ultimately show ?thesis using destroy_links_strip links_inc [OF ok a] by metis
qed

lemma clear_own:
  assumes ok: "canvas_ok w" and a: "cv_po w a = Some p"
  shows "po_upd a (\<lambda>p. p\<lparr>po_links := []\<rparr>) (strip (Some a) (inc a w) w) = Ret (strip None (inc a w) w)"
proof -
  have "filter (\<lambda>q. q \<notin> inc a w) (po_links p) = []" using links_inc(1) [OF ok a] by (auto simp: filter_empty_conv)
  then show ?thesis using a
    by (auto simp: po_upd_def deref_def intro!: arg_cong [where f = Ret] canvas_eqI)
qed

lemma inc_strip: "inc a (strip k Q w) = inc a w - Q"
  by (auto simp: inc_def split: if_splits)

definition gone :: "u64 \<Rightarrow> nat \<Rightarrow> canvas \<Rightarrow> canvas" where
  "gone np a w = page_upd np (\<lambda>page. page\<lparr>np_objects := remove1 a (np_objects page)\<rparr>) (w\<lparr>cv_po := (cv_po w)(a := None)\<rparr>)"

lemma delete_object_gone:
  assumes ok: "canvas_ok w" and v: "is_valid_page_object np a w"
  shows "delete_object np a w = Ret (gone np a (strip None (inc a w) w))"
proof -
  obtain page where page: "map_of (cv_pages w) np = Some page" "a \<in> set (np_objects page)"
    using v by (auto simp: is_valid_page_object_def net_page_at_def)
  then have "core w a \<noteq> None" using pages_okD(3) [OF _ page] ok by (simp add: canvas_ok_def)
  then obtain p where a: "cv_po w a = Some p" by (auto simp: core_def)
  show ?thesis using v a destroy_own [OF ok a]
    by (auto simp: delete_object_def deref_def gone_def page_upd_def
        intro!: arg_cong [where f = Ret] canvas_eqI)
qed

lemma net_page_at_gone:
  "net_page_at m (gone np a w) = (if m = np then map_option (\<lambda>page. page\<lparr>np_objects := remove1 a (np_objects page)\<rparr>) (net_page_at m w)
     else net_page_at m w)"
  by (simp add: gone_def net_page_at_upd) (simp add: net_page_at_def)

lemma gone_sels [simp]:
  "cv_po (gone np a w) x = (if x = a then None else cv_po w x)" "cv_pol (gone np a w) = cv_pol w"
  "map fst (cv_pages (gone np a w)) = map fst (cv_pages w)"
  "core (gone np a w) x = (if x = a then None else core w x)"
  by (auto simp: gone_def core_def)

lemma canvas_ok_gone:
  assumes ok: "canvas_ok w" and v: "is_valid_page_object np a w" and inc: "inc a w = {}"
  shows "canvas_ok (gone np a w)"
proof -
  have l: "links_ok None w" "links_full w" and p: "pages_ok (cv_pages w) (core w)" using ok by (simp_all add: canvas_ok_def)
  obtain page where page: "net_page_at np w = Some page" "a \<in> set (np_objects page)"
    using v by (auto simp: is_valid_page_object_def)
  have ends: "a \<notin> ends pol" if "cv_pol w q = Some pol" for q pol using inc that by (auto simp: inc_def)
  have "links_ok None (gone np a w)"
  proof (rule links_okI)
    fix q pol assume "cv_pol (gone np a w) q = Some pol"
    then have q: "cv_pol w q = Some pol" by simp
    from links_okD(1) [OF l(1) q] ends [OF q]
    show "pol_merge1 pol = None \<and> pol_merge2 pol = None \<and> pol_po1 pol \<noteq> pol_po2 pol \<and>
        cv_po (gone np a w) (pol_po1 pol) \<noteq> None \<and> cv_po (gone np a w) (pol_po2 pol) \<noteq> None"
      by (simp add: ends_def)
  qed (use links_okD [OF l(1)] in \<open>auto split: if_splits\<close>)
  moreover have "links_full (gone np a w)"
    unfolding links_full_def
  proof (intro conjI allI impI)
    fix q pol x assume "cv_pol (gone np a w) q = Some pol" "x \<in> ends pol"
    then show "\<exists>p. cv_po (gone np a w) x = Some p \<and> q \<in> set (po_links p)"
      using links_fullD(1) [OF l(2)] ends by auto
  next
    fix q r pol pol' assume "cv_pol (gone np a w) q = Some pol" "cv_pol (gone np a w) r = Some pol'" "ends pol = ends pol'"
    then show "q = r" using links_fullD(2) [OF l(2)] by simp
  next
    fix q pol assume "cv_pol (gone np a w) q = Some pol"
    then have q: "cv_pol w q = Some pol" by simp
    then obtain m page' where m: "net_page_at m w = Some page'" "ends pol \<subseteq> set (np_objects page')"
      using links_fullD(3) [OF l(2) q] by auto
    have "ends pol \<subseteq> set (remove1 a (np_objects page'))" using m(2) ends [OF q] by (metis in_set_remove1 subsetD subsetI)
    then show "\<exists>m page. net_page_at m (gone np a w) = Some page \<and> ends pol \<subseteq> set (np_objects page)"
      using m by (cases "m = np") (auto simp: net_page_at_gone intro!: exI [of _ m])
  qed
  moreover have "pages_ok (cv_pages (gone np a w)) (core (gone np a w))"
  proof -
    let ?P = "cv_pages (gone np a w)"
    have at: "map_of ?P m = (if m = np then map_option (\<lambda>page. page\<lparr>np_objects := remove1 a (np_objects page)\<rparr>) (map_of (cv_pages w) m)
     else map_of (cv_pages w) m)" for m
      using net_page_at_gone by (simp add: net_page_at_def)
    have sub: "\<exists>page'. map_of (cv_pages w) m = Some page' \<and> distinct (np_objects page)
        \<and> set (np_objects page) = set (np_objects page') - {a}" if m: "map_of ?P m = Some page" for m page
    proof -
      obtain page' where page': "map_of (cv_pages w) m = Some page'"
        "page = (if m = np then page'\<lparr>np_objects := remove1 a (np_objects page')\<rparr> else page')"
        using m by (auto simp: at split: if_splits)
      have d: "distinct (np_objects page')" using pages_okD(2) [OF p page'(1)] .
      have "a \<notin> set (np_objects page')" if "m \<noteq> np"
        using pages_okD(7) [OF p page'(1), of np] page that by (auto simp: net_page_at_def)
      then show ?thesis using page' d by auto
    qed
    show ?thesis
      unfolding pages_ok_def
    proof (intro conjI allI impI ballI)
      show "distinct (map fst ?P)" using pages_okD(1) [OF p] by simp
    next
      fix m page assume m: "map_of ?P m = Some page"
      from sub [OF m] obtain page' where s: "map_of (cv_pages w) m = Some page'" "distinct (np_objects page)"
        "set (np_objects page) = set (np_objects page') - {a}" by auto
      show "distinct (np_objects page)" by fact
      show "core (gone np a w) x \<noteq> None" if "x \<in> set (np_objects page)" for x
        using pages_okD(3) [OF p s(1)] s(3) that by auto
      show "inj_on (\<lambda>x. fst (the (core (gone np a w) x))) (set (np_objects page))"
        using pages_okD(4) [OF p s(1)] s(3) unfolding inj_on_def by auto
    next
      fix x t assume x: "core (gone np a w) x = Some t"
      then have x': "core w x = Some t" "x \<noteq> a" by (auto split: if_splits)
      show "snd t = (None, None)" using pages_okD(5) [OF p x'(1)] .
      from pages_okD(6) [OF p x'(1)] obtain m page' where m: "map_of (cv_pages w) m = Some page'" "x \<in> set (np_objects page')" by auto
      then have "map_of ?P m \<noteq> None" by (cases "m = np") (simp_all add: at)
      then obtain page'' where m': "map_of ?P m = Some page''" by blast
      from sub [OF this] m x'(2) show "\<exists>np page. map_of ?P np = Some page \<and> x \<in> set (np_objects page)"
        using m' by auto
    next
      fix m page m' page' x
      assume "map_of ?P m = Some page" "map_of ?P m' = Some page'" "x \<in> set (np_objects page)" "x \<in> set (np_objects page')"
      then show "m = m'" using sub pages_okD(7) [OF p] by (metis DiffE)
    qed
  qed
  ultimately show ?thesis by (simp add: canvas_ok_def)
qed

text \<open>The graph without a host.\<close>

definition drop_host :: "u64 \<Rightarrow> nat \<Rightarrow> graph \<Rightarrow> graph" where
  "drop_host np a g = g\<lparr>gr_hosts := (gr_hosts g)(np := map_option (\<lambda>h. h(a := None)) (gr_hosts g np)),
     gr_edges := {e \<in> gr_edges g. a \<notin> e}\<rparr>"

lemma hosts_gone:
  assumes ok: "canvas_ok w" and v: "is_valid_page_object np a w"
  shows "gr_hosts (graph_of (gone np a w)) m = gr_hosts (drop_host np a (graph_of w)) m"
proof -
  have p: "pages_ok (cv_pages w) (core w)" using ok by (simp add: canvas_ok_def)
  obtain page where page: "net_page_at np w = Some page" "a \<in> set (np_objects page)"
    using v by (auto simp: is_valid_page_object_def)
  show ?thesis
  proof (cases "m = np")
    case True
    then show ?thesis using page pages_okD(2) [OF p page(1) [unfolded net_page_at_def]]
      by (auto simp: graph_of_def net_page_at_gone drop_host_def fun_eq_iff)
  next
    case False
    then have "a \<notin> set (np_objects page')" if "net_page_at m w = Some page'" for page'
      using pages_okD(7) [OF p page(1) [unfolded net_page_at_def] that [unfolded net_page_at_def]] page(2) by auto
    then show ?thesis using False
      by (cases "net_page_at m w") (auto simp: graph_of_def net_page_at_gone drop_host_def fun_eq_iff)
  qed
qed

lemma edges_gone: "gr_edges (graph_of (gone np a w)) = gr_edges (graph_of w)"
  by (simp add: graph_of_def)

text \<open>A host is deleted: no freed link is used, and no list keeps one.\<close>

lemma delete_object_graph:
  assumes ok: "canvas_ok w" and v: "is_valid_page_object np a w"
  shows "\<exists>w'. delete_object np a w = Ret w' \<and> canvas_ok w' \<and> graph_of w' = drop_host np a (graph_of w)"
proof -
  let ?s = "strip None (inc a w) w"
  have s: "canvas_ok ?s" "is_valid_page_object np a ?s" "inc a ?s = {}"
    using canvas_ok_strip [OF ok] v by (simp_all add: is_valid_page_object_def inc_strip)
  have "graph_of (gone np a ?s) = drop_host np a (graph_of w)"
  proof (rule graph.equality)
    show "gr_hosts (graph_of (gone np a ?s)) = gr_hosts (drop_host np a (graph_of w))"
      using hosts_gone [OF s(1,2)] by (simp add: fun_eq_iff drop_host_def hosts_strip)
    have "gr_edges (graph_of (gone np a ?s)) = {ends pol | q pol. cv_pol w q = Some pol \<and> a \<notin> ends pol}"
      unfolding edges_gone edges_strip by (fastforce simp: inc_def)
    then show "gr_edges (graph_of (gone np a ?s)) = gr_edges (drop_host np a (graph_of w))"
      by (auto simp: drop_host_def edges_eq)
  qed simp
  then show ?thesis using delete_object_gone [OF ok v] canvas_ok_gone [OF s] by blast
qed

lemma page_object_delete_graph:
  assumes ok: "canvas_ok w" and v: "is_valid_page_object np a w" and n: "0 < n"
  shows "\<exists>w'. page_object_delete n np f ask a w = Ret w' \<and> canvas_ok w' \<and> graph_of w' = drop_host np a (graph_of w)"
proof -
  obtain page where page: "net_page_at np w = Some page" "a \<in> set (np_objects page)"
    using v by (auto simp: is_valid_page_object_def)
  have p: "pages_ok (cv_pages w) (core w)" using ok by (simp add: canvas_ok_def)
  then have "core w a \<noteq> None" using pages_okD(3) [OF p] page by (simp add: net_page_at_def)
  then obtain po where a: "cv_po w a = Some po" by (auto simp: core_def)
  then have "po_merge po = None" using pages_okD(5) [OF p, of a] by (auto simp: core_def)
  then have "page_object_delete n np f ask a w = delete_object np a w"
    using page a n by (cases n) (simp_all add: deref_def)
  then show ?thesis using delete_object_graph [OF ok v] by simp
qed

section \<open>Mapping\<close>

lemma find_link_find:
  assumes "\<forall>q \<in> set qs. cv_pol w q \<noteq> None"
  shows "find_link a b qs w = Ret (find (\<lambda>q. q \<in> between a b w) qs)"
  using assms by (induction qs) (auto simp: deref_def between_def)

lemma link_get:
  assumes ok: "canvas_ok w" and a: "cv_po w a = Some p" and b: "cv_po w b = Some p'"
  shows "\<exists>found. page_object_link_get a b w = Ret found \<and>
      (case found of Some q \<Rightarrow> between a b w = {q} | None \<Rightarrow> between a b w = {})"
proof -
  have l: "links_full w" "pages_ok (cv_pages w) (core w)" using ok by (simp_all add: canvas_ok_def)
  have m: "po_merge_primary p = None" "po_merge_primary p' = None"
    using pages_okD(5) [OF l(2)] a b by (force simp: core_def)+
  have links: "\<forall>q \<in> set (po_links r). cv_pol w q \<noteq> None" if "cv_po w x = Some r" for x r
    using links_inc(1) [OF ok that] by (auto simp: inc_def)
  have one: "between a b w = {q}" if "q \<in> between a b w" for q
    using links_fullD(2) [OF l(1)] that by (auto simp: between_def links_them_ends)
  have sub: "between a b w \<subseteq> set (po_links p)"
    using links_inc(1) [OF ok a] by (auto simp: between_def inc_def links_them_ends)
  have get: "page_object_link_get a b w = Ret (case find (\<lambda>q. q \<in> between a b w) (po_links p) of Some q \<Rightarrow> Some q
     | None \<Rightarrow> find (\<lambda>q. q \<in> between a b w) (po_links p'))"
    using a b m find_link_find [OF links [OF a]] find_link_find [OF links [OF b]]
    by (simp add: page_object_link_get_def deref_def split: option.split)
  show ?thesis
  proof (cases "find (\<lambda>q. q \<in> between a b w) (po_links p)")
    case None
    then have "between a b w = {}" using sub by (auto simp: find_None_iff)
    then show ?thesis using get None by (auto simp: find_None_iff split: option.split)
  next
    case (Some q)
    then have "q \<in> between a b w" by (auto simp: find_Some_iff)
    then show ?thesis using get Some one by simp
  qed
qed

lemma destroy_found_strip:
  assumes ok: "canvas_ok w" and ab: "cv_po w a \<noteq> None" "cv_po w b \<noteq> None"
  shows "destroy_found a b w = Ret (strip None (between a b w) w)"
proof -
  obtain found where get: "page_object_link_get a b w = Ret found"
    "case found of Some q \<Rightarrow> between a b w = {q} | None \<Rightarrow> between a b w = {}"
    using link_get [OF ok] ab by blast
  show ?thesis
  proof (cases found)
    case (Some q)
    then have q: "between a b w = {q}" using get(2) by simp
    then have "q \<in> between a b w" by simp
    then obtain pol where "cv_pol w q = Some pol" by (auto simp: between_def)
    then have "page_object_link_destroy q None w = Ret (strip None {q} w)"
      using destroy_strip ok by (simp add: canvas_ok_def)
    then show ?thesis using get(1) Some q by (simp add: destroy_found_def)
  qed (use get in \<open>simp add: destroy_found_def\<close>)
qed

lemma between_strip: "between a b (strip k Q w) = between a b w - Q"
  by (auto simp: between_def split: if_splits)

definition linked :: "nat \<Rightarrow> nat \<Rightarrow> nat \<Rightarrow> canvas \<Rightarrow> canvas" where
  "linked q a b w = w\<lparr>cv_pol := (cv_pol w)(q \<mapsto> \<lparr>pol_po1 = a, pol_po2 = b, pol_merge1 = None, pol_merge2 = None\<rparr>),
     cv_po := (\<lambda>x. if x \<in> {a, b} then map_option (\<lambda>p. p\<lparr>po_links := po_links p @ [q]\<rparr>) (cv_po w x) else cv_po w x)\<rparr>"

lemma linked_sels [simp]:
  "cv_pages (linked q a b w) = cv_pages w"
  "cv_pol (linked q a b w) r = (if r = q then Some \<lparr>pol_po1 = a, pol_po2 = b, pol_merge1 = None, pol_merge2 = None\<rparr> else cv_pol w r)"
  "cv_po (linked q a b w) x = (if x \<in> {a, b} then map_option (\<lambda>p. p\<lparr>po_links := po_links p @ [q]\<rparr>) (cv_po w x) else cv_po w x)"
  by (simp_all add: linked_def)

lemma core_linked [simp]: "core (linked q a b w) = core w"
  by (auto simp: core_def fun_eq_iff option.map_comp o_def)

lemma canvas_ok_linked:
  assumes ok: "canvas_ok w" and q: "cv_pol w q = None" and ab: "a \<noteq> b" "cv_po w a \<noteq> None" "cv_po w b \<noteq> None"
    and page: "net_page_at np w = Some page" "{a, b} \<subseteq> set (np_objects page)" and none: "between a b w = {}"
  shows "canvas_ok (linked q a b w)"
proof -
  have l: "links_ok None w" "links_full w" and p: "pages_ok (cv_pages w) (core w)" using ok by (simp_all add: canvas_ok_def)
  have fresh: "q \<notin> set (po_links p)" if "cv_po w x = Some p" for x p
    using links_inc(1) [OF ok that] q by (auto simp: inc_def)
  have new: "ends pol \<noteq> {a, b}" if "cv_pol w r = Some pol" for r pol
    using none that by (auto simp: between_def links_them_ends)
  have "links_ok None (linked q a b w)"
  proof (rule links_okI)
    fix r pol assume r: "cv_pol (linked q a b w) r = Some pol"
    show "pol_merge1 pol = None \<and> pol_merge2 pol = None \<and> pol_po1 pol \<noteq> pol_po2 pol \<and>
        cv_po (linked q a b w) (pol_po1 pol) \<noteq> None \<and> cv_po (linked q a b w) (pol_po2 pol) \<noteq> None"
    proof (cases "r = q")
      case True
      then have "pol = \<lparr>pol_po1 = a, pol_po2 = b, pol_merge1 = None, pol_merge2 = None\<rparr>" using r by simp
      then show ?thesis using ab by simp
    next
      case False
      then have "cv_pol w r = Some pol" using r by simp
      from links_okD(1) [OF l(1) this] show ?thesis by auto
    qed
  next
    fix x p assume x: "cv_po (linked q a b w) x = Some p"
    then obtain p' where p': "cv_po w x = Some p'" "po_links p = po_links p' @ (if x \<in> {a, b} then [q] else [])"
      by (auto split: if_splits)
    show "distinct (po_links p)" using links_okD(2) [OF l(1) p'(1)] fresh [OF p'(1)] p'(2) by simp
    fix r assume "r \<in> set (po_links p)"
    then consider "r \<in> set (po_links p')" | "r = q" "x \<in> {a, b}" using p'(2) by (auto split: if_splits)
    then show "\<exists>pol. cv_pol (linked q a b w) r = Some pol \<and> (x = pol_po1 pol \<or> x = pol_po2 pol)"
    proof cases
      case 1
      then have "r \<noteq> q" using fresh [OF p'(1)] by auto
      then show ?thesis using links_okD(3) [OF l(1) p'(1) _ 1] by simp
    qed auto
  qed
  moreover have "links_full (linked q a b w)"
    unfolding links_full_def
  proof (intro conjI allI impI)
    fix r pol x assume r: "cv_pol (linked q a b w) r = Some pol" and x: "x \<in> ends pol"
    show "\<exists>p. cv_po (linked q a b w) x = Some p \<and> r \<in> set (po_links p)"
    proof (cases "r = q")
      case True
      then have "x \<in> {a, b}" using r x by (auto simp: ends_def)
      then show ?thesis using ab True by auto
    next
      case False
      then have "cv_pol w r = Some pol" using r by simp
      from links_fullD(1) [OF l(2) this x] show ?thesis by auto
    qed
  next
    fix r r' pol pol'
    assume r: "cv_pol (linked q a b w) r = Some pol" "cv_pol (linked q a b w) r' = Some pol'" "ends pol = ends pol'"
    have e: "ends pol = {a, b} \<longleftrightarrow> r = q" if "cv_pol (linked q a b w) r = Some pol" for r pol
      using that new [of r pol] by (cases "r = q") (auto simp: ends_def)
    show "r = r'"
    proof (cases "r = q")
      case True
      then show ?thesis using e [OF r(1)] e [OF r(2)] r(3) by simp
    next
      case False
      then have "r' \<noteq> q" using e [OF r(1)] e [OF r(2)] r(3) by simp
      then show ?thesis using links_fullD(2) [OF l(2) _ _ r(3)] r(1,2) False by simp
    qed
  next
    fix r pol assume r: "cv_pol (linked q a b w) r = Some pol"
    show "\<exists>np page. net_page_at np (linked q a b w) = Some page \<and> ends pol \<subseteq> set (np_objects page)"
    proof (cases "r = q")
      case True
      then have "ends pol = {a, b}" using r by (auto simp: ends_def)
      then show ?thesis using page by (auto simp: net_page_at_def)
    next
      case False
      then have "cv_pol w r = Some pol" using r by simp
      from links_fullD(3) [OF l(2) this] show ?thesis by (simp add: net_page_at_def)
    qed
  qed
  ultimately show ?thesis using p by (simp add: canvas_ok_def)
qed

lemma graph_linked:
  assumes "cv_pol w q = None"
  shows "graph_of (linked q a b w) = graph_of w\<lparr>gr_edges := insert {a, b} (gr_edges (graph_of w))\<rparr>"
proof (rule graph.equality)
  show "gr_hosts (graph_of (linked q a b w)) = gr_hosts (graph_of w\<lparr>gr_edges := insert {a, b} (gr_edges (graph_of w))\<rparr>)"
    by (auto simp: graph_of_def net_page_at_def fun_eq_iff option.map_comp o_def intro!: option.map_cong)
  have "gr_edges (graph_of (linked q a b w)) = insert {a, b} (gr_edges (graph_of w))"
    using assms by (simp add: graph_of_def linked_def ran_map_upd ends_def)
  then show "gr_edges (graph_of (linked q a b w)) = gr_edges (graph_of w\<lparr>gr_edges := insert {a, b} (gr_edges (graph_of w))\<rparr>)"
    by simp
qed simp

text \<open>Mapping two objects of a page adds their edge, or replaces the link they have.\<close>

lemma net_page_map_graph:
  assumes ok: "canvas_ok w" and q: "cv_pol w q = None"
    and v: "np \<noteq> 0" "is_valid_page_object np a w" "is_valid_page_object np b w" "a \<noteq> b"
  shows "\<exists>w'. net_page_map_page_objects (Some q) np a b w = Ret w' \<and> canvas_ok w' \<and>
    graph_of w' = graph_of w\<lparr>gr_edges := insert {a, b} (gr_edges (graph_of w))\<rparr>"
proof -
  let ?s = "strip None (between a b w) w"
  obtain page where page: "net_page_at np w = Some page" "{a, b} \<subseteq> set (np_objects page)"
    using v by (auto simp: is_valid_page_object_def)
  have p: "pages_ok (cv_pages w) (core w)" using ok by (simp add: canvas_ok_def)
  have "core w a \<noteq> None" "core w b \<noteq> None" using pages_okD(3) [OF p] page by (auto simp: net_page_at_def)
  then obtain pa pb where pab: "cv_po w a = Some pa" "cv_po w b = Some pb" by (auto simp: core_def)
  then have m: "po_merge_primary pa = None" "po_merge_primary pb = None"
    using pages_okD(5) [OF p] by (force simp: core_def)+
  have s: "canvas_ok ?s" "cv_pol ?s q = None" "cv_po ?s a \<noteq> None" "cv_po ?s b \<noteq> None" "net_page_at np ?s = Some page"
    "between a b ?s = {}"
    using canvas_ok_strip [OF ok] q pab page by (simp_all add: between_strip)
  have "destroy_found a b ?s = Ret ?s" using destroy_found_strip [OF s(1,3,4)] s(6) by simp
  moreover have "destroy_found a b w = Ret ?s" using destroy_found_strip [OF ok] pab by simp
  ultimately have "net_page_map_page_objects (Some q) np a b w = Ret (linked q a b ?s)"
    using v m pab
    by (auto simp: net_page_map_page_objects_def deref_def add_link_def po_upd_def Let_def
        intro!: arg_cong [where f = Ret] canvas_eqI)
  moreover have "graph_of (linked q a b ?s) = graph_of w\<lparr>gr_edges := insert {a, b} (gr_edges (graph_of w))\<rparr>"
  proof (rule graph.equality)
    have "gr_edges (graph_of ?s) = {ends pol | q pol. cv_pol w q = Some pol \<and> ends pol \<noteq> {a, b}}"
    proof -
      have "r \<notin> between a b w \<longleftrightarrow> ends pol \<noteq> {a, b}" if "cv_pol w r = Some pol" for r pol
        using that by (simp add: between_def links_them_ends)
      then show ?thesis unfolding edges_strip by (intro Collect_cong ex_cong1 conj_cong refl) simp_all
    qed
    then have "insert {a, b} (gr_edges (graph_of ?s)) = insert {a, b} (gr_edges (graph_of w))"
      unfolding edges_eq by auto
    then show "gr_edges (graph_of (linked q a b ?s)) = gr_edges (graph_of w\<lparr>gr_edges := insert {a, b} (gr_edges (graph_of w))\<rparr>)"
      unfolding graph_linked [OF s(2)] by simp
  qed (simp_all only: graph_linked [OF s(2)], simp_all add: hosts_strip)
  ultimately show ?thesis using canvas_ok_linked [OF s(1,2) v(4) s(3,4,5) page(2) s(6)] by blast
qed

text \<open>Unmapping a page takes away the edges at its objects.\<close>

lemma unmap_objects_strip:
  assumes "canvas_ok w" "\<forall>a \<in> set as. cv_po w a \<noteq> None"
  shows "unmap_objects as w = Ret (strip None (\<Union>a \<in> set as. inc a w) w)"
  using assms
proof (induction as arbitrary: w)
  case (Cons a as)
  let ?s = "strip None (inc a w) w"
  obtain p where a: "cv_po w a = Some p" using Cons.prems by auto
  have "unmap_objects (a # as) w = unmap_objects as ?s"
    using a destroy_own [OF Cons.prems(1) a] clear_own [OF Cons.prems(1) a] by (simp add: deref_def)
  also have "\<dots> = Ret (strip None (\<Union>x \<in> set as. inc x ?s) ?s)"
    using Cons.prems canvas_ok_strip by (intro Cons.IH) auto
  also have "\<dots> = Ret (strip None (inc a w \<union> (\<Union>x \<in> set as. inc x ?s)) w)" by simp
  also have "inc a w \<union> (\<Union>x \<in> set as. inc x ?s) = (\<Union>x \<in> set (a # as). inc x w)"
    by (auto simp: inc_strip)
  finally show ?case .
qed simp

lemma net_page_unmap_graph:
  assumes ok: "canvas_ok w" and page: "net_page_at np w = Some page" and np: "np \<noteq> 0"
  shows "\<exists>w'. net_page_unmap_all np w = Ret w' \<and> canvas_ok w' \<and>
    graph_of w' = graph_of w\<lparr>gr_edges := {e \<in> gr_edges (graph_of w). e \<inter> set (np_objects page) = {}}\<rparr>"
proof -
  let ?Q = "\<Union>a \<in> set (np_objects page). inc a w"
  have p: "pages_ok (cv_pages w) (core w)" using ok by (simp add: canvas_ok_def)
  have "core w a \<noteq> None" if "a \<in> set (np_objects page)" for a
    using pages_okD(3) [OF p] page that by (simp add: net_page_at_def)
  then have "\<forall>a \<in> set (np_objects page). cv_po w a \<noteq> None" by (auto simp: core_def)
  then have run: "net_page_unmap_all np w = Ret (strip None ?Q w)"
    using unmap_objects_strip [OF ok] page np by (simp add: net_page_unmap_all_def)
  have "graph_of (strip None ?Q w) = graph_of w\<lparr>gr_edges := {e \<in> gr_edges (graph_of w). e \<inter> set (np_objects page) = {}}\<rparr>"
  proof (rule graph.equality)
    have "r \<notin> ?Q \<longleftrightarrow> ends pol \<inter> set (np_objects page) = {}" if "cv_pol w r = Some pol" for r pol
      using that by (auto simp: inc_def)
    then have "gr_edges (graph_of (strip None ?Q w)) =
        {ends pol | q pol. cv_pol w q = Some pol \<and> ends pol \<inter> set (np_objects page) = {}}"
      unfolding edges_strip by (intro Collect_cong ex_cong1 conj_cong refl) simp_all
    then show "gr_edges (graph_of (strip None ?Q w)) = gr_edges (graph_of w\<lparr>gr_edges :=
        {e \<in> gr_edges (graph_of w). e \<inter> set (np_objects page) = {}}\<rparr>)"
      by (auto simp: edges_eq)
  qed (simp_all add: hosts_strip)
  then show ?thesis using run canvas_ok_strip [OF ok] by blast
qed

section \<open>Adding hosts and pages\<close>

lemma find_ip_find:
  assumes "\<forall>a \<in> set as. cv_po w a \<noteq> None"
  shows "find_ip ip as w = Ret (find (\<lambda>a. map_option po_ip (cv_po w a) = Some ip) as)"
  using assms by (induction as) (auto simp: deref_def)

text \<open>Nothing of the graph is in the other fields of an object.\<close>

lemma po_field_graph:
  assumes ok: "canvas_ok w" and a: "cv_po w a = Some p"
    and same: "po_ip q = po_ip p" "po_links q = po_links p" "po_merge q = po_merge p" "po_merge_primary q = po_merge_primary p"
  shows "canvas_ok (w\<lparr>cv_po := (cv_po w)(a \<mapsto> q)\<rparr>)" (is "canvas_ok ?v")
    and "graph_of (w\<lparr>cv_po := (cv_po w)(a \<mapsto> q)\<rparr>) = graph_of w"
proof -
  have l: "links_ok None w" "links_full w" and p: "pages_ok (cv_pages w) (core w)" using ok by (simp_all add: canvas_ok_def)
  have core: "core ?v = core w" using a same by (auto simp: core_def fun_eq_iff)
  have "links_ok None ?v"
  proof (rule links_okI)
    fix q pol assume "cv_pol ?v q = Some pol"
    then have "cv_pol w q = Some pol" by simp
    from links_okD(1) [OF l(1) this] show "pol_merge1 pol = None \<and> pol_merge2 pol = None \<and> pol_po1 pol \<noteq> pol_po2 pol \<and>
        cv_po ?v (pol_po1 pol) \<noteq> None \<and> cv_po ?v (pol_po2 pol) \<noteq> None" by auto
  next
    fix x p' assume x: "cv_po ?v x = Some p'"
    then obtain p'' where p'': "cv_po w x = Some p''" "po_links p' = po_links p''"
      using a same by (cases "x = a") auto
    show "distinct (po_links p')" using links_okD(2) [OF l(1) p''(1)] p''(2) by simp
    fix r assume "r \<in> set (po_links p')"
    then show "\<exists>pol. cv_pol ?v r = Some pol \<and> (x = pol_po1 pol \<or> x = pol_po2 pol)"
      using links_okD(3) [OF l(1) p''(1)] p''(2) by simp
  qed
  moreover have "links_full ?v"
    unfolding links_full_def
  proof (intro conjI allI impI)
    fix q pol x assume "cv_pol ?v q = Some pol" "x \<in> ends pol"
    then show "\<exists>p. cv_po ?v x = Some p \<and> q \<in> set (po_links p)"
      using links_fullD(1) [OF l(2), of q pol x] a same by auto
  qed (use links_fullD(2,3) [OF l(2)] in \<open>simp_all add: net_page_at_def\<close>)
  ultimately show "canvas_ok ?v" using p core by (simp add: canvas_ok_def)
  show "graph_of ?v = graph_of w"
    using a same by (auto simp: graph_of_def net_page_at_def fun_eq_iff intro!: option.map_cong)
qed

definition joined :: "u64 \<Rightarrow> nat \<Rightarrow> page_object \<Rightarrow> canvas \<Rightarrow> canvas" where
  "joined np a po w = page_upd np (\<lambda>page. page\<lparr>np_objects := a # np_objects page\<rparr>) (w\<lparr>cv_po := (cv_po w)(a \<mapsto> po)\<rparr>)"

lemma joined_sels [simp]:
  "cv_po (joined np a po w) x = (if x = a then Some po else cv_po w x)" "cv_pol (joined np a po w) = cv_pol w"
  "map fst (cv_pages (joined np a po w)) = map fst (cv_pages w)"
  "core (joined np a po w) x = (if x = a then Some (po_ip po, po_merge po, po_merge_primary po) else core w x)"
  by (auto simp: joined_def core_def)

lemma displayed_sels [simp]:
  "po_ip (displayed a po) = po_ip po" "po_links (displayed a po) = po_links po" "po_merge (displayed a po) = po_merge po"
  "po_merge_primary (displayed a po) = po_merge_primary po" "po_os_data (displayed a po) = po_os_data po"
  by (simp_all add: displayed_def)

lemma display_joined: "page_object_display a (joined np a po w) = Ret (joined np a (displayed a po) w)"
  by (simp add: page_object_display_def po_upd_def deref_def) (simp add: joined_def page_upd_def)

lemma net_page_at_joined:
  "net_page_at m (joined np a po w) = (if m = np then map_option (\<lambda>page. page\<lparr>np_objects := a # np_objects page\<rparr>) (net_page_at m w)
     else net_page_at m w)"
  by (simp add: joined_def net_page_at_upd) (simp add: net_page_at_def)

lemma canvas_ok_joined:
  assumes ok: "canvas_ok w" and page: "net_page_at np w = Some page" and a: "cv_po w a = None"
    and po: "po_links po = []" "po_merge po = None" "po_merge_primary po = None"
    and new: "\<forall>x \<in> set (np_objects page). map_option po_ip (cv_po w x) \<noteq> Some (po_ip po)"
  shows "canvas_ok (joined np a po w)"
proof -
  have l: "links_ok None w" "links_full w" and p: "pages_ok (cv_pages w) (core w)" using ok by (simp_all add: canvas_ok_def)
  have away: "a \<notin> ends pol" if "cv_pol w q = Some pol" for q pol
    using links_okD(1) [OF l(1) that] a by (auto simp: ends_def)
  have "links_ok None (joined np a po w)"
  proof (rule links_okI)
    fix q pol assume "cv_pol (joined np a po w) q = Some pol"
    then have "cv_pol w q = Some pol" by simp
    from links_okD(1) [OF l(1) this] show "pol_merge1 pol = None \<and> pol_merge2 pol = None \<and> pol_po1 pol \<noteq> pol_po2 pol \<and>
        cv_po (joined np a po w) (pol_po1 pol) \<noteq> None \<and> cv_po (joined np a po w) (pol_po2 pol) \<noteq> None" by simp
  qed (use links_okD(2,3) [OF l(1)] po in \<open>auto split: if_splits\<close>)
  moreover have "links_full (joined np a po w)"
    unfolding links_full_def
  proof (intro conjI allI impI)
    fix q pol x assume q: "cv_pol (joined np a po w) q = Some pol" and x: "x \<in> ends pol"
    then have "cv_pol w q = Some pol" by simp
    from links_fullD(1) [OF l(2) this x] away [OF this] x
    show "\<exists>p. cv_po (joined np a po w) x = Some p \<and> q \<in> set (po_links p)" by auto
  next
    fix q r pol pol' assume "cv_pol (joined np a po w) q = Some pol" "cv_pol (joined np a po w) r = Some pol'" "ends pol = ends pol'"
    then show "q = r" using links_fullD(2) [OF l(2)] by simp
  next
    fix q pol assume "cv_pol (joined np a po w) q = Some pol"
    then have "cv_pol w q = Some pol" by simp
    from links_fullD(3) [OF l(2) this] obtain m page' where m: "net_page_at m w = Some page'" "ends pol \<subseteq> set (np_objects page')"
      by auto
    then show "\<exists>m page. net_page_at m (joined np a po w) = Some page \<and> ends pol \<subseteq> set (np_objects page)"
      by (cases "m = np") (auto simp: net_page_at_joined intro!: exI [of _ m])
  qed
  moreover have "pages_ok (cv_pages (joined np a po w)) (core (joined np a po w))"
  proof -
    let ?P = "cv_pages (joined np a po w)"
    have at: "map_of ?P m = (if m = np then map_option (\<lambda>page. page\<lparr>np_objects := a # np_objects page\<rparr>) (map_of (cv_pages w) m)
     else map_of (cv_pages w) m)" for m
      using net_page_at_joined by (simp add: net_page_at_def)
    have np: "map_of (cv_pages w) np = Some page" using page by (simp add: net_page_at_def)
    have none: "core w a = None" using a by (simp add: core_def)
    then have out: "a \<notin> set (np_objects page')" if "map_of (cv_pages w) m = Some page'" for m page'
      using pages_okD(3) [OF p that, of a] by blast
    have sub: "\<exists>page'. map_of (cv_pages w) m = Some page' \<and>
        np_objects page = (if m = np then a # np_objects page' else np_objects page')" if "map_of ?P m = Some page" for m page
      using that by (cases "m = np") (auto simp: at)
    show ?thesis
      unfolding pages_ok_def
    proof (intro conjI allI impI ballI)
      show "distinct (map fst ?P)" using pages_okD(1) [OF p] by simp
    next
      fix m page1 assume m: "map_of ?P m = Some page1"
      from sub [OF m] obtain page' where s: "map_of (cv_pages w) m = Some page'"
        "np_objects page1 = (if m = np then a # np_objects page' else np_objects page')" by auto
      show "distinct (np_objects page1)" using s pages_okD(2) [OF p s(1)] out [OF s(1)] by simp
      show "core (joined np a po w) x \<noteq> None" if "x \<in> set (np_objects page1)" for x
        using pages_okD(3) [OF p s(1)] s(2) that by (auto split: if_splits)
      have other: "fst (the (core w x)) \<noteq> po_ip po" if "m = np" "x \<in> set (np_objects page')" for x
        using new that s(1) np pages_okD(3) [OF p s(1) that(2)] by (auto simp: core_def)
      show "inj_on (\<lambda>x. fst (the (core (joined np a po w) x))) (set (np_objects page1))"
        using pages_okD(4) [OF p s(1)] out [OF s(1)] other other [symmetric] s(2)
        unfolding inj_on_def by (auto split: if_splits)
    next
      fix x t assume x: "core (joined np a po w) x = Some t"
      show "snd t = (None, None)" using x po pages_okD(5) [OF p] by (auto split: if_splits)
      have "map_of ?P np = Some (page\<lparr>np_objects := a # np_objects page\<rparr>)" using np by (simp add: at)
      moreover have "\<exists>m page'. map_of ?P m = Some page' \<and> x \<in> set (np_objects page')" if "x \<noteq> a"
      proof -
        have "core w x = Some t" using x that by simp
        from pages_okD(6) [OF p this] obtain m page' where "map_of (cv_pages w) m = Some page'" "x \<in> set (np_objects page')" by auto
        then show ?thesis by (cases "m = np") (auto simp: at intro!: exI [of _ m])
      qed
      ultimately show "\<exists>np page. map_of ?P np = Some page \<and> x \<in> set (np_objects page)"
        by (cases "x = a") force+
    next
      fix m page1 m' page2 x
      assume m: "map_of ?P m = Some page1" "map_of ?P m' = Some page2" "x \<in> set (np_objects page1)" "x \<in> set (np_objects page2)"
      from sub [OF m(1)] sub [OF m(2)] obtain p1 p2 where s: "map_of (cv_pages w) m = Some p1" "map_of (cv_pages w) m' = Some p2"
        "np_objects page1 = (if m = np then a # np_objects p1 else np_objects p1)"
        "np_objects page2 = (if m' = np then a # np_objects p2 else np_objects p2)" by blast
      show "m = m'"
        using pages_okD(7) [OF p s(1,2)] out [OF s(1)] out [OF s(2)] s(3,4) m(3,4) by (auto split: if_splits)
    qed
  qed
  ultimately show ?thesis by (simp add: canvas_ok_def)
qed

text \<open>A host is added unless the page has one with its address.\<close>

definition put_host :: "u64 \<Rightarrow> nat \<Rightarrow> u32 \<Rightarrow> graph \<Rightarrow> graph" where
  "put_host np a ip g =
     (case gr_hosts g np of
        None \<Rightarrow> g
      | Some h \<Rightarrow> if ip \<in> ran h then g else g\<lparr>gr_hosts := (gr_hosts g)(np \<mapsto> h(a \<mapsto> ip))\<rparr>)"

lemma hosts_joined:
  assumes "net_page_at np w = Some page" "cv_po w a = None"
    "\<And>m page'. net_page_at m w = Some page' \<Longrightarrow> a \<notin> set (np_objects page')"
  shows "graph_of (joined np a po w) = graph_of w\<lparr>gr_hosts := (gr_hosts (graph_of w))
     (np \<mapsto> (the (gr_hosts (graph_of w) np))(a \<mapsto> po_ip po))\<rparr>"
proof (rule graph.equality)
  have "gr_hosts (graph_of (joined np a po w)) m =
      ((gr_hosts (graph_of w)) (np \<mapsto> (the (gr_hosts (graph_of w) np))(a \<mapsto> po_ip po))) m" for m
    using assms by (cases "net_page_at m w"; cases "m = np") (auto simp: graph_of_def net_page_at_joined fun_eq_iff)
  then show "gr_hosts (graph_of (joined np a po w)) = gr_hosts (graph_of w\<lparr>gr_hosts := (gr_hosts (graph_of w))
     (np \<mapsto> (the (gr_hosts (graph_of w) np))(a \<mapsto> po_ip po))\<rparr>)" by (simp add: fun_eq_iff)
qed (simp_all add: graph_of_def)

lemma add_host_graph:
  assumes ok: "canvas_ok w" and a: "cv_po w a = None"
  shows "\<exists>r w'. add_host_entry_to_net_page (Some a) np ip name w = Ret (r, w') \<and> canvas_ok w' \<and>
    graph_of w' = put_host np a ip (graph_of w)"
proof (cases "net_page_at np w")
  case None
  then show ?thesis using ok by (simp add: add_host_entry_to_net_page_def put_host_def graph_of_def)
next
  case (Some page)
  have p: "pages_ok (cv_pages w) (core w)" using ok by (simp add: canvas_ok_def)
  have in_dom: "cv_po w x \<noteq> None" if "net_page_at m w = Some page'" "x \<in> set (np_objects page')" for x m page'
    using pages_okD(3) [OF p that(1) [unfolded net_page_at_def] that(2)] by (auto simp: core_def)
  define found where "found = find (\<lambda>x. map_option po_ip (cv_po w x) = Some ip) (np_objects page)"
  have find: "find_ip ip (np_objects page) w = Ret found"
    using in_dom [OF Some] find_ip_find by (simp add: found_def)
  have g: "put_host np a ip (graph_of w) =
      (if found \<noteq> None then graph_of w else graph_of w\<lparr>gr_hosts := (gr_hosts (graph_of w))
          (np \<mapsto> (the (gr_hosts (graph_of w) np))(a \<mapsto> ip))\<rparr>)"
  proof -
    have "gr_hosts (graph_of w) np = Some (\<lambda>x. if x \<in> set (np_objects page) then map_option po_ip (cv_po w x) else None)" (is "_ = Some ?h")
      using Some by (simp add: graph_of_def)
    moreover have "ip \<in> ran ?h \<longleftrightarrow> found \<noteq> None"
      unfolding found_def find_None_iff ran_def by auto
    ultimately show ?thesis by (simp add: put_host_def)
  qed
  show ?thesis
  proof (cases found)
    case None
    define po where "po = displayed a
      (page_object_new\<lparr>po_ip := ip, po_name := Some (case name of Some n \<Rightarrow> n | None \<Rightarrow> ip2str ip)\<rparr>)"
    have po: "po_ip po = ip" "po_links po = []" "po_merge po = None" "po_merge_primary po = None"
      by (simp_all add: po_def page_object_new_def)
    have "add_host_entry_to_net_page (Some a) np ip name w = Ret (Some a, joined np a po w)"
      using Some find None
      by (simp add: add_host_entry_to_net_page_def joined_def [symmetric] display_joined po_def Let_def)
    moreover have "canvas_ok (joined np a po w)"
      using canvas_ok_joined [OF ok Some a po(2-4)] None po(1) by (auto simp: found_def find_None_iff)
    moreover have "a \<notin> set (np_objects page')" if "net_page_at m w = Some page'" for m page'
      using in_dom [OF that, of a] a by auto
    then have "graph_of (joined np a po w) = put_host np a ip (graph_of w)"
      using hosts_joined [OF Some a, of po] g None po(1) by simp
    ultimately show ?thesis by blast
  next
    case (Some b)
    then obtain pb where pb: "cv_po w b = Some pb" by (auto simp: found_def find_Some_iff)
    have "add_host_entry_to_net_page (Some a) np ip name w = (case name of None \<Rightarrow> Ret (Some b, w)
        | Some n \<Rightarrow> Ret (Some b, w\<lparr>cv_po := (cv_po w)(b \<mapsto> pb\<lparr>po_name := Some n\<rparr>)\<rparr>))"
      using \<open>net_page_at np w = Some page\<close> find Some pb
      by (simp add: add_host_entry_to_net_page_def po_upd_def deref_def split: option.split)
    then show ?thesis using po_field_graph [OF ok pb, of "pb\<lparr>po_name := name\<rparr>"] ok g Some by (cases name) simp_all
  qed
qed

text \<open>A new page, and the end of one.\<close>

definition put_page :: "u64 \<Rightarrow> graph \<Rightarrow> graph" where
  "put_page np g = g\<lparr>gr_hosts := (gr_hosts g)(np \<mapsto> Map.empty)\<rparr>"

definition drop_page :: "u64 \<Rightarrow> graph \<Rightarrow> graph" where
  "drop_page np g =
     (case gr_hosts g np of
        None \<Rightarrow> g
      | Some h \<Rightarrow> g\<lparr>gr_hosts := (gr_hosts g)(np := None), gr_edges := {e \<in> gr_edges g. e \<inter> dom h = {}}\<rparr>)"

lemma valid_graph:
  assumes "canvas_ok w"
  shows "is_valid_page_object np x w \<longleftrightarrow> (\<exists>h. gr_hosts (graph_of w) np = Some h \<and> x \<in> dom h)"
proof -
  have p: "pages_ok (cv_pages w) (core w)" using assms by (simp add: canvas_ok_def)
  have "cv_po w x \<noteq> None" if "net_page_at np w = Some page" "x \<in> set (np_objects page)" for page
    using pages_okD(3) [OF p that(1) [unfolded net_page_at_def] that(2)] by (auto simp: core_def)
  then show ?thesis by (cases "net_page_at np w") (auto simp: is_valid_page_object_def graph_of_def dom_def)
qed

lemma page_graph: "net_page_at np w = None \<longleftrightarrow> gr_hosts (graph_of w) np = None"
  by (simp add: graph_of_def)

lemma delete_all_graph:
  assumes "canvas_ok w" "distinct as" "\<forall>a \<in> set as. is_valid_page_object np a w" "0 < n"
  shows "\<exists>w'. delete_all n np as w = Ret w' \<and> canvas_ok w' \<and> graph_of w' = fold (drop_host np) as (graph_of w)"
  using assms
proof (induction as arbitrary: w)
  case (Cons a as)
  from page_object_delete_graph [OF Cons.prems(1) _ Cons.prems(4), of np a True False] Cons.prems(3)
  obtain v where v: "page_object_delete n np True False a w = Ret v" "canvas_ok v" "graph_of v = drop_host np a (graph_of w)"
    by auto
  have "\<forall>x \<in> set as. is_valid_page_object np x v"
    using Cons.prems(2,3) unfolding valid_graph [OF Cons.prems(1)] valid_graph [OF v(2)] v(3)
    by (fastforce simp: drop_host_def)
  from Cons.IH [OF v(2) _ this Cons.prems(4)] Cons.prems(2) v(3)
  obtain w' where w': "delete_all n np as v = Ret w'" "canvas_ok w'" "graph_of w' = fold (drop_host np) as (drop_host np a (graph_of w))"
    by auto
  have "is_valid_page_object np a w" using Cons.prems(3) by simp
  then obtain page where "map_of (cv_pages w) np = Some page" "a \<in> set (np_objects page)"
    by (auto simp: is_valid_page_object_def net_page_at_def)
  then have "core w a \<noteq> None" using pages_okD(3) Cons.prems(1) unfolding canvas_ok_def by blast
  then obtain p where "cv_po w a = Some p" by (auto simp: core_def)
  then show ?case using v w' by (simp add: deref_def)
qed simp

lemma fold_drop_host:
  "fold (drop_host np) as g = g\<lparr>gr_hosts := (gr_hosts g)(np := map_option (\<lambda>h. h |` (- set as)) (gr_hosts g np)),
     gr_edges := {e \<in> gr_edges g. e \<inter> set as = {}}\<rparr>"
proof (induction as arbitrary: g)
  case Nil
  have "map_option (\<lambda>h. h) y = y" for y :: "(nat \<Rightarrow> u32 option) option" by (cases y) simp_all
  then show ?case by (cases g) simp
next
  case (Cons a as)
  have "(h(a := None)) |` (- set as) = h |` (- set (a # as))" for h :: "nat \<Rightarrow> u32 option"
    by (auto simp: restrict_map_def fun_eq_iff)
  then have "map_option (\<lambda>h. h |` (- set as)) (map_option (\<lambda>h. h(a := None)) y) = map_option (\<lambda>h. h |` (- set (a # as))) y"
    for y :: "(nat \<Rightarrow> u32 option) option"
    by (cases y) (simp_all only: option.map)
  then have "fold (drop_host np) as (drop_host np a g) = g\<lparr>gr_hosts := (gr_hosts g)
      (np := map_option (\<lambda>h. h |` (- set (a # as))) (gr_hosts g np)), gr_edges := {e \<in> gr_edges g. e \<inter> set (a # as) = {}}\<rparr>"
    unfolding Cons.IH by (intro graph.equality) (auto simp: drop_host_def simp del: restrict_map_insert)
  then show ?case by (simp only: fold_Cons o_apply)
qed

lemma filter_page_at:
  fixes w :: canvas
  shows "net_page_at m (w\<lparr>cv_pages := filter (\<lambda>(k, page). k \<noteq> np) (cv_pages w)\<rparr>) = (if m = np then None else net_page_at m w)"
proof -
  have "map_of (filter (\<lambda>(k, page). k \<noteq> np) xs) m = (if m = np then None else map_of xs m)" for xs :: "(u64 \<times> net_page) list"
    by (induction xs) auto
  then show ?thesis by (simp add: net_page_at_def)
qed

lemma core_pages [simp]: "core (w\<lparr>cv_pages := P\<rparr>) = core w"
  by (simp add: core_def fun_eq_iff)

lemma canvas_ok_no_page:
  assumes ok: "canvas_ok w" and page: "net_page_at np w = Some page" "np_objects page = []"
  shows "canvas_ok (w\<lparr>cv_pages := filter (\<lambda>(k, page). k \<noteq> np) (cv_pages w)\<rparr>)" (is "canvas_ok ?v")
proof -
  have l: "links_ok None w" "links_full w" and p: "pages_ok (cv_pages w) (core w)" using ok by (simp_all add: canvas_ok_def)
  have at: "map_of (cv_pages ?v) m = (if m = np then None else map_of (cv_pages w) m)" for m
    by (rule filter_page_at [unfolded net_page_at_def])
  have keep: "m \<noteq> np" if "net_page_at m w = Some page'" "x \<in> set (np_objects page')" for m page' x
    using page that by auto
  have "links_ok None ?v" using l(1) by (simp add: links_ok_def)
  moreover have "links_full ?v"
    unfolding links_full_def
  proof (intro conjI allI impI)
    fix q pol assume "cv_pol ?v q = Some pol"
    then have q: "cv_pol w q = Some pol" by simp
    from links_fullD(3) [OF l(2) q] obtain m page' where m: "net_page_at m w = Some page'" "ends pol \<subseteq> set (np_objects page')"
      by auto
    have "pol_po1 pol \<in> set (np_objects page')" using m(2) by (auto simp: ends_def)
    then have "m \<noteq> np" using keep [OF m(1)] by blast
    then show "\<exists>m page. net_page_at m ?v = Some page \<and> ends pol \<subseteq> set (np_objects page)"
      using m unfolding filter_page_at by auto
  qed (use links_fullD(1,2) [OF l(2)] in simp_all)
  moreover have "pages_ok (cv_pages ?v) (core ?v)"
    unfolding pages_ok_def
  proof (intro conjI allI impI ballI)
    have "distinct (map fst (filter P xs))" if "distinct (map fst xs)" for P and xs :: "(u64 \<times> net_page) list"
      using that by (induction xs) auto
    then show "distinct (map fst (cv_pages ?v))" using pages_okD(1) [OF p] by simp
  next
    fix x t assume "core ?v x = Some t"
    then have x: "core w x = Some t" by simp
    show "snd t = (None, None)" using pages_okD(5) [OF p x] .
    from pages_okD(6) [OF p x] obtain m page' where m: "map_of (cv_pages w) m = Some page'" "x \<in> set (np_objects page')" by auto
    then have "m \<noteq> np" using keep [of m page' x] by (simp add: net_page_at_def)
    then show "\<exists>m page. map_of (cv_pages ?v) m = Some page \<and> x \<in> set (np_objects page)" using m unfolding at by auto
  next
    fix m page' assume "map_of (cv_pages ?v) m = Some page'"
    then have m: "map_of (cv_pages w) m = Some page'" unfolding at by (simp split: if_splits)
    show "distinct (np_objects page')" "inj_on (\<lambda>a. fst (the (core ?v a))) (set (np_objects page'))"
      using pages_okD(2,4) [OF p m] by simp_all
    show "core ?v a \<noteq> None" if "a \<in> set (np_objects page')" for a
      using pages_okD(3) [OF p m that] by simp
  next
    fix m page1 m' page2 x
    assume "map_of (cv_pages ?v) m = Some page1" "map_of (cv_pages ?v) m' = Some page2" "x \<in> set (np_objects page1)" "x \<in> set (np_objects page2)"
    then show "m = m'" using pages_okD(7) [OF p, of m page1 m' page2 x] unfolding at by (simp split: if_splits)
  qed
  ultimately show ?thesis by (simp add: canvas_ok_def)
qed

lemma net_page_remove_graph:
  assumes ok: "canvas_ok w" and n: "0 < n"
  shows "\<exists>w'. net_page_remove n np w = Ret w' \<and> canvas_ok w' \<and> graph_of w' = drop_page np (graph_of w)"
proof (cases "net_page_at np w")
  case None
  then show ?thesis using ok page_graph [of np w] by (simp add: net_page_remove_def drop_page_def)
next
  case (Some page)
  have p: "pages_ok (cv_pages w) (core w)" using ok by (simp add: canvas_ok_def)
  let ?h = "\<lambda>a. if a \<in> set (np_objects page) then map_option po_ip (cv_po w a) else None"
  have h: "gr_hosts (graph_of w) np = Some ?h" using Some by (simp add: graph_of_def)
  have in_dom: "cv_po w x \<noteq> None" if "x \<in> set (np_objects page)" for x
    using pages_okD(3) [OF p Some [unfolded net_page_at_def] that] by (auto simp: core_def)
  then have dom: "dom ?h = set (np_objects page)" by (auto split: if_splits)
  have "\<forall>a \<in> set (np_objects page). is_valid_page_object np a w"
    using Some by (simp add: is_valid_page_object_def)
  from delete_all_graph [OF ok _ this n] pages_okD(2) [OF p Some [unfolded net_page_at_def]]
  obtain v where v: "delete_all n np (np_objects page) w = Ret v" "canvas_ok v"
    "graph_of v = fold (drop_host np) (np_objects page) (graph_of w)" by blast
  have hv: "gr_hosts (graph_of v) = (gr_hosts (graph_of w))(np \<mapsto> Map.empty)"
    unfolding v(3) fold_drop_host using h dom by (auto simp: fun_eq_iff restrict_map_def)
  have ev: "gr_edges (graph_of v) = {e \<in> gr_edges (graph_of w). e \<inter> dom ?h = {}}"
    unfolding v(3) fold_drop_host dom by simp
  obtain page' where page': "net_page_at np v = Some page'"
    using hv page_graph [of np v] by (cases "net_page_at np v") auto
  have "\<not> is_valid_page_object np x v" for x
    using hv by (simp add: valid_graph [OF v(2)])
  then have "np_objects page' = []" using page' by (cases "np_objects page'") (auto simp: is_valid_page_object_def)
  then have okv: "canvas_ok (v\<lparr>cv_pages := filter (\<lambda>(k, page). k \<noteq> np) (cv_pages v)\<rparr>)" (is "canvas_ok ?v'")
    using canvas_ok_no_page [OF v(2) page'] by simp
  have "gr_hosts (graph_of ?v') m = (if m = np then None else gr_hosts (graph_of v) m)" for m
    using filter_page_at [of m np v] by (cases "net_page_at m v") (auto simp: graph_of_def fun_eq_iff)
  then have "gr_hosts (graph_of ?v') = (gr_hosts (graph_of w))(np := None)" using hv by (auto simp: fun_eq_iff)
  moreover have "gr_edges (graph_of ?v') = gr_edges (graph_of v)" by (simp add: graph_of_def)
  ultimately have "graph_of ?v' = drop_page np (graph_of w)"
    using h ev by (intro graph.equality) (simp_all add: drop_page_def)
  then show ?thesis using v(1) okv Some by (simp add: net_page_remove_def)
qed

section \<open>What the client does to its pages\<close>

datatype canvas_op =
    New_page u64 nat
  | Add_host "nat option" u64 u32 "cstring option"
  | Map_objects "nat option" u64 nat nat
  | Delete_object u64 nat
  | Unmap_page u64
  | Remove_page u64

text \<open>The new page of \<^verbatim>\<open>make_viewspace\<close>, at \<open>np\<close>, behind the others.\<close>

definition add_net_page :: "u64 \<Rightarrow> nat \<Rightarrow> canvas \<Rightarrow> canvas" where
  "add_net_page np agent w = w\<lparr>cv_pages := cv_pages w @ [(np, \<lparr>np_objects = [], np_plink = None, np_agent = agent\<rparr>)]\<rparr>"

fun canvas_do :: "canvas_op \<Rightarrow> canvas \<Rightarrow> canvas outcome" where
  "canvas_do (New_page np agent) w = Ret (add_net_page np agent w)"
| "canvas_do (Add_host q np ip name) w = obind (add_host_entry_to_net_page q np ip name w) (\<lambda>(r, w). Ret w)"
| "canvas_do (Map_objects q np a b) w = net_page_map_page_objects q np a b w"
| "canvas_do (Delete_object np a) w = page_object_delete 1 np False False a w"
| "canvas_do (Unmap_page np) w = net_page_unmap_all np w"
| "canvas_do (Remove_page np) w = net_page_remove 1 np w"

text \<open>The memory that is handed out is not in use, and the page is one of the client.\<close>

fun canvas_may :: "canvas_op \<Rightarrow> canvas \<Rightarrow> bool" where
  "canvas_may (New_page np agent) w \<longleftrightarrow> net_page_at np w = None"
| "canvas_may (Add_host q np ip name) w \<longleftrightarrow> (\<exists>a. q = Some a \<and> cv_po w a = None)"
| "canvas_may (Map_objects q np a b) w \<longleftrightarrow> (\<exists>l. q = Some l \<and> cv_pol w l = None)"
| "canvas_may (Delete_object np a) w \<longleftrightarrow> net_page_at np w \<noteq> None"
| "canvas_may (Unmap_page np) w \<longleftrightarrow> np = 0 \<or> net_page_at np w \<noteq> None"
| "canvas_may (Remove_page np) w \<longleftrightarrow> True"

fun graph_do :: "canvas_op \<Rightarrow> graph \<Rightarrow> graph" where
  "graph_do (New_page np agent) g = put_page np g"
| "graph_do (Add_host q np ip name) g = put_host np (the q) ip g"
| "graph_do (Map_objects q np a b) g =
     (if np \<noteq> 0 \<and> a \<noteq> b \<and> (\<exists>h. gr_hosts g np = Some h \<and> {a, b} \<subseteq> dom h)
      then g\<lparr>gr_edges := insert {a, b} (gr_edges g)\<rparr> else g)"
| "graph_do (Delete_object np a) g =
     (if \<exists>h. gr_hosts g np = Some h \<and> a \<in> dom h then drop_host np a g else g)"
| "graph_do (Unmap_page np) g =
     (if np = 0 then g else g\<lparr>gr_edges := {e \<in> gr_edges g. e \<inter> dom (the (gr_hosts g np)) = {}}\<rparr>)"
| "graph_do (Remove_page np) g = drop_page np g"

lemma add_net_page_graph:
  assumes ok: "canvas_ok w" and np: "net_page_at np w = None"
  shows "canvas_ok (add_net_page np agent w)" "graph_of (add_net_page np agent w) = put_page np (graph_of w)"
proof -
  let ?v = "add_net_page np agent w" and ?page = "\<lparr>np_objects = [], np_plink = None, np_agent = agent\<rparr>"
  have l: "links_ok None w" "links_full w" and p: "pages_ok (cv_pages w) (core w)" using ok by (simp_all add: canvas_ok_def)
  have at: "net_page_at m ?v = (if m = np then Some ?page else net_page_at m w)" for m
    using np by (auto simp: net_page_at_def add_net_page_def map_add_def split: option.split)
  then have at': "map_of (cv_pages ?v) m = (if m = np then Some ?page else map_of (cv_pages w) m)" for m
    by (simp add: net_page_at_def)
  have old: "m \<noteq> np" if "map_of (cv_pages w) m = Some page'" for m page'
    using np that by (auto simp: net_page_at_def)
  have sels: "cv_po ?v = cv_po w" "cv_pol ?v = cv_pol w" "core ?v = core w"
    by (simp_all add: add_net_page_def core_def fun_eq_iff)
  have "links_ok None ?v" using l(1) by (simp add: links_ok_def sels)
  moreover have "links_full ?v"
    unfolding links_full_def sels
  proof (intro conjI allI impI)
    fix q pol assume "cv_pol w q = Some pol"
    from links_fullD(3) [OF l(2) this] obtain m page' where "net_page_at m w = Some page'" "ends pol \<subseteq> set (np_objects page')" by auto
    then show "\<exists>m page. net_page_at m ?v = Some page \<and> ends pol \<subseteq> set (np_objects page)"
      using np by (intro exI [of _ m]) (auto simp: at)
  qed (use links_fullD(1,2) [OF l(2)] in simp_all)
  moreover have "pages_ok (cv_pages ?v) (core ?v)"
    unfolding pages_ok_def sels at'
  proof (intro conjI allI impI ballI)
    show "distinct (map fst (cv_pages ?v))"
      using pages_okD(1) [OF p] np by (auto simp: add_net_page_def net_page_at_def map_of_eq_None_iff)
  next
    fix m page' assume m: "(if m = np then Some ?page else map_of (cv_pages w) m) = Some page'"
    show "distinct (np_objects page')" "inj_on (\<lambda>a. fst (the (core w a))) (set (np_objects page'))"
      using m pages_okD(2,4) [OF p] by (auto split: if_splits)
    show "core w a \<noteq> None" if "a \<in> set (np_objects page')" for a
      using m pages_okD(3) [OF p, of m page' a] that by (cases "m = np") auto
  next
    fix x t assume x: "core w x = Some t"
    show "snd t = (None, None)" using pages_okD(5) [OF p x] .
    from pages_okD(6) [OF p x] obtain m page' where m: "map_of (cv_pages w) m = Some page'" "x \<in> set (np_objects page')" by auto
    with old [OF m(1)] show "\<exists>m page. (if m = np then Some ?page else map_of (cv_pages w) m) = Some page \<and> x \<in> set (np_objects page)"
      by auto
  next
    fix m page1 m' page2 x
    assume "(if m = np then Some ?page else map_of (cv_pages w) m) = Some page1"
      "(if m' = np then Some ?page else map_of (cv_pages w) m') = Some page2"
      "x \<in> set (np_objects page1)" "x \<in> set (np_objects page2)"
    then show "m = m'" using pages_okD(7) [OF p, of m page1 m' page2 x] by (auto split: if_splits)
  qed
  ultimately show "canvas_ok ?v" by (simp add: canvas_ok_def)
  show "graph_of ?v = put_page np (graph_of w)"
    unfolding graph_of_def sels by (rule graph.equality) (auto simp: put_page_def at fun_eq_iff)
qed

lemma canvas_do_graph:
  assumes ok: "canvas_ok w" and may: "canvas_may op w"
  shows "\<exists>w'. canvas_do op w = Ret w' \<and> canvas_ok w' \<and> graph_of w' = graph_do op (graph_of w)"
proof (cases op)
  case (New_page np agent)
  then show ?thesis using add_net_page_graph [OF ok] may by simp
next
  case (Add_host q np ip name)
  then obtain a where a: "q = Some a" "cv_po w a = None" using may by auto
  show ?thesis using add_host_graph [OF ok a(2), of np ip name] Add_host a(1) by auto
next
  case (Map_objects q np a b)
  then obtain l where l: "q = Some l" "cv_pol w l = None" using may by auto
  let ?v = "np \<noteq> 0 \<and> is_valid_page_object np a w \<and> is_valid_page_object np b w \<and> a \<noteq> b"
  have v: "?v \<longleftrightarrow> np \<noteq> 0 \<and> a \<noteq> b \<and> (\<exists>h. gr_hosts (graph_of w) np = Some h \<and> {a, b} \<subseteq> dom h)"
    unfolding valid_graph [OF ok] by auto
  show ?thesis
  proof (cases ?v)
    case True
    then show ?thesis using net_page_map_graph [OF ok l(2), of np a b] v Map_objects l(1) by simp
  next
    case False
    then have "canvas_do op w = Ret w" using Map_objects l by (auto simp: net_page_map_page_objects_def)
    moreover have "graph_do op (graph_of w) = graph_of w"
      using v False unfolding Map_objects by (simp only: graph_do.simps if_False)
    ultimately show ?thesis using ok by simp
  qed
next
  case (Delete_object np a)
  show ?thesis
  proof (cases "is_valid_page_object np a w")
    case True
    then show ?thesis using page_object_delete_graph [OF ok True, of 1 False False] valid_graph [OF ok, of np a] Delete_object
      by auto
  next
    case False
    obtain page where page: "net_page_at np w = Some page" using may Delete_object by auto
    then have "canvas_do op w = Ret w" using Delete_object False by (simp add: is_valid_page_object_def One_nat_def)
    then show ?thesis using False valid_graph [OF ok, of np a] ok Delete_object by auto
  qed
next
  case (Unmap_page np)
  show ?thesis
  proof (cases "np = 0")
    case False
    then obtain page where page: "net_page_at np w = Some page" using may Unmap_page by auto
    have "core w x \<noteq> None" if "x \<in> set (np_objects page)" for x
      using ok pages_okD(3) page that unfolding canvas_ok_def net_page_at_def by blast
    then have "dom (the (gr_hosts (graph_of w) np)) = set (np_objects page)"
      using page by (auto simp: graph_of_def core_def split: if_splits)
    then show ?thesis using net_page_unmap_graph [OF ok page False] Unmap_page False by simp
  qed (use Unmap_page ok in \<open>simp add: net_page_unmap_all_def\<close>)
next
  case (Remove_page np)
  then show ?thesis using net_page_remove_graph [OF ok, of 1] by simp
qed

text \<open>What can come about from a client without pages, with the graph that is meant.\<close>

inductive canvas_reach :: "canvas \<Rightarrow> graph \<Rightarrow> bool" where
  canvas_start: "canvas_reach \<lparr>cv_po = Map.empty, cv_pol = Map.empty, cv_pages = []\<rparr> \<lparr>gr_hosts = Map.empty, gr_edges = {}\<rparr>"
| canvas_step: "canvas_reach w g \<Longrightarrow> canvas_may op w \<Longrightarrow> canvas_do op w = Ret w' \<Longrightarrow> canvas_reach w' (graph_do op g)"

lemma canvas_reach_ok: "canvas_reach w g \<Longrightarrow> canvas_ok w \<and> graph_of w = g"
proof (induction rule: canvas_reach.induct)
  case canvas_start
  then show ?case by (auto simp: canvas_ok_def links_ok_def links_full_def pages_ok_def core_def graph_of_def net_page_at_def fun_eq_iff)
next
  case (canvas_step w g op w')
  then show ?case using canvas_do_graph [of w op] by auto
qed

text \<open>
  C25. Whatever is done to the pages of the client, in any order - pages opened and removed, hosts
  added, mapped, unmapped and deleted - the lists of objects and of links are those of the graph
  that is meant: a page has the hosts that were added and not deleted, with one object for each
  address, and there is a link exactly for each pair that was mapped since and whose ends are
  still there. The next operation never uses an object or a link that was freed, and always ends.
\<close>

theorem canvas_refines_graph:
  assumes "canvas_reach w g" "canvas_may op w"
  shows "canvas_ok w \<and> graph_of w = g \<and>
    (\<exists>w'. canvas_do op w = Ret w' \<and> canvas_ok w' \<and> graph_of w' = graph_do op g)"
  using canvas_do_graph [of w op] canvas_reach_ok [OF assms(1)] assms(2) by simp

text \<open>Two hosts of a page that are mapped, and one of them deleted.\<close>

definition sample_ops :: "canvas_op list" where
  "sample_ops = [New_page 1 7, Add_host (Some 10) 1 0x0A000001 None, Add_host (Some 11) 1 0x0A000002 None,
     Map_objects (Some 20) 1 10 11]"

lemma reach_run:
  "canvas_reach w g \<Longrightarrow>
   fold (\<lambda>op r. case r of Ret w \<Rightarrow> if canvas_may op w then canvas_do op w else UB | _ \<Rightarrow> UB) ops (Ret w) = Ret w' \<Longrightarrow>
   canvas_reach w' (fold graph_do ops g)"
proof (induction ops arbitrary: w g)
  case (Cons op ops)
  let ?f = "\<lambda>op r. case r of Ret w \<Rightarrow> if canvas_may op w then canvas_do op w else UB | _ \<Rightarrow> UB"
  have stuck: "fold ?f ops r \<noteq> Ret w'" if "\<forall>v. r \<noteq> Ret v" for r ops
    using that by (induction ops arbitrary: r) (auto split: outcome.split)
  have may: "canvas_may op w"
  proof (rule ccontr)
    assume "\<not> canvas_may op w"
    then show False using Cons.prems(2) stuck [of UB ops] by simp
  qed
  obtain v where v: "canvas_do op w = Ret v"
    using canvas_do_graph [OF _ may] canvas_reach_ok [OF Cons.prems(1)] by blast
  then show ?case
    using Cons.IH [OF canvas_step [OF Cons.prems(1) may v]] Cons.prems(2) may by simp
qed simp

theorem canvas_refines_graph_witness:
  "\<exists>w w'. canvas_do (Delete_object 1 10) w = Ret w' \<and> gr_edges (graph_of w) = {{10, 11}} \<and> gr_edges (graph_of w') = {}"
proof -
  let ?f = "\<lambda>op r. case r of Ret w \<Rightarrow> if canvas_may op w then canvas_do op w else UB | _ \<Rightarrow> UB"
  let ?e = "\<lparr>cv_po = Map.empty, cv_pol = Map.empty, cv_pages = []\<rparr>" and ?g = "\<lparr>gr_hosts = Map.empty, gr_edges = {}\<rparr>"
  have run: "\<exists>w. fold ?f sample_ops (Ret ?e) = Ret w \<and> net_page_at 1 w \<noteq> None"
    by (simp add: sample_ops_def add_net_page_def net_page_at_def add_host_entry_to_net_page_def page_upd_def
        page_object_new_def deref_def net_page_map_page_objects_def is_valid_page_object_def destroy_found_def
        page_object_display_def page_object_link_get_def add_link_def po_upd_def Let_def)
  then obtain w where w: "fold ?f sample_ops (Ret ?e) = Ret w" "net_page_at 1 w \<noteq> None" by blast
  let ?G = "fold graph_do sample_ops ?g"
  have reach: "canvas_reach w ?G" by (rule reach_run [OF canvas_start w(1)])
  have may: "canvas_may (Delete_object 1 10) w" using w(2) by simp
  have edges: "gr_edges ?G = {{10, 11}}" "gr_hosts ?G 1 = Some [10 \<mapsto> 0x0A000001, 11 \<mapsto> 0x0A000002]"
    by (auto simp: sample_ops_def put_page_def put_host_def ran_def)
  have "gr_edges (graph_do (Delete_object 1 10) ?G) = {}"
    using edges by (simp add: drop_host_def)
  then show ?thesis using canvas_refines_graph [OF reach may] edges(1) by metis
qed

end
