(* ===== verification/Gui_Requests.thy ===== *)
theory Gui_Requests
  imports Canvas_Graph Registry Discover
begin

text \<open>
  What the client asks for: the requests of \<^verbatim>\<open>gui-handlers.c\<close> and the queue of name lookups of
  \<^verbatim>\<open>gui-dns.c\<close> that stands between a host name and the request for it.

  The pages are those of \<^theory_text>\<open>Canvas\<close>, the connections those of \<^theory_text>\<open>Event\<close>. The options
  are the globals of \<^verbatim>\<open>gui-settings.c\<close>. A callback and a timeout are constructors, a \<^verbatim>\<open>discover_dns\<close>
  and a \<^verbatim>\<open>dns_query\<close> are at an address. Arguments are: what \<^verbatim>\<open>write\<close> returns, what \<^verbatim>\<open>malloc\<close>
  returns for each kind of object, the answer to the question of \<^verbatim>\<open>dns_timeout\<close>, the number
  of a timer, \<^verbatim>\<open>getservbyport\<close>, and what the static event buffer holds where a request does not
  set it. The events of the window system that the client lets in while it waits are left out.
\<close>

section \<open>State\<close>

record gui_options =
  go_rescan_at_startup :: bool
  go_operating_system_check :: bool
  go_map :: bool
  go_reverse_dns :: bool
  go_probe_ports :: bool
  go_os_scan_ports :: cstring
  go_os_scan_flags :: u32
  go_probe_timeout :: u32

record discover_dns =
  dd_start :: "cstring option"
  dd_end :: "cstring option"
  dd_start_ip :: u32
  dd_end_ip :: u32
  dd_flags :: u32
  dd_np :: u64
  dd_a :: nat

datatype dns_answer_cb =
    DO_HOST_DISCOVER_AFTER_DNS
  | DO_NETWORK_DISCOVER_AFTER_DNS
  | DO_DISCOVER_RANGE_AFTER_FIRST_DNS
  | DO_DISCOVER_RANGE_AFTER_LAST_DNS
  | REVERSE_LOOKUP_CB

datatype dns_timeout_cb = DNS_TIMEOUT

datatype dns_query_kind = DNS_QUERY_FLAGS_NAME | DNS_QUERY_FLAGS_REVERSE

record dns_query =
  dq_hostname :: "cstring option"
  dq_ip :: "cstring option"
  dq_timeout_cb :: "dns_timeout_cb option"
  dq_answer_cb :: dns_answer_cb
  dq_flags :: dns_query_kind
  dq_data :: nat

record 'h gui_world =
  gw_cv :: canvas
  gw_ev :: "'h ev_state"
  gw_ip_cache :: "(u32 \<times> cstring) list"
  gw_dd :: "nat \<Rightarrow> discover_dns option"
  gw_dns :: "(nat \<times> dns_query) list"
  gw_dns_timer :: int
  gw_services :: "service_cache list"

record gui_env =
  ge_write :: "int \<Rightarrow> u8 list \<Rightarrow> int"
  ge_opts :: gui_options
  ge_stale :: "nat \<Rightarrow> u8 list"
  ge_po :: "canvas \<Rightarrow> nat option"
  ge_link :: "canvas \<Rightarrow> nat option"
  ge_dd :: "(nat \<Rightarrow> discover_dns option) \<Rightarrow> nat option"
  ge_query :: "(nat \<times> dns_query) list \<Rightarrow> nat option"
  ge_yes :: bool
  ge_timer :: int
  ge_getservbyport :: "u16 \<Rightarrow> cstring option"

definition DISCOVER_DNS_FLAGS_NETWORK :: u32 where "DISCOVER_DNS_FLAGS_NETWORK = 1"
definition DISCOVER_DNS_FLAGS_USED_DNS :: u32 where "DISCOVER_DNS_FLAGS_USED_DNS = 2"

section \<open>The names of discovered hosts\<close>

definition add_ip_cache :: "u32 \<Rightarrow> cstring \<Rightarrow> (u32 \<times> cstring) list \<Rightarrow> (u32 \<times> cstring) list" where
  "add_ip_cache ip name c = (ip, name) # c"

definition get_ip_cache :: "u32 \<Rightarrow> (u32 \<times> cstring) list \<Rightarrow> cstring option \<times> (u32 \<times> cstring) list" where
  "get_ip_cache ip c = (map_of c ip, remove_first (\<lambda>(k, name). k = ip) c)"

section \<open>Queries\<close>

definition dns_loop :: "gui_env \<Rightarrow> 'h gui_world \<Rightarrow> 'h gui_world" where
  "dns_loop env w = (if gw_dns_timer w < 0 then w\<lparr>gw_dns_timer := ge_timer env\<rparr> else w)"

definition dns_name_lookup ::
  "gui_env \<Rightarrow> cstring \<Rightarrow> dns_answer_cb \<Rightarrow> dns_timeout_cb option \<Rightarrow> nat \<Rightarrow> 'h gui_world \<Rightarrow> 'h gui_world outcome" where
  "dns_name_lookup env hostname answer_cb timeout_cb data w =
     (case ge_query env (gw_dns w) of
        None \<Rightarrow> UB
      | Some q \<Rightarrow> Ret (dns_loop env (w\<lparr>gw_dns :=
          (q, \<lparr>dq_hostname = Some hostname, dq_ip = None, dq_timeout_cb = timeout_cb, dq_answer_cb = answer_cb,
               dq_flags = DNS_QUERY_FLAGS_NAME, dq_data = data\<rparr>) # gw_dns w\<rparr>)))"

text \<open>A text that is no address is dropped, with its query.\<close>

definition dns_reverse_lookup ::
  "gui_env \<Rightarrow> cstring \<Rightarrow> dns_answer_cb \<Rightarrow> dns_timeout_cb option \<Rightarrow> nat \<Rightarrow> 'h gui_world \<Rightarrow> 'h gui_world outcome" where
  "dns_reverse_lookup env ip answer_cb timeout_cb data w =
     (case ge_query env (gw_dns w) of
        None \<Rightarrow> UB
      | Some q \<Rightarrow>
          if inet_aton ip = None then Ret w
          else Ret (dns_loop env (w\<lparr>gw_dns :=
          (q, \<lparr>dq_hostname = None, dq_ip = Some ip, dq_timeout_cb = timeout_cb, dq_answer_cb = answer_cb,
               dq_flags = DNS_QUERY_FLAGS_REVERSE, dq_data = data\<rparr>) # gw_dns w\<rparr>)))"

section \<open>Requests for addresses\<close>

text \<open>
  The start and the end are in host order in the memory of the client and stored as they are:
  the bytes of the network on the wire come last first.
\<close>

definition discover_event :: "gui_env \<Rightarrow> discover_dns \<Rightarrow> u8 list" where
  "discover_event env dd =
     mk_event EVENT_DISCOVER_IPV4 0
       (le32 (dd_start_ip dd) @ le32 (dd_end_ip dd) @ le32 0 @ ge_stale env 4 @ ptr_bytes (dd_np dd))"

definition send_discover_request :: "gui_env \<Rightarrow> nat \<Rightarrow> 'h gui_world \<Rightarrow> (int \<times> 'h gui_world) outcome" where
  "send_discover_request env d w =
     obind (deref (gw_dd w) d) (\<lambda>dd.
     let c = (case dd_start dd of
                None \<Rightarrow> gw_ip_cache w
              | Some name \<Rightarrow> add_ip_cache (bswap32 (dd_start_ip dd)) name (gw_ip_cache w))
     in obind (event_send (ge_write env) (dd_a dd) (discover_event env dd) (gw_ev w)) (\<lambda>(res, ev).
          Ret (if res < 0 then -1 else 0, w\<lparr>gw_ip_cache := c, gw_ev := ev\<rparr>)))"

definition dd_upd :: "nat \<Rightarrow> (discover_dns \<Rightarrow> discover_dns) \<Rightarrow> 'h gui_world \<Rightarrow> 'h gui_world outcome" where
  "dd_upd d f w = obind (deref (gw_dd w) d) (\<lambda>dd. Ret (w\<lparr>gw_dd := (gw_dd w)(d \<mapsto> f dd)\<rparr>))"

definition free_dd :: "nat \<Rightarrow> 'h gui_world \<Rightarrow> 'h gui_world" where
  "free_dd d w = w\<lparr>gw_dd := (gw_dd w)(d := None)\<rparr>"

text \<open>The two addresses are set, the request is sent and the \<^verbatim>\<open>discover_dns\<close> is freed.\<close>

definition discover_and_free :: "gui_env \<Rightarrow> nat \<Rightarrow> (discover_dns \<Rightarrow> discover_dns) \<Rightarrow> 'h gui_world \<Rightarrow> 'h gui_world outcome" where
  "discover_and_free env d f w =
     obind (dd_upd d f w) (\<lambda>w. obind (send_discover_request env d w) (\<lambda>(r, w). Ret (free_dd d w)))"

definition do_host_discover_after_dns :: "gui_env \<Rightarrow> cstring \<Rightarrow> nat \<Rightarrow> 'h gui_world \<Rightarrow> 'h gui_world outcome" where
  "do_host_discover_after_dns env ip d w =
     (case inet_aton ip of
        Some addr \<Rightarrow>
          discover_and_free env d (\<lambda>dd. dd\<lparr>dd_start_ip := bswap32 addr, dd_end_ip := bswap32 addr\<rparr>) w
      | None \<Rightarrow> Ret (free_dd d w))"

text \<open>The mask of the second part, which is a netmask or a number of bits.\<close>

definition netmask :: "cstring \<Rightarrow> u32 option" where
  "netmask text =
     (case inet_aton text of
        Some m \<Rightarrow>
          if \<not> bswap32 m < 0x80000000 \<and> allones (bswap32 m) = Some 1 then Some (bswap32 m)
          else if atoi text > 32 \<or> atoi text < 1 then None
          else Some (push_bit (nat (32 - atoi text)) (drop_bit (nat (32 - atoi text)) 0xffffffff))
      | None \<Rightarrow>
          if atoi text > 32 \<or> atoi text < 1 then None
          else Some (push_bit (nat (32 - atoi text)) (drop_bit (nat (32 - atoi text)) 0xffffffff)))"

text \<open>With an invalid netmask nothing is freed.\<close>

definition do_network_discover_after_dns :: "gui_env \<Rightarrow> cstring \<Rightarrow> nat \<Rightarrow> 'h gui_world \<Rightarrow> 'h gui_world outcome" where
  "do_network_discover_after_dns env ip d w =
     (case inet_aton ip of
        Some addr \<Rightarrow>
          obind (deref (gw_dd w) d) (\<lambda>dd.
            case dd_end dd of
              None \<Rightarrow> UB
            | Some text \<Rightarrow>
                (case netmask text of
                   None \<Rightarrow> Ret w
                 | Some m \<Rightarrow>
                     discover_and_free env d (\<lambda>dd. dd\<lparr>dd_start_ip := bswap32 addr AND m,
                         dd_end_ip := bswap32 addr AND m OR NOT m\<rparr>) w))
      | None \<Rightarrow> Ret (free_dd d w))"

text \<open>The comparison converts the addresses once more, so that it is of the wrong order.\<close>

definition range_swap :: "discover_dns \<Rightarrow> discover_dns" where
  "range_swap dd =
     (if bswap32 (dd_start_ip dd) > bswap32 (dd_end_ip dd)
      then dd\<lparr>dd_start_ip := dd_end_ip dd, dd_end_ip := dd_start_ip dd, dd_start := dd_end dd, dd_end := dd_start dd\<rparr>
      else dd)"

definition do_discover_range_after_last_dns :: "gui_env \<Rightarrow> cstring \<Rightarrow> nat \<Rightarrow> 'h gui_world \<Rightarrow> 'h gui_world outcome" where
  "do_discover_range_after_last_dns env ip d w =
     (case inet_aton ip of
        Some addr \<Rightarrow> discover_and_free env d (\<lambda>dd. range_swap (dd\<lparr>dd_end_ip := bswap32 addr\<rparr>)) w
      | None \<Rightarrow> Ret (free_dd d w))"

definition do_discover_range_after_first_dns :: "gui_env \<Rightarrow> cstring \<Rightarrow> nat \<Rightarrow> 'h gui_world \<Rightarrow> 'h gui_world outcome" where
  "do_discover_range_after_first_dns env ip d w =
     (case inet_aton ip of
        Some addr \<Rightarrow>
          obind (dd_upd d (\<lambda>dd. dd\<lparr>dd_start_ip := bswap32 addr\<rparr>) w) (\<lambda>w.
          obind (deref (gw_dd w) d) (\<lambda>dd.
            case dd_end dd of
              None \<Rightarrow> UB
            | Some text \<Rightarrow>
                (case inet_aton text of
                   None \<Rightarrow>
                     obind (dd_upd d (\<lambda>dd. dd\<lparr>dd_flags := dd_flags dd OR DISCOVER_DNS_FLAGS_USED_DNS\<rparr>) w)
                       (dns_name_lookup env text DO_DISCOVER_RANGE_AFTER_LAST_DNS (Some DNS_TIMEOUT) d)
                 | Some b \<Rightarrow>
                     obind (dd_upd d (\<lambda>dd. dd\<lparr>dd_end_ip := b\<rparr>) w)
                       (do_discover_range_after_last_dns env text d))))
      | None \<Rightarrow> Ret (free_dd d w))"

text \<open>The text of the question has a buffer of 256 bytes.\<close>

definition dns_question :: "cstring \<Rightarrow> cstring" where
  "dns_question name =
     ''I could not get an IP address for '' @ [CHR 0x27] @ name @ [CHR 0x27] @ ''. Do you want me to try it again?''"

definition dns_timeout :: "gui_env \<Rightarrow> nat \<Rightarrow> 'h gui_world \<Rightarrow> 'h gui_world outcome" where
  "dns_timeout env d w =
     obind (deref (gw_dd w) d) (\<lambda>dd.
       case dd_start dd of
         None \<Rightarrow> UB
       | Some name \<Rightarrow>
           if length (dns_question name) \<ge> 256 then UB
           else if ge_yes env
           then dns_name_lookup env name
                  (if dd_flags dd AND DISCOVER_DNS_FLAGS_NETWORK \<noteq> 0 then DO_NETWORK_DISCOVER_AFTER_DNS
                   else DO_HOST_DISCOVER_AFTER_DNS) (Some DNS_TIMEOUT) d w
           else Ret (free_dd d w))"

definition new_dd :: "gui_env \<Rightarrow> nat \<Rightarrow> u64 \<Rightarrow> 'h gui_world \<Rightarrow> (nat \<times> 'h gui_world) outcome" where
  "new_dd env a np w =
     (case ge_dd env (gw_dd w) of
        None \<Rightarrow> UB
      | Some d \<Rightarrow> Ret (d, w\<lparr>gw_dd := (gw_dd w)(d \<mapsto>
          \<lparr>dd_start = None, dd_end = None, dd_start_ip = 0, dd_end_ip = 0, dd_flags = 0, dd_np = np, dd_a = a\<rparr>)\<rparr>))"

definition do_discover :: "gui_env \<Rightarrow> nat \<Rightarrow> cstring \<Rightarrow> u64 \<Rightarrow> 'h gui_world \<Rightarrow> 'h gui_world outcome" where
  "do_discover env a host np w =
     obind (new_dd env a np w) (\<lambda>(d, w).
     if CHR ''/'' \<in> set host
     then
       let name = takeWhile (\<lambda>c. c \<noteq> CHR ''/'') host; c = tl (dropWhile (\<lambda>c. c \<noteq> CHR ''/'') host) in
       (case inet_aton name of
          None \<Rightarrow>
            obind (dd_upd d (\<lambda>dd. dd\<lparr>dd_end := Some c, dd_start := Some name,
                     dd_flags := dd_flags dd OR DISCOVER_DNS_FLAGS_NETWORK OR DISCOVER_DNS_FLAGS_USED_DNS\<rparr>) w)
              (dns_name_lookup env name DO_NETWORK_DISCOVER_AFTER_DNS (Some DNS_TIMEOUT) d)
        | Some b \<Rightarrow>
            obind (dd_upd d (\<lambda>dd. dd\<lparr>dd_end := Some c, dd_start := Some name, dd_start_ip := b,
                     dd_flags := dd_flags dd OR DISCOVER_DNS_FLAGS_NETWORK\<rparr>) w)
              (do_network_discover_after_dns env name d))
     else
       (case inet_aton host of
          None \<Rightarrow>
            obind (dd_upd d (\<lambda>dd. dd\<lparr>dd_start := Some host, dd_flags := dd_flags dd OR DISCOVER_DNS_FLAGS_USED_DNS\<rparr>) w)
              (dns_name_lookup env host DO_HOST_DISCOVER_AFTER_DNS (Some DNS_TIMEOUT) d)
        | Some b \<Rightarrow>
            obind (dd_upd d (\<lambda>dd. dd\<lparr>dd_start_ip := b\<rparr>) w) (do_host_discover_after_dns env host d)))"

definition do_discover_range :: "gui_env \<Rightarrow> nat \<Rightarrow> cstring \<Rightarrow> cstring \<Rightarrow> u64 \<Rightarrow> 'h gui_world \<Rightarrow> 'h gui_world outcome" where
  "do_discover_range env a first final np w =
     obind (new_dd env a np w) (\<lambda>(d, w).
     obind (dd_upd d (\<lambda>dd. dd\<lparr>dd_start := Some first, dd_end := Some final\<rparr>) w) (\<lambda>w.
       case inet_aton first of
         None \<Rightarrow>
           obind (dd_upd d (\<lambda>dd. dd\<lparr>dd_flags := dd_flags dd OR DISCOVER_DNS_FLAGS_USED_DNS\<rparr>) w)
             (dns_name_lookup env first DO_DISCOVER_RANGE_AFTER_FIRST_DNS (Some DNS_TIMEOUT) d)
       | Some b \<Rightarrow>
           obind (dd_upd d (\<lambda>dd. dd\<lparr>dd_start_ip := b\<rparr>) w) (do_discover_range_after_first_dns env first d)))"

section \<open>The other requests\<close>

definition send_request :: "gui_env \<Rightarrow> nat \<Rightarrow> u8 list \<Rightarrow> 'h gui_world \<Rightarrow> 'h gui_world outcome" where
  "send_request env a e w = obind (event_send (ge_write env) a e (gw_ev w)) (\<lambda>(res, ev). Ret (w\<lparr>gw_ev := ev\<rparr>))"

text \<open>The length of the request does not count the NUL of the ports.\<close>

definition do_os_scan :: "gui_env \<Rightarrow> nat \<Rightarrow> u32 \<Rightarrow> u64 \<Rightarrow> u32 \<Rightarrow> 'h gui_world \<Rightarrow> 'h gui_world outcome" where
  "do_os_scan env a ip np flags =
     send_request env a (mk_event EVENT_OS_SCAN (bswap32 flags)
       (be32 (go_os_scan_flags (ge_opts env)) @ be32 ip @ ptr_bytes np @ map byte_of_char (go_os_scan_ports (ge_opts env))))"

definition do_map_icmp :: "gui_env \<Rightarrow> nat \<Rightarrow> u32 \<Rightarrow> u64 \<Rightarrow> 'h gui_world \<Rightarrow> 'h gui_world outcome" where
  "do_map_icmp env a ip np =
     send_request env a (mk_event EVENT_MAP_ICMP 0 (be32 ip @ ge_stale env 4 @ ptr_bytes np))"

definition do_probe :: "gui_env \<Rightarrow> nat \<Rightarrow> u32 \<Rightarrow> u16 \<Rightarrow> u32 \<Rightarrow> u64 \<Rightarrow> 'h gui_world \<Rightarrow> 'h gui_world outcome" where
  "do_probe env a ip port timeout_ms np =
     send_request env a (mk_event EVENT_PROBE 0
       (be32 ip @ be16 port @ ge_stale env 2 @ be32 timeout_ms @ ge_stale env 4 @ ptr_bytes np))"

text \<open>What \<^verbatim>\<open>strcpy\<close> leaves of the bytes \<open>xs\<close> at \<open>i\<close>.\<close>

definition overlay :: "u8 list \<Rightarrow> nat \<Rightarrow> u8 list \<Rightarrow> u8 list" where
  "overlay xs i bs = take i xs @ bs @ drop (i + length bs) xs"

text \<open>The length is that of another request, so that only 16 bytes of the name are sent.\<close>

definition do_dns_request_scan :: "gui_env \<Rightarrow> nat \<Rightarrow> cstring \<Rightarrow> u32 \<Rightarrow> 'h gui_world \<Rightarrow> 'h gui_world outcome" where
  "do_dns_request_scan env a host flags w =
     (if length host \<ge> 256 then UB
      else send_request env a (mk_event EVENT_DNS_QUERY (bswap32 flags)
             (take 24 (overlay (ge_stale env 264) 8 (cstr_bytes host)))) w)"

definition send_auth_request :: "gui_env \<Rightarrow> nat \<Rightarrow> cstring \<Rightarrow> cstring \<Rightarrow> 'h gui_world \<Rightarrow> 'h gui_world outcome" where
  "send_auth_request env a username password w =
     (if length username \<ge> 35 \<or> length password \<ge> 35 then UB
      else send_request env a (mk_event EVENT_AUTH_REQUEST 0
             (overlay (overlay (ge_stale env 70) 0 (cstr_bytes username)) 35 (cstr_bytes password))) w)"

section \<open>Answers of the resolver\<close>

text \<open>
  An answer of \<^verbatim>\<open>adns_check\<close>. A name is behind the pointer to it, where \<^verbatim>\<open>adns\<close> puts it;
  the client takes the text from the fifth byte of the pointer on.
\<close>

datatype adns_answer = Adns_addr u32 | Adns_str u64 cstring | Adns_failed

definition reverse_lookup_cb :: "cstring option \<Rightarrow> cstring option \<Rightarrow> nat \<Rightarrow> 'h gui_world \<Rightarrow> 'h gui_world outcome" where
  "reverse_lookup_cb ip hostname p w =
     obind (deref (cv_po (gw_cv w)) p) (\<lambda>po.
       case (ip, hostname) of
         (Some i, Some h) \<Rightarrow>
           if dotted (po_ip po) = i
           then obind (po_upd p (\<lambda>po. po\<lparr>po_name := Some h\<rparr>) (gw_cv w)) (\<lambda>cv.
                obind (page_object_display p cv) (\<lambda>cv. Ret (w\<lparr>gw_cv := cv\<rparr>)))
           else Ret w
       | _ \<Rightarrow> UB)"

definition run_answer_cb ::
  "gui_env \<Rightarrow> dns_answer_cb \<Rightarrow> cstring option \<Rightarrow> cstring option \<Rightarrow> nat \<Rightarrow> 'h gui_world \<Rightarrow> 'h gui_world outcome" where
  "run_answer_cb env cb ip hostname data w =
     (case cb of
        REVERSE_LOOKUP_CB \<Rightarrow> reverse_lookup_cb ip hostname data w
      | _ \<Rightarrow>
          (case ip of
             None \<Rightarrow> UB
           | Some i \<Rightarrow>
               (case cb of
                  DO_HOST_DISCOVER_AFTER_DNS \<Rightarrow> do_host_discover_after_dns env i data w
                | DO_NETWORK_DISCOVER_AFTER_DNS \<Rightarrow> do_network_discover_after_dns env i data w
                | DO_DISCOVER_RANGE_AFTER_FIRST_DNS \<Rightarrow> do_discover_range_after_first_dns env i data w
                | _ \<Rightarrow> do_discover_range_after_last_dns env i data w)))"

text \<open>
  The timer: the query of the first answer is taken off the list, its callback or its timeout
  is called, and without queries the timer ends.
\<close>

definition dns_timer :: "gui_env \<Rightarrow> (nat \<times> adns_answer) option \<Rightarrow> 'h gui_world \<Rightarrow> (int \<times> 'h gui_world) outcome" where
  "dns_timer env answer w =
     obind (case answer of
              None \<Rightarrow> Ret w
            | Some (q, ans) \<Rightarrow>
                obind (deref (map_of (gw_dns w)) q) (\<lambda>dq.
                let w = w\<lparr>gw_dns := remove_first (\<lambda>(k, d). k = q) (gw_dns w)\<rparr> in
                case (ans, dq_flags dq) of
                  (Adns_failed, _) \<Rightarrow>
                    (case dq_timeout_cb dq of None \<Rightarrow> Ret w | Some DNS_TIMEOUT \<Rightarrow> dns_timeout env (dq_data dq) w)
                | (Adns_addr x, DNS_QUERY_FLAGS_NAME) \<Rightarrow>
                    run_answer_cb env (dq_answer_cb dq) (Some (dotted x)) (dq_hostname dq) (dq_data dq) w
                | (Adns_str ptr name, DNS_QUERY_FLAGS_REVERSE) \<Rightarrow>
                    run_answer_cb env (dq_answer_cb dq) (dq_ip dq)
                      (Some (bytes_cstr (drop 4 (ptr_bytes ptr @ cstr_bytes name)))) (dq_data dq) w
                | _ \<Rightarrow> UB))
       (\<lambda>w. Ret (if gw_dns w = [] then (0, w\<lparr>gw_dns_timer := -1\<rparr>) else (1, w)))"

section \<open>The range of a network\<close>

lemma be32_bswap32: "be32 (bswap32 x) = le32 x"
proof -
  have "le32 x = [ucast x, ucast (drop_bit 8 x), ucast (drop_bit 16 x), ucast (drop_bit 24 x)]"
    by (simp add: le32_def be32_def)
  then show ?thesis unfolding bswap32_def by (simp only: bytes_of_be32)
qed

text \<open>A connection over which everything that is written gets through.\<close>

definition gui_link :: "gui_env \<Rightarrow> nat \<Rightarrow> int \<Rightarrow> 'h ev_state \<Rightarrow> bool" where
  "gui_link env a s ev \<longleftrightarrow> a \<in> set (agents ev) \<and>
     (\<exists>ag. aheap ev a = Some ag \<and> ag_s ag = s \<and>
        (ag_type ag = AGENT_TYPE_LOCAL \<or> ag_type ag = AGENT_TYPE_IPV4)) \<and>
     (\<forall>bs. ge_write env s bs = int (length bs))"

lemma gui_send:
  assumes "gui_link env a s ev" "length body < 65536"
  shows "event_send (ge_write env) a (mk_event ty fl body) ev =
    Ret (int (length body) + 12, sent_to s [mk_event ty fl body] ev)"
proof -
  from assms(1) obtain ag where ag: "a \<in> set (agents ev)" "aheap ev a = Some ag" "ag_s ag = s"
    "ag_type ag = AGENT_TYPE_LOCAL \<or> ag_type ag = AGENT_TYPE_IPV4"
    "\<And>bs. ge_write env s bs = int (length bs)" unfolding gui_link_def by blast
  have "unat (word_of_nat (12 + length body) :: u32) = 12 + length body"
    using assms(2) by (simp del: of_nat_add add: unat_of_nat)
  then have "unat (h_len (hdr_of (mk_event ty fl body))) = length (mk_event ty fl body)"
    by (simp add: mk_event_def del: of_nat_add)
  moreover have "nat (12 + int (length body)) = 12 + length body" "mk_event ty fl body \<noteq> []"
    by (simp_all add: nat_add_distrib mk_event_def hdr_bytes_def be32_def)
  ultimately show ?thesis
    using ag by (simp add: event_send_def agent_write_def deref_def sent_to_def Let_def)
qed

lemma gui_link_sent [simp]: "gui_link env a s (sent_to t ms ev) = gui_link env a s ev"
  by (simp add: gui_link_def)

text \<open>Whatever text gives a netmask, the netmask is one of the prefixes from 1 to 32 bits.\<close>

lemma netmask_prefix:
  assumes "netmask text = Some m"
  obtains k where "1 \<le> k" "k \<le> 32" "m = prefix_mask k"
proof -
  have "\<exists>k. 1 \<le> k \<and> k \<le> 32 \<and> m = prefix_mask k"
  proof (cases "\<exists>b. inet_aton text = Some b \<and> \<not> bswap32 b < 0x80000000 \<and> allones (bswap32 b) = Some 1")
    case True
    then obtain b where b: "inet_aton text = Some b" "\<not> bswap32 b < 0x80000000" "allones (bswap32 b) = Some 1" by blast
    then have m: "m = bswap32 b" using assms by (simp add: netmask_def)
    from b(3) obtain k where k: "k \<le> 32" "bswap32 b = prefix_mask k" by (auto simp: allones_prefix split: if_splits)
    have "k \<noteq> 0"
    proof
      assume "k = 0"
      then have "bswap32 b = 0" using k(2) by (simp add: prefix_mask_def)
      then show False using b(2) by simp
    qed
    then show ?thesis using k m by (intro exI [of _ k]) auto
  next
    case False
    then have "1 \<le> atoi text" "atoi text \<le> 32"
      "m = push_bit (nat (32 - atoi text)) (drop_bit (nat (32 - atoi text)) 0xffffffff)"
      using assms by (auto simp: netmask_def split: option.splits if_splits)
    moreover have "push_bit (32 - k) (drop_bit (32 - k) (0xffffffff :: u32)) = prefix_mask k" if "k \<le> 32" for k
    proof -
      have full: "(0xffffffff :: u32) = mask 32" by (simp add: mask_eq_exp_minus_1)
      show ?thesis using that unfolding full by (intro bit_word_eqI) (auto simp: prefix_mask_def bit_simps)
    qed
    ultimately show ?thesis by (intro exI [of _ "nat (atoi text)"]) (auto simp: nat_diff_distrib)
  qed
  then show thesis using that by blast
qed

lemma slash_parts:
  assumes "CHR ''/'' \<notin> set name"
  shows "takeWhile (\<lambda>c. c \<noteq> CHR ''/'') (name @ CHR ''/'' # text) = name"
    "tl (dropWhile (\<lambda>c. c \<noteq> CHR ''/'') (name @ CHR ''/'' # text)) = text"
proof -
  have "\<forall>c \<in> set name. c \<noteq> CHR ''/''" using assms by auto
  then show "takeWhile (\<lambda>c. c \<noteq> CHR ''/'') (name @ CHR ''/'' # text) = name"
    "tl (dropWhile (\<lambda>c. c \<noteq> CHR ''/'') (name @ CHR ''/'' # text)) = text"
    by (simp_all add: takeWhile_append2 dropWhile_append2)
qed

text \<open>The event that a network gives, and what is left in the client.\<close>

lemma do_discover_network:
  assumes name: "CHR ''/'' \<notin> set name" "inet_aton name = Some addr" and m: "netmask text = Some m"
    and link: "gui_link env a s (gw_ev w)" and d: "ge_dd env (gw_dd w) = Some d" "gw_dd w d = None"
    and stale: "length (ge_stale env 4) = 4"
  shows "\<exists>w'. do_discover env a (name @ CHR ''/'' # text) np w = Ret w' \<and> gw_dd w' = gw_dd w \<and>
    gw_cv w' = gw_cv w \<and> gw_dns w' = gw_dns w \<and>
    gw_ip_cache w' = (bswap32 (bswap32 addr AND m), name) # gw_ip_cache w \<and>
    gw_ev w' = sent_to s [mk_event EVENT_DISCOVER_IPV4 0 (be32 (bswap32 (bswap32 addr AND m)) @
      be32 (bswap32 (bswap32 addr AND m OR NOT m)) @ (le32 0 @ ge_stale env 4) @ ptr_bytes np)] (gw_ev w)"
proof -
  have "length (le32 x) = 4" for x by (simp add: le32_def be32_def)
  then show ?thesis
    using link d stale slash_parts [OF name(1)] name(2) m
    by (auto simp: do_discover_def new_dd_def dd_upd_def deref_def do_network_discover_after_dns_def
        discover_and_free_def send_discover_request_def discover_event_def gui_send be32_bswap32 free_dd_def
        add_ip_cache_def Let_def)
qed

text \<open>
  C26. A network is discovered exactly: when the user asks for an address and a netmask, given as
  such or as a number of bits, the mask is one of the prefixes from 1 to 32 bits, the one
  request that is sent makes the agent queue the range from \<open>lo\<close> to \<open>hi\<close>, the addresses of this
  range are those of the network and no others, and the client has freed what it allocated
  and has the name ready for the first address.
\<close>

theorem network_discovered_exactly:
  assumes "CHR ''/'' \<notin> set name" "inet_aton name = Some addr" "netmask text = Some m"
    "gui_link env a s (gw_ev w)" "ge_dd env (gw_dd w) = Some d" "gw_dd w d = None" "length (ge_stale env 4) = 4"
    "bswap32 addr AND m \<noteq> 0" "pe_malloc penv = Some p"
  shows "\<exists>k w' body lo hi i pw'. 1 \<le> k \<and> k \<le> 32 \<and> m = prefix_mask k \<and>
    do_discover env a (name @ CHR ''/'' # text) np w = Ret w' \<and> gw_dd w' = gw_dd w \<and>
    gw_ip_cache w' = (bswap32 lo, name) # gw_ip_cache w \<and>
    ev_sent (gw_ev w') = ev_sent (gw_ev w) @ [(s, mk_event EVENT_DISCOVER_IPV4 0 body)] \<and>
    handle_discover_request penv h body ag pw = Ret (-1, pw') \<and>
    pheap pw' = (pheap pw)(p \<mapsto> range_entry h lo hi np ag\<lparr>pq_desched := i\<rparr>) \<and> pingQ pw' = p # pingQ pw \<and>
    (\<forall>x. lo \<le> x \<and> x \<le> hi \<longleftrightarrow> x AND m = bswap32 addr AND m)"
proof -
  let ?lo = "bswap32 addr AND m" and ?hi = "bswap32 addr AND m OR NOT m"
  let ?pad = "le32 0 @ ge_stale env 4"
  obtain k where k: "1 \<le> k" "k \<le> 32" "m = prefix_mask k" using netmask_prefix [OF assms(3)] .
  have range: "?lo \<le> x \<and> x \<le> ?hi \<longleftrightarrow> x AND m = ?lo" for x
    using network_range [OF k(2)] unfolding k(3) by simp
  have "?lo AND m = ?lo" by (simp add: and.assoc)
  then have "?lo \<le> ?hi" using range [of ?lo] by simp
  moreover have "0 < ?lo" using assms(8) by (simp add: word_gt_0)
  moreover have "length ?pad = 8" using assms(7) by (simp add: le32_def be32_def)
  ultimately obtain pw' i where pw: "handle_discover_request penv h
      (be32 (bswap32 ?lo) @ be32 (bswap32 ?hi) @ ?pad @ ptr_bytes np) ag pw = Ret (-1, pw')"
    "pingQ pw' = p # pingQ pw" "pheap pw' = (pheap pw)(p \<mapsto> range_entry h ?lo ?hi np ag\<lparr>pq_desched := i\<rparr>)"
    using discover_request_queued [of ?lo ?hi penv p ?pad h np ag pw] assms(9) by auto
  obtain w' where w: "do_discover env a (name @ CHR ''/'' # text) np w = Ret w'" "gw_dd w' = gw_dd w"
    "gw_ip_cache w' = (bswap32 ?lo, name) # gw_ip_cache w"
    "gw_ev w' = sent_to s [mk_event EVENT_DISCOVER_IPV4 0
      (be32 (bswap32 ?lo) @ be32 (bswap32 ?hi) @ ?pad @ ptr_bytes np)] (gw_ev w)"
    using do_discover_network [OF assms(1-7), of np] by blast
  show ?thesis
    by (intro exI [of _ k] exI [of _ w'] exI [of _ "be32 (bswap32 ?lo) @ be32 (bswap32 ?hi) @ ?pad @ ptr_bytes np"]
        exI [of _ ?lo] exI [of _ ?hi] exI [of _ i] exI [of _ pw'] conjI allI range k w pw) (simp add: w(4))
qed

text \<open>Of two addresses the client takes for the larger the one whose last byte is the larger.\<close>

lemma range_swapped: "range_swap \<lparr>dd_start = None, dd_end = None, dd_start_ip = 0x0A000001, dd_end_ip = 0x0A000100,
     dd_flags = 0, dd_np = 1, dd_a = 7\<rparr> =
   \<lparr>dd_start = None, dd_end = None, dd_start_ip = 0x0A000100, dd_end_ip = 0x0A000001, dd_flags = 0, dd_np = 1, dd_a = 7\<rparr>"
  by (simp add: range_swap_def) code_simp

text \<open>An object that is deleted while its name is looked up is used when the answer comes.\<close>

lemma lookup_of_deleted: "cv_po (gw_cv w) p = None \<Longrightarrow> reverse_lookup_cb ip name p w = UB"
  by (simp add: reverse_lookup_cb_def deref_def)

text \<open>A name is read from the middle of the pointer to it.\<close>

lemma reverse_name_lost:
  "map byte_of_char (bytes_cstr (drop 4 (ptr_bytes 0x00007F0012345678 @ cstr_bytes ''host''))) = []"
  by code_simp

text \<open>An example: a client with one page and a connection, and an allocator that counts up.\<close>

definition canvas_objects :: "canvas \<Rightarrow> nat list" where
  "canvas_objects cv = concat (map (\<lambda>(np, page). np_objects page) (cv_pages cv))"

definition canvas_links :: "canvas \<Rightarrow> nat \<Rightarrow> nat list" where
  "canvas_links cv a = (case cv_po cv a of None \<Rightarrow> [] | Some p \<Rightarrow> po_links p)"

definition sample_gui_env :: gui_env where
  "sample_gui_env =
     \<lparr>ge_write = \<lambda>_ bs. int (length bs),
      ge_opts = \<lparr>go_rescan_at_startup = False, go_operating_system_check = True, go_map = True, go_reverse_dns = True,
        go_probe_ports = True, go_os_scan_ports = ''22,80'', go_os_scan_flags = 1, go_probe_timeout = 3000\<rparr>,
      ge_stale = \<lambda>n. replicate n 0,
      ge_po = \<lambda>cv. Some (Suc (foldr max (canvas_objects cv) 9)),
      ge_link = \<lambda>cv. Some (Suc (foldr max (concat (map (canvas_links cv) (canvas_objects cv))) 19)),
      ge_dd = \<lambda>dd. Some 40, ge_query = \<lambda>qs. Some (50 + length qs), ge_yes = False, ge_timer = 1,
      ge_getservbyport = \<lambda>port. if port = 80 then Some ''http'' else None\<rparr>"

definition sample_gui :: "int gui_world" where
  "sample_gui =
     \<lparr>gw_cv = \<lparr>cv_po = Map.empty, cv_pol = Map.empty, cv_pages = [(1, \<lparr>np_objects = [], np_plink = None, np_agent = 1\<rparr>)]\<rparr>,
      gw_ev = nw_ev (map_demo []), gw_ip_cache = [], gw_dd = Map.empty, gw_dns = [], gw_dns_timer = -1, gw_services = []\<rparr>"

lemma sample_gui_link: "gui_link sample_gui_env 1 5 (gw_ev sample_gui)"
  by (simp add: gui_link_def sample_gui_def sample_gui_env_def map_demo_def map_demo_agent_def)

theorem network_discovered_exactly_witness:
  "\<exists>w' lo hi i (pw' :: int ping_world). do_discover sample_gui_env 1 ''10.0.0.5/24'' 3 sample_gui = Ret w' \<and>
     length (ev_sent (gw_ev w')) = 1 \<and>
     pheap pw' = [64 \<mapsto> range_entry demo_hdr lo hi 3 2\<lparr>pq_desched := i\<rparr>] \<and>
     (\<forall>x. lo \<le> x \<and> x \<le> hi \<longleftrightarrow> x AND 0xFFFFFF00 = 0x0A000000)"
proof -
  have "dotted 0x0500000A = ''10.0.0.5''" by code_simp
  then have ten: "inet_aton ''10.0.0.5'' = Some 0x0500000A" using inet_aton_dotted by metis
  have "inet_aton ''24'' = Some 0x18000000"
    by (simp add: inet_aton_def strtoul0_def digit_val_def) code_simp
  moreover have "atoi ''24'' = 24" by (simp add: atoi_def strtol10_def c_isspace_def digit_val_def to_int32_def)
  moreover have "bswap32 0x18000000 < (0x80000000 :: u32)" "push_bit 8 (drop_bit 8 (0xffffffff :: u32)) = 0xFFFFFF00"
    by code_simp+
  ultimately have "netmask ''24'' = Some 0xFFFFFF00" by (simp add: netmask_def)
  moreover have "bswap32 0x0500000A = (0x0A000005 :: u32)" "(0x0A000005 :: u32) AND 0xFFFFFF00 = 0x0A000000" by code_simp+
  ultimately have a: "inet_aton ''10.0.0.5'' = Some 0x0500000A" "netmask ''24'' = Some 0xFFFFFF00"
    "bswap32 0x0500000A = (0x0A000005 :: u32)" "(0x0A000005 :: u32) AND 0xFFFFFF00 = 0x0A000000" using ten by simp_all
  have n: "CHR ''/'' \<notin> set ''10.0.0.5''" "''10.0.0.5'' @ CHR ''/'' # ''24'' = ''10.0.0.5/24''" by simp_all
  have w: "ge_dd sample_gui_env (gw_dd sample_gui) = Some 40" "gw_dd sample_gui 40 = None"
    "length (ge_stale sample_gui_env 4) = 4" "ev_sent (gw_ev sample_gui) = []"
    by (simp_all add: sample_gui_env_def sample_gui_def map_demo_def ev_init_def)
  have p: "pe_malloc (ping_demo_env 50) = Some 64" by (simp add: ping_demo_env_def)
  have nz: "bswap32 0x0500000A AND (0xFFFFFF00 :: u32) \<noteq> 0" unfolding a by simp
  obtain k w' body lo hi i and pw' :: "int ping_world" where x: "do_discover sample_gui_env 1 (''10.0.0.5'' @ CHR ''/'' # ''24'') 3 sample_gui = Ret w'"
    "ev_sent (gw_ev w') = ev_sent (gw_ev sample_gui) @ [(5, mk_event EVENT_DISCOVER_IPV4 0 body)]"
    "pheap pw' = (pheap (ping_demo [] Map.empty))(64 \<mapsto> range_entry demo_hdr lo hi 3 2\<lparr>pq_desched := i\<rparr>)"
    "\<forall>x. lo \<le> x \<and> x \<le> hi \<longleftrightarrow> x AND 0xFFFFFF00 = bswap32 0x0500000A AND 0xFFFFFF00"
    using network_discovered_exactly [OF n(1) a(1,2) sample_gui_link w(1-3) nz p, where np = 3 and h = demo_hdr and ag = 2
        and pw = "ping_demo [] Map.empty"] by blast
  have "length (ev_sent (gw_ev w')) = 1" using x(2) w(4) by simp
  moreover have "pheap pw' = [64 \<mapsto> range_entry demo_hdr lo hi 3 2\<lparr>pq_desched := i\<rparr>]"
    using x(3) by (simp add: ping_demo_def)
  ultimately show ?thesis using x(1,4) unfolding n(2) a(3,4) by blast
qed

end
