(* ===== verification/Gui_Replies.thy ===== *)
theory Gui_Replies
  imports Gui_Requests
begin

text \<open>
  What the client does with the replies of its agents: the handlers of \<^verbatim>\<open>gui-handlers.c\<close> on the
  pages of \<^theory_text>\<open>Canvas\<close>, with the requests of \<^theory_text>\<open>Gui_Requests\<close> that they send in
  turn. A handler gets the bytes of the event behind its header, and the agent it came from.
\<close>

section \<open>Found hosts\<close>

definition on_canvas :: "(canvas \<Rightarrow> canvas outcome) \<Rightarrow> 'h gui_world \<Rightarrow> 'h gui_world outcome" where
  "on_canvas f w = obind (f (gw_cv w)) (\<lambda>cv. Ret (w\<lparr>gw_cv := cv\<rparr>))"

definition page_object_map :: "gui_env \<Rightarrow> u64 \<Rightarrow> nat \<Rightarrow> 'h gui_world \<Rightarrow> 'h gui_world outcome" where
  "page_object_map env np p w =
     (case net_page_at np (gw_cv w) of
        None \<Rightarrow> Ret w
      | Some page \<Rightarrow>
          if is_valid_page_object np p (gw_cv w)
          then obind (deref (cv_po (gw_cv w)) p) (\<lambda>po. do_map_icmp env (np_agent page) (po_ip po) np w)
          else Ret w)"

text \<open>The flags of the object are masked with the flag that is meant to be set.\<close>

definition add_discovered_node ::
  "gui_env \<Rightarrow> nat \<Rightarrow> u64 \<Rightarrow> u32 \<Rightarrow> cstring option \<Rightarrow> os_stats option \<Rightarrow> bool \<Rightarrow> 'h gui_world
     \<Rightarrow> (nat option \<times> 'h gui_world) outcome" where
  "add_discovered_node env a np ip name os_data mapit w =
     (if is_valid_net_page np (gw_cv w)
      then
        obind (add_host_entry_to_net_page (ge_po env (gw_cv w)) np ip name (gw_cv w)) (\<lambda>(po, cv).
        let w = w\<lparr>gw_cv := cv\<rparr>; opts = ge_opts env in
        case po of
          None \<Rightarrow> Ret (None, w)
        | Some p \<Rightarrow>
            let osscan = \<not> ((\<exists>d. os_data = Some d \<and> os_name d \<noteq> None) \<and> \<not> go_rescan_at_startup opts) in
            obind (case os_data of
                     None \<Rightarrow> Ret w
                   | Some d \<Rightarrow> on_canvas (po_upd p (\<lambda>po. po\<lparr>po_os_data := Some d\<rparr>)) w) (\<lambda>w.
            obind (if osscan \<and> go_operating_system_check opts
                   then obind (on_canvas (po_upd p (\<lambda>po. po\<lparr>po_flags := po_flags po AND PAGE_OBJECT_OS_DETECT_SENT\<rparr>)) w)
                          (do_os_scan env a ip np 0)
                   else Ret w) (\<lambda>w.
            obind (if go_map opts \<and> mapit then page_object_map env np p w else Ret w) (\<lambda>w.
            obind (if name = None \<and> go_reverse_dns opts
                   then dns_reverse_lookup env (dotted ip) REVERSE_LOOKUP_CB None p w
                   else Ret w) (\<lambda>w. Ret (Some p, w))))))
      else Ret (None, w))"

definition handle_discover_reply :: "gui_env \<Rightarrow> u8 list \<Rightarrow> nat \<Rightarrow> 'h gui_world \<Rightarrow> (int \<times> 'h gui_world) outcome" where
  "handle_discover_reply env e a w =
     (let np = ptr_of (drop 8 e); ip = of_be32 e;
          (name, c) = get_ip_cache ip (gw_ip_cache w); w = w\<lparr>gw_ip_cache := c\<rparr>
      in if is_valid_net_page np (gw_cv w)
         then obind (add_discovered_node env a np ip name None True w) (\<lambda>(po, w). Ret (1, w))
         else Ret (1, w))"

section \<open>Scanned hosts\<close>

text \<open>The services of the ports are remembered, and the ports probed, in the order of the reply.\<close>

fun announce_ports :: "gui_env \<Rightarrow> nat \<Rightarrow> u32 \<Rightarrow> u64 \<Rightarrow> os_port_entry list \<Rightarrow> 'h gui_world \<Rightarrow> 'h gui_world outcome" where
  "announce_ports env a ip np [] w = Ret w"
| "announce_ports env a ip np (p # ps) w =
     (let w = w\<lparr>gw_services := add_service (ucast (op_port p)) (ucast (op_protocol p)) (op_name p) (gw_services w)\<rparr>
      in obind (if go_probe_ports (ge_opts env)
                then do_probe env a ip (ucast (op_port p)) (go_probe_timeout (ge_opts env)) np w
                else Ret w) (announce_ports env a ip np ps))"

definition handle_os_scan_reply :: "gui_env \<Rightarrow> u8 list \<Rightarrow> nat \<Rightarrow> 'h gui_world \<Rightarrow> (int \<times> 'h gui_world) outcome" where
  "handle_os_scan_reply env e a w =
     (case osscan_key e of (np, ip) \<Rightarrow>
      obind (page_object_get_by_ip np ip (gw_cv w)) (\<lambda>found.
        case found of
          None \<Rightarrow> Ret (0, w)
        | Some p \<Rightarrow>
            obind (on_canvas (page_object_free_os_data p) w) (\<lambda>w.
            obind (read_osscan_reply e) (\<lambda>d.
            obind (announce_ports env a ip np (rev (os_ports d)) w) (\<lambda>w.
            obind (on_canvas (po_upd p (\<lambda>po. po\<lparr>po_os_data := Some d\<rparr>)) w) (\<lambda>w.
            obind (on_canvas (page_object_display p) w) (\<lambda>w. Ret (0, w))))))))"

section \<open>Mapped hosts\<close>

definition add_missing_node :: "gui_env \<Rightarrow> nat \<Rightarrow> u64 \<Rightarrow> u32 \<Rightarrow> 'h gui_world \<Rightarrow> 'h gui_world outcome" where
  "add_missing_node env a np ip w =
     obind (page_object_get_by_ip np ip (gw_cv w)) (\<lambda>found.
       if found = None
       then obind (add_discovered_node env a np ip None None False w) (\<lambda>(po, w). Ret w)
       else Ret w)"

definition handle_map_icmp_reply :: "gui_env \<Rightarrow> u8 list \<Rightarrow> nat \<Rightarrow> 'h gui_world \<Rightarrow> (int \<times> 'h gui_world) outcome" where
  "handle_map_icmp_reply env e a w =
     (let ip1 = of_be32 (drop 4 e); ip2 = of_be32 (drop 8 e); np = ptr_of (drop 16 e) in
      if ip1 = ip2 then Ret (0, w)
      else
        obind (add_missing_node env a np ip1 w) (\<lambda>w.
        obind (add_missing_node env a np ip2 w) (\<lambda>w.
        obind (page_object_get_by_ip np ip1 (gw_cv w)) (\<lambda>po1.
        obind (page_object_get_by_ip np ip2 (gw_cv w)) (\<lambda>po2.
          case (po1, po2) of
            (Some a1, Some a2) \<Rightarrow>
              obind (on_canvas (net_page_map_page_objects (ge_link env (gw_cv w)) np a1 a2) w) (\<lambda>w. Ret (0, w))
          | _ \<Rightarrow> Ret (0, w))))))"

section \<open>Probed ports\<close>

definition unknown_os :: os_stats where
  "unknown_os = no_os_stats\<lparr>os_name := Some ''unknown''\<rparr>"

definition new_port :: "u16 \<Rightarrow> cstring \<Rightarrow> cstring \<Rightarrow> os_port_entry" where
  "new_port port version name =
     \<lparr>op_port = ucast port, op_protocol = 6, op_name = name, op_version = Some version, op_owner = [],
      op_state = 0, op_rpcnum = 0, op_rpclowver = 0, op_rpchighver = 0, op_proto = 0\<rparr>"

text \<open>
  The version of a port of the list; a port that is not there, and of a known service, is
  added if all ports have larger numbers. Behind a smaller port it is lost: its pointer is
  overwritten by the one it is to be linked to. The NULL owner of a new port is the empty one.
\<close>

definition set_version :: "(u16 \<Rightarrow> cstring option) \<Rightarrow> u16 \<Rightarrow> cstring \<Rightarrow> os_port_entry list \<Rightarrow> os_port_entry list" where
  "set_version service port version ports =
     (if \<exists>p \<in> set ports. op_port p = ucast port
      then map (\<lambda>p. if op_port p = ucast port then p\<lparr>op_version := Some version\<rparr> else p) ports
      else case service port of
             None \<Rightarrow> ports
           | Some name \<Rightarrow>
               if takeWhile (\<lambda>p. \<not> sint (op_port p) > uint port) ports = []
               then new_port port version name # ports
               else ports)"

definition handle_probe_reply :: "gui_env \<Rightarrow> u8 list \<Rightarrow> nat \<Rightarrow> 'h gui_world \<Rightarrow> (int \<times> 'h gui_world) outcome" where
  "handle_probe_reply env e a w =
     (let ip = of_be32 e; port = of_be16 (drop 4 e); np = ptr_of (drop 8 e) in
      obind (page_object_get_by_ip np ip (gw_cv w)) (\<lambda>found.
        case found of
          None \<Rightarrow> Ret (0, w)
        | Some p \<Rightarrow>
            obind (deref (cv_po (gw_cv w)) p) (\<lambda>po.
            let d = (case po_os_data po of Some d \<Rightarrow> d | None \<Rightarrow> unknown_os) in
            obind (if (\<exists>q \<in> set (os_ports d). op_port q = ucast port) \<or> ge_getservbyport env port \<noteq> None
                   then text_at 16 e else Ret []) (\<lambda>version.
            obind (on_canvas (po_upd p (\<lambda>po.
              po\<lparr>po_os_data := Some (d\<lparr>os_ports := set_version (ge_getservbyport env) port version (os_ports d)\<rparr>)\<rparr>)) w)
              (\<lambda>w. Ret (0, w))))))"

section \<open>Logging in\<close>

text \<open>\<open>login\<close> is what the user enters when asked, \<^theory_text>\<open>None\<close> if the question is closed.\<close>

definition handle_auth_reply ::
  "gui_env \<Rightarrow> (cstring \<times> cstring) option \<Rightarrow> u8 list \<Rightarrow> nat \<Rightarrow> 'h gui_world \<Rightarrow> (int \<times> 'h gui_world) outcome" where
  "handle_auth_reply env login e a w =
     obind (deref (aheap (gw_ev w)) a) (\<lambda>ag.
     let set_flags = (\<lambda>fl. w\<lparr>gw_ev := (gw_ev w)\<lparr>aheap := (aheap (gw_ev w))(a \<mapsto> ag\<lparr>ag_flags := fl\<rparr>)\<rparr>\<rparr>) in
     if of_be32 e \<noteq> 0 then Ret (0, set_flags (ag_flags ag OR AGENT_FLAGS_LOGGED_IN))
     else
       obind (case login of
                None \<Rightarrow> Ret (set_flags (ag_flags ag AND NOT AGENT_FLAGS_LOGGED_IN))
              | Some (username, password) \<Rightarrow>
                  send_auth_request env a username password (set_flags (ag_flags ag AND NOT AGENT_FLAGS_LOGGED_IN)))
         (\<lambda>w. Ret (0, w)))"

section \<open>The handlers of the client\<close>

datatype gui_handler =
    HANDLE_ERROR
  | HANDLE_DISCOVER_REPLY
  | HANDLE_OS_SCAN_REPLY
  | HANDLE_DNS_QUERY_REPLY
  | HANDLE_MAP_ICMP_REPLY
  | HANDLE_PROBE_REPLY
  | HANDLE_AUTH_REPLY

definition gui_handlers :: "(u16 \<times> gui_handler) list" where
  "gui_handlers =
     [(REPLY_ERROR, HANDLE_ERROR), (REPLY_DISCOVER_IPV4, HANDLE_DISCOVER_REPLY), (REPLY_OS_SCAN, HANDLE_OS_SCAN_REPLY),
      (REPLY_DNS_QUERY, HANDLE_DNS_QUERY_REPLY), (REPLY_MAP_ICMP, HANDLE_MAP_ICMP_REPLY),
      (REPLY_PROBE, HANDLE_PROBE_REPLY), (REPLY_AUTH_REQUEST, HANDLE_AUTH_REPLY)]"

fun register_all :: "(u16 \<times> gui_handler) list \<Rightarrow> gui_handler ev_state \<Rightarrow> gui_handler ev_state outcome" where
  "register_all [] st = Ret st"
| "register_all ((ty, cb) # hs) st =
     obind (event_register_handler (uint ty) (Some (Handler cb)) False st) (\<lambda>(r, st). register_all hs st)"

definition register_gui_handlers :: "gui_handler ev_state \<Rightarrow> gui_handler ev_state outcome" where
  "register_gui_handlers = register_all gui_handlers"

definition gui_handle ::
  "gui_env \<Rightarrow> (cstring \<times> cstring) option \<Rightarrow> gui_handler \<Rightarrow> u8 list \<Rightarrow> nat \<Rightarrow> 'h gui_world \<Rightarrow> (int \<times> 'h gui_world) outcome" where
  "gui_handle env login cb e a w =
     (case cb of
        HANDLE_ERROR \<Rightarrow> Ret (0, w)
      | HANDLE_DISCOVER_REPLY \<Rightarrow> handle_discover_reply env e a w
      | HANDLE_OS_SCAN_REPLY \<Rightarrow> handle_os_scan_reply env e a w
      | HANDLE_DNS_QUERY_REPLY \<Rightarrow> Ret (0, w)
      | HANDLE_MAP_ICMP_REPLY \<Rightarrow> handle_map_icmp_reply env e a w
      | HANDLE_PROBE_REPLY \<Rightarrow> handle_probe_reply env e a w
      | HANDLE_AUTH_REPLY \<Rightarrow> handle_auth_reply env login e a w)"

section \<open>The hosts and the edges of a page\<close>

text \<open>The graph of a page by addresses: its hosts, and the pairs between which there is a link.\<close>

definition hosts_on :: "u64 \<Rightarrow> graph \<Rightarrow> u32 set" where
  "hosts_on np g = (case gr_hosts g np of None \<Rightarrow> {} | Some h \<Rightarrow> ran h)"

definition drawn_on :: "u64 \<Rightarrow> graph \<Rightarrow> u32 set set" where
  "drawn_on np g =
     (case gr_hosts g np of
        None \<Rightarrow> {}
      | Some h \<Rightarrow> (\<lambda>e. (\<lambda>a. the (h a)) ` e) ` {e \<in> gr_edges g. e \<subseteq> dom h})"

definition gui_ok :: "'h gui_world \<Rightarrow> bool" where
  "gui_ok w \<longleftrightarrow> canvas_ok (gw_cv w) \<and> (\<forall>a \<in> set (agents (gw_ev w)). aheap (gw_ev w) a \<noteq> None)"

text \<open>Memory is handed out that is not in use.\<close>

definition env_ok :: "gui_env \<Rightarrow> bool" where
  "env_ok env \<longleftrightarrow> (\<forall>cv. canvas_ok cv \<longrightarrow> (\<exists>a. ge_po env cv = Some a \<and> cv_po cv a = None) \<and>
      (\<exists>q. ge_link env cv = Some q \<and> cv_pol cv q = None)) \<and> (\<forall>qs. ge_query env qs \<noteq> None)"

lemma env_okD:
  assumes "env_ok env"
  shows "canvas_ok cv \<Longrightarrow> \<exists>a. ge_po env cv = Some a \<and> cv_po cv a = None"
    "canvas_ok cv \<Longrightarrow> \<exists>q. ge_link env cv = Some q \<and> cv_pol cv q = None"
    "\<exists>q. ge_query env qs = Some q"
  using assms unfolding env_ok_def by blast+

lemma le_foldr_max: "x \<in> set xs \<Longrightarrow> x \<le> foldr max xs (b :: nat)"
  by (induction xs) (auto simp: max_def)

lemma canvas_objects_all:
  assumes "canvas_ok cv" "cv_po cv a \<noteq> None"
  shows "a \<in> set (canvas_objects cv)"
proof -
  obtain t where "core cv a = Some t" using assms(2) by (auto simp: core_def)
  moreover have "pages_ok (cv_pages cv) (core cv)" using assms(1) by (simp add: canvas_ok_def)
  ultimately obtain np page where "map_of (cv_pages cv) np = Some page" "a \<in> set (np_objects page)"
    using pages_okD(6) by blast
  then show ?thesis by (force simp: canvas_objects_def dest: map_of_SomeD)
qed

lemma sample_env_ok: "env_ok sample_gui_env"
proof -
  have "cv_po cv (Suc (foldr max (canvas_objects cv) 9)) = None" if ok: "canvas_ok cv" for cv
  proof (rule ccontr)
    assume "cv_po cv (Suc (foldr max (canvas_objects cv) 9)) \<noteq> None"
    from le_foldr_max [OF canvas_objects_all [OF ok this], of 9] show False by simp
  qed
  moreover have "cv_pol cv (Suc (foldr max (concat (map (canvas_links cv) (canvas_objects cv))) 19)) = None"
    (is "cv_pol cv ?q = None") if ok: "canvas_ok cv" for cv
  proof (rule ccontr)
    assume "cv_pol cv ?q \<noteq> None"
    then obtain pol where q: "cv_pol cv ?q = Some pol" by blast
    have l: "links_full cv" using ok by (simp add: canvas_ok_def)
    from links_fullD(1) [OF l q, of "pol_po1 pol"] obtain p where p: "cv_po cv (pol_po1 pol) = Some p" "?q \<in> set (po_links p)"
      by (auto simp: ends_def)
    then have "pol_po1 pol \<in> set (canvas_objects cv)" using canvas_objects_all [OF ok] by simp
    then have "?q \<in> set (concat (map (canvas_links cv) (canvas_objects cv)))"
      using p by (auto simp: canvas_links_def intro!: bexI [of _ "pol_po1 pol"])
    from le_foldr_max [OF this, of 19] show False by simp
  qed
  ultimately show ?thesis by (simp add: env_ok_def sample_gui_env_def)
qed

lemma valid_page_graph: "is_valid_net_page np cv \<longleftrightarrow> gr_hosts (graph_of cv) np \<noteq> None"
  by (auto simp: is_valid_net_page_def graph_of_def net_page_at_def map_of_eq_None_iff)

lemma get_by_ip_graph:
  assumes ok: "canvas_ok cv" and h: "gr_hosts (graph_of cv) np = Some h"
  obtains r where "page_object_get_by_ip np ip cv = Ret r" "case r of None \<Rightarrow> ip \<notin> ran h | Some a \<Rightarrow> h a = Some ip"
proof -
  obtain page where page: "net_page_at np cv = Some page"
    and hd: "h = (\<lambda>a. if a \<in> set (np_objects page) then map_option po_ip (cv_po cv a) else None)"
    using h by (auto simp: graph_of_def)
  have p: "pages_ok (cv_pages cv) (core cv)" using ok by (simp add: canvas_ok_def)
  have dom: "cv_po cv a \<noteq> None" if "a \<in> set (np_objects page)" for a
    using pages_okD(3) [OF p page [unfolded net_page_at_def] that] by (auto simp: core_def)
  let ?r = "find (\<lambda>a. map_option po_ip (cv_po cv a) = Some ip) (np_objects page)"
  have "page_object_get_by_ip np ip cv = Ret ?r"
    using find_ip_find dom page by (simp add: page_object_get_by_ip_def)
  moreover have "case ?r of None \<Rightarrow> ip \<notin> ran h | Some a \<Rightarrow> h a = Some ip"
  proof (cases ?r)
    case None
    then have "ip \<notin> ran h" by (auto simp: find_None_iff hd ran_def split: if_splits)
    then show ?thesis unfolding None by simp
  next
    case (Some a)
    then have "a \<in> set (np_objects page)" "map_option po_ip (cv_po cv a) = Some ip"
      by (auto simp: find_Some_iff)
    then show ?thesis using Some by (simp add: hd)
  qed
  ultimately show thesis using that by blast
qed

text \<open>Ends of edges are objects, so that a fresh one is no end.\<close>

lemma fresh_no_end:
  assumes "canvas_ok cv" "cv_po cv a = None"
  shows "e \<in> gr_edges (graph_of cv) \<Longrightarrow> a \<notin> e" "gr_hosts (graph_of cv) np = Some h \<Longrightarrow> h a = None"
proof -
  have l: "links_ok None cv" using assms(1) by (simp add: canvas_ok_def)
  show "a \<notin> e" if e: "e \<in> gr_edges (graph_of cv)"
  proof -
    obtain q pol where q: "cv_pol cv q = Some pol" "e = ends pol" using e unfolding edges_eq by blast
    from links_okD(1) [OF l q(1)] show ?thesis using assms(2) q(2) by (auto simp: ends_def)
  qed
  show "gr_hosts (graph_of cv) np = Some h \<Longrightarrow> h a = None" using assms(2) by (auto simp: graph_of_def)
qed

lemma put_host_page:
  assumes "\<And>e. e \<in> gr_edges g \<Longrightarrow> a \<notin> e" "\<And>h. gr_hosts g np = Some h \<Longrightarrow> h a = None" "gr_hosts g np \<noteq> None"
  shows "hosts_on np (put_host np a ip g) = insert ip (hosts_on np g)"
    "drawn_on np (put_host np a ip g) = drawn_on np g" "gr_hosts (put_host np a ip g) np \<noteq> None"
proof -
  obtain h where h: "gr_hosts g np = Some h" using assms(3) by blast
  have "h a = None" using assms(2) [OF h] .
  then show "hosts_on np (put_host np a ip g) = insert ip (hosts_on np g)" "gr_hosts (put_host np a ip g) np \<noteq> None"
    using h by (auto simp: hosts_on_def put_host_def ran_map_upd)
  show "drawn_on np (put_host np a ip g) = drawn_on np g"
  proof (cases "ip \<in> ran h")
    case False
    have "{e \<in> gr_edges g. e \<subseteq> dom (h(a \<mapsto> ip))} = {e \<in> gr_edges g. e \<subseteq> dom h}"
      using assms(1) by (fastforce simp: dom_def split: if_splits)
    moreover have "(\<lambda>x. the ((h(a \<mapsto> ip)) x)) ` e = (\<lambda>x. the (h x)) ` e" if "e \<in> {e \<in> gr_edges g. e \<subseteq> dom h}" for e
      using assms(1) that by (intro image_cong) auto
    ultimately show ?thesis using h False by (simp add: drawn_on_def put_host_def cong: image_cong_simp)
  qed (use h in \<open>simp add: put_host_def\<close>)
qed

lemma add_edge_page:
  assumes "gr_hosts g np = Some h" "h a = Some x" "h b = Some y"
  shows "hosts_on np (g\<lparr>gr_edges := insert {a, b} (gr_edges g)\<rparr>) = hosts_on np g"
    "drawn_on np (g\<lparr>gr_edges := insert {a, b} (gr_edges g)\<rparr>) = insert {x, y} (drawn_on np g)"
proof -
  have "{e \<in> insert {a, b} (gr_edges g). e \<subseteq> dom h} = insert {a, b} {e \<in> gr_edges g. e \<subseteq> dom h}"
    using assms(2,3) by auto
  then show "drawn_on np (g\<lparr>gr_edges := insert {a, b} (gr_edges g)\<rparr>) = insert {x, y} (drawn_on np g)"
    using assms by (simp add: drawn_on_def)
qed (use assms(1) in \<open>simp add: hosts_on_def\<close>)

section \<open>Drawing paths\<close>

text \<open>A step that sends and asks, but leaves the graph of the pages as it is.\<close>

definition quiet :: "'h gui_world \<Rightarrow> 'h gui_world \<Rightarrow> bool" where
  "quiet w w' \<longleftrightarrow> gui_ok w' \<and> graph_of (gw_cv w') = graph_of (gw_cv w)"

lemma quiet_refl: "gui_ok w \<Longrightarrow> quiet w w"
  by (simp add: quiet_def)

lemma quiet_trans: "quiet w v \<Longrightarrow> quiet v u \<Longrightarrow> quiet w u"
  by (simp add: quiet_def)

lemma send_request_quiet:
  assumes "gui_ok w"
  shows "\<exists>w'. send_request env a e w = Ret w' \<and> quiet w w' \<and> gw_cv w' = gw_cv w"
proof -
  obtain r ev where s: "event_send (ge_write env) a e (gw_ev w) = Ret (r, ev)"
  proof (cases "a \<in> set (agents (gw_ev w))")
    case True
    then obtain ag where "aheap (gw_ev w) a = Some ag" using assms by (auto simp: gui_ok_def)
    then show thesis using that True by (simp add: event_send_def deref_def Let_def)
  next
    case False
    then show thesis using that by (simp add: event_send_def)
  qed
  from event_send_adds [OF s] obtain x where "ev = (gw_ev w)\<lparr>ev_sent := ev_sent (gw_ev w) @ x\<rparr>" by blast
  then show ?thesis using s assms by (auto simp: send_request_def quiet_def gui_ok_def)
qed

lemma po_upd_quiet:
  assumes ok: "gui_ok w" and p: "cv_po (gw_cv w) p \<noteq> None"
    and same: "\<And>po. po_ip (f po) = po_ip po" "\<And>po. po_links (f po) = po_links po"
      "\<And>po. po_merge (f po) = po_merge po" "\<And>po. po_merge_primary (f po) = po_merge_primary po"
  shows "\<exists>w'. on_canvas (po_upd p f) w = Ret w' \<and> quiet w w' \<and> cv_po (gw_cv w') p \<noteq> None \<and>
    cv_pages (gw_cv w') = cv_pages (gw_cv w)"
proof -
  obtain po where po: "cv_po (gw_cv w) p = Some po" using p by blast
  let ?cv = "(gw_cv w)\<lparr>cv_po := (cv_po (gw_cv w))(p \<mapsto> f po)\<rparr>"
  have "canvas_ok (gw_cv w)" using ok by (simp add: gui_ok_def)
  from po_field_graph [OF this po same] have "canvas_ok ?cv" "graph_of ?cv = graph_of (gw_cv w)" by simp_all
  then show ?thesis using po ok by (auto simp: on_canvas_def po_upd_def deref_def quiet_def gui_ok_def)
qed

lemma lookup_quiet:
  assumes "gui_ok w" "env_ok env"
  shows "\<exists>w'. dns_reverse_lookup env (dotted ip) cb t p w = Ret w' \<and> quiet w w'"
  using assms env_okD(3) [OF assms(2), of "gw_dns w"]
  by (auto simp: dns_reverse_lookup_def dns_loop_def quiet_def gui_ok_def)

lemma page_map_quiet:
  assumes "gui_ok w" "cv_po (gw_cv w) p \<noteq> None"
  shows "\<exists>w'. page_object_map env np p w = Ret w' \<and> quiet w w'"
  using assms send_request_quiet [OF assms(1)]
  by (fastforce simp: page_object_map_def do_map_icmp_def deref_def quiet_refl split: option.split)

lemma quiet_step:
  assumes "quiet w w1" "\<And>w1. quiet w w1 \<Longrightarrow> \<exists>w2. f w1 = Ret w2 \<and> quiet w1 w2"
  obtains w2 where "f w1 = Ret w2" "quiet w w2"
  using assms quiet_trans by blast

lemma find_ip_live: "find_ip ip as cv = Ret (Some y) \<Longrightarrow> cv_po cv y \<noteq> None"
  by (induction as) (auto simp: deref_def split: option.splits if_splits)

lemma add_host_live:
  assumes "add_host_entry_to_net_page (Some q) np ip name cv = Ret (r, cv')" "is_valid_net_page np cv"
  obtains p where "r = Some p" "cv_po cv' p \<noteq> None"
proof -
  obtain page where page: "net_page_at np cv = Some page"
    using assms(2) by (force simp: is_valid_net_page_def net_page_at_def dest: weak_map_of_SomeI)
  obtain found where f: "find_ip ip (np_objects page) cv = Ret found"
    using assms(1) page by (cases "find_ip ip (np_objects page) cv") (auto simp: add_host_entry_to_net_page_def)
  show thesis
  proof (cases found)
    case None
    then show thesis
      using assms(1) page f that
      by (auto simp: add_host_entry_to_net_page_def joined_def [symmetric] display_joined Let_def)
  next
    case (Some b)
    have "cv_po cv b \<noteq> None" using find_ip_live f Some by blast
    then show thesis
      using assms(1) page f Some that
      by (auto simp: add_host_entry_to_net_page_def po_upd_def deref_def split: option.splits)
  qed
qed

text \<open>A found host is on the page afterwards, with its address, and nothing else of the graph is changed.\<close>

lemma add_discovered_node_graph:
  assumes ok: "gui_ok w" and env: "env_ok env" and page: "gr_hosts (graph_of (gw_cv w)) np \<noteq> None"
  shows "\<exists>p fresh w'. add_discovered_node env a np ip name None mapit w = Ret (Some p, w') \<and> gui_ok w' \<and>
    cv_po (gw_cv w) fresh = None \<and> graph_of (gw_cv w') = put_host np fresh ip (graph_of (gw_cv w))"
proof -
  let ?cv = "gw_cv w"
  have cv: "canvas_ok ?cv" using ok by (simp add: gui_ok_def)
  obtain q where q: "ge_po env ?cv = Some q" "cv_po ?cv q = None" using env_okD(1) [OF env cv] by blast
  have valid: "is_valid_net_page np ?cv" using page valid_page_graph by blast
  obtain r cv1 where add: "add_host_entry_to_net_page (Some q) np ip name ?cv = Ret (r, cv1)" "canvas_ok cv1"
    "graph_of cv1 = put_host np q ip (graph_of ?cv)"
    using add_host_graph [OF cv q(2)] by blast
  obtain p where p: "r = Some p" "cv_po cv1 p \<noteq> None" by (rule add_host_live [OF add(1) valid])
  define w1 where "w1 = w\<lparr>gw_cv := cv1\<rparr>"
  have ok1: "gui_ok w1" using ok add(2) by (simp add: gui_ok_def w1_def)
  obtain wa where wa: "on_canvas (po_upd p (\<lambda>po. po\<lparr>po_flags := po_flags po AND PAGE_OBJECT_OS_DETECT_SENT\<rparr>)) w1 = Ret wa"
    "quiet w1 wa" "cv_po (gw_cv wa) p \<noteq> None"
    using po_upd_quiet [OF ok1, of p "\<lambda>po. po\<lparr>po_flags := po_flags po AND PAGE_OBJECT_OS_DETECT_SENT\<rparr>"] p(2)
    by (auto simp: w1_def)
  obtain wb where wb: "do_os_scan env a ip np 0 wa = Ret wb" "quiet wa wb" "gw_cv wb = gw_cv wa"
    using send_request_quiet [of wa] wa(2) unfolding do_os_scan_def quiet_def by blast
  obtain w2 where w2: "(if go_operating_system_check (ge_opts env)
      then obind (on_canvas (po_upd p (\<lambda>po. po\<lparr>po_flags := po_flags po AND PAGE_OBJECT_OS_DETECT_SENT\<rparr>)) w1)
             (do_os_scan env a ip np 0) else Ret w1) = Ret w2" "quiet w1 w2" "cv_po (gw_cv w2) p \<noteq> None"
  proof (cases "go_operating_system_check (ge_opts env)")
    case True
    then show thesis using that wa wb quiet_trans [OF wa(2) wb(2)] by simp
  next
    case False
    then show thesis using that quiet_refl [OF ok1] p(2) by (simp add: w1_def)
  qed
  have ok2: "gui_ok w2" using w2(2) by (simp add: quiet_def)
  obtain w3 where w3: "(if go_map (ge_opts env) \<and> mapit then page_object_map env np p w2 else Ret w2) = Ret w3" "quiet w2 w3"
    using page_map_quiet [OF ok2 w2(3), of env np] quiet_refl [OF ok2] by (cases "go_map (ge_opts env) \<and> mapit") auto
  have ok3: "gui_ok w3" using w3(2) by (simp add: quiet_def)
  obtain w4 where w4: "(if name = None \<and> go_reverse_dns (ge_opts env)
      then dns_reverse_lookup env (dotted ip) REVERSE_LOOKUP_CB None p w3 else Ret w3) = Ret w4" "quiet w3 w4"
    using lookup_quiet [OF ok3 env, of ip REVERSE_LOOKUP_CB None p] quiet_refl [OF ok3]
    by (cases "name = None \<and> go_reverse_dns (ge_opts env)") auto
  have "add_discovered_node env a np ip name None mapit w = Ret (Some p, w4)"
    using valid by (simp only: add_discovered_node_def q(1) add(1) p(1) w1_def [symmetric] Let_def obind.simps
        prod.case option.case option.distinct if_True simp_thms w2(1) w3(1) w4(1))
  moreover have "quiet w1 w4" using w2(2) w3(2) w4(2) quiet_trans by blast
  then have "gui_ok w4" "graph_of (gw_cv w4) = put_host np q ip (graph_of ?cv)"
    using add(3) by (simp_all add: quiet_def w1_def)
  ultimately show ?thesis using q(2) by blast
qed

lemma add_missing_node_graph:
  assumes ok: "gui_ok w" and env: "env_ok env" and page: "gr_hosts (graph_of (gw_cv w)) np \<noteq> None"
  shows "\<exists>w'. add_missing_node env a np ip w = Ret w' \<and> gui_ok w' \<and> gr_hosts (graph_of (gw_cv w')) np \<noteq> None \<and>
    hosts_on np (graph_of (gw_cv w')) = insert ip (hosts_on np (graph_of (gw_cv w))) \<and>
    drawn_on np (graph_of (gw_cv w')) = drawn_on np (graph_of (gw_cv w))"
proof -
  have cv: "canvas_ok (gw_cv w)" using ok by (simp add: gui_ok_def)
  obtain h where h: "gr_hosts (graph_of (gw_cv w)) np = Some h" using page by blast
  obtain r where r: "page_object_get_by_ip np ip (gw_cv w) = Ret r" "case r of None \<Rightarrow> ip \<notin> ran h | Some a \<Rightarrow> h a = Some ip"
    by (rule get_by_ip_graph [OF cv h])
  show ?thesis
  proof (cases r)
    case None
    obtain p q w' where w': "add_discovered_node env a np ip None None False w = Ret (Some p, w')" "gui_ok w'"
      "cv_po (gw_cv w) q = None" "graph_of (gw_cv w') = put_host np q ip (graph_of (gw_cv w))"
      using add_discovered_node_graph [OF ok env page] by blast
    then have run: "add_missing_node env a np ip w = Ret w'" using r(1) None by (simp add: add_missing_node_def)
    have "gr_hosts (put_host np q ip (graph_of (gw_cv w))) np \<noteq> None"
      "hosts_on np (put_host np q ip (graph_of (gw_cv w))) = insert ip (hosts_on np (graph_of (gw_cv w)))"
      "drawn_on np (put_host np q ip (graph_of (gw_cv w))) = drawn_on np (graph_of (gw_cv w))"
      by (rule put_host_page; use fresh_no_end [OF cv w'(3)] page in blast)+
    then show ?thesis using run w'(2,4) by simp
  next
    case (Some x)
    then have "ip \<in> hosts_on np (graph_of (gw_cv w))" using r(2) h by (auto simp: hosts_on_def ran_def)
    then show ?thesis using ok page r(1) Some by (auto simp: add_missing_node_def)
  qed
qed

definition map_body :: "u8 list \<Rightarrow> u64 \<Rightarrow> u32 \<Rightarrow> u32 \<Rightarrow> u32 \<Rightarrow> u8 list" where
  "map_body pad np d x y = drop EVENT_HDR_SIZE (map_event pad np d x y)"

lemma map_reply_graph:
  assumes ok: "gui_ok w" and env: "env_ok env" and page: "gr_hosts (graph_of (gw_cv w)) np \<noteq> None"
    and np: "np \<noteq> 0" and pad: "length pad = 4"
  shows "\<exists>w'. handle_map_icmp_reply env (map_body pad np d x y) a w = Ret (0, w') \<and> gui_ok w' \<and>
    gr_hosts (graph_of (gw_cv w')) np \<noteq> None \<and>
    hosts_on np (graph_of (gw_cv w')) = hosts_on np (graph_of (gw_cv w)) \<union> (if x = y then {} else {x, y}) \<and>
    drawn_on np (graph_of (gw_cv w')) = drawn_on np (graph_of (gw_cv w)) \<union> (if x = y then {} else {{x, y}})"
proof -
  have body: "map_body pad np d x y = be32 d @ be32 x @ be32 y @ pad @ ptr_bytes np"
    by (simp add: map_body_def map_event_def EVENT_HDR_SIZE_def)
  have read: "of_be32 (drop 4 (map_body pad np d x y)) = x" "of_be32 (drop 8 (map_body pad np d x y)) = y"
    "ptr_of (drop 16 (map_body pad np d x y)) = np"
    using pad by (simp_all add: body)
  show ?thesis
  proof (cases "x = y")
    case True
    then show ?thesis using ok page read by (simp add: handle_map_icmp_reply_def Let_def)
  next
    case False
    obtain w1 where w1: "add_missing_node env a np x w = Ret w1" "gui_ok w1" "gr_hosts (graph_of (gw_cv w1)) np \<noteq> None"
      "hosts_on np (graph_of (gw_cv w1)) = insert x (hosts_on np (graph_of (gw_cv w)))"
      "drawn_on np (graph_of (gw_cv w1)) = drawn_on np (graph_of (gw_cv w))"
      using add_missing_node_graph [OF ok env page] by blast
    obtain w2 where w2: "add_missing_node env a np y w1 = Ret w2" "gui_ok w2" "gr_hosts (graph_of (gw_cv w2)) np \<noteq> None"
      "hosts_on np (graph_of (gw_cv w2)) = insert y (hosts_on np (graph_of (gw_cv w1)))"
      "drawn_on np (graph_of (gw_cv w2)) = drawn_on np (graph_of (gw_cv w1))"
      using add_missing_node_graph [OF w1(2) env w1(3)] by blast
    let ?cv = "gw_cv w2"
    have cv: "canvas_ok ?cv" using w2(2) by (simp add: gui_ok_def)
    obtain h where h: "gr_hosts (graph_of ?cv) np = Some h" using w2(3) by blast
    have xy: "x \<in> ran h" "y \<in> ran h" using w1(4) w2(4) h by (auto simp: hosts_on_def)
    obtain r where r: "page_object_get_by_ip np x ?cv = Ret r" "case r of None \<Rightarrow> x \<notin> ran h | Some a \<Rightarrow> h a = Some x"
      by (rule get_by_ip_graph [OF cv h])
    then obtain p1 where p1: "r = Some p1" "h p1 = Some x" using xy(1) by (cases r) auto
    obtain r' where r': "page_object_get_by_ip np y ?cv = Ret r'" "case r' of None \<Rightarrow> y \<notin> ran h | Some a \<Rightarrow> h a = Some y"
      by (rule get_by_ip_graph [OF cv h])
    then obtain p2 where p2: "r' = Some p2" "h p2 = Some y" using xy(2) by (cases r') auto
    have "p1 \<noteq> p2" using p1(2) p2(2) False by auto
    moreover have "is_valid_page_object np p1 ?cv" "is_valid_page_object np p2 ?cv"
      using valid_graph [OF cv] h p1(2) p2(2) by auto
    moreover obtain q where q: "ge_link env ?cv = Some q" "cv_pol ?cv q = None" using env_okD(2) [OF env cv] by blast
    ultimately obtain cv' where cv': "net_page_map_page_objects (Some q) np p1 p2 ?cv = Ret cv'" "canvas_ok cv'"
      "graph_of cv' = graph_of ?cv\<lparr>gr_edges := insert {p1, p2} (gr_edges (graph_of ?cv))\<rparr>"
      using net_page_map_graph [OF cv q(2) np] by blast
    have "handle_map_icmp_reply env (map_body pad np d x y) a w = Ret (0, w2\<lparr>gw_cv := cv'\<rparr>)"
      using False w1(1) w2(1) r(1) r'(1) p1(1) p2(1) q(1) cv'(1)
      by (simp add: handle_map_icmp_reply_def read on_canvas_def)
    moreover have "gui_ok (w2\<lparr>gw_cv := cv'\<rparr>)" using w2(2) cv'(2) by (simp add: gui_ok_def)
    moreover have "gr_hosts (graph_of cv') np \<noteq> None" using cv'(3) h by simp
    moreover have "hosts_on np (graph_of cv') = insert y (insert x (hosts_on np (graph_of (gw_cv w))))"
      "drawn_on np (graph_of cv') = insert {x, y} (drawn_on np (graph_of (gw_cv w)))"
      unfolding cv'(3) add_edge_page [OF h p1(2) p2(2)] w2(4,5) w1(4,5) by simp_all
    ultimately show ?thesis using False by auto
  qed
qed

text \<open>The replies to a request, in the order in which they come.\<close>

fun receive_maps :: "gui_env \<Rightarrow> nat \<Rightarrow> u8 list list \<Rightarrow> 'h gui_world \<Rightarrow> 'h gui_world outcome" where
  "receive_maps env a [] w = Ret w"
| "receive_maps env a (e # es) w = obind (handle_map_icmp_reply env e a w) (\<lambda>(r, w). receive_maps env a es w)"

text \<open>
  C27. A mapped path is drawn: when the client gets the links that the agent reports, as the
  agent writes them, no reply makes it use freed memory, all of the hosts of the path are on the
  page afterwards, there is a line between each two neighbours of the path, and there is no other
  new host and no other new line. This holds from any consistent state of the pages in which no host
  is merged with another (\<^theory_text>\<open>gui_ok\<close>: deleting a merged host leaves a link that dangles, which the
  next link on its page follows), for replies that name a page which exists, and as long as
  \<^verbatim>\<open>malloc\<close> returns memory that is not in use (\<^theory_text>\<open>env_ok\<close>).
\<close>

theorem map_path_drawn:
  assumes "gui_ok w" "env_ok env" "gr_hosts (graph_of (gw_cv w)) np \<noteq> None" "np \<noteq> 0" "length pad = 4"
  shows "\<exists>w'. receive_maps env a (map (\<lambda>(x, y). map_body pad np d x y) links) w = Ret w' \<and> gui_ok w' \<and>
    hosts_on np (graph_of (gw_cv w')) = hosts_on np (graph_of (gw_cv w)) \<union>
      \<Union> ((\<lambda>(x, y). {x, y}) ` set (filter (\<lambda>(x, y). x \<noteq> y) links)) \<and>
    drawn_on np (graph_of (gw_cv w')) = drawn_on np (graph_of (gw_cv w)) \<union>
      (\<lambda>(x, y). {x, y}) ` set (filter (\<lambda>(x, y). x \<noteq> y) links)"
  using assms
proof (induction links arbitrary: w)
  case Nil
  then show ?case by simp
next
  case (Cons l links)
  obtain x y where l: "l = (x, y)" by (cases l)
  obtain v where v: "handle_map_icmp_reply env (map_body pad np d x y) a w = Ret (0, v)" "gui_ok v"
    "gr_hosts (graph_of (gw_cv v)) np \<noteq> None"
    "hosts_on np (graph_of (gw_cv v)) = hosts_on np (graph_of (gw_cv w)) \<union> (if x = y then {} else {x, y})"
    "drawn_on np (graph_of (gw_cv v)) = drawn_on np (graph_of (gw_cv w)) \<union> (if x = y then {} else {{x, y}})"
    using map_reply_graph [OF Cons.prems] by blast
  let ?E = "(\<lambda>(x, y). {x, y}) ` set (filter (\<lambda>(x, y). x \<noteq> y) links)"
  have new: "(\<lambda>(x, y). {x, y}) ` set (filter (\<lambda>(x, y). x \<noteq> y) (l # links)) = (if x = y then {} else {{x, y}}) \<union> ?E"
    unfolding l by simp
  obtain w' where w': "receive_maps env a (map (\<lambda>(x, y). map_body pad np d x y) links) v = Ret w'" "gui_ok w'"
    "hosts_on np (graph_of (gw_cv w')) = hosts_on np (graph_of (gw_cv v)) \<union> \<Union> ?E"
    "drawn_on np (graph_of (gw_cv w')) = drawn_on np (graph_of (gw_cv v)) \<union> ?E"
    using Cons.IH [OF v(2) Cons.prems(2) v(3) Cons.prems(4,5)] by blast
  have "receive_maps env a (map (\<lambda>(x, y). map_body pad np d x y) (l # links)) w = Ret w'"
    using v(1) w'(1) by (simp add: l)
  moreover have "\<Union> ((if x = y then {} else {{x, y}}) \<union> ?E) = (if x = y then {} else {x, y}) \<union> \<Union> ?E"
    by simp
  ultimately show ?case
    using w'(2-4) unfolding new v(4,5) by (intro exI [of _ w'] conjI) (simp_all only: Un_assoc)
qed

theorem map_path_drawn_witness:
  "\<exists>w'. receive_maps sample_gui_env 1 (map (\<lambda>(x, y). map_body [0, 0, 0, 0] 1 3 x y) [(1, 2), (2, 3)]) sample_gui = Ret w' \<and>
    hosts_on 1 (graph_of (gw_cv w')) = {1, 2, 3} \<and> drawn_on 1 (graph_of (gw_cv w')) = {{1, 2}, {2, 3}}"
proof -
  have g: "graph_of (gw_cv sample_gui) = \<lparr>gr_hosts = [1 \<mapsto> Map.empty], gr_edges = {}\<rparr>"
    by (auto simp: graph_of_def sample_gui_def net_page_at_def fun_eq_iff)
  have cv: "canvas_ok (gw_cv sample_gui)"
    by (simp add: canvas_ok_def links_ok_def links_full_def pages_ok_def core_def sample_gui_def net_page_at_def)
  have ok: "gui_ok sample_gui"
    using cv by (simp add: gui_ok_def) (simp add: sample_gui_def map_demo_def)
  have "hosts_on 1 (graph_of (gw_cv sample_gui)) = {}" "drawn_on 1 (graph_of (gw_cv sample_gui)) = {}"
    "gr_hosts (graph_of (gw_cv sample_gui)) 1 \<noteq> None"
    unfolding g by (simp_all add: hosts_on_def drawn_on_def)
  then show ?thesis
    using map_path_drawn [OF ok sample_env_ok, of 1 "[0, 0, 0, 0]" 1 3 "[(1, 2), (2, 3)]"] by auto
qed

section \<open>Showing hosts\<close>

text \<open>What a new host makes the client ask for: its system, the way to it, and its name.\<close>

definition os_request :: "gui_env \<Rightarrow> u32 \<Rightarrow> u64 \<Rightarrow> u8 list" where
  "os_request env ip np = mk_event EVENT_OS_SCAN 0
     (be32 (go_os_scan_flags (ge_opts env)) @ be32 ip @ ptr_bytes np @ map byte_of_char (go_os_scan_ports (ge_opts env)))"

definition map_request :: "gui_env \<Rightarrow> u32 \<Rightarrow> u64 \<Rightarrow> u8 list" where
  "map_request env ip np = mk_event EVENT_MAP_ICMP 0 (be32 ip @ ge_stale env 4 @ ptr_bytes np)"

text \<open>A host that is not shown under a name has none: its label is its address.\<close>

definition shown :: "u32 \<Rightarrow> cstring option \<Rightarrow> page_object" where
  "shown ip name = page_object_new\<lparr>po_ip := ip, po_name := display_name ip name, po_flags := 0\<rparr>"

lemma new_host_joined:
  assumes ok: "canvas_ok cv" and page: "net_page_at np cv = Some page" and new: "ip \<notin> hosts_on np (graph_of cv)"
  shows "add_host_entry_to_net_page (Some q) np ip name cv = Ret (Some q, joined np q (shown ip name) cv)"
proof -
  have p: "pages_ok (cv_pages cv) (core cv)" using ok by (simp add: canvas_ok_def)
  have dom: "cv_po cv a \<noteq> None" if "a \<in> set (np_objects page)" for a
    using pages_okD(3) [OF p page [unfolded net_page_at_def] that] by (auto simp: core_def)
  have "find (\<lambda>a. map_option po_ip (cv_po cv a) = Some ip) (np_objects page) = None"
  proof -
    have all: "\<forall>a. (if a \<in> set (np_objects page) then map_option po_ip (cv_po cv a) else None) \<noteq> Some ip"
      using new page by (auto simp: hosts_on_def graph_of_def ran_def)
    have "map_option po_ip (cv_po cv a) \<noteq> Some ip" if "a \<in> set (np_objects page)" for a
      using spec [OF all, of a] that by simp
    then show ?thesis unfolding find_None_iff by blast
  qed
  moreover have "displayed q (page_object_new\<lparr>po_ip := ip, po_name := Some (case name of Some n \<Rightarrow> n | None \<Rightarrow> ip2str ip)\<rparr>) =
      shown ip name"
  proof -
    have "PAGE_OBJECT_CREATED_NEW AND NOT PAGE_OBJECT_CREATED_NEW = 0" by simp
    then show ?thesis
      by (simp add: shown_def displayed_def display_name_def page_object_new_def ip2str_def inet_aton_dotted split: option.split)
  qed
  ultimately show ?thesis
    using find_ip_find dom page
    by (simp add: add_host_entry_to_net_page_def joined_def [symmetric] display_joined Let_def)
qed

lemma add_new_node:
  assumes ok: "gui_ok w" and page: "net_page_at np (gw_cv w) = Some page"
    and new: "ip \<notin> hosts_on np (graph_of (gw_cv w))"
    and q: "ge_po env (gw_cv w) = Some q" "cv_po (gw_cv w) q = None" and dns: "ge_query env (gw_dns w) = Some k"
    and link: "gui_link env a s (gw_ev w)" "gui_link env (np_agent page) t (gw_ev w)"
    and len: "length (go_os_scan_ports (ge_opts env)) < 60000" "length (ge_stale env 4) = 4"
    and po: "po = shown ip name"
  shows "\<exists>w'. add_discovered_node env a np ip name None True w = Ret (Some q, w') \<and>
    cv_po (gw_cv w') = (cv_po (gw_cv w))(q \<mapsto> po) \<and>
    net_page_at np (gw_cv w') = Some (page\<lparr>np_objects := q # np_objects page\<rparr>) \<and>
    ev_sent (gw_ev w') = ev_sent (gw_ev w) @
      (if go_operating_system_check (ge_opts env) then [(s, os_request env ip np)] else []) @
      (if go_map (ge_opts env) then [(t, map_request env ip np)] else []) \<and>
    gw_dns w' = (if name = None \<and> go_reverse_dns (ge_opts env)
      then (k, \<lparr>dq_hostname = None, dq_ip = Some (dotted ip), dq_timeout_cb = None, dq_answer_cb = REVERSE_LOOKUP_CB,
          dq_flags = DNS_QUERY_FLAGS_REVERSE, dq_data = q\<rparr>) # gw_dns w else gw_dns w) \<and>
    gw_ip_cache w' = gw_ip_cache w"
proof -
  let ?opts = "ge_opts env" and ?cv = "gw_cv w" and ?page = "page\<lparr>np_objects := q # np_objects page\<rparr>"
  have valid: "is_valid_net_page np ?cv" by (simp add: valid_page_graph graph_of_def page)
  have cv: "canvas_ok ?cv" using ok by (simp add: gui_ok_def)
  define w1 where "w1 = w\<lparr>gw_cv := joined np q (shown ip name) ?cv\<rparr>"
  have w1: "cv_po (gw_cv w1) = (cv_po ?cv)(q \<mapsto> shown ip name)" "net_page_at np (gw_cv w1) = Some ?page"
    "gw_ev w1 = gw_ev w" "gw_dns w1 = gw_dns w" "gw_ip_cache w1 = gw_ip_cache w"
    using page by (auto simp: w1_def fun_eq_iff net_page_at_joined)
  have zero: "bswap32 0 = (0 :: u32)" by code_simp
  have flags: "(shown ip name)\<lparr>po_flags := po_flags (shown ip name) AND PAGE_OBJECT_OS_DETECT_SENT\<rparr> = shown ip name"
    by (simp add: shown_def)
  obtain w2 where w2: "(if go_operating_system_check ?opts
      then obind (on_canvas (po_upd q (\<lambda>po. po\<lparr>po_flags := po_flags po AND PAGE_OBJECT_OS_DETECT_SENT\<rparr>)) w1)
             (do_os_scan env a ip np 0) else Ret w1) = Ret w2"
    "cv_po (gw_cv w2) = (cv_po ?cv)(q \<mapsto> po)" "net_page_at np (gw_cv w2) = Some ?page"
    "gw_ev w2 = sent_to s (if go_operating_system_check ?opts then [os_request env ip np] else []) (gw_ev w)"
    "gw_dns w2 = gw_dns w" "gw_ip_cache w2 = gw_ip_cache w"
  proof (cases "go_operating_system_check ?opts")
    case True
    then show thesis
      using that w1 link(1) len(1) flags po
      by (auto simp: on_canvas_def po_upd_def deref_def do_os_scan_def send_request_def gui_send
          os_request_def net_page_at_def zero)
  next
    case False
    then show thesis using that w1 po by simp
  qed
  obtain w3 where w3: "(if go_map ?opts \<and> True then page_object_map env np q w2 else Ret w2) = Ret w3"
    "gw_cv w3 = gw_cv w2" "gw_dns w3 = gw_dns w2" "gw_ip_cache w3 = gw_ip_cache w2"
    "gw_ev w3 = sent_to t (if go_map ?opts then [map_request env ip np] else []) (gw_ev w2)"
  proof (cases "go_map ?opts")
    case True
    have "is_valid_page_object np q (gw_cv w2)" "po_ip po = ip"
      using w2(3) by (simp_all add: is_valid_page_object_def po shown_def)
    then show thesis
      using True that w2(2-4) link(2) len(2)
      by (auto simp: page_object_map_def deref_def do_map_icmp_def send_request_def gui_send map_request_def)
  next
    case False
    then show thesis using that [of w2] by simp
  qed
  obtain w4 where w4: "(if name = None \<and> go_reverse_dns ?opts
      then dns_reverse_lookup env (dotted ip) REVERSE_LOOKUP_CB None q w3 else Ret w3) = Ret w4"
    "gw_cv w4 = gw_cv w3" "gw_ev w4 = gw_ev w3" "gw_ip_cache w4 = gw_ip_cache w3"
    "gw_dns w4 = (if name = None \<and> go_reverse_dns ?opts
      then (k, \<lparr>dq_hostname = None, dq_ip = Some (dotted ip), dq_timeout_cb = None, dq_answer_cb = REVERSE_LOOKUP_CB,
          dq_flags = DNS_QUERY_FLAGS_REVERSE, dq_data = q\<rparr>) # gw_dns w else gw_dns w)"
    using w3(3) w2(5) dns
    by (cases "name = None \<and> go_reverse_dns ?opts") (auto simp: dns_reverse_lookup_def dns_loop_def)
  have "add_discovered_node env a np ip name None True w = Ret (Some q, w4)"
    using valid by (simp only: add_discovered_node_def q(1) new_host_joined [OF cv page new] w1_def [symmetric] Let_def
        obind.simps prod.case option.case option.distinct if_True simp_thms w2(1) w3(1) [simplified simp_thms] w4(1))
  then show ?thesis using w4 w3 w2 by auto
qed

text \<open>
  C28. A discovered host is shown: when the reply of the agent for a host that is not on the page
  comes in, the page gets one object for it, under the name it was asked for or else its
  address, and the name is used up; the client asks for its system and for the way to it as the
  options say, and for its name when it has none; nothing else of the pages is changed.
\<close>

theorem discovered_host_shown:
  assumes "gui_ok w" "net_page_at (pq_np pq) (gw_cv w) = Some page" "ip \<notin> hosts_on (pq_np pq) (graph_of (gw_cv w))"
    "ge_po env (gw_cv w) = Some q" "cv_po (gw_cv w) q = None" "ge_query env (gw_dns w) = Some k"
    "gui_link env a s (gw_ev w)" "gui_link env (np_agent page) t (gw_ev w)"
    "length (go_os_scan_ports (ge_opts env)) < 60000" "length (ge_stale env 4) = 4" "length pad = 4"
    "name = map_of (gw_ip_cache w) ip"
  shows "\<exists>w'. handle_discover_reply env (drop EVENT_HDR_SIZE (discover_reply pad pq ip)) a w = Ret (1, w') \<and>
    cv_po (gw_cv w') = (cv_po (gw_cv w))(q \<mapsto> shown ip name) \<and>
    net_page_at (pq_np pq) (gw_cv w') = Some (page\<lparr>np_objects := q # np_objects page\<rparr>) \<and>
    ev_sent (gw_ev w') = ev_sent (gw_ev w) @
      (if go_operating_system_check (ge_opts env) then [(s, os_request env ip (pq_np pq))] else []) @
      (if go_map (ge_opts env) then [(t, map_request env ip (pq_np pq))] else []) \<and>
    length (gw_dns w') = length (gw_dns w) + (if name = None \<and> go_reverse_dns (ge_opts env) then 1 else 0) \<and>
    gw_ip_cache w' = remove_first (\<lambda>(k, n). k = ip) (gw_ip_cache w)"
proof -
  let ?e = "drop EVENT_HDR_SIZE (discover_reply pad pq ip)"
  let ?w = "w\<lparr>gw_ip_cache := remove_first (\<lambda>(k, n). k = ip) (gw_ip_cache w)\<rparr>"
  have e: "of_be32 ?e = ip" "ptr_of (drop 8 ?e) = pq_np pq"
    using assms(11) by (simp_all add: discover_reply_def EVENT_HDR_SIZE_def)
  have w: "gui_ok ?w" "gw_cv ?w = gw_cv w" "gw_ev ?w = gw_ev w" "gw_dns ?w = gw_dns w"
    using assms(1) by (simp_all add: gui_ok_def)
  have valid: "is_valid_net_page (pq_np pq) (gw_cv w)" by (simp add: valid_page_graph graph_of_def assms(2))
  have run: "handle_discover_reply env ?e a w =
      obind (add_discovered_node env a (pq_np pq) ip name None True ?w) (\<lambda>(po, w). Ret (1, w))"
    using valid assms(12) by (simp add: handle_discover_reply_def e get_ip_cache_def Let_def del: drop_drop)
  from add_new_node [OF w(1), unfolded w(2-4), OF assms(2-10) refl, of name] show ?thesis
    unfolding run by auto
qed

theorem discovered_host_shown_witness:
  "\<exists>w'. handle_discover_reply sample_gui_env (drop EVENT_HDR_SIZE (discover_reply [0, 0, 0, 0] (demo_entry\<lparr>pq_np := 1\<rparr>) 0x0500000A)) 1
      sample_gui = Ret (1, w') \<and>
    cv_po (gw_cv w') = [10 \<mapsto> shown 0x0500000A None] \<and>
    ev_sent (gw_ev w') = [(5, os_request sample_gui_env 0x0500000A 1), (5, map_request sample_gui_env 0x0500000A 1)] \<and>
    length (gw_dns w') = 1"
proof -
  let ?page = "\<lparr>np_objects = [], np_plink = None, np_agent = 1\<rparr>"
  have cv: "canvas_ok (gw_cv sample_gui)"
    by (simp add: canvas_ok_def links_ok_def links_full_def pages_ok_def core_def sample_gui_def net_page_at_def)
  have ok: "gui_ok sample_gui"
    using cv by (simp add: gui_ok_def) (simp add: sample_gui_def map_demo_def)
  have page: "net_page_at (pq_np (demo_entry\<lparr>pq_np := 1\<rparr>)) (gw_cv sample_gui) = Some ?page"
    by (simp add: sample_gui_def net_page_at_def)
  have g: "graph_of (gw_cv sample_gui) = \<lparr>gr_hosts = [1 \<mapsto> Map.empty], gr_edges = {}\<rparr>"
    by (auto simp: graph_of_def sample_gui_def net_page_at_def fun_eq_iff)
  have new: "0x0500000A \<notin> hosts_on (pq_np (demo_entry\<lparr>pq_np := 1\<rparr>)) (graph_of (gw_cv sample_gui))"
    unfolding g by (simp add: hosts_on_def)
  have q: "ge_po sample_gui_env (gw_cv sample_gui) = Some 10" "cv_po (gw_cv sample_gui) 10 = None"
    "ge_query sample_gui_env (gw_dns sample_gui) = Some 50"
    by (simp_all add: sample_gui_env_def sample_gui_def canvas_objects_def)
  have link: "gui_link sample_gui_env (np_agent ?page) 5 (gw_ev sample_gui)" using sample_gui_link by simp
  have len: "length (go_os_scan_ports (ge_opts sample_gui_env)) < 60000" "length (ge_stale sample_gui_env 4) = 4"
    "length [0, 0, 0, 0 :: u8] = 4"
    by (simp_all add: sample_gui_env_def)
  have name: "None = map_of (gw_ip_cache sample_gui) 0x0500000A" by (simp add: sample_gui_def)
  have o: "go_operating_system_check (ge_opts sample_gui_env)" "go_map (ge_opts sample_gui_env)"
    "go_reverse_dns (ge_opts sample_gui_env)" "cv_po (gw_cv sample_gui) = Map.empty" "gw_dns sample_gui = []"
    "ev_sent (gw_ev sample_gui) = []" "pq_np (demo_entry\<lparr>pq_np := 1\<rparr>) = 1"
    by (simp_all add: sample_gui_env_def sample_gui_def map_demo_def ev_init_def)
  from discovered_host_shown [OF ok page new q sample_gui_link link len name] show ?thesis
    unfolding o(4-7) using o(1-3) by auto
qed

end
