(* ===== verification/Monitoring.thy ===== *)
theory Monitoring
  imports Os_Scan
begin

text \<open>
  The tree of things that can be monitored, \<^verbatim>\<open>cheops-monitoring.c\<close>, and what
  \<^verbatim>\<open>gui-monitoring.c\<close> does with it: the tree that the client builds, and the choice of a node by
  its name. A node is known by its address; its children are a list of addresses. \<open>'c\<close> are the
  callbacks, and what a callback does is an argument of the run of a session.
\<close>

section \<open>Nodes\<close>

definition TOPLEVEL_MONITOR_OS :: u32 where "TOPLEVEL_MONITOR_OS = 0"
definition TOPLEVEL_MONITOR_PORT :: u32 where "TOPLEVEL_MONITOR_PORT = 1"
definition TOPLEVEL_MONITOR_STATE :: u32 where "TOPLEVEL_MONITOR_STATE = 2"

definition MONITOR_OS_CHANGE :: u32 where "MONITOR_OS_CHANGE = 0"
definition MONITOR_PORT_OPEN :: u32 where "MONITOR_PORT_OPEN = 0"
definition MONITOR_PORT_VERSION_DOESNT_CHANGE :: u32 where "MONITOR_PORT_VERSION_DOESNT_CHANGE = 1"
definition MONITOR_PORT_NO_NEW_PORTS_ADDED :: u32 where "MONITOR_PORT_NO_NEW_PORTS_ADDED = 2"
definition MONITOR_STATE_PING_HOST :: u32 where "MONITOR_STATE_PING_HOST = 0"
definition MONITOR_STATE_CHECK_PORT :: u32 where "MONITOR_STATE_CHECK_PORT = 1"

definition MONITOR_STATE_OK :: u32 where "MONITOR_STATE_OK = 0"
definition MONITOR_STATE_ERROR :: u32 where "MONITOR_STATE_ERROR = 3"

record 'a monitoring_session =
  ms_id :: "cstring option"
  ms_host :: u32
  ms_user :: "cstring option"
  ms_action :: "cstring option"
  ms_state :: u32
  ms_error :: "cstring option"
  ms_seconds :: u32
  ms_arg :: "'a option"

record 'c monitoring_node =
  mn_name :: "cstring option"
  mn_id :: u32
  mn_callback :: "'c option"
  mn_path :: "cstring option"
  mn_children :: "nat list"

record 'c mon_world =
  mw_node :: "nat \<Rightarrow> 'c monitoring_node option"
  toplevel_list :: "nat list"

definition mon_upd :: "nat \<Rightarrow> ('c monitoring_node \<Rightarrow> 'c monitoring_node) \<Rightarrow> 'c mon_world \<Rightarrow> 'c mon_world" where
  "mon_upd p f w = w\<lparr>mw_node := (mw_node w)(p := map_option f (mw_node w p))\<rparr>"

text \<open>The loop of the searches; \<^verbatim>\<open>strcmp\<close> of the name of a nameless node is undefined.\<close>

primrec mon_search ::
  "('c monitoring_node \<Rightarrow> bool outcome) \<Rightarrow> 'c mon_world \<Rightarrow> nat list \<Rightarrow> nat option outcome" where
  "mon_search test w [] = Ret None"
| "mon_search test w (m # ms) =
     obind (deref (mw_node w) m) (\<lambda>n.
     obind (test n) (\<lambda>hit. if hit then Ret (Some m) else mon_search test w ms))"

definition has_id :: "u32 \<Rightarrow> 'c monitoring_node \<Rightarrow> bool outcome" where
  "has_id i n = Ret (mn_id n = i)"

definition has_name :: "cstring \<Rightarrow> 'c monitoring_node \<Rightarrow> bool outcome" where
  "has_name s n = (case mn_name n of None \<Rightarrow> UB | Some t \<Rightarrow> Ret (t = s))"

definition monitoring_node_find_toplevel :: "u32 \<Rightarrow> 'c mon_world \<Rightarrow> nat option outcome" where
  "monitoring_node_find_toplevel i w = mon_search (has_id i) w (toplevel_list w)"

definition monitoring_node_find :: "nat \<Rightarrow> u32 \<Rightarrow> 'c mon_world \<Rightarrow> nat option outcome" where
  "monitoring_node_find parent child_id w =
     obind (deref (mw_node w) parent) (\<lambda>p. mon_search (has_id child_id) w (mn_children p))"

definition monitoring_node_find_by_name_toplevel :: "cstring \<Rightarrow> 'c mon_world \<Rightarrow> nat option outcome" where
  "monitoring_node_find_by_name_toplevel s w = mon_search (has_name s) w (toplevel_list w)"

definition monitoring_node_find_by_name :: "nat \<Rightarrow> cstring \<Rightarrow> 'c mon_world \<Rightarrow> nat option outcome" where
  "monitoring_node_find_by_name parent s w =
     obind (deref (mw_node w) parent) (\<lambda>p. mon_search (has_name s) w (mn_children p))"

text \<open>\<open>m\<close> is what \<^verbatim>\<open>g_malloc\<close> returns, which never is NULL.\<close>

definition monitoring_node_new ::
  "nat \<Rightarrow> cstring option \<Rightarrow> u32 \<Rightarrow> 'c option \<Rightarrow> 'c mon_world \<Rightarrow> 'c mon_world" where
  "monitoring_node_new m name i cb w =
     w\<lparr>mw_node := (mw_node w)(m \<mapsto>
       \<lparr>mn_name = name, mn_id = i, mn_callback = cb, mn_path = None, mn_children = []\<rparr>)\<rparr>"

text \<open>\<^verbatim>\<open>%d\<close> of an identifier, as the \<^verbatim>\<open>int\<close> with its bits; \<^verbatim>\<open>sprintf\<close> into a buffer of a size.\<close>

definition show_int :: "int \<Rightarrow> string" where
  "show_int i = (if i < 0 then CHR ''-'' # show_nat (nat (- i)) else show_nat (nat i))"

definition sprintf_in :: "nat \<Rightarrow> string \<Rightarrow> string outcome" where
  "sprintf_in k s = (if length s < k then Ret s else UB)"

definition monitoring_node_add_toplevel :: "nat option \<Rightarrow> 'c mon_world \<Rightarrow> (int \<times> 'c mon_world) outcome" where
  "monitoring_node_add_toplevel p w =
     (case p of
        None \<Rightarrow> Ret (1, w)
      | Some m \<Rightarrow>
          obind (deref (mw_node w) m) (\<lambda>n.
          obind (monitoring_node_find_toplevel (mn_id n) w) (\<lambda>hit.
            case hit of
              Some _ \<Rightarrow> Ret (1, w)
            | None \<Rightarrow>
                obind (sprintf_in 100 (show_int (sint (mn_id n)))) (\<lambda>buffer.
                  let w = mon_upd m (mn_path_update (\<lambda>_. Some buffer)) w in
                  Ret (0, w\<lparr>toplevel_list := toplevel_list w @ [m]\<rparr>)))))"

definition monitoring_node_add ::
  "nat option \<Rightarrow> nat option \<Rightarrow> 'c mon_world \<Rightarrow> (int \<times> 'c mon_world) outcome" where
  "monitoring_node_add p q w =
     (case (p, q) of
        (Some parent, Some child) \<Rightarrow>
          obind (deref (mw_node w) child) (\<lambda>n.
          obind (monitoring_node_find parent (mn_id n) w) (\<lambda>hit.
            case hit of
              Some _ \<Rightarrow> Ret (1, w)
            | None \<Rightarrow>
                obind (deref (mw_node w) parent) (\<lambda>pn.
                obind (deref mn_path pn) (\<lambda>path.
                obind (sprintf_in 500 (path @ CHR ''.'' # show_int (sint (mn_id n)))) (\<lambda>buffer.
                  let w = mon_upd child (mn_path_update (\<lambda>_. Some buffer)) w in
                  Ret (0, mon_upd parent (mn_children_update (\<lambda>cs. cs @ [child])) w))))))
      | _ \<Rightarrow> Ret (1, w))"

definition monitoring_list_foreach_toplevel ::
  "(nat \<Rightarrow> 's \<Rightarrow> 's outcome) \<Rightarrow> 'c mon_world \<Rightarrow> 's \<Rightarrow> 's outcome" where
  "monitoring_list_foreach_toplevel f w s = fold (\<lambda>m r. obind r (f m)) (toplevel_list w) (Ret s)"

definition monitoring_list_foreach ::
  "nat \<Rightarrow> (nat \<Rightarrow> 's \<Rightarrow> 's outcome) \<Rightarrow> 'c mon_world \<Rightarrow> 's \<Rightarrow> 's outcome" where
  "monitoring_list_foreach node f w s =
     obind (deref (mw_node w) node) (\<lambda>n. fold (\<lambda>m r. obind r (f m)) (mn_children n) (Ret s))"

section \<open>Sessions\<close>

definition monitoring_session_new :: "cstring option \<Rightarrow> 'a monitoring_session" where
  "monitoring_session_new i =
     \<lparr>ms_id = Some (case i of None \<Rightarrow> [] | Some s \<Rightarrow> s), ms_host = 0, ms_user = None, ms_action = None,
      ms_state = 0, ms_error = None, ms_seconds = 0, ms_arg = None\<rparr>"

text \<open>The tokens of \<^verbatim>\<open>strtok_r(_, ".", _)\<close>; a callback cannot reach the copy that is cut.\<close>

definition no_dot :: "char \<Rightarrow> bool" where "no_dot c \<longleftrightarrow> c \<noteq> CHR ''.''"

function dot_tokens :: "string \<Rightarrow> string list" where
  "dot_tokens s =
     (case dropWhile (\<lambda>c. \<not> no_dot c) s of
        [] \<Rightarrow> []
      | c # cs \<Rightarrow> takeWhile no_dot (c # cs) # dot_tokens (tl (dropWhile no_dot (c # cs))))"
  by auto
termination
proof (relation "measure length")
  fix s :: string and c cs
  assume a: "dropWhile (\<lambda>c. \<not> no_dot c) s = c # cs"
  then have "no_dot c" using hd_dropWhile [of "\<lambda>c. \<not> no_dot c" s] by simp
  then have "length (tl (dropWhile no_dot (c # cs))) \<le> length cs"
    using length_dropWhile_le [of no_dot cs] by simp
  moreover have "Suc (length cs) \<le> length s"
    using a length_dropWhile_le [of "\<lambda>c. \<not> no_dot c" s] by simp
  ultimately show "(tl (dropWhile no_dot (c # cs)), s) \<in> measure length" by simp
qed simp

declare dot_tokens.simps [simp del]

definition session_error :: "cstring \<Rightarrow> 'a monitoring_session \<Rightarrow> 'a monitoring_session" where
  "session_error text s = s\<lparr>ms_error := Some text, ms_state := MONITOR_STATE_ERROR\<rparr>"

type_synonym ('a, 'c) monitoring_call =
  "'c \<Rightarrow> nat \<Rightarrow> 'a monitoring_session \<Rightarrow> 'c mon_world \<Rightarrow> ('a monitoring_session \<times> 'c mon_world) outcome"

primrec session_loop ::
  "('a, 'c) monitoring_call \<Rightarrow> string list \<Rightarrow> nat option \<Rightarrow> 'a monitoring_session \<Rightarrow> 'c mon_world
     \<Rightarrow> (u32 \<times> 'a monitoring_session \<times> 'c mon_world) outcome" where
  "session_loop call [] m s w = Ret (ms_state s, s, w)"
| "session_loop call (it # its) m s w =
     (let value = word_of_int (atoi it) in
      obind (case m of Some p \<Rightarrow> monitoring_node_find p value w | None \<Rightarrow> monitoring_node_find_toplevel value w)
        (\<lambda>hit.
          case hit of
            Some k \<Rightarrow>
              obind (deref (mw_node w) k) (\<lambda>n.
              obind (deref mn_callback n) (\<lambda>f.
              obind (call f k s w) (\<lambda>(s, w). session_loop call its (Some k) s w)))
          | None \<Rightarrow>
              Ret (MONITOR_STATE_ERROR,
                   session_error (case m of Some _ \<Rightarrow> ''monitoring node not found''
                                  | None \<Rightarrow> ''toplevel monitoring node not found'') s, w)))"

definition monitoring_session_run ::
  "('a, 'c) monitoring_call \<Rightarrow> 'a monitoring_session option \<Rightarrow> 'c mon_world
     \<Rightarrow> (u32 \<times> 'a monitoring_session option \<times> 'c mon_world) outcome" where
  "monitoring_session_run call session w =
     (case session of
        None \<Rightarrow> Ret (MONITOR_STATE_ERROR, None, w)
      | Some s \<Rightarrow>
          let s = s\<lparr>ms_state := MONITOR_STATE_OK\<rparr> in
          (case ms_id s of
             None \<Rightarrow> Ret (MONITOR_STATE_ERROR, Some (session_error ''ran out of memory'' s), w)
           | Some i \<Rightarrow>
               obind (session_loop call (dot_tokens i) None s w) (\<lambda>(r, s, w). Ret (r, Some s, w))))"

section \<open>The tree of the client\<close>

datatype gui_monitoring_cb =
    Gui_os | Gui_port | Gui_state | Gui_os_change | Gui_port_open | Gui_port_no_change
  | Gui_port_no_new_ports | Gui_state_ping_host | Gui_state_check_port

type_synonym 'c monitoring_values = "(cstring \<times> u32 \<times> 'c) list"

definition toplevel_monitoring_default_values :: "gui_monitoring_cb monitoring_values" where
  "toplevel_monitoring_default_values =
     [(''OS'', TOPLEVEL_MONITOR_OS, Gui_os), (''port'', TOPLEVEL_MONITOR_PORT, Gui_port),
      (''state'', TOPLEVEL_MONITOR_STATE, Gui_state)]"

definition os_monitoring_default_values :: "gui_monitoring_cb monitoring_values" where
  "os_monitoring_default_values = [(''making sure it does not change'', MONITOR_OS_CHANGE, Gui_os_change)]"

definition port_monitoring_default_values :: "gui_monitoring_cb monitoring_values" where
  "port_monitoring_default_values =
     [(''checking if it is open'', MONITOR_PORT_OPEN, Gui_port_open),
      (''making sure the version does not change'', MONITOR_PORT_VERSION_DOESNT_CHANGE, Gui_port_no_change),
      (''making sure no new ports open up'', MONITOR_PORT_NO_NEW_PORTS_ADDED, Gui_port_no_new_ports)]"

definition state_monitoring_default_values :: "gui_monitoring_cb monitoring_values" where
  "state_monitoring_default_values =
     [(''pinging the host'', MONITOR_STATE_PING_HOST, Gui_state_ping_host),
      (''checking a port'', MONITOR_STATE_CHECK_PORT, Gui_state_check_port)]"

fun add_values ::
  "(nat option \<Rightarrow> 'c mon_world \<Rightarrow> (int \<times> 'c mon_world) outcome) \<Rightarrow> nat list \<Rightarrow> 'c monitoring_values
     \<Rightarrow> 'c mon_world \<Rightarrow> 'c mon_world outcome" where
  "add_values add (m # ms) ((name, i, cb) # vs) w =
     obind (add (Some m) (monitoring_node_new m (Some name) i (Some cb) w)) (\<lambda>(r, w). add_values add ms vs w)"
| "add_values add ms vs w = Ret w"

definition add_values_below ::
  "u32 \<Rightarrow> nat list \<Rightarrow> 'c monitoring_values \<Rightarrow> 'c mon_world \<Rightarrow> 'c mon_world outcome" where
  "add_values_below i ms vs w =
     obind (monitoring_node_find_toplevel i w) (\<lambda>parent.
       case parent of
         None \<Rightarrow> Ret w
       | Some p \<Rightarrow> add_values (monitoring_node_add (Some p)) ms vs w)"

text \<open>\<open>ms\<close> are the addresses of the nodes, in the order of their allocation.\<close>

definition gui_monitoring_init ::
  "nat list \<times> nat list \<times> nat list \<times> nat list \<Rightarrow> gui_monitoring_cb mon_world \<Rightarrow> gui_monitoring_cb mon_world outcome" where
  "gui_monitoring_init ms w =
     (case ms of (tops, oss, ports, states) \<Rightarrow>
      obind (add_values monitoring_node_add_toplevel tops toplevel_monitoring_default_values w) (\<lambda>w.
      obind (add_values_below TOPLEVEL_MONITOR_OS oss os_monitoring_default_values w) (\<lambda>w.
      obind (add_values_below TOPLEVEL_MONITOR_PORT ports port_monitoring_default_values w) (\<lambda>w.
        add_values_below TOPLEVEL_MONITOR_STATE states state_monitoring_default_values w))))"

text \<open>The names offered for a choice, and the choice: \<open>str\<close> is the text of the entry.\<close>

definition gui_monitoring_add_names_to_list ::
  "'c mon_world \<Rightarrow> nat \<Rightarrow> cstring option list \<Rightarrow> cstring option list outcome" where
  "gui_monitoring_add_names_to_list w node xs = obind (deref (mw_node w) node) (\<lambda>n. Ret (xs @ [mn_name n]))"

definition gui_monitoring_append ::
  "nat option \<Rightarrow> cstring \<Rightarrow> 'c mon_world \<Rightarrow> 'a monitoring_session \<Rightarrow> 'a monitoring_session outcome" where
  "gui_monitoring_append m str w mon =
     obind (case m of
              Some p \<Rightarrow> monitoring_node_find_by_name p str w
            | None \<Rightarrow> monitoring_node_find_by_name_toplevel str w) (\<lambda>hit.
       case hit of
         None \<Rightarrow> Ret mon
       | Some k \<Rightarrow> obind (deref (mw_node w) k) (\<lambda>n. Ret (mon\<lparr>ms_id := mn_path n\<rparr>)))"

section \<open>Texts of identifiers and paths\<close>

lemma show_nat_chars: "c \<in> set (show_nat n) \<Longrightarrow> digit_val c < 10"
  using show_nat_fuel_digits by (simp add: show_nat_def)

lemma show_int_dotless: "\<forall>c \<in> set (show_int i). no_dot c" "show_int i \<noteq> []"
proof -
  have "digit_val (CHR ''.'') = 99" by (simp add: digit_val_def)
  then have "\<forall>c \<in> set (show_nat n). no_dot c" for n
    using show_nat_chars [of "CHR ''.''" n] by (auto simp: no_dot_def)
  then show "\<forall>c \<in> set (show_int i). no_dot c" by (auto simp: show_int_def no_dot_def)
  show "show_int i \<noteq> []" using show_nat_head(2) [of "nat i" "[]"] by (simp add: show_int_def)
qed

lemma atoi_show_int:
  assumes "- (2 ^ 31) \<le> i" "i < 2 ^ 31"
  shows "atoi (show_int i) = i"
proof (cases "i < 0")
  case True
  have "read_digits 10 0 (show_nat (nat (- i))) = (nat (- i), [])"
    using read_digits_show [of "nat (- i)" "[]"] assms by simp
  moreover have "\<not> c_isspace (CHR ''-'')" by (simp add: c_isspace_def)
  ultimately have "strtol10 (show_int i) = i"
    using True assms by (simp add: strtol10_def show_int_def Let_def)
  then show ?thesis using assms by (simp add: atoi_def to_int32_id)
next
  case False
  then show ?thesis using atoi_show_nat [of "nat i"] assms by (simp add: show_int_def)
qed

lemma atoi_show_id: "word_of_int (atoi (show_int (sint (i :: u32)))) = i"
  using sint_greater_eq [of i] sint_less [of i] by (simp add: atoi_show_int)

lemma dot_tokens_dots: "\<forall>c \<in> set s. \<not> no_dot c \<Longrightarrow> dot_tokens s = []"
  by (simp add: dot_tokens.simps [of s] dropWhile_eq_Nil_conv [THEN iffD2])

lemma dot_tokens_word:
  assumes "\<forall>c \<in> set t. no_dot c" "t \<noteq> []"
  shows "dot_tokens (t @ CHR ''.'' # r) = t # dot_tokens r" "dot_tokens t = [t]"
proof -
  obtain c cs where t: "t = c # cs" "no_dot c" using assms by (cases t) auto
  have d: "\<not> no_dot (CHR ''.'')" by (simp add: no_dot_def)
  have "takeWhile no_dot (t @ CHR ''.'' # r) = t" "dropWhile no_dot (t @ CHR ''.'' # r) = CHR ''.'' # r"
    using assms(1) d by simp_all
  then show "dot_tokens (t @ CHR ''.'' # r) = t # dot_tokens r"
    using t dot_tokens.simps [of "t @ CHR ''.'' # r"] by simp
  show "dot_tokens t = [t]"
    using t assms(1) dot_tokens.simps [of t] dot_tokens_dots [of "[]"]
    by (simp add: dropWhile_eq_Nil_conv [THEN iffD2] takeWhile_eq_all_conv [THEN iffD2])
qed

definition dots :: "string list \<Rightarrow> string" where
  "dots ts = tl (concat (map (\<lambda>t. CHR ''.'' # t) ts))"

lemma dot_tokens_dots_of:
  assumes "\<forall>t \<in> set ts. (\<forall>c \<in> set t. no_dot c) \<and> t \<noteq> []"
  shows "dot_tokens (dots ts) = ts"
  using assms
proof (induction ts)
  case Nil
  then show ?case by (simp add: dots_def dot_tokens_dots)
next
  case (Cons t ts)
  show ?case
  proof (cases ts)
    case (Cons u us)
    then have "dots (t # ts) = t @ CHR ''.'' # dots ts" by (simp add: dots_def)
    then show ?thesis using Cons.IH Cons.prems dot_tokens_word(1) [of t "dots ts"] by simp
  qed (use Cons.prems dot_tokens_word(2) in \<open>simp add: dots_def\<close>)
qed

lemma dots_snoc: "ts \<noteq> [] \<Longrightarrow> dots (ts @ [t]) = dots ts @ CHR ''.'' # t"
  by (cases ts) (simp_all add: dots_def)

section \<open>Trees that are built from the top\<close>

text \<open>
  The node that is added is one that no list holds yet: it has no path. Everything else is as the
  callers please; a call that fails leaves the tree as it is.
\<close>

inductive mon_reach :: "'c mon_world \<Rightarrow> bool" where
  start: "mon_reach \<lparr>mw_node = (\<lambda>_. None), toplevel_list = []\<rparr>"
| new: "mon_reach w \<Longrightarrow> mw_node w m = None \<Longrightarrow> mon_reach (monitoring_node_new m name i cb w)"
| top: "mon_reach w \<Longrightarrow> mw_node w m = Some n \<Longrightarrow> mn_path n = None \<Longrightarrow>
    monitoring_node_add_toplevel (Some m) w = Ret (r, w') \<Longrightarrow> mon_reach w'"
| below: "mon_reach w \<Longrightarrow> mw_node w m = Some n \<Longrightarrow> mn_path n = None \<Longrightarrow>
    monitoring_node_add p (Some m) w = Ret (r, w') \<Longrightarrow> mon_reach w'"

text \<open>The nodes from the top down to a node.\<close>

inductive mon_way :: "'c mon_world \<Rightarrow> nat list \<Rightarrow> nat \<Rightarrow> bool" for w where
  top: "m \<in> set (toplevel_list w) \<Longrightarrow> mon_way w [m] m"
| below: "mon_way w ms p \<Longrightarrow> mw_node w p = Some n \<Longrightarrow> c \<in> set (mn_children n) \<Longrightarrow> mon_way w (ms @ [c]) c"

definition id_of :: "'c mon_world \<Rightarrow> nat \<Rightarrow> u32" where
  "id_of w m = (case mw_node w m of None \<Rightarrow> 0 | Some n \<Rightarrow> mn_id n)"

definition path_of :: "'c mon_world \<Rightarrow> nat \<Rightarrow> cstring option" where
  "path_of w m = (case mw_node w m of None \<Rightarrow> None | Some n \<Rightarrow> mn_path n)"

definition children_of :: "'c mon_world \<Rightarrow> nat \<Rightarrow> nat list" where
  "children_of w m = (case mw_node w m of None \<Rightarrow> [] | Some n \<Rightarrow> mn_children n)"

definition id_text :: "'c mon_world \<Rightarrow> nat \<Rightarrow> string" where
  "id_text w m = show_int (sint (id_of w m))"

definition mon_ok :: "'c mon_world \<Rightarrow> bool" where
  "mon_ok w \<longleftrightarrow>
     distinct (map (id_of w) (toplevel_list w)) \<and>
     (\<forall>p. distinct (map (id_of w) (children_of w p))) \<and>
     (\<forall>p. path_of w p = None \<longrightarrow> children_of w p = []) \<and>
     (\<forall>m \<in> set (toplevel_list w). path_of w m = Some (id_text w m)) \<and>
     (\<forall>p s. path_of w p = Some s \<longrightarrow>
        (\<forall>c \<in> set (children_of w p). path_of w c = Some (s @ CHR ''.'' # id_text w c)))"

lemma mon_okI:
  assumes "distinct (map (id_of w) (toplevel_list w))"
    "\<And>p. distinct (map (id_of w) (children_of w p))"
    "\<And>p. path_of w p = None \<Longrightarrow> children_of w p = []"
    "\<And>m. m \<in> set (toplevel_list w) \<Longrightarrow> path_of w m = Some (id_text w m)"
    "\<And>p s c. path_of w p = Some s \<Longrightarrow> c \<in> set (children_of w p) \<Longrightarrow>
       path_of w c = Some (s @ CHR ''.'' # id_text w c)"
  shows "mon_ok w"
  using assms unfolding mon_ok_def by blast

lemma mon_okD:
  assumes "mon_ok w"
  shows "distinct (map (id_of w) (toplevel_list w))"
    "distinct (map (id_of w) (children_of w p))"
    "path_of w p = None \<Longrightarrow> children_of w p = []"
    "m \<in> set (toplevel_list w) \<Longrightarrow> path_of w m = Some (id_text w m)"
    "path_of w p = Some s \<Longrightarrow> c \<in> set (children_of w p) \<Longrightarrow>
       path_of w c = Some (s @ CHR ''.'' # id_text w c)"
  using assms unfolding mon_ok_def by blast+

lemma path_of_Some: "path_of w m = Some s \<longleftrightarrow> (\<exists>n. mw_node w m = Some n \<and> mn_path n = Some s)"
  by (auto simp: path_of_def split: option.splits)

lemma mon_search_ids:
  assumes "\<forall>m \<in> set ms. path_of w m \<noteq> None"
  shows "mon_search (has_id i) w ms = Ret (find (\<lambda>m. id_of w m = i) ms)"
  using assms by (induction ms) (auto simp: path_of_Some has_id_def id_of_def)

lemma find_distinct: "distinct (map f xs) \<Longrightarrow> x \<in> set xs \<Longrightarrow> find (\<lambda>y. f y = f x) xs = Some x"
  by (induction xs) (auto simp: image_iff)

lemma in_tree:
  assumes "mon_ok w"
  shows "\<forall>m \<in> set (toplevel_list w). path_of w m \<noteq> None" "\<forall>m \<in> set (children_of w p). path_of w m \<noteq> None"
proof -
  show "\<forall>m \<in> set (toplevel_list w). path_of w m \<noteq> None" using mon_okD(4) [OF assms] by simp
  show "\<forall>m \<in> set (children_of w p). path_of w m \<noteq> None"
    using mon_okD(3) [OF assms, of p] mon_okD(5) [OF assms, of p] by (cases "path_of w p") auto
qed

lemma find_toplevel_ok:
  "mon_ok w \<Longrightarrow> monitoring_node_find_toplevel i w = Ret (find (\<lambda>m. id_of w m = i) (toplevel_list w))"
  by (simp add: monitoring_node_find_toplevel_def mon_search_ids in_tree(1))

lemma find_ok:
  assumes "mon_ok w" "mw_node w p = Some n"
  shows "monitoring_node_find p i w = Ret (find (\<lambda>m. id_of w m = i) (children_of w p))"
  using assms in_tree(2) [OF assms(1), of p]
  by (simp add: monitoring_node_find_def mon_search_ids children_of_def deref_def)

lemma of_upd [simp]:
  "id_of (mon_upd m (mn_path_update g) w) x = id_of w x"
  "id_of (mon_upd m (mn_children_update h) w) x = id_of w x"
  "children_of (mon_upd m (mn_path_update g) w) x = children_of w x"
  "path_of (mon_upd m (mn_children_update h) w) x = path_of w x"
  "toplevel_list (mon_upd m f w) = toplevel_list w"
  "id_of (w\<lparr>toplevel_list := l\<rparr>) x = id_of w x"
  "path_of (w\<lparr>toplevel_list := l\<rparr>) x = path_of w x"
  "children_of (w\<lparr>toplevel_list := l\<rparr>) x = children_of w x"
  by (auto simp: id_of_def children_of_def path_of_def mon_upd_def split: option.splits)

lemma path_of_upd:
  "mw_node w m = Some n \<Longrightarrow>
     path_of (mon_upd m (mn_path_update (\<lambda>_. Some s)) w) x = (if x = m then Some s else path_of w x)"
  by (simp add: path_of_def mon_upd_def)

lemma children_of_upd:
  "mw_node w p = Some n \<Longrightarrow>
     children_of (mon_upd p (mn_children_update g) w) x = (if x = p then g (children_of w p) else children_of w x)"
  by (simp add: children_of_def mon_upd_def)

lemma unlisted:
  assumes "mon_ok w" "path_of w m = None"
  shows "m \<notin> set (toplevel_list w)" "m \<notin> set (children_of w p)" "children_of w m = []"
  using in_tree(1) [OF assms(1)] in_tree(2) [OF assms(1), of p] assms mon_okD(3) [OF assms(1), of m] by auto

lemma id_text_cong: "id_of w' m = id_of w m \<Longrightarrow> id_text w' m = id_text w m"
  by (simp add: id_text_def)

lemma mon_ok_new:
  assumes "mon_ok w" "mw_node w m = None"
  shows "mon_ok (monitoring_node_new m name i cb w)"
proof -
  let ?w = "monitoring_node_new m name i cb w"
  have u: "m \<notin> set (toplevel_list w)" "m \<notin> set (children_of w p)" for p
    using unlisted [OF assms(1), of m] assms(2) by (simp_all add: path_of_def)
  have e: "path_of ?w = path_of w" "children_of ?w = children_of w" "toplevel_list ?w = toplevel_list w"
    using assms(2) by (auto simp: path_of_def children_of_def monitoring_node_new_def fun_eq_iff)
  have i: "id_of ?w x = id_of w x" if "x \<noteq> m" for x
    using that by (simp add: id_of_def monitoring_node_new_def)
  then have t: "id_text ?w x = id_text w x" if "x \<noteq> m" for x using that by (simp add: id_text_def)
  have d: "map (id_of ?w) (toplevel_list w) = map (id_of w) (toplevel_list w)"
    "map (id_of ?w) (children_of w p) = map (id_of w) (children_of w p)" for p
    using u i by (metis map_cong)+
  show ?thesis
  proof (rule mon_okI, unfold e d)
    fix x assume "x \<in> set (toplevel_list w)"
    moreover then have "x \<noteq> m" using u(1) by auto
    ultimately show "path_of w x = Some (id_text ?w x)" using mon_okD(4) [OF assms(1), of x] t by simp
  next
    fix p s c assume "path_of w p = Some s" "c \<in> set (children_of w p)"
    moreover then have "c \<noteq> m" using u(2) [of p] by auto
    ultimately show "path_of w c = Some (s @ CHR ''.'' # id_text ?w c)"
      using mon_okD(5) [OF assms(1), of p s c] t by simp
  qed (use mon_okD(1-3) [OF assms(1)] in auto)
qed

lemma find_none_id: "find (\<lambda>m. f m = i) xs = None \<longleftrightarrow> i \<notin> f ` set xs"
  by (auto simp: find_None_iff)

lemma mon_ok_add_toplevel:
  assumes "mon_ok w" "mw_node w m = Some n" "mn_path n = None"
    "monitoring_node_add_toplevel (Some m) w = Ret (r, w')"
  shows "mon_ok w'"
proof (cases "find (\<lambda>x. id_of w x = mn_id n) (toplevel_list w)")
  case (Some k)
  then show ?thesis using assms by (simp add: monitoring_node_add_toplevel_def find_toplevel_ok)
next
  case None
  let ?v = "mon_upd m (mn_path_update (\<lambda>_. Some (id_text w m))) w"
  have i: "id_of w m = mn_id n" using assms(2) by (simp add: id_of_def)
  have w': "w' = ?v\<lparr>toplevel_list := toplevel_list w @ [m]\<rparr>"
    using assms None by (auto simp: monitoring_node_add_toplevel_def find_toplevel_ok sprintf_in_def Let_def
        id_text_def i split: if_splits)
  have p: "path_of w' x = (if x = m then Some (id_text w m) else path_of w x)" for x
    using assms(2) by (simp add: w' path_of_upd)
  have e: "id_of w' = id_of w" "children_of w' = children_of w" by (simp_all add: w' fun_eq_iff)
  then have t: "id_text w' = id_text w" by (simp add: id_text_def fun_eq_iff)
  have u: "m \<notin> set (children_of w p)" "children_of w m = []" for p
    using unlisted [OF assms(1), of m] assms(2,3) by (simp_all add: path_of_def)
  show ?thesis
  proof (rule mon_okI)
    show "distinct (map (id_of w') (toplevel_list w'))"
      using mon_okD(1) [OF assms(1)] None i by (simp add: e) (simp add: w' find_none_id)
  next
    fix p show "distinct (map (id_of w') (children_of w' p))" using mon_okD(2) [OF assms(1)] by (simp add: e)
  next
    fix p assume "path_of w' p = None"
    then show "children_of w' p = []" using mon_okD(3) [OF assms(1), of p] by (simp add: e p split: if_splits)
  next
    fix x assume "x \<in> set (toplevel_list w')"
    then have "x = m \<or> x \<in> set (toplevel_list w)" by (auto simp: w')
    then show "path_of w' x = Some (id_text w' x)" using mon_okD(4) [OF assms(1), of x] by (auto simp: p t)
  next
    fix p s c assume "path_of w' p = Some s" "c \<in> set (children_of w' p)"
    then show "path_of w' c = Some (s @ CHR ''.'' # id_text w' c)"
      using u(1) [of p] u(2) mon_okD(5) [OF assms(1), of p s c] by (auto simp: e p t split: if_splits)
  qed
qed

lemma mon_ok_add:
  assumes "mon_ok w" "mw_node w m = Some n" "mn_path n = None"
    "monitoring_node_add q (Some m) w = Ret (r, w')"
  shows "mon_ok w'"
proof (cases q)
  case None
  then show ?thesis using assms by (simp add: monitoring_node_add_def)
next
  case q: (Some q)
  show ?thesis
  proof (cases "mw_node w q")
    case None
    then show ?thesis
      using assms q by (simp add: monitoring_node_add_def monitoring_node_find_def deref_def)
  next
    case qn: (Some qn)
    show ?thesis
    proof (cases "find (\<lambda>x. id_of w x = mn_id n) (children_of w q)")
      case (Some k)
      then show ?thesis using assms q qn by (simp add: monitoring_node_add_def find_ok)
    next
      case None
      have i: "id_of w m = mn_id n" using assms(2) by (simp add: id_of_def)
      obtain s where s: "path_of w q = Some s"
          and w': "w' = mon_upd q (mn_children_update (\<lambda>cs. cs @ [m]))
            (mon_upd m (mn_path_update (\<lambda>_. Some (s @ CHR ''.'' # id_text w m))) w)"
        using assms None q qn by (auto simp: monitoring_node_add_def find_ok sprintf_in_def Let_def
            id_text_def i path_of_def split: if_splits)
      have mq: "m \<noteq> q" using s assms(2,3) by (auto simp: path_of_def)
      have p: "path_of w' x = (if x = m then Some (s @ CHR ''.'' # id_text w m) else path_of w x)" for x
        using assms(2) by (simp add: w' path_of_upd)
      have c: "children_of w' x = (if x = q then children_of w q @ [m] else children_of w x)" for x
        using qn mq by (simp add: w' children_of_def mon_upd_def split: option.splits)
      have e: "id_of w' = id_of w" "toplevel_list w' = toplevel_list w" by (simp_all add: w' fun_eq_iff)
      then have t: "id_text w' = id_text w" by (simp add: id_text_def fun_eq_iff)
      have u: "m \<notin> set (toplevel_list w)" "m \<notin> set (children_of w p)" "children_of w m = []" for p
        using unlisted [OF assms(1), of m] assms(2,3) by (simp_all add: path_of_def)
      show ?thesis
      proof (rule mon_okI)
        show "distinct (map (id_of w') (toplevel_list w'))" using mon_okD(1) [OF assms(1)] by (simp add: e)
      next
        fix x show "distinct (map (id_of w') (children_of w' x))"
          using mon_okD(2) [OF assms(1), of x] None i by (auto simp: e c find_none_id)
      next
        fix x assume "path_of w' x = None"
        then show "children_of w' x = []"
          using mon_okD(3) [OF assms(1), of x] s by (auto simp: c p split: if_splits)
      next
        fix x assume "x \<in> set (toplevel_list w')"
        then show "path_of w' x = Some (id_text w' x)"
          using mon_okD(4) [OF assms(1), of x] u(1) by (auto simp: p t e)
      next
        fix x r d assume "path_of w' x = Some r" "d \<in> set (children_of w' x)"
        then show "path_of w' d = Some (r @ CHR ''.'' # id_text w' d)"
          using u(2) [of x] u(2) [of q] u(3) mon_okD(5) [OF assms(1), of x r d] mq s by (auto simp: c p t split: if_splits)
      qed
    qed
  qed
qed

lemma mon_reach_ok: "mon_reach w \<Longrightarrow> mon_ok w"
proof (induction rule: mon_reach.induct)
  case start
  then show ?case by (auto intro!: mon_okI simp: children_of_def path_of_def)
qed (auto intro: mon_ok_new mon_ok_add mon_ok_add_toplevel)

section \<open>What a session runs\<close>

text \<open>
  The reference: the identifiers are followed from the top, the callbacks of the nodes on the way
  are called in that order, and the walk ends where no child has the identifier.
\<close>

fun follow :: "'c mon_world \<Rightarrow> nat list \<Rightarrow> u32 list \<Rightarrow> nat list \<times> bool" where
  "follow w cs [] = ([], True)"
| "follow w cs (i # is) =
     (case find (\<lambda>m. id_of w m = i) cs of
        None \<Rightarrow> ([], False)
      | Some k \<Rightarrow> (case follow w (children_of w k) is of (ks, found) \<Rightarrow> (k # ks, found)))"

definition ids_of :: "cstring \<Rightarrow> u32 list" where
  "ids_of s = map (\<lambda>t. word_of_int (atoi t)) (dot_tokens s)"

definition callback_of :: "'c mon_world \<Rightarrow> nat \<Rightarrow> 'c option" where
  "callback_of w m = (case mw_node w m of None \<Rightarrow> None | Some n \<Rightarrow> mn_callback n)"

definition run_all ::
  "('c \<Rightarrow> nat \<Rightarrow> 'a monitoring_session \<Rightarrow> 'a monitoring_session) \<Rightarrow> 'c mon_world \<Rightarrow> nat list
     \<Rightarrow> 'a monitoring_session \<Rightarrow> 'a monitoring_session" where
  "run_all act w ks s = fold (\<lambda>k. act (the (callback_of w k)) k) ks s"

definition walk_result ::
  "nat list \<times> bool \<Rightarrow> bool \<Rightarrow> (nat list \<Rightarrow> 'a monitoring_session) \<Rightarrow> u32 \<times> 'a monitoring_session" where
  "walk_result r from_top run =
     (case r of (ks, found) \<Rightarrow>
        if found then (ms_state (run ks), run ks)
        else (MONITOR_STATE_ERROR,
              session_error (if from_top \<and> ks = [] then ''toplevel monitoring node not found''
                             else ''monitoring node not found'') (run ks)))"

lemma tree_nodes:
  assumes "mon_ok w"
  shows "k \<in> set (toplevel_list w) \<Longrightarrow> \<exists>n. mw_node w k = Some n"
    "k \<in> set (children_of w p) \<Longrightarrow> \<exists>n. mw_node w k = Some n"
  using in_tree(1) [OF assms] in_tree(2) [OF assms, of p] by (auto simp: path_of_Some)

lemma session_loop_follow:
  assumes "mon_ok w" "\<forall>k n. mw_node w k = Some n \<longrightarrow> mn_callback n \<noteq> None"
    "\<forall>f k s. call f k s w = Ret (act f k s, w)"
    "case m of None \<Rightarrow> cs = toplevel_list w | Some p \<Rightarrow> (\<exists>n. mw_node w p = Some n) \<and> cs = children_of w p"
  shows "session_loop call its m s w =
      (case walk_result (follow w cs (map (\<lambda>t. word_of_int (atoi t)) its)) (m = None) (\<lambda>ks. run_all act w ks s) of
         (r, s) \<Rightarrow> Ret (r, s, w))"
  using assms(4)
proof (induction its arbitrary: m cs s)
  case Nil
  then show ?case by (simp add: walk_result_def run_all_def)
next
  case (Cons it its)
  let ?i = "word_of_int (atoi it) :: u32"
  have hit: "(case m of Some p \<Rightarrow> monitoring_node_find p ?i w | None \<Rightarrow> monitoring_node_find_toplevel ?i w) =
      Ret (find (\<lambda>m. id_of w m = ?i) cs)"
    using Cons.prems assms(1) by (auto simp: find_ok find_toplevel_ok split: option.splits)
  show ?case
  proof (cases "find (\<lambda>m. id_of w m = ?i) cs")
    case None
    then show ?thesis using hit
      by (simp add: walk_result_def run_all_def Let_def split: option.splits)
  next
    case (Some k)
    then have "k \<in> set cs" by (auto simp: find_Some_iff)
    then obtain n where n: "mw_node w k = Some n"
      using Cons.prems tree_nodes [OF assms(1)] by (auto split: option.splits)
    then obtain f where f: "mn_callback n = Some f" using assms(2) by blast
    have "session_loop call (it # its) m s w = session_loop call its (Some k) (act f k s) w"
      using hit Some n f assms(3) by (simp add: deref_def Let_def)
    moreover have "the (callback_of w k) = f" using n f by (simp add: callback_of_def)
    ultimately show ?thesis
      using Cons.IH [of "children_of w k" "Some k" "act f k s"] n Some
      by (simp add: walk_result_def run_all_def split: prod.splits)
  qed
qed

lemma mon_way_path:
  assumes "mon_ok w" "mon_way w ms m"
  shows "ms \<noteq> [] \<and> path_of w m = Some (dots (map (id_text w) ms))"
  using assms(2)
proof (induction rule: mon_way.induct)
  case (top m)
  then show ?case using mon_okD(4) [OF assms(1)] by (simp add: dots_def)
next
  case (below ms p n c)
  then have "c \<in> set (children_of w p)" by (simp add: children_of_def)
  then show ?case
    using below.IH mon_okD(5) [OF assms(1), of p] by (auto simp: dots_snoc)
qed

lemma ids_of_dots: "ids_of (dots (map (id_text w) ms)) = map (id_of w) ms"
  using show_int_dotless by (simp add: ids_of_def dot_tokens_dots_of id_text_def atoi_show_id)

lemma follow_append:
  "follow w cs (is @ js) =
     (case follow w cs is of
        (ks, False) \<Rightarrow> (ks, False)
      | (ks, True) \<Rightarrow>
          (case follow w (if ks = [] then cs else children_of w (last ks)) js of (ls, found) \<Rightarrow> (ks @ ls, found)))"
  by (induction "is" arbitrary: cs) (auto split: option.splits prod.splits bool.splits)

lemma mon_way_follow:
  assumes "mon_ok w" "mon_way w ms m"
  shows "follow w (toplevel_list w) (map (id_of w) ms) = (ms, True) \<and> last ms = m \<and> ms \<noteq> []"
  using assms(2)
proof (induction rule: mon_way.induct)
  case (top m)
  then show ?case using mon_okD(1) [OF assms(1)] by (simp add: find_distinct)
next
  case (below ms p n c)
  then have "c \<in> set (children_of w p)" by (simp add: children_of_def)
  then show ?case
    using below.IH mon_okD(2) [OF assms(1), of p] by (simp add: follow_append find_distinct)
qed

text \<open>
  C29. In a tree that is built from the top, a session does for any text of identifiers what the
  reference does: it calls the callbacks of the nodes that the identifiers lead to, from the top
  down, each once, and ends with the error of the level where no node has the identifier. The path
  that is stored in a node leads to exactly this node.
\<close>

theorem session_follows_path:
  assumes "mon_reach w" "\<forall>k n. mw_node w k = Some n \<longrightarrow> mn_callback n \<noteq> None"
    "\<forall>f k s. call f k s w = Ret (act f k s, w)" "ms_id s = Some i"
  shows "monitoring_session_run call (Some s) w =
      (case walk_result (follow w (toplevel_list w) (ids_of i)) True
              (\<lambda>ks. run_all act w ks (s\<lparr>ms_state := MONITOR_STATE_OK\<rparr>)) of
         (r, s) \<Rightarrow> Ret (r, Some s, w)) \<and>
    (\<forall>ms m. mon_way w ms m \<longrightarrow>
      (\<exists>p. path_of w m = Some p \<and> follow w (toplevel_list w) (ids_of p) = (ms, True) \<and> last ms = m))"
proof
  have ok: "mon_ok w" using assms(1) by (rule mon_reach_ok)
  show "monitoring_session_run call (Some s) w =
      (case walk_result (follow w (toplevel_list w) (ids_of i)) True
              (\<lambda>ks. run_all act w ks (s\<lparr>ms_state := MONITOR_STATE_OK\<rparr>)) of
         (r, s) \<Rightarrow> Ret (r, Some s, w))"
    using session_loop_follow [where call = call and act = act and m = None and cs = "toplevel_list w",
        OF ok assms(2,3)] assms(4)
    by (simp add: monitoring_session_run_def Let_def ids_of_def split: prod.splits)
  show "\<forall>ms m. mon_way w ms m \<longrightarrow>
      (\<exists>p. path_of w m = Some p \<and> follow w (toplevel_list w) (ids_of p) = (ms, True) \<and> last ms = m)"
    using mon_way_path [OF ok] mon_way_follow [OF ok] by (auto simp: ids_of_dots)
qed

section \<open>The tree of the client\<close>

definition fresh_in :: "'c mon_world \<Rightarrow> nat list \<Rightarrow> bool" where
  "fresh_in w ms \<longleftrightarrow> distinct ms \<and> (\<forall>m \<in> set ms. mw_node w m = None)"

definition adds_node :: "(nat option \<Rightarrow> 'c mon_world \<Rightarrow> (int \<times> 'c mon_world) outcome) \<Rightarrow> bool" where
  "adds_node add \<longleftrightarrow>
     (\<forall>w m n r w'. mon_reach w \<longrightarrow> mw_node w m = Some n \<longrightarrow> mn_path n = None \<longrightarrow>
        add (Some m) w = Ret (r, w') \<longrightarrow> mon_reach w' \<and> (\<forall>x. mw_node w' x = None \<longleftrightarrow> mw_node w x = None))"

lemma upd_dom [simp]: "mw_node (mon_upd p f w) x = None \<longleftrightarrow> mw_node w x = None"
  by (simp add: mon_upd_def)

lemma adds_toplevel: "adds_node monitoring_node_add_toplevel"
  unfolding adds_node_def
  by (auto intro: mon_reach.top)
    (auto simp: monitoring_node_add_toplevel_def Let_def split: option.splits)

lemma adds_below: "adds_node (monitoring_node_add p)"
  unfolding adds_node_def
  by (auto intro: mon_reach.below)
    (auto simp: monitoring_node_add_def Let_def split: option.splits)

lemma add_values_reach:
  assumes "adds_node add" "mon_reach w" "fresh_in w (ms @ xs)" "add_values add ms vs w = Ret w'"
  shows "mon_reach w' \<and> fresh_in w' xs"
  using assms
proof (induction add ms vs w arbitrary: w' rule: add_values.induct)
  case (1 add m ms name i cb vs w)
  let ?v = "monitoring_node_new m (Some name) i (Some cb) w"
  have m: "mw_node w m = None" "m \<notin> set (ms @ xs)" using "1.prems"(3) by (auto simp: fresh_in_def)
  then have v: "mon_reach ?v" using "1.prems"(2) by (simp add: mon_reach.new)
  obtain r u where u: "add (Some m) ?v = Ret (r, u)" "add_values add ms vs u = Ret w'"
    using "1.prems"(4) by auto
  have n: "mw_node ?v m = Some \<lparr>mn_name = Some name, mn_id = i, mn_callback = Some cb, mn_path = None,
      mn_children = []\<rparr>" by (simp add: monitoring_node_new_def)
  have "mon_reach u \<and> (\<forall>x. mw_node u x = None \<longleftrightarrow> mw_node ?v x = None)"
    using "1.prems"(1) [unfolded adds_node_def, rule_format, OF v n _ u(1)] by simp
  moreover then have "fresh_in u (ms @ xs)"
    using m "1.prems"(3) by (auto simp: fresh_in_def monitoring_node_new_def)
  ultimately show ?case using "1.IH" "1.prems"(1) u(2) by blast
qed (auto simp: fresh_in_def)

lemma add_values_below_reach:
  assumes "mon_reach w" "fresh_in w (ms @ xs)" "add_values_below i ms vs w = Ret w'"
  shows "mon_reach w' \<and> fresh_in w' xs"
proof -
  have "fresh_in w xs" using assms(2) by (auto simp: fresh_in_def)
  then show ?thesis
    using assms add_values_reach [OF adds_below assms(1,2)]
    by (auto simp: add_values_below_def split: option.splits)
qed

lemma gui_monitoring_init_reach:
  assumes "distinct (tops @ oss @ ports @ states)"
    "gui_monitoring_init (tops, oss, ports, states) \<lparr>mw_node = (\<lambda>_. None), toplevel_list = []\<rparr> = Ret w"
  shows "mon_reach w"
proof -
  have "fresh_in \<lparr>mw_node = (\<lambda>_. None), toplevel_list = []\<rparr> (tops @ oss @ ports @ states @ [])"
    using assms(1) by (simp add: fresh_in_def)
  moreover obtain w1 w2 w3 where
      "add_values monitoring_node_add_toplevel tops toplevel_monitoring_default_values
         \<lparr>mw_node = (\<lambda>_. None), toplevel_list = []\<rparr> = Ret w1"
      "add_values_below TOPLEVEL_MONITOR_OS oss os_monitoring_default_values w1 = Ret w2"
      "add_values_below TOPLEVEL_MONITOR_PORT ports port_monitoring_default_values w2 = Ret w3"
      "add_values_below TOPLEVEL_MONITOR_STATE states state_monitoring_default_values w3 = Ret w"
    using assms(2) by (auto simp: gui_monitoring_init_def)
  ultimately show ?thesis
    using add_values_reach [OF adds_toplevel mon_reach.start] add_values_below_reach by metis
qed

text \<open>The tree of the client, with a callback that only notes that it was called.\<close>

definition gui_tree :: "gui_monitoring_cb mon_world outcome" where
  "gui_tree = gui_monitoring_init ([1, 2, 3], [4], [5, 6, 7], [8, 9]) \<lparr>mw_node = (\<lambda>_. None), toplevel_list = []\<rparr>"

definition note_call :: "'c \<Rightarrow> nat \<Rightarrow> 'c list monitoring_session \<Rightarrow> 'c list monitoring_session" where
  "note_call f k s = s\<lparr>ms_arg := map_option (\<lambda>fs. fs @ [f]) (ms_arg s)\<rparr>"

lemmas gui_tree_simps =
  gui_tree_def gui_monitoring_init_def toplevel_monitoring_default_values_def os_monitoring_default_values_def
  port_monitoring_default_values_def state_monitoring_default_values_def add_values_below_def
  monitoring_node_add_toplevel_def monitoring_node_find_toplevel_def monitoring_node_add_def
  monitoring_node_find_def monitoring_node_new_def mon_upd_def deref_def sprintf_in_def Let_def
  show_int_def has_id_def TOPLEVEL_MONITOR_OS_def TOPLEVEL_MONITOR_PORT_def
  TOPLEVEL_MONITOR_STATE_def MONITOR_OS_CHANGE_def MONITOR_PORT_OPEN_def
  MONITOR_PORT_VERSION_DOESNT_CHANGE_def MONITOR_PORT_NO_NEW_PORTS_ADDED_def MONITOR_STATE_PING_HOST_def
  MONITOR_STATE_CHECK_PORT_def

lemma show_small: "show_nat 0 = ''0''" "show_nat (Suc 0) = ''1''" "show_nat 2 = ''2''"
  by code_simp+

lemma gui_tree_eval:
  "\<exists>w. gui_tree = Ret w \<and> (\<forall>k n. mw_node w k = Some n \<longrightarrow> mn_callback n \<noteq> None) \<and>
     toplevel_list w = [1, 2, 3] \<and> map (id_of w) [1, 2, 3] = [0, 1, 2] \<and>
     children_of w 2 = [5, 6, 7] \<and> map (id_of w) [5, 6, 7] = [0, 1, 2] \<and>
     callback_of w 2 = Some Gui_port \<and> callback_of w 7 = Some Gui_port_no_new_ports \<and> path_of w 7 = Some ''1.2''"
  by (simp add: gui_tree_simps show_small id_of_def children_of_def path_of_def callback_of_def)

lemma session_follows_path_witness:
  "\<exists>w :: gui_monitoring_cb mon_world. \<exists>s'.
     monitoring_session_run (\<lambda>f k s w. Ret (note_call f k s, w))
       (Some ((monitoring_session_new (Some ''1.2''))\<lparr>ms_arg := Some []\<rparr>)) w = Ret (MONITOR_STATE_OK, Some s', w) \<and>
     ms_arg s' = Some [Gui_port, Gui_port_no_new_ports]"
proof -
  obtain w where w: "gui_tree = Ret w" "\<forall>k n. mw_node w k = Some n \<longrightarrow> mn_callback n \<noteq> None"
      "toplevel_list w = [1, 2, 3]" "map (id_of w) [1, 2, 3] = [0, 1, 2]" "children_of w 2 = [5, 6, 7]"
      "map (id_of w) [5, 6, 7] = [0, 1, 2]" "callback_of w 2 = Some Gui_port"
      "callback_of w 7 = Some Gui_port_no_new_ports"
    using gui_tree_eval by (elim exE conjE) (rule that)
  let ?s = "(monitoring_session_new (Some ''1.2''))\<lparr>ms_arg := Some []\<rparr> :: gui_monitoring_cb list monitoring_session"
  let ?t = "?s\<lparr>ms_state := MONITOR_STATE_OK, ms_arg := Some [Gui_port, Gui_port_no_new_ports]\<rparr>"
  have reach: "mon_reach w"
    using w(1) gui_monitoring_init_reach [of "[1, 2, 3]" "[4]" "[5, 6, 7]" "[8, 9]" w] by (simp add: gui_tree_def)
  have ids: "ids_of ''1.2'' = [1, 2]" by code_simp
  have "follow w (toplevel_list w) [1, 2] = ([2, 7], True)" using w(3-6) by simp
  moreover have "run_all note_call w [2, 7] (?s\<lparr>ms_state := MONITOR_STATE_OK\<rparr>) = ?t"
    using w(7,8) by (simp add: run_all_def note_call_def)
  ultimately have "monitoring_session_run (\<lambda>f k s w. Ret (note_call f k s, w)) (Some ?s) w = Ret (MONITOR_STATE_OK, Some ?t, w)"
    using session_follows_path [where call = "\<lambda>f k s w. Ret (note_call f k s, w)" and act = note_call and s = ?s
        and i = "''1.2''", OF reach w(2), THEN conjunct1] ids
    by (simp add: walk_result_def monitoring_session_new_def)
  then show ?thesis by (intro exI [of _ w] exI [of _ ?t]) simp
qed

section \<open>What the tree does not promise\<close>

text \<open>An empty text runs nothing and is no error.\<close>

lemma empty_session_ok: "ms_id s = Some [] \<Longrightarrow>
    monitoring_session_run call (Some s) w = Ret (MONITOR_STATE_OK, Some (s\<lparr>ms_state := MONITOR_STATE_OK\<rparr>), w)"
  by (simp add: monitoring_session_run_def dot_tokens_dots Let_def)

text \<open>Adding below a node that was not added before prints a NULL path.\<close>

lemma add_below_unattached:
  "mw_node w p = Some pn \<Longrightarrow> mn_path pn = None \<Longrightarrow> mn_children pn = [] \<Longrightarrow> mw_node w m = Some n \<Longrightarrow>
     monitoring_node_add (Some p) (Some m) w = UB"
  by (simp add: monitoring_node_add_def monitoring_node_find_def deref_def)

text \<open>The choice of a child by its name makes the session run to that child.\<close>

lemma append_chooses:
  assumes "mon_search (has_name str) w (children_of w p) = Ret (Some k)" "mw_node w p = Some n"
    "mw_node w k = Some c"
  shows "gui_monitoring_append (Some p) str w s = Ret (s\<lparr>ms_id := path_of w k\<rparr>)"
  using assms by (simp add: gui_monitoring_append_def monitoring_node_find_by_name_def children_of_def
      path_of_def deref_def)

end
