(* ===== verification/Shell.thy ===== *)
theory Shell
  imports Gui_Requests Monitoring Probe Misc_Parse
begin

text \<open>
  The shell client, \<^verbatim>\<open>cheops-sh-guts.c\<close>: its table of commands, what each command sends, the
  handlers of the replies, and the run of a line in \<^verbatim>\<open>cheops-sh.c\<close>, whose tokens are those of
  \<^theory_text>\<open>Misc_Parse\<close>. Where it sends addresses, it computes them as the graphical client does.

  \<^verbatim>\<open>ee\<close> is the body of the static event buffer, which keeps what earlier events have put there: a
  function from the offset to the byte. What is printed is in \<open>sh_out\<close>. Arguments are \<^verbatim>\<open>write\<close>,
  \<^verbatim>\<open>gethostbyname\<close>, what \<^verbatim>\<open>scanf\<close> reads, whether \<^verbatim>\<open>malloc\<close> succeeds, and what the array of tokens
  holds before it is filled. The history of \<^verbatim>\<open>readline\<close> is left out.
\<close>

section \<open>State\<close>

definition MAX_TOKENS :: nat where "MAX_TOKENS = 80"
definition MAX_ALLOWABLE_DISCOVER_RETRIES :: int where "MAX_ALLOWABLE_DISCOVER_RETRIES = 5"

record 'h shell_world =
  sh_flags :: u32
  sh_IPList :: "u32 list"
  sh_ee :: "nat \<Rightarrow> u8"
  sh_index :: nat
  sh_ev :: "'h ev_state"
  sh_out :: "string list"

record shell_env =
  se_write :: "int \<Rightarrow> u8 list \<Rightarrow> int"
  se_gethostbyname :: "cstring \<Rightarrow> u32 option"
  se_malloc :: bool
  se_toks :: "nat list"
  se_input :: "cstring \<times> cstring"

definition get_host :: "shell_env \<Rightarrow> cstring \<Rightarrow> u32 option" where
  "get_host env hostname = se_gethostbyname env hostname"

definition str2ip :: "cstring \<Rightarrow> u32 option" where
  "str2ip s = inet_aton s"

definition nl :: "string \<Rightarrow> string" where "nl s = s @ [CHR 0x0A]"

definition say :: "string list \<Rightarrow> 'h shell_world \<Rightarrow> 'h shell_world" where
  "say ls w = w\<lparr>sh_out := sh_out w @ ls\<rparr>"

text \<open>Writing into the event buffer, and sending \<open>n\<close> bytes of it behind a header.\<close>

definition put_ee :: "nat \<Rightarrow> u8 list \<Rightarrow> 'h shell_world \<Rightarrow> 'h shell_world" where
  "put_ee i bs w = w\<lparr>sh_ee := (\<lambda>k. if i \<le> k \<and> k < i + length bs then bs ! (k - i) else sh_ee w k)\<rparr>"

definition send_ee ::
  "shell_env \<Rightarrow> nat \<Rightarrow> u16 \<Rightarrow> u32 \<Rightarrow> nat \<Rightarrow> 'h shell_world \<Rightarrow> (int \<times> 'h shell_world) outcome" where
  "send_ee env a ty fl n w =
     (if 12 + n > 65536 then UB
      else obind (event_send (se_write env) a (mk_event ty (bswap32 fl) (map (sh_ee w) [0..<n])) (sh_ev w))
             (\<lambda>(res, ev). Ret (res, w\<lparr>sh_ev := ev\<rparr>)))"

section \<open>The commands\<close>

datatype command =
    DO_HELP | DO_FORCE | DO_DISCOVER | DO_SET_DISCOVER_RETRIES | DO_QUIT | DO_SUMMARY | DELETE_IP_LIST
  | DO_OS_SCAN_COMMAND | DO_AUTH_REQUEST_COMMAND

definition commands :: "(cstring \<times> command \<times> cstring \<times> cstring) list" where
  "commands =
     [(''help'', DO_HELP, ''List of commands, and usage information'', ''help [ command... ]''),
      (''force'', DO_FORCE, ''Prepend this to a command and it will set the force flag for that command'',
        ''force [command]''),
      (''discover'', DO_DISCOVER, ''Find hosts on a network'', ''discover [ network/netmask ] | [ host ] [force]''),
      (''setdiscoverretries'', DO_SET_DISCOVER_RETRIES, ''Set the number of discover retries [0-5]'',
        ''discover [ number of retries ]''),
      (''quit'', DO_QUIT, ''Exit from the Cheops shell'', ''quit''),
      (''summary'', DO_SUMMARY, ''Get a Summary of the IP addresses discovered'', ''summary [ network/netmask ] ''),
      (''delcache'', DELETE_IP_LIST, ''Delete the Discover cache'', ''delcache''),
      (''os'', DO_OS_SCAN_COMMAND, ''Scan the host for it'' @ [CHR 0x27] @ ''s OS'', ''os [host]''),
      (''login'', DO_AUTH_REQUEST_COMMAND, ''login into the agent'', ''login'')]"

definition find_command :: "cstring \<Rightarrow> (cstring \<times> command \<times> cstring \<times> cstring) option" where
  "find_command s = find (\<lambda>(word, c). strcasecmp_eq s word) commands"

definition usage :: "cstring \<Rightarrow> 'h shell_world \<Rightarrow> 'h shell_world" where
  "usage cmd w =
     say [case find_command cmd of
            Some (word, c, help, use) \<Rightarrow> nl (''Usage: '' @ use)
          | None \<Rightarrow> nl (''I don'' @ [CHR 0x27] @ ''t know how to use '' @ cmd)] w"

definition pad12 :: "string \<Rightarrow> string" where
  "pad12 s = replicate (12 - length s) (CHR '' '') @ s"

definition help_lines :: "cstring \<Rightarrow> string list" where
  "help_lines s =
     (case find_command s of
        Some (word, c, help, use) \<Rightarrow>
          [nl (''Command:      '' @ word), nl (''Description:  '' @ help), nl (''Usage:        '' @ use), nl '''']
      | None \<Rightarrow> [nl (''I don'' @ [CHR 0x27] @ ''t know anything about '' @ [CHR 0x27] @ s @ [CHR 0x27])])"

definition do_help :: "int \<Rightarrow> cstring list \<Rightarrow> 'h shell_world \<Rightarrow> 'h shell_world" where
  "do_help argc argv w =
     say (if argc < 2
          then [nl (nl ''             -- Cheops command listing --'')] @
            map (\<lambda>(word, c, help, use). nl (''  '' @ pad12 word @ '' -- '' @ help)) commands @
            [CHR 0x0A # nl (nl ''Use help <command> for help with a specific command'')]
          else concat (map help_lines (tl argv))) w"

text \<open>What an argument of \<^verbatim>\<open>discover\<close> asks for, and what is printed.\<close>

datatype target = Return_target | Continue_target | Range_target u32 u32

definition discover_target :: "shell_env \<Rightarrow> cstring \<Rightarrow> target \<times> string list" where
  "discover_target env arg =
     (if CHR ''/'' \<in> set arg
      then
        let name = takeWhile (\<lambda>c. c \<noteq> CHR ''/'') arg; c = tl (dropWhile (\<lambda>c. c \<noteq> CHR ''/'') arg) in
        (case get_host env name of
           None \<Rightarrow> (Return_target, [nl (''Invalid host: '' @ name)])
         | Some start \<Rightarrow>
             (case netmask c of
                None \<Rightarrow> (Continue_target, [nl (''Invalid netmask: '' @ c)])
              | Some m \<Rightarrow>
                  let start = bswap32 start AND m; end = start OR NOT m in
                  (Range_target start end,
                   [''Discovering from '' @ ip2str (bswap32 start) @ '' to '',
                    ip2str (bswap32 end) @ '' (mask = '', nl (ip2str (bswap32 m) @ '')...'')])))
      else
        (case get_host env arg of
           None \<Rightarrow> (Continue_target, [nl (''Invalid host: '' @ arg)])
         | Some start \<Rightarrow>
             (Range_target (bswap32 start) (bswap32 start),
              [nl (''Discovering '' @ arg @ '' ('' @ ip2str start @ '')'')])))"

text \<open>The addresses go into the buffer in the order of the host, and the flags as well.\<close>

definition discover_send :: "shell_env \<Rightarrow> nat \<Rightarrow> u32 \<Rightarrow> u32 \<Rightarrow> 'h shell_world \<Rightarrow> (int \<times> 'h shell_world) outcome" where
  "discover_send env a start end w =
     send_ee env a EVENT_DISCOVER_IPV4 (sh_flags w) 24 (put_ee 0 (le32 start @ le32 end) w)"

fun discover_args ::
  "shell_env \<Rightarrow> nat \<Rightarrow> nat \<Rightarrow> (nat \<times> cstring) list \<Rightarrow> int \<Rightarrow> 'h shell_world \<Rightarrow> (int \<times> 'h shell_world) outcome" where
  "discover_args env a skip [] done w = Ret (done, w)"
| "discover_args env a skip ((x, arg) # xs) done w =
     (if x = skip then discover_args env a skip xs done w
      else case discover_target env arg of
        (Return_target, ls) \<Rightarrow> Ret (0, say ls w)
      | (Continue_target, ls) \<Rightarrow> discover_args env a skip xs done (say ls w)
      | (Range_target start end, ls) \<Rightarrow>
          obind (discover_send env a start end (say ls w)) (\<lambda>(res, w).
            discover_args env a skip xs (if res < 0 then done else 0) w))"

definition force_at :: "cstring list \<Rightarrow> nat \<Rightarrow> nat" where
  "force_at argv = fold (\<lambda>x skip. if argv ! x = ''force'' then x else skip) [1..<length argv]"

text \<open>The flag that \<^verbatim>\<open>force\<close> sets is not taken back.\<close>

definition do_discover :: "shell_env \<Rightarrow> nat \<Rightarrow> int \<Rightarrow> cstring list \<Rightarrow> 'h shell_world \<Rightarrow> (int \<times> 'h shell_world) outcome" where
  "do_discover env a argc argv w =
     (if argc < 2 then Ret (0, usage (hd argv) w)
      else
        let w = (if ''force'' \<in> set (tl argv) then w\<lparr>sh_flags := sh_flags w OR FLAG_FORCE\<rparr> else w) in
        discover_args env a (force_at argv (length argv)) (zip [1..<length argv] (tl argv)) (-1) w)"

text \<open>The body is not filled in: what the buffer holds is sent, as long as the argument is.\<close>

definition do_os_scan_command ::
  "shell_env \<Rightarrow> nat \<Rightarrow> int \<Rightarrow> cstring list \<Rightarrow> 'h shell_world \<Rightarrow> (int \<times> 'h shell_world) outcome" where
  "do_os_scan_command env a argc argv w =
     (if argc < 2 then Ret (0, usage (hd argv) w)
      else obind (send_ee env a EVENT_OS_SCAN (sh_flags w) (24 + length (argv ! 1) + 1) w) (\<lambda>(res, w). Ret (0, w)))"

definition do_summary :: "'h shell_world \<Rightarrow> 'h shell_world" where
  "do_summary w =
     say (if sh_IPList w = [] then [nl ''There is nothing in the cache.'']
          else map (\<lambda>ip. nl (''Discovered: '' @ ip2str ip)) (sh_IPList w)) w"

definition do_set_discover_retries ::
  "shell_env \<Rightarrow> nat \<Rightarrow> int \<Rightarrow> cstring list \<Rightarrow> 'h shell_world \<Rightarrow> (int \<times> 'h shell_world) outcome" where
  "do_set_discover_retries env a argc argv w =
     (if argc < 2 then Ret (0, usage (hd argv) w)
      else
        let retries = atoi (argv ! 1) in
        if retries > MAX_ALLOWABLE_DISCOVER_RETRIES \<or> retries < 0 then Ret (0, usage (hd argv) w)
        else obind (send_ee env a EVENT_SET_SETTINGS (sh_flags w) 8
                     (put_ee 0 (le32 SET_DISCOVER_RETRIES @ le32 (word_of_int retries)) w)) (\<lambda>(res, w). Ret (0, w)))"

definition do_auth_request_command :: "shell_env \<Rightarrow> nat \<Rightarrow> 'h shell_world \<Rightarrow> (int \<times> 'h shell_world) outcome" where
  "do_auth_request_command env a w = obind (send_ee env a EVENT_AUTH_REQUEST 0 70 w) (\<lambda>(res, w). Ret (0, w))"

definition delete_ip_list :: "'h shell_world \<Rightarrow> 'h shell_world" where
  "delete_ip_list w = w\<lparr>sh_IPList := []\<rparr>"

text \<open>
  The line without \<^verbatim>\<open>force\<close> is cut again, and run with the flag. Without a command there is nothing
  in the buffer that is cut. The tokens are those that the cut has counted, but an unclosed quote
  gives the count -1, and a command with that count looks at its first token only.
\<close>

definition tokens :: "int \<Rightarrow> nat list \<Rightarrow> char list \<Rightarrow> cstring list" where
  "tokens cnt toks mem = map (str_at mem) (take (if cnt < 0 then 1 else nat cnt) toks)"

definition do_force ::
  "(int \<Rightarrow> cstring list \<Rightarrow> 'h shell_world \<Rightarrow> (int \<times> 'h shell_world) outcome) \<Rightarrow> shell_env
     \<Rightarrow> int \<Rightarrow> cstring list \<Rightarrow> 'h shell_world \<Rightarrow> (int \<times> 'h shell_world) outcome" where
  "do_force exec env argc argv w =
     (if argc < 2 \<or> \<not> se_malloc env then UB
      else
        obind (parse (se_toks env) (concat (map (\<lambda>s. s @ '' '') (tl argv)) @ [NUL])) (\<lambda>(cnt, toks, args).
        obind (exec cnt (tokens cnt toks args) (w\<lparr>sh_flags := sh_flags w OR FLAG_FORCE\<rparr>)) (\<lambda>(r, w).
          Ret (0, w\<lparr>sh_flags := sh_flags w AND NOT FLAG_FORCE\<rparr>))))"

text \<open>
  \<^verbatim>\<open>execute_command\<close>. A line that \<^verbatim>\<open>force\<close> runs is shorter, which bounds the recursion: as much
  fuel as the line has characters is enough.
\<close>

fun execute_command ::
  "nat \<Rightarrow> shell_env \<Rightarrow> nat \<Rightarrow> int \<Rightarrow> cstring list \<Rightarrow> 'h shell_world \<Rightarrow> (int \<times> 'h shell_world) outcome" where
  "execute_command 0 env a argc argv w = NoFuel"
| "execute_command (Suc n) env a argc argv w =
     (case argv of
        [] \<Rightarrow> UB
      | cmd # _ \<Rightarrow>
          (case find_command cmd of
             None \<Rightarrow> Ret (-1, say [nl (''Unknown command: '' @ cmd)] w)
           | Some (word, c, help, use) \<Rightarrow>
               (case c of
                  DO_HELP \<Rightarrow> Ret (0, do_help argc argv w)
                | DO_FORCE \<Rightarrow> do_force (execute_command n env a) env argc argv w
                | DO_DISCOVER \<Rightarrow> do_discover env a argc argv w
                | DO_SET_DISCOVER_RETRIES \<Rightarrow> do_set_discover_retries env a argc argv w
                | DO_QUIT \<Rightarrow> Exit 0
                | DO_SUMMARY \<Rightarrow> Ret (0, do_summary w)
                | DELETE_IP_LIST \<Rightarrow> Ret (0, delete_ip_list w)
                | DO_OS_SCAN_COMMAND \<Rightarrow> do_os_scan_command env a argc argv w
                | DO_AUTH_REQUEST_COMMAND \<Rightarrow> do_auth_request_command env a w)))"

definition handle_command :: "shell_env \<Rightarrow> nat \<Rightarrow> cstring \<Rightarrow> 'h shell_world \<Rightarrow> 'h shell_world outcome" where
  "handle_command env a line w =
     obind (parse (se_toks env) (line @ [NUL])) (\<lambda>(cnt, toks, t).
       if cnt \<ge> 0
       then obind (execute_command (Suc (Suc (length line))) env a cnt (tokens cnt toks t) w) (\<lambda>(r, w). Ret w)
       else Ret (say [nl ''Unclosed quote''] w))"

text \<open>
  The next word of the table that starts with a text; \<open>state\<close> is 0 for the first call. After the
  end of the table was met, a call with another state reads behind it.
\<close>

definition command_generator :: "cstring \<Rightarrow> int \<Rightarrow> 'h shell_world \<Rightarrow> (cstring option \<times> 'h shell_world) outcome" where
  "command_generator text state w =
     (let i = (if state = 0 then 0 else sh_index w);
          starts = (\<lambda>(word, c). strcasecmp_eq (take (length text) word) text);
          k = i + length (takeWhile (\<lambda>c. \<not> starts c) (drop i commands))
      in if i > length commands then UB
         else Ret (if k < length commands then Some (fst (commands ! k)) else None, w\<lparr>sh_index := Suc k\<rparr>))"

section \<open>The replies\<close>

definition handle_error :: "u8 list \<Rightarrow> 'h shell_world \<Rightarrow> (int \<times> 'h shell_world) outcome" where
  "handle_error e w =
     (if length e < 2 then UB
      else obind (text_at 4 e) (\<lambda>text.
        Ret (0, say [CHR 0x0A # ''Agent reports: Error['' @ show_nat (unat (of_be16 e)) @ ''] - '' @ text] w)))"

definition add_to_discovered_list :: "shell_env \<Rightarrow> u32 \<Rightarrow> 'h shell_world \<Rightarrow> 'h shell_world outcome" where
  "add_to_discovered_list env ip w =
     (if ip \<in> set (sh_IPList w) then Ret w
      else if se_malloc env then Ret (w\<lparr>sh_IPList := ip # sh_IPList w\<rparr>) else UB)"

definition handle_discover_reply :: "shell_env \<Rightarrow> u8 list \<Rightarrow> 'h shell_world \<Rightarrow> (int \<times> 'h shell_world) outcome" where
  "handle_discover_reply env e w =
     (let ip = of_le32 e in
      obind (add_to_discovered_list env ip
               (say [CHR 0x0A # nl (''==Discovered: '' @ ip2str ip @ ''=='')] w)) (\<lambda>w. Ret (0, w)))"

fun say_options :: "nat \<Rightarrow> u32 \<Rightarrow> u8 list \<Rightarrow> 'h shell_world \<Rightarrow> 'h shell_world outcome" where
  "say_options 0 ip bs w = Ret w"
| "say_options (Suc n) ip bs w =
     obind (field 0 bs) (\<lambda>ty.
     obind (if ty = OS_SCAN_OPTION_OS
            then obind (text_at 8 bs) (\<lambda>s.
                   Ret [CHR 0x0A # nl (''==Scaned: '' @ ip2str ip @ '' is '' @ s @ ''=='')])
            else if ty = OS_SCAN_OPTION_PORT
            then obind (field 16 bs) (\<lambda>port. Ret [nl (''==port '' @ show_int (sint port) @ ''=='')])
            else Ret [CHR 0x0A # nl ''What the h@#$ is this? handle_os_scan_reply''])
       (\<lambda>ls. obind (field 4 bs) (\<lambda>len. say_options n ip (drop (unat len) bs) (say ls w))))"

definition handle_os_scan_reply :: "u32 \<Rightarrow> u8 list \<Rightarrow> 'h shell_world \<Rightarrow> (int \<times> 'h shell_world) outcome" where
  "handle_os_scan_reply len e w =
     obind (say_options (nat (sint (of_be32 e))) (of_le32 (drop 4 e)) (drop 16 e)
             (say [nl (''sizeof 36  len='' @ show_int (sint len))] w)) (\<lambda>w. Ret (0, w))"

text \<open>The names have 35 bytes in the event, and 80 where they are read.\<close>

definition send_auth_request ::
  "shell_env \<Rightarrow> nat \<Rightarrow> cstring \<Rightarrow> cstring \<Rightarrow> 'h shell_world \<Rightarrow> (int \<times> 'h shell_world) outcome" where
  "send_auth_request env a username password w =
     (if length username \<ge> 35 \<or> length password \<ge> 35 then UB
      else
        obind (send_ee env a EVENT_AUTH_REQUEST 0 70
          (put_ee 35 (cstr_bytes password) (put_ee 0 (cstr_bytes username)
            (say [nl (''authenticating '' @ username @ '' '' @ password)] w)))) (\<lambda>(res, w). Ret (0, w)))"

definition authenticate_me :: "shell_env \<Rightarrow> nat \<Rightarrow> 'h shell_world \<Rightarrow> (int \<times> 'h shell_world) outcome" where
  "authenticate_me env a w =
     (case se_input env of (username, password) \<Rightarrow>
      if length username \<ge> 80 \<or> length password \<ge> 80 then UB
      else send_auth_request env a username password
             (say [''enter your username: '', CHR 0x0A # ''enter your password: '', CHR 0x0A # nl ''checking...''] w))"

definition handle_auth_request_reply ::
  "shell_env \<Rightarrow> nat \<Rightarrow> u8 list \<Rightarrow> 'h shell_world \<Rightarrow> (int \<times> 'h shell_world) outcome" where
  "handle_auth_request_reply env a e w =
     (if of_be32 e \<noteq> 0 then Ret (0, say [nl ''Authenticated''] w)
      else obind (authenticate_me env a (say [nl ''Authentication Failed!''] w)) (\<lambda>(r, w). Ret (0, w)))"

datatype shell_handler = SH_ERROR | SH_DISCOVER_REPLY | SH_OS_SCAN_REPLY | SH_AUTH_REQUEST_REPLY

definition shell_handlers :: "(u16 \<times> shell_handler) list" where
  "shell_handlers =
     [(REPLY_ERROR, SH_ERROR), (REPLY_DISCOVER_IPV4, SH_DISCOVER_REPLY), (REPLY_OS_SCAN, SH_OS_SCAN_REPLY),
      (REPLY_AUTH_REQUEST, SH_AUTH_REQUEST_REPLY)]"

fun register_each :: "(u16 \<times> shell_handler) list \<Rightarrow> shell_handler ev_state \<Rightarrow> shell_handler ev_state outcome" where
  "register_each [] st = Ret st"
| "register_each ((ty, cb) # hs) st =
     obind (event_register_handler (uint ty) (Some (Handler cb)) False st) (\<lambda>(r, st). register_each hs st)"

definition register_shell_handlers :: "shell_handler ev_state \<Rightarrow> shell_handler ev_state outcome" where
  "register_shell_handlers = register_each shell_handlers"

definition shell_handle ::
  "shell_env \<Rightarrow> shell_handler \<Rightarrow> event_hdr \<Rightarrow> u8 list \<Rightarrow> nat \<Rightarrow> 'h shell_world \<Rightarrow> (int \<times> 'h shell_world) outcome" where
  "shell_handle env cb h e a w =
     (case cb of
        SH_ERROR \<Rightarrow> handle_error e w
      | SH_DISCOVER_REPLY \<Rightarrow> handle_discover_reply env e w
      | SH_OS_SCAN_REPLY \<Rightarrow> handle_os_scan_reply (h_len h) e w
      | SH_AUTH_REQUEST_REPLY \<Rightarrow> handle_auth_request_reply env a e w)"

section \<open>How much is cut out of a line\<close>

text \<open>The tokens do not overlap: together with their terminators they fit into the line.\<close>

definition weight :: "cstring list \<Rightarrow> nat" where
  "weight ts = sum_list (map (\<lambda>t. Suc (length t)) ts)"

definition cut_inv :: "char list \<Rightarrow> nat list \<Rightarrow> nat \<Rightarrow> nat \<Rightarrow> bool" where
  "cut_inv mem argv c s \<longleftrightarrow> 0 < c \<and> c \<le> length argv \<and> argv ! (c - 1) \<le> s \<and>
     (\<forall>i. Suc i < c \<longrightarrow>
        (\<exists>j. argv ! i \<le> j \<and> j < argv ! Suc i \<and> j < s \<and> j < length mem \<and> mem ! j = NUL))"

lemma cut_invD:
  assumes "cut_inv mem argv c s" "Suc i < c"
  obtains j where "argv ! i \<le> j" "j < argv ! Suc i" "j < s" "j < length mem" "mem ! j = NUL"
  using assms unfolding cut_inv_def by blast

lemma skip_blanks_ge: "skip_blanks cs s = Ret s' \<Longrightarrow> s \<le> s'"
  by (induction cs s rule: skip_blanks.induct) (auto split: if_splits)

lemma cut_inv_write:
  assumes "cut_inv mem argv c s" "s < length mem" "s < s'"
  shows "cut_inv (mem[s := NUL]) argv c s'"
    "c < length argv \<Longrightarrow> cut_inv (mem[s := NUL]) (argv[c := s']) (Suc c) s'"
proof -
  have old: "\<exists>j. argv ! i \<le> j \<and> j < argv ! Suc i \<and> j < s' \<and> j < length mem \<and> mem[s := NUL] ! j = NUL"
    if "Suc i < c" for i
    using cut_invD [OF assms(1) that] assms(3) by (metis less_trans nth_list_update_neq order.strict_implies_not_eq)
  then show "cut_inv (mem[s := NUL]) argv c s'" using assms unfolding cut_inv_def by auto
  assume c: "c < length argv"
  have "\<exists>j. argv[c := s'] ! i \<le> j \<and> j < argv[c := s'] ! Suc i \<and> j < s' \<and> j < length mem \<and> mem[s := NUL] ! j = NUL"
    if "Suc i < Suc c" for i
  proof (cases "Suc i < c")
    case False
    then have "Suc i = c" using that by simp
    moreover then have "argv ! i \<le> s" using assms(1) unfolding cut_inv_def by auto
    ultimately show ?thesis using c assms(2,3) by (intro exI [of _ s]) auto
  qed (use old [of i] c in auto)
  then show "cut_inv (mem[s := NUL]) (argv[c := s']) (Suc c) s'"
    using assms c unfolding cut_inv_def by simp
qed

lemma parse_blank_cut:
  assumes "parse_blank mem argv c s = Ret (mem', argv', c', s')" "cut_inv mem argv c s"
  shows "cut_inv mem' argv' c' s' \<and> length mem' = length mem \<and> s < s'"
  using assms cut_inv_write [OF assms(2)]
  by (auto simp: parse_blank_def Suc_le_eq split: if_splits dest!: skip_blanks_ge)

lemma parse_step_cut:
  assumes "parse_step ch mem argv c q s = Ret (mem', argv', c', q', s')" "cut_inv mem argv c s"
  shows "cut_inv mem' argv' c' s' \<and> length mem' = length mem \<and> s < s'"
proof -
  have keep: "cut_inv mem argv c (Suc s)" using assms(2) by (fastforce simp: cut_inv_def)
  let ?argv = "argv[c - 1 := Suc (argv ! (c - 1))]"
  have "\<exists>j. ?argv ! i \<le> j \<and> j < ?argv ! Suc i \<and> j < Suc s \<and> j < length mem \<and> mem ! j = NUL" if i: "Suc i < c" for i
  proof -
    obtain j where j: "argv ! i \<le> j" "j < argv ! Suc i" "j < s" "j < length mem" "mem ! j = NUL"
      using cut_invD [OF assms(2) i] .
    have "?argv ! i = argv ! i" using i by simp
    moreover have "argv ! Suc i \<le> ?argv ! Suc i" using assms(2) by (auto simp: nth_list_update cut_inv_def)
    ultimately show ?thesis using j by (intro exI [of _ j]) auto
  qed
  moreover have "c - 1 < length argv" "argv ! (c - 1) \<le> s" using assms(2) by (auto simp: cut_inv_def)
  then have "?argv ! (c - 1) \<le> Suc s" by simp
  ultimately have quote: "cut_inv mem ?argv c (Suc s)" using assms(2) unfolding cut_inv_def by simp
  have "\<exists>j. argv ! i \<le> j \<and> j < argv ! Suc i \<and> j < s \<and> j < length mem \<and> mem[s := CHR '' ''] ! j = NUL"
    if "Suc i < c" for i
    using cut_invD [OF assms(2) that] by (metis nth_list_update_neq order.strict_implies_not_eq)
  then have blank: "cut_inv (mem[s := CHR '' '']) argv c s" using assms(2) unfolding cut_inv_def by simp
  show ?thesis
    using assms(1) keep quote parse_blank_cut [OF _ blank] parse_blank_cut [OF _ assms(2)]
    by (auto simp: parse_step_def split: if_splits)
qed

lemma parse_loop_cut:
  assumes "parse_loop n mem argv c q s = Ret (r, argv', mem')" "cut_inv mem argv c s"
  shows "\<exists>c' s'. cut_inv mem' argv' c' s' \<and> length mem' = length mem \<and> s' < length mem' \<and> mem' ! s' = NUL \<and>
    (r = -1 \<or> r = int c')"
  using assms
proof (induction n mem argv c q s rule: parse_loop.induct)
  case (2 n mem argv c q s)
  show ?case
  proof (cases "s < length mem \<and> mem ! s = NUL")
    case True
    then show ?thesis using 2 by (auto simp: parse_loop.simps(2) aget_def split: if_splits)
  next
    case False
    then obtain m1 a1 c1 q1 s1 where "s < length mem"
        "parse_step (mem ! s) mem argv c q s = Ret (m1, a1, c1, q1, s1)" "parse_loop n m1 a1 c1 q1 s1 = Ret (r, argv', mem')"
      using "2.prems"(1) by (auto simp: parse_loop.simps(2))
    then show ?thesis
      using "2.IH" [of "mem ! s" m1 a1 c1 q1 s1] parse_step_cut [OF _ "2.prems"(2)] False by fastforce
  qed
qed simp

lemma obind_NoFuel: "obind m f = NoFuel \<longleftrightarrow> m = NoFuel \<or> (\<exists>x. m = Ret x \<and> f x = NoFuel)"
  by (cases m) auto

lemma access_fuel [simp]: "aget xs i \<noteq> NoFuel" "aset xs i v \<noteq> NoFuel" "deref h x \<noteq> NoFuel"
  by (simp_all add: aget_def aset_def deref_def split: option.splits)

lemma parse_step_fuel: "parse_step ch mem argv c q s \<noteq> NoFuel"
proof -
  have skip: "skip_blanks cs k \<noteq> NoFuel" for cs k by (induction cs k rule: skip_blanks.induct) auto
  show ?thesis by (auto simp: parse_step_def parse_blank_def obind_NoFuel skip split: if_splits)
qed

lemma parse_loop_fuel:
  assumes "length mem < n + s" "0 < n" "cut_inv mem argv c s"
  shows "parse_loop n mem argv c q s \<noteq> NoFuel"
  using assms
proof (induction n mem argv c q s rule: parse_loop.induct)
  case (2 n mem argv c q s)
  show ?case
  proof (cases "s < length mem \<and> mem ! s \<noteq> NUL")
    case True
    have "parse_loop n m1 a1 c1 q1 s1 \<noteq> NoFuel"
      if "parse_step (mem ! s) mem argv c q s = Ret (m1, a1, c1, q1, s1)" for m1 a1 c1 q1 s1
      using parse_step_cut [OF that "2.prems"(3)] "2.IH" [of "mem ! s"] "2.prems"(1) True by (simp del: obind_Ret_iff)
    then show ?thesis using True parse_step_fuel by (auto simp: parse_loop.simps(2) obind_NoFuel)
  qed (auto simp: parse_loop.simps(2) aget_def)
qed simp

lemma str_at_short:
  assumes "i \<le> j" "j < length mem" "mem ! j = NUL"
  shows "length (str_at mem i) \<le> j - i"
proof (rule ccontr)
  assume "\<not> ?thesis"
  then have l: "j - i < length (str_at mem i)" by simp
  then have "str_at mem i ! (j - i) = drop i mem ! (j - i)" by (simp add: str_at_def takeWhile_nth)
  then have "str_at mem i ! (j - i) = NUL" using assms by simp
  moreover have "str_at mem i ! (j - i) \<in> set (str_at mem i)" using l by (rule nth_mem)
  ultimately show False by (auto simp: str_at_def dest: set_takeWhileD)
qed

lemma weight_tokens:
  assumes "cut_inv mem argv c s" "k < c"
  shows "weight (map (str_at mem) (take k argv)) \<le> argv ! k"
  using assms(2)
proof (induction k)
  case (Suc k)
  obtain j where j: "argv ! k \<le> j" "j < argv ! Suc k" "j < length mem" "mem ! j = NUL"
    using cut_invD [OF assms(1) Suc.prems] .
  have "take (Suc k) argv = take k argv @ [argv ! k]"
    using Suc.prems assms(1) by (intro take_Suc_conv_app_nth) (simp add: cut_inv_def)
  then have "weight (map (str_at mem) (take (Suc k) argv)) =
      weight (map (str_at mem) (take k argv)) + Suc (length (str_at mem (argv ! k)))"
    by (simp add: weight_def)
  also have "\<dots> \<le> argv ! Suc k" using Suc str_at_short [OF j(1,3,4)] j(1,2) by simp
  finally show ?case .
qed (simp add: weight_def)

lemma parse_start: "0 < length toks \<Longrightarrow> cut_inv mem (toks[0 := 0]) 1 0"
  by (cases toks) (simp_all add: cut_inv_def)

lemma parse_returns: "parse toks mem \<noteq> NoFuel"
  using parse_loop_fuel [OF _ _ parse_start, of mem "Suc (length mem)" toks]
  by (cases toks) (auto simp: parse_def aset_def)

lemma parse_weight:
  assumes "parse toks mem = Ret (cnt, toks', mem')"
  shows "weight (tokens cnt toks' mem') \<le> length mem" "tokens cnt toks' mem' \<noteq> []"
    "cnt \<noteq> -1 \<Longrightarrow> length (tokens cnt toks' mem') = nat cnt \<and> 0 < cnt"
proof -
  have ne: "0 < length toks" "parse_loop (Suc (length mem)) mem (toks[0 := 0]) 1 False 0 = Ret (cnt, toks', mem')"
    using assms by (auto simp: parse_def)
  obtain c s where c: "cut_inv mem' toks' c s" "length mem' = length mem" "s < length mem'" "mem' ! s = NUL"
      "cnt = -1 \<or> cnt = int c"
    using parse_loop_cut [OF ne(2) parse_start [OF ne(1)]] by blast
  have pos: "0 < c" "c \<le> length toks'" "toks' ! (c - 1) \<le> s" using c(1) by (auto simp: cut_inv_def)
  have "take c toks' = take (c - 1) toks' @ [toks' ! (c - 1)]"
    using pos take_Suc_conv_app_nth [of "c - 1" toks'] by simp
  then have "weight (map (str_at mem') (take c toks')) =
      weight (map (str_at mem') (take (c - 1) toks')) + Suc (length (str_at mem' (toks' ! (c - 1))))"
    by (simp add: weight_def)
  also have "\<dots> \<le> Suc s" using weight_tokens [OF c(1), of "c - 1"] str_at_short [OF pos(3) c(3,4)] pos by simp
  finally have all: "weight (map (str_at mem') (take c toks')) \<le> length mem" using c by simp
  have "take c toks' = take 1 toks' @ take (c - 1) (drop 1 toks')"
    using pos(1) take_add [of 1 "c - 1" toks'] by simp
  then have "weight (map (str_at mem') (take 1 toks')) \<le> weight (map (str_at mem') (take c toks'))"
    by (simp add: weight_def)
  then show "weight (tokens cnt toks' mem') \<le> length mem" using all c(5) by (auto simp: tokens_def)
  show "tokens cnt toks' mem' \<noteq> []" using pos c(5) by (auto simp: tokens_def)
  show "cnt \<noteq> -1 \<Longrightarrow> length (tokens cnt toks' mem') = nat cnt \<and> 0 < cnt" using pos c(5) by (auto simp: tokens_def)
qed

section \<open>What a line can send\<close>

text \<open>
  A request as its receiver takes it: the length of the header is that of the event, the body is
  as long as the structure of its type, a range of addresses is not empty, the number of retries is
  one that is allowed, and a login holds a name and a password that end within their fields.
  Requests of an OS scan are not among them.
\<close>

inductive request_ok :: "u8 list \<Rightarrow> bool" where
  discover: "length body = 24 \<Longrightarrow> of_le32 body \<le> of_le32 (drop 4 body) \<Longrightarrow>
    request_ok (mk_event EVENT_DISCOVER_IPV4 fl body)"
| settings: "n \<le> 5 \<Longrightarrow>
    request_ok (mk_event EVENT_SET_SETTINGS fl (le32 SET_DISCOVER_RETRIES @ le32 (word_of_nat n)))"
| login: "length body = 70 \<Longrightarrow> length user < 35 \<Longrightarrow> length pw < 35 \<Longrightarrow>
    take (Suc (length user)) body = cstr_bytes user \<Longrightarrow> take (Suc (length pw)) (drop 35 body) = cstr_bytes pw \<Longrightarrow>
    request_ok (mk_event EVENT_AUTH_REQUEST fl body)"

text \<open>Between two states only requests are sent, perhaps cut off where \<^verbatim>\<open>write\<close> wrote less.\<close>

definition sends_requests :: "'h shell_world \<Rightarrow> 'h shell_world \<Rightarrow> bool" where
  "sends_requests w w' \<longleftrightarrow> (\<exists>ms. ev_sent (sh_ev w') = ev_sent (sh_ev w) @ ms \<and>
     (\<forall>(s, bs) \<in> set ms. \<exists>k e. request_ok e \<and> bs = take k e))"

text \<open>
  The commands \<^verbatim>\<open>os\<close> and \<^verbatim>\<open>login\<close> fill in a header only. What they send behind it is what the
  buffer held: as many bytes as the structure of a discover request and the host take, and the
  size of a login.
\<close>

definition sends_stale :: "'h shell_world \<Rightarrow> 'h shell_world \<Rightarrow> bool" where
  "sends_stale w w' \<longleftrightarrow> (\<exists>ty n fl ms. (ty = EVENT_OS_SCAN \<and> 24 < n \<or> ty = EVENT_AUTH_REQUEST \<and> n = 70) \<and>
     sh_ee w' = sh_ee w \<and> ev_sent (sh_ev w') = ev_sent (sh_ev w) @ ms \<and> length ms \<le> 1 \<and>
     (\<forall>(s, bs) \<in> set ms. \<exists>k. bs = take k (mk_event ty fl (map (sh_ee w) [0..<n]))))"

lemma sends_refl [simp]: "sends_requests w w"
  by (simp add: sends_requests_def)

lemma sends_trans: "sends_requests u v \<Longrightarrow> sends_requests v w \<Longrightarrow> sends_requests u w"
  unfolding sends_requests_def by (auto simp: ball_Un)

lemma sends_same: "sh_ev w' = sh_ev w \<Longrightarrow> sends_requests v w' = sends_requests v w"
  "sh_ev w' = sh_ev w \<Longrightarrow> sends_requests w' v = sends_requests w v"
  by (simp_all add: sends_requests_def)

lemma shell_simps [simp]:
  "sh_ev (say ls w) = sh_ev w" "sh_ev (put_ee i bs w) = sh_ev w" "sh_ev (usage c w) = sh_ev w"
  "sh_ev (do_help argc argv w) = sh_ev w" "sh_ev (do_summary w) = sh_ev w" "sh_ev (delete_ip_list w) = sh_ev w"
  "sh_flags (say ls w) = sh_flags w" "sh_flags (put_ee i bs w) = sh_flags w"
  by (simp_all add: say_def put_ee_def usage_def do_help_def do_summary_def delete_ip_list_def)

lemma put_ee_map:
  "i + length bs \<le> n \<Longrightarrow>
     map (sh_ee (put_ee i bs w)) [0..<n] = map (sh_ee w) [0..<i] @ bs @ map (sh_ee w) [i + length bs..<n]"
  by (rule nth_equalityI) (auto simp: put_ee_def nth_append)

lemma send_ee_sends:
  assumes "send_ee env a ty fl n w = Ret (res, w')"
    "n + 12 \<le> 65536 \<Longrightarrow> request_ok (mk_event ty (bswap32 fl) (map (sh_ee w) [0..<n]))"
  shows "sends_requests w w'"
proof -
  have n: "12 + n \<le> 65536" using assms(1) by (simp add: send_ee_def split: if_splits)
  then obtain ev where ev: "event_send (se_write env) a (mk_event ty (bswap32 fl) (map (sh_ee w) [0..<n])) (sh_ev w) = Ret (res, ev)"
      "w' = w\<lparr>sh_ev := ev\<rparr>"
    using assms(1) by (auto simp: send_ee_def)
  let ?e = "mk_event ty (bswap32 fl) (map (sh_ee w) [0..<n])"
  have ok: "request_ok ?e" using assms(2) n by simp
  define e where "e = ?e"
  have "\<exists>ms. ev_sent ev = ev_sent (sh_ev w) @ ms \<and> (\<forall>(s, bs) \<in> set ms. \<exists>k. bs = take k e)"
    using ev(1) unfolding e_def [symmetric] by (auto simp: event_send_def Let_def take_take split: if_splits)
  then obtain ms where ms: "ev_sent ev = ev_sent (sh_ev w) @ ms" "\<forall>(s, bs) \<in> set ms. \<exists>k. bs = take k e" by blast
  have "request_ok e" using ok by (simp add: e_def)
  then have "\<forall>(s, bs) \<in> set ms. \<exists>k e. request_ok e \<and> bs = take k e" using ms(2) by blast
  then show ?thesis using ms(1) unfolding sends_requests_def ev(2) by auto
qed

lemma of_le32_two [simp]: "of_le32 (le32 x @ bs) = x" "of_le32 (drop 4 (le32 x @ le32 y @ bs)) = y"
  by (simp_all add: of_le32_le32)

lemma discover_send_sends:
  assumes "discover_send env a lo hi w = Ret (res, w')" "lo \<le> hi"
  shows "sends_requests w w'"
proof -
  let ?v = "put_ee 0 (le32 lo @ le32 hi) w"
  have v: "map (sh_ee ?v) [0..<24] = le32 lo @ le32 hi @ map (sh_ee w) [8..<24]"
    using put_ee_map [of 0 "le32 lo @ le32 hi" 24 w] by simp
  have "length (map (sh_ee ?v) [0..<24]) = 24" "of_le32 (map (sh_ee ?v) [0..<24]) \<le> of_le32 (drop 4 (map (sh_ee ?v) [0..<24]))"
    using assms(2) unfolding v by simp_all
  then have "sends_requests ?v w'"
    using assms(1) request_ok.discover by (intro send_ee_sends) (auto simp: discover_send_def)
  then show ?thesis using sends_same(2) [of ?v w w'] by simp
qed

lemma range_target_le: "discover_target env arg = (Range_target lo hi, ls) \<Longrightarrow> lo \<le> hi"
  using le_word_or2 by (auto simp: discover_target_def Let_def split: if_splits option.splits)

lemma send_ee_fuel [simp]: "send_ee env a ty fl n w \<noteq> NoFuel"
  by (auto simp: send_ee_def event_send_def obind_NoFuel Let_def)

text \<open>A run that returns or leaves the language, and that sends requests only.\<close>

definition requesting :: "(int \<times> 'h shell_world) outcome \<Rightarrow> 'h shell_world \<Rightarrow> bool" where
  "requesting m w \<longleftrightarrow> m \<noteq> NoFuel \<and> (\<forall>r w'. m = Ret (r, w') \<longrightarrow> sends_requests w w')"

lemma requesting_Ret: "sh_ev w' = sh_ev w \<Longrightarrow> requesting (Ret (r, w')) w"
  using sends_same(1) [of w' w w] by (simp add: requesting_def)

lemma requesting_UB: "requesting UB w"
  by (simp add: requesting_def)

lemma requesting_same: "requesting m v \<Longrightarrow> sh_ev v = sh_ev w \<Longrightarrow> requesting m w"
  using sends_same(2) [of v w] by (simp add: requesting_def)

lemma requesting_bind:
  assumes "requesting m w" "\<And>r v. m = Ret (r, v) \<Longrightarrow> requesting (f (r, v)) v"
  shows "requesting (obind m f) w"
  using assms sends_trans unfolding requesting_def by (cases m) fastforce+

lemma requesting_send:
  assumes "n + 12 \<le> 65536 \<Longrightarrow> request_ok (mk_event ty (bswap32 fl) (map (sh_ee w) [0..<n]))"
  shows "requesting (send_ee env a ty fl n w) w"
  using send_ee_sends [OF _ assms] by (simp add: requesting_def)

lemma discover_args_requesting: "requesting (discover_args env a skip xs d w) w"
proof (induction xs arbitrary: d w)
  case (Cons y xs)
  obtain x arg where y: "y = (x, arg)" by (cases y)
  obtain t ls where t: "discover_target env arg = (t, ls)" by (cases "discover_target env arg")
  show ?case
  proof (cases "x = skip")
    case False
    show ?thesis
    proof (cases t)
      case (Range_target lo hi)
      then have "lo \<le> hi" using range_target_le t by blast
      then have "requesting (discover_send env a lo hi (say ls w)) (say ls w)"
        using discover_send_sends by (auto simp: requesting_def) (simp add: discover_send_def)
      then have "requesting (discover_args env a skip (y # xs) d w) (say ls w)"
        using False t Cons.IH by (auto simp: y Range_target intro!: requesting_bind)
      then show ?thesis by (rule requesting_same) simp
    next
      case Continue_target
      then show ?thesis using False t requesting_same [OF Cons.IH, of "say ls w" w] by (simp add: y)
    qed (use False t in \<open>simp add: y requesting_Ret\<close>)
  qed (use Cons.IH in \<open>simp add: y\<close>)
qed (simp add: requesting_Ret)

lemma do_discover_requesting: "requesting (do_discover env a argc argv w) w"
  using requesting_same [OF discover_args_requesting, of "w\<lparr>sh_flags := sh_flags w OR FLAG_FORCE\<rparr>" w]
    discover_args_requesting [of env a _ _ _ w]
  by (simp add: do_discover_def Let_def requesting_Ret)

text \<open>A command may instead send what the buffer holds.\<close>

definition requesting_line :: "(int \<times> 'h shell_world) outcome \<Rightarrow> 'h shell_world \<Rightarrow> bool" where
  "requesting_line m w \<longleftrightarrow> m \<noteq> NoFuel \<and> (\<forall>r w'. m = Ret (r, w') \<longrightarrow> sends_requests w w' \<or> sends_stale w w')"

lemma requesting_lineI: "requesting m w \<Longrightarrow> requesting_line m w"
  by (auto simp: requesting_def requesting_line_def)

lemma requesting_line_bind:
  assumes "requesting_line m w" "\<And>r v. m = Ret (r, v) \<Longrightarrow> \<exists>r' v'. f (r, v) = Ret (r', v') \<and> sh_ev v' = sh_ev v \<and> sh_ee v' = sh_ee v"
  shows "requesting_line (obind m f) w"
proof (cases m)
  case (Ret x)
  obtain r v where x: "x = (r, v)" by (cases x)
  obtain r' v' where v': "f (r, v) = Ret (r', v')" "sh_ev v' = sh_ev v" "sh_ee v' = sh_ee v"
    using assms(2) Ret x by blast
  have "sends_requests w v \<or> sends_stale w v" using assms(1) Ret x by (simp add: requesting_line_def)
  then have "sends_requests w v' \<or> sends_stale w v'"
    using v'(2,3) sends_same(1) [of v' v w] by (simp add: sends_stale_def)
  then show ?thesis using Ret x v'(1) by (simp add: requesting_line_def)
qed (use assms(1) in \<open>simp_all add: requesting_line_def\<close>)

lemma send_ee_stale:
  assumes "ty = EVENT_OS_SCAN \<and> 24 < n \<or> ty = EVENT_AUTH_REQUEST \<and> n = 70"
  shows "requesting_line (send_ee env a ty fl n w) w"
proof -
  have "sends_stale w w'" if sent: "send_ee env a ty fl n w = Ret (res, w')" for res w'
  proof -
    let ?e = "mk_event ty (bswap32 fl) (map (sh_ee w) [0..<n])"
    define e where "e = ?e"
    obtain ev where ev: "event_send (se_write env) a e (sh_ev w) = Ret (res, ev)" "w' = w\<lparr>sh_ev := ev\<rparr>"
      using sent unfolding e_def by (auto simp: send_ee_def split: if_splits)
    have "\<exists>ms. ev_sent ev = ev_sent (sh_ev w) @ ms \<and> length ms \<le> 1 \<and> (\<forall>(s, bs) \<in> set ms. \<exists>k. bs = take k e)"
      using ev(1) by (auto simp: event_send_def Let_def take_take split: if_splits)
    then show ?thesis
      using assms unfolding sends_stale_def ev(2) e_def
      by (intro exI [of _ ty] exI [of _ n] exI [of _ "bswap32 fl"]) auto
  qed
  then show ?thesis by (auto simp: requesting_line_def)
qed

lemma do_os_scan_requesting: "requesting_line (do_os_scan_command env a argc argv w) w"
proof (cases "argc < 2")
  case True
  then show ?thesis by (auto simp: do_os_scan_command_def intro!: requesting_lineI requesting_Ret)
next
  case False
  have "requesting_line (send_ee env a EVENT_OS_SCAN (sh_flags w) (24 + length (argv ! 1) + 1) w) w"
    by (rule send_ee_stale) simp
  then have "requesting_line (obind (send_ee env a EVENT_OS_SCAN (sh_flags w) (24 + length (argv ! 1) + 1) w)
      (\<lambda>(res, w). Ret (0, w))) w"
    by (rule requesting_line_bind) simp
  then show ?thesis using False by (simp add: do_os_scan_command_def)
qed

lemma do_retries_requesting: "requesting (do_set_discover_retries env a argc argv w) w"
proof -
  have "requesting (send_ee env a EVENT_SET_SETTINGS fl 8
      (put_ee 0 (le32 SET_DISCOVER_RETRIES @ le32 (word_of_int n)) w)) w"
    if n: "\<not> (n > MAX_ALLOWABLE_DISCOVER_RETRIES \<or> n < 0)" for fl n
  proof -
    let ?u = "put_ee 0 (le32 SET_DISCOVER_RETRIES @ le32 (word_of_int n)) w"
    have "map (sh_ee ?u) [0..<8] = le32 SET_DISCOVER_RETRIES @ le32 (word_of_nat (nat n))"
      using put_ee_map [of 0 "le32 SET_DISCOVER_RETRIES @ le32 (word_of_int n)" 8 w] n by simp
    moreover have "nat n \<le> 5" using n by (auto simp: MAX_ALLOWABLE_DISCOVER_RETRIES_def)
    ultimately have "requesting (send_ee env a EVENT_SET_SETTINGS fl 8 ?u) ?u"
      by (intro requesting_send) (simp only: request_ok.settings)
    then show ?thesis by (rule requesting_same) simp
  qed
  then show ?thesis
    unfolding do_set_discover_retries_def Let_def by (auto intro!: requesting_Ret requesting_bind)
qed

lemma do_login_requesting: "requesting_line (do_auth_request_command env a w) w"
  unfolding do_auth_request_command_def by (rule requesting_line_bind [OF send_ee_stale]) simp_all

lemma find_force_length:
  assumes "find_command cmd = Some (word, DO_FORCE, help, use)"
  shows "length cmd = 5"
proof -
  have "strcasecmp_eq cmd word" "(word, DO_FORCE, help, use) \<in> set commands"
    using assms by (auto simp: find_command_def find_Some_iff in_set_conv_nth)
  then have "map to_lower cmd = map to_lower ''force''" by (auto simp: commands_def strcasecmp_eq_def)
  then have "length (map to_lower cmd) = length (map to_lower ''force'')" by (rule arg_cong)
  then show ?thesis by simp
qed

lemma length_force_text: "length (concat (map (\<lambda>s. s @ '' '') ts)) = weight ts"
  by (induction ts) (simp_all add: weight_def)

lemma do_force_requesting:
  assumes "\<And>argc argv v. weight argv < n \<Longrightarrow> requesting_line (exec argc argv v) v" "weight (tl argv) + 1 < n"
  shows "requesting_line (do_force exec env argc argv w) w"
proof -
  let ?text = "concat (map (\<lambda>s. s @ '' '') (tl argv)) @ [NUL]"
  let ?w = "w\<lparr>sh_flags := sh_flags w OR FLAG_FORCE\<rparr>"
  have "requesting_line (obind (exec cnt (tokens cnt toks args) ?w) (\<lambda>(r, w). Ret (0, w\<lparr>sh_flags := sh_flags w AND NOT FLAG_FORCE\<rparr>))) w"
    if "parse (se_toks env) ?text = Ret (cnt, toks, args)" for cnt toks args
  proof -
    have "weight (tokens cnt toks args) < n"
      using parse_weight(1) [OF that] assms(2) by (simp add: length_force_text)
    then have "requesting_line (exec cnt (tokens cnt toks args) ?w) ?w" by (rule assms(1))
    then have "requesting_line (obind (exec cnt (tokens cnt toks args) ?w)
        (\<lambda>(r, w). Ret (0, w\<lparr>sh_flags := sh_flags w AND NOT FLAG_FORCE\<rparr>))) ?w"
      by (rule requesting_line_bind) simp
    then show ?thesis
      using sends_same(2) [of ?w w] by (simp add: requesting_line_def sends_stale_def)
  qed
  then show ?thesis
    using parse_returns [of "se_toks env" ?text]
    by (cases "parse (se_toks env) ?text") (auto simp: do_force_def requesting_line_def)
qed

lemma execute_command_requesting: "weight argv < n \<Longrightarrow> requesting_line (execute_command n env a argc argv w) w"
proof (induction n arbitrary: argc argv w)
  case (Suc n)
  show ?case
  proof (cases argv)
    case (Cons cmd ts)
    show ?thesis
    proof (cases "find_command cmd")
      case (Some k)
      obtain word c x y where k: "k = (word, c, x, y)" by (cases k)
      show ?thesis
      proof (cases c)
        case DO_FORCE
        then have "weight (tl argv) + 1 < n"
          using find_force_length Some k Suc.prems Cons by (auto simp: weight_def)
        then have "requesting_line (do_force (execute_command n env a) env argc argv w) w"
          by (intro do_force_requesting [OF Suc.IH])
        then show ?thesis using Cons Some k DO_FORCE by simp
      qed (use Cons Some k in \<open>simp_all add: requesting_lineI requesting_Ret do_discover_requesting do_os_scan_requesting
          do_retries_requesting do_login_requesting\<close>, simp add: requesting_line_def)
    qed (use Cons in \<open>simp add: requesting_lineI requesting_Ret\<close>)
  qed (simp add: requesting_line_def)
qed simp

lemma reply_access_fuel [simp]: "field i bs \<noteq> NoFuel" "text_at i bs \<noteq> NoFuel"
  by (simp_all add: field_def text_at_def)

lemma say_options_facts:
  "say_options n ip bs w \<noteq> NoFuel \<and> (\<forall>w'. say_options n ip bs w = Ret w' \<longrightarrow> sh_ev w' = sh_ev w)"
  by (induction n ip bs w rule: say_options.induct) (auto simp: obind_NoFuel)

lemma send_auth_requesting: "requesting (send_auth_request env a username password w) w"
proof (cases "length username < 35 \<and> length password < 35")
  case True
  let ?v = "say [nl (''authenticating '' @ username @ '' '' @ password)] w"
  let ?u = "put_ee 35 (cstr_bytes password) (put_ee 0 (cstr_bytes username) ?v)"
  let ?body = "map (sh_ee ?u) [0..<70]"
  have "take (Suc (length username)) ?body = cstr_bytes username"
    using True by (intro nth_equalityI) (auto simp: put_ee_def)
  moreover have "take (Suc (length password)) (drop 35 ?body) = cstr_bytes password"
    using True by (intro nth_equalityI) (auto simp: put_ee_def)
  ultimately have "requesting (send_ee env a EVENT_AUTH_REQUEST 0 70 ?u) ?u"
    using True by (intro requesting_send request_ok.login [of _ username password]) simp_all
  then have "requesting (send_ee env a EVENT_AUTH_REQUEST 0 70 ?u) w" by (rule requesting_same) simp
  then show ?thesis
    unfolding send_auth_request_def by (auto intro!: requesting_bind requesting_Ret simp: requesting_UB)
qed (auto simp: send_auth_request_def requesting_UB)

lemma authenticate_requesting: "requesting (authenticate_me env a w) w"
  unfolding authenticate_me_def
  by (auto split: prod.splits intro!: requesting_same [OF send_auth_requesting] simp: requesting_UB)

lemma auth_reply_requesting: "requesting (handle_auth_request_reply env a e w) w"
proof -
  have "requesting (authenticate_me env a (say ls w)) w" for ls
    using authenticate_requesting by (rule requesting_same) simp
  then show ?thesis
    unfolding handle_auth_request_reply_def by (auto intro!: requesting_bind requesting_Ret)
qed

lemma quiet_requesting:
  assumes "m \<noteq> NoFuel" "\<And>w'. m = Ret w' \<Longrightarrow> sh_ev w' = sh_ev w"
  shows "requesting (obind m (\<lambda>w. Ret (0, w))) w"
  using assms requesting_UB by (cases m) (simp_all add: requesting_Ret, simp add: requesting_def)

lemma shell_handle_requesting: "requesting (shell_handle env cb h e a w) w"
proof (cases cb)
  case SH_ERROR
  then show ?thesis
    by (auto simp: shell_handle_def handle_error_def requesting_def obind_NoFuel sends_requests_def)
next
  case SH_DISCOVER_REPLY
  have "requesting (handle_discover_reply env e w) w"
    unfolding handle_discover_reply_def Let_def
    by (rule quiet_requesting) (auto simp: add_to_discovered_list_def split: if_splits)
  then show ?thesis using SH_DISCOVER_REPLY by (simp add: shell_handle_def)
next
  case SH_OS_SCAN_REPLY
  have "requesting (handle_os_scan_reply (h_len h) e w) w"
    unfolding handle_os_scan_reply_def
  proof (rule quiet_requesting)
    fix n ip bs ls w' assume "say_options n ip bs (say ls w) = Ret w'"
    then show "sh_ev w' = sh_ev w" using say_options_facts [of n ip bs "say ls w"] by simp
  qed (rule say_options_facts [THEN conjunct1])
  then show ?thesis using SH_OS_SCAN_REPLY by (simp add: shell_handle_def)
qed (simp add: shell_handle_def auth_reply_requesting)

text \<open>The tokens of a line of words and quoted strings.\<close>

lemma tokens_of_line:
  assumes "line_ok t ts tr" "length ts < length toks"
  shows "\<exists>toks' mem'. parse toks (render t @ line_tail ts @ tr @ [NUL]) = Ret (int (Suc (length ts)), toks', mem') \<and>
    tokens (int (Suc (length ts))) toks' mem' = map content (t # map snd ts)"
proof -
  define line where "line = render t @ line_tail ts @ tr @ [NUL]"
  have ne: "0 < length toks" using assms(2) by linarith
  have "length (render t @ line_tail ts @ tr) < Suc (length line)" "1 + length ts \<le> length (toks[0 := 0])"
    using assms(2) by (simp_all add: line_def)
  then have "\<exists>toks' mem'. parse_loop (Suc (length line)) line (toks[0 := 0]) 1 False 0 = Ret (int (1 + length ts), toks', mem') \<and>
      length toks' = length (toks[0 := 0]) \<and>
      (\<forall>i \<le> length ts. done_at mem' (toks' ! i) (content ((t # map snd ts) ! i)))"
    using parse_loop_tokens [OF assms(1), of 1 "toks[0 := 0]" "[]" "Suc (length line)" "[]"] ne
    by (auto simp: line_def)
  then obtain toks' mem' where p: "parse_loop (Suc (length line)) line (toks[0 := 0]) 1 False 0 = Ret (int (1 + length ts), toks', mem')"
      "length toks' = length toks" "\<forall>i \<le> length ts. done_at mem' (toks' ! i) (content ((t # map snd ts) ! i))"
    by auto
  have "aset toks 0 0 = Ret (toks[0 := 0])" using ne by (simp add: aset_def)
  then have "parse toks line = Ret (int (Suc (length ts)), toks', mem')"
    using p(1) by (simp only: parse_def obind.simps) simp
  moreover have "tokens (int (Suc (length ts))) toks' mem' = map content (t # map snd ts)"
  proof (rule nth_equalityI)
    show "length (tokens (int (Suc (length ts))) toks' mem') = length (map content (t # map snd ts))"
      using p(2) assms(2) by (simp add: tokens_def)
  next
    fix i assume "i < length (tokens (int (Suc (length ts))) toks' mem')"
    then have i: "i \<le> length ts" "i < length toks'" using p(2) assms(2) by (simp_all add: tokens_def)
    then have "tokens (int (Suc (length ts))) toks' mem' ! i = str_at mem' (toks' ! i)" by (simp add: tokens_def)
    then show "tokens (int (Suc (length ts))) toks' mem' ! i = map content (t # map snd ts) ! i"
      using p(3) i(1) done_at_str by (simp del: list.map)
  qed
  ultimately show ?thesis unfolding line_def by blast
qed

section \<open>Properties\<close>

definition shell_link :: "shell_env \<Rightarrow> nat \<Rightarrow> int \<Rightarrow> 'h ev_state \<Rightarrow> bool" where
  "shell_link env a s ev \<longleftrightarrow> gui_link (sample_gui_env\<lparr>ge_write := se_write env\<rparr>) a s ev"

lemma send_ee_link:
  assumes "shell_link env a s (sh_ev w)" "n \<le> 65524"
  shows "send_ee env a ty fl n w = Ret (int n + 12,
    w\<lparr>sh_ev := sent_to s [mk_event ty (bswap32 fl) (map (sh_ee w) [0..<n])] (sh_ev w)\<rparr>)"
  using gui_send [of "sample_gui_env\<lparr>ge_write := se_write env\<rparr>" a s "sh_ev w" "map (sh_ee w) [0..<n]"] assms
  by (simp add: send_ee_def shell_link_def)

lemma do_discover_host:
  assumes "CHR ''/'' \<notin> set host" "inet_aton host = Some addr" "gui_link env a s (gw_ev w)"
    "ge_dd env (gw_dd w) = Some d" "gw_dd w d = None" "length (ge_stale env 4) = 4"
  shows "\<exists>w'. Gui_Requests.do_discover env a host np w = Ret w' \<and>
    gw_ev w' = sent_to s [mk_event EVENT_DISCOVER_IPV4 0 (le32 (bswap32 addr) @ le32 (bswap32 addr) @
      (le32 0 @ ge_stale env 4) @ ptr_bytes np)] (gw_ev w)"
  using assms
  by (auto simp: Gui_Requests.do_discover_def new_dd_def dd_upd_def deref_def do_host_discover_after_dns_def
      discover_and_free_def send_discover_request_def discover_event_def gui_send free_dd_def Let_def)

lemma find_discover: "find_command ''discover'' = Some (''discover'', DO_DISCOVER, ''Find hosts on a network'',
    ''discover [ network/netmask ] | [ host ] [force]'')"
  by code_simp

lemma shell_discover_line:
  assumes "token_ok (Plain arg)" "arg \<noteq> ''force''" "1 < length (se_toks env)" "shell_link env a s (sh_ev w)"
    "discover_target env arg = (Range_target lo hi, ls)"
  shows "\<exists>w' x. handle_command env a (''discover '' @ arg) w = Ret w' \<and> length x = 16 \<and>
    sh_ev w' = sent_to s [mk_event EVENT_DISCOVER_IPV4 (bswap32 (sh_flags w)) (le32 lo @ le32 hi @ x)] (sh_ev w)"
proof -
  define line where "line = ''discover '' @ arg"
  define argv where "argv = [''discover'', arg]"
  have l: "render (Plain ''discover'') @ line_tail [('' '', Plain arg)] @ [] @ [NUL] = line @ [NUL]"
    by (simp add: line_def)
  have "line_ok (Plain ''discover'') [('' '', Plain arg)] []"
    using assms(1) by (simp add: line_ok_def sep_ok_def)
  then obtain toks mem where p: "parse (se_toks env) (line @ [NUL]) = Ret (2, toks, mem)" "tokens 2 toks mem = argv"
    using tokens_of_line [of "Plain ''discover''" "[('' '', Plain arg)]" "[]" "se_toks env"] assms(3)
    unfolding l by (auto simp: argv_def)
  let ?v = "put_ee 0 (le32 lo @ le32 hi) (say ls w)"
  have v: "map (sh_ee ?v) [0..<24] = le32 lo @ le32 hi @ map (sh_ee (say ls w)) [8..<24]"
    using put_ee_map [of 0 "le32 lo @ le32 hi" 24 "say ls w"] by simp
  define x where "x = map (sh_ee (say ls w)) [8..<24]"
  have x: "length x = 16" by (simp add: x_def)
  define u where "u = ?v\<lparr>sh_ev := sent_to s [mk_event EVENT_DISCOVER_IPV4 (bswap32 (sh_flags w))
      (le32 lo @ le32 hi @ x)] (sh_ev w)\<rparr>"
  have send: "discover_send env a lo hi (say ls w) = Ret (36, u)"
    using send_ee_link [of env a s ?v 24 EVENT_DISCOVER_IPV4 "sh_flags w"] assms(4) unfolding v x_def [symmetric]
    by (simp add: discover_send_def u_def)
  have "do_discover env a 2 argv w = discover_args env a (Suc (Suc 0)) [(1, arg)] (-1) w"
    using assms(2) by (simp add: do_discover_def argv_def force_at_def)
  also have "\<dots> = Ret (0, u)" using assms(5) send by simp
  finally have run: "execute_command (Suc n) env a 2 argv w = Ret (0, u)" for n
    using find_discover by (simp add: argv_def)
  have "handle_command env a line w = Ret u"
    unfolding handle_command_def p(1) obind.simps using p(2) run by (simp del: execute_command.simps)
  moreover have "sh_ev u = sent_to s [mk_event EVENT_DISCOVER_IPV4 (bswap32 (sh_flags w)) (le32 lo @ le32 hi @ x)] (sh_ev w)"
    by (simp add: u_def)
  ultimately show ?thesis using x unfolding line_def by blast
qed

text \<open>
  C30. The two clients ask for the same addresses: for an address, or an address with any netmask
  that is accepted, the line \<^verbatim>\<open>discover\<close> of the shell and the request of the graphical client send
  one event each, of the same type and with the same first and last address.
\<close>

theorem shell_gui_same_range:
  assumes "token_ok (Plain arg)" "arg \<noteq> ''force''" "1 < length (se_toks env)" "shell_link env a s (sh_ev w)"
    and addr: "CHR ''/'' \<notin> set name" "inet_aton name = Some addr" "se_gethostbyname env name = Some addr"
    and arg: "arg = name \<or> (\<exists>text m. arg = name @ CHR ''/'' # text \<and> netmask text = Some m)"
    and gui: "gui_link genv b t (gw_ev g)" "ge_dd genv (gw_dd g) = Some d" "gw_dd g d = None"
      "length (ge_stale genv 4) = 4"
  shows "\<exists>w' g' lo hi x y.
    handle_command env a (''discover '' @ arg) w = Ret w' \<and> Gui_Requests.do_discover genv b arg np g = Ret g' \<and>
    ev_sent (sh_ev w') = ev_sent (sh_ev w) @
      [(s, mk_event EVENT_DISCOVER_IPV4 (bswap32 (sh_flags w)) (le32 lo @ le32 hi @ x))] \<and>
    ev_sent (gw_ev g') = ev_sent (gw_ev g) @
      [(t, mk_event EVENT_DISCOVER_IPV4 0 (le32 lo @ le32 hi @ y))] \<and>
    length x = 16 \<and> length y = 16"
proof -
  let ?y = "(le32 0 @ ge_stale genv 4) @ ptr_bytes np"
  have y: "length ?y = 16" using gui(4) by (simp add: ptr_bytes_def)
  have "\<exists>lo hi ls g'. discover_target env arg = (Range_target lo hi, ls) \<and>
      Gui_Requests.do_discover genv b arg np g = Ret g' \<and>
      gw_ev g' = sent_to t [mk_event EVENT_DISCOVER_IPV4 0 (le32 lo @ le32 hi @ ?y)] (gw_ev g)"
    using arg
  proof
    assume "arg = name"
    then show ?thesis
      using do_discover_host [OF addr(1,2) gui, of np] addr
      by (intro exI [of _ "bswap32 addr"]) (auto simp: discover_target_def get_host_def)
  next
    assume "\<exists>text m. arg = name @ CHR ''/'' # text \<and> netmask text = Some m"
    then obtain tx m where m: "arg = name @ CHR ''/'' # tx" "netmask tx = Some m" by blast
    obtain g' where "Gui_Requests.do_discover genv b arg np g = Ret g'"
        "gw_ev g' = sent_to t [mk_event EVENT_DISCOVER_IPV4 0 (le32 (bswap32 addr AND m) @
           le32 (bswap32 addr AND m OR NOT m) @ ?y)] (gw_ev g)"
      using do_discover_network [OF addr(1,2) m(2) gui, of np] m(1) by (auto simp: be32_bswap32)
    moreover obtain ls where "discover_target env arg =
        (Range_target (bswap32 addr AND m) (bswap32 addr AND m OR NOT m), ls)"
      using m slash_parts [OF addr(1), of tx] addr(3) by (simp add: discover_target_def get_host_def Let_def)
    ultimately show ?thesis by blast
  qed
  then obtain lo hi ls g' where g: "discover_target env arg = (Range_target lo hi, ls)"
      "Gui_Requests.do_discover genv b arg np g = Ret g'"
      "gw_ev g' = sent_to t [mk_event EVENT_DISCOVER_IPV4 0 (le32 lo @ le32 hi @ ?y)] (gw_ev g)" by blast
  obtain w' x where w: "handle_command env a (''discover '' @ arg) w = Ret w'" "length x = 16"
      "sh_ev w' = sent_to s [mk_event EVENT_DISCOVER_IPV4 (bswap32 (sh_flags w)) (le32 lo @ le32 hi @ x)] (sh_ev w)"
    using shell_discover_line [OF assms(1-4) g(1)] by blast
  show ?thesis
    by (intro exI [of _ w'] exI [of _ g'] exI [of _ lo] exI [of _ hi] exI [of _ x] exI [of _ ?y] conjI w(1,2) g(2) y)
      (simp_all add: w(3) g(3))
qed


text \<open>An example: a shell that is connected, and a resolver that knows dotted addresses.\<close>

definition sample_shell_env :: shell_env where
  "sample_shell_env =
     \<lparr>se_write = \<lambda>_ bs. int (length bs), se_gethostbyname = inet_aton, se_malloc = True,
      se_toks = replicate MAX_TOKENS 0, se_input = (''guest'', ''secret'')\<rparr>"

definition sample_shell :: "int shell_world" where
  "sample_shell = \<lparr>sh_flags = 0, sh_IPList = [], sh_ee = \<lambda>_. 0, sh_index = 0, sh_ev = gw_ev sample_gui, sh_out = []\<rparr>"

lemma sample_shell_link: "shell_link sample_shell_env 1 5 (sh_ev sample_shell)"
  using sample_gui_link by (simp add: shell_link_def gui_link_def sample_shell_def sample_shell_env_def sample_gui_env_def)

theorem shell_gui_same_range_witness:
  "\<exists>w' g' lo hi x y.
    handle_command sample_shell_env 1 ''discover 10.0.0.5'' sample_shell = Ret w' \<and>
    Gui_Requests.do_discover sample_gui_env 1 ''10.0.0.5'' 3 sample_gui = Ret g' \<and>
    ev_sent (sh_ev w') = [(5, mk_event EVENT_DISCOVER_IPV4 (bswap32 0) (le32 lo @ le32 hi @ x))] \<and>
    ev_sent (gw_ev g') = [(5, mk_event EVENT_DISCOVER_IPV4 0 (le32 lo @ le32 hi @ y))]"
proof -
  have "dotted 0x0500000A = ''10.0.0.5''" by code_simp
  then have ten: "inet_aton ''10.0.0.5'' = Some 0x0500000A" using inet_aton_dotted by metis
  have w: "token_ok (Plain ''10.0.0.5'')" "''10.0.0.5'' \<noteq> ''force''" "CHR ''/'' \<notin> set ''10.0.0.5''"
    "1 < length (se_toks sample_shell_env)" "se_gethostbyname sample_shell_env ''10.0.0.5'' = Some 0x0500000A"
    using ten by (simp_all add: sample_shell_env_def MAX_TOKENS_def)
  have g: "ge_dd sample_gui_env (gw_dd sample_gui) = Some 40" "gw_dd sample_gui 40 = None"
    "length (ge_stale sample_gui_env 4) = 4" "ev_sent (gw_ev sample_gui) = []"
    by (simp_all add: sample_gui_env_def sample_gui_def map_demo_def ev_init_def)
  have s: "ev_sent (sh_ev sample_shell) = []" "sh_flags sample_shell = 0" using g(4) by (simp_all add: sample_shell_def)
  have "''discover '' @ ''10.0.0.5'' = ''discover 10.0.0.5''" by simp
  then show ?thesis
    using shell_gui_same_range [OF w(1,2,4) sample_shell_link w(3) ten w(5) disjI1 [OF refl] sample_gui_link g(1-3), where np = 3]
    unfolding s g(4) append_Nil by metis
qed


section \<open>What the shell does not do\<close>

text \<open>Once \<^verbatim>\<open>discover\<close> was given \<^verbatim>\<open>force\<close>, all later commands are forced as well.\<close>

lemma discover_args_flags: "discover_args env a skip xs d w = Ret (r, w') \<Longrightarrow> sh_flags w' = sh_flags w"
proof (induction xs arbitrary: d w)
  case (Cons y xs)
  have "send_ee env a ty fl n u = Ret (res, v) \<Longrightarrow> sh_flags v = sh_flags u" for ty fl n u res v
    by (auto simp: send_ee_def split: if_splits)
  then have send: "discover_send env a lo hi u = Ret (res, v) \<Longrightarrow> sh_flags v = sh_flags u" for lo hi u res v
    using shell_simps(8) by (metis discover_send_def)
  obtain x arg where y: "y = (x, arg)" by (cases y)
  obtain t ls where t: "discover_target env arg = (t, ls)" by (cases "discover_target env arg")
  show ?case
    using Cons.prems Cons.IH send t by (cases t) (fastforce simp: y split: if_splits)+
qed simp

lemma force_kept:
  assumes "do_discover env a 3 [''discover'', host, ''force''] w = Ret (r, w')"
  shows "sh_flags w' AND FLAG_FORCE \<noteq> 0"
proof -
  obtain skip xs where "discover_args env a skip xs (-1) (w\<lparr>sh_flags := sh_flags w OR FLAG_FORCE\<rparr>) = Ret (r, w')"
    using assms by (auto simp: do_discover_def Let_def simp del: discover_args.simps force_at_def)
  from discover_args_flags [OF this] have "sh_flags w' = sh_flags w OR FLAG_FORCE" by simp
  moreover have "(x OR FLAG_FORCE) AND FLAG_FORCE = FLAG_FORCE" for x :: u32 by (rule bit_word_eqI) (auto simp: bit_simps)
  ultimately show ?thesis by (simp add: FLAG_FORCE_def)
qed

text \<open>The host that is to be scanned is not part of the request: only its length matters.\<close>

lemma os_scan_ignores_host:
  "length host = length other \<Longrightarrow>
     do_os_scan_command env a 2 [''os'', host] w = do_os_scan_command env a 2 [''os'', other] w"
  by (simp add: do_os_scan_command_def)

text \<open>\<^verbatim>\<open>force\<close> alone cuts memory that was never written.\<close>

lemma force_alone: "find_command cmd = Some (word, DO_FORCE, x, y) \<Longrightarrow> execute_command (Suc n) env a 1 [cmd] w = UB"
  by (simp add: do_force_def)

text \<open>A name of 35 characters does not fit into the event, although 79 are read.\<close>

lemma long_name_overflows: "se_input env = (replicate 35 (CHR ''a''), pw) \<Longrightarrow> authenticate_me env a w = UB"
  by (simp add: authenticate_me_def send_auth_request_def)

end
