(* ===== verification/Services.thy ===== *)
theory Services
  imports Registry Monitoring
begin

text \<open>
  The commands that the client runs for a service of a host, \<^verbatim>\<open>gui-service.c\<close>: the list of
  commands by port and protocol, the placeholders of a command, and the list of the threads that
  run them. A service and a thread entry are known by their address. Arguments are what \<^verbatim>\<open>malloc\<close>
  returns, what the user enters in the dialogs and the numbers of the threads.
\<close>

section \<open>The list of commands\<close>

record service_entry =
  sl_name :: cstring
  sl_port :: int
  sl_protocol :: int
  sl_command :: cstring

type_synonym service_list = "(nat \<times> service_entry) list"

definition PROTOCOL_TCP :: int where "PROTOCOL_TCP = 1"
definition PROTOCOL_UDP :: int where "PROTOCOL_UDP = 2"

definition service_key :: "service_entry \<Rightarrow> int \<times> int" where
  "service_key e = (sl_port e, sl_protocol e)"

text \<open>The protocol numbers of an older format of the configuration.\<close>

definition old_protocol :: "int \<Rightarrow> int" where
  "old_protocol protocol = (if protocol = 6 then PROTOCOL_TCP else if protocol = 17 then PROTOCOL_UDP else protocol)"

definition service_list_add ::
  "nat option \<Rightarrow> cstring \<Rightarrow> int \<Rightarrow> int \<Rightarrow> cstring \<Rightarrow> service_list \<Rightarrow> (nat \<times> service_list) outcome" where
  "service_list_add q name port protocol string sl =
     (let protocol = old_protocol protocol in
      case klook service_key sl (port, protocol) of
        Some (p, e) \<Rightarrow>
          Ret (p, update_first (\<lambda>(k, e). service_key e = (port, protocol))
                    (\<lambda>(k, e). (k, e\<lparr>sl_name := name, sl_command := string\<rparr>)) sl)
      | None \<Rightarrow>
          (case q of
             None \<Rightarrow> Exit 1
           | Some q \<Rightarrow>
               Ret (q, (q, \<lparr>sl_name = name, sl_port = port, sl_protocol = protocol, sl_command = string\<rparr>) # sl)))"

definition service_list_remove_ptr :: "nat \<Rightarrow> service_list \<Rightarrow> service_list" where
  "service_list_remove_ptr t sl = drop_address t sl"

definition service_list_change ::
  "nat \<Rightarrow> cstring \<Rightarrow> int \<Rightarrow> int \<Rightarrow> cstring \<Rightarrow> service_list \<Rightarrow> nat option \<times> service_list" where
  "service_list_change service name port protocol string sl =
     (if service \<notin> fst ` set sl then (None, sl)
      else
        let sl = update_first (\<lambda>(k, e). k = service)
              (\<lambda>(k, e). (k, \<lparr>sl_name = name, sl_port = port, sl_protocol = protocol, sl_command = string\<rparr>)) sl in
        if \<exists>(k, e) \<in> set sl. k \<noteq> service \<and> sl_port e = port \<and> sl_protocol e = protocol
        then (None, service_list_remove_ptr service sl)
        else (Some service, sl))"

text \<open>\<^verbatim>\<open>protocol && p->protocol\<close>: the protocols are not compared.\<close>

definition service_list_remove :: "int \<Rightarrow> int \<Rightarrow> service_list \<Rightarrow> service_list" where
  "service_list_remove port protocol sl =
     remove_first (\<lambda>(k, e). port = sl_port e \<and> protocol \<noteq> 0 \<and> sl_protocol e \<noteq> 0) sl"

definition service_defaults :: "(cstring \<times> int \<times> int \<times> cstring) list" where
  "service_defaults =
     [(''ftp'', 21, PROTOCOL_TCP, ''xterm -e ftp %i''),
      (''ssh'', 22, PROTOCOL_TCP, ''xterm -e ssh %i -l %u''),
      (''telnet'', 23, PROTOCOL_TCP, ''xterm -e telnet %i''),
      (''http'', 80, PROTOCOL_TCP, ''netscape %i''),
      (''javaVNC:0'', 5800, PROTOCOL_TCP, ''netscape %i:%p''),
      (''VNC:0'', 5900, PROTOCOL_TCP, ''xterm -e vncviewer %i:%p'')]"

fun service_add_all :: "(nat option \<times> cstring \<times> int \<times> int \<times> cstring) list \<Rightarrow> service_list \<Rightarrow> service_list outcome" where
  "service_add_all [] sl = Ret sl"
| "service_add_all ((q, name, port, protocol, string) # xs) sl =
     obind (service_list_add q name port protocol string sl) (\<lambda>(p, sl). service_add_all xs sl)"

text \<open>The old entries are freed, all of them.\<close>

definition service_list_default :: "nat option list \<Rightarrow> service_list \<Rightarrow> service_list outcome" where
  "service_list_default qs sl = service_add_all (zip qs service_defaults) []"

definition service_list_get ::
  "nat option list \<Rightarrow> int \<Rightarrow> int \<Rightarrow> service_list \<Rightarrow> (cstring option \<times> service_list) outcome" where
  "service_list_get qs port protocol sl =
     obind (if sl = [] then service_list_default qs sl else Ret sl) (\<lambda>sl.
       Ret (map_option (\<lambda>(p, e). sl_command e) (klook service_key sl (port, protocol)), sl))"

section \<open>The placeholders of a command\<close>

definition COMMAND_BUFFER :: nat where "COMMAND_BUFFER = 1024"

definition strcat_buf :: "cstring \<Rightarrow> cstring \<Rightarrow> cstring outcome" where
  "strcat_buf buf s = sprintf_in COMMAND_BUFFER (buf @ s)"

definition PERCENT :: char where "PERCENT = CHR 0x25"

text \<open>
  What stands for a character behind a percent sign, if it is a placeholder: the text and the
  answers of the dialogs that are left. A dialog that is cancelled gives nothing.
\<close>

definition placeholder ::
  "u32 \<Rightarrow> int \<Rightarrow> char \<Rightarrow> cstring option list \<Rightarrow> (cstring \<times> cstring option list) option" where
  "placeholder ip port c answers =
     (if c = CHR ''i'' then Some (ip2str ip, answers)
      else if c = CHR ''p'' then Some (show_int port, answers)
      else if c = CHR ''u'' \<or> c = CHR ''P''
      then Some (case answers of Some s # _ \<Rightarrow> s | _ \<Rightarrow> [], tl answers)
      else None)"

text \<open>
  The loop of \<^verbatim>\<open>run_command_callback\<close>. \<open>pre\<close> is the text from \<^verbatim>\<open>b\<close> on that the search for a percent
  sign has passed. A percent sign with anything else behind it is copied with the text in front of
  it, and left out when there is none.
\<close>

lemma obind_cong [fundef_cong]:
  "m = m' \<Longrightarrow> (\<And>x. m' = Ret x \<Longrightarrow> f x = g x) \<Longrightarrow> obind m f = obind m' g"
  by (cases m') auto

fun expand :: "u32 \<Rightarrow> int \<Rightarrow> cstring option list \<Rightarrow> cstring \<Rightarrow> cstring \<Rightarrow> cstring \<Rightarrow> cstring outcome" where
  "expand ip port answers buf pre [] = strcat_buf buf pre"
| "expand ip port answers buf pre (c # cs) =
     (if c \<noteq> PERCENT then expand ip port answers buf (pre @ [c]) cs
      else
        case (case cs of [] \<Rightarrow> None | d # ds \<Rightarrow> placeholder ip port d answers) of
          Some (s, answers) \<Rightarrow>
            obind (strcat_buf buf pre) (\<lambda>buf.
            obind (strcat_buf buf s) (\<lambda>buf. expand ip port answers buf [] (tl cs)))
        | None \<Rightarrow>
            obind (strcat_buf buf (if pre = [] then [] else pre @ [PERCENT])) (\<lambda>buf.
              expand ip port answers buf [] cs))"

section \<open>Running a command\<close>

text \<open>
  A thread entry has the number of its thread, and the command. The number is what the memory that
  \<^verbatim>\<open>malloc\<close> returned held, \<open>stale\<close>, until \<^verbatim>\<open>pthread_create\<close> stores it. What is handed to \<^verbatim>\<open>system\<close>
  is logged.
\<close>

record thread_entry =
  tl_thread :: nat
  tl_command :: cstring

record service_world =
  sw_list :: service_list
  sw_threads :: "(nat \<times> thread_entry) list"
  sw_system :: "cstring list"

definition run_command_callback ::
  "nat option \<Rightarrow> nat \<Rightarrow> cstring option list \<Rightarrow> u32 \<Rightarrow> int \<Rightarrow> cstring \<Rightarrow> service_world \<Rightarrow> (int \<times> service_world) outcome" where
  "run_command_callback q stale answers ip port string w =
     obind (expand ip port answers [] [] string) (\<lambda>buf.
       case q of
         None \<Rightarrow> UB
       | Some t \<Rightarrow>
           Ret (1, w\<lparr>sw_threads := (t, \<lparr>tl_thread = stale, tl_command = buf\<rparr>) # sw_threads w\<rparr>))"

text \<open>
  From \<^verbatim>\<open>pthread_create\<close> on there are two flows. It stores the number of the thread in the entry, and
  the thread \<^verbatim>\<open>run_service\<close> runs the command and then takes the first entry with its number off the
  list. Nothing orders the first against the others, so a run is a list of the three steps.
\<close>

definition store_number :: "nat \<Rightarrow> nat \<Rightarrow> service_world \<Rightarrow> service_world outcome" where
  "store_number self t w =
     obind (deref (map_of (sw_threads w)) t) (\<lambda>e.
       Ret (w\<lparr>sw_threads := update_first (\<lambda>(k, e). k = t) (\<lambda>(k, e). (k, e\<lparr>tl_thread := self\<rparr>)) (sw_threads w)\<rparr>))"

definition run_system :: "nat \<Rightarrow> service_world \<Rightarrow> service_world outcome" where
  "run_system t w =
     obind (deref (map_of (sw_threads w)) t) (\<lambda>e. Ret (w\<lparr>sw_system := sw_system w @ [tl_command e]\<rparr>))"

definition end_service :: "nat \<Rightarrow> nat \<Rightarrow> service_world \<Rightarrow> service_world outcome" where
  "end_service self t w =
     obind (deref (map_of (sw_threads w)) t) (\<lambda>e.
       Ret (w\<lparr>sw_threads := remove_first (\<lambda>(k, e). tl_thread e = self) (sw_threads w)\<rparr>))"

definition run_service :: "nat \<Rightarrow> nat \<Rightarrow> service_world \<Rightarrow> service_world outcome" where
  "run_service self t w = obind (run_system t w) (end_service self t)"

datatype service_step = Store_number | Run_command | End_thread

fun service_steps :: "nat \<Rightarrow> nat \<Rightarrow> service_step list \<Rightarrow> service_world \<Rightarrow> service_world outcome" where
  "service_steps self t [] w = Ret w"
| "service_steps self t (x # xs) w =
     obind (case x of Store_number \<Rightarrow> store_number self t w | Run_command \<Rightarrow> run_system t w
              | End_thread \<Rightarrow> end_service self t w)
       (service_steps self t xs)"

lemma run_service_steps: "run_service self t w = service_steps self t [Run_command, End_thread] w"
proof -
  have "obind m Ret = m" for m :: "service_world outcome" by (cases m) auto
  moreover have "service_steps self t [] = Ret" by (simp add: fun_eq_iff)
  ultimately show ?thesis
    by (simp add: run_service_def del: service_steps.simps(1)) (cases "run_system t w"; simp)
qed

text \<open>
  The dialog for a service, of \<^verbatim>\<open>gui-settings.c\<close>: its end, with the four texts when it was
  confirmed. \<open>q\<close> is what \<^verbatim>\<open>malloc\<close> returns for a new entry. The protocol is a number of IP, which only
  \<^verbatim>\<open>service_list_add\<close> converts.
\<close>

datatype dialog_end = Closed | Cancelled | Confirmed cstring cstring cstring cstring

definition services_make_dialog ::
  "nat option \<Rightarrow> dialog_end \<Rightarrow> nat option \<Rightarrow> service_list \<Rightarrow> (nat option \<times> service_list) outcome" where
  "services_make_dialog q d service sl =
     (case d of
        Confirmed name port protocol string \<Rightarrow>
          let protocol = (if protocol = ''TCP'' then 6 else 17) in
          if name \<noteq> [] \<and> port \<noteq> [] \<and> string \<noteq> []
          then (case service of
                  Some s \<Rightarrow> Ret (service_list_change s name (atoi port) protocol string sl)
                | None \<Rightarrow>
                    obind (service_list_add q name (atoi port) protocol string sl) (\<lambda>(p, sl). Ret (Some p, sl)))
          else Ret (None, sl)
      | _ \<Rightarrow> Ret (service, sl))"

text \<open>
  A service without a command asks for one until there is one, or until the user gives up.
  \<open>dialogs\<close> are what \<^verbatim>\<open>malloc\<close> returns and how the dialog ends, each time; with none left, the loop waits.
\<close>

fun service_callback ::
  "(nat option \<times> dialog_end) list \<Rightarrow> nat option list \<Rightarrow> nat option \<Rightarrow> nat
     \<Rightarrow> cstring option list \<Rightarrow> u32 \<Rightarrow> int \<Rightarrow> int \<Rightarrow> service_world \<Rightarrow> (int \<times> service_world) outcome" where
  "service_callback dialogs qs q stale answers ip port protocol w =
     obind (service_list_get qs port protocol (sw_list w)) (\<lambda>(string, sl).
     let w = w\<lparr>sw_list := sl\<rparr> in
     case string of
       Some string \<Rightarrow> obind (run_command_callback q stale answers ip port string w) (\<lambda>(r, w). Ret (1, w))
     | None \<Rightarrow>
         (case dialogs of
            [] \<Rightarrow> NoFuel
          | (p, d) # dialogs \<Rightarrow>
              obind (services_make_dialog p d None (sw_list w)) (\<lambda>(r, sl).
                if r = None then Ret (1, w\<lparr>sw_list := sl\<rparr>)
                else service_callback dialogs qs q stale answers ip port protocol (w\<lparr>sw_list := sl\<rparr>))))"

declare service_callback.simps [simp del]

section \<open>The list as a map\<close>

text \<open>At most one command for a port and a protocol, and an address for each entry.\<close>

definition services_ok :: "service_list \<Rightarrow> bool" where
  "services_ok sl \<longleftrightarrow> keyed service_key sl"

definition command_for :: "service_list \<Rightarrow> int \<times> int \<Rightarrow> cstring option" where
  "command_for sl k = map_option (\<lambda>(p, e). sl_command e) (klook service_key sl k)"

lemma update_first_key:
  assumes "klook service_key sl k = Some (p, e)" "service_key (f e) = k"
  shows "klook service_key (update_first (\<lambda>(i, e). service_key e = k) (\<lambda>(i, e). (i, f e)) sl) =
      (klook service_key sl)(k \<mapsto> (p, f e))"
    "map fst (update_first (\<lambda>(i, e). service_key e = k) (\<lambda>(i, e). (i, f e)) sl) = map fst sl"
    "map (\<lambda>(i, e). service_key e) (update_first (\<lambda>(i, e). service_key e = k) (\<lambda>(i, e). (i, f e)) sl) =
      map (\<lambda>(i, e). service_key e) sl"
proof -
  show "klook service_key (update_first (\<lambda>(i, e). service_key e = k) (\<lambda>(i, e). (i, f e)) sl) =
      (klook service_key sl)(k \<mapsto> (p, f e))"
    using assms by (induction sl) (auto simp: klook_def fun_eq_iff split: if_splits)
  show "map fst (update_first (\<lambda>(i, e). service_key e = k) (\<lambda>(i, e). (i, f e)) sl) = map fst sl"
    by (induction sl) auto
  show "map (\<lambda>(i, e). service_key e) (update_first (\<lambda>(i, e). service_key e = k) (\<lambda>(i, e). (i, f e)) sl) =
      map (\<lambda>(i, e). service_key e) sl"
    using assms by (induction sl) (auto simp: klook_def split: if_splits)
qed

lemma service_list_add_map:
  assumes "services_ok sl" "\<And>q'. q = Some q' \<Longrightarrow> q' \<notin> fst ` set sl"
    "service_list_add q name port protocol string sl = Ret (p, sl')"
  shows "services_ok sl' \<and> command_for sl' = (command_for sl)((port, old_protocol protocol) \<mapsto> string)"
proof -
  let ?k = "(port, old_protocol protocol)"
  show ?thesis
  proof (cases "klook service_key sl ?k")
    case None
    then have "?k \<notin> (\<lambda>(p, e). service_key e) ` set sl" by (simp add: klook_None)
    then show ?thesis
      using assms None
      by (auto simp: service_list_add_def Let_def services_ok_def keyed_def command_for_def fun_eq_iff klook_def
          service_key_def split: option.splits)
  next
    case (Some pe)
    obtain i e where e: "pe = (i, e)" by (cases pe)
    let ?f = "\<lambda>e. e\<lparr>sl_name := name, sl_command := string\<rparr>"
    have f: "service_key (?f e) = ?k" using klook_key [OF Some] by (simp add: service_key_def e)
    have sl: "sl' = update_first (\<lambda>(i, e). service_key e = ?k) (\<lambda>(i, e). (i, ?f e)) sl"
      using assms(3) Some by (simp add: service_list_add_def Let_def e)
    from update_first_key [OF Some [unfolded e], of ?f, OF f] show ?thesis
      using assms(1) unfolding sl by (simp add: services_ok_def keyed_def command_for_def fun_eq_iff)
  qed
qed

lemma service_list_get_map:
  "sl \<noteq> [] \<Longrightarrow> service_list_get qs port protocol sl = Ret (command_for sl (port, protocol), sl)"
  by (simp add: service_list_get_def command_for_def)

lemma service_list_remove_ptr_map:
  assumes "services_ok sl" "klook service_key sl k = Some (p, e)"
  shows "services_ok (service_list_remove_ptr p sl) \<and>
    command_for (service_list_remove_ptr p sl) = (command_for sl)(k := None)"
  using klook_drop [of service_key sl k p e] keyed_drop [of service_key sl p] assms
  by (auto simp: services_ok_def service_list_remove_ptr_def command_for_def)

text \<open>Removing the command of one protocol removes that of another.\<close>

lemma remove_other_protocol:
  "command_for (service_list_remove 53 PROTOCOL_UDP
     [(1, \<lparr>sl_name = ''domain'', sl_port = 53, sl_protocol = PROTOCOL_TCP, sl_command = ''dig''\<rparr>),
      (2, \<lparr>sl_name = ''domain'', sl_port = 53, sl_protocol = PROTOCOL_UDP, sl_command = ''nslookup''\<rparr>)])
     (53, PROTOCOL_TCP) = None"
  by (simp add: command_for_def klook_def service_list_remove_def PROTOCOL_TCP_def PROTOCOL_UDP_def service_key_def)

section \<open>Templates\<close>

text \<open>A command as its author means it: text and placeholders.\<close>

datatype piece = Text cstring | Hole char

fun template :: "piece list \<Rightarrow> cstring" where
  "template [] = []"
| "template (Text t # ps) = t @ template ps"
| "template (Hole c # ps) = PERCENT # c # template ps"

fun filled :: "u32 \<Rightarrow> int \<Rightarrow> cstring option list \<Rightarrow> piece list \<Rightarrow> cstring" where
  "filled ip port answers [] = []"
| "filled ip port answers (Text t # ps) = t @ filled ip port answers ps"
| "filled ip port answers (Hole c # ps) =
     (case placeholder ip port c answers of
        None \<Rightarrow> filled ip port answers ps
      | Some (s, answers) \<Rightarrow> s @ filled ip port answers ps)"

definition piece_ok :: "piece \<Rightarrow> bool" where
  "piece_ok p = (case p of Text t \<Rightarrow> PERCENT \<notin> set t | Hole c \<Rightarrow> c \<in> {CHR ''i'', CHR ''p'', CHR ''u'', CHR ''P''})"

lemma placeholder_known:
  "c \<in> {CHR ''i'', CHR ''p'', CHR ''u'', CHR ''P''} \<Longrightarrow> \<exists>s as. placeholder ip port c answers = Some (s, as)"
  by (auto simp: placeholder_def)

lemma expand_text:
  "PERCENT \<notin> set t \<Longrightarrow> expand ip port answers buf pre (t @ b) = expand ip port answers buf (pre @ t) b"
  by (induction t arbitrary: pre) auto

lemma strcat_strcat: "length (buf @ s @ t) < COMMAND_BUFFER \<Longrightarrow>
    obind (strcat_buf buf s) (\<lambda>buf. strcat_buf buf t) = strcat_buf buf (s @ t)"
  by (simp add: strcat_buf_def sprintf_in_def)

text \<open>
  A command is expanded as its author means it, as long as the result fits into the buffer.
\<close>

lemma expand_template:
  assumes "\<forall>p \<in> set ps. piece_ok p" "length (buf @ pre @ filled ip port answers ps) < COMMAND_BUFFER"
  shows "expand ip port answers buf pre (template ps) = Ret (buf @ pre @ filled ip port answers ps)"
  using assms
proof (induction ps arbitrary: buf pre answers)
  case Nil
  then show ?case by (simp add: strcat_buf_def sprintf_in_def)
next
  case (Cons p ps)
  show ?case
  proof (cases p)
    case (Text t)
    then show ?thesis using Cons.IH [of buf "pre @ t" answers] Cons.prems by (simp add: expand_text piece_ok_def)
  next
    case (Hole c)
    then obtain s as where s: "placeholder ip port c answers = Some (s, as)"
      using placeholder_known [of c ip port answers] Cons.prems(1) by (auto simp: piece_ok_def)
    then show ?thesis
      using Hole Cons.IH [of "buf @ pre @ s" "[]" as] Cons.prems by (simp add: strcat_buf_def sprintf_in_def)
  qed
qed

text \<open>A percent sign that is no placeholder is lost at the start of a command and behind another one.\<close>

lemma percent_lost: "expand ip port [] [] [] (PERCENT # ''d'') = Ret ''d''"
  by (simp add: strcat_buf_def sprintf_in_def COMMAND_BUFFER_def placeholder_def PERCENT_def)

lemma long_command_overflows:
  "PERCENT \<notin> set t \<Longrightarrow> 1024 \<le> length t \<Longrightarrow> expand ip port answers [] [] t = UB"
  using expand_text [of t ip port answers "[]" "[]" "[]"] by (simp add: strcat_buf_def sprintf_in_def COMMAND_BUFFER_def)

section \<open>A click on a service\<close>

lemma service_click:
  assumes "services_ok (sw_list w)" "a \<notin> fst ` set (sw_list w)"
    "service_list_add (Some a) name port protocol (template ps) (sw_list w) = Ret (p, sl)"
    "\<forall>x \<in> set ps. piece_ok x" "length (filled ip port answers ps) < COMMAND_BUFFER"
  shows "service_callback [] qs (Some t) stale answers ip port (old_protocol protocol) (w\<lparr>sw_list := sl\<rparr>) =
    Ret (1, w\<lparr>sw_list := sl,
      sw_threads := (t, \<lparr>tl_thread = stale, tl_command = filled ip port answers ps\<rparr>) # sw_threads w\<rparr>)"
proof -
  have c: "command_for sl (port, old_protocol protocol) = Some (template ps)"
    using service_list_add_map [OF assms(1) _ assms(3)] assms(2) by simp
  then have "sl \<noteq> []" by (auto simp: command_for_def klook_def)
  moreover have "expand ip port answers [] [] (template ps) = Ret (filled ip port answers ps)"
    using expand_template [of ps "[]" "[]" ip port answers] assms(4,5) by simp
  ultimately show ?thesis
    by (simp add: service_callback.simps service_list_get_map c run_command_callback_def Let_def)
qed

text \<open>
  C32. A command that is added for a port and a protocol is what a click on that service of a host
  runs, as its author means it: the text between the placeholders, the address for i, the port for
  p and the answers of the user for u and P, in order. No dialog is opened for a missing command.
  The command is handed to the shell once, and, when \<^verbatim>\<open>pthread_create\<close> stores the number of the
  thread before the thread looks for it, the list of threads is as it was when the command has
  ended. It may do so before or while the command runs; if it does so later, the entry stays
  (\<^theory_text>\<open>number_stored_late\<close>). The expanded command has to fit into the buffer of 1024 bytes, and nothing
  else works on the list of threads in the meantime.
\<close>

theorem service_runs_command:
  assumes "services_ok (sw_list w)" "a \<notin> fst ` set (sw_list w)"
    "service_list_add (Some a) name port protocol (template ps) (sw_list w) = Ret (p, sl)"
    "\<forall>x \<in> set ps. piece_ok x" "length (filled ip port answers ps) < COMMAND_BUFFER"
    "order = [Store_number, Run_command, End_thread] \<or> order = [Run_command, Store_number, End_thread]"
  shows "\<exists>w'. service_callback [] qs (Some t) stale answers ip port (old_protocol protocol) (w\<lparr>sw_list := sl\<rparr>) = Ret (1, w') \<and>
    service_steps thread t order w' =
      Ret (w\<lparr>sw_list := sl, sw_system := sw_system w @ [filled ip port answers ps]\<rparr>)"
  using service_click [OF assms(1-5), of qs t stale] assms(6)
  by (auto simp: store_number_def run_system_def end_service_def)

text \<open>
  When the number comes after the thread has ended, and the memory of the entry did not happen to
  hold it, the thread does not find itself: the command has run, and the entry stays on the list.
\<close>

lemma number_stored_late:
  assumes "services_ok (sw_list w)" "a \<notin> fst ` set (sw_list w)"
    "service_list_add (Some a) name port protocol (template ps) (sw_list w) = Ret (p, sl)"
    "\<forall>x \<in> set ps. piece_ok x" "length (filled ip port answers ps) < COMMAND_BUFFER"
    and "stale \<noteq> thread" "\<forall>(k, e) \<in> set (sw_threads w). tl_thread e \<noteq> thread"
  shows "\<exists>w'. service_callback [] qs (Some t) stale answers ip port (old_protocol protocol) (w\<lparr>sw_list := sl\<rparr>) = Ret (1, w') \<and>
    service_steps thread t [Run_command, End_thread, Store_number] w' =
      Ret (w\<lparr>sw_list := sl, sw_system := sw_system w @ [filled ip port answers ps],
        sw_threads := (t, \<lparr>tl_thread = thread, tl_command = filled ip port answers ps\<rparr>) # sw_threads w\<rparr>)"
proof -
  have "remove_first (\<lambda>(k, e). tl_thread e = thread) ts = ts" if "\<forall>(k, e) \<in> set ts. tl_thread e \<noteq> thread" for ts :: "(nat \<times> thread_entry) list"
    using that by (induction ts) auto
  from this [OF assms(7)] show ?thesis
    using service_click [OF assms(1-5), of qs t stale] assms(6)
    by (simp add: store_number_def run_system_def end_service_def)
qed

text \<open>When the memory did hold the number, the entry is freed and the number is stored in freed memory.\<close>

lemma number_stored_freed:
  assumes "t \<notin> fst ` set ts"
  shows "service_steps thread t [Run_command, End_thread, Store_number]
    (w\<lparr>sw_threads := (t, \<lparr>tl_thread = thread, tl_command = c\<rparr>) # ts\<rparr>) = UB"
  using assms by (simp add: store_number_def run_system_def end_service_def deref_def map_of_eq_None_iff [THEN iffD2])

text \<open>The SSH command of the defaults, for the user root.\<close>

lemma service_runs_command_witness:
  "\<exists>w'. service_callback [] [] (Some 9) 5 [Some ''root''] 0x0100007f 22 PROTOCOL_TCP
      \<lparr>sw_list = [(5, \<lparr>sl_name = ''ssh'', sl_port = 22, sl_protocol = PROTOCOL_TCP, sl_command = ''ssh %i -l %u''\<rparr>)],
       sw_threads = [], sw_system = []\<rparr> = Ret (1, w') \<and>
    service_steps 77 9 [Run_command, Store_number, End_thread] w' = Ret
      \<lparr>sw_list = [(5, \<lparr>sl_name = ''ssh'', sl_port = 22, sl_protocol = PROTOCOL_TCP, sl_command = ''ssh %i -l %u''\<rparr>)],
       sw_threads = [], sw_system = [''ssh 127.0.0.1 -l root'']\<rparr>"
proof -
  let ?ps = "[Text ''ssh '', Hole (CHR ''i''), Text '' -l '', Hole (CHR ''u'')]"
  let ?w = "\<lparr>sw_list = [], sw_threads = [], sw_system = []\<rparr> :: service_world"
  let ?sl = "[(5::nat, \<lparr>sl_name = ''ssh'', sl_port = 22, sl_protocol = PROTOCOL_TCP, sl_command = ''ssh %i -l %u''\<rparr>)]"
  have t: "template ?ps = ''ssh %i -l %u''" by (simp add: PERCENT_def)
  have i: "ip2str 0x0100007f = ''127.0.0.1''" by code_simp
  have f: "filled 0x0100007f 22 [Some ''root''] ?ps = ''ssh 127.0.0.1 -l root''"
    by (simp add: placeholder_def i)
  have a: "service_list_add (Some 5) ''ssh'' 22 6 (template ?ps) (sw_list ?w) = Ret (5, ?sl)"
    unfolding t by (simp add: service_list_add_def old_protocol_def klook_def Let_def)
  have ok: "services_ok (sw_list ?w)" "5 \<notin> fst ` set (sw_list ?w)" "\<forall>x \<in> set ?ps. piece_ok x"
    "length (filled 0x0100007f 22 [Some ''root''] ?ps) < COMMAND_BUFFER" "old_protocol 6 = PROTOCOL_TCP"
    unfolding f by (simp_all add: services_ok_def keyed_def piece_ok_def PERCENT_def COMMAND_BUFFER_def old_protocol_def)
  show ?thesis
    using service_runs_command [OF ok(1,2) a ok(3,4) disjI2 [OF refl], of "[]" 9 5 77]
    unfolding f ok(5) by simp
qed

text \<open>
  A service that is edited in the settings loses its command: the dialog gives the number of IP of
  the protocol, which no open port has.
\<close>

lemma edited_service_lost:
  "services_make_dialog q (Confirmed ''http'' ''80'' ''TCP'' ''mozilla %i'') (Some 1)
     [(1, \<lparr>sl_name = ''http'', sl_port = 80, sl_protocol = PROTOCOL_TCP, sl_command = ''netscape %i''\<rparr>)] =
   Ret (Some 1, [(1, \<lparr>sl_name = ''http'', sl_port = 80, sl_protocol = 6, sl_command = ''mozilla %i''\<rparr>)]) \<and>
   command_for [(1, \<lparr>sl_name = ''http'', sl_port = 80, sl_protocol = 6, sl_command = ''mozilla %i''\<rparr>)] (80, PROTOCOL_TCP) = None"
proof -
  have "atoi ''80'' = 80" by code_simp
  then show ?thesis
    by (simp add: services_make_dialog_def service_list_change_def Let_def command_for_def klook_def service_key_def PROTOCOL_TCP_def)
qed

end
