(* ===== verification/Settings.thy ===== *)
theory Settings
  imports Gui_Replies Services
begin

text \<open>
  The settings of the client, \<^verbatim>\<open>gui-settings.c\<close>: the options, what applying one does, and the
  dialog in which the user sets them. What a widget holds when it is read is an argument; laying
  the widgets out is not modelled. The options that \<^theory_text>\<open>Gui_Requests\<close> reads are a view of these.
\<close>

section \<open>Text in a buffer\<close>

text \<open>\<^verbatim>\<open>strncpy\<close> fills a buffer of \<open>k\<close> bytes, and leaves out the NUL when there is no room.\<close>

definition strncpy_buf :: "nat \<Rightarrow> cstring \<Rightarrow> char list" where
  "strncpy_buf k s = take k (s @ replicate k NUL)"

text \<open>The text in a buffer; reading one without NUL goes on behind it.\<close>

definition buf_text :: "char list \<Rightarrow> cstring outcome" where
  "buf_text b = (if NUL \<in> set b then Ret (takeWhile (\<lambda>c. c \<noteq> NUL) b) else UB)"

text \<open>\<^verbatim>\<open>strcmp\<close> of a buffer with a shorter text ends at the first difference.\<close>

definition buf_is :: "char list \<Rightarrow> cstring \<Rightarrow> bool" where
  "buf_is b s \<longleftrightarrow> take (Suc (length s)) b = s @ [NUL]"

lemma length_strncpy_buf [simp]: "length (strncpy_buf k s) = k"
  by (simp add: strncpy_buf_def)

lemma buf_text_strncpy: "NUL \<notin> set s \<Longrightarrow> length s < k \<Longrightarrow> buf_text (strncpy_buf k s) = Ret s"
  by (auto simp: buf_text_def strncpy_buf_def takeWhile_append)

lemma buf_is_strncpy:
  "NUL \<notin> set s \<Longrightarrow> NUL \<notin> set t \<Longrightarrow> length s < k \<Longrightarrow> buf_is (strncpy_buf k s) t \<longleftrightarrow> s = t"
proof -
  assume s: "NUL \<notin> set s" "NUL \<notin> set t" "length s < k"
  have b: "strncpy_buf k s = s @ NUL # replicate (k - length s - 1) NUL"
    using s(3) by (cases "k - length s") (simp_all add: strncpy_buf_def)
  have "s = t" if "take (Suc (length t)) (s @ NUL # r) = t @ [NUL]" for r
    using that s(1,2)
  proof (induction s arbitrary: t)
    case Nil
    then show ?case by (cases t) auto
  next
    case (Cons c s)
    then show ?case by (cases t) auto
  qed
  moreover have "take (Suc (length s)) (s @ NUL # r) = s @ [NUL]" for r by simp
  ultimately show ?thesis unfolding buf_is_def b by blast
qed

section \<open>The options\<close>

record settings =
  opt_rescan_at_startup :: int
  opt_use_ip_for_label :: int
  opt_discover_retries :: int
  opt_operating_system_check :: int
  opt_reverse_dns :: int
  opt_map :: int
  opt_confirm_delete :: int
  opt_save_changes_on_exit :: int
  opt_move_stuff_live :: int
  opt_probe_ports :: int
  opt_use_ip_for_merged_ports :: int
  opt_only_display_hostname :: int
  opt_os_scan_flags :: u32
  opt_os_scan_ports :: "char list"
  opt_os_scan_tcp_scan :: "char list"
  opt_os_scan_timing :: "char list"
  opt_os_scan_udp_scan :: int
  opt_os_scan_fastscan :: int
  opt_os_scan_osscan :: int
  opt_os_scan_rpc_scan :: int
  opt_os_scan_identd_scan :: int
  opt_os_scan_dont_ping :: int
  opt_os_scan_scan_specified_ports :: int

definition OPTIONS_OS_SCAN_PORTS_SIZE :: nat where "OPTIONS_OS_SCAN_PORTS_SIZE = 100"
definition OPTIONS_OS_SCAN_TCP_SCAN_SIZE :: nat where "OPTIONS_OS_SCAN_TCP_SCAN_SIZE = 20"
definition OPTIONS_OS_SCAN_TIMING_SIZE :: nat where "OPTIONS_OS_SCAN_TIMING_SIZE = 20"

definition TCP_SCAN_0 :: cstring where "TCP_SCAN_0 = ''Connect Scan''"
definition TCP_SCAN_1 :: cstring where "TCP_SCAN_1 = ''SYN Scan''"
definition TCP_SCAN_2 :: cstring where "TCP_SCAN_2 = ''Stealth FIN Scan''"
definition TCP_SCAN_3 :: cstring where "TCP_SCAN_3 = ''Stealth XMAS Scan''"
definition TCP_SCAN_4 :: cstring where "TCP_SCAN_4 = ''Stealth NULL Scan''"
definition TCP_SCAN_DEFAULT :: cstring where "TCP_SCAN_DEFAULT = TCP_SCAN_0"

definition TIMING_SCAN_NORMAL :: cstring where "TIMING_SCAN_NORMAL = ''Normal''"
definition TIMING_SCAN_PARANOID :: cstring where "TIMING_SCAN_PARANOID = ''Paranoid''"
definition TIMING_SCAN_SNEAKY :: cstring where "TIMING_SCAN_SNEAKY = ''Sneaky''"
definition TIMING_SCAN_POLITE :: cstring where "TIMING_SCAN_POLITE = ''Polite''"
definition TIMING_SCAN_AGGRESSIVE :: cstring where "TIMING_SCAN_AGGRESSIVE = ''Aggressive''"
definition TIMING_SCAN_INSANE :: cstring where "TIMING_SCAN_INSANE = ''Insane''"
definition TIMING_SCAN_DEFAULT :: cstring where "TIMING_SCAN_DEFAULT = TIMING_SCAN_NORMAL"

lemmas scan_texts = TCP_SCAN_0_def TCP_SCAN_1_def TCP_SCAN_2_def TCP_SCAN_3_def TCP_SCAN_4_def TCP_SCAN_DEFAULT_def
  TIMING_SCAN_NORMAL_def TIMING_SCAN_PARANOID_def TIMING_SCAN_SNEAKY_def TIMING_SCAN_POLITE_def
  TIMING_SCAN_AGGRESSIVE_def TIMING_SCAN_INSANE_def TIMING_SCAN_DEFAULT_def

text \<open>The values at the start of the program.\<close>

definition settings_start :: settings where
  "settings_start =
     \<lparr>opt_rescan_at_startup = 0, opt_use_ip_for_label = 0, opt_discover_retries = 2, opt_operating_system_check = 1,
      opt_reverse_dns = 1, opt_map = 1, opt_confirm_delete = 1, opt_save_changes_on_exit = 1, opt_move_stuff_live = 1,
      opt_probe_ports = 1, opt_use_ip_for_merged_ports = 0, opt_only_display_hostname = 0, opt_os_scan_flags = 0,
      opt_os_scan_ports = replicate OPTIONS_OS_SCAN_PORTS_SIZE NUL,
      opt_os_scan_tcp_scan = strncpy_buf OPTIONS_OS_SCAN_TCP_SCAN_SIZE TCP_SCAN_DEFAULT,
      opt_os_scan_timing = strncpy_buf OPTIONS_OS_SCAN_TIMING_SIZE TIMING_SCAN_DEFAULT,
      opt_os_scan_udp_scan = 0, opt_os_scan_fastscan = 1, opt_os_scan_osscan = 1, opt_os_scan_rpc_scan = 1,
      opt_os_scan_identd_scan = 1, opt_os_scan_dont_ping = 1, opt_os_scan_scan_specified_ports = 0\<rparr>"

text \<open>What the requests see of them.\<close>

definition options_view :: "u32 \<Rightarrow> settings \<Rightarrow> gui_options outcome" where
  "options_view probe_timeout_ms s =
     obind (buf_text (opt_os_scan_ports s)) (\<lambda>ports.
       Ret \<lparr>go_rescan_at_startup = opt_rescan_at_startup s \<noteq> 0, go_operating_system_check = opt_operating_system_check s \<noteq> 0,
            go_map = opt_map s \<noteq> 0, go_reverse_dns = opt_reverse_dns s \<noteq> 0, go_probe_ports = opt_probe_ports s \<noteq> 0,
            go_os_scan_ports = ports, go_os_scan_flags = opt_os_scan_flags s, go_probe_timeout = probe_timeout_ms\<rparr>)"

section \<open>Applying an option\<close>

definition OPTIONS_DISCOVER_RETRIES :: nat where "OPTIONS_DISCOVER_RETRIES = 1"
definition OPTIONS_OPERATING_SYSTEM_CHECK :: nat where "OPTIONS_OPERATING_SYSTEM_CHECK = 2"
definition OPTIONS_REVERSE_DNS :: nat where "OPTIONS_REVERSE_DNS = 3"
definition OPTIONS_CONFIRM_DELETE :: nat where "OPTIONS_CONFIRM_DELETE = 5"
definition OPTIONS_SAVE_CHANGES_ON_EXIT :: nat where "OPTIONS_SAVE_CHANGES_ON_EXIT = 6"
definition OPTIONS_USE_IP_FOR_LABEL :: nat where "OPTIONS_USE_IP_FOR_LABEL = 7"
definition OPTIONS_MAP :: nat where "OPTIONS_MAP = 8"
definition OPTIONS_MOVE_STUFF_LIVE :: nat where "OPTIONS_MOVE_STUFF_LIVE = 9"
definition OPTIONS_PROBE_PORTS :: nat where "OPTIONS_PROBE_PORTS = 10"
definition OPTIONS_RESCAN_AT_STARTUP :: nat where "OPTIONS_RESCAN_AT_STARTUP = 11"
definition OPTIONS_OS_SCAN_PORTS :: nat where "OPTIONS_OS_SCAN_PORTS = 12"
definition OPTIONS_OS_SCAN_UDP_SCAN :: nat where "OPTIONS_OS_SCAN_UDP_SCAN = 13"
definition OPTIONS_OS_SCAN_TCP_SCAN :: nat where "OPTIONS_OS_SCAN_TCP_SCAN = 14"
definition OPTIONS_OS_SCAN_FASTSCAN :: nat where "OPTIONS_OS_SCAN_FASTSCAN = 15"
definition OPTIONS_OS_SCAN_OSSCAN :: nat where "OPTIONS_OS_SCAN_OSSCAN = 16"
definition OPTIONS_OS_SCAN_SCAN_SPECIFIED_PORTS :: nat where "OPTIONS_OS_SCAN_SCAN_SPECIFIED_PORTS = 17"
definition OPTIONS_OS_SCAN_DONT_PING :: nat where "OPTIONS_OS_SCAN_DONT_PING = 18"
definition OPTIONS_USE_IP_FOR_MERGED_PORTS :: nat where "OPTIONS_USE_IP_FOR_MERGED_PORTS = 20"
definition OPTIONS_OS_SCAN_TIMING :: nat where "OPTIONS_OS_SCAN_TIMING = 21"
definition OPTIONS_OS_SCAN_RPC_SCAN :: nat where "OPTIONS_OS_SCAN_RPC_SCAN = 22"
definition OPTIONS_OS_SCAN_IDENTD_SCAN :: nat where "OPTIONS_OS_SCAN_IDENTD_SCAN = 23"
definition OPTIONS_ONLY_DISPLAY_HOSTNAME :: nat where "OPTIONS_ONLY_DISPLAY_HOSTNAME = 24"
definition OPTIONS_LAST_OPTION :: nat where "OPTIONS_LAST_OPTION = 25"

lemmas option_numbers = OPTIONS_DISCOVER_RETRIES_def OPTIONS_OPERATING_SYSTEM_CHECK_def OPTIONS_REVERSE_DNS_def
  OPTIONS_CONFIRM_DELETE_def OPTIONS_SAVE_CHANGES_ON_EXIT_def OPTIONS_USE_IP_FOR_LABEL_def OPTIONS_MAP_def
  OPTIONS_MOVE_STUFF_LIVE_def OPTIONS_PROBE_PORTS_def OPTIONS_RESCAN_AT_STARTUP_def OPTIONS_OS_SCAN_PORTS_def
  OPTIONS_OS_SCAN_UDP_SCAN_def OPTIONS_OS_SCAN_TCP_SCAN_def OPTIONS_OS_SCAN_FASTSCAN_def OPTIONS_OS_SCAN_OSSCAN_def
  OPTIONS_OS_SCAN_SCAN_SPECIFIED_PORTS_def OPTIONS_OS_SCAN_DONT_PING_def OPTIONS_USE_IP_FOR_MERGED_PORTS_def
  OPTIONS_OS_SCAN_TIMING_def OPTIONS_OS_SCAN_RPC_SCAN_def OPTIONS_OS_SCAN_IDENTD_SCAN_def
  OPTIONS_ONLY_DISPLAY_HOSTNAME_def OPTIONS_LAST_OPTION_def

definition set_flag :: "int \<Rightarrow> u64 \<Rightarrow> u32 \<Rightarrow> u32" where
  "set_flag v m w = (if v \<noteq> 0 then w OR ucast m else w AND NOT (ucast m))"

definition set_field :: "u64 \<Rightarrow> u64 \<Rightarrow> u32 \<Rightarrow> u32" where
  "set_field m f w = (w AND NOT (ucast m)) OR ucast f"

definition tcp_scan_flag :: "char list \<Rightarrow> u64" where
  "tcp_scan_flag b =
     (if buf_is b TCP_SCAN_0 then OS_SCAN_OPTION_TCP_CONNECT_SCAN
      else if buf_is b TCP_SCAN_1 then OS_SCAN_OPTION_TCP_SYN_SCAN
      else if buf_is b TCP_SCAN_2 then OS_SCAN_OPTION_STEALTH_FIN
      else if buf_is b TCP_SCAN_3 then OS_SCAN_OPTION_STEALTH_XMAS
      else if buf_is b TCP_SCAN_4 then OS_SCAN_OPTION_STEALTH_NULL
      else OS_SCAN_OPTION_TCP_CONNECT_SCAN)"

definition timing_flag :: "char list \<Rightarrow> u64" where
  "timing_flag b =
     (if buf_is b TIMING_SCAN_NORMAL then OS_SCAN_OPTION_TIMIMG_NORMAL
      else if buf_is b TIMING_SCAN_PARANOID then OS_SCAN_OPTION_TIMIMG_PARANOID
      else if buf_is b TIMING_SCAN_SNEAKY then OS_SCAN_OPTION_TIMIMG_SNEAKY
      else if buf_is b TIMING_SCAN_POLITE then OS_SCAN_OPTION_TIMIMG_POLITE
      else if buf_is b TIMING_SCAN_AGGRESSIVE then OS_SCAN_OPTION_TIMIMG_AGGRESSIVE
      else if buf_is b TIMING_SCAN_INSANE then OS_SCAN_OPTION_TIMIMG_INSANE
      else OS_SCAN_OPTION_TIMIMG_NORMAL)"

text \<open>The options of a scan are bits of one word. The RPC and the identd scan look at the OS scan.\<close>

definition apply_scan_flag :: "nat \<Rightarrow> settings \<Rightarrow> u32 \<Rightarrow> u32" where
  "apply_scan_flag i s w =
     (if i = OPTIONS_OS_SCAN_UDP_SCAN then set_flag (opt_os_scan_udp_scan s) OS_SCAN_OPTION_UDP_SCAN w
      else if i = OPTIONS_OS_SCAN_DONT_PING then set_flag (opt_os_scan_dont_ping s) OS_SCAN_OPTION_DONT_PING w
      else if i = OPTIONS_OS_SCAN_TCP_SCAN
      then set_field OS_SCAN_OPTION_SCAN_MASK (tcp_scan_flag (opt_os_scan_tcp_scan s)) w
      else if i = OPTIONS_OS_SCAN_TIMING
      then set_field OS_SCAN_OPTION_TIMIMG_MASK (timing_flag (opt_os_scan_timing s)) w
      else if i = OPTIONS_OS_SCAN_SCAN_SPECIFIED_PORTS
      then set_flag (opt_os_scan_scan_specified_ports s) OS_SCAN_OPTION_USE_PORT_RANGE w
      else if i = OPTIONS_OS_SCAN_FASTSCAN then set_flag (opt_os_scan_fastscan s) OS_SCAN_OPTION_FASTSCAN w
      else if i = OPTIONS_OS_SCAN_OSSCAN then set_flag (opt_os_scan_osscan s) OS_SCAN_OPTION_OSSCAN w
      else if i = OPTIONS_OS_SCAN_RPC_SCAN then set_flag (opt_os_scan_osscan s) OS_SCAN_OPTION_RPC_SCAN w
      else if i = OPTIONS_OS_SCAN_IDENTD_SCAN then set_flag (opt_os_scan_osscan s) OS_SCAN_OPTION_IDENTD_SCAN w
      else w)"

record 'h client =
  cl_opts :: settings
  cl_gui :: "'h gui_world"

definition set_settings_event :: "settings \<Rightarrow> u8 list" where
  "set_settings_event s = mk_event EVENT_SET_SETTINGS 0
     (le32 (of_nat OPTIONS_DISCOVER_RETRIES) @ le32 (word_of_int (opt_discover_retries s)))"

fun send_pages :: "gui_env \<Rightarrow> u8 list \<Rightarrow> (u64 \<times> net_page) list \<Rightarrow> 'h gui_world \<Rightarrow> 'h gui_world outcome" where
  "send_pages env e [] w = Ret w"
| "send_pages env e ((np, page) # pages) w = obind (send_request env (np_agent page) e w) (send_pages env e pages)"

fun display_objects :: "nat list \<Rightarrow> canvas \<Rightarrow> canvas outcome" where
  "display_objects [] w = Ret w"
| "display_objects (a # as) w = obind (page_object_display a w) (display_objects as)"

definition apply_the_setting :: "gui_env \<Rightarrow> nat \<Rightarrow> 'h client \<Rightarrow> 'h client outcome" where
  "apply_the_setting env i c =
     (let s = cl_opts c; g = cl_gui c in
      if i = OPTIONS_DISCOVER_RETRIES
      then obind (send_pages env (set_settings_event s) (cv_pages (gw_cv g)) g) (\<lambda>g. Ret (c\<lparr>cl_gui := g\<rparr>))
      else if i = OPTIONS_USE_IP_FOR_LABEL
      then obind (on_canvas (display_objects (concat (map (\<lambda>(np, page). np_objects page) (cv_pages (gw_cv g))))) g)
             (\<lambda>g. Ret (c\<lparr>cl_gui := g\<rparr>))
      else Ret (c\<lparr>cl_opts := s\<lparr>opt_os_scan_flags := apply_scan_flag i s (opt_os_scan_flags s)\<rparr>\<rparr>))"

fun apply_each :: "gui_env \<Rightarrow> nat list \<Rightarrow> 'h client \<Rightarrow> 'h client outcome" where
  "apply_each env [] c = Ret c"
| "apply_each env (i # is) c = obind (apply_the_setting env i c) (apply_each env is)"

definition apply_all_settings :: "gui_env \<Rightarrow> 'h client \<Rightarrow> 'h client outcome" where
  "apply_all_settings env = apply_each env [0..<OPTIONS_LAST_OPTION]"

section \<open>The dialog\<close>

text \<open>What the widgets of the dialog hold.\<close>

record settings_dialog =
  sd_only_display_hostname :: bool
  sd_os_scan_identd_scan :: bool
  sd_os_scan_rpc_scan :: bool
  sd_os_scan_osscan :: bool
  sd_os_scan_fastscan :: bool
  sd_os_scan_dont_ping :: bool
  sd_os_scan_udp_scan :: bool
  sd_os_scan_scan_specified_ports :: bool
  sd_rescan_at_startup :: bool
  sd_operating_system_check :: bool
  sd_reverse_dns :: bool
  sd_map :: bool
  sd_confirm_delete :: bool
  sd_save_changes_on_exit :: bool
  sd_use_ip_for_label :: bool
  sd_move_stuff_live :: bool
  sd_probe_ports :: bool
  sd_use_ip_for_merged_ports :: bool
  sd_discover_retries :: cstring
  sd_os_scan_ports :: cstring
  sd_os_scan_tcp_scan :: cstring
  sd_os_scan_timing :: cstring

text \<open>The check boxes, the option of each and its number, in the order in which they are applied.\<close>

definition check_options :: "((settings_dialog \<Rightarrow> bool) \<times> (int \<Rightarrow> settings \<Rightarrow> settings) \<times> nat) list" where
  "check_options =
     [(sd_only_display_hostname, \<lambda>v. opt_only_display_hostname_update (\<lambda>_. v), OPTIONS_ONLY_DISPLAY_HOSTNAME),
      (sd_os_scan_identd_scan, \<lambda>v. opt_os_scan_identd_scan_update (\<lambda>_. v), OPTIONS_OS_SCAN_IDENTD_SCAN),
      (sd_os_scan_rpc_scan, \<lambda>v. opt_os_scan_rpc_scan_update (\<lambda>_. v), OPTIONS_OS_SCAN_RPC_SCAN),
      (sd_os_scan_osscan, \<lambda>v. opt_os_scan_osscan_update (\<lambda>_. v), OPTIONS_OS_SCAN_OSSCAN),
      (sd_os_scan_fastscan, \<lambda>v. opt_os_scan_fastscan_update (\<lambda>_. v), OPTIONS_OS_SCAN_FASTSCAN),
      (sd_os_scan_dont_ping, \<lambda>v. opt_os_scan_dont_ping_update (\<lambda>_. v), OPTIONS_OS_SCAN_DONT_PING),
      (sd_os_scan_udp_scan, \<lambda>v. opt_os_scan_udp_scan_update (\<lambda>_. v), OPTIONS_OS_SCAN_UDP_SCAN),
      (sd_os_scan_scan_specified_ports, \<lambda>v. opt_os_scan_scan_specified_ports_update (\<lambda>_. v), OPTIONS_OS_SCAN_SCAN_SPECIFIED_PORTS),
      (sd_rescan_at_startup, \<lambda>v. opt_rescan_at_startup_update (\<lambda>_. v), OPTIONS_RESCAN_AT_STARTUP),
      (sd_operating_system_check, \<lambda>v. opt_operating_system_check_update (\<lambda>_. v), OPTIONS_OPERATING_SYSTEM_CHECK),
      (sd_reverse_dns, \<lambda>v. opt_reverse_dns_update (\<lambda>_. v), OPTIONS_REVERSE_DNS),
      (sd_map, \<lambda>v. opt_map_update (\<lambda>_. v), OPTIONS_MAP),
      (sd_confirm_delete, \<lambda>v. opt_confirm_delete_update (\<lambda>_. v), OPTIONS_CONFIRM_DELETE),
      (sd_save_changes_on_exit, \<lambda>v. opt_save_changes_on_exit_update (\<lambda>_. v), OPTIONS_SAVE_CHANGES_ON_EXIT),
      (sd_use_ip_for_label, \<lambda>v. opt_use_ip_for_label_update (\<lambda>_. v), OPTIONS_USE_IP_FOR_LABEL),
      (sd_move_stuff_live, \<lambda>v. opt_move_stuff_live_update (\<lambda>_. v), OPTIONS_MOVE_STUFF_LIVE),
      (sd_probe_ports, \<lambda>v. opt_probe_ports_update (\<lambda>_. v), OPTIONS_PROBE_PORTS),
      (sd_use_ip_for_merged_ports, \<lambda>v. opt_use_ip_for_merged_ports_update (\<lambda>_. v), OPTIONS_USE_IP_FOR_MERGED_PORTS)]"

fun apply_checks ::
  "gui_env \<Rightarrow> settings_dialog \<Rightarrow> ((settings_dialog \<Rightarrow> bool) \<times> (int \<Rightarrow> settings \<Rightarrow> settings) \<times> nat) list
     \<Rightarrow> 'h client \<Rightarrow> 'h client outcome" where
  "apply_checks env d [] c = Ret c"
| "apply_checks env d ((box, put, i) # os) c =
     obind (apply_the_setting env i (c\<lparr>cl_opts := put (of_bool (box d)) (cl_opts c)\<rparr>)) (apply_checks env d os)"

definition one_of :: "cstring list \<Rightarrow> cstring \<Rightarrow> cstring \<Rightarrow> cstring" where
  "one_of xs d x = (if x \<in> set xs then x else d)"

text \<open>A number of retries that is not allowed leaves the rest of the dialog unread.\<close>

definition apply_settings :: "gui_env \<Rightarrow> settings_dialog \<Rightarrow> 'h client \<Rightarrow> 'h client outcome" where
  "apply_settings env d c =
     obind (apply_checks env d check_options c) (\<lambda>c.
     let retries = atoi (sd_discover_retries d) in
     if retries > 5 \<or> retries < 0 then Ret c
     else
       let tcp = one_of [TCP_SCAN_0, TCP_SCAN_1, TCP_SCAN_2, TCP_SCAN_3, TCP_SCAN_4] TCP_SCAN_DEFAULT (sd_os_scan_tcp_scan d);
           timing = one_of [TIMING_SCAN_NORMAL, TIMING_SCAN_PARANOID, TIMING_SCAN_SNEAKY, TIMING_SCAN_POLITE,
             TIMING_SCAN_AGGRESSIVE, TIMING_SCAN_INSANE] TIMING_SCAN_DEFAULT (sd_os_scan_timing d)
       in apply_all_settings env (c\<lparr>cl_opts := cl_opts c
            \<lparr>opt_discover_retries := retries,
             opt_os_scan_ports := strncpy_buf OPTIONS_OS_SCAN_PORTS_SIZE (sd_os_scan_ports d),
             opt_os_scan_tcp_scan := strncpy_buf OPTIONS_OS_SCAN_TCP_SCAN_SIZE tcp,
             opt_os_scan_timing := strncpy_buf OPTIONS_OS_SCAN_TIMING_SIZE timing\<rparr>\<rparr>))"

text \<open>
  The dialog stays open until it is closed, confirmed or cancelled. \<open>runs\<close> are the buttons that are
  pressed, with what the widgets hold then; with none left, the dialog waits.
\<close>

datatype settings_button = Button_closed | Button_apply | Button_ok | Button_cancel

definition MAX_DISCOVER_RETRIES :: int where "MAX_DISCOVER_RETRIES = 5"

fun settings_runs :: "gui_env \<Rightarrow> (settings_button \<times> settings_dialog) list \<Rightarrow> 'h client \<Rightarrow> 'h client outcome" where
  "settings_runs env [] c = NoFuel"
| "settings_runs env ((b, d) # runs) c =
     (case b of
        Button_apply \<Rightarrow> obind (apply_settings env d c) (settings_runs env runs)
      | Button_ok \<Rightarrow> apply_settings env d c
      | _ \<Rightarrow> Ret c)"

text \<open>What the dialog shows at first: the options, a text without NUL being undefined.\<close>

definition shown_settings :: "settings \<Rightarrow> settings_dialog outcome" where
  "shown_settings s =
     obind (buf_text (opt_os_scan_tcp_scan s)) (\<lambda>tcp.
     obind (buf_text (opt_os_scan_timing s)) (\<lambda>timing.
     obind (buf_text (opt_os_scan_ports s)) (\<lambda>ports.
       Ret \<lparr>sd_only_display_hostname = opt_only_display_hostname s \<noteq> 0,
            sd_os_scan_identd_scan = opt_os_scan_identd_scan s \<noteq> 0, sd_os_scan_rpc_scan = opt_os_scan_rpc_scan s \<noteq> 0,
            sd_os_scan_osscan = opt_os_scan_osscan s \<noteq> 0, sd_os_scan_fastscan = opt_os_scan_fastscan s \<noteq> 0,
            sd_os_scan_dont_ping = opt_os_scan_dont_ping s \<noteq> 0, sd_os_scan_udp_scan = opt_os_scan_udp_scan s \<noteq> 0,
            sd_os_scan_scan_specified_ports = opt_os_scan_scan_specified_ports s \<noteq> 0,
            sd_rescan_at_startup = opt_rescan_at_startup s \<noteq> 0,
            sd_operating_system_check = opt_operating_system_check s \<noteq> 0, sd_reverse_dns = opt_reverse_dns s \<noteq> 0,
            sd_map = opt_map s \<noteq> 0, sd_confirm_delete = opt_confirm_delete s \<noteq> 0,
            sd_save_changes_on_exit = opt_save_changes_on_exit s \<noteq> 0, sd_use_ip_for_label = opt_use_ip_for_label s \<noteq> 0,
            sd_move_stuff_live = opt_move_stuff_live s \<noteq> 0, sd_probe_ports = opt_probe_ports s \<noteq> 0,
            sd_use_ip_for_merged_ports = opt_use_ip_for_merged_ports s \<noteq> 0,
            sd_discover_retries = show_int (opt_discover_retries s), sd_os_scan_ports = ports,
            sd_os_scan_tcp_scan = tcp, sd_os_scan_timing = timing\<rparr>)))"

text \<open>The window asks back with a number of retries that is allowed.\<close>

definition do_settings ::
  "gui_env \<Rightarrow> (settings_dialog \<Rightarrow> (settings_button \<times> settings_dialog) list) \<Rightarrow> 'h client \<Rightarrow> 'h client outcome" where
  "do_settings env user c =
     (let s = cl_opts c;
          s = (if opt_discover_retries s > MAX_DISCOVER_RETRIES \<or> opt_discover_retries s < 0 then s\<lparr>opt_discover_retries := 2\<rparr> else s)
      in obind (shown_settings s) (\<lambda>d. settings_runs env (user d) (c\<lparr>cl_opts := s\<rparr>)))"

section \<open>Applying does not fail\<close>

text \<open>Pages whose agents can be sent to, and whose objects are live.\<close>

definition client_ok :: "gui_env \<Rightarrow> 'h gui_world \<Rightarrow> bool" where
  "client_ok env g \<longleftrightarrow>
     (\<forall>(np, page) \<in> set (cv_pages (gw_cv g)). (\<exists>s. gui_link env (np_agent page) s (gw_ev g)) \<and>
        (\<forall>a \<in> set (np_objects page). cv_po (gw_cv g) a \<noteq> None))"

lemma gui_link_sent_to: "gui_link env a s (sent_to t es ev) = gui_link env a s ev"
  by (simp add: gui_link_def sent_to_def)

lemma send_pages_ok:
  assumes "\<forall>(np, page) \<in> set pages. \<exists>s. gui_link env (np_agent page) s (gw_ev w)" "length body < 65536"
  shows "\<exists>w'. send_pages env (mk_event ty fl body) pages w = Ret w' \<and> gw_cv w' = gw_cv w \<and>
    (\<forall>a s. gui_link env a s (gw_ev w') = gui_link env a s (gw_ev w))"
  using assms(1)
proof (induction pages arbitrary: w)
  case (Cons x pages)
  obtain np page where x: "x = (np, page)" by (cases x)
  then obtain s where s: "gui_link env (np_agent page) s (gw_ev w)" using Cons.prems by auto
  let ?w = "w\<lparr>gw_ev := sent_to s [mk_event ty fl body] (gw_ev w)\<rparr>"
  have "\<forall>(np, page) \<in> set pages. \<exists>s. gui_link env (np_agent page) s (gw_ev ?w)"
    using Cons.prems by (auto simp: gui_link_sent_to)
  from Cons.IH [OF this] show ?case
    using gui_send [OF s assms(2)] by (simp add: x send_request_def gui_link_sent_to)
qed simp

lemma display_objects_ok:
  "\<forall>a \<in> set as. cv_po w a \<noteq> None \<Longrightarrow>
    \<exists>w'. display_objects as w = Ret w' \<and> cv_pages w' = cv_pages w \<and> dom (cv_po w') = dom (cv_po w)"
proof (induction as arbitrary: w)
  case (Cons a as)
  then obtain p where p: "cv_po w a = Some p" by auto
  let ?w = "w\<lparr>cv_po := (cv_po w)(a \<mapsto> displayed a p)\<rparr>"
  have "\<forall>a \<in> set as. cv_po ?w a \<noteq> None" using Cons.prems by simp
  from Cons.IH [OF this] obtain w' where "display_objects as ?w = Ret w'" "cv_pages w' = cv_pages w"
    "dom (cv_po w') = dom (cv_po ?w)" by fastforce
  moreover have "dom (cv_po ?w) = dom (cv_po w)" using p by auto
  ultimately show ?case
    using p by (simp add: page_object_display_def po_upd_def deref_def)
qed simp

text \<open>Applying an option changes the word of the scan flags only.\<close>

lemma apply_the_setting_ok:
  assumes "client_ok env (cl_gui c)"
  obtains g where "client_ok env g" "apply_the_setting env i c = Ret (c\<lparr>cl_gui := g,
    cl_opts := cl_opts c\<lparr>opt_os_scan_flags := apply_scan_flag i (cl_opts c) (opt_os_scan_flags (cl_opts c))\<rparr>\<rparr>)"
proof -
  have same: "s\<lparr>opt_os_scan_flags := opt_os_scan_flags s\<rparr> = s" for s :: settings by simp
  have self: "c\<lparr>cl_opts := cl_opts c\<rparr> = c" for c :: "'a client" by simp
  consider "i = OPTIONS_DISCOVER_RETRIES" | "i = OPTIONS_USE_IP_FOR_LABEL"
    | "i \<noteq> OPTIONS_DISCOVER_RETRIES" "i \<noteq> OPTIONS_USE_IP_FOR_LABEL" by blast
  then show thesis
  proof cases
    case 1
    have "\<forall>(np, page) \<in> set (cv_pages (gw_cv (cl_gui c))). \<exists>s. gui_link env (np_agent page) s (gw_ev (cl_gui c))"
      using assms by (auto simp: client_ok_def)
    from send_pages_ok [OF this, where ty = EVENT_SET_SETTINGS and fl = 0 and
        body = "le32 (of_nat OPTIONS_DISCOVER_RETRIES) @ le32 (word_of_int (opt_discover_retries (cl_opts c)))"]
    obtain g where "send_pages env (set_settings_event (cl_opts c)) (cv_pages (gw_cv (cl_gui c))) (cl_gui c) = Ret g"
      "gw_cv g = gw_cv (cl_gui c)" "\<forall>a s. gui_link env a s (gw_ev g) = gui_link env a s (gw_ev (cl_gui c))"
      by (auto simp: set_settings_event_def)
    then show thesis using assms 1 that [of g]
      by (simp add: apply_the_setting_def client_ok_def Let_def) (simp add: apply_scan_flag_def option_numbers)
  next
    case 2
    have "\<forall>a \<in> set (concat (map (\<lambda>(np, page). np_objects page) (cv_pages (gw_cv (cl_gui c))))). cv_po (gw_cv (cl_gui c)) a \<noteq> None"
      using assms by (fastforce simp: client_ok_def)
    from display_objects_ok [OF this] obtain v where
      "display_objects (concat (map (\<lambda>(np, page). np_objects page) (cv_pages (gw_cv (cl_gui c))))) (gw_cv (cl_gui c)) = Ret v"
      "cv_pages v = cv_pages (gw_cv (cl_gui c))" "dom (cv_po v) = dom (cv_po (gw_cv (cl_gui c)))" by blast
    moreover from this(3) have "(cv_po v a = None) = (cv_po (gw_cv (cl_gui c)) a = None)" for a by auto
    ultimately show thesis using assms 2 that [of "cl_gui c\<lparr>gw_cv := v\<rparr>"]
      by (simp add: apply_the_setting_def client_ok_def on_canvas_def Let_def apply_scan_flag_def option_numbers)
  next
    case 3
    then show thesis using assms that [of "cl_gui c"] by (simp add: apply_the_setting_def Let_def)
  qed
qed

lemma apply_scan_flag_flags [simp]: "apply_scan_flag i (s\<lparr>opt_os_scan_flags := w\<rparr>) = apply_scan_flag i s"
  by (simp add: apply_scan_flag_def fun_eq_iff)

lemma apply_each_ok:
  assumes "client_ok env (cl_gui c)"
  shows "\<exists>g. client_ok env g \<and> apply_each env is c = Ret (c\<lparr>cl_gui := g,
    cl_opts := cl_opts c\<lparr>opt_os_scan_flags := fold (\<lambda>i. apply_scan_flag i (cl_opts c)) is (opt_os_scan_flags (cl_opts c))\<rparr>\<rparr>)"
  using assms
proof (induction "is" arbitrary: c)
  case Nil
  then show ?case by (intro exI [of _ "cl_gui c"]) simp
next
  case (Cons i "is")
  obtain g where g: "client_ok env g" "apply_the_setting env i c = Ret (c\<lparr>cl_gui := g,
    cl_opts := cl_opts c\<lparr>opt_os_scan_flags := apply_scan_flag i (cl_opts c) (opt_os_scan_flags (cl_opts c))\<rparr>\<rparr>)"
    using apply_the_setting_ok [OF Cons.prems] .
  let ?c = "c\<lparr>cl_gui := g,
    cl_opts := cl_opts c\<lparr>opt_os_scan_flags := apply_scan_flag i (cl_opts c) (opt_os_scan_flags (cl_opts c))\<rparr>\<rparr>"
  have "client_ok env (cl_gui ?c)" using g(1) by simp
  from Cons.IH [OF this] show ?case by (simp add: g(2))
qed

definition keeps_flags :: "(int \<Rightarrow> settings \<Rightarrow> settings) \<Rightarrow> bool" where
  "keeps_flags put \<longleftrightarrow> (\<forall>v s w. put v (s\<lparr>opt_os_scan_flags := w\<rparr>) = (put v s)\<lparr>opt_os_scan_flags := w\<rparr>)"

lemma apply_checks_ok:
  assumes "client_ok env (cl_gui c)" "\<forall>(box, put, i) \<in> set os. keeps_flags put"
  shows "\<exists>g w. client_ok env g \<and> apply_checks env d os c = Ret (c\<lparr>cl_gui := g,
    cl_opts := fold (\<lambda>(box, put, i) s. put (of_bool (box d)) s) os (cl_opts c)\<lparr>opt_os_scan_flags := w\<rparr>\<rparr>)"
  using assms
proof (induction os arbitrary: c)
  case Nil
  then show ?case by (intro exI [of _ "cl_gui c"] exI [of _ "opt_os_scan_flags (cl_opts c)"]) simp
next
  case (Cons x os)
  obtain box put i where x: "x = (box, put, i)" by (cases x) auto
  let ?c = "c\<lparr>cl_opts := put (of_bool (box d)) (cl_opts c)\<rparr>"
  have "client_ok env (cl_gui ?c)" using Cons.prems(1) by simp
  from apply_the_setting_ok [OF this] obtain g w where g: "client_ok env g"
    "apply_the_setting env i ?c = Ret (?c\<lparr>cl_gui := g, cl_opts := cl_opts ?c\<lparr>opt_os_scan_flags := w\<rparr>\<rparr>)" by metis
  let ?d = "?c\<lparr>cl_gui := g, cl_opts := cl_opts ?c\<lparr>opt_os_scan_flags := w\<rparr>\<rparr>"
  have k: "fold (\<lambda>(box, put, i) s. put (of_bool (box d)) s) os (s\<lparr>opt_os_scan_flags := w\<rparr>) =
      (fold (\<lambda>(box, put, i) s. put (of_bool (box d)) s) os s)\<lparr>opt_os_scan_flags := w\<rparr>" for s
    using Cons.prems(2) unfolding keeps_flags_def by (induction os arbitrary: s) auto
  have "client_ok env (cl_gui ?d)" using g(1) by simp
  from Cons.IH [OF this] Cons.prems(2) show ?case by (auto simp: x g(2) k)
qed

section \<open>The word of the scan options\<close>

lemma set_flag_and: "ucast m AND k = 0 \<Longrightarrow> set_flag v m w AND k = w AND k"
proof -
  assume k: "ucast m AND k = (0 :: u32)"
  have "\<not> (bit (ucast m :: u32) n \<and> bit k n)" for n
    using k by (metis bit_and_iff bit_0_eq bot_apply bot_bool_def)
  then show ?thesis
    by (intro bit_word_eqI) (auto simp: set_flag_def bit_or_iff bit_and_iff bit_not_iff)
qed

lemma set_flag_self: "ucast m = k \<Longrightarrow> set_flag v m w AND k = (if v \<noteq> 0 then k else 0)"
  by (auto simp: set_flag_def bit_simps intro!: bit_word_eqI)

lemma set_field_and: "ucast f AND k = 0 \<Longrightarrow> ucast m AND k = 0 \<Longrightarrow> set_field m f w AND k = w AND k"
proof -
  assume k: "ucast f AND k = (0 :: u32)" "ucast m AND k = 0"
  have "\<not> (bit (ucast f :: u32) n \<and> bit k n)" "\<not> (bit (ucast m :: u32) n \<and> bit k n)" for n
    using k by (metis bit_and_iff bit_0_eq bot_apply bot_bool_def)+
  then show ?thesis by (intro bit_word_eqI) (auto simp: set_field_def bit_or_iff bit_and_iff bit_not_iff)
qed

lemma set_field_self: "ucast m = k \<Longrightarrow> ucast f AND k = ucast f \<Longrightarrow> set_field m f w AND k = ucast f"
proof -
  assume m: "ucast m = k" "ucast f AND k = (ucast f :: u32)"
  then have "bit (ucast f :: u32) n \<longrightarrow> bit k n" for n by (metis bit_and_iff)
  then show ?thesis by (intro bit_word_eqI) (auto simp: set_field_def m(1) bit_or_iff bit_and_iff bit_not_iff)
qed

lemma ucast_and_mask: "(ucast w :: u64) AND ucast m = ucast (w AND m :: u32)"
  by (intro bit_word_eqI) (auto simp: bit_simps)

lemmas scan_bits = OS_SCAN_OPTION_UDP_SCAN_def OS_SCAN_OPTION_TCP_CONNECT_SCAN_def OS_SCAN_OPTION_TCP_SYN_SCAN_def
  OS_SCAN_OPTION_STEALTH_FIN_def OS_SCAN_OPTION_STEALTH_XMAS_def OS_SCAN_OPTION_STEALTH_NULL_def OS_SCAN_OPTION_SCAN_MASK_def
  OS_SCAN_OPTION_DONT_PING_def OS_SCAN_OPTION_USE_PORT_RANGE_def OS_SCAN_OPTION_FASTSCAN_def OS_SCAN_OPTION_OSSCAN_def
  OS_SCAN_OPTION_RPC_SCAN_def OS_SCAN_OPTION_IDENTD_SCAN_def OS_SCAN_OPTION_TIMIMG_PARANOID_def OS_SCAN_OPTION_TIMIMG_SNEAKY_def
  OS_SCAN_OPTION_TIMIMG_POLITE_def OS_SCAN_OPTION_TIMIMG_NORMAL_def OS_SCAN_OPTION_TIMIMG_AGGRESSIVE_def
  OS_SCAN_OPTION_TIMIMG_INSANE_def OS_SCAN_OPTION_TIMIMG_MASK_def

text \<open>What the word holds when every option has been applied.\<close>

definition scan_word :: "settings \<Rightarrow> u32 \<Rightarrow> u32" where
  "scan_word s w = fold (\<lambda>i. apply_scan_flag i s) [0..<OPTIONS_LAST_OPTION] w"

lemma scan_word_steps:
  "scan_word s w =
     set_flag (opt_os_scan_osscan s) OS_SCAN_OPTION_IDENTD_SCAN
     (set_flag (opt_os_scan_osscan s) OS_SCAN_OPTION_RPC_SCAN
     (set_field OS_SCAN_OPTION_TIMIMG_MASK (timing_flag (opt_os_scan_timing s))
     (set_flag (opt_os_scan_dont_ping s) OS_SCAN_OPTION_DONT_PING
     (set_flag (opt_os_scan_scan_specified_ports s) OS_SCAN_OPTION_USE_PORT_RANGE
     (set_flag (opt_os_scan_osscan s) OS_SCAN_OPTION_OSSCAN
     (set_flag (opt_os_scan_fastscan s) OS_SCAN_OPTION_FASTSCAN
     (set_field OS_SCAN_OPTION_SCAN_MASK (tcp_scan_flag (opt_os_scan_tcp_scan s))
     (set_flag (opt_os_scan_udp_scan s) OS_SCAN_OPTION_UDP_SCAN w))))))))"
proof -
  have "[0..<OPTIONS_LAST_OPTION] = [0, 1, 2, 3, 4, 5, 6, 7, 8, 9, 10, 11, 12, 13, 14, 15, 16, 17, 18, 19, 20, 21, 22, 23, 24]"
    by (simp add: OPTIONS_LAST_OPTION_def upt_rec)
  then show ?thesis by (simp add: scan_word_def apply_scan_flag_def option_numbers)
qed

lemma tcp_flag_cases:
  "tcp_scan_flag b \<in> {OS_SCAN_OPTION_TCP_CONNECT_SCAN, OS_SCAN_OPTION_TCP_SYN_SCAN, OS_SCAN_OPTION_STEALTH_FIN,
     OS_SCAN_OPTION_STEALTH_XMAS, OS_SCAN_OPTION_STEALTH_NULL}"
  by (simp add: tcp_scan_flag_def)

lemma timing_flag_cases:
  "timing_flag b \<in> {OS_SCAN_OPTION_TIMIMG_PARANOID, OS_SCAN_OPTION_TIMIMG_SNEAKY, OS_SCAN_OPTION_TIMIMG_POLITE,
     OS_SCAN_OPTION_TIMIMG_NORMAL, OS_SCAN_OPTION_TIMIMG_AGGRESSIVE, OS_SCAN_OPTION_TIMIMG_INSANE}"
  by (simp add: timing_flag_def)

lemma and_disjoint: "u = u AND m \<Longrightarrow> k AND m = 0 \<Longrightarrow> u AND k = (0 :: u32)"
proof -
  assume u: "u = u AND m" and k: "k AND m = 0"
  have "u AND k = (u AND m) AND k" using arg_cong [OF u, of "\<lambda>x. x AND k"] .
  also have "\<dots> = u AND (k AND m)" by (simp only: and.assoc and.commute [of m k])
  finally show "u AND k = 0" using k by simp
qed

lemma tcp_flag_masks:
  "ucast (tcp_scan_flag b) AND 0x3e = (ucast (tcp_scan_flag b) :: u32)"
  "k AND 0x3e = 0 \<Longrightarrow> ucast (tcp_scan_flag b) AND k = (0 :: u32)"
proof -
  show "ucast (tcp_scan_flag b) AND 0x3e = (ucast (tcp_scan_flag b) :: u32)"
    using tcp_flag_cases [of b] by (auto simp: scan_bits)
  assume k: "k AND 0x3e = 0"
  have "ucast (tcp_scan_flag b) = (ucast (tcp_scan_flag b) :: u32) AND 0x3e"
    using tcp_flag_cases [of b] by (auto simp: scan_bits)
  from and_disjoint [OF this k] show "ucast (tcp_scan_flag b) AND k = (0 :: u32)" .
qed

lemma timing_flag_masks:
  "ucast (timing_flag b) AND 0x3f000 = (ucast (timing_flag b) :: u32)"
  "k AND 0x3f000 = 0 \<Longrightarrow> ucast (timing_flag b) AND k = (0 :: u32)"
proof -
  show "ucast (timing_flag b) AND 0x3f000 = (ucast (timing_flag b) :: u32)"
    using timing_flag_cases [of b] by (auto simp: scan_bits)
  assume k: "k AND 0x3f000 = 0"
  have "ucast (timing_flag b) = (ucast (timing_flag b) :: u32) AND 0x3f000"
    using timing_flag_cases [of b] by (auto simp: scan_bits)
  from and_disjoint [OF this k] show "ucast (timing_flag b) AND k = (0 :: u32)" .
qed

lemma scan_word_fields:
  "scan_word s w AND 0x3e = ucast (tcp_scan_flag (opt_os_scan_tcp_scan s))"
  "scan_word s w AND 0x3f000 = ucast (timing_flag (opt_os_scan_timing s))"
  "scan_word s w AND 1 = (if opt_os_scan_udp_scan s \<noteq> 0 then 1 else 0)"
  "scan_word s w AND 0x40 = (if opt_os_scan_dont_ping s \<noteq> 0 then 0x40 else 0)"
  "scan_word s w AND 0x80 = (if opt_os_scan_scan_specified_ports s \<noteq> 0 then 0x80 else 0)"
  "scan_word s w AND 0x100 = (if opt_os_scan_fastscan s \<noteq> 0 then 0x100 else 0)"
  "scan_word s w AND 0x200 = (if opt_os_scan_osscan s \<noteq> 0 then 0x200 else 0)"
  "scan_word s w AND 0x400 = (if opt_os_scan_osscan s \<noteq> 0 then 0x400 else 0)"
  "scan_word s w AND 0x800 = (if opt_os_scan_osscan s \<noteq> 0 then 0x800 else 0)"
  unfolding scan_word_steps
  by (simp_all add: set_flag_and set_flag_self set_field_and set_field_self tcp_flag_masks timing_flag_masks scan_bits)

section \<open>From the dialog to the scanner\<close>

text \<open>The choice of the user as the command line of the scanner names it.\<close>

definition tcp_switch :: "cstring \<Rightarrow> string" where
  "tcp_switch t =
     (if t = TCP_SCAN_1 then '' -sS'' else if t = TCP_SCAN_2 then '' -sF'' else if t = TCP_SCAN_3 then '' -sX''
      else if t = TCP_SCAN_4 then '' -sN'' else '' -sT'')"

definition timing_switch :: "cstring \<Rightarrow> string" where
  "timing_switch t =
     '' -T '' @ (if t \<in> {TIMING_SCAN_PARANOID, TIMING_SCAN_SNEAKY, TIMING_SCAN_POLITE, TIMING_SCAN_AGGRESSIVE, TIMING_SCAN_INSANE}
                 then t else TIMING_SCAN_NORMAL)"

definition switch :: "bool \<Rightarrow> string \<Rightarrow> string" where
  "switch on t = (if on then t else [])"

lemma scan_word_text:
  "scan_text (ucast (scan_word s w)) =
     (if tcp_scan_flag (opt_os_scan_tcp_scan s) = OS_SCAN_OPTION_TCP_CONNECT_SCAN then '' -sT''
      else if tcp_scan_flag (opt_os_scan_tcp_scan s) = OS_SCAN_OPTION_TCP_SYN_SCAN then '' -sS''
      else if tcp_scan_flag (opt_os_scan_tcp_scan s) = OS_SCAN_OPTION_STEALTH_FIN then '' -sF''
      else if tcp_scan_flag (opt_os_scan_tcp_scan s) = OS_SCAN_OPTION_STEALTH_XMAS then '' -sX'' else '' -sN'')"
proof -
  have m: "(ucast (scan_word s w) :: u64) AND 0x3e = ucast (scan_word s w AND 0x3e)"
    using ucast_and_mask [of "scan_word s w" "0x3e"] by simp
  show ?thesis
    using tcp_flag_cases [of "opt_os_scan_tcp_scan s"]
    by (auto simp: scan_text_def Let_def scan_bits m scan_word_fields)
qed

lemma scan_word_timing:
  "timing_text (ucast (scan_word s w)) =
     (if timing_flag (opt_os_scan_timing s) = OS_SCAN_OPTION_TIMIMG_PARANOID then '' -T Paranoid''
      else if timing_flag (opt_os_scan_timing s) = OS_SCAN_OPTION_TIMIMG_SNEAKY then '' -T Sneaky''
      else if timing_flag (opt_os_scan_timing s) = OS_SCAN_OPTION_TIMIMG_POLITE then '' -T Polite''
      else if timing_flag (opt_os_scan_timing s) = OS_SCAN_OPTION_TIMIMG_NORMAL then '' -T Normal''
      else if timing_flag (opt_os_scan_timing s) = OS_SCAN_OPTION_TIMIMG_AGGRESSIVE then '' -T Aggressive'' else '' -T Insane'')"
proof -
  have m: "(ucast (scan_word s w) :: u64) AND 0x3f000 = ucast (scan_word s w AND 0x3f000)"
    using ucast_and_mask [of "scan_word s w" "0x3f000"] by simp
  show ?thesis
    using timing_flag_cases [of "opt_os_scan_timing s"]
    by (auto simp: timing_text_def Let_def scan_bits m scan_word_fields)
qed

lemma scan_word_flags:
  "flag_text (ucast (scan_word s w)) =
     switch (opt_os_scan_osscan s \<noteq> 0) '' -O'' @ switch (opt_os_scan_udp_scan s \<noteq> 0) '' -sU'' @
     switch (opt_os_scan_osscan s \<noteq> 0) '' -sR'' @ switch (opt_os_scan_osscan s \<noteq> 0) '' -I'' @
     switch (opt_os_scan_fastscan s \<noteq> 0) '' -F'' @ switch (opt_os_scan_dont_ping s \<noteq> 0) '' -P0''"
  "(ucast (scan_word s w) :: u64) AND OS_SCAN_OPTION_USE_PORT_RANGE \<noteq> 0 \<longleftrightarrow> opt_os_scan_scan_specified_ports s \<noteq> 0"
proof -
  have m: "(ucast (scan_word s w) :: u64) AND numeral k = ucast (scan_word s w AND ucast (numeral k :: u64))"
    if "ucast (ucast (numeral k :: u64) :: u32) = (numeral k :: u64)" for k
    using ucast_and_mask [of "scan_word s w" "ucast (numeral k :: u64)"] that by simp
  have one: "(ucast (scan_word s w) :: u64) AND 1 = ucast (scan_word s w AND 1)"
    using ucast_and_mask [of "scan_word s w" 1] by simp
  show "flag_text (ucast (scan_word s w)) =
     switch (opt_os_scan_osscan s \<noteq> 0) '' -O'' @ switch (opt_os_scan_udp_scan s \<noteq> 0) '' -sU'' @
     switch (opt_os_scan_osscan s \<noteq> 0) '' -sR'' @ switch (opt_os_scan_osscan s \<noteq> 0) '' -I'' @
     switch (opt_os_scan_fastscan s \<noteq> 0) '' -F'' @ switch (opt_os_scan_dont_ping s \<noteq> 0) '' -P0''"
    by (simp add: flag_text_def Let_def scan_bits m one scan_word_fields switch_def)
  show "(ucast (scan_word s w) :: u64) AND OS_SCAN_OPTION_USE_PORT_RANGE \<noteq> 0 \<longleftrightarrow> opt_os_scan_scan_specified_ports s \<noteq> 0"
    by (simp add: scan_bits m scan_word_fields)
qed

text \<open>A text of the dialog in its buffer is the choice it names.\<close>

lemma scan_text_bounds:
  "NUL \<notin> set TCP_SCAN_0" "NUL \<notin> set TCP_SCAN_1" "NUL \<notin> set TCP_SCAN_2" "NUL \<notin> set TCP_SCAN_3" "NUL \<notin> set TCP_SCAN_4"
  "length TCP_SCAN_0 < 20" "length TCP_SCAN_1 < 20" "length TCP_SCAN_2 < 20" "length TCP_SCAN_3 < 20" "length TCP_SCAN_4 < 20"
  "NUL \<notin> set TIMING_SCAN_NORMAL" "NUL \<notin> set TIMING_SCAN_PARANOID" "NUL \<notin> set TIMING_SCAN_SNEAKY"
  "NUL \<notin> set TIMING_SCAN_POLITE" "NUL \<notin> set TIMING_SCAN_AGGRESSIVE" "NUL \<notin> set TIMING_SCAN_INSANE"
  "length TIMING_SCAN_NORMAL < 20" "length TIMING_SCAN_PARANOID < 20" "length TIMING_SCAN_SNEAKY < 20"
  "length TIMING_SCAN_POLITE < 20" "length TIMING_SCAN_AGGRESSIVE < 20" "length TIMING_SCAN_INSANE < 20"
  by (simp_all add: scan_texts)

lemma scan_texts_distinct:
  "distinct [TCP_SCAN_0, TCP_SCAN_1, TCP_SCAN_2, TCP_SCAN_3, TCP_SCAN_4]"
  "distinct [TCP_SCAN_4, TCP_SCAN_3, TCP_SCAN_2, TCP_SCAN_1, TCP_SCAN_0]"
  "distinct [TIMING_SCAN_NORMAL, TIMING_SCAN_PARANOID, TIMING_SCAN_SNEAKY, TIMING_SCAN_POLITE, TIMING_SCAN_AGGRESSIVE,
     TIMING_SCAN_INSANE]"
  "distinct [TIMING_SCAN_INSANE, TIMING_SCAN_AGGRESSIVE, TIMING_SCAN_POLITE, TIMING_SCAN_SNEAKY, TIMING_SCAN_PARANOID,
     TIMING_SCAN_NORMAL]"
  by (simp_all add: scan_texts)

lemma scan_bits_distinct:
  "distinct [OS_SCAN_OPTION_TCP_CONNECT_SCAN, OS_SCAN_OPTION_TCP_SYN_SCAN, OS_SCAN_OPTION_STEALTH_FIN,
     OS_SCAN_OPTION_STEALTH_XMAS, OS_SCAN_OPTION_STEALTH_NULL]"
  "distinct [OS_SCAN_OPTION_STEALTH_NULL, OS_SCAN_OPTION_STEALTH_XMAS, OS_SCAN_OPTION_STEALTH_FIN,
     OS_SCAN_OPTION_TCP_SYN_SCAN, OS_SCAN_OPTION_TCP_CONNECT_SCAN]"
  "distinct [OS_SCAN_OPTION_TIMIMG_PARANOID, OS_SCAN_OPTION_TIMIMG_SNEAKY, OS_SCAN_OPTION_TIMIMG_POLITE,
     OS_SCAN_OPTION_TIMIMG_NORMAL, OS_SCAN_OPTION_TIMIMG_AGGRESSIVE, OS_SCAN_OPTION_TIMIMG_INSANE]"
  "distinct [OS_SCAN_OPTION_TIMIMG_INSANE, OS_SCAN_OPTION_TIMIMG_AGGRESSIVE, OS_SCAN_OPTION_TIMIMG_NORMAL,
     OS_SCAN_OPTION_TIMIMG_POLITE, OS_SCAN_OPTION_TIMIMG_SNEAKY, OS_SCAN_OPTION_TIMIMG_PARANOID]"
  by (simp_all add: scan_bits)

lemma tcp_choice:
  assumes "opt_os_scan_tcp_scan s = strncpy_buf OPTIONS_OS_SCAN_TCP_SCAN_SIZE
    (one_of [TCP_SCAN_0, TCP_SCAN_1, TCP_SCAN_2, TCP_SCAN_3, TCP_SCAN_4] TCP_SCAN_DEFAULT u)"
  shows "scan_text (ucast (scan_word s w)) = tcp_switch u"
proof -
  let ?F = "\<lambda>t. tcp_scan_flag (strncpy_buf 20 t)"
  have f: "?F TCP_SCAN_0 = OS_SCAN_OPTION_TCP_CONNECT_SCAN" "?F TCP_SCAN_1 = OS_SCAN_OPTION_TCP_SYN_SCAN"
    "?F TCP_SCAN_2 = OS_SCAN_OPTION_STEALTH_FIN" "?F TCP_SCAN_3 = OS_SCAN_OPTION_STEALTH_XMAS"
    "?F TCP_SCAN_4 = OS_SCAN_OPTION_STEALTH_NULL"
    using scan_texts_distinct(1,2) by (simp_all add: tcp_scan_flag_def buf_is_strncpy scan_text_bounds)
  consider "u = TCP_SCAN_1" | "u = TCP_SCAN_2" | "u = TCP_SCAN_3" | "u = TCP_SCAN_4"
    | "u \<notin> {TCP_SCAN_1, TCP_SCAN_2, TCP_SCAN_3, TCP_SCAN_4}" by blast
  then show ?thesis
    using assms scan_texts_distinct(1,2) scan_bits_distinct(1,2)
    by cases (simp_all add: scan_word_text OPTIONS_OS_SCAN_TCP_SCAN_SIZE_def one_of_def TCP_SCAN_DEFAULT_def f tcp_switch_def)
qed

lemma timing_choice:
  assumes "opt_os_scan_timing s = strncpy_buf OPTIONS_OS_SCAN_TIMING_SIZE
    (one_of [TIMING_SCAN_NORMAL, TIMING_SCAN_PARANOID, TIMING_SCAN_SNEAKY, TIMING_SCAN_POLITE,
             TIMING_SCAN_AGGRESSIVE, TIMING_SCAN_INSANE] TIMING_SCAN_DEFAULT u)"
  shows "timing_text (ucast (scan_word s w)) = timing_switch u"
proof -
  let ?F = "\<lambda>t. timing_flag (strncpy_buf 20 t)"
  have f: "?F TIMING_SCAN_NORMAL = OS_SCAN_OPTION_TIMIMG_NORMAL" "?F TIMING_SCAN_PARANOID = OS_SCAN_OPTION_TIMIMG_PARANOID"
    "?F TIMING_SCAN_SNEAKY = OS_SCAN_OPTION_TIMIMG_SNEAKY" "?F TIMING_SCAN_POLITE = OS_SCAN_OPTION_TIMIMG_POLITE"
    "?F TIMING_SCAN_AGGRESSIVE = OS_SCAN_OPTION_TIMIMG_AGGRESSIVE" "?F TIMING_SCAN_INSANE = OS_SCAN_OPTION_TIMIMG_INSANE"
    using scan_texts_distinct(3,4) by (simp_all add: timing_flag_def buf_is_strncpy scan_text_bounds)
  have t: "''Normal'' = TIMING_SCAN_NORMAL" "'' -T Paranoid'' = '' -T '' @ TIMING_SCAN_PARANOID"
    "'' -T Sneaky'' = '' -T '' @ TIMING_SCAN_SNEAKY" "'' -T Polite'' = '' -T '' @ TIMING_SCAN_POLITE"
    "'' -T Normal'' = '' -T '' @ TIMING_SCAN_NORMAL" "'' -T Aggressive'' = '' -T '' @ TIMING_SCAN_AGGRESSIVE"
    "'' -T Insane'' = '' -T '' @ TIMING_SCAN_INSANE"
    by (simp_all add: scan_texts)
  consider "u = TIMING_SCAN_PARANOID" | "u = TIMING_SCAN_SNEAKY" | "u = TIMING_SCAN_POLITE" | "u = TIMING_SCAN_AGGRESSIVE"
    | "u = TIMING_SCAN_INSANE"
    | "u \<notin> {TIMING_SCAN_PARANOID, TIMING_SCAN_SNEAKY, TIMING_SCAN_POLITE, TIMING_SCAN_AGGRESSIVE, TIMING_SCAN_INSANE}" by blast
  then show ?thesis
    unfolding scan_word_timing assms t timing_switch_def
    using scan_texts_distinct(3,4) scan_bits_distinct(3,4)
    by cases (simp_all add: OPTIONS_OS_SCAN_TIMING_SIZE_def one_of_def TIMING_SCAN_DEFAULT_def f)
qed

text \<open>
  C35. What the dialog of the settings makes of a scan: when the settings are applied with an allowed
  number of retries, whatever they were before, the options that the next requests read are those of
  the dialog, and the command that an agent builds for a host from the next request has the TCP scan
  and the timing that were chosen, the switches of the boxes for the system, UDP, fast scan and no
  ping that were ticked, and the ports when those are to be used. The boxes for RPC and identd have no
  effect: the switches for them go with the box of the system detection (\<^theory_text>\<open>boxes_ignored\<close>), so that
  the command is the one that was set up only when the three boxes agree. The text of the ports is
  shorter than 100 characters (\<^theory_text>\<open>full_ports_unterminated\<close>), and each page of the client has an agent
  that events can be sent to (\<^theory_text>\<open>client_ok\<close>).
\<close>

theorem scan_as_configured:
  assumes "client_ok env (cl_gui c)" "0 \<le> atoi (sd_discover_retries d)" "atoi (sd_discover_retries d) \<le> 5"
    "NUL \<notin> set (sd_os_scan_ports d)" "length (sd_os_scan_ports d) < 100"
  shows "\<exists>c' v. apply_settings env d c = Ret c' \<and> opt_discover_retries (cl_opts c') = atoi (sd_discover_retries d) \<and>
    options_view t (cl_opts c') = Ret v \<and> go_map v = sd_map d \<and> go_probe_ports v = sd_probe_ports d \<and>
    go_operating_system_check v = sd_operating_system_check d \<and> go_reverse_dns v = sd_reverse_dns d \<and>
    nmap_cmd ip (ucast (go_os_scan_flags v)) (go_os_scan_ports v) =
      ''nmap '' @ ip @ '' -oX - -n'' @ tcp_switch (sd_os_scan_tcp_scan d) @ timing_switch (sd_os_scan_timing d) @
      switch (sd_os_scan_osscan d) '' -O'' @ switch (sd_os_scan_udp_scan d) '' -sU'' @
      switch (sd_os_scan_osscan d) '' -sR'' @ switch (sd_os_scan_osscan d) '' -I'' @
      switch (sd_os_scan_fastscan d) '' -F'' @ switch (sd_os_scan_dont_ping d) '' -P0'' @
      switch (sd_os_scan_scan_specified_ports d) ('' -p '' @ sd_os_scan_ports d)"
proof -
  have "\<forall>(box, put, i) \<in> set check_options. keeps_flags put"
    by (simp add: check_options_def keeps_flags_def)
  from apply_checks_ok [OF assms(1) this] obtain g w where g: "client_ok env g"
    "apply_checks env d check_options c = Ret (c\<lparr>cl_gui := g,
      cl_opts := fold (\<lambda>(box, put, i) s. put (of_bool (box d)) s) check_options (cl_opts c)\<lparr>opt_os_scan_flags := w\<rparr>\<rparr>)" by blast
  define s where "s = fold (\<lambda>(box, put, i) s. put (of_bool (box d)) s) check_options (cl_opts c)
    \<lparr>opt_os_scan_flags := w, opt_discover_retries := atoi (sd_discover_retries d),
     opt_os_scan_ports := strncpy_buf OPTIONS_OS_SCAN_PORTS_SIZE (sd_os_scan_ports d),
     opt_os_scan_tcp_scan := strncpy_buf OPTIONS_OS_SCAN_TCP_SCAN_SIZE
       (one_of [TCP_SCAN_0, TCP_SCAN_1, TCP_SCAN_2, TCP_SCAN_3, TCP_SCAN_4] TCP_SCAN_DEFAULT (sd_os_scan_tcp_scan d)),
     opt_os_scan_timing := strncpy_buf OPTIONS_OS_SCAN_TIMING_SIZE
       (one_of [TIMING_SCAN_NORMAL, TIMING_SCAN_PARANOID, TIMING_SCAN_SNEAKY, TIMING_SCAN_POLITE,
          TIMING_SCAN_AGGRESSIVE, TIMING_SCAN_INSANE] TIMING_SCAN_DEFAULT (sd_os_scan_timing d))\<rparr>"
  have s: "opt_os_scan_osscan s = of_bool (sd_os_scan_osscan d)" "opt_os_scan_udp_scan s = of_bool (sd_os_scan_udp_scan d)"
    "opt_os_scan_fastscan s = of_bool (sd_os_scan_fastscan d)" "opt_os_scan_dont_ping s = of_bool (sd_os_scan_dont_ping d)"
    "opt_os_scan_scan_specified_ports s = of_bool (sd_os_scan_scan_specified_ports d)" "opt_map s = of_bool (sd_map d)"
    "opt_probe_ports s = of_bool (sd_probe_ports d)" "opt_reverse_dns s = of_bool (sd_reverse_dns d)"
    "opt_operating_system_check s = of_bool (sd_operating_system_check d)"
    by (simp_all add: s_def check_options_def)
  obtain g' where g': "apply_all_settings env (c\<lparr>cl_gui := g, cl_opts := s\<rparr>) =
      Ret (c\<lparr>cl_gui := g', cl_opts := s\<lparr>opt_os_scan_flags := scan_word s (opt_os_scan_flags s)\<rparr>\<rparr>)"
    using apply_each_ok [of env "c\<lparr>cl_gui := g, cl_opts := s\<rparr>" "[0..<OPTIONS_LAST_OPTION]"] g(1)
    by (auto simp: apply_all_settings_def scan_word_def)
  have "apply_settings env d c = Ret (c\<lparr>cl_gui := g', cl_opts := s\<lparr>opt_os_scan_flags := scan_word s (opt_os_scan_flags s)\<rparr>\<rparr>)"
    using assms(2,3) g' by (simp add: apply_settings_def g(2) Let_def s_def)
  moreover have "buf_text (opt_os_scan_ports s) = Ret (sd_os_scan_ports d)"
    using buf_text_strncpy [OF assms(4)] assms(5) by (simp add: s_def OPTIONS_OS_SCAN_PORTS_SIZE_def)
  moreover have "scan_text (ucast (scan_word s (opt_os_scan_flags s))) = tcp_switch (sd_os_scan_tcp_scan d)"
    by (rule tcp_choice) (simp add: s_def)
  moreover have "timing_text (ucast (scan_word s (opt_os_scan_flags s))) = timing_switch (sd_os_scan_timing d)"
    by (rule timing_choice) (simp add: s_def)
  moreover have "opt_discover_retries s = atoi (sd_discover_retries d)" by (simp add: s_def)
  ultimately show ?thesis
    by (simp add: options_view_def nmap_cmd_def scan_word_flags s switch_def)
qed

text \<open>An example, in which the boxes for RPC and identd agree with that for the system.\<close>

definition sample_dialog :: settings_dialog where
  "sample_dialog =
     \<lparr>sd_only_display_hostname = False, sd_os_scan_identd_scan = True, sd_os_scan_rpc_scan = True, sd_os_scan_osscan = True,
      sd_os_scan_fastscan = False, sd_os_scan_dont_ping = True, sd_os_scan_udp_scan = True,
      sd_os_scan_scan_specified_ports = True, sd_rescan_at_startup = False, sd_operating_system_check = True,
      sd_reverse_dns = False, sd_map = True, sd_confirm_delete = True, sd_save_changes_on_exit = True,
      sd_use_ip_for_label = False, sd_move_stuff_live = False, sd_probe_ports = True, sd_use_ip_for_merged_ports = False,
      sd_discover_retries = ''3'', sd_os_scan_ports = ''22,80'', sd_os_scan_tcp_scan = ''SYN Scan'',
      sd_os_scan_timing = ''Polite''\<rparr>"

lemma scan_as_configured_witness:
  "\<exists>c' v. apply_settings sample_gui_env sample_dialog \<lparr>cl_opts = settings_start, cl_gui = sample_gui\<rparr> = Ret c' \<and>
    options_view 3000 (cl_opts c') = Ret v \<and>
    nmap_cmd ''10.0.0.1'' (ucast (go_os_scan_flags v)) (go_os_scan_ports v) =
      ''nmap 10.0.0.1 -oX - -n -sS -T Polite -O -sU -sR -I -P0 -p 22,80''"
proof -
  have ok: "client_ok sample_gui_env (cl_gui \<lparr>cl_opts = settings_start, cl_gui = sample_gui\<rparr>)"
    using sample_gui_link by (auto simp: client_ok_def sample_gui_def)
  have r: "atoi (sd_discover_retries sample_dialog) = 3"
    by (simp add: sample_dialog_def) code_simp
  have p: "NUL \<notin> set (sd_os_scan_ports sample_dialog)" "length (sd_os_scan_ports sample_dialog) < 100"
    by (simp_all add: sample_dialog_def)
  have t: "tcp_switch (sd_os_scan_tcp_scan sample_dialog) = '' -sS''"
    "timing_switch (sd_os_scan_timing sample_dialog) = '' -T Polite''"
    by (simp_all add: sample_dialog_def tcp_switch_def timing_switch_def scan_texts)
  have b: "switch (sd_os_scan_osscan sample_dialog) x = x" "switch (sd_os_scan_udp_scan sample_dialog) x = x"
    "switch (sd_os_scan_fastscan sample_dialog) x = []" "switch (sd_os_scan_dont_ping sample_dialog) x = x"
    "switch (sd_os_scan_scan_specified_ports sample_dialog) x = x" "sd_os_scan_ports sample_dialog = ''22,80''" for x
    by (simp_all add: sample_dialog_def switch_def)
  have n: "0 \<le> atoi (sd_discover_retries sample_dialog)" "atoi (sd_discover_retries sample_dialog) \<le> 5"
    by (simp_all add: r)
  have l: "''nmap '' @ ''10.0.0.1'' @ '' -oX - -n'' @ '' -sS'' @ '' -T Polite'' @ '' -O'' @ '' -sU'' @ '' -sR'' @ '' -I'' @ [] @ '' -P0'' @
      '' -p '' @ ''22,80'' = ''nmap 10.0.0.1 -oX - -n -sS -T Polite -O -sU -sR -I -P0 -p 22,80''" by simp
  obtain c' v where "apply_settings sample_gui_env sample_dialog \<lparr>cl_opts = settings_start, cl_gui = sample_gui\<rparr> = Ret c'"
    "options_view 3000 (cl_opts c') = Ret v" "nmap_cmd ''10.0.0.1'' (ucast (go_os_scan_flags v)) (go_os_scan_ports v) =
      ''nmap 10.0.0.1 -oX - -n -sS -T Polite -O -sU -sR -I -P0 -p 22,80''"
    using scan_as_configured [OF ok n p, of 3000 "''10.0.0.1''", unfolded t b l] by (elim exE conjE)
  then show ?thesis by blast
qed

text \<open>The boxes for the RPC and the identd scan are not looked at.\<close>

lemma boxes_ignored:
  "apply_scan_flag i (s\<lparr>opt_os_scan_rpc_scan := v, opt_os_scan_identd_scan := u\<rparr>) = apply_scan_flag i s"
  by (simp add: apply_scan_flag_def fun_eq_iff)

text \<open>As many ports as the entry takes fill the buffer, and its text is read past the end.\<close>

lemma full_ports_unterminated: "NUL \<notin> set s \<Longrightarrow> length s = 100 \<Longrightarrow> buf_text (strncpy_buf OPTIONS_OS_SCAN_PORTS_SIZE s) = UB"
  by (simp add: buf_text_def strncpy_buf_def OPTIONS_OS_SCAN_PORTS_SIZE_def)

text \<open>A number that is not allowed leaves the choice of the scan unread.\<close>

lemma bad_retries_keep_scan:
  assumes "client_ok env (cl_gui c)" "5 < atoi (sd_discover_retries d)" "apply_settings env d c = Ret c'"
  shows "opt_os_scan_tcp_scan (cl_opts c') = opt_os_scan_tcp_scan (cl_opts c) \<and> opt_map (cl_opts c') = of_bool (sd_map d)"
proof -
  have "\<forall>(box, put, i) \<in> set check_options. keeps_flags put"
    by (simp add: check_options_def keeps_flags_def)
  from apply_checks_ok [OF assms(1) this] obtain g w where g: "apply_checks env d check_options c = Ret (c\<lparr>cl_gui := g,
      cl_opts := fold (\<lambda>(box, put, i) s. put (of_bool (box d)) s) check_options (cl_opts c)\<lparr>opt_os_scan_flags := w\<rparr>\<rparr>)" by blast
  define e where "e = c\<lparr>cl_gui := g,
      cl_opts := fold (\<lambda>(box, put, i) s. put (of_bool (box d)) s) check_options (cl_opts c)\<lparr>opt_os_scan_flags := w\<rparr>\<rparr>"
  have "apply_settings env d c = Ret e"
    by (simp only: apply_settings_def g [folded e_def] obind.simps Let_def assms(2) simp_thms if_True)
  then have c': "c' = e" using assms(3) by simp
  show ?thesis unfolding c' e_def client.simps check_options_def by simp
qed

end
