(* ===== verification/Settings_Lists.thy ===== *)
theory Settings_Lists
  imports Settings
begin

text \<open>
  The lists that the user edits in the settings: the pixmaps of operating systems (\<^verbatim>\<open>gui-pixmap.c\<close>),
  and the dialogs and rows for them, the services and the scripts (\<^verbatim>\<open>gui-settings.c\<close>). A row of a
  list on the screen is its texts and the pointer it was given. How a dialog ends, which row is
  selected, and the files that there are, are arguments; drawing a pixmap is not modelled.
\<close>

section \<open>Pixmaps of operating systems\<close>

record pixmap_entry =
  px_string :: cstring
  px_pixmap_name :: cstring

type_synonym pixmap_list = "(nat \<times> pixmap_entry) list"

definition os_pixmap_list_add :: "nat option \<Rightarrow> cstring \<Rightarrow> cstring \<Rightarrow> pixmap_list \<Rightarrow> (nat \<times> pixmap_list) outcome" where
  "os_pixmap_list_add q string pixmap pl =
     (case klook px_string pl string of
        Some (p, e) \<Rightarrow>
          Ret (p, update_first (\<lambda>(k, e). px_string e = string) (\<lambda>(k, e). (k, e\<lparr>px_pixmap_name := pixmap\<rparr>)) pl)
      | None \<Rightarrow>
          (case q of
             None \<Rightarrow> Exit 1
           | Some q \<Rightarrow> Ret (q, (q, \<lparr>px_string = string, px_pixmap_name = pixmap\<rparr>) # pl)))"

definition os_pixmap_list_remove_ptr :: "nat \<Rightarrow> pixmap_list \<Rightarrow> pixmap_list" where
  "os_pixmap_list_remove_ptr q pl = drop_address q pl"

definition os_pixmap_list_change :: "nat \<Rightarrow> cstring \<Rightarrow> cstring \<Rightarrow> pixmap_list \<Rightarrow> nat option \<times> pixmap_list" where
  "os_pixmap_list_change osp string pixmap pl =
     (if osp \<notin> fst ` set pl then (None, pl)
      else
        let pl = update_first (\<lambda>(k, e). k = osp) (\<lambda>(k, e). (k, \<lparr>px_string = string, px_pixmap_name = pixmap\<rparr>)) pl in
        if \<exists>(k, e) \<in> set pl. k \<noteq> osp \<and> px_string e = string
        then (None, os_pixmap_list_remove_ptr osp pl)
        else (Some osp, pl))"

definition os_pixmap_list_remove :: "cstring \<Rightarrow> cstring \<Rightarrow> pixmap_list \<Rightarrow> pixmap_list" where
  "os_pixmap_list_remove string pixmap pl =
     remove_first (\<lambda>(k, e). string = px_string e \<and> pixmap = px_pixmap_name e) pl"

definition pixmap_defaults :: "(cstring \<times> cstring) list" where
  "pixmap_defaults =
     [(''ATLAS'', ''atlas800.xpm''), (''RedBack'', ''redback.xpm''), (''Cisco'', ''cisco.xpm''), (''Printer'', ''printer.xpm''),
      (''Linux'', ''linux.xpm''), (''Mac'', ''mac.xpm''), (''OS X'', ''macosx.xpm''), (''IBM'', ''ibm.xpm''),
      (''Novell'', ''novell.xpm''), (''UNIX'', ''unix.xpm''), (''Windows'', ''windows.xpm''), (''HP'', ''hp.xpm''),
      (''BSD'', ''bsd.xpm''), (''SCO'', ''sco.xpm''), (''VMS'', ''vms.xpm''), (''Solaris'', ''solaris.xpm''),
      (''Hub'', ''hub.xpm''), (''QNX'', ''qnx.xpm'')]"

fun pixmap_add_all :: "(nat option \<times> cstring \<times> cstring) list \<Rightarrow> pixmap_list \<Rightarrow> pixmap_list outcome" where
  "pixmap_add_all [] pl = Ret pl"
| "pixmap_add_all ((q, string, pixmap) # xs) pl =
     obind (os_pixmap_list_add q string pixmap pl) (\<lambda>(p, pl). pixmap_add_all xs pl)"

definition os_pixmap_list_default :: "nat option list \<Rightarrow> pixmap_list \<Rightarrow> pixmap_list outcome" where
  "os_pixmap_list_default qs pl = pixmap_add_all (zip qs pixmap_defaults) []"

section \<open>Images\<close>

text \<open>Whether \<^verbatim>\<open>strstr\<close> finds a text.\<close>

fun has_text :: "cstring \<Rightarrow> cstring \<Rightarrow> bool" where
  "has_text [] t \<longleftrightarrow> t = []"
| "has_text (c # s) t \<longleftrightarrow> take (length t) (c # s) = t \<or> has_text s t"

text \<open>
  \<open>exists\<close> tells whether a file can be opened, \<open>home\<close> is the variable HOME and \<open>paths\<close> are the
  directories, of which the second is set when the program is built. The path is built in 256 bytes.
\<close>

definition image_dir :: "cstring option \<Rightarrow> cstring \<Rightarrow> cstring" where
  "image_dir home c =
     (if has_text c ''~/'' then (case home of Some h \<Rightarrow> h @ ''/'' @ drop 2 c | None \<Rightarrow> c) else c)"

fun search_image :: "(cstring \<Rightarrow> bool) \<Rightarrow> cstring option \<Rightarrow> cstring list \<Rightarrow> cstring \<Rightarrow> cstring outcome" where
  "search_image exists home [] filename = Ret []"
| "search_image exists home (c # cs) filename =
     obind (sprintf_in 256 (image_dir home c @ filename)) (\<lambda>buf.
       if exists buf then Ret buf else search_image exists home cs filename)"

definition get_my_image_path ::
  "(cstring \<Rightarrow> bool) \<Rightarrow> cstring option \<Rightarrow> cstring list \<Rightarrow> cstring \<Rightarrow> cstring outcome" where
  "get_my_image_path exists home paths filename =
     (if exists filename then sprintf_in 256 filename else search_image exists home (takeWhile (\<lambda>c. c \<noteq> []) paths) filename)"

text \<open>How the dialog for a pixmap ends; the file of the icon may be NULL.\<close>

datatype pixmap_end = Px_closed | Px_cancelled | Px_confirmed "cstring option" cstring

record pixmap_env =
  xe_exists :: "cstring \<Rightarrow> bool"
  xe_home :: "cstring option"
  xe_paths :: "cstring list"
  xe_cwd :: cstring
  xe_malloc :: "nat option"
  xe_end :: pixmap_end

text \<open>The question and the path of the icon are built in buffers of 256 bytes.\<close>

definition os_pixmaps_make_dialog ::
  "pixmap_env \<Rightarrow> nat option \<Rightarrow> cstring option \<Rightarrow> cstring option \<Rightarrow> pixmap_list \<Rightarrow> (nat option \<times> pixmap_list) outcome" where
  "os_pixmaps_make_dialog x osp pix str pl =
     obind (sprintf_in 256 (''Pick the icon for '' @ [CHR 0x27] @ (case str of Some s \<Rightarrow> s | None \<Rightarrow> ''Unknown'') @ [CHR 0x27])) (\<lambda>_.
     obind (get_my_image_path (xe_exists x) (xe_home x) (xe_paths x) (case pix of Some p \<Rightarrow> p | None \<Rightarrow> ''unknown.xpm'')) (\<lambda>buf.
     obind (if take 2 buf = ''./'' then sprintf_in 256 (xe_cwd x @ ''/'' @ drop 2 buf) else Ret buf) (\<lambda>_.
       case xe_end x of
         Px_confirmed icon string \<Rightarrow>
           (case icon of
              Some i \<Rightarrow>
                if i \<noteq> [] \<and> string \<noteq> []
                then (case osp of
                        Some p \<Rightarrow> Ret (os_pixmap_list_change p string i pl)
                      | None \<Rightarrow> obind (os_pixmap_list_add (xe_malloc x) string i pl) (\<lambda>(p, pl). Ret (Some p, pl)))
                else Ret (None, pl)
            | None \<Rightarrow> Ret (None, pl))
       | _ \<Rightarrow> Ret (osp, pl))))"

text \<open>
  The pixmap of an operating system: that of the first entry whose text is part of the name; with
  none the user is asked for one.
\<close>

definition os_pixmap_list_get ::
  "pixmap_env \<Rightarrow> nat option list \<Rightarrow> cstring \<Rightarrow> pixmap_list \<Rightarrow> (cstring \<times> pixmap_list) outcome" where
  "os_pixmap_list_get x qs string pl =
     obind (if pl = [] then os_pixmap_list_default qs pl else Ret pl) (\<lambda>pl.
       case find (\<lambda>(k, e). has_text string (px_string e)) pl of
         Some (k, e) \<Rightarrow> Ret (px_pixmap_name e, pl)
       | None \<Rightarrow>
           if string = [] then Ret (''unknown.xpm'', pl)
           else obind (os_pixmaps_make_dialog x None (Some ''unknown.xpm'') (Some string) pl) (\<lambda>(p, pl).
                  case p of
                    None \<Rightarrow> Ret (''unknown.xpm'', pl)
                  | Some p \<Rightarrow> obind (deref (map_of pl) p) (\<lambda>e. Ret (px_pixmap_name e, pl))))"

section \<open>Rows\<close>

type_synonym rows = "(cstring list \<times> nat) list"

definition row_data :: "int \<Rightarrow> rows \<Rightarrow> nat option" where
  "row_data i rs = (if 0 \<le> i \<and> nat i < length rs then Some (snd (rs ! nat i)) else None)"

definition row_remove :: "int \<Rightarrow> rows \<Rightarrow> rows" where
  "row_remove i rs = (if 0 \<le> i \<and> nat i < length rs then take (nat i) rs @ drop (Suc (nat i)) rs else rs)"

definition row_insert :: "int \<Rightarrow> cstring list \<times> nat \<Rightarrow> rows \<Rightarrow> rows" where
  "row_insert i r rs = take (nat i) rs @ r # drop (nat i) rs"

text \<open>The three lists of the settings.\<close>

definition service_row :: "service_entry \<Rightarrow> cstring list" where
  "service_row e = [sl_name e, show_int (sl_port e), if sl_protocol e = 6 then ''TCP'' else ''UDP'', sl_command e]"

definition script_row :: "script_t \<Rightarrow> cstring list" where
  "script_row s = [sc_name s, sc_script s, if sc_flags s AND SCRIPT_FLAGS_VIEWABLE \<noteq> 0 then ''yes'' else ''no'']"

definition pixmap_row :: "pixmap_entry \<Rightarrow> cstring list" where
  "pixmap_row e = [px_pixmap_name e, px_string e]"

text \<open>
  Adding, editing and deleting a row go the same way for the three: \<open>dialog\<close> is what the dialog does
  to the list behind the rows for the selected entry, and \<open>texts\<close> are the texts of an entry. Adding
  puts a row in front; editing takes the row out and puts it back unless there is no entry any more.
\<close>

definition do_add ::
  "((nat \<times> 'e) list \<Rightarrow> (nat option \<times> (nat \<times> 'e) list) outcome) \<Rightarrow> ('e \<Rightarrow> cstring list)
     \<Rightarrow> (nat \<times> 'e) list \<Rightarrow> rows \<Rightarrow> ((nat \<times> 'e) list \<times> rows) outcome" where
  "do_add dialog texts es rs =
     obind (dialog es) (\<lambda>(p, es).
       case p of
         None \<Rightarrow> Ret (es, rs)
       | Some p \<Rightarrow> obind (deref (map_of es) p) (\<lambda>e. Ret (es, (texts e, p) # rs)))"

definition do_edit ::
  "(nat \<Rightarrow> 'e \<Rightarrow> (nat \<times> 'e) list \<Rightarrow> (nat option \<times> (nat \<times> 'e) list) outcome) \<Rightarrow> ('e \<Rightarrow> cstring list)
     \<Rightarrow> int \<Rightarrow> (nat \<times> 'e) list \<Rightarrow> rows \<Rightarrow> ((nat \<times> 'e) list \<times> rows) outcome" where
  "do_edit dialog texts i es rs =
     (if i < 0 then Ret (es, rs)
      else
        obind (deref (row_data i) rs) (\<lambda>p.
        obind (deref (map_of es) p) (\<lambda>e.
        obind (dialog p e es) (\<lambda>(r, es).
          let rs = row_remove i rs in
          case r of
            None \<Rightarrow> Ret (es, rs)
          | Some q \<Rightarrow> obind (deref (map_of es) q) (\<lambda>e. Ret (es, row_insert i (texts e, q) rs))))))"

definition do_delete ::
  "(nat \<Rightarrow> (nat \<times> 'e) list \<Rightarrow> (nat \<times> 'e) list) \<Rightarrow> int \<Rightarrow> (nat \<times> 'e) list \<Rightarrow> rows \<Rightarrow> (nat \<times> 'e) list \<times> rows" where
  "do_delete remove i es rs =
     (if i < 0 then (es, rs)
      else (case row_data i rs of None \<Rightarrow> es | Some p \<Rightarrow> remove p es, row_remove i rs))"

text \<open>The services, the scripts and the pixmaps. A cancelled dialog gives back the entry it was given.\<close>

definition services_do_add :: "nat option \<Rightarrow> dialog_end \<Rightarrow> service_list \<Rightarrow> rows \<Rightarrow> (service_list \<times> rows) outcome" where
  "services_do_add q d = do_add (services_make_dialog q d None) service_row"

definition services_do_edit :: "nat option \<Rightarrow> dialog_end \<Rightarrow> int \<Rightarrow> service_list \<Rightarrow> rows \<Rightarrow> (service_list \<times> rows) outcome" where
  "services_do_edit q d = do_edit (\<lambda>p e. services_make_dialog q d (Some p)) service_row"

definition services_do_delete :: "int \<Rightarrow> service_list \<Rightarrow> rows \<Rightarrow> service_list \<times> rows" where
  "services_do_delete = do_delete service_list_remove_ptr"

text \<open>The dialog for a script: its name, whether it is in the menu, and the command.\<close>

datatype script_end = Sc_closed | Sc_cancelled | Sc_confirmed cstring cstring cstring

definition scripts_make_dialog :: "nat option \<Rightarrow> script_end \<Rightarrow> nat option \<Rightarrow> scripts \<Rightarrow> (nat option \<times> scripts) outcome" where
  "scripts_make_dialog q d script sl =
     (case d of
        Sc_confirmed name string shared \<Rightarrow>
          let flags = (if shared = ''yes'' then SCRIPT_FLAGS_VIEWABLE else 0) in
          if name \<noteq> [] \<and> string \<noteq> [] \<and> shared \<noteq> []
          then (case script of
                  Some s \<Rightarrow> script_change q s name string flags sl
                | None \<Rightarrow> obind (script_add q name string flags sl) (\<lambda>(p, sl). Ret (Some p, sl)))
          else Ret (None, sl)
      | _ \<Rightarrow> Ret (script, sl))"

definition scripts_do_add :: "nat option \<Rightarrow> script_end \<Rightarrow> scripts \<Rightarrow> rows \<Rightarrow> (scripts \<times> rows) outcome" where
  "scripts_do_add q d = do_add (scripts_make_dialog q d None) script_row"

definition scripts_do_edit :: "nat option \<Rightarrow> script_end \<Rightarrow> int \<Rightarrow> scripts \<Rightarrow> rows \<Rightarrow> (scripts \<times> rows) outcome" where
  "scripts_do_edit q d = do_edit (\<lambda>p e. scripts_make_dialog q d (Some p)) script_row"

definition scripts_do_delete :: "int \<Rightarrow> scripts \<Rightarrow> rows \<Rightarrow> scripts \<times> rows" where
  "scripts_do_delete = do_delete (\<lambda>p. script_remove_ptr (Some p))"

definition os_pixmaps_do_add :: "pixmap_env \<Rightarrow> pixmap_list \<Rightarrow> rows \<Rightarrow> (pixmap_list \<times> rows) outcome" where
  "os_pixmaps_do_add x = do_add (os_pixmaps_make_dialog x None None None) pixmap_row"

definition os_pixmaps_do_edit :: "pixmap_env \<Rightarrow> int \<Rightarrow> pixmap_list \<Rightarrow> rows \<Rightarrow> (pixmap_list \<times> rows) outcome" where
  "os_pixmaps_do_edit x = do_edit (\<lambda>p e. os_pixmaps_make_dialog x (Some p) (Some (px_pixmap_name e)) (Some (px_string e))) pixmap_row"

definition os_pixmaps_do_delete :: "int \<Rightarrow> pixmap_list \<Rightarrow> rows \<Rightarrow> pixmap_list \<times> rows" where
  "os_pixmaps_do_delete = do_delete os_pixmap_list_remove_ptr"

section \<open>The rows and the lists\<close>

text \<open>The rows show the entries, each once, when the window is opened.\<close>

definition rows_of :: "('e \<Rightarrow> cstring list) \<Rightarrow> (nat \<times> 'e) list \<Rightarrow> rows" where
  "rows_of texts es = map (\<lambda>(p, e). (texts e, p)) es"

text \<open>
  Rows agree with a list when no entry has two and each shows what its entry holds.
\<close>

definition rows_ok :: "('e \<Rightarrow> cstring list) \<Rightarrow> (nat \<times> 'e) list \<Rightarrow> rows \<Rightarrow> bool" where
  "rows_ok texts es rs \<longleftrightarrow> distinct (map snd rs) \<and> (\<forall>(t, p) \<in> set rs. \<exists>e. map_of es p = Some e \<and> t = texts e)"

lemma rows_of_ok: "distinct (map fst es) \<Longrightarrow> rows_ok texts es (rows_of texts es)"
  by (auto simp: rows_ok_def rows_of_def comp_def case_prod_beta map_of_is_SomeI)

lemma row_remove_nth:
  "0 \<le> i \<Longrightarrow> nat i < length rs \<Longrightarrow> mset (row_remove i rs) = mset rs - {# rs ! nat i #}"
proof -
  assume i: "0 \<le> i" "nat i < length rs"
  have "rs = take (nat i) rs @ rs ! nat i # drop (Suc (nat i)) rs" using id_take_nth_drop [OF i(2)] .
  then have "mset rs = mset (take (nat i) rs) + add_mset (rs ! nat i) (mset (drop (Suc (nat i)) rs))"
    by (metis mset_append mset.simps(2))
  then show ?thesis using i by (simp add: row_remove_def)
qed

text \<open>Deleting the entry of a row keeps the agreement: the row is gone, and no other row had the entry.\<close>

lemma do_delete_ok:
  assumes "rows_ok texts es rs" "0 \<le> i" "nat i < length rs" "distinct (map fst es)"
    "\<And>p. map_of (remove p es) = (map_of es)(p := None)"
  shows "rows_ok texts (fst (do_delete remove i es rs)) (snd (do_delete remove i es rs)) \<and>
    map_of (fst (do_delete remove i es rs)) = (map_of es)(snd (rs ! nat i) := None)"
proof -
  let ?p = "snd (rs ! nat i)"
  have d: "do_delete remove i es rs = (remove ?p es, row_remove i rs)"
    using assms(2,3) by (simp add: do_delete_def row_data_def)
  have m: "mset rs = add_mset (rs ! nat i) (mset (row_remove i rs))"
    using row_remove_nth [OF assms(2,3)] assms(3) by simp
  then have "mset (map snd rs) = add_mset ?p (mset (map snd (row_remove i rs)))" by simp
  then have "distinct (?p # map snd (row_remove i rs))"
    using assms(1) by (metis mset.simps(2) mset_eq_imp_distinct_iff rows_ok_def)
  moreover have "set (row_remove i rs) \<subseteq> set rs"
    using m by (metis set_mset_add_mset_insert set_mset_mset subset_insertI)
  ultimately show ?thesis
    using assms(1,5) unfolding d rows_ok_def by (force simp: image_iff)
qed

lemma do_add_ok:
  assumes "rows_ok texts es rs" "dialog es = Ret (Some p, es')" "p \<notin> fst ` set es" "map_of es' = (map_of es)(p \<mapsto> e)"
  shows "do_add dialog texts es rs = Ret (es', (texts e, p) # rs) \<and> rows_ok texts es' ((texts e, p) # rs)"
proof -
  have "q \<noteq> p" if "(t, q) \<in> set rs" for t q
    using assms(1,3) that by (force simp: rows_ok_def dest: map_of_SomeD)
  then show ?thesis using assms by (force simp: do_add_def deref_def rows_ok_def)
qed

text \<open>
  Adding a service that there is already makes a second row for its entry; after one of them is
  deleted the other is left with a pointer to freed memory, which editing it follows.
\<close>

lemma second_row_dangles:
  defines "es \<equiv> [(1 :: nat, \<lparr>sl_name = ''http'', sl_port = 80, sl_protocol = PROTOCOL_TCP, sl_command = ''netscape %i''\<rparr>)]"
  shows "\<exists>es' rs. services_do_add None (Confirmed ''www'' ''80'' ''TCP'' ''lynx %i'') es (rows_of service_row es) = Ret (es', rs) \<and>
    map snd rs = [1, 1] \<and> services_do_delete 0 es' rs = ([], tl rs) \<and>
    services_do_edit q d 0 [] (tl rs) = UB"
proof -
  have a: "atoi ''80'' = 80" by code_simp
  have k: "klook service_key es (80, PROTOCOL_TCP) = Some (1, snd (hd es))"
    by (simp add: es_def klook_def service_key_def)
  let ?es = "[(1 :: nat, \<lparr>sl_name = ''www'', sl_port = 80, sl_protocol = PROTOCOL_TCP, sl_command = ''lynx %i''\<rparr>)]"
  have "service_list_add None ''www'' 80 6 ''lynx %i'' es = Ret (1, ?es)"
    using k by (simp add: service_list_add_def old_protocol_def es_def service_key_def)
  then have "services_make_dialog None (Confirmed ''www'' ''80'' ''TCP'' ''lynx %i'') None es = Ret (Some 1, ?es)"
    by (simp add: services_make_dialog_def a)
  then show ?thesis
    by (simp add: services_do_add_def do_add_def deref_def rows_of_def es_def services_do_delete_def do_delete_def row_data_def
        row_remove_def service_list_remove_ptr_def drop_address_def services_do_edit_def do_edit_def)
qed

text \<open>The name of an operating system, which the network gives, is put into 256 bytes without a bound.\<close>

lemma long_system_overflows:
  assumes "238 \<le> length s" "pl \<noteq> []" "\<forall>(k, e) \<in> set pl. \<not> has_text s (px_string e)"
  shows "os_pixmap_list_get x qs s pl = UB"
proof -
  have "find (\<lambda>(k, e). has_text s (px_string e)) pl = None" using assms(3) by (auto simp: find_None_iff)
  moreover have "s \<noteq> []" using assms(1) by auto
  ultimately show ?thesis
    using assms(1,2) by (simp add: os_pixmap_list_get_def os_pixmaps_make_dialog_def sprintf_in_def)
qed

end
