(* ===== verification/Config_Notes.thy ===== *)
theory Config_Notes
  imports Settings_Lists
begin

text \<open>
  The notes of a host in the configuration file, \<^verbatim>\<open>gui-config.c\<close>: a line end is written as the
  three characters of its code. Reading walks over the text as often as it is long, and skips two
  characters for each line end, so that it ends up behind the text; \<open>behind\<close> is what is there.
\<close>

section \<open>Writing\<close>

definition LINE_END :: char where "LINE_END = CHR 0x0A"

definition line_code :: cstring where "line_code = ''%0a''"

text \<open>The buffer has room for three characters more for each line end.\<close>

definition page_object_convert_notes :: "cstring \<Rightarrow> cstring outcome" where
  "page_object_convert_notes notes =
     (let count = length (filter (\<lambda>c. c = LINE_END) notes);
          string = concat (map (\<lambda>c. if c = LINE_END then line_code else [c]) notes)
      in if count = 0 then Ret notes else sprintf_in (length notes + 1 + count * 3) string)"

section \<open>Reading\<close>

text \<open>
  The loop, with the rounds that are left and the memory from the next character on; the characters
  behind a percent sign are looked at as far as they match.
\<close>

fun convert_loop :: "nat \<Rightarrow> char list \<Rightarrow> char list outcome" where
  "convert_loop 0 m = Ret []"
| "convert_loop (Suc n) [] = UB"
| "convert_loop (Suc n) (c # m) =
     (if c \<noteq> CHR ''%'' then obind (convert_loop n m) (\<lambda>s. Ret (c # s))
      else
        case m of
          [] \<Rightarrow> UB
        | d # m2 \<Rightarrow>
            if d \<noteq> CHR ''0'' then obind (convert_loop n m) (\<lambda>s. Ret (c # s))
            else
              case m2 of
                [] \<Rightarrow> UB
              | e # m3 \<Rightarrow>
                  if e = CHR ''a'' then obind (convert_loop n m3) (\<lambda>s. Ret (LINE_END # s))
                  else obind (convert_loop n m) (\<lambda>s. Ret (c # s)))"

definition config_convert_notes :: "cstring \<Rightarrow> char list \<Rightarrow> cstring outcome" where
  "config_convert_notes notes behind =
     obind (convert_loop (length notes + 1) (notes @ NUL # behind)) (\<lambda>s. Ret (takeWhile (\<lambda>c. c \<noteq> NUL) s))"

section \<open>The round trip\<close>

definition coded :: "cstring \<Rightarrow> cstring" where
  "coded s = concat (map (\<lambda>c. if c = LINE_END then line_code else [c]) s)"

lemma coded_simps [simp]: "coded [] = []" "coded (c # s) = (if c = LINE_END then line_code else [c]) @ coded s"
  by (simp_all add: coded_def)

lemma length_coded: "length (coded s) = length s + 2 * length (filter (\<lambda>c. c = LINE_END) s)"
  by (induction s) (auto simp: line_code_def)

lemma convert_notes_coded: "page_object_convert_notes s = Ret (coded s)"
proof (cases "filter (\<lambda>c. c = LINE_END) s")
  case Nil
  then have "coded s = s" by (induction s) (auto split: if_splits)
  then show ?thesis using Nil by (simp add: page_object_convert_notes_def)
next
  case (Cons a as)
  then show ?thesis
    using length_coded [of s] by (simp add: page_object_convert_notes_def Let_def sprintf_in_def coded_def [symmetric])
qed

text \<open>One line end of the text takes one round, and so does any other character that begins no code.\<close>

lemma coded_head:
  assumes "\<not> has_text (c # s) line_code" "c = CHR ''%''" "coded s @ NUL # b = d # m2" "d = CHR ''0''"
  shows "\<exists>e m3. m2 = e # m3 \<and> e \<noteq> CHR ''a''"
proof -
  have n: "take 3 (c # s) \<noteq> line_code" using assms(1) by (simp add: line_code_def eval_nat_numeral)
  obtain s' where s: "s = CHR ''0'' # s'"
    using assms(3,4) by (cases s) (auto simp: line_code_def split: if_splits)
  then have m: "m2 = coded s' @ NUL # b" using assms(3) by (simp add: LINE_END_def)
  show ?thesis
  proof (cases s')
    case Nil
    then show ?thesis using m by simp
  next
    case (Cons x s'')
    then have "x \<noteq> CHR ''a''" using n assms(2) by (auto simp: s line_code_def)
    then show ?thesis using m Cons by (auto simp: line_code_def)
  qed
qed

lemma has_text_tail: "\<not> has_text (c # s) t \<Longrightarrow> \<not> has_text s t"
  by simp

text \<open>Behind the text come the NUL and what is read for the rounds that the line ends have saved.\<close>

lemma convert_loop_rest:
  "k \<le> length b \<Longrightarrow> CHR ''%'' \<notin> set b \<Longrightarrow> convert_loop k b = Ret (take k b)"
proof (induction k arbitrary: b)
  case (Suc k)
  then show ?case by (cases b) auto
qed simp

lemma convert_loop_coded:
  assumes "\<not> has_text s line_code" "NUL \<notin> set s" "CHR ''%'' \<notin> set b" "k \<le> length b"
  shows "convert_loop (length s + Suc k) (coded s @ NUL # b) = Ret (s @ NUL # take k b)"
  using assms
proof (induction s)
  case Nil
  then show ?case by (simp add: convert_loop_rest)
next
  case (Cons c s)
  have IH: "convert_loop (length s + Suc k) (coded s @ NUL # b) = Ret (s @ NUL # take k b)"
    using Cons.IH Cons.prems has_text_tail by auto
  show ?case
  proof (cases "c = LINE_END")
    case True
    then show ?thesis using IH by (simp add: line_code_def)
  next
    case False
    show ?thesis
    proof (cases "c = CHR ''%''")
      case False
      then show ?thesis using \<open>c \<noteq> LINE_END\<close> IH by simp
    next
      case True
      obtain d m2 where m: "coded s @ NUL # b = d # m2" by (cases "coded s @ NUL # b") simp_all
      show ?thesis
      proof (cases "d = CHR ''0''")
        case False
        then show ?thesis using \<open>c \<noteq> LINE_END\<close> True IH m by simp
      next
        case True
        from coded_head [OF Cons.prems(1) \<open>c = CHR ''%''\<close> m True] obtain e m3 where "m2 = e # m3" "e \<noteq> CHR ''a''" by blast
        then show ?thesis using \<open>c \<noteq> LINE_END\<close> \<open>c = CHR ''%''\<close> True IH m by simp
      qed
    qed
  qed
qed

lemma convert_back:
  assumes "NUL \<notin> set notes" "\<not> has_text notes line_code" "CHR ''%'' \<notin> set behind"
    "2 * length (filter (\<lambda>c. c = LINE_END) notes) \<le> length behind"
  shows "config_convert_notes (coded notes) behind = Ret notes"
proof -
  let ?k = "2 * length (filter (\<lambda>c. c = LINE_END) notes)"
  have "convert_loop (length notes + Suc ?k) (coded notes @ NUL # behind) = Ret (notes @ NUL # take ?k behind)"
    using convert_loop_coded [OF assms(2,1,3,4)] .
  moreover have "takeWhile (\<lambda>c. c \<noteq> NUL) (notes @ NUL # r) = notes" for r
    using assms(1) by (subst takeWhile_append2) auto
  ultimately show ?thesis by (simp add: config_convert_notes_def length_coded)
qed

text \<open>
  C36. The notes of a host come back from the configuration file as they were, line ends included,
  when they do not hold the code of a line end themselves, and when the memory behind the text, of
  which two bytes are read for each line end, is that long and holds no percent sign. Without those
  bytes the reading is not defined (\<^theory_text>\<open>notes_overread\<close>), and a code among them would be taken for a
  line end.
\<close>

theorem notes_roundtrip:
  assumes "NUL \<notin> set notes" "\<not> has_text notes line_code" "CHR ''%'' \<notin> set behind"
    "2 * length (filter (\<lambda>c. c = LINE_END) notes) \<le> length behind"
  shows "obind (page_object_convert_notes notes) (\<lambda>saved. config_convert_notes saved behind) = Ret notes"
  using convert_back [OF assms] by (simp add: convert_notes_coded)

lemma notes_roundtrip_witness:
  "obind (page_object_convert_notes (''50%'' @ [LINE_END] @ ''0a'')) (\<lambda>saved. config_convert_notes saved ''xy'') =
     Ret (''50%'' @ [LINE_END] @ ''0a'')"
  by (rule notes_roundtrip) (simp_all add: LINE_END_def line_code_def)

text \<open>Notes with a line end are read behind their end, and a code that the user typed becomes a line end.\<close>

lemma notes_overread: "obind (page_object_convert_notes [LINE_END]) (\<lambda>saved. config_convert_notes saved []) = UB"
  by (simp add: convert_notes_coded config_convert_notes_def line_code_def numeral_eq_Suc LINE_END_def)

lemma typed_code_changes:
  "obind (page_object_convert_notes ''%0a'') (\<lambda>saved. config_convert_notes saved ''xy'') = Ret [LINE_END]"
  by (simp add: convert_notes_coded config_convert_notes_def LINE_END_def numeral_eq_Suc)

end
