(* ===== verification/Config.thy ===== *)
theory Config
  imports Config_Notes
begin

text \<open>
  The configuration file of the client, \<^verbatim>\<open>gui-config.c\<close>: the options, and the lists of pixmaps, services
  and scripts. The library that keeps the file is not part of the program: reading takes what it
  answers for a path and a default as an argument, and writing gives the calls that set values.
  Paths and defaults are built in buffers of 1024 bytes. The lists and the hosts are in \<^theory_text>\<open>Config_Lists\<close>
  and \<^theory_text>\<open>Config_Hosts\<close>.
\<close>

section \<open>The library\<close>

text \<open>The value of a path, or the default and that it was used.\<close>

record gnome_config =
  gc_int :: "cstring \<Rightarrow> cstring \<Rightarrow> int \<times> bool"
  gc_string :: "cstring \<Rightarrow> cstring \<Rightarrow> cstring \<times> bool"
  gc_float :: "cstring \<Rightarrow> cstring \<Rightarrow> u32 \<times> bool"

text \<open>What is set: a number, a text, a \<^verbatim>\<open>float\<close> as its bits, or a text that is NULL.\<close>

datatype config_value = Cv_int int | Cv_string cstring | Cv_float u32 | Cv_null

definition CONFIG_BUFFER_SIZE :: nat where "CONFIG_BUFFER_SIZE = 1024"

definition global :: "cstring \<Rightarrow> cstring \<Rightarrow> cstring" where
  "global filename key = ''='' @ filename @ ''=/global/'' @ key"

definition get_int :: "gnome_config \<Rightarrow> cstring \<Rightarrow> cstring \<Rightarrow> (int \<times> bool) outcome" where
  "get_int gc path d = obind (sprintf_in CONFIG_BUFFER_SIZE (path @ ''='' @ d)) (\<lambda>_. Ret (gc_int gc path d))"

definition get_string :: "gnome_config \<Rightarrow> cstring \<Rightarrow> cstring \<Rightarrow> (cstring \<times> bool) outcome" where
  "get_string gc path d = obind (sprintf_in CONFIG_BUFFER_SIZE (path @ ''='' @ d)) (\<lambda>_. Ret (gc_string gc path d))"

definition get_float :: "gnome_config \<Rightarrow> cstring \<Rightarrow> cstring \<Rightarrow> (u32 \<times> bool) outcome" where
  "get_float gc path d = obind (sprintf_in CONFIG_BUFFER_SIZE (path @ ''='' @ d)) (\<lambda>_. Ret (gc_float gc path d))"

fun set_values :: "(cstring \<times> config_value) list \<Rightarrow> (cstring \<times> config_value) list outcome" where
  "set_values [] = Ret []"
| "set_values ((path, v) # xs) =
     obind (sprintf_in CONFIG_BUFFER_SIZE path) (\<lambda>_. obind (set_values xs) (\<lambda>ys. Ret ((path, v) # ys)))"

section \<open>Writing the options\<close>

definition option_values :: "settings \<Rightarrow> cstring \<Rightarrow> cstring \<Rightarrow> cstring \<Rightarrow> (cstring \<times> config_value) list" where
  "option_values s ports tcp timing =
     [(''options_rescan_at_startup'', Cv_int (opt_rescan_at_startup s)),
      (''options_discover_retries'', Cv_int (opt_discover_retries s)),
      (''options_operating_system_check'', Cv_int (opt_operating_system_check s)),
      (''options_confirm_delete'', Cv_int (opt_confirm_delete s)),
      (''options_reverse_dns'', Cv_int (opt_reverse_dns s)),
      (''options_save_changes_on_exit'', Cv_int (opt_save_changes_on_exit s)),
      (''options_use_ip_for_label'', Cv_int (opt_use_ip_for_label s)),
      (''options_only_display_hostname'', Cv_int (opt_only_display_hostname s)),
      (''options_move_stuff_live'', Cv_int (opt_move_stuff_live s)),
      (''options_probe_ports'', Cv_int (opt_probe_ports s)),
      (''options_map'', Cv_int (opt_map s)),
      (''options_os_scan_ports'', Cv_string ports),
      (''options_os_scan_tcp_scan'', Cv_string tcp),
      (''options_os_scan_timing'', Cv_string timing),
      (''options_os_scan_fastscan'', Cv_int (opt_os_scan_fastscan s)),
      (''options_os_scan_udp_scan'', Cv_int (opt_os_scan_udp_scan s)),
      (''options_os_scan_identd_scan'', Cv_int (opt_os_scan_identd_scan s)),
      (''options_os_scan_rpc_scan'', Cv_int (opt_os_scan_rpc_scan s)),
      (''options_os_scan_osscan'', Cv_int (opt_os_scan_osscan s)),
      (''options_os_scan_dont_ping'', Cv_int (opt_os_scan_dont_ping s)),
      (''options_os_scan_scan_specified_ports'', Cv_int (opt_os_scan_scan_specified_ports s)),
      (''options_use_ip_for_merged_ports'', Cv_int (opt_use_ip_for_merged_ports s))]"

definition write_options :: "cstring \<Rightarrow> settings \<Rightarrow> (cstring \<times> config_value) list outcome" where
  "write_options filename s =
     obind (buf_text (opt_os_scan_ports s)) (\<lambda>ports.
     obind (buf_text (opt_os_scan_tcp_scan s)) (\<lambda>tcp.
     obind (buf_text (opt_os_scan_timing s)) (\<lambda>timing.
       set_values (map (\<lambda>(key, v). (global filename key, v)) (option_values s ports tcp timing)))))"

section \<open>Reading the options\<close>

text \<open>
  An option: its key, its value, how it is set, its number, and the default it is asked for with.
  Each is applied when it has been read.
\<close>

type_synonym int_option =
  "cstring \<times> (settings \<Rightarrow> int) \<times> (int \<Rightarrow> settings \<Rightarrow> settings) \<times> nat \<times> (settings \<Rightarrow> int)"

definition first_options :: "int_option list" where
  "first_options =
     [(''options_discover_retries'', opt_discover_retries, \<lambda>v. opt_discover_retries_update (\<lambda>_. v),
         OPTIONS_DISCOVER_RETRIES, \<lambda>s. 2),
      (''options_rescan_at_startup'', opt_rescan_at_startup, \<lambda>v. opt_rescan_at_startup_update (\<lambda>_. v),
         OPTIONS_RESCAN_AT_STARTUP, \<lambda>s. 0),
      (''options_operating_system_check'', opt_operating_system_check, \<lambda>v. opt_operating_system_check_update (\<lambda>_. v),
         OPTIONS_OPERATING_SYSTEM_CHECK, opt_operating_system_check),
      (''options_confirm_delete'', opt_confirm_delete, \<lambda>v. opt_confirm_delete_update (\<lambda>_. v),
         OPTIONS_CONFIRM_DELETE, opt_confirm_delete),
      (''options_save_changes_on_exit'', opt_save_changes_on_exit, \<lambda>v. opt_save_changes_on_exit_update (\<lambda>_. v),
         OPTIONS_SAVE_CHANGES_ON_EXIT, opt_save_changes_on_exit),
      (''options_reverse_dns'', opt_reverse_dns, \<lambda>v. opt_reverse_dns_update (\<lambda>_. v),
         OPTIONS_REVERSE_DNS, opt_reverse_dns),
      (''options_use_ip_for_label'', opt_use_ip_for_label, \<lambda>v. opt_use_ip_for_label_update (\<lambda>_. v),
         OPTIONS_USE_IP_FOR_LABEL, opt_use_ip_for_label),
      (''options_only_display_hostname'', opt_only_display_hostname, \<lambda>v. opt_only_display_hostname_update (\<lambda>_. v),
         OPTIONS_ONLY_DISPLAY_HOSTNAME, opt_only_display_hostname),
      (''options_move_stuff_live'', opt_move_stuff_live, \<lambda>v. opt_move_stuff_live_update (\<lambda>_. v),
         OPTIONS_MOVE_STUFF_LIVE, opt_move_stuff_live),
      (''options_probe_ports'', opt_probe_ports, \<lambda>v. opt_probe_ports_update (\<lambda>_. v),
         OPTIONS_PROBE_PORTS, opt_probe_ports),
      (''options_map'', opt_map, \<lambda>v. opt_map_update (\<lambda>_. v), OPTIONS_MAP, opt_map)]"

definition scan_int_options :: "int_option list" where
  "scan_int_options =
     [(''options_os_scan_udp_scan'', opt_os_scan_udp_scan, \<lambda>v. opt_os_scan_udp_scan_update (\<lambda>_. v),
         OPTIONS_OS_SCAN_UDP_SCAN, opt_os_scan_udp_scan),
      (''options_os_scan_rpc_scan'', opt_os_scan_rpc_scan, \<lambda>v. opt_os_scan_rpc_scan_update (\<lambda>_. v),
         OPTIONS_OS_SCAN_RPC_SCAN, opt_os_scan_rpc_scan),
      (''options_os_scan_identd_scan'', opt_os_scan_identd_scan, \<lambda>v. opt_os_scan_identd_scan_update (\<lambda>_. v),
         OPTIONS_OS_SCAN_IDENTD_SCAN, opt_os_scan_identd_scan),
      (''options_os_scan_fastscan'', opt_os_scan_fastscan, \<lambda>v. opt_os_scan_fastscan_update (\<lambda>_. v),
         OPTIONS_OS_SCAN_FASTSCAN, opt_os_scan_fastscan),
      (''options_os_scan_osscan'', opt_os_scan_osscan, \<lambda>v. opt_os_scan_osscan_update (\<lambda>_. v),
         OPTIONS_OS_SCAN_OSSCAN, opt_os_scan_osscan),
      (''options_os_scan_dont_ping'', opt_os_scan_dont_ping, \<lambda>v. opt_os_scan_dont_ping_update (\<lambda>_. v),
         OPTIONS_OS_SCAN_DONT_PING, opt_os_scan_dont_ping),
      (''options_os_scan_scan_specified_ports'', opt_os_scan_scan_specified_ports,
         \<lambda>v. opt_os_scan_scan_specified_ports_update (\<lambda>_. v),
         OPTIONS_OS_SCAN_SCAN_SPECIFIED_PORTS, opt_os_scan_scan_specified_ports),
      (''options_use_ip_for_merged_ports'', opt_use_ip_for_merged_ports, \<lambda>v. opt_use_ip_for_merged_ports_update (\<lambda>_. v),
         OPTIONS_USE_IP_FOR_MERGED_PORTS, opt_use_ip_for_merged_ports)]"

fun read_ints :: "gui_env \<Rightarrow> gnome_config \<Rightarrow> cstring \<Rightarrow> int_option list \<Rightarrow> 'h client \<Rightarrow> 'h client outcome" where
  "read_ints env gc filename [] c = Ret c"
| "read_ints env gc filename ((key, val, put, i, d) # os) c =
     obind (get_int gc (global filename key) (show_int (d (cl_opts c)))) (\<lambda>(v, def).
     obind (apply_the_setting env i (c\<lparr>cl_opts := put v (cl_opts c)\<rparr>)) (read_ints env gc filename os))"

text \<open>The texts: without a value the first is cut and the others are their defaults.\<close>

definition read_texts :: "gui_env \<Rightarrow> gnome_config \<Rightarrow> cstring \<Rightarrow> 'h client \<Rightarrow> 'h client outcome" where
  "read_texts env gc filename c =
     obind (buf_text (opt_os_scan_ports (cl_opts c))) (\<lambda>d.
     obind (get_string gc (global filename ''options_os_scan_ports'') d) (\<lambda>(t, def).
     let ports = (if def then NUL # tl (opt_os_scan_ports (cl_opts c)) else strncpy_buf OPTIONS_OS_SCAN_PORTS_SIZE t) in
     obind (apply_the_setting env OPTIONS_OS_SCAN_PORTS (c\<lparr>cl_opts := cl_opts c\<lparr>opt_os_scan_ports := ports\<rparr>\<rparr>)) (\<lambda>c.
     obind (buf_text (opt_os_scan_tcp_scan (cl_opts c))) (\<lambda>d.
     obind (get_string gc (global filename ''options_os_scan_tcp_scan'') d) (\<lambda>(t, def).
     let tcp = strncpy_buf OPTIONS_OS_SCAN_TCP_SCAN_SIZE (if def then TCP_SCAN_DEFAULT else t) in
     obind (apply_the_setting env OPTIONS_OS_SCAN_TCP_SCAN (c\<lparr>cl_opts := cl_opts c\<lparr>opt_os_scan_tcp_scan := tcp\<rparr>\<rparr>)) (\<lambda>c.
     obind (buf_text (opt_os_scan_timing (cl_opts c))) (\<lambda>d.
     obind (get_string gc (global filename ''options_os_scan_timing'') d) (\<lambda>(t, def).
     let timing = strncpy_buf OPTIONS_OS_SCAN_TIMING_SIZE (if def then TIMING_SCAN_DEFAULT else t) in
     apply_the_setting env OPTIONS_OS_SCAN_TIMING (c\<lparr>cl_opts := cl_opts c\<lparr>opt_os_scan_timing := timing\<rparr>\<rparr>)))))))))"

definition read_options :: "gui_env \<Rightarrow> gnome_config \<Rightarrow> cstring \<Rightarrow> 'h client \<Rightarrow> 'h client outcome" where
  "read_options env gc filename c =
     obind (read_ints env gc filename first_options c) (\<lambda>c.
     obind (read_texts env gc filename c) (read_ints env gc filename scan_int_options))"

section \<open>The options come back\<close>

text \<open>What the library is relied on for: it answers for a path what was set for it.\<close>

definition holds :: "gnome_config \<Rightarrow> cstring \<times> config_value \<Rightarrow> bool" where
  "holds gc pv = (case pv of (path, Cv_int i) \<Rightarrow> (\<forall>d. gc_int gc path d = (i, False))
                           | (path, Cv_string s) \<Rightarrow> (\<forall>d. gc_string gc path d = (s, False))
                           | (path, Cv_float f) \<Rightarrow> (\<forall>d. gc_float gc path d = (f, False))
                           | (path, Cv_null) \<Rightarrow> True)"

lemma set_values_id: "\<forall>(path, v) \<in> set xs. length path < CONFIG_BUFFER_SIZE \<Longrightarrow> set_values xs = Ret xs"
  by (induction xs rule: set_values.induct) (auto simp: sprintf_in_def)

fun defaults_fit :: "int_option list \<Rightarrow> settings \<Rightarrow> bool" where
  "defaults_fit [] s \<longleftrightarrow> True"
| "defaults_fit ((key, val, put, i, d) # os) s \<longleftrightarrow>
     length key + length (show_int (d s)) < 60 \<and> (\<forall>v w. defaults_fit os (put v s\<lparr>opt_os_scan_flags := w\<rparr>))"

lemma get_int_holds:
  assumes "holds gc (global filename key, Cv_int i)" "length filename < 900" "length key + length d < 60"
  shows "get_int gc (global filename key) d = Ret (i, False)"
  using assms by (simp add: get_int_def sprintf_in_def global_def CONFIG_BUFFER_SIZE_def holds_def)

lemma get_string_holds:
  assumes "holds gc (global filename key, Cv_string t)" "length filename < 880" "length key + length d < 130"
  shows "get_string gc (global filename key) d = Ret (t, False)"
  using assms by (simp add: get_string_def sprintf_in_def global_def CONFIG_BUFFER_SIZE_def holds_def)

definition put_all :: "settings \<Rightarrow> int_option list \<Rightarrow> settings \<Rightarrow> settings" where
  "put_all s os r = fold (\<lambda>(key, val, put, i, d) r. put (val s) r) os r"

lemma put_all_simps [simp]:
  "put_all s [] r = r" "put_all s ((key, val, put, i, d) # os) r = put_all s os (put (val s) r)"
  by (simp_all add: put_all_def)

lemma put_all_flags:
  assumes "\<forall>(key, val, put, i, d) \<in> set os. keeps_flags put"
  shows "put_all s os (t\<lparr>opt_os_scan_flags := w\<rparr>) = (put_all s os t)\<lparr>opt_os_scan_flags := w\<rparr>"
  using assms
proof (induction os arbitrary: t)
  case (Cons x os)
  then show ?case by (cases x) (simp add: keeps_flags_def)
qed simp

lemma read_ints_ok:
  assumes "client_ok env (cl_gui c)" "length filename < 880" "defaults_fit os (cl_opts c)"
    "\<forall>(key, val, put, i, d) \<in> set os. holds gc (global filename key, Cv_int (val s)) \<and> keeps_flags put"
  shows "\<exists>g w. client_ok env g \<and> read_ints env gc filename os c = Ret (c\<lparr>cl_gui := g,
    cl_opts := (put_all s os (cl_opts c))\<lparr>opt_os_scan_flags := w\<rparr>\<rparr>)"
  using assms(1,3,4)
proof (induction os arbitrary: c)
  case Nil
  then show ?case by (intro exI [of _ "cl_gui c"] exI [of _ "opt_os_scan_flags (cl_opts c)"]) simp
next
  case (Cons x os)
  obtain key val put i d where x: "x = (key, val, put, i, d)" by (cases x) auto
  have get: "get_int gc (global filename key) (show_int (d (cl_opts c))) = Ret (val s, False)"
    using get_int_holds [of gc filename key "val s" "show_int (d (cl_opts c))"] assms(2) Cons.prems(2,3) x by simp
  let ?c = "c\<lparr>cl_opts := put (val s) (cl_opts c)\<rparr>"
  have "client_ok env (cl_gui ?c)" using Cons.prems(1) by simp
  from apply_the_setting_ok [OF this] obtain g w where g: "client_ok env g"
    "apply_the_setting env i ?c = Ret (?c\<lparr>cl_gui := g, cl_opts := cl_opts ?c\<lparr>opt_os_scan_flags := w\<rparr>\<rparr>)" by metis
  let ?d = "?c\<lparr>cl_gui := g, cl_opts := cl_opts ?c\<lparr>opt_os_scan_flags := w\<rparr>\<rparr>"
  have p: "client_ok env (cl_gui ?d)" "defaults_fit os (cl_opts ?d)"
    "\<forall>(key, val, put, i, d) \<in> set os. holds gc (global filename key, Cv_int (val s)) \<and> keeps_flags put"
    using g(1) Cons.prems(2,3) x by simp_all
  from Cons.IH [OF p] show ?case
    using put_all_flags [of os s] Cons.prems(3) by (simp add: x get g(2) case_prod_beta)
qed

text \<open>Options as the client keeps them: texts in their buffers, and numbers of 32 bits.\<close>

definition settings_ok :: "settings \<Rightarrow> bool" where
  "settings_ok s \<longleftrightarrow>
     (\<exists>p. NUL \<notin> set p \<and> length p < 100 \<and> opt_os_scan_ports s = strncpy_buf OPTIONS_OS_SCAN_PORTS_SIZE p) \<and>
     (\<exists>t. NUL \<notin> set t \<and> length t < 20 \<and> opt_os_scan_tcp_scan s = strncpy_buf OPTIONS_OS_SCAN_TCP_SCAN_SIZE t) \<and>
     (\<exists>t. NUL \<notin> set t \<and> length t < 20 \<and> opt_os_scan_timing s = strncpy_buf OPTIONS_OS_SCAN_TIMING_SIZE t) \<and>
     (\<forall>(key, val, put, i, d) \<in> set (first_options @ scan_int_options). - (2 ^ 31) \<le> val s \<and> val s < 2 ^ 31)"

lemma show_int_short: "- (2 ^ 31) \<le> i \<Longrightarrow> i < 2 ^ 31 \<Longrightarrow> length (show_int i) \<le> 11"
proof -
  have len: "0 < j \<Longrightarrow> n < 10 ^ j \<Longrightarrow> length (show_nat_fuel k n) \<le> j" for j k n
  proof (induction k arbitrary: n j)
    case (Suc k)
    show ?case
    proof (cases "n < 10")
      case False
      obtain j' where j1: "j = Suc j'" using Suc.prems(1) by (cases j) auto
      have "0 < j'" using False Suc.prems(2) j1 by (cases j') auto
      note j = j1 this
      then have "n div 10 < 10 ^ j'" using Suc.prems(2) by (simp add: div_less_iff_less_mult)
      then show ?thesis using Suc.IH [OF j(2)] False j by simp
    qed (use Suc.prems in simp)
  qed simp
  assume "- (2 ^ 31) \<le> i" "i < 2 ^ 31"
  then have "nat (- i) < 10 ^ 10" "nat i < 10 ^ 10" by simp_all
  then show ?thesis using len [of 10 "nat (- i)" 20] len [of 10 "nat i" 20] by (simp add: show_int_def show_nat_def)
qed

lemma option_paths_fit:
  assumes "length filename < 880" "(p, v) \<in> set (map (\<lambda>(key, v). (global filename key, v)) (option_values s ports tcp timing))"
  shows "length p < CONFIG_BUFFER_SIZE"
  using assms by (auto simp: option_values_def global_def CONFIG_BUFFER_SIZE_def)

text \<open>The texts are read back, and what the buffers hold.\<close>

lemma read_texts_ok:
  assumes "client_ok env (cl_gui c)" "length filename < 880"
    "buf_text (opt_os_scan_ports (cl_opts c)) = Ret p" "length p < 100"
    "buf_text (opt_os_scan_tcp_scan (cl_opts c)) = Ret u" "length u < 20"
    "buf_text (opt_os_scan_timing (cl_opts c)) = Ret t" "length t < 20"
    "holds gc (global filename ''options_os_scan_ports'', Cv_string p')"
    "holds gc (global filename ''options_os_scan_tcp_scan'', Cv_string u')"
    "holds gc (global filename ''options_os_scan_timing'', Cv_string t')"
  shows "\<exists>g w. client_ok env g \<and> read_texts env gc filename c = Ret (c\<lparr>cl_gui := g, cl_opts := cl_opts c
    \<lparr>opt_os_scan_ports := strncpy_buf OPTIONS_OS_SCAN_PORTS_SIZE p', opt_os_scan_tcp_scan := strncpy_buf OPTIONS_OS_SCAN_TCP_SCAN_SIZE u',
     opt_os_scan_timing := strncpy_buf OPTIONS_OS_SCAN_TIMING_SIZE t', opt_os_scan_flags := w\<rparr>\<rparr>)"
proof -
  have get: "get_string gc (global filename ''options_os_scan_ports'') p = Ret (p', False)"
    "get_string gc (global filename ''options_os_scan_tcp_scan'') u = Ret (u', False)"
    "get_string gc (global filename ''options_os_scan_timing'') t = Ret (t', False)"
    using get_string_holds [OF assms(9,2), of p] get_string_holds [OF assms(10,2), of u]
      get_string_holds [OF assms(11,2), of t] assms(4,6,8) by simp_all
  let ?c1 = "c\<lparr>cl_opts := cl_opts c\<lparr>opt_os_scan_ports := strncpy_buf OPTIONS_OS_SCAN_PORTS_SIZE p'\<rparr>\<rparr>"
  have "client_ok env (cl_gui ?c1)" using assms(1) by simp
  from apply_the_setting_ok [OF this] obtain g1 w1 where 1: "client_ok env g1" "apply_the_setting env OPTIONS_OS_SCAN_PORTS ?c1 =
      Ret (?c1\<lparr>cl_gui := g1, cl_opts := cl_opts ?c1\<lparr>opt_os_scan_flags := w1\<rparr>\<rparr>)" by metis
  let ?d1 = "?c1\<lparr>cl_gui := g1, cl_opts := cl_opts ?c1\<lparr>opt_os_scan_flags := w1\<rparr>\<rparr>"
  let ?c2 = "?d1\<lparr>cl_opts := cl_opts ?d1\<lparr>opt_os_scan_tcp_scan := strncpy_buf OPTIONS_OS_SCAN_TCP_SCAN_SIZE u'\<rparr>\<rparr>"
  have "client_ok env (cl_gui ?c2)" using 1(1) by simp
  from apply_the_setting_ok [OF this] obtain g2 w2 where 2: "client_ok env g2" "apply_the_setting env OPTIONS_OS_SCAN_TCP_SCAN ?c2 =
      Ret (?c2\<lparr>cl_gui := g2, cl_opts := cl_opts ?c2\<lparr>opt_os_scan_flags := w2\<rparr>\<rparr>)" by metis
  let ?d2 = "?c2\<lparr>cl_gui := g2, cl_opts := cl_opts ?c2\<lparr>opt_os_scan_flags := w2\<rparr>\<rparr>"
  let ?c3 = "?d2\<lparr>cl_opts := cl_opts ?d2\<lparr>opt_os_scan_timing := strncpy_buf OPTIONS_OS_SCAN_TIMING_SIZE t'\<rparr>\<rparr>"
  have "client_ok env (cl_gui ?c3)" using 2(1) by simp
  from apply_the_setting_ok [OF this] obtain g3 w3 where 3: "client_ok env g3" "apply_the_setting env OPTIONS_OS_SCAN_TIMING ?c3 =
      Ret (?c3\<lparr>cl_gui := g3, cl_opts := cl_opts ?c3\<lparr>opt_os_scan_flags := w3\<rparr>\<rparr>)" by metis
  show ?thesis
    using 1(2) 2(2) 3
    by (intro exI [of _ g3] exI [of _ w3] conjI) (simp_all add: read_texts_def assms(3,5,7) get Let_def)
qed

lemma write_options_ok:
  assumes "settings_ok s" "length filename < 880"
  shows "\<exists>calls. write_options filename s = Ret calls"
proof -
  obtain p u t where "NUL \<notin> set p" "length p < 100" "opt_os_scan_ports s = strncpy_buf OPTIONS_OS_SCAN_PORTS_SIZE p"
    "NUL \<notin> set u" "length u < 20" "opt_os_scan_tcp_scan s = strncpy_buf OPTIONS_OS_SCAN_TCP_SCAN_SIZE u"
    "NUL \<notin> set t" "length t < 20" "opt_os_scan_timing s = strncpy_buf OPTIONS_OS_SCAN_TIMING_SIZE t"
    using assms(1) unfolding settings_ok_def by blast
  then have "write_options filename s = set_values (map (\<lambda>(key, v). (global filename key, v)) (option_values s p u t))"
    by (simp add: write_options_def buf_text_strncpy OPTIONS_OS_SCAN_PORTS_SIZE_def OPTIONS_OS_SCAN_TCP_SCAN_SIZE_def OPTIONS_OS_SCAN_TIMING_SIZE_def)
  also have "\<dots> = Ret (map (\<lambda>(key, v). (global filename key, v)) (option_values s p u t))"
    using option_paths_fit [OF assms(2)] by (intro set_values_id) blast
  finally show ?thesis by blast
qed

lemma options_read_back:
  assumes "settings_ok s" "length filename < 880" "write_options filename s = Ret calls" "\<forall>x \<in> set calls. holds gc x"
    "settings_ok (cl_opts c)" "client_ok env (cl_gui c)"
  shows "\<exists>c' w. read_options env gc filename c = Ret c' \<and> cl_opts c' = s\<lparr>opt_os_scan_flags := w\<rparr> \<and> client_ok env (cl_gui c')"
proof -
  obtain p u t where s: "NUL \<notin> set p" "length p < 100" "opt_os_scan_ports s = strncpy_buf OPTIONS_OS_SCAN_PORTS_SIZE p"
    "NUL \<notin> set u" "length u < 20" "opt_os_scan_tcp_scan s = strncpy_buf OPTIONS_OS_SCAN_TCP_SCAN_SIZE u"
    "NUL \<notin> set t" "length t < 20" "opt_os_scan_timing s = strncpy_buf OPTIONS_OS_SCAN_TIMING_SIZE t"
    using assms(1) unfolding settings_ok_def by blast
  obtain p' u' t' where c: "NUL \<notin> set p'" "length p' < 100" "opt_os_scan_ports (cl_opts c) = strncpy_buf OPTIONS_OS_SCAN_PORTS_SIZE p'"
    "NUL \<notin> set u'" "length u' < 20" "opt_os_scan_tcp_scan (cl_opts c) = strncpy_buf OPTIONS_OS_SCAN_TCP_SCAN_SIZE u'"
    "NUL \<notin> set t'" "length t' < 20" "opt_os_scan_timing (cl_opts c) = strncpy_buf OPTIONS_OS_SCAN_TIMING_SIZE t'"
    using assms(5) unfolding settings_ok_def by blast
  note sizes = OPTIONS_OS_SCAN_PORTS_SIZE_def OPTIONS_OS_SCAN_TCP_SCAN_SIZE_def OPTIONS_OS_SCAN_TIMING_SIZE_def
  let ?xs = "map (\<lambda>(key, v). (global filename key, v)) (option_values s p u t)"
  have "write_options filename s = set_values ?xs"
    using s by (simp add: write_options_def buf_text_strncpy sizes)
  also have "\<dots> = Ret ?xs" using option_paths_fit [OF assms(2)] by (intro set_values_id) blast
  finally have h: "\<forall>x \<in> set ?xs. holds gc x" using assms(3,4) by simp
  have hi: "\<forall>(key, val, put, i, d) \<in> set first_options. holds gc (global filename key, Cv_int (val s)) \<and> keeps_flags put"
    "\<forall>(key, val, put, i, d) \<in> set scan_int_options. holds gc (global filename key, Cv_int (val s)) \<and> keeps_flags put"
    using h by (simp_all add: option_values_def first_options_def scan_int_options_def keeps_flags_def)
  have ht: "holds gc (global filename ''options_os_scan_ports'', Cv_string p)"
    "holds gc (global filename ''options_os_scan_tcp_scan'', Cv_string u)"
    "holds gc (global filename ''options_os_scan_timing'', Cv_string t)"
    using h by (simp_all add: option_values_def)
  have short: "\<forall>(key, val, put, i, d) \<in> set (first_options @ scan_int_options). length (show_int (val (cl_opts c))) \<le> 11"
    using assms(5) show_int_short unfolding settings_ok_def by blast
  have fit: "defaults_fit first_options (cl_opts c)"
    using short by (simp add: first_options_def show_int_def show_small)
  obtain g1 w1 where 1: "client_ok env g1" "read_ints env gc filename first_options c =
      Ret (c\<lparr>cl_gui := g1, cl_opts := (put_all s first_options (cl_opts c))\<lparr>opt_os_scan_flags := w1\<rparr>\<rparr>)"
    using read_ints_ok [OF assms(6,2) fit hi(1)] by blast
  let ?c1 = "c\<lparr>cl_gui := g1, cl_opts := (put_all s first_options (cl_opts c))\<lparr>opt_os_scan_flags := w1\<rparr>\<rparr>"
  have b: "buf_text (opt_os_scan_ports (cl_opts ?c1)) = Ret p'" "buf_text (opt_os_scan_tcp_scan (cl_opts ?c1)) = Ret u'"
    "buf_text (opt_os_scan_timing (cl_opts ?c1)) = Ret t'"
    using c by (simp_all add: first_options_def buf_text_strncpy sizes)
  have "client_ok env (cl_gui ?c1)" using 1(1) by simp
  from read_texts_ok [OF this assms(2) b(1) c(2) b(2) c(5) b(3) c(8) ht] obtain g2 w2 where 2: "client_ok env g2"
    "read_texts env gc filename ?c1 = Ret (?c1\<lparr>cl_gui := g2, cl_opts := cl_opts ?c1
      \<lparr>opt_os_scan_ports := strncpy_buf OPTIONS_OS_SCAN_PORTS_SIZE p, opt_os_scan_tcp_scan := strncpy_buf OPTIONS_OS_SCAN_TCP_SCAN_SIZE u,
       opt_os_scan_timing := strncpy_buf OPTIONS_OS_SCAN_TIMING_SIZE t, opt_os_scan_flags := w2\<rparr>\<rparr>)" by blast
  let ?c2 = "?c1\<lparr>cl_gui := g2, cl_opts := cl_opts ?c1
      \<lparr>opt_os_scan_ports := strncpy_buf OPTIONS_OS_SCAN_PORTS_SIZE p, opt_os_scan_tcp_scan := strncpy_buf OPTIONS_OS_SCAN_TCP_SCAN_SIZE u,
       opt_os_scan_timing := strncpy_buf OPTIONS_OS_SCAN_TIMING_SIZE t, opt_os_scan_flags := w2\<rparr>\<rparr>"
  have "client_ok env (cl_gui ?c2)" using 2(1) by simp
  moreover have "defaults_fit scan_int_options (cl_opts ?c2)"
    using short by (simp add: first_options_def scan_int_options_def)
  ultimately obtain g3 w3 where 3: "client_ok env g3" "read_ints env gc filename scan_int_options ?c2 =
      Ret (?c2\<lparr>cl_gui := g3, cl_opts := (put_all s scan_int_options (cl_opts ?c2))\<lparr>opt_os_scan_flags := w3\<rparr>\<rparr>)"
    using read_ints_ok [OF _ assms(2) _ hi(2)] by blast
  have "(put_all s scan_int_options (cl_opts ?c2))\<lparr>opt_os_scan_flags := w3\<rparr> = s\<lparr>opt_os_scan_flags := w3\<rparr>"
    using s by (intro settings.equality) (simp_all add: first_options_def scan_int_options_def)
  then have "read_options env gc filename c = Ret (?c2\<lparr>cl_gui := g3, cl_opts := s\<lparr>opt_os_scan_flags := w3\<rparr>\<rparr>)"
    using 1(2) 2(2) 3(2) by (simp add: read_options_def)
  then show ?thesis using 3(1) by (intro exI [of _ "?c2\<lparr>cl_gui := g3, cl_opts := s\<lparr>opt_os_scan_flags := w3\<rparr>\<rparr>"] exI [of _ w3]) simp
qed

text \<open>
  C37. The options come back: what the client writes of its options is defined, and when the library
  answers what was set, a client that reads the file has all of them as they were, whatever its own
  options were, except for the word of the scan flags, which is not saved but put together anew.
\<close>

theorem options_roundtrip:
  assumes "settings_ok s" "length filename < 880" "settings_ok (cl_opts c)" "client_ok env (cl_gui c)"
  shows "\<exists>calls. write_options filename s = Ret calls \<and> (\<forall>gc. (\<forall>x \<in> set calls. holds gc x) \<longrightarrow>
    (\<exists>c' w. read_options env gc filename c = Ret c' \<and> cl_opts c' = s\<lparr>opt_os_scan_flags := w\<rparr> \<and> client_ok env (cl_gui c')))"
  using write_options_ok [OF assms(1,2)] options_read_back [OF assms(1,2) _ _ assms(3,4)] by blast

text \<open>A library that answers what was set, and where nothing was set the default as a number or text.\<close>

definition gnome_of :: "(cstring \<times> config_value) list \<Rightarrow> gnome_config" where
  "gnome_of xs =
     \<lparr>gc_int = (\<lambda>path d. case map_of xs path of Some (Cv_int i) \<Rightarrow> (i, False) | _ \<Rightarrow> (atoi d, True)),
      gc_string = (\<lambda>path d. case map_of xs path of Some (Cv_string t) \<Rightarrow> (t, False) | _ \<Rightarrow> (d, True)),
      gc_float = (\<lambda>path d. case map_of xs path of Some (Cv_float f) \<Rightarrow> (f, False) | _ \<Rightarrow> (0, True))\<rparr>"

lemma gnome_of_holds: "distinct (map fst xs) \<Longrightarrow> x \<in> set xs \<Longrightarrow> holds (gnome_of xs) x"
  by (cases x; cases "snd x") (auto simp: holds_def gnome_of_def)

lemma sample_client_ok: "client_ok sample_gui_env (cl_gui \<lparr>cl_opts = s, cl_gui = sample_gui\<rparr>)"
  using sample_gui_link by (auto simp: client_ok_def sample_gui_def)

lemma option_keys_distinct: "distinct (map fst (map (\<lambda>(key, v). (global filename key, v)) (option_values s p u t)))"
proof -
  have "distinct (map fst (option_values s p u t))" by (simp add: option_values_def)
  moreover have "map fst (map (\<lambda>(key, v). (global filename key, v)) (option_values s p u t)) =
      map (global filename) (map fst (option_values s p u t))"
    by (simp add: case_prod_beta comp_def)
  moreover have "inj (global filename)" by (simp add: inj_def global_def)
  ultimately show ?thesis by (simp add: distinct_map inj_on_def inj_def del: map_map)
qed

lemma settings_start_ok: "settings_ok settings_start"
proof -
  have "opt_os_scan_ports settings_start = strncpy_buf OPTIONS_OS_SCAN_PORTS_SIZE []"
    by (simp add: settings_start_def strncpy_buf_def OPTIONS_OS_SCAN_PORTS_SIZE_def)
  then have 1: "\<exists>p. NUL \<notin> set p \<and> length p < 100 \<and> opt_os_scan_ports settings_start = strncpy_buf OPTIONS_OS_SCAN_PORTS_SIZE p"
    by (intro exI [of _ "[]"]) simp
  have 2: "\<exists>t. NUL \<notin> set t \<and> length t < 20 \<and> opt_os_scan_tcp_scan settings_start = strncpy_buf OPTIONS_OS_SCAN_TCP_SCAN_SIZE t"
    by (intro exI [of _ TCP_SCAN_DEFAULT]) (simp add: settings_start_def scan_texts)
  have 3: "\<exists>t. NUL \<notin> set t \<and> length t < 20 \<and> opt_os_scan_timing settings_start = strncpy_buf OPTIONS_OS_SCAN_TIMING_SIZE t"
    by (intro exI [of _ TIMING_SCAN_DEFAULT]) (simp add: settings_start_def scan_texts)
  have 4: "\<forall>(key, val, put, i, d) \<in> set (first_options @ scan_int_options). - (2 ^ 31) \<le> val settings_start \<and> val settings_start < 2 ^ 31"
    by (simp add: first_options_def scan_int_options_def settings_start_def)
  show ?thesis unfolding settings_ok_def using 1 2 3 4 by (intro conjI)
qed

lemma options_roundtrip_witness:
  "\<exists>calls c' w. write_options ''/root/.cheops'' settings_start = Ret calls \<and>
     read_options sample_gui_env (gnome_of calls) ''/root/.cheops'' \<lparr>cl_opts = settings_start\<lparr>opt_map := 0\<rparr>, cl_gui = sample_gui\<rparr> = Ret c' \<and>
     cl_opts c' = settings_start\<lparr>opt_os_scan_flags := w\<rparr> \<and> opt_map (cl_opts c') = 1"
proof -
  have t: "buf_text (opt_os_scan_ports settings_start) = Ret []" "buf_text (opt_os_scan_tcp_scan settings_start) = Ret TCP_SCAN_DEFAULT"
    "buf_text (opt_os_scan_timing settings_start) = Ret TIMING_SCAN_DEFAULT"
    using buf_text_strncpy [of "[]" OPTIONS_OS_SCAN_PORTS_SIZE] buf_text_strncpy [of TCP_SCAN_DEFAULT OPTIONS_OS_SCAN_TCP_SCAN_SIZE]
      buf_text_strncpy [of TIMING_SCAN_DEFAULT OPTIONS_OS_SCAN_TIMING_SIZE]
    by (simp_all add: settings_start_def strncpy_buf_def scan_texts OPTIONS_OS_SCAN_PORTS_SIZE_def
        OPTIONS_OS_SCAN_TCP_SCAN_SIZE_def OPTIONS_OS_SCAN_TIMING_SIZE_def)
  let ?xs = "map (\<lambda>(key, v). (global ''/root/.cheops'' key, v)) (option_values settings_start [] TCP_SCAN_DEFAULT TIMING_SCAN_DEFAULT)"
  have f: "length ''/root/.cheops'' < 880" by simp
  have w: "write_options ''/root/.cheops'' settings_start = Ret ?xs"
    unfolding write_options_def t obind.simps using option_paths_fit [OF f] by (intro set_values_id) blast
  have h: "\<forall>x \<in> set ?xs. holds (gnome_of ?xs) x"
    by (intro ballI gnome_of_holds option_keys_distinct)
  have o: "settings_ok (cl_opts \<lparr>cl_opts = settings_start\<lparr>opt_map := 0\<rparr>, cl_gui = sample_gui\<rparr>)"
    using settings_start_ok by (simp add: settings_ok_def first_options_def scan_int_options_def)
  from options_roundtrip [OF settings_start_ok f o sample_client_ok] w h obtain c' w' where
    "read_options sample_gui_env (gnome_of ?xs) ''/root/.cheops'' \<lparr>cl_opts = settings_start\<lparr>opt_map := 0\<rparr>, cl_gui = sample_gui\<rparr> = Ret c'"
    "cl_opts c' = settings_start\<lparr>opt_os_scan_flags := w'\<rparr>" by (metis outcome.inject(1))
  moreover from this have "opt_map (cl_opts c') = 1" by (simp add: settings_start_def)
  ultimately show ?thesis using w by blast
qed

end
