(* ===== verification/Config_Lists.thy ===== *)
theory Config_Lists
  imports Config
begin

text \<open>
  The lists in the configuration file, \<^verbatim>\<open>gui-config.c\<close>: pixmaps of operating systems, services and
  scripts. The entries are numbered; reading goes on until a number is not there, and adds what it
  finds to the lists that the client has. The three go the same way, which is stated as a locale and
  interpreted for each of them.
\<close>

section \<open>Writing\<close>

definition pixmap_values :: "nat \<Rightarrow> pixmap_entry \<Rightarrow> (cstring \<times> config_value) list" where
  "pixmap_values i e =
     [(''fingerprint_string'' @ show_nat i, Cv_string (px_string e)),
      (''fingerprint_pixmap'' @ show_nat i, Cv_string (px_pixmap_name e))]"

definition service_values :: "nat \<Rightarrow> service_entry \<Rightarrow> (cstring \<times> config_value) list" where
  "service_values i e =
     [(''service'' @ show_nat i @ ''_name'', Cv_string (sl_name e)),
      (''service'' @ show_nat i @ ''_port'', Cv_int (sl_port e)),
      (''service'' @ show_nat i @ ''_protocol'', Cv_int (sl_protocol e)),
      (''service'' @ show_nat i @ ''_command'', Cv_string (sl_command e))]"

definition script_values :: "nat \<Rightarrow> script_t \<Rightarrow> (cstring \<times> config_value) list" where
  "script_values i e =
     [(''script'' @ show_nat i @ ''_name'', Cv_string (sc_name e)),
      (''script'' @ show_nat i @ ''_command'', Cv_string (sc_script e)),
      (''script'' @ show_nat i @ ''_flags'', Cv_int (sint (sc_flags e)))]"

fun numbered :: "(nat \<Rightarrow> 'e \<Rightarrow> (cstring \<times> config_value) list) \<Rightarrow> nat \<Rightarrow> 'e list \<Rightarrow> (cstring \<times> config_value) list" where
  "numbered values i [] = []"
| "numbered values i (e # es) = values i e @ numbered values (Suc i) es"

definition write_lists :: "cstring \<Rightarrow> pixmap_list \<Rightarrow> service_list \<Rightarrow> scripts \<Rightarrow> (cstring \<times> config_value) list outcome" where
  "write_lists filename pl sl cl =
     set_values (map (\<lambda>(key, v). (global filename key, v))
       (numbered pixmap_values 0 (map snd pl) @ numbered service_values 0 (map snd sl) @ numbered script_values 0 (map snd cl)))"

section \<open>Reading\<close>

text \<open>The entry of a number, if the file has it.\<close>

definition NO_STRING :: cstring where "NO_STRING = ''NO_STRING''"

definition read_pixmap :: "gnome_config \<Rightarrow> cstring \<Rightarrow> nat \<Rightarrow> pixmap_entry option outcome" where
  "read_pixmap gc filename i =
     obind (get_string gc (global filename (''fingerprint_string'' @ show_nat i)) NO_STRING) (\<lambda>(fp_string, def).
       if def then Ret None else
     obind (get_string gc (global filename (''fingerprint_pixmap'' @ show_nat i)) NO_STRING) (\<lambda>(fp_pixmap, def).
       if def then Ret None else Ret (Some \<lparr>px_string = fp_string, px_pixmap_name = fp_pixmap\<rparr>)))"

definition read_service :: "gnome_config \<Rightarrow> cstring \<Rightarrow> nat \<Rightarrow> service_entry option outcome" where
  "read_service gc filename i =
     obind (get_string gc (global filename (''service'' @ show_nat i @ ''_name'')) NO_STRING) (\<lambda>(name, def).
       if def then Ret None else
     obind (get_int gc (global filename (''service'' @ show_nat i @ ''_port'')) ''0'') (\<lambda>(port, def).
       if def then Ret None else
     obind (get_int gc (global filename (''service'' @ show_nat i @ ''_protocol'')) ''0'') (\<lambda>(protocol, def).
       if def then Ret None else
     obind (get_string gc (global filename (''service'' @ show_nat i @ ''_command'')) NO_STRING) (\<lambda>(string, def).
       if def then Ret None
       else Ret (Some \<lparr>sl_name = name, sl_port = port, sl_protocol = protocol, sl_command = string\<rparr>)))))"

definition read_script :: "gnome_config \<Rightarrow> cstring \<Rightarrow> nat \<Rightarrow> script_t option outcome" where
  "read_script gc filename i =
     obind (get_string gc (global filename (''script'' @ show_nat i @ ''_name'')) NO_STRING) (\<lambda>(name, def).
       if def then Ret None else
     obind (get_string gc (global filename (''script'' @ show_nat i @ ''_command'')) NO_STRING) (\<lambda>(script, def).
       if def then Ret None else
     obind (get_int gc (global filename (''script'' @ show_nat i @ ''_flags'')) ''0'') (\<lambda>(flags, def).
       Ret (Some \<lparr>sc_name = name, sc_script = script, sc_flags = word_of_int flags\<rparr>))))"

text \<open>
  The loop, which ends at the first number that is not there; \<open>a i\<close> is what \<^verbatim>\<open>malloc\<close> returns for the
  entry of number \<open>i\<close>.
\<close>

fun read_list ::
  "nat \<Rightarrow> (nat \<Rightarrow> 'e option outcome) \<Rightarrow> (nat option \<Rightarrow> 'e \<Rightarrow> 's \<Rightarrow> (nat \<times> 's) outcome) \<Rightarrow> (nat \<Rightarrow> nat option) \<Rightarrow> nat \<Rightarrow> 's \<Rightarrow> 's outcome" where
  "read_list 0 entry add a i s = NoFuel"
| "read_list (Suc n) entry add a i s =
     obind (entry i) (\<lambda>r.
       case r of
         None \<Rightarrow> Ret s
       | Some e \<Rightarrow> obind (add (a i) e s) (\<lambda>(p, s). read_list n entry add a (Suc i) s))"

definition read_lists ::
  "nat \<Rightarrow> gnome_config \<Rightarrow> cstring \<Rightarrow> (nat \<Rightarrow> nat option) \<Rightarrow> pixmap_list \<Rightarrow> service_list \<Rightarrow> scripts
     \<Rightarrow> (pixmap_list \<times> service_list \<times> scripts) outcome" where
  "read_lists n gc filename a pl sl cl =
     obind (read_list n (read_pixmap gc filename) (\<lambda>q e. os_pixmap_list_add q (px_string e) (px_pixmap_name e)) a 0 pl) (\<lambda>pl.
     obind (read_list n (read_service gc filename)
       (\<lambda>q e. service_list_add q (sl_name e) (sl_port e) (sl_protocol e) (sl_command e)) a 0 sl) (\<lambda>sl.
     obind (read_list n (read_script gc filename) (\<lambda>q e. script_add q (sc_name e) (sc_script e) (sc_flags e)) a 0 cl) (\<lambda>cl.
       Ret (pl, sl, cl))))"

section \<open>Lists by their keys\<close>

definition entry_for :: "('e \<Rightarrow> 'k) \<Rightarrow> (nat \<times> 'e) list \<Rightarrow> 'k \<Rightarrow> 'e option" where
  "entry_for key xs k = map_option snd (klook key xs k)"

lemma entry_for_map_of: "entry_for key xs = map_of (map (\<lambda>e. (key e, e)) (map snd xs))"
proof
  fix k
  show "entry_for key xs k = map_of (map (\<lambda>e. (key e, e)) (map snd xs)) k"
    by (induction xs) (simp_all add: entry_for_def klook_def case_prod_beta)
qed

lemma map_add_fold:
  "distinct (map key es) \<Longrightarrow> fold (\<lambda>e m. m(key e \<mapsto> e)) es m = m ++ map_of (map (\<lambda>e. (key e, e)) es)"
proof (induction es arbitrary: m)
  case (Cons e es)
  then have "key e \<notin> dom (map_of (map (\<lambda>e. (key e, e)) es))" by (auto simp: dom_map_of_conv_image_fst image_image)
  note m = map_add_upd_left [OF this, of m e]
  have "fold (\<lambda>e m. m(key e \<mapsto> e)) (e # es) m = m(key e \<mapsto> e) ++ map_of (map (\<lambda>e. (key e, e)) es)"
    using Cons.IH [of "m(key e \<mapsto> e)"] Cons.prems by (simp only: fold_simps list.map distinct.simps simp_thms)
  then show ?case by (simp only: m list.map map_of.simps fst_conv snd_conv map_add_upd)
qed simp

lemma fresh_step: "G \<subseteq> insert x F \<Longrightarrow> x \<notin> B \<Longrightarrow> B \<subseteq> A \<Longrightarrow> F \<inter> A = {} \<Longrightarrow> G \<inter> B = {}"
  by blast

text \<open>
  What adding an entry to a list comes to: the entry is what is found for its key, and at most the
  address that was given is new.
\<close>

locale saved_list =
  fixes key :: "'e \<Rightarrow> 'k" and good :: "'e \<Rightarrow> bool"
    and add :: "nat option \<Rightarrow> 'e \<Rightarrow> (nat \<times> 'e) list \<Rightarrow> (nat \<times> (nat \<times> 'e) list) outcome"
  assumes add_entry: "keyed key xs \<Longrightarrow> q \<notin> fst ` set xs \<Longrightarrow> good e \<Longrightarrow>
    \<exists>p ys. add (Some q) e xs = Ret (p, ys) \<and> keyed key ys \<and> entry_for key ys = (entry_for key xs)(key e \<mapsto> e) \<and>
      fst ` set ys \<subseteq> insert q (fst ` set xs)"
begin

lemma read_all:
  assumes "\<And>j. j < length es \<Longrightarrow> entry (i + j) = Ret (Some (es ! j))" "entry (i + length es) = Ret None" "length es < n"
    "\<forall>e \<in> set es. good e" "keyed key xs" "inj a" "fst ` set xs \<inter> a ` {i..} = {}"
  shows "\<exists>ys. read_list n entry add (\<lambda>i. Some (a i)) i xs = Ret ys \<and> keyed key ys \<and>
    entry_for key ys = fold (\<lambda>e m. m(key e \<mapsto> e)) es (entry_for key xs)"
  using assms
proof (induction es arbitrary: n i xs)
  case Nil
  then show ?case by (cases n) auto
next
  case (Cons e es)
  obtain m where n: "n = Suc m" using Cons.prems(3) by (cases n) auto
  have e: "entry i = Ret (Some e)" using Cons.prems(1) [of 0] by simp
  have "a i \<notin> fst ` set xs" using Cons.prems(7) by auto
  from add_entry [OF Cons.prems(5) this, of e] Cons.prems(4) obtain p ys where ys:
    "add (Some (a i)) e xs = Ret (p, ys)" "keyed key ys" "entry_for key ys = (entry_for key xs)(key e \<mapsto> e)"
    "fst ` set ys \<subseteq> insert (a i) (fst ` set xs)" by auto
  have fresh: "fst ` set ys \<inter> a ` {Suc i..} = {}"
  proof -
    have "a i \<notin> a ` {Suc i..}" using Cons.prems(6) by (simp add: inj_image_mem_iff)
    moreover have "a ` {Suc i..} \<subseteq> a ` {i..}" by auto
    ultimately show ?thesis by (rule fresh_step [OF ys(4) _ _ Cons.prems(7)])
  qed
  have "entry (Suc i + j) = Ret (Some (es ! j))" if "j < length es" for j
    using Cons.prems(1) [of "Suc j"] that by simp
  from Cons.IH [OF this _ _ _ ys(2) Cons.prems(6) fresh] Cons.prems(2,3,4) n show ?case
    by (simp add: e ys(1,3))
qed

end

lemma keyed_put_front:
  "keyed key xs \<Longrightarrow> q \<notin> fst ` set xs \<Longrightarrow> klook key xs (key e) = None \<Longrightarrow>
     keyed key ((q, e) # xs) \<and> entry_for key ((q, e) # xs) = (entry_for key xs)(key e \<mapsto> e)"
proof -
  assume a: "keyed key xs" "q \<notin> fst ` set xs" "klook key xs (key e) = None"
  have "keyed key ((q, e) # xs)" using a by (auto simp: keyed_def klook_None)
  moreover have "entry_for key ((q, e) # xs) = (entry_for key xs)(key e \<mapsto> e)"
    by (auto simp: entry_for_def klook_def fun_eq_iff)
  ultimately show ?thesis by simp
qed

lemma keyed_update_first:
  assumes "keyed key xs" "klook key xs k = Some (p, e)" "key (f e) = k"
  shows "keyed key (update_first (\<lambda>(i, e). key e = k) (\<lambda>(i, e). (i, f e)) xs) \<and>
    entry_for key (update_first (\<lambda>(i, e). key e = k) (\<lambda>(i, e). (i, f e)) xs) = (entry_for key xs)(k \<mapsto> f e) \<and>
    fst ` set (update_first (\<lambda>(i, e). key e = k) (\<lambda>(i, e). (i, f e)) xs) = fst ` set xs"
proof -
  let ?ys = "update_first (\<lambda>(i, e). key e = k) (\<lambda>(i, e). (i, f e)) xs"
  have 1: "map fst ?ys = map fst xs" by (induction xs) auto
  have 2: "map (\<lambda>(i, e). key e) ?ys = map (\<lambda>(i, e). key e) xs"
    using assms(2,3) by (induction xs) (auto simp: klook_def split: if_splits)
  have 3: "entry_for key ?ys = (entry_for key xs)(k \<mapsto> f e)"
    using assms(2,3) by (induction xs) (auto simp: entry_for_def klook_def fun_eq_iff split: if_splits)
  have "fst ` set ?ys = fst ` set xs" using 1 by (metis set_map)
  then show ?thesis using assms(1) 1 2 3 by (simp add: keyed_def)
qed

interpretation saved_pixmaps: saved_list px_string "\<lambda>_. True" "\<lambda>q e. os_pixmap_list_add q (px_string e) (px_pixmap_name e)"
proof (unfold_locales, goal_cases)
  case (1 xs q e)
  show ?case
  proof (cases "klook px_string xs (px_string e)")
    case None
    have "os_pixmap_list_add (Some q) (px_string e) (px_pixmap_name e) xs = Ret (q, (q, e) # xs)"
      by (simp add: os_pixmap_list_add_def None)
    with keyed_put_front [OF 1(1,2) None] show ?thesis by auto
  next
    case (Some pe)
    obtain p e' where pe: "pe = (p, e')" by (cases pe)
    have k: "px_string e' = px_string e" using klook_key [OF Some] pe by simp
    have f: "px_string (e'\<lparr>px_pixmap_name := px_pixmap_name e\<rparr>) = px_string e" using k by simp
    have "e'\<lparr>px_pixmap_name := px_pixmap_name e\<rparr> = e" using k by simp
    then show ?thesis
      using keyed_update_first [OF 1(1) Some [unfolded pe], of "\<lambda>e'. e'\<lparr>px_pixmap_name := px_pixmap_name e\<rparr>", OF f]
      by (auto simp: os_pixmap_list_add_def Some pe)
  qed
qed

interpretation saved_services: saved_list service_key "\<lambda>e. old_protocol (sl_protocol e) = sl_protocol e"
  "\<lambda>q e. service_list_add q (sl_name e) (sl_port e) (sl_protocol e) (sl_command e)"
proof (unfold_locales, goal_cases)
  case (1 xs q e)
  have key: "service_key e = (sl_port e, sl_protocol e)" by (simp add: service_key_def)
  show ?case
  proof (cases "klook service_key xs (service_key e)")
    case None
    have "service_list_add (Some q) (sl_name e) (sl_port e) (sl_protocol e) (sl_command e) xs = Ret (q, (q, e) # xs)"
      using None 1(3) by (simp add: service_list_add_def Let_def key)
    with keyed_put_front [OF 1(1,2) None] show ?thesis by auto
  next
    case (Some pe)
    obtain p e' where pe: "pe = (p, e')" by (cases pe)
    let ?f = "\<lambda>e'. e'\<lparr>sl_name := sl_name e, sl_command := sl_command e\<rparr>"
    have k: "service_key e' = service_key e" using klook_key [OF Some] pe by simp
    have f: "service_key (?f e') = service_key e" using k by (simp add: service_key_def)
    have "?f e' = e" using k by (simp add: service_key_def)
    then show ?thesis
      using keyed_update_first [OF 1(1) Some [unfolded pe], of ?f, OF f] Some 1(3)
      by (auto simp: service_list_add_def Let_def pe key)
  qed
qed

interpretation saved_scripts: saved_list sc_name "\<lambda>_. True" "\<lambda>q e. script_add q (sc_name e) (sc_script e) (sc_flags e)"
proof (unfold_locales, goal_cases)
  case (1 xs q e)
  let ?v = "(q, \<lparr>sc_name = sc_name e, sc_script = sc_script e, sc_flags = sc_flags e\<rparr>)"
  have v: "?v = (q, e)" by simp
  have "kfits (q, e) xs" using 1(2) by (simp add: kfits_def)
  from kput_law [OF 1(1) this] have "keyed sc_name (kput sc_name (q, e) xs)"
    "entry_for sc_name (kput sc_name (q, e) xs) = (entry_for sc_name xs)(sc_name e \<mapsto> e)"
    by (simp_all add: entry_for_def fun_eq_iff)
  moreover have "fst ` set (kput sc_name (q, e) xs) \<subseteq> insert q (fst ` set xs)"
    by (auto simp: kput_def drop_address_def split: option.splits dest: set_remove_first_subset [THEN subsetD])
  ultimately show ?case unfolding script_add_kput v by blast
qed

section \<open>The lists come back\<close>

text \<open>A path for which nothing was set: the library answers the default, and says so.\<close>

definition missing :: "gnome_config \<Rightarrow> cstring \<Rightarrow> bool" where
  "missing gc path \<longleftrightarrow> (\<forall>d. snd (gc_string gc path d))"

lemma show_nat_short: "length (show_nat n) \<le> 20"
proof -
  have "length (show_nat_fuel k n) \<le> k" for k by (induction k arbitrary: n) (auto simp: le_SucI)
  then show ?thesis by (simp add: show_nat_def)
qed

lemma numbered_mem: "j < length es \<Longrightarrow> set (values (i + j) (es ! j)) \<subseteq> set (numbered values i es)"
proof (induction es arbitrary: i j)
  case (Cons e es)
  then show ?case
  proof (cases j)
    case (Suc k)
    then show ?thesis using Cons.IH [of k "Suc i"] Cons.prems by auto
  qed auto
qed simp

lemma numbered_keys:
  "x \<in> set (numbered values i es) \<Longrightarrow> \<exists>j e. e \<in> set es \<and> x \<in> set (values j e)"
  by (induction es arbitrary: i) fastforce+

lemma list_paths_fit:
  assumes "length filename < 850" "x \<in> set (numbered pixmap_values 0 es) \<union> set (numbered service_values 0 fs) \<union> set (numbered script_values 0 gs)"
  shows "length (global filename (fst x)) < CONFIG_BUFFER_SIZE"
proof -
  have n: "length (show_nat j) \<le> 20" for j by (rule show_nat_short)
  have p: "x \<in> set (pixmap_values j e) \<Longrightarrow> length (fst x) \<le> 50" for j e
    using n [of j] by (auto simp: pixmap_values_def)
  have s: "x \<in> set (service_values j e) \<Longrightarrow> length (fst x) \<le> 50" for j e
    using n [of j] by (auto simp: service_values_def)
  have c: "x \<in> set (script_values j e) \<Longrightarrow> length (fst x) \<le> 50" for j e
    using n [of j] by (auto simp: script_values_def)
  have "length (fst x) \<le> 50" using assms(2) numbered_keys p s c by (metis UnE)
  then show ?thesis using assms(1) by (simp add: global_def CONFIG_BUFFER_SIZE_def)
qed

lemma get_string_missing:
  assumes "missing gc (global filename key)" "length filename < 850" "length key \<le> 50"
  shows "\<exists>t. get_string gc (global filename key) NO_STRING = Ret (t, True)"
proof -
  obtain t b where t: "gc_string gc (global filename key) NO_STRING = (t, b)" by (cases "gc_string gc (global filename key) NO_STRING")
  then have b using assms(1) by (metis missing_def snd_conv)
  then show ?thesis using t assms(2,3)
    by (simp add: get_string_def sprintf_in_def global_def CONFIG_BUFFER_SIZE_def NO_STRING_def)
qed

text \<open>What reading an entry asks for is there when the values of the entry were set.\<close>

lemma get_string_set:
  "length filename < 850 \<Longrightarrow> holds gc (global filename key, Cv_string t) \<Longrightarrow> length key \<le> 50 \<Longrightarrow>
     get_string gc (global filename key) NO_STRING = Ret (t, False)"
  by (rule get_string_holds) (simp_all add: NO_STRING_def)

lemma get_int_set:
  "length filename < 850 \<Longrightarrow> holds gc (global filename key, Cv_int v) \<Longrightarrow> length key \<le> 50 \<Longrightarrow>
     get_int gc (global filename key) ''0'' = Ret (v, False)"
  by (rule get_int_holds) simp_all

lemma read_pixmap_ok:
  assumes "length filename < 850" "\<forall>(k, v) \<in> set (pixmap_values i e). holds gc (global filename k, v)"
  shows "read_pixmap gc filename i = Ret (Some e)"
proof -
  have "holds gc (global filename (''fingerprint_string'' @ show_nat i), Cv_string (px_string e))"
    "holds gc (global filename (''fingerprint_pixmap'' @ show_nat i), Cv_string (px_pixmap_name e))"
    using assms(2) by (simp_all add: pixmap_values_def)
  from this [THEN get_string_set [OF assms(1)]] show ?thesis
    using show_nat_short [of i] by (simp add: read_pixmap_def)
qed

lemma read_service_ok:
  assumes "length filename < 850" "\<forall>(k, v) \<in> set (service_values i e). holds gc (global filename k, v)"
  shows "read_service gc filename i = Ret (Some e)"
proof -
  have "holds gc (global filename (''service'' @ show_nat i @ ''_name''), Cv_string (sl_name e))"
    "holds gc (global filename (''service'' @ show_nat i @ ''_command''), Cv_string (sl_command e))"
    using assms(2) by (simp_all add: service_values_def)
  note t = this [THEN get_string_set [OF assms(1)]]
  have "holds gc (global filename (''service'' @ show_nat i @ ''_port''), Cv_int (sl_port e))"
    "holds gc (global filename (''service'' @ show_nat i @ ''_protocol''), Cv_int (sl_protocol e))"
    using assms(2) by (simp_all add: service_values_def)
  from this [THEN get_int_set [OF assms(1)]] t show ?thesis
    using show_nat_short [of i] by (simp add: read_service_def)
qed

lemma read_script_ok:
  assumes "length filename < 850" "\<forall>(k, v) \<in> set (script_values i e). holds gc (global filename k, v)"
  shows "read_script gc filename i = Ret (Some e)"
proof -
  have "holds gc (global filename (''script'' @ show_nat i @ ''_name''), Cv_string (sc_name e))"
    "holds gc (global filename (''script'' @ show_nat i @ ''_command''), Cv_string (sc_script e))"
    using assms(2) by (simp_all add: script_values_def)
  note t = this [THEN get_string_set [OF assms(1)]]
  have "holds gc (global filename (''script'' @ show_nat i @ ''_flags''), Cv_int (sint (sc_flags e)))"
    using assms(2) by (simp add: script_values_def)
  from get_int_set [OF assms(1) this] t show ?thesis
    using show_nat_short [of i] by (simp add: read_script_def)
qed

lemma keyed_keys: "keyed key xs \<Longrightarrow> distinct (map key (map snd xs))"
  by (simp add: keyed_def case_prod_unfold comp_def)

text \<open>
  C33. The lists come back: what the client writes of its pixmaps, services and scripts is defined,
  and when the library answers what was set and has nothing behind it, a client that reads the file
  has every entry of them, under its own key and whatever it had there, and keeps of its own lists
  the entries for other keys. In each list an entry has a key of its own, and every service that is
  written has the protocol TCP or UDP of its list, as when it was added: one that was edited holds
  the number of IP, 6 or 17, and comes back under another key (\<^theory_text>\<open>edited_service_key\<close>). The
  memory for the entries that are read is new.
\<close>

theorem lists_roundtrip:
  assumes "length filename < 850" "length pl < n" "length sl < n" "length cl < n"
    "keyed px_string pl" "keyed service_key sl" "keyed sc_name cl" "\<forall>(p, e) \<in> set sl. sl_protocol e \<in> {PROTOCOL_TCP, PROTOCOL_UDP}"
    "keyed px_string pl0" "keyed service_key sl0" "keyed sc_name cl0"
    "inj a" "range a \<inter> (fst ` set pl0 \<union> fst ` set sl0 \<union> fst ` set cl0) = {}"
  shows "\<exists>calls. write_lists filename pl sl cl = Ret calls \<and>
    (\<forall>gc. (\<forall>x \<in> set calls. holds gc x) \<longrightarrow> missing gc (global filename (''fingerprint_string'' @ show_nat (length pl))) \<longrightarrow>
      missing gc (global filename (''service'' @ show_nat (length sl) @ ''_name'')) \<longrightarrow>
      missing gc (global filename (''script'' @ show_nat (length cl) @ ''_name'')) \<longrightarrow>
      (\<exists>pl' sl' cl'. read_lists n gc filename (\<lambda>i. Some (a i)) pl0 sl0 cl0 = Ret (pl', sl', cl') \<and>
        entry_for px_string pl' = entry_for px_string pl0 ++ entry_for px_string pl \<and>
        entry_for service_key sl' = entry_for service_key sl0 ++ entry_for service_key sl \<and>
        entry_for sc_name cl' = entry_for sc_name cl0 ++ entry_for sc_name cl))"
proof -
  let ?kv = "numbered pixmap_values 0 (map snd pl) @ numbered service_values 0 (map snd sl) @ numbered script_values 0 (map snd cl)"
  let ?xs = "map (\<lambda>(key, v). (global filename key, v)) ?kv"
  have w: "write_lists filename pl sl cl = Ret ?xs"
    unfolding write_lists_def using list_paths_fit [OF assms(1)] by (intro set_values_id) force
  have r: "\<exists>pl' sl' cl'. read_lists n gc filename (\<lambda>i. Some (a i)) pl0 sl0 cl0 = Ret (pl', sl', cl') \<and>
        entry_for px_string pl' = entry_for px_string pl0 ++ entry_for px_string pl \<and>
        entry_for service_key sl' = entry_for service_key sl0 ++ entry_for service_key sl \<and>
        entry_for sc_name cl' = entry_for sc_name cl0 ++ entry_for sc_name cl"
    if h: "\<forall>x \<in> set ?xs. holds gc x" and m: "missing gc (global filename (''fingerprint_string'' @ show_nat (length pl)))"
      "missing gc (global filename (''service'' @ show_nat (length sl) @ ''_name''))"
      "missing gc (global filename (''script'' @ show_nat (length cl) @ ''_name''))" for gc
  proof -
    have hold: "\<forall>(k, v) \<in> set ?kv. holds gc (global filename k, v)" using h by auto
    have fresh: "fst ` set pl0 \<inter> a ` {0..} = {}" "fst ` set sl0 \<inter> a ` {0..} = {}" "fst ` set cl0 \<inter> a ` {0..} = {}"
      using assms(13) by auto
    have "read_pixmap gc filename (0 + j) = Ret (Some (map snd pl ! j))" if "j < length (map snd pl)" for j
      using numbered_mem [OF that, of pixmap_values 0] hold by (intro read_pixmap_ok [OF assms(1)]) auto
    moreover have "read_pixmap gc filename (0 + length (map snd pl)) = Ret None"
      using get_string_missing [OF m(1) assms(1)] show_nat_short [of "length pl"] by (auto simp: read_pixmap_def)
    ultimately obtain pl' where 1: "read_list n (read_pixmap gc filename) (\<lambda>q e. os_pixmap_list_add q (px_string e) (px_pixmap_name e))
        (\<lambda>i. Some (a i)) 0 pl0 = Ret pl'"
      "entry_for px_string pl' = fold (\<lambda>e m. m(px_string e \<mapsto> e)) (map snd pl) (entry_for px_string pl0)"
      using saved_pixmaps.read_all [of "map snd pl" "read_pixmap gc filename" 0 n pl0 a] assms(2,9,12) fresh(1) by auto
    have good: "\<forall>e \<in> set (map snd sl). old_protocol (sl_protocol e) = sl_protocol e"
      using assms(8) by (auto simp: old_protocol_def PROTOCOL_TCP_def PROTOCOL_UDP_def)
    have "read_service gc filename (0 + j) = Ret (Some (map snd sl ! j))" if "j < length (map snd sl)" for j
      using numbered_mem [OF that, of service_values 0] hold by (intro read_service_ok [OF assms(1)]) auto
    moreover have "read_service gc filename (0 + length (map snd sl)) = Ret None"
      using get_string_missing [OF m(2) assms(1)] show_nat_short [of "length sl"] by (auto simp: read_service_def)
    ultimately obtain sl' where 2: "read_list n (read_service gc filename)
        (\<lambda>q e. service_list_add q (sl_name e) (sl_port e) (sl_protocol e) (sl_command e)) (\<lambda>i. Some (a i)) 0 sl0 = Ret sl'"
      "entry_for service_key sl' = fold (\<lambda>e m. m(service_key e \<mapsto> e)) (map snd sl) (entry_for service_key sl0)"
      using saved_services.read_all [of "map snd sl" "read_service gc filename" 0 n sl0 a] good assms(3,10,12) fresh(2) by auto
    have "read_script gc filename (0 + j) = Ret (Some (map snd cl ! j))" if "j < length (map snd cl)" for j
      using numbered_mem [OF that, of script_values 0] hold by (intro read_script_ok [OF assms(1)]) auto
    moreover have "read_script gc filename (0 + length (map snd cl)) = Ret None"
      using get_string_missing [OF m(3) assms(1)] show_nat_short [of "length cl"] by (auto simp: read_script_def)
    ultimately obtain cl' where 3: "read_list n (read_script gc filename) (\<lambda>q e. script_add q (sc_name e) (sc_script e) (sc_flags e))
        (\<lambda>i. Some (a i)) 0 cl0 = Ret cl'"
      "entry_for sc_name cl' = fold (\<lambda>e m. m(sc_name e \<mapsto> e)) (map snd cl) (entry_for sc_name cl0)"
      using saved_scripts.read_all [of "map snd cl" "read_script gc filename" 0 n cl0 a] assms(4,11,12) fresh(3) by auto
    have "read_lists n gc filename (\<lambda>i. Some (a i)) pl0 sl0 cl0 = Ret (pl', sl', cl')"
      by (simp add: read_lists_def 1(1) 2(1) 3(1))
    moreover note 1(2) [unfolded map_add_fold [OF keyed_keys [OF assms(5)]] entry_for_map_of [symmetric]]
      2(2) [unfolded map_add_fold [OF keyed_keys [OF assms(6)]] entry_for_map_of [symmetric]]
      3(2) [unfolded map_add_fold [OF keyed_keys [OF assms(7)]] entry_for_map_of [symmetric]]
    ultimately show ?thesis by blast
  qed
  show ?thesis using w r by blast
qed

text \<open>A service that the user deleted is in the list again when the client is started anew.\<close>

lemma deleted_default_returns:
  assumes "entry_for service_key sl0 k = Some e" "entry_for service_key sl k = None"
  shows "(entry_for service_key sl0 ++ entry_for service_key sl) k = Some e"
  using assms by (simp add: map_add_def)

text \<open>Reading puts each pixmap in front of the others: of two that match, the other is found.\<close>

lemma pixmap_order_turned:
  "\<exists>pl. pixmap_add_all [(Some 1, ''Cisco'', ''cisco.xpm''), (Some 2, ''IOS'', ''ios.xpm'')] [] = Ret pl \<and>
     os_pixmap_list_get x [] ''Cisco IOS'' pl = Ret (''ios.xpm'', pl) \<and>
     os_pixmap_list_get x [] ''Cisco IOS'' (rev pl) = Ret (''cisco.xpm'', rev pl)"
  by (simp add: os_pixmap_list_add_def klook_def os_pixmap_list_get_def)

definition sample_scripts :: scripts where
  "sample_scripts = [(1, \<lparr>sc_name = ''ping'', sc_script = ''ping -c 3 %i'', sc_flags = SCRIPT_FLAGS_VIEWABLE\<rparr>)]"

lemma lists_roundtrip_witness:
  "\<exists>calls pl' sl' cl'. write_lists ''/root/.cheops'' [] [] sample_scripts = Ret calls \<and>
     read_lists 2 (gnome_of calls) ''/root/.cheops'' (\<lambda>i. Some (7 + i)) [] []
       [(3, \<lparr>sc_name = ''ping'', sc_script = ''ping %i'', sc_flags = 0\<rparr>)] = Ret (pl', sl', cl') \<and>
     entry_for sc_name cl' ''ping'' = Some \<lparr>sc_name = ''ping'', sc_script = ''ping -c 3 %i'', sc_flags = SCRIPT_FLAGS_VIEWABLE\<rparr>"
proof -
  let ?f = "''/root/.cheops''"
  let ?old = "[(3, \<lparr>sc_name = ''ping'', sc_script = ''ping %i'', sc_flags = 0\<rparr>)]"
  have k: "keyed px_string []" "keyed service_key []" "keyed sc_name sample_scripts" "keyed sc_name ?old"
    by (simp_all add: keyed_def sample_scripts_def)
  have l: "length ?f < 850" "length ([] :: pixmap_list) < 2" "length ([] :: service_list) < 2" "length sample_scripts < 2"
    "\<forall>(p, e) \<in> set ([] :: service_list). sl_protocol e \<in> {PROTOCOL_TCP, PROTOCOL_UDP}"
    by (simp_all add: sample_scripts_def)
  have a: "inj (\<lambda>i. 7 + i :: nat)" "range (\<lambda>i. 7 + i :: nat) \<inter> (fst ` set ([] :: pixmap_list) \<union> fst ` set ([] :: service_list) \<union> fst ` set ?old) = {}"
    by (auto simp: inj_def)
  note r = lists_roundtrip [OF l(1-4) k(1-3) l(5) k(1,2,4) a]
  then obtain calls where calls: "write_lists ?f [] [] sample_scripts = Ret calls"
    "\<forall>gc. (\<forall>x \<in> set calls. holds gc x) \<longrightarrow> missing gc (global ?f (''fingerprint_string'' @ show_nat (length ([] :: pixmap_list)))) \<longrightarrow>
      missing gc (global ?f (''service'' @ show_nat (length ([] :: service_list)) @ ''_name'')) \<longrightarrow>
      missing gc (global ?f (''script'' @ show_nat (length sample_scripts) @ ''_name'')) \<longrightarrow>
      (\<exists>pl' sl' cl'. read_lists 2 gc ?f (\<lambda>i. Some (7 + i)) [] [] ?old = Ret (pl', sl', cl') \<and>
        entry_for px_string pl' = entry_for px_string [] ++ entry_for px_string [] \<and>
        entry_for service_key sl' = entry_for service_key [] ++ entry_for service_key [] \<and>
        entry_for sc_name cl' = entry_for sc_name ?old ++ entry_for sc_name sample_scripts)" by (elim exE conjE)
  have c: "calls = [(global ?f ''script0_name'', Cv_string ''ping''), (global ?f ''script0_command'', Cv_string ''ping -c 3 %i''),
      (global ?f ''script0_flags'', Cv_int (sint SCRIPT_FLAGS_VIEWABLE))]"
    using calls(1) by (simp add: write_lists_def sample_scripts_def script_values_def show_small global_def
        sprintf_in_def CONFIG_BUFFER_SIZE_def)
  have h: "\<forall>x \<in> set calls. holds (gnome_of calls) x" by (intro ballI gnome_of_holds) (simp_all add: c global_def)
  have m: "missing (gnome_of calls) (global ?f (''fingerprint_string'' @ show_nat (length ([] :: pixmap_list))))"
    "missing (gnome_of calls) (global ?f (''service'' @ show_nat (length ([] :: service_list)) @ ''_name''))"
    "missing (gnome_of calls) (global ?f (''script'' @ show_nat (length sample_scripts) @ ''_name''))"
    by (simp_all add: missing_def gnome_of_def c global_def show_small sample_scripts_def)
  obtain pl' sl' cl' where rl: "read_lists 2 (gnome_of calls) ?f (\<lambda>i. Some (7 + i)) [] [] ?old = Ret (pl', sl', cl')"
    "entry_for sc_name cl' = entry_for sc_name ?old ++ entry_for sc_name sample_scripts"
    using calls(2) [THEN spec, THEN mp, OF h, THEN mp, OF m(1), THEN mp, OF m(2), THEN mp, OF m(3)] by (elim exE conjE)
  have "entry_for sc_name sample_scripts ''ping'' = Some \<lparr>sc_name = ''ping'', sc_script = ''ping -c 3 %i'', sc_flags = SCRIPT_FLAGS_VIEWABLE\<rparr>"
    by (simp add: entry_for_def klook_def sample_scripts_def)
  then have "entry_for sc_name cl' ''ping'' = Some \<lparr>sc_name = ''ping'', sc_script = ''ping -c 3 %i'', sc_flags = SCRIPT_FLAGS_VIEWABLE\<rparr>"
    by (simp only: rl(2) map_add_find_right)
  then show ?thesis using calls(1) rl(1) by (intro exI conjI)
qed

text \<open>A service that was edited is added under another key when it is read.\<close>

lemma edited_service_key:
  "service_list_add (Some q) name port 6 string [] =
     Ret (q, [(q, \<lparr>sl_name = name, sl_port = port, sl_protocol = PROTOCOL_TCP, sl_command = string\<rparr>)])"
  by (simp add: service_list_add_def old_protocol_def klook_def Let_def)

end
