(* ===== verification/Config_Hosts.thy ===== *)
theory Config_Hosts
  imports Config_Lists
begin

text \<open>
  The hosts of a page in the configuration file, \<^verbatim>\<open>gui-config.c\<close>: what is written for each, with its
  ports and its notes, what is read for it, and how it is put on its page.
  \<open>behind\<close> is what is in memory behind a text of notes, see \<^theory_text>\<open>Config_Notes\<close>.
\<close>

section \<open>Hosts\<close>

record host_port =
  hp_port :: int
  hp_protocol :: int
  hp_state :: u32
  hp_proto :: u32
  hp_rpcnum :: u32
  hp_rpclowver :: u32
  hp_rpchighver :: u32
  hp_name :: "cstring option"
  hp_version :: "cstring option"
  hp_owner :: "cstring option"

record saved_host =
  sh_ip :: u32
  sh_name :: "cstring option"
  sh_x :: u32
  sh_y :: u32
  sh_icon_file_name :: "cstring option"
  sh_os_data :: "(cstring option \<times> host_port list) option"
  sh_notes :: "cstring option"

section \<open>Writing\<close>

definition set_if :: "cstring \<Rightarrow> cstring option \<Rightarrow> (cstring \<times> config_value) list" where
  "set_if key v = (case v of None \<Rightarrow> [] | Some s \<Rightarrow> [(key, Cv_string s)])"

definition port_values :: "nat \<Rightarrow> host_port \<Rightarrow> (cstring \<times> config_value) list" where
  "port_values i p =
     (let k = ''_port_'' @ show_nat i in
      [(k @ ''_port'', Cv_int (hp_port p)), (k @ ''_protocol'', Cv_int (hp_protocol p)),
       (k @ ''_state'', Cv_int (sint (hp_state p))), (k @ ''_proto'', Cv_int (sint (hp_proto p))),
       (k @ ''_rpcnum'', Cv_int (sint (hp_rpcnum p))), (k @ ''_rpclowver'', Cv_int (sint (hp_rpclowver p))),
       (k @ ''_rpchighver'', Cv_int (sint (hp_rpchighver p)))] @
      set_if (k @ ''_name'') (hp_name p) @ set_if (k @ ''_version'') (hp_version p) @ set_if (k @ ''_owner'') (hp_owner p))"

text \<open>The ports are written only with the name of an operating system.\<close>

definition os_values :: "(cstring option \<times> host_port list) option \<Rightarrow> (cstring \<times> config_value) list" where
  "os_values os =
     (case os of
        Some (Some name, ports) \<Rightarrow> (''_os_name'', Cv_string name) # numbered port_values 0 ports
      | _ \<Rightarrow> [])"

definition host_values :: "saved_host \<Rightarrow> cstring option \<Rightarrow> (cstring \<times> config_value) list" where
  "host_values h notes =
     [(''_ip'', Cv_string (ip2str (sh_ip h))),
      (''_name'', case sh_name h of Some n \<Rightarrow> Cv_string n | None \<Rightarrow> Cv_null),
      (''_x'', Cv_float (sh_x h)), (''_y'', Cv_float (sh_y h))] @
     set_if ''_icon_file_name'' (sh_icon_file_name h) @ os_values (sh_os_data h) @ set_if ''_notes'' notes"

definition write_host :: "cstring \<Rightarrow> saved_host \<Rightarrow> (cstring \<times> config_value) list outcome" where
  "write_host base h =
     obind (case sh_notes h of
              None \<Rightarrow> Ret None
            | Some n \<Rightarrow> obind (page_object_convert_notes n) (\<lambda>s. Ret (Some s))) (\<lambda>notes.
       set_values (map (\<lambda>(key, v). (base @ key, v)) (host_values h notes)))"

definition page_base :: "cstring \<Rightarrow> nat \<Rightarrow> cstring" where
  "page_base filename i = ''='' @ filename @ ''=/viewspace'' @ show_nat i @ ''/page_object_''"

fun write_hosts :: "cstring \<Rightarrow> nat \<Rightarrow> saved_host list \<Rightarrow> (cstring \<times> config_value) list outcome" where
  "write_hosts base j [] = Ret []"
| "write_hosts base j (h # hs) =
     obind (write_host (base @ show_nat j) h) (\<lambda>c. obind (write_hosts base (Suc j) hs) (\<lambda>cs. Ret (c @ cs)))"

section \<open>Reading\<close>

definition get_if :: "gnome_config \<Rightarrow> cstring \<Rightarrow> cstring \<Rightarrow> cstring option outcome" where
  "get_if gc path d = obind (get_string gc path d) (\<lambda>(s, def). Ret (if def then None else Some s))"

text \<open>Without a protocol of the application the state is overwritten.\<close>

definition read_port :: "gnome_config \<Rightarrow> cstring \<Rightarrow> nat \<Rightarrow> host_port option outcome" where
  "read_port gc base i =
     (let k = base @ ''_port_'' @ show_nat i in
      obind (get_int gc (k @ ''_port'') ''0'') (\<lambda>(port, def). if def then Ret None else
      obind (get_int gc (k @ ''_protocol'') ''0'') (\<lambda>(protocol, def). if def then Ret None else
      obind (get_int gc (k @ ''_state'') ''1'') (\<lambda>(state, _).
      obind (get_int gc (k @ ''_proto'') ''0'') (\<lambda>(proto, def).
      obind (get_int gc (k @ ''_rpcnum'') ''0'') (\<lambda>(rpcnum, _).
      obind (get_int gc (k @ ''_rpclowver'') ''0'') (\<lambda>(rpclowver, _).
      obind (get_int gc (k @ ''_rpchighver'') ''0'') (\<lambda>(rpchighver, _).
      obind (get_if gc (k @ ''_name'') ''BLAH'') (\<lambda>name.
      obind (get_if gc (k @ ''_version'') ''BLAH'') (\<lambda>version.
      obind (get_if gc (k @ ''_owner'') ''BLAH'') (\<lambda>owner.
        Ret (Some \<lparr>hp_port = port, hp_protocol = protocol,
          hp_state = (if def then PORT_PROTO_NONE else word_of_int state), hp_proto = word_of_int proto,
          hp_rpcnum = word_of_int rpcnum, hp_rpclowver = word_of_int rpclowver, hp_rpchighver = word_of_int rpchighver,
          hp_name = name, hp_version = version, hp_owner = owner\<rparr>))))))))))))"

text \<open>A loop over what is there, up to the first number that is not.\<close>

fun read_while :: "nat \<Rightarrow> (nat \<Rightarrow> 'e option outcome) \<Rightarrow> nat \<Rightarrow> 'e list outcome" where
  "read_while 0 entry i = NoFuel"
| "read_while (Suc n) entry i =
     obind (entry i) (\<lambda>r.
       case r of None \<Rightarrow> Ret [] | Some e \<Rightarrow> obind (read_while n entry (Suc i)) (\<lambda>es. Ret (e # es)))"

text \<open>The data of the operating system: there when its name is or a port is.\<close>

definition read_os_data :: "nat \<Rightarrow> gnome_config \<Rightarrow> cstring \<Rightarrow> (cstring option \<times> host_port list) option outcome" where
  "read_os_data n gc base =
     obind (get_if gc (base @ ''_os_name'') ''BLAH'') (\<lambda>os.
     obind (read_while n (read_port gc base) 0) (\<lambda>ports.
       Ret (if os = None \<and> ports = [] then None else Some (os, ports))))"

definition read_host :: "nat \<Rightarrow> char list \<Rightarrow> gnome_config \<Rightarrow> cstring \<Rightarrow> saved_host option outcome" where
  "read_host n behind gc base =
     obind (get_string gc (base @ ''_ip'') ''NOTHING'') (\<lambda>(po_ip, def). if def \<or> po_ip = [] then Ret None else
     obind (get_string gc (base @ ''_name'') ''NOTHING'') (\<lambda>(po_name, def).
     let po_name = (if def \<or> po_name = [] then None else Some po_name) in
     obind (get_if gc (base @ ''_notes'') ''NOTHING'') (\<lambda>notes.
     obind (case notes of
              None \<Rightarrow> Ret None
            | Some s \<Rightarrow> obind (config_convert_notes s behind) (\<lambda>t. Ret (Some t))) (\<lambda>notes.
     obind (get_float gc (base @ ''_x'') ''0.0'') (\<lambda>(x, _).
     obind (get_float gc (base @ ''_y'') ''0.0'') (\<lambda>(y, _).
     obind (get_if gc (base @ ''_icon_file_name'') ''BLAH'') (\<lambda>icon_file_name.
     obind (read_os_data n gc base) (\<lambda>os_data.
     obind (case inet_aton po_ip of None \<Rightarrow> UB | Some ip \<Rightarrow> Ret ip) (\<lambda>ip.
       Ret (Some \<lparr>sh_ip = ip, sh_name = po_name, sh_x = x, sh_y = y, sh_icon_file_name = icon_file_name,
         sh_os_data = os_data, sh_notes = notes\<rparr>))))))))))"

text \<open>
  What \<^verbatim>\<open>page_object_display\<close> does to an object that is not merged, as far as it is saved: the name is
  dropped when it is the text of the address, an operating system chooses the icon, and the image of
  the icon is looked up, for which there has to be an icon.
\<close>

definition load_image :: "pixmap_env \<Rightarrow> cstring option \<Rightarrow> cstring outcome" where
  "load_image x icon =
     (case icon of None \<Rightarrow> UB | Some f \<Rightarrow> get_my_image_path (xe_exists x) (xe_home x) (xe_paths x) f)"

definition display_saved ::
  "pixmap_env \<Rightarrow> nat option list \<Rightarrow> saved_host \<Rightarrow> pixmap_list \<Rightarrow> (saved_host \<times> pixmap_list) outcome" where
  "display_saved x qs h pl =
     obind (case sh_os_data h of
              Some (Some s, _) \<Rightarrow> obind (os_pixmap_list_get x qs s pl) (\<lambda>(icon, pl). Ret (Some icon, pl))
            | _ \<Rightarrow> Ret (sh_icon_file_name h, pl)) (\<lambda>(icon, pl).
     obind (load_image x icon) (\<lambda>_.
       Ret (h\<lparr>sh_name := display_name (sh_ip h) (sh_name h), sh_icon_file_name := icon\<rparr>, pl)))"

text \<open>
  \<^verbatim>\<open>add_discovered_node\<close> puts what was read of a host on the page: a new host goes in front of the
  others, and is displayed there, and a host with an address that is on the page already becomes that
  one. Its data are then those that were read, and it is displayed twice. The requests that
  \<^verbatim>\<open>add_discovered_node\<close> sends are in \<^theory_text>\<open>Gui_Replies\<close>, and so is its work on the pages of the canvas.
\<close>

definition new_saved :: "saved_host \<Rightarrow> saved_host" where
  "new_saved h = \<lparr>sh_ip = sh_ip h, sh_name = Some (case sh_name h of Some n \<Rightarrow> n | None \<Rightarrow> ip2str (sh_ip h)),
     sh_x = 0, sh_y = 0, sh_icon_file_name = Some ''unknown.xpm'', sh_os_data = None, sh_notes = None\<rparr>"

definition place_host ::
  "pixmap_env \<Rightarrow> nat option list \<Rightarrow> saved_host \<Rightarrow> saved_host list \<times> pixmap_list \<Rightarrow> (saved_host list \<times> pixmap_list) outcome" where
  "place_host x qs h = (\<lambda>(page, pl).
     obind (case find (\<lambda>p. sh_ip p = sh_ip h) page of
              Some p \<Rightarrow> Ret (page, p\<lparr>sh_name := (case sh_name h of None \<Rightarrow> sh_name p | Some n \<Rightarrow> Some n)\<rparr>, pl)
            | None \<Rightarrow> obind (display_saved x qs (new_saved h) pl) (\<lambda>(p, pl). Ret (p # page, p, pl))) (\<lambda>(page, p, pl).
     let h = h\<lparr>sh_name := sh_name p, sh_os_data := (case sh_os_data h of None \<Rightarrow> sh_os_data p | Some d \<Rightarrow> Some d)\<rparr> in
     obind (display_saved x qs h pl) (\<lambda>(h, pl).
     obind (display_saved x qs h pl) (\<lambda>(h, pl).
       Ret (update_first (\<lambda>p. sh_ip p = sh_ip h) (\<lambda>_. h) page, pl)))))"

text \<open>\<open>m\<close> is enough for the ports of a host.\<close>

fun read_hosts ::
  "nat \<Rightarrow> nat \<Rightarrow> char list \<Rightarrow> gnome_config \<Rightarrow> cstring \<Rightarrow> pixmap_env \<Rightarrow> nat option list \<Rightarrow> nat
     \<Rightarrow> saved_host list \<times> pixmap_list \<Rightarrow> (saved_host list \<times> pixmap_list) outcome" where
  "read_hosts 0 m behind gc base x qs j st = NoFuel"
| "read_hosts (Suc n) m behind gc base x qs j st =
     obind (read_host m behind gc (base @ show_nat j)) (\<lambda>r.
       case r of
         None \<Rightarrow> Ret st
       | Some h \<Rightarrow> obind (place_host x qs h st) (\<lambda>st. read_hosts n m behind gc base x qs (Suc j) st))"

section \<open>The hosts come back\<close>

text \<open>A path for which nothing was set.\<close>

definition absent :: "gnome_config \<Rightarrow> cstring \<Rightarrow> bool" where
  "absent gc path \<longleftrightarrow> (\<forall>d. snd (gc_string gc path d) \<and> snd (gc_int gc path d))"

definition set_or_absent :: "gnome_config \<Rightarrow> cstring \<Rightarrow> cstring option \<Rightarrow> bool" where
  "set_or_absent gc path v = (case v of None \<Rightarrow> absent gc path | Some t \<Rightarrow> holds gc (path, Cv_string t))"

lemma path_fits: "length base < 960 \<Longrightarrow> length k \<le> 40 \<Longrightarrow> length d \<le> 10 \<Longrightarrow> length ((base @ k) @ ''='' @ d) < CONFIG_BUFFER_SIZE"
  by (simp add: CONFIG_BUFFER_SIZE_def)

lemma get_there:
  assumes "length base < 960" "length k \<le> 40" "length d \<le> 10"
  shows "holds gc (base @ k, Cv_string t) \<Longrightarrow> get_string gc (base @ k) d = Ret (t, False)"
    "holds gc (base @ k, Cv_int v) \<Longrightarrow> get_int gc (base @ k) d = Ret (v, False)"
    "holds gc (base @ k, Cv_float f) \<Longrightarrow> get_float gc (base @ k) d = Ret (f, False)"
    "set_or_absent gc (base @ k) u \<Longrightarrow> get_if gc (base @ k) d = Ret u"
    "absent gc (base @ k) \<Longrightarrow> \<exists>s. get_string gc (base @ k) d = Ret (s, True)"
    "absent gc (base @ k) \<Longrightarrow> \<exists>v. get_int gc (base @ k) d = Ret (v, True)"
proof -
  note f = path_fits [OF assms]
  show s: "holds gc (base @ k, Cv_string t) \<Longrightarrow> get_string gc (base @ k) d = Ret (t, False)" for t
    using f by (simp add: get_string_def sprintf_in_def holds_def)
  show "holds gc (base @ k, Cv_int v) \<Longrightarrow> get_int gc (base @ k) d = Ret (v, False)"
    using f by (simp add: get_int_def sprintf_in_def holds_def)
  show "holds gc (base @ k, Cv_float f) \<Longrightarrow> get_float gc (base @ k) d = Ret (f, False)" for f
    using f by (simp add: get_float_def sprintf_in_def holds_def)
  show m: "absent gc (base @ k) \<Longrightarrow> \<exists>s. get_string gc (base @ k) d = Ret (s, True)"
    using f by (cases "gc_string gc (base @ k) d") (auto simp: get_string_def sprintf_in_def absent_def dest: spec [of _ d])
  show "absent gc (base @ k) \<Longrightarrow> \<exists>v. get_int gc (base @ k) d = Ret (v, True)"
    using f by (cases "gc_int gc (base @ k) d") (auto simp: get_int_def sprintf_in_def absent_def dest: spec [of _ d])
  show "set_or_absent gc (base @ k) u \<Longrightarrow> get_if gc (base @ k) d = Ret u"
    using s m by (cases u) (auto simp: set_or_absent_def get_if_def)
qed

text \<open>A port is there, at its number.\<close>

definition port_there :: "gnome_config \<Rightarrow> cstring \<Rightarrow> nat \<Rightarrow> host_port \<Rightarrow> bool" where
  "port_there gc base i p \<longleftrightarrow> (\<forall>(k, v) \<in> set (port_values i p). holds gc (base @ k, v)) \<and>
     (\<forall>(k, v) \<in> {(''_name'', hp_name p), (''_version'', hp_version p), (''_owner'', hp_owner p)}.
        v = None \<longrightarrow> absent gc (base @ ''_port_'' @ show_nat i @ k))"

lemma read_port_ok:
  assumes "length base < 960" "port_there gc base i p"
  shows "read_port gc base i = Ret (Some p)"
proof -
  let ?k = "''_port_'' @ show_nat i"
  have l: "length k \<le> 11 \<Longrightarrow> length (?k @ k) \<le> 40" for k using show_nat_short [of i] by simp
  note there = get_there [OF assms(1) l]
  have h: "\<forall>(k, v) \<in> set (port_values i p). holds gc (base @ k, v)" using assms(2) by (simp add: port_there_def)
  have n: "holds gc (base @ ?k @ ''_port'', Cv_int (hp_port p))" "holds gc (base @ ?k @ ''_protocol'', Cv_int (hp_protocol p))"
    "holds gc (base @ ?k @ ''_state'', Cv_int (sint (hp_state p)))" "holds gc (base @ ?k @ ''_proto'', Cv_int (sint (hp_proto p)))"
    "holds gc (base @ ?k @ ''_rpcnum'', Cv_int (sint (hp_rpcnum p)))" "holds gc (base @ ?k @ ''_rpclowver'', Cv_int (sint (hp_rpclowver p)))"
    "holds gc (base @ ?k @ ''_rpchighver'', Cv_int (sint (hp_rpchighver p)))"
    using h by (simp_all add: port_values_def Let_def)
  have t: "set_or_absent gc (base @ ?k @ ''_name'') (hp_name p)" "set_or_absent gc (base @ ?k @ ''_version'') (hp_version p)"
    "set_or_absent gc (base @ ?k @ ''_owner'') (hp_owner p)"
    using assms(2) by (auto simp: port_there_def port_values_def Let_def set_or_absent_def set_if_def split: option.splits)
  note i = n [THEN there(2) [rotated 2]]
  note s = t [THEN there(4) [rotated 2]]
  show ?thesis by (simp add: read_port_def Let_def i [simplified] s [simplified])
qed

lemma read_while_ok:
  assumes "\<And>j. j < length es \<Longrightarrow> entry (i + j) = Ret (Some (es ! j))" "entry (i + length es) = Ret None" "length es < n"
  shows "read_while n entry i = Ret es"
  using assms
proof (induction es arbitrary: n i)
  case Nil
  then show ?case by (cases n) auto
next
  case (Cons e es)
  obtain m where n: "n = Suc m" using Cons.prems(3) by (cases n) auto
  have "entry (Suc i + j) = Ret (Some (es ! j))" if "j < length es" for j using Cons.prems(1) [of "Suc j"] that by simp
  from Cons.IH [OF this, of m] Cons.prems(1) [of 0] Cons.prems(2,3) n show ?case by simp
qed

text \<open>What the file does not have of a host: the optional texts that the host has not, and a port behind the last.\<close>

definition ports_end :: "gnome_config \<Rightarrow> cstring \<Rightarrow> host_port list \<Rightarrow> bool" where
  "ports_end gc base ports \<longleftrightarrow>
     (\<forall>i < length ports. \<forall>(k, v) \<in> {(''_name'', hp_name (ports ! i)), (''_version'', hp_version (ports ! i)), (''_owner'', hp_owner (ports ! i))}.
        v = None \<longrightarrow> absent gc (base @ ''_port_'' @ show_nat i @ k)) \<and>
     absent gc (base @ ''_port_'' @ show_nat (length ports) @ ''_port'')"

definition nothing_else :: "gnome_config \<Rightarrow> cstring \<Rightarrow> saved_host \<Rightarrow> bool" where
  "nothing_else gc base h \<longleftrightarrow>
     (sh_icon_file_name h = None \<longrightarrow> absent gc (base @ ''_icon_file_name'')) \<and>
     (sh_notes h = None \<longrightarrow> absent gc (base @ ''_notes'')) \<and>
     (case sh_os_data h of
        None \<Rightarrow> absent gc (base @ ''_os_name'') \<and> ports_end gc base []
      | Some (name, ports) \<Rightarrow> ports_end gc base ports)"

text \<open>
  A host that can come back: it has a name, its ports have the name of an operating system beside
  them, and its notes are such that reading them is defined and does not find a code in them.
\<close>

definition host_ok :: "char list \<Rightarrow> saved_host \<Rightarrow> bool" where
  "host_ok behind h \<longleftrightarrow>
     sh_name h \<noteq> None \<and> sh_name h \<noteq> Some [] \<and> (\<forall>ports. sh_os_data h \<noteq> Some (None, ports)) \<and>
     (\<forall>notes. sh_notes h = Some notes \<longrightarrow> NUL \<notin> set notes \<and> \<not> has_text notes line_code \<and>
        2 * length (filter (\<lambda>c. c = LINE_END) notes) \<le> length behind)"

text \<open>
  Displaying leaves the host as it is: its name is not the text of its address, the path of its icon
  fits into the buffer of 256 bytes, and where an operating system is known, the icon is the one that
  the list of pixmaps has for it. This is so after a host has been displayed.
\<close>

definition displayed_as_is :: "pixmap_env \<Rightarrow> nat option list \<Rightarrow> pixmap_list \<Rightarrow> saved_host \<Rightarrow> bool" where
  "displayed_as_is x qs pl h \<longleftrightarrow>
     display_name (sh_ip h) (sh_name h) = sh_name h \<and>
     (case sh_icon_file_name h of
        None \<Rightarrow> False
      | Some f \<Rightarrow> (\<exists>buf. load_image x (Some f) = Ret buf) \<and>
          (case sh_os_data h of Some (Some s, ports) \<Rightarrow> os_pixmap_list_get x qs s pl = Ret (f, pl) | _ \<Rightarrow> True))"

lemma display_saved_same: "displayed_as_is x qs pl h \<Longrightarrow> display_saved x qs h pl = Ret (h, pl)"
  by (cases h) (auto simp: displayed_as_is_def display_saved_def split: option.splits prod.splits)

definition default_icon_fits :: "pixmap_env \<Rightarrow> bool" where
  "default_icon_fits x \<longleftrightarrow> (\<exists>buf. load_image x (Some ''unknown.xpm'') = Ret buf)"

lemma find_new: "sh_ip h \<notin> sh_ip ` set page \<Longrightarrow> find (\<lambda>p. sh_ip p = sh_ip h) page = None"
  by (induction page) auto

lemma place_host_ok:
  assumes "host_ok behind h" "displayed_as_is x qs pl h" "default_icon_fits x" "sh_ip h \<notin> sh_ip ` set page"
  shows "place_host x qs h (page, pl) = Ret (h # page, pl)"
proof -
  obtain name where name: "sh_name h = Some name" using assms(1) by (cases "sh_name h") (auto simp: host_ok_def)
  have d: "display_saved x qs h pl = Ret (h, pl)" using assms(2) by (rule display_saved_same)
  have "display_name (sh_ip h) (sh_name h) = sh_name h" using assms(2) by (simp add: displayed_as_is_def)
  then have n: "display_name (sh_ip h) (Some name) = Some name" by (simp add: name)
  have "find (\<lambda>p. sh_ip p = sh_ip h) page = None" using assms(4) by (rule find_new)
  moreover obtain buf where "load_image x (Some ''unknown.xpm'') = Ret buf" using assms(3) by (auto simp: default_icon_fits_def)
  then have "display_saved x qs (new_saved h) pl = Ret (new_saved h, pl)"
    by (simp add: display_saved_def new_saved_def name n)
  moreover have "h\<lparr>sh_name := sh_name (new_saved h), sh_os_data := (case sh_os_data h of None \<Rightarrow> sh_os_data (new_saved h) | Some d \<Rightarrow> Some d)\<rparr> = h"
    by (cases h) (use name in \<open>auto simp: new_saved_def split: option.splits\<close>)
  ultimately show ?thesis using d by (simp add: place_host_def Let_def) (simp add: new_saved_def)
qed

text \<open>The hosts end up on the page in the order in which they are put there, the last one in front.\<close>

lemma read_hosts_ok:
  assumes "\<And>j. j < length hs \<Longrightarrow> read_host m behind gc (base @ show_nat (i + j)) = Ret (Some (hs ! j))"
    "read_host m behind gc (base @ show_nat (i + length hs)) = Ret None" "length hs < n"
    "\<forall>h \<in> set hs. host_ok behind h \<and> displayed_as_is x qs pl h" "default_icon_fits x"
    "distinct (map sh_ip hs)" "sh_ip ` set hs \<inter> sh_ip ` set page = {}"
  shows "read_hosts n m behind gc base x qs i (page, pl) = Ret (rev hs @ page, pl)"
  using assms
proof (induction hs arbitrary: n i page)
  case Nil
  then show ?case by (cases n) auto
next
  case (Cons h hs)
  obtain k where n: "n = Suc k" using Cons.prems(3) by (cases n) auto
  have "read_host m behind gc (base @ show_nat (Suc i + j)) = Ret (Some (hs ! j))" if "j < length hs" for j
    using Cons.prems(1) [of "Suc j"] that by simp
  from Cons.IH [OF this, of k "h # page"] have "read_hosts k m behind gc base x qs (Suc i) (h # page, pl) = Ret (rev hs @ h # page, pl)"
    using Cons.prems(2-7) n by auto
  moreover have "place_host x qs h (page, pl) = Ret (h # page, pl)"
    using Cons.prems(4,5,7) by (intro place_host_ok) auto
  ultimately show ?case using Cons.prems(1) [of 0] n by simp
qed

lemma read_os_data_ok:
  assumes "length base < 960" "\<forall>(k, v) \<in> set (os_values os). holds gc (base @ k, v)" "\<forall>ports. os \<noteq> Some (None, ports)"
    "case os of None \<Rightarrow> absent gc (base @ ''_os_name'') \<and> ports_end gc base [] | Some (name, ports) \<Rightarrow> ports_end gc base ports \<and> length ports < n" "0 < n"
  shows "read_os_data n gc base = Ret os"
proof -
  have stop: "read_port gc base i = Ret None" if "absent gc (base @ ''_port_'' @ show_nat i @ ''_port'')" for i
    using get_there(6) [OF assms(1) _ _ that, of "''0''"] show_nat_short [of i] by (auto simp: read_port_def Let_def)
  show ?thesis
  proof (cases os)
    case None
    then have "get_if gc (base @ ''_os_name'') ''BLAH'' = Ret None"
      using get_there(4) [OF assms(1), of "''_os_name''" "''BLAH''" gc None] assms(4) by (simp add: set_or_absent_def)
    moreover have "read_while n (read_port gc base) 0 = Ret []"
      using stop [of 0] assms(4,5) None by (intro read_while_ok) (auto simp: ports_end_def)
    ultimately show ?thesis by (simp add: read_os_data_def None)
  next
    case (Some x)
    then obtain name ports where os: "os = Some (Some name, ports)" using assms(3) by (cases x; cases "fst x") auto
    have "get_if gc (base @ ''_os_name'') ''BLAH'' = Ret (Some name)"
      using get_there(4) [OF assms(1), of "''_os_name''" "''BLAH''" gc "Some name"] assms(2) by (simp add: set_or_absent_def os os_values_def)
    moreover have "read_port gc base (0 + i) = Ret (Some (ports ! i))" if "i < length ports" for i
      using that numbered_mem [OF that, of port_values 0] assms(2,4)
      by (intro read_port_ok [OF assms(1)]) (auto simp: port_there_def ports_end_def os os_values_def)
    then have "read_while n (read_port gc base) 0 = Ret ports"
      using stop [of "length ports"] assms(4) by (intro read_while_ok) (auto simp: os ports_end_def)
    ultimately show ?thesis by (simp add: read_os_data_def os)
  qed
qed

definition ports_fit :: "nat \<Rightarrow> saved_host \<Rightarrow> bool" where
  "ports_fit n h \<longleftrightarrow> 0 < n \<and> (\<forall>name ports. sh_os_data h = Some (name, ports) \<longrightarrow> length ports < n)"

lemma read_host_ok:
  assumes "length base < 960" "\<forall>(k, v) \<in> set (host_values h (map_option coded (sh_notes h))). holds gc (base @ k, v)"
    "nothing_else gc base h" "host_ok behind h" "ports_fit n h" "CHR ''%'' \<notin> set behind"
  shows "read_host n behind gc base = Ret (Some h)"
proof -
  note there = get_there [OF assms(1)]
  obtain name where name: "sh_name h = Some name" "name \<noteq> []" using assms(4) by (cases "sh_name h") (auto simp: host_ok_def)
  have h: "holds gc (base @ ''_ip'', Cv_string (dotted (sh_ip h)))" "holds gc (base @ ''_name'', Cv_string name)"
    "holds gc (base @ ''_x'', Cv_float (sh_x h))" "holds gc (base @ ''_y'', Cv_float (sh_y h))"
    "\<forall>(k, v) \<in> set (os_values (sh_os_data h)). holds gc (base @ k, v)"
    using assms(2) by (auto simp: host_values_def name ip2str_def)
  have icon: "set_or_absent gc (base @ ''_icon_file_name'') (sh_icon_file_name h)"
    using assms(2,3) by (auto simp: host_values_def set_if_def set_or_absent_def nothing_else_def split: option.splits)
  have nts: "set_or_absent gc (base @ ''_notes'') (map_option coded (sh_notes h))"
    using assms(2,3) by (auto simp: host_values_def set_if_def set_or_absent_def nothing_else_def split: option.splits)
  have conv: "(case map_option coded (sh_notes h) of None \<Rightarrow> Ret None
      | Some s \<Rightarrow> obind (config_convert_notes s behind) (\<lambda>t. Ret (Some t))) = Ret (sh_notes h)"
    using assms(4,6) convert_back by (cases "sh_notes h") (auto simp: host_ok_def)
  have os: "read_os_data n gc base = Ret (sh_os_data h)"
    using assms(3,4,5) by (intro read_os_data_ok [OF assms(1) h(5)]) (auto simp: nothing_else_def host_ok_def ports_fit_def split: option.splits)
  have ip: "dotted (sh_ip h) \<noteq> []" using inet_aton_dotted [of "sh_ip h"] by (auto simp: inet_aton_def)
  have same: "\<lparr>sh_ip = sh_ip h, sh_name = Some name, sh_x = sh_x h, sh_y = sh_y h, sh_icon_file_name = sh_icon_file_name h,
      sh_os_data = sh_os_data h, sh_notes = sh_notes h\<rparr> = h" using name by (cases h) simp
  note get = there(1) [OF _ _ h(1), of "''NOTHING''"] there(1) [OF _ _ h(2), of "''NOTHING''"] there(3) [OF _ _ h(3), of "''0.0''"]
    there(3) [OF _ _ h(4), of "''0.0''"] there(4) [OF _ _ icon, of "''BLAH''"] there(4) [OF _ _ nts, of "''NOTHING''"]
  show ?thesis
    using get by (simp only: read_host_def Let_def conv os ip name same) (simp add: os ip name same conv [simplified])
qed

lemma host_keys_fit: "x \<in> set (host_values h t) \<Longrightarrow> length (fst x) \<le> 40"
proof -
  have p: "x \<in> set (port_values j p) \<Longrightarrow> length (fst x) \<le> 40" for x j p
    using show_nat_short [of j] by (auto simp: port_values_def Let_def set_if_def split: option.splits)
  have o: "length (fst x) \<le> 40" if "x \<in> set (os_values os)" for x os
  proof -
    from that obtain ports where "fst x = ''_os_name'' \<or> x \<in> set (numbered port_values 0 ports)"
      by (auto simp: os_values_def split: option.splits)
    then show ?thesis using numbered_keys [of x port_values 0 ports] p by (elim disjE) (simp, blast)
  qed
  have i: "length (fst x) \<le> 40" if "x \<in> set (set_if k v)" "length k \<le> 40" for x k v
    using that by (auto simp: set_if_def split: option.splits)
  assume "x \<in> set (host_values h t)"
  then consider "x \<in> set (os_values (sh_os_data h))" | "x \<in> set (set_if ''_icon_file_name'' (sh_icon_file_name h))"
    | "x \<in> set (set_if ''_notes'' t)" | "fst x \<in> {''_ip'', ''_name'', ''_x'', ''_y''}"
    unfolding host_values_def by fastforce
  then show ?thesis using o i by cases fastforce+
qed

lemma write_host_ok:
  assumes "length base < 960"
  shows "write_host base h = Ret (map (\<lambda>(key, v). (base @ key, v)) (host_values h (map_option coded (sh_notes h))))"
proof -
  have "set_values (map (\<lambda>(key, v). (base @ key, v)) (host_values h t)) = Ret (map (\<lambda>(key, v). (base @ key, v)) (host_values h t))" for t
    using host_keys_fit [of _ h t] assms by (intro set_values_id) (force simp: CONFIG_BUFFER_SIZE_def)
  then show ?thesis by (cases "sh_notes h") (simp_all add: write_host_def convert_notes_coded)
qed

lemma write_hosts_ok:
  assumes "length base < 940"
  shows "\<exists>calls. write_hosts base j hs = Ret calls \<and>
    (\<forall>i < length hs. \<forall>(k, v) \<in> set (host_values (hs ! i) (map_option coded (sh_notes (hs ! i)))).
       ((base @ show_nat (j + i)) @ k, v) \<in> set calls)"
proof (induction hs arbitrary: j)
  case (Cons h hs)
  have l: "length (base @ show_nat j) < 960" using assms show_nat_short [of j] by simp
  from Cons.IH [of "Suc j"] obtain cs where cs: "write_hosts base (Suc j) hs = Ret cs"
    "\<And>i. i < length hs \<Longrightarrow> \<forall>(k, v) \<in> set (host_values (hs ! i) (map_option coded (sh_notes (hs ! i)))).
       ((base @ show_nat (Suc j + i)) @ k, v) \<in> set cs" by blast
  let ?c = "map (\<lambda>(key, v). ((base @ show_nat j) @ key, v)) (host_values h (map_option coded (sh_notes h)))"
  have "write_hosts base j (h # hs) = Ret (?c @ cs)" by (simp add: write_host_ok [OF l, simplified] cs(1))
  moreover have "\<forall>(k, v) \<in> set (host_values ((h # hs) ! i) (map_option coded (sh_notes ((h # hs) ! i)))).
       ((base @ show_nat (j + i)) @ k, v) \<in> set (?c @ cs)" if "i < length (h # hs)" for i
    using cs(2) [of "i - 1"] that by (cases i) force+
  ultimately show ?case by blast
qed simp


definition sample_host :: saved_host where
  "sample_host = \<lparr>sh_ip = 0x0100007F, sh_name = Some ''gateway'', sh_x = 0, sh_y = 0, sh_icon_file_name = Some ''router.xpm'',
     sh_os_data = None, sh_notes = None\<rparr>"

definition sample_pixmaps :: pixmap_env where
  "sample_pixmaps = \<lparr>xe_exists = \<lambda>_. False, xe_home = None, xe_paths = [''./pixmaps/''], xe_cwd = ''/root'',
     xe_malloc = None, xe_end = Px_closed\<rparr>"


text \<open>A host without an icon in the file, and without an operating system, makes the client use a NULL name.\<close>

lemma no_icon_crashes:
  assumes "sh_icon_file_name h = None" "sh_os_data h = None" "sh_ip h \<notin> sh_ip ` set page" "default_icon_fits x"
  shows "place_host x qs h (page, pl) = UB"
proof -
  have "find (\<lambda>p. sh_ip p = sh_ip h) page = None" using assms(3) by (rule find_new)
  then show ?thesis
    using assms by (auto simp: place_host_def display_saved_def load_image_def new_saved_def default_icon_fits_def Let_def)
qed

text \<open>The ports of a host of which no operating system is known are not written.\<close>

lemma ports_lost: "host_values (h\<lparr>sh_os_data := Some (None, ports)\<rparr>) t = host_values (h\<lparr>sh_os_data := None\<rparr>) t"
  by (simp add: host_values_def os_values_def)

end
