(* ===== verification/Config_Pages.thy ===== *)
theory Config_Pages
  imports Config_Hosts Canvas_Graph
begin

text \<open>
  The pages in the configuration file, \<^verbatim>\<open>gui-config.c\<close>: their names and agents, the hosts that are
  merged and the links between hosts, which are written from the pages of \<^theory_text>\<open>Canvas\<close> and read back
  onto them; and the file as it is written, page by page.
\<close>

section \<open>Writing\<close>

text \<open>A page: what it is called, its agent, where it is in \<^theory_text>\<open>Canvas\<close>, and what is saved of its hosts.\<close>

record saved_page =
  sp_name :: cstring
  sp_agent_ip :: "cstring option"
  sp_usessl :: bool
  sp_np :: u64
  sp_hosts :: "saved_host list"

definition page_values :: "saved_page \<Rightarrow> (cstring \<times> config_value) list" where
  "page_values sp =
     [(''/name'', Cv_string (sp_name sp)),
      (''/agent_ip'', case sp_agent_ip sp of Some t \<Rightarrow> Cv_string t | None \<Rightarrow> Cv_null),
      (''/usessl'', Cv_int (if sp_usessl sp then 1 else 0))]"

definition viewspace :: "cstring \<Rightarrow> nat \<Rightarrow> cstring" where
  "viewspace filename i = ''='' @ filename @ ''=/viewspace'' @ show_nat i"

text \<open>The chains of merged objects, each from its primary on. The counter of the secondaries is never increased.\<close>

fun ips_of :: "nat list \<Rightarrow> canvas \<Rightarrow> u32 list outcome" where
  "ips_of [] w = Ret []"
| "ips_of (a # as) w = obind (deref (cv_po w) a) (\<lambda>po. obind (ips_of as w) (\<lambda>ips. Ret (po_ip po # ips)))"

fun page_merges :: "nat \<Rightarrow> nat list \<Rightarrow> canvas \<Rightarrow> (u32 \<times> u32 list) list outcome" where
  "page_merges n [] w = Ret []"
| "page_merges n (a # as) w =
     obind (deref (cv_po w) a) (\<lambda>po.
       if po_merge po \<noteq> None \<and> po_merge_primary po = Some a
       then
         obind (merge_chain n (Some a) w) (\<lambda>chain. obind (ips_of chain w) (\<lambda>ips.
         obind (page_merges n as w) (\<lambda>ms. Ret ((po_ip po, ips) # ms))))
       else page_merges n as w)"

definition merge_values :: "nat \<Rightarrow> u32 \<times> u32 list \<Rightarrow> (cstring \<times> config_value) list" where
  "merge_values j m =
     map (\<lambda>ip. (show_nat j @ ''_secondary_'' @ show_nat 0, Cv_string (ip2str ip))) (snd m) @
     [(show_nat j @ ''_primary'', Cv_string (ip2str (fst m)))]"

definition write_merges :: "nat \<Rightarrow> cstring \<Rightarrow> nat list \<Rightarrow> canvas \<Rightarrow> (cstring \<times> config_value) list outcome" where
  "write_merges n base objects w =
     obind (page_merges n objects w) (\<lambda>ms. set_values (map (\<lambda>(k, v). (base @ k, v)) (numbered merge_values 0 ms)))"

text \<open>The links, from each object; a link is at both of its ends and is written twice.\<close>

fun links_of :: "nat list \<Rightarrow> canvas \<Rightarrow> (u32 \<times> u32) list outcome" where
  "links_of [] w = Ret []"
| "links_of (q # qs) w =
     obind (deref (cv_pol w) q) (\<lambda>pol.
     obind (deref (cv_po w) (pol_po1 pol)) (\<lambda>po1.
     obind (deref (cv_po w) (pol_po2 pol)) (\<lambda>po2.
     obind (links_of qs w) (\<lambda>ls. Ret ((po_ip po1, po_ip po2) # ls)))))"

fun page_links :: "nat list \<Rightarrow> canvas \<Rightarrow> (u32 \<times> u32) list outcome" where
  "page_links [] w = Ret []"
| "page_links (a # as) w =
     obind (deref (cv_po w) a) (\<lambda>po.
     obind (links_of (po_links po) w) (\<lambda>ls. obind (page_links as w) (\<lambda>ms. Ret (ls @ ms))))"

definition link_values :: "nat \<Rightarrow> u32 \<times> u32 \<Rightarrow> (cstring \<times> config_value) list" where
  "link_values j l =
     [(show_nat j @ ''_ip1'', Cv_string (ip2str (fst l))), (show_nat j @ ''_ip2'', Cv_string (ip2str (snd l)))]"

definition write_links :: "cstring \<Rightarrow> nat list \<Rightarrow> canvas \<Rightarrow> (cstring \<times> config_value) list outcome" where
  "write_links base objects w =
     obind (page_links objects w) (\<lambda>ls. set_values (map (\<lambda>(k, v). (base @ k, v)) (numbered link_values 0 ls)))"

text \<open>A page, and the file: options, size of the window, lists and pages.\<close>

definition write_page :: "nat \<Rightarrow> cstring \<Rightarrow> nat \<Rightarrow> saved_page \<Rightarrow> canvas \<Rightarrow> (cstring \<times> config_value) list outcome" where
  "write_page n filename i sp w =
     (let base = viewspace filename i;
          objects = (case net_page_at (sp_np sp) w of None \<Rightarrow> [] | Some page \<Rightarrow> np_objects page) in
      obind (set_values (map (\<lambda>(k, v). (base @ k, v)) (page_values sp))) (\<lambda>c1.
      obind (write_hosts (page_base filename i) 0 (sp_hosts sp)) (\<lambda>c2.
      obind (set_values [(base @ ''/name'', Cv_string (sp_name sp))]) (\<lambda>c3.
      obind (write_merges n (base @ ''/merge_'') objects w) (\<lambda>c4.
      obind (write_links (base @ ''/page_object_link_'') objects w) (\<lambda>c5.
        Ret (c1 @ c2 @ c3 @ c4 @ c5)))))))"

fun write_pages :: "nat \<Rightarrow> cstring \<Rightarrow> nat \<Rightarrow> saved_page list \<Rightarrow> canvas \<Rightarrow> (cstring \<times> config_value) list outcome" where
  "write_pages n filename i [] w = Ret []"
| "write_pages n filename i (sp # sps) w =
     obind (write_page n filename i sp w) (\<lambda>c. obind (write_pages n filename (Suc i) sps w) (\<lambda>cs. Ret (c @ cs)))"

definition write_config_file ::
  "nat \<Rightarrow> cstring \<Rightarrow> settings \<Rightarrow> int \<Rightarrow> int \<Rightarrow> pixmap_list \<Rightarrow> service_list \<Rightarrow> scripts \<Rightarrow> saved_page list \<Rightarrow> canvas
     \<Rightarrow> (cstring \<times> config_value) list outcome" where
  "write_config_file n filename s width height pl sl cl sps w =
     obind (write_options filename s) (\<lambda>c1.
     obind (set_values [(global filename ''width'', Cv_int width), (global filename ''height'', Cv_int height)]) (\<lambda>c2.
     obind (write_lists filename pl sl cl) (\<lambda>c3.
     obind (write_pages n filename 0 sps w) (\<lambda>c4.
       Ret (c1 @ c2 @ c3 @ c4)))))"

section \<open>Reading\<close>

definition read_page_head :: "gnome_config \<Rightarrow> cstring \<Rightarrow> (cstring \<times> cstring option \<times> int) option outcome" where
  "read_page_head gc base =
     obind (get_string gc (base @ ''/name'') ''NOTHING'') (\<lambda>(name, def). if def then Ret None else
     obind (get_if gc (base @ ''/agent_ip'') ''NOTHING'') (\<lambda>agent_ip.
     obind (get_int gc (base @ ''/usessl'') ''NOTHING'') (\<lambda>(usessl, def).
       Ret (Some (name, agent_ip, if def then 0 else usessl)))))"

text \<open>The object of an address that was read.\<close>

definition saved_object :: "u64 \<Rightarrow> cstring \<Rightarrow> canvas \<Rightarrow> nat option outcome" where
  "saved_object np s w = (case inet_aton s of None \<Rightarrow> Ret None | Some ip \<Rightarrow> page_object_get_by_ip np ip w)"

text \<open>\<open>k\<close> bounds the entries of the file, \<open>n\<close> the chains of merged objects.\<close>

fun read_secondaries :: "nat \<Rightarrow> nat \<Rightarrow> gnome_config \<Rightarrow> cstring \<Rightarrow> u64 \<Rightarrow> nat \<Rightarrow> nat \<Rightarrow> canvas \<Rightarrow> canvas outcome" where
  "read_secondaries 0 n gc base np primary jj w = NoFuel"
| "read_secondaries (Suc k) n gc base np primary jj w =
     obind (get_string gc (base @ ''_secondary_'' @ show_nat jj) ''NOTHING'') (\<lambda>(s, def). if def then Ret w else
     obind (saved_object np s w) (\<lambda>secondary.
       case secondary of
         None \<Rightarrow> Ret w
       | Some a \<Rightarrow> obind (page_object_merge n primary a w) (read_secondaries k n gc base np primary (Suc jj))))"

fun read_merges :: "nat \<Rightarrow> nat \<Rightarrow> gnome_config \<Rightarrow> cstring \<Rightarrow> u64 \<Rightarrow> nat \<Rightarrow> canvas \<Rightarrow> canvas outcome" where
  "read_merges 0 n gc base np j w = NoFuel"
| "read_merges (Suc k) n gc base np j w =
     obind (get_string gc (base @ show_nat j @ ''_primary'') ''NOTHING'') (\<lambda>(s, def). if def then Ret w else
     obind (saved_object np s w) (\<lambda>primary.
       case primary of
         None \<Rightarrow> Ret w
       | Some a \<Rightarrow>
           obind (read_secondaries k n gc (base @ show_nat j) np a 0 w) (read_merges k n gc base np (Suc j))))"

text \<open>\<open>m j\<close> is what \<^verbatim>\<open>malloc\<close> returns for the link of number \<open>j\<close>.\<close>

fun read_links :: "nat \<Rightarrow> gnome_config \<Rightarrow> cstring \<Rightarrow> u64 \<Rightarrow> (nat \<Rightarrow> nat option) \<Rightarrow> nat \<Rightarrow> canvas \<Rightarrow> canvas outcome" where
  "read_links 0 gc base np m j w = NoFuel"
| "read_links (Suc k) gc base np m j w =
     obind (get_string gc (base @ show_nat j @ ''_ip1'') ''NOTHING'') (\<lambda>(s1, def). if def then Ret w else
     obind (get_string gc (base @ show_nat j @ ''_ip2'') ''NOTHING'') (\<lambda>(s2, def). if def then Ret w else
     obind (saved_object np s1 w) (\<lambda>o1.
     obind (case o1 of
              None \<Rightarrow> Ret w
            | Some a \<Rightarrow>
                obind (saved_object np s2 w) (\<lambda>o2.
                  case o2 of None \<Rightarrow> Ret w | Some b \<Rightarrow> net_page_map_page_objects (m j) np a b w))
       (read_links k gc base np m (Suc j)))))"

section \<open>What is written of the links\<close>

definition ip_at :: "canvas \<Rightarrow> nat \<Rightarrow> u32" where
  "ip_at w a = po_ip (the (cv_po w a))"

definition link_ips :: "canvas \<Rightarrow> nat \<Rightarrow> u32 \<times> u32" where
  "link_ips w q = (ip_at w (pol_po1 (the (cv_pol w q))), ip_at w (pol_po2 (the (cv_pol w q))))"

lemma links_of_ok:
  assumes "canvas_ok w" "\<forall>q \<in> set qs. cv_pol w q \<noteq> None"
  shows "links_of qs w = Ret (map (link_ips w) qs)"
  using assms(2)
proof (induction qs)
  case (Cons q qs)
  then obtain pol where q: "cv_pol w q = Some pol" by auto
  have "links_ok None w" using assms(1) by (simp add: canvas_ok_def)
  from links_okD(1) [OF this q] show ?case using Cons q by (auto simp: deref_def link_ips_def ip_at_def)
qed simp

lemma page_links_ok:
  assumes "canvas_ok w" "\<forall>a \<in> set as. cv_po w a \<noteq> None"
  shows "page_links as w = Ret (concat (map (\<lambda>a. map (link_ips w) (po_links (the (cv_po w a)))) as))"
  using assms(2)
proof (induction as)
  case (Cons a as)
  then obtain po where a: "cv_po w a = Some po" by auto
  have "\<forall>q \<in> set (po_links po). cv_pol w q \<noteq> None"
    using links_inc(1) [OF assms(1) a] by (auto simp: inc_def)
  from links_of_ok [OF assms(1) this] show ?case using Cons a by (simp add: deref_def)
qed simp

text \<open>The links of a page by the addresses of their ends.\<close>

definition ip_edges :: "graph \<Rightarrow> u64 \<Rightarrow> u32 set set" where
  "ip_edges g np =
     {{x, y} | x y. \<exists>h a b. gr_hosts g np = Some h \<and> h a = Some x \<and> h b = Some y \<and> {a, b} \<in> gr_edges g}"

lemma page_links_edges:
  assumes ok: "canvas_ok w" and page: "net_page_at np w = Some page"
  shows "\<exists>ls. page_links (np_objects page) w = Ret ls \<and> {{x, y} | x y. (x, y) \<in> set ls} = ip_edges (graph_of w) np \<and>
    (\<forall>(x, y) \<in> set ls. x \<noteq> y \<and> {x, y} \<subseteq> ip_at w ` set (np_objects page))"
proof -
  let ?as = "np_objects page"
  let ?ls = "concat (map (\<lambda>a. map (link_ips w) (po_links (the (cv_po w a)))) ?as)"
  have l: "links_ok None w" "links_full w" and p: "pages_ok (cv_pages w) (core w)" using ok by (simp_all add: canvas_ok_def)
  have at: "map_of (cv_pages w) np = Some page" using page by (simp add: net_page_at_def)
  have there: "\<forall>a \<in> set ?as. cv_po w a \<noteq> None"
    using pages_okD(3) [OF p at] by (auto simp: core_def)
  have own: "set (po_links (the (cv_po w a))) = inc a w" if "a \<in> set ?as" for a
    using there that links_inc(1) [OF ok] by force
  have ends: "ends pol \<subseteq> set ?as \<and> pol_po1 pol \<noteq> pol_po2 pol" if "cv_pol w q = Some pol" "a \<in> ends pol" "a \<in> set ?as" for q pol a
  proof -
    note q = that
    from links_fullD(3) [OF l(2) q(1)] obtain m page' where m: "net_page_at m w = Some page'" "ends pol \<subseteq> set (np_objects page')" by blast
    then have "m = np" using pages_okD(7) [OF p _ at, of m page' a] q by (auto simp: net_page_at_def)
    then show ?thesis using m page links_okD(1) [OF l(1) q(1)] by simp
  qed
  have mem: "(x, y) \<in> set ?ls \<longleftrightarrow> (\<exists>q pol. cv_pol w q = Some pol \<and> ends pol \<subseteq> set ?as \<and> x = ip_at w (pol_po1 pol) \<and> y = ip_at w (pol_po2 pol))" for x y
  proof
    assume "(x, y) \<in> set ?ls"
    then obtain a q where a: "a \<in> set ?as" "q \<in> set (po_links (the (cv_po w a)))" "(x, y) = link_ips w q" by auto
    then have "q \<in> inc a w" using own by simp
    then obtain pol where "cv_pol w q = Some pol" "a \<in> ends pol" by (auto simp: inc_def)
    with ends [OF this a(1)] a(3) show "\<exists>q pol. cv_pol w q = Some pol \<and> ends pol \<subseteq> set ?as \<and> x = ip_at w (pol_po1 pol) \<and> y = ip_at w (pol_po2 pol)"
      by (auto simp: link_ips_def)
  next
    assume "\<exists>q pol. cv_pol w q = Some pol \<and> ends pol \<subseteq> set ?as \<and> x = ip_at w (pol_po1 pol) \<and> y = ip_at w (pol_po2 pol)"
    then obtain q pol where q: "cv_pol w q = Some pol" "pol_po1 pol \<in> set ?as" "(x, y) = link_ips w q" "q \<in> inc (pol_po1 pol) w"
      by (auto simp: link_ips_def inc_def ends_def)
    then show "(x, y) \<in> set ?ls" using own by auto
  qed
  have ips: "x \<noteq> y \<and> {x, y} \<subseteq> ip_at w ` set ?as" if xy: "(x, y) \<in> set ?ls" for x y
  proof -
    from xy [unfolded mem] obtain q pol where q: "cv_pol w q = Some pol" "ends pol \<subseteq> set ?as" "x = ip_at w (pol_po1 pol)" "y = ip_at w (pol_po2 pol)" by blast
    have "inj_on (\<lambda>a. fst (the (core w a))) (set ?as)" by (rule pages_okD(4) [OF p at])
    then have "inj_on (ip_at w) (set ?as)"
      by (rule inj_on_cong [THEN iffD1, rotated]) (use there in \<open>auto simp: core_def ip_at_def\<close>)
    then show ?thesis using q ends [OF q(1)] by (auto simp: ends_def inj_on_def)
  qed
  have h: "gr_hosts (graph_of w) np = Some (\<lambda>a. if a \<in> set ?as then map_option po_ip (cv_po w a) else None)"
    by (simp add: graph_of_def page)
  have "{{x, y} | x y. (x, y) \<in> set ?ls} = ip_edges (graph_of w) np"
  proof (intro set_eqI iffI)
    fix e assume "e \<in> {{x, y} | x y. (x, y) \<in> set ?ls}"
    then obtain x y where e: "e = {x, y}" "(x, y) \<in> set ?ls" by blast
    from e(2) [unfolded mem] obtain q pol where q: "cv_pol w q = Some pol" "ends pol \<subseteq> set ?as" "x = ip_at w (pol_po1 pol)" "y = ip_at w (pol_po2 pol)" by blast
    have "{pol_po1 pol, pol_po2 pol} \<in> gr_edges (graph_of w)" using q(1) by (auto simp: edges_eq ends_def)
    then show "e \<in> ip_edges (graph_of w) np"
      unfolding ip_edges_def e(1) using q there h
      by (intro CollectI exI [of _ x] exI [of _ y] conjI refl exI [of _ "\<lambda>a. if a \<in> set ?as then map_option po_ip (cv_po w a) else None"]
          exI [of _ "pol_po1 pol"] exI [of _ "pol_po2 pol"]) (auto simp: ends_def ip_at_def)
  next
    fix e assume "e \<in> ip_edges (graph_of w) np"
    then obtain x y a b where e: "e = {x, y}" "a \<in> set ?as" "b \<in> set ?as" "ip_at w a = x" "ip_at w b = y" "{a, b} \<in> gr_edges (graph_of w)"
      unfolding ip_edges_def h by (auto simp: ip_at_def split: if_splits)
    then obtain q pol where q: "cv_pol w q = Some pol" "ends pol = {a, b}" by (auto simp: edges_eq)
    then have "(ip_at w (pol_po1 pol), ip_at w (pol_po2 pol)) \<in> set ?ls" unfolding mem using e(2,3) by (intro exI [of _ q] exI [of _ pol]) simp
    moreover have "e = {ip_at w (pol_po1 pol), ip_at w (pol_po2 pol)}"
      using q(2) e(1,4,5) by (auto simp: ends_def doubleton_eq_iff)
    ultimately show "e \<in> {{x, y} | x y. (x, y) \<in> set ?ls}" by blast
  qed
  with page_links_ok [OF ok there] ips show ?thesis by blast
qed

section \<open>The links come back\<close>

lemma destroy_dom:
  "page_object_link_destroy q po w = Ret w' \<Longrightarrow> dom (cv_pol w') \<subseteq> dom (cv_pol w)"
  "destroy_found a b w = Ret w' \<Longrightarrow> dom (cv_pol w') \<subseteq> dom (cv_pol w)"
proof -
  have d: "drop_link q x w = Ret w' \<Longrightarrow> cv_pol w' = cv_pol w" for q x w w'
    by (auto simp: drop_link_def po_upd_def)
  have step: "(case m of Some x \<Rightarrow> if po \<noteq> Some x then drop_link q x w else Ret w
      | None \<Rightarrow> if po \<noteq> Some b then drop_link q b w else Ret w) = Ret w' \<Longrightarrow> cv_pol w' = cv_pol w" for m po q b w w'
    by (auto dest!: d split: option.splits if_splits)
  show 1: "dom (cv_pol w') \<subseteq> dom (cv_pol w)" if "page_object_link_destroy q po w = Ret w'" for q po w w'
  proof -
    let ?drop = "\<lambda>m b w. case m of Some x \<Rightarrow> if po \<noteq> Some x then drop_link q x w else Ret w
        | None \<Rightarrow> if po \<noteq> Some b then drop_link q b w else Ret w"
    note r = obind_Ret_iff [THEN iffD1]
    from r [OF that [unfolded page_object_link_destroy_def]] obtain pol :: page_object_link where 1: "obind (?drop (pol_merge1 pol) (pol_po1 pol) w)
        (\<lambda>w. obind (?drop (pol_merge2 pol) (pol_po2 pol) w) (\<lambda>w. Ret (w\<lparr>cv_pol := (cv_pol w)(q := None)\<rparr>))) = Ret w'" by blast
    from r [OF 1] obtain w1 where 2: "?drop (pol_merge1 pol) (pol_po1 pol) w = Ret w1"
      "obind (?drop (pol_merge2 pol) (pol_po2 pol) w1) (\<lambda>w. Ret (w\<lparr>cv_pol := (cv_pol w)(q := None)\<rparr>)) = Ret w'" by blast
    from r [OF 2(2)] obtain w2 where 3: "?drop (pol_merge2 pol) (pol_po2 pol) w1 = Ret w2" "w' = w2\<lparr>cv_pol := (cv_pol w2)(q := None)\<rparr>" by blast
    from step [OF 2(1)] step [OF 3(1)] 3(2) show ?thesis by auto
  qed
  show "destroy_found a b w = Ret w' \<Longrightarrow> dom (cv_pol w') \<subseteq> dom (cv_pol w)"
  proof -
    assume "destroy_found a b w = Ret w'"
    then consider "w' = w" | q where "page_object_link_destroy q None w = Ret w'"
      by (auto simp: destroy_found_def split: option.splits)
    then show ?thesis using 1 by cases auto
  qed
qed

lemma map_dom:
  assumes "net_page_map_page_objects (Some q) np a b w = Ret w'"
  shows "dom (cv_pol w') \<subseteq> insert q (dom (cv_pol w))"
proof -
  have l: "add_link q x w = Ret w' \<Longrightarrow> cv_pol w' = cv_pol w" for q x w w'
    by (auto simp: add_link_def po_upd_def)
  show ?thesis
  proof (cases "np \<noteq> 0 \<and> is_valid_page_object np a w \<and> is_valid_page_object np b w \<and> a \<noteq> b")
    case True
    with assms obtain w1 w2 where "destroy_found a b w = Ret w1" "destroy_found a b w1 = Ret w2"
      "dom (cv_pol w') \<subseteq> insert q (dom (cv_pol w2))"
      by (auto simp: net_page_map_page_objects_def Let_def dest!: l) blast
    with destroy_dom(2) show ?thesis by blast
  next
    case False
    then show ?thesis using assms by (auto simp: net_page_map_page_objects_def)
  qed
qed

lemma saved_object_ok:
  assumes ok: "canvas_ok w" and h: "gr_hosts (graph_of w) np = Some h" and x: "x \<in> ran h"
  shows "\<exists>a. saved_object np (ip2str x) w = Ret (Some a) \<and> h a = Some x"
proof -
  obtain page where page: "net_page_at np w = Some page" and h': "h = (\<lambda>a. if a \<in> set (np_objects page) then map_option po_ip (cv_po w a) else None)"
    using h by (auto simp: graph_of_def)
  have p: "pages_ok (cv_pages w) (core w)" using ok by (simp add: canvas_ok_def)
  have there: "\<forall>a \<in> set (np_objects page). cv_po w a \<noteq> None"
    using pages_okD(3) [OF p, of np page] page by (auto simp: core_def net_page_at_def)
  let ?f = "\<lambda>a. map_option po_ip (cv_po w a) = Some x"
  obtain c where "c \<in> set (np_objects page)" "?f c" using x by (auto simp: h' ran_def split: if_splits)
  then have "find ?f (np_objects page) \<noteq> None" unfolding find_None_iff by blast
  then obtain a where a: "find ?f (np_objects page) = Some a" by blast
  then have "a \<in> set (np_objects page)" "?f a" by (auto simp: find_Some_iff)
  then show ?thesis
    using a by (simp add: saved_object_def ip2str_def page_object_get_by_ip_def page find_ip_find [OF there] h')
qed

lemma ip_edges_insert:
  assumes "gr_hosts g np = Some h" "h a = Some x" "h b = Some y"
  shows "ip_edges (g\<lparr>gr_edges := insert {a, b} (gr_edges g)\<rparr>) np = insert {x, y} (ip_edges g np)"
  using assms by (auto simp: ip_edges_def doubleton_eq_iff)

lemma read_links_ok:
  assumes "canvas_ok w" "gr_hosts (graph_of w) np = Some h" "np \<noteq> 0" "length base < 960" "inj m"
    "\<forall>i < length ls. \<forall>(k, v) \<in> set (link_values (j + i) (ls ! i)). holds gc (base @ k, v)"
    "absent gc (base @ show_nat (j + length ls) @ ''_ip1'')" "length ls < k"
    "\<forall>i \<ge> j. cv_pol w (m i) = None" "\<forall>(x, y) \<in> set ls. x \<noteq> y \<and> {x, y} \<subseteq> ran h"
  shows "\<exists>w'. read_links k gc base np (\<lambda>i. Some (m i)) j w = Ret w' \<and> canvas_ok w' \<and>
    gr_hosts (graph_of w') = gr_hosts (graph_of w) \<and>
    ip_edges (graph_of w') np = ip_edges (graph_of w) np \<union> {{x, y} | x y. (x, y) \<in> set ls}"
  using assms(1,2,6-)
proof (induction ls arbitrary: w j k)
  case Nil
  obtain k' where k: "k = Suc k'" using Nil.prems(5) by (cases k) auto
  have "length (show_nat j @ ''_ip1'') \<le> 40" using show_nat_short [of j] by simp
  from get_there(5) [OF assms(4) this, of "''NOTHING''" gc] Nil show ?case by (auto simp: k)
next
  case (Cons l ls)
  obtain k' where k: "k = Suc k'" using Cons.prems(5) by (cases k) auto
  obtain x y where l: "l = (x, y)" by (cases l)
  have xy: "x \<noteq> y" "x \<in> ran h" "y \<in> ran h" using Cons.prems(7) l by auto
  from saved_object_ok [OF Cons.prems(1,2) xy(2)] obtain a where a: "saved_object np (ip2str x) w = Ret (Some a)" "h a = Some x" by blast
  from saved_object_ok [OF Cons.prems(1,2) xy(3)] obtain b where b: "saved_object np (ip2str y) w = Ret (Some b)" "h b = Some y" by blast
  have may: "canvas_may (Map_objects (Some (m j)) np a b) w" using Cons.prems(6) by simp
  have ab: "a \<noteq> b" "{a, b} \<subseteq> dom h" using a(2) b(2) xy(1) by auto
  from canvas_do_graph [OF Cons.prems(1) may] ab Cons.prems(2) assms(3) obtain v where
    v: "net_page_map_page_objects (Some (m j)) np a b w = Ret v" "canvas_ok v"
      "graph_of v = graph_of w\<lparr>gr_edges := insert {a, b} (gr_edges (graph_of w))\<rparr>" by auto
  have e: "ip_edges (graph_of v) np = insert {x, y} (ip_edges (graph_of w) np)"
    unfolding v(3) by (rule ip_edges_insert [OF Cons.prems(2) a(2) b(2)])
  have s: "length (show_nat j @ k) \<le> 40" if "length k = 4" for k using show_nat_short [of j] that by simp
  have "holds gc (base @ show_nat j @ ''_ip1'', Cv_string (ip2str x))" "holds gc (base @ show_nat j @ ''_ip2'', Cv_string (ip2str y))"
    using Cons.prems(3) [THEN spec, of 0] by (simp_all add: link_values_def l)
  then have g: "get_string gc (base @ show_nat j @ ''_ip1'') ''NOTHING'' = Ret (ip2str x, False)"
    "get_string gc (base @ show_nat j @ ''_ip2'') ''NOTHING'' = Ret (ip2str y, False)"
    using get_there(1) [OF assms(4) s] by simp_all
  have "m i \<noteq> m j" if "Suc j \<le> i" for i using that by (auto simp: inj_eq [OF assms(5)])
  then have fresh: "\<forall>i \<ge> Suc j. cv_pol v (m i) = None"
    using map_dom [OF v(1)] Cons.prems(6) by (meson Suc_leD domIff insertE subset_iff)
  have "\<exists>w'. read_links k' gc base np (\<lambda>i. Some (m i)) (Suc j) v = Ret w' \<and> canvas_ok w' \<and>
      gr_hosts (graph_of w') = gr_hosts (graph_of v) \<and>
      ip_edges (graph_of w') np = ip_edges (graph_of v) np \<union> {{x, y} | x y. (x, y) \<in> set ls}"
  proof (rule Cons.IH [OF v(2) _ _ _ _ fresh])
    show "gr_hosts (graph_of v) np = Some h" using Cons.prems(2) by (simp add: v(3))
    show "\<forall>i < length ls. \<forall>(k, v) \<in> set (link_values (Suc j + i) (ls ! i)). holds gc (base @ k, v)"
    proof (intro allI impI)
      fix i assume "i < length ls"
      then show "\<forall>(k, v) \<in> set (link_values (Suc j + i) (ls ! i)). holds gc (base @ k, v)"
        using Cons.prems(3) [THEN spec, of "Suc i"] by simp
    qed
  qed (use Cons.prems(4,5,7) k in auto)
  then obtain w' where w': "read_links k' gc base np (\<lambda>i. Some (m i)) (Suc j) v = Ret w'" "canvas_ok w'"
      "gr_hosts (graph_of w') = gr_hosts (graph_of v)"
      "ip_edges (graph_of w') np = ip_edges (graph_of v) np \<union> {{x, y} | x y. (x, y) \<in> set ls}" by blast
  have "{{x', y'} | x' y'. (x', y') \<in> set (l # ls)} = insert {x, y} {{x, y} | x y. (x, y) \<in> set ls}" by (auto simp: l)
  then have "ip_edges (graph_of w') np = ip_edges (graph_of w) np \<union> {{x, y} | x y. (x, y) \<in> set (l # ls)}"
    unfolding w'(4) e by simp
  moreover have "read_links k gc base np (\<lambda>i. Some (m i)) j w = Ret w'" by (simp add: k g a(1) b(1) v(1) w'(1))
  ultimately show ?case using w'(2,3) v(3) by auto
qed

text \<open>
  C38. The links of a page come back: a page without merged hosts is written, every link from both of
  its ends, and when the library answers what was set and has nothing behind it, a client that reads
  the file onto a page with the hosts of the saved one has the links it had and those that were saved,
  each once, and its hosts are as they were. No page of either client may have a merged host
  (\<^theory_text>\<open>canvas_ok\<close>): when a merged host was deleted, the link to it that is left is read from freed
  memory. The memory for the links that are read is new.
\<close>

theorem links_roundtrip:
  assumes "canvas_ok w" "net_page_at np w = Some page" "canvas_ok w0" "np0 \<noteq> 0" "gr_hosts (graph_of w0) np0 = Some h"
    "ip_at w ` set (np_objects page) \<subseteq> ran h" "inj m" "\<forall>i. cv_pol w0 (m i) = None" "length base < 960"
  shows "\<exists>ls calls. page_links (np_objects page) w = Ret ls \<and> write_links base (np_objects page) w = Ret calls \<and>
    (\<forall>gc k. (\<forall>x \<in> set calls. holds gc x) \<longrightarrow> absent gc (base @ show_nat (length ls) @ ''_ip1'') \<longrightarrow> length ls < k \<longrightarrow>
      (\<exists>w1. read_links k gc base np0 (\<lambda>i. Some (m i)) 0 w0 = Ret w1 \<and> canvas_ok w1 \<and>
        gr_hosts (graph_of w1) = gr_hosts (graph_of w0) \<and>
        ip_edges (graph_of w1) np0 = ip_edges (graph_of w0) np0 \<union> ip_edges (graph_of w) np))"
proof -
  obtain ls where ls: "page_links (np_objects page) w = Ret ls" "{{x, y} | x y. (x, y) \<in> set ls} = ip_edges (graph_of w) np"
    "\<forall>(x, y) \<in> set ls. x \<noteq> y \<and> {x, y} \<subseteq> ip_at w ` set (np_objects page)"
    using page_links_edges [OF assms(1,2)] by (elim exE conjE)
  let ?calls = "map (\<lambda>(k, v). (base @ k, v)) (numbered link_values 0 ls)"
  have "length (fst x) \<le> 40" if "x \<in> set (link_values j l)" for x j l
    using that show_nat_short [of j] by (auto simp: link_values_def)
  then have short: "length (fst x) \<le> 40" if "x \<in> set (numbered link_values 0 ls)" for x
    using numbered_keys [OF that] by blast
  have "set_values ?calls = Ret ?calls"
    using short assms(9) by (intro set_values_id) (force simp: CONFIG_BUFFER_SIZE_def)
  then have calls: "write_links base (np_objects page) w = Ret ?calls" by (simp add: write_links_def ls(1))
  have "\<exists>w1. read_links k gc base np0 (\<lambda>i. Some (m i)) 0 w0 = Ret w1 \<and> canvas_ok w1 \<and>
      gr_hosts (graph_of w1) = gr_hosts (graph_of w0) \<and>
      ip_edges (graph_of w1) np0 = ip_edges (graph_of w0) np0 \<union> ip_edges (graph_of w) np"
    if "\<forall>x \<in> set ?calls. holds gc x" "absent gc (base @ show_nat (length ls) @ ''_ip1'')" "length ls < k" for gc k
  proof -
    have h: "\<forall>(k, v) \<in> set (numbered link_values 0 ls). holds gc (base @ k, v)" using that(1) by auto
    have "\<forall>(k, v) \<in> set (link_values (0 + i) (ls ! i)). holds gc (base @ k, v)" if "i < length ls" for i
      using numbered_mem [OF that, of link_values 0] h by blast
    moreover have "\<forall>(x, y) \<in> set ls. x \<noteq> y \<and> {x, y} \<subseteq> ran h" using ls(3) assms(6) by blast
    ultimately show ?thesis
      using read_links_ok [OF assms(3,5,4,9,7), of ls 0 gc k] that(2,3) assms(8) ls(2) by simp
  qed
  then show ?thesis using ls(1) calls by (intro exI conjI) blast+
qed

text \<open>Two hosts of a page, and the same with a link.\<close>

definition two_hosts :: "nat list \<Rightarrow> canvas" where
  "two_hosts qs =
     \<lparr>cv_po = [10 \<mapsto> page_object_new\<lparr>po_ip := 1, po_links := qs\<rparr>, 11 \<mapsto> page_object_new\<lparr>po_ip := 2, po_links := qs\<rparr>],
      cv_pol = (\<lambda>q. if q \<in> set qs then Some \<lparr>pol_po1 = 10, pol_po2 = 11, pol_merge1 = None, pol_merge2 = None\<rparr> else None),
      cv_pages = [(1, \<lparr>np_objects = [11, 10], np_plink = None, np_agent = 7\<rparr>)]\<rparr>"

lemma two_hosts_ok: "qs = [] \<or> qs = [q] \<Longrightarrow> canvas_ok (two_hosts qs)"
  by (auto simp: canvas_ok_def links_ok_def links_full_def pages_ok_def core_def two_hosts_def page_object_new_def ends_def
      net_page_at_def split: if_splits)

lemma two_hosts_graph:
  "gr_hosts (graph_of (two_hosts qs)) 1 = Some [10 \<mapsto> 1, 11 \<mapsto> 2]"
  "gr_edges (graph_of (two_hosts qs)) = (if qs = [] then {} else {{10, 11}})"
proof -
  show "gr_hosts (graph_of (two_hosts qs)) 1 = Some [10 \<mapsto> 1, 11 \<mapsto> 2]"
    by (auto simp: graph_of_def two_hosts_def net_page_at_def page_object_new_def fun_eq_iff)
  show "gr_edges (graph_of (two_hosts qs)) = (if qs = [] then {} else {{10, 11}})"
    by (cases qs) (auto simp: edges_eq two_hosts_def ends_def)
qed

lemma links_roundtrip_witness:
  "\<exists>calls w1. write_links ''L'' [11, 10] (two_hosts [20]) = Ret calls \<and>
     read_links 3 (gnome_of calls) ''L'' 1 (\<lambda>i. Some i) 0 (two_hosts []) = Ret w1 \<and>
     ip_edges (graph_of (two_hosts [])) 1 = {} \<and> ip_edges (graph_of w1) 1 = {{1, 2}}"
proof -
  let ?w = "two_hosts [20]" and ?v = "two_hosts []"
  let ?page = "\<lparr>np_objects = [11, 10], np_plink = None, np_agent = 7\<rparr>"
  have page: "net_page_at 1 ?w = Some ?page" by (simp add: net_page_at_def two_hosts_def)
  have ips: "ip_at ?w ` set (np_objects ?page) \<subseteq> ran ([10 \<mapsto> 1, 11 \<mapsto> 2] :: nat \<Rightarrow> u32 option)"
    by (simp add: ip_at_def two_hosts_def)
  have fresh: "\<forall>i. cv_pol ?v (id i) = None" by (simp add: two_hosts_def)
  have "{1, 2} \<in> ip_edges (graph_of ?w) 1"
    unfolding ip_edges_def
    by (rule CollectI, rule exI [of _ 1], rule exI [of _ 2], rule conjI, rule refl, rule exI [of _ "[10 \<mapsto> 1, 11 \<mapsto> 2]"],
        rule exI [of _ 10], rule exI [of _ 11]) (simp add: two_hosts_graph)
  then have e: "ip_edges (graph_of ?v) 1 = {}" "ip_edges (graph_of ?w) 1 = {{1, 2}}"
    by (auto simp: ip_edges_def two_hosts_graph doubleton_eq_iff)
  from links_roundtrip [OF two_hosts_ok page two_hosts_ok _ two_hosts_graph(1) ips inj_on_id fresh, of 20 undefined "''L''"]
  obtain ls calls where r: "page_links (np_objects ?page) ?w = Ret ls" "write_links ''L'' (np_objects ?page) ?w = Ret calls"
    "\<forall>gc k. (\<forall>x \<in> set calls. holds gc x) \<longrightarrow> absent gc (''L'' @ show_nat (length ls) @ ''_ip1'') \<longrightarrow> length ls < k \<longrightarrow>
      (\<exists>w1. read_links k gc ''L'' 1 (\<lambda>i. Some (id i)) 0 ?v = Ret w1 \<and> canvas_ok w1 \<and>
        gr_hosts (graph_of w1) = gr_hosts (graph_of ?v) \<and>
        ip_edges (graph_of w1) 1 = ip_edges (graph_of ?v) 1 \<union> ip_edges (graph_of ?w) 1)" by auto
  have pl: "page_links [11, 10] ?w = Ret [(1, 2), (1, 2)]" by (simp add: two_hosts_def deref_def)
  then have ls: "ls = [(1, 2), (1, 2)]" using r(1) by (simp del: page_links.simps)
  then have calls: "calls = [(''L0_ip1'', Cv_string (ip2str 1)), (''L0_ip2'', Cv_string (ip2str 2)),
      (''L1_ip1'', Cv_string (ip2str 1)), (''L1_ip2'', Cv_string (ip2str 2))]"
    using r(2) by (simp add: write_links_def pl link_values_def show_small sprintf_in_def CONFIG_BUFFER_SIZE_def
        del: page_links.simps)
  have h: "\<forall>x \<in> set calls. holds (gnome_of calls) x" by (intro ballI gnome_of_holds) (simp_all add: calls)
  have m: "absent (gnome_of calls) (''L'' @ show_nat (length ls) @ ''_ip1'')"
    by (simp add: absent_def gnome_of_def calls ls show_small [unfolded numeral_2_eq_2])
  have "length ls < 3" by (simp add: ls)
  with r(3) [THEN spec, THEN spec, THEN mp, OF h, THEN mp, OF m, of 3] obtain w1 where
    "read_links 3 (gnome_of calls) ''L'' 1 (\<lambda>i. Some (id i)) 0 ?v = Ret w1"
    "ip_edges (graph_of w1) 1 = ip_edges (graph_of ?v) 1 \<union> ip_edges (graph_of ?w) 1" by blast
  then show ?thesis using r(2) e by (intro exI conjI) simp_all
qed

section \<open>Merged hosts\<close>

text \<open>Of the hosts that are merged into another only the last of the chain is left in the file.\<close>

lemma last_secondary:
  "ips \<noteq> [] \<Longrightarrow> map_of (rev (merge_values j (p, ips))) (show_nat j @ ''_secondary_0'') = Some (Cv_string (ip2str (last ips)))"
proof (induction ips rule: rev_induct)
  case (snoc ip ips)
  then show ?case by (simp add: merge_values_def show_small)
qed simp

text \<open>Three merged hosts are written, and read onto the three of them.\<close>

definition three_hosts :: "(nat \<Rightarrow> nat option) \<Rightarrow> nat option \<Rightarrow> canvas" where
  "three_hosts merge primary =
     \<lparr>cv_po = (\<lambda>a. if a \<in> {1, 2, 3} then Some (page_object_new\<lparr>po_ip := of_nat a, po_merge := merge a, po_merge_primary := primary\<rparr>) else None),
      cv_pol = Map.empty, cv_pages = [(1, \<lparr>np_objects = [1, 2, 3], np_plink = None, np_agent = 7\<rparr>)]\<rparr>"

lemma merged_host_lost:
  "\<exists>calls w. write_merges 5 ''m'' [1, 2, 3] (three_hosts [1 \<mapsto> 2, 2 \<mapsto> 3] (Some 1)) = Ret calls \<and>
     read_merges (Suc (Suc (Suc 0))) 5 (gnome_of (rev calls)) ''m'' 1 0 (three_hosts Map.empty None) = Ret w \<and>
     map_option po_merge (cv_po w 1) = Some (Some 3) \<and> map_option po_merge_primary (cv_po w 2) = Some None"
proof -
  let ?calls = "[(''m0_secondary_0'', Cv_string (ip2str 1)), (''m0_secondary_0'', Cv_string (ip2str 2)),
      (''m0_secondary_0'', Cv_string (ip2str 3)), (''m0_primary'', Cv_string (ip2str 1))]"
  have w: "write_merges 5 ''m'' [1, 2, 3] (three_hosts [1 \<mapsto> 2, 2 \<mapsto> 3] (Some 1)) = Ret ?calls"
    by (simp add: write_merges_def three_hosts_def page_object_new_def deref_def merge_values_def show_small sprintf_in_def
        CONFIG_BUFFER_SIZE_def eval_nat_numeral)
  have get: "get_string (gnome_of (rev ?calls)) ''m0_primary'' ''NOTHING'' = Ret (ip2str 1, False)"
    "get_string (gnome_of (rev ?calls)) ''m1_primary'' ''NOTHING'' = Ret (''NOTHING'', True)"
    "get_string (gnome_of (rev ?calls)) ''m0_secondary_0'' ''NOTHING'' = Ret (ip2str 3, False)"
    "get_string (gnome_of (rev ?calls)) ''m0_secondary_1'' ''NOTHING'' = Ret (''NOTHING'', True)"
    by (simp_all add: get_string_def gnome_of_def sprintf_in_def CONFIG_BUFFER_SIZE_def)
  let ?w = "three_hosts Map.empty None"
  have obj: "saved_object 1 (ip2str 1) ?w = Ret (Some 1)" "saved_object 1 (ip2str 3) ?w = Ret (Some 3)"
    by (simp_all add: saved_object_def ip2str_def page_object_get_by_ip_def net_page_at_def three_hosts_def deref_def page_object_new_def)
  obtain w' where w': "page_object_merge 5 1 3 ?w = Ret w'" "map_option po_merge (cv_po w' 1) = Some (Some 3)"
    "map_option po_merge_primary (cv_po w' 2) = Some None"
    by (simp add: page_object_merge_def po_upd_def deref_def three_hosts_def page_object_new_def concat_links_def page_object_display_def
        displayed_def display_name_def)
  have "read_merges (Suc (Suc (Suc 0))) 5 (gnome_of (rev ?calls)) ''m'' 1 0 ?w = Ret w'"
    by (simp add: show_small get [simplified] obj [simplified] w' [simplified])
  then show ?thesis using w w'(2,3) by blast
qed

end
