(* ===== verification/Agent_Main.thy ===== *)
theory Agent_Main
  imports Event_Agents Sched
begin

text \<open>
  The agent as a program: how it starts, \<^verbatim>\<open>cheops-agent.c\<close>, and the main loop that ties the timers to
  the descriptors, \<^verbatim>\<open>cheops-main.c\<close>. What \<^verbatim>\<open>getopt\<close> returns, the user, the system's answers to the
  listening sockets and those of \<^verbatim>\<open>poll\<close> are arguments; signals are left out.
\<close>

section \<open>The start\<close>

datatype agent_handler =
    AGENT_HANDLE_ERROR
  | HANDLE_OSSCAN_REQUEST
  | HANDLE_DISCOVER_REQUEST
  | HANDLE_SET_SETTINGS
  | HANDLE_MAP_ICMP_REQUEST
  | HANDLE_PROBE_REQUEST

definition agent_handlers :: "(u16 \<times> agent_handler) list" where
  "agent_handlers =
     [(REPLY_ERROR, AGENT_HANDLE_ERROR), (EVENT_OS_SCAN, HANDLE_OSSCAN_REQUEST),
      (EVENT_DISCOVER_IPV4, HANDLE_DISCOVER_REQUEST), (EVENT_SET_SETTINGS, HANDLE_SET_SETTINGS),
      (EVENT_MAP_ICMP, HANDLE_MAP_ICMP_REQUEST), (EVENT_PROBE, HANDLE_PROBE_REQUEST)]"

fun register_each :: "(u16 \<times> 'h) list \<Rightarrow> 'h ev_state \<Rightarrow> 'h ev_state outcome" where
  "register_each [] st = Ret st"
| "register_each ((ty, cb) # hs) st =
     obind (event_register_handler (uint ty) (Some (Handler cb)) False st) (\<lambda>(r, st). register_each hs st)"

definition register_agent_handlers :: "agent_handler ev_state \<Rightarrow> agent_handler ev_state outcome" where
  "register_agent_handlers = register_each agent_handlers"

text \<open>The options; any other letter prints the usage and exits. SSL is not built in.\<close>

record agent_options =
  ao_all :: int
  ao_ipv4 :: int
  ao_local :: int
  ao_dopasswords :: int

definition no_options :: agent_options where
  "no_options = \<lparr>ao_all = 0, ao_ipv4 = 0, ao_local = 0, ao_dopasswords = 0\<rparr>"

fun read_agent_options :: "char list \<Rightarrow> agent_options \<Rightarrow> agent_options outcome" where
  "read_agent_options [] o1 = Ret o1"
| "read_agent_options (c # cs) o1 =
     (if c = CHR ''a'' then read_agent_options cs (o1\<lparr>ao_all := ao_all o1 + 1\<rparr>)
      else if c = CHR ''n'' then read_agent_options cs (o1\<lparr>ao_ipv4 := ao_ipv4 o1 + 1\<rparr>)
      else if c = CHR ''l'' then read_agent_options cs (o1\<lparr>ao_local := ao_local o1 + 1\<rparr>)
      else if c = CHR ''p'' then read_agent_options cs (o1\<lparr>ao_dopasswords := ao_dopasswords o1 + 1\<rparr>)
      else Exit 1)"

definition listen_type :: "agent_options \<Rightarrow> u32" where
  "listen_type o1 =
     (let ipv4 = (if ao_all o1 = 0 \<and> ao_local o1 = 0 \<and> ao_ipv4 o1 = 0 then 1 else ao_ipv4 o1) in
      (if ao_all o1 \<noteq> 0 \<or> ao_local o1 \<noteq> 0 then AGENT_TYPE_LOCAL else 0) OR
      (if ao_all o1 \<noteq> 0 \<or> ipv4 \<noteq> 0 then AGENT_TYPE_IPV4 else 0))"

record listen_env =
  le_home :: "cstring option"
  le_local :: sock_env
  le_local_alloc :: alloc_env
  le_ipv4 :: sock_env
  le_ipv4_alloc :: alloc_env

text \<open>Up to the main loop.\<close>

definition do_it :: "listen_env \<Rightarrow> u32 \<Rightarrow> int \<Rightarrow> agent_handler ev_state \<Rightarrow> agent_handler ev_state outcome" where
  "do_it le type dopasswords st =
     obind (event_create_agent type (le_home le) (le_local le) (le_local_alloc le) (le_ipv4 le) (le_ipv4_alloc le) st) (\<lambda>(r, st).
       if r \<noteq> 0 then Exit 1 else register_agent_handlers (authenticate_clients dopasswords st))"

definition agent_start ::
  "listen_env \<Rightarrow> int \<Rightarrow> char list \<Rightarrow> bool \<Rightarrow> agent_handler ev_state \<Rightarrow> agent_handler ev_state outcome" where
  "agent_start le uid opts garbage_left st =
     (if uid \<noteq> 0 then obind (event_cleanup (le_home le) st) (\<lambda>_. Exit 0)
      else
        obind (read_agent_options opts no_options) (\<lambda>o1.
        if garbage_left then Exit 1 else do_it le (listen_type o1) (ao_dopasswords o1) st))"

section \<open>The main loop\<close>

text \<open>
  The state: the timers, the table of descriptors, and the rest of the program. The callbacks of the
  table see the timers and the rest, those of the timers the table and the rest. \<open>poll\<close> answers for a
  time to wait, and what it changes of the rest is the time that goes by.
\<close>

record ('c, 'd, 'k, 'v, 'e) main_state =
  mw_sched :: "('c, 'd) sched_state"
  mw_io :: "('k, 'v) io_state"
  mw_rest :: 'e

record ('c, 'd, 'k, 'v, 'e) main_env =
  me_now :: "'e \<Rightarrow> timeval option"
  me_poll :: "int \<Rightarrow> 'e \<Rightarrow> int \<times> u16 list \<times> 'e"
  me_io_cb :: "('k, 'v, ('c, 'd) sched_state \<times> 'e) io_callback_sem"
  me_clock :: "('k, 'v) io_state \<times> 'e \<Rightarrow> timeval option \<times> ('k, 'v) io_state \<times> 'e"
  me_sched_cb :: "('c, 'd, ('k, 'v) io_state \<times> 'e) callback_sem"

definition main_round ::
  "nat \<Rightarrow> nat \<Rightarrow> ('c, 'd, 'k, 'v, 'e) main_env \<Rightarrow> ('c, 'd, 'k, 'v, 'e) main_state \<Rightarrow> ('c, 'd, 'k, 'v, 'e) main_state outcome" where
  "main_round n m env w =
     (let waittime = cheops_sched_wait (me_now env (mw_rest w)) (mw_sched w);
          (res, evs, e) = me_poll env waittime (mw_rest w) in
      obind (cheops_io_wait n (me_io_cb env) res evs (mw_io w, mw_sched w, e)) (\<lambda>(r, io, s, e).
        case cheops_sched_runq m (me_clock env) (me_sched_cb env) 0 (s, io, e) of
          None \<Rightarrow> NoFuel
        | Some (x, s, io, e) \<Rightarrow> Ret \<lparr>mw_sched = s, mw_io = io, mw_rest = e\<rparr>))"

text \<open>The loop has no end; \<open>k\<close> is the number of rounds.\<close>

fun cheops_main ::
  "nat \<Rightarrow> nat \<Rightarrow> nat \<Rightarrow> ('c, 'd, 'k, 'v, 'e) main_env \<Rightarrow> ('c, 'd, 'k, 'v, 'e) main_state \<Rightarrow> ('c, 'd, 'k, 'v, 'e) main_state outcome" where
  "cheops_main 0 n m env w = Ret w"
| "cheops_main (Suc k) n m env w = obind (main_round n m env w) (cheops_main k n m env)"

section \<open>The start is right\<close>

lemma read_agent_options_ok:
  "read_agent_options cs o1 = (if set cs \<subseteq> {CHR ''a'', CHR ''n'', CHR ''l'', CHR ''p''}
     then Ret \<lparr>ao_all = ao_all o1 + int (count_list cs (CHR ''a'')), ao_ipv4 = ao_ipv4 o1 + int (count_list cs (CHR ''n'')),
       ao_local = ao_local o1 + int (count_list cs (CHR ''l'')),
       ao_dopasswords = ao_dopasswords o1 + int (count_list cs (CHR ''p''))\<rparr>
     else Exit 1)"
  by (induction cs arbitrary: o1) auto

lemma link_frame:
  "link_agent al ty s cb ev what st = Ret (a, st') \<Longrightarrow>
     handlers st' = handlers st \<and> handlers_initialized st' = handlers_initialized st"
  by (auto simp: link_agent_def new_agent_def split: option.splits)

lemma create_frame:
  "create_local home sk al st = Ret (r, st') \<Longrightarrow>
     handlers st' = handlers st \<and> handlers_initialized st' = handlers_initialized st"
  "create_ipv4 sk al st = Ret (r, st') \<Longrightarrow>
     handlers st' = handlers st \<and> handlers_initialized st' = handlers_initialized st"
proof -
  assume l: "create_local home sk al st = Ret (r, st')"
  show "handlers st' = handlers st \<and> handlers_initialized st' = handlers_initialized st"
  proof (cases "our_local_agent st = None \<and> get_local_name home \<noteq> None")
    case True
    then obtain c where c: "get_local_name home = Some c" by auto
    define ms where "ms = make_local_socket (sk_socket sk) (sk_bind1 sk) (sk_bind2 sk) (sk_listen sk) c st"
    obtain u d where f: "snd ms = st\<lparr>ev_unlinked := u, ev_closed := d\<rparr>"
      using make_socket_frame(1) unfolding ms_def by blast
    show ?thesis
      using l True c link_frame [where st = "snd ms"]
      by (auto simp: create_local_def ms_def [symmetric] f split_beta split: if_splits)
  qed (use l in \<open>cases "our_local_agent st"; cases "get_local_name home"; simp add: create_local_def\<close>)
next
  assume i: "create_ipv4 sk al st = Ret (r, st')"
  define ms where "ms = make_ipv4_socket (sk_socket sk) (sk_bind1 sk) (sk_listen sk) st"
  obtain d where f: "snd ms = st\<lparr>ev_closed := d\<rparr>" using make_socket_frame(2) unfolding ms_def by blast
  show "handlers st' = handlers st \<and> handlers_initialized st' = handlers_initialized st"
    using i link_frame [where st = "snd ms"]
    by (auto simp: create_ipv4_def ms_def [symmetric] f split_beta split: if_splits)
qed

text \<open>The table after the start: the handlers of the list, and the one for logging in.\<close>

definition agent_table :: "agent_handler handler option list" where
  "agent_table = map (\<lambda>ty. if ty = unat EVENT_AUTH_REQUEST then Some HandleAuthRequest
     else map_option Handler (map_of agent_handlers (of_nat ty))) [0..<MAX_EVENT]"

lemma register_agent_ok:
  assumes "handlers st = replicate MAX_EVENT None" "\<not> handlers_initialized st"
  shows "register_agent_handlers st = Ret (st\<lparr>handlers := agent_table, handlers_initialized := True\<rparr>)"
proof -
  let ?t = "(replicate 256 None)[8 := Some HandleAuthRequest, 101 := Some (Handler AGENT_HANDLE_ERROR),
    3 := Some (Handler HANDLE_OSSCAN_REQUEST), 2 := Some (Handler HANDLE_DISCOVER_REQUEST),
    4 := Some (Handler HANDLE_SET_SETTINGS), 6 := Some (Handler HANDLE_MAP_ICMP_REQUEST), 7 := Some (Handler HANDLE_PROBE_REQUEST)]"
  have r: "register_agent_handlers st = Ret (st\<lparr>handlers := ?t, handlers_initialized := True\<rparr>)"
    using assms by (simp add: register_agent_handlers_def agent_handlers_def event_register_handler_def register_slot_def aget_def
        MAX_EVENT_def EVENT_AUTH_REQUEST_def REPLY_ERROR_def EVENT_OS_SCAN_def EVENT_DISCOVER_IPV4_def EVENT_SET_SETTINGS_def
        EVENT_MAP_ICMP_def EVENT_PROBE_def)
  have "?t = agent_table"
  proof (rule nth_equalityI)
    fix i assume "i < length ?t"
    then have i: "i < 256" by simp
    then have "unat (of_nat i :: u16) = i" by (simp add: unat_of_nat)
    then have e: "(of_nat i = (c :: u16)) = (i = unat c)" for c by (metis word_unat_eq_iff)
    show "?t ! i = agent_table ! i"
      using i by (simp add: agent_table_def nth_list_update MAX_EVENT_def agent_handlers_def EVENT_AUTH_REQUEST_def REPLY_ERROR_def
          EVENT_OS_SCAN_def EVENT_DISCOVER_IPV4_def EVENT_SET_SETTINGS_def EVENT_MAP_ICMP_def EVENT_PROBE_def e)
  qed (simp add: agent_table_def MAX_EVENT_def)
  then show ?thesis using r by simp
qed

text \<open>What listening leaves, whatever the system answers.\<close>

definition listens :: "u32 \<Rightarrow> int \<Rightarrow> nat list \<Rightarrow> 'h ev_state \<Rightarrow> bool" where
  "listens ty s before st \<longleftrightarrow>
     (\<exists>a ag. agents st = a # before \<and> aheap st a = Some ag \<and> ag_type ag = ty \<and> ag_s ag = s)"

lemma link_result:
  "link_agent al ty s cb ev what st = Ret (r, st') \<Longrightarrow>
     (if r = None then agents st' = agents st else listens ty s (agents st) st')"
  by (auto simp: link_agent_def new_agent_def listens_def split: option.splits)

lemma create_result:
  "create_local home sk al st = Ret (r, st') \<Longrightarrow>
     (if r = 0 then listens AGENT_TYPE_LOCAL (sk_socket sk) (agents st) st' else agents st' = agents st)"
  "create_ipv4 sk al st = Ret (r, st') \<Longrightarrow>
     (if r = 0 then listens AGENT_TYPE_IPV4 (sk_socket sk) (agents st) st' else agents st' = agents st)"
proof -
  assume l: "create_local home sk al st = Ret (r, st')"
  show "if r = 0 then listens AGENT_TYPE_LOCAL (sk_socket sk) (agents st) st' else agents st' = agents st"
  proof (cases "our_local_agent st = None \<and> get_local_name home \<noteq> None")
    case True
    then obtain c where c: "get_local_name home = Some c" by auto
    define ms where "ms = make_local_socket (sk_socket sk) (sk_bind1 sk) (sk_bind2 sk) (sk_listen sk) c st"
    obtain u d where f: "snd ms = st\<lparr>ev_unlinked := u, ev_closed := d\<rparr>"
      using make_socket_frame(1) unfolding ms_def by blast
    have s: "- 1 < fst ms \<Longrightarrow> fst ms = sk_socket sk"
      by (simp add: ms_def make_local_socket_def Let_def split: if_splits)
    show ?thesis
    proof (cases "- 1 < fst ms")
      case opened: True
      then obtain a st2 where k: "link_agent al AGENT_TYPE_LOCAL (sk_socket sk) HANDLE_UNIX_CONNECT CHEOPS_IO_IN MORE_NULL (snd ms) = Ret (a, st2)"
        "r = (if a = None then - 1 else 0)" "st' = (if a = None then st2 else st2\<lparr>our_local_agent := a\<rparr>)"
        using l True c s by (auto simp: create_local_def ms_def [symmetric] split_beta)
      from link_result [OF k(1)] k(2,3) show ?thesis by (auto simp: f listens_def)
    next
      case False
      then show ?thesis using l True c by (auto simp: create_local_def ms_def [symmetric] split_beta f)
    qed
  qed (use l in \<open>cases "our_local_agent st"; cases "get_local_name home"; simp add: create_local_def\<close>)
next
  assume i: "create_ipv4 sk al st = Ret (r, st')"
  define ms where "ms = make_ipv4_socket (sk_socket sk) (sk_bind1 sk) (sk_listen sk) st"
  obtain d where f: "snd ms = st\<lparr>ev_closed := d\<rparr>" using make_socket_frame(2) unfolding ms_def by blast
  have s: "- 1 < fst ms \<Longrightarrow> fst ms = sk_socket sk"
    by (simp add: ms_def make_ipv4_socket_def split: if_splits)
  show "if r = 0 then listens AGENT_TYPE_IPV4 (sk_socket sk) (agents st) st' else agents st' = agents st"
  proof (cases "- 1 < fst ms")
    case True
    then obtain a where k: "link_agent al AGENT_TYPE_IPV4 (sk_socket sk) HANDLE_IPV4_CONNECT CHEOPS_IO_IN MORE_NULL (snd ms) = Ret (a, st')"
      "r = (if a = None then - 1 else 0)"
      using i s by (auto simp: create_ipv4_def ms_def [symmetric] split_beta)
    from link_result [OF k(1)] k(2) show ?thesis by (auto simp: f)
  next
    case False
    then show ?thesis using i by (auto simp: create_ipv4_def ms_def [symmetric] split_beta f)
  qed
qed

text \<open>The two kinds of sockets that options ask for.\<close>

definition asks_local :: "char list \<Rightarrow> bool" where
  "asks_local opts \<longleftrightarrow> CHR ''a'' \<in> set opts \<or> CHR ''l'' \<in> set opts"

definition asks_ipv4 :: "char list \<Rightarrow> bool" where
  "asks_ipv4 opts \<longleftrightarrow> CHR ''a'' \<in> set opts \<or> CHR ''n'' \<in> set opts \<or> \<not> asks_local opts"

text \<open>
  C40. What runs when the agent comes to its main loop: it was started as root, with known options
  and nothing else on the command line. If the network was asked for, alone or with all, or nothing
  was, it listens on the network, and perhaps, when the local socket was asked for as well, on that:
  with the option for all methods it runs without its local socket when that has failed
  (\<^theory_text>\<open>local_failure_hidden\<close>). If only the local socket was asked for, it listens on that and on nothing
  else. Exactly the six requests and errors of the table and the login have handlers, every other type
  has none; and clients must log in just if passwords were asked for.
\<close>

theorem agent_serves:
  assumes "agent_start le uid opts garbage_left ev_init = Ret st"
  shows "uid = 0 \<and> \<not> garbage_left \<and> set opts \<subseteq> set ''anlp'' \<and> handlers st = agent_table \<and>
    authenticating_clients st = (if CHR ''p'' \<in> set opts then 1 else 0) \<and>
    (\<exists>before. (if asks_ipv4 opts then listens AGENT_TYPE_IPV4 (sk_socket (le_ipv4 le)) before st
               else listens AGENT_TYPE_LOCAL (sk_socket (le_local le)) before st) \<and>
       length before \<le> (if asks_ipv4 opts \<and> asks_local opts then 1 else 0))"
proof -
  let ?a = "CHR ''a''" and ?n = "CHR ''n''" and ?l = "CHR ''l''" and ?p = "CHR ''p''"
  have u: "uid = 0" using assms by (auto simp: agent_start_def split: if_splits)
  obtain o1 where o1: "read_agent_options opts no_options = Ret o1" "\<not> garbage_left"
    "do_it le (listen_type o1) (ao_dopasswords o1) ev_init = Ret st"
    using assms u by (auto simp: agent_start_def split: if_splits)
  have s: "set opts \<subseteq> {?a, ?n, ?l, ?p}" and v: "o1 = \<lparr>ao_all = int (count_list opts ?a), ao_ipv4 = int (count_list opts ?n),
      ao_local = int (count_list opts ?l), ao_dopasswords = int (count_list opts ?p)\<rparr>"
    using o1(1) by (auto simp: read_agent_options_ok no_options_def split: if_splits)
  have t: "listen_type o1 AND AGENT_TYPE_LOCAL \<noteq> 0 \<longleftrightarrow> asks_local opts" "listen_type o1 AND AGENT_TYPE_IPV4 \<noteq> 0 \<longleftrightarrow> asks_ipv4 opts"
    by (auto simp: v listen_type_def Let_def asks_local_def asks_ipv4_def AGENT_TYPE_LOCAL_def AGENT_TYPE_IPV4_def count_list_0_iff)
  obtain st2 where e: "event_create_agent (listen_type o1) (le_home le) (le_local le) (le_local_alloc le) (le_ipv4 le) (le_ipv4_alloc le)
      ev_init = Ret (0, st2)" and 3: "register_agent_handlers (authenticate_clients (ao_dopasswords o1) st2) = Ret st"
    using o1(3) by (auto simp: do_it_def split: if_splits)
  from e [unfolded event_create_agent_def t obind_Ret_iff] obtain x where
    "(if asks_local opts then create_local (le_home le) (le_local le) (le_local_alloc le) ev_init else Ret (- 1, ev_init)) = Ret x"
    "(case x of (r, st1) \<Rightarrow> if asks_ipv4 opts then create_ipv4 (le_ipv4 le) (le_ipv4_alloc le) st1 else Ret (r, st1)) = Ret (0, st2)" by blast
  then obtain r st1 where
    1: "(if asks_local opts then create_local (le_home le) (le_local le) (le_local_alloc le) ev_init else Ret (- 1, ev_init)) = Ret (r, st1)"
    and 2: "(if asks_ipv4 opts then create_ipv4 (le_ipv4 le) (le_ipv4_alloc le) st1 else Ret (r, st1)) = Ret (0, st2)"
    by (cases x) auto
  have i: "handlers ev_init = replicate MAX_EVENT None" "\<not> handlers_initialized ev_init" "agents ev_init = []"
    by (simp_all add: ev_init_def)
  have h1: "handlers st1 = replicate MAX_EVENT None" "\<not> handlers_initialized st1"
    using 1 create_frame(1) [of "le_home le" "le_local le" "le_local_alloc le" ev_init r st1] i by (auto split: if_splits)
  have h2: "handlers st2 = replicate MAX_EVENT None" "\<not> handlers_initialized st2"
    using 2 h1 create_frame(2) [of "le_ipv4 le" "le_ipv4_alloc le" st1 0 st2] by (auto split: if_splits)
  have st: "st = (authenticate_clients (ao_dopasswords o1) st2)\<lparr>handlers := agent_table, handlers_initialized := True\<rparr>"
    using 3 register_agent_ok [of "authenticate_clients (ao_dopasswords o1) st2"] h2 by (simp add: authenticate_clients_def)
  have auth: "authenticating_clients st = (if ?p \<in> set opts then 1 else 0)"
    by (simp add: st v authenticating_clients_def authenticate_clients_def count_list_0_iff)
  have l1: "if asks_local opts \<and> r = 0 then listens AGENT_TYPE_LOCAL (sk_socket (le_local le)) [] st1 else agents st1 = []"
    using 1 create_result(1) [of "le_home le" "le_local le" "le_local_alloc le" ev_init r st1] i by (auto split: if_splits)
  have "\<exists>before. (if asks_ipv4 opts then listens AGENT_TYPE_IPV4 (sk_socket (le_ipv4 le)) before st2
      else listens AGENT_TYPE_LOCAL (sk_socket (le_local le)) before st2) \<and>
      length before \<le> (if asks_ipv4 opts \<and> asks_local opts then 1 else 0)"
  proof (cases "asks_ipv4 opts")
    case True
    then have "listens AGENT_TYPE_IPV4 (sk_socket (le_ipv4 le)) (agents st1) st2"
      using 2 create_result(2) [of "le_ipv4 le" "le_ipv4_alloc le" st1 0 st2] by simp
    moreover have "length (agents st1) \<le> (if asks_local opts then 1 else 0)"
      using l1 by (auto simp: listens_def split: if_splits)
    ultimately show ?thesis using True by auto
  next
    case False
    then have "asks_local opts" by (simp add: asks_ipv4_def)
    then show ?thesis using False 2 l1 by auto
  qed
  moreover have ls: "listens ty s b st = listens ty s b st2" for ty s b
    by (simp add: st listens_def authenticate_clients_def)
  ultimately have "\<exists>before. (if asks_ipv4 opts then listens AGENT_TYPE_IPV4 (sk_socket (le_ipv4 le)) before st
      else listens AGENT_TYPE_LOCAL (sk_socket (le_local le)) before st) \<and>
      length before \<le> (if asks_ipv4 opts \<and> asks_local opts then 1 else 0)"
    by (simp only: ls)
  then show ?thesis using u o1(2) s auth st by auto
qed

definition sample_listen :: listen_env where
  "sample_listen =
     (let sk = \<lparr>sk_socket = 4, sk_bind1 = 0, sk_bind2 = 0, sk_listen = 0\<rparr> in
      \<lparr>le_home = None, le_local = sk, le_local_alloc = demo_alloc 9 7, le_ipv4 = sk, le_ipv4_alloc = demo_alloc 9 7\<rparr>)"

text \<open>Without a home there is no local socket; asked for both kinds, the agent starts all the same.\<close>

lemma local_failure_hidden:
  "c \<in> {CHR ''a'', CHR ''n''} \<Longrightarrow> \<exists>st. agent_start sample_listen 0 [c] False ev_init = Ret st"
  "agent_start sample_listen 0 ''l'' False ev_init = Exit 1"
proof -
  have "\<exists>st. create_ipv4 (le_ipv4 sample_listen) (le_ipv4_alloc sample_listen) (ev_init :: agent_handler ev_state) = Ret (0, st)"
    by (simp add: sample_listen_def create_ipv4_def make_ipv4_socket_def link_agent_def new_agent_def demo_alloc_def
        ev_init_def cheops_io_add_def io_grow_def io_init_def Let_def GROW_SHRINK_SIZE_def aset_def
        aget_def resize_def word_gt_0 deref_def)
  then obtain st where st: "create_ipv4 (le_ipv4 sample_listen) (le_ipv4_alloc sample_listen) (ev_init :: agent_handler ev_state) = Ret (0, st)" by blast
  have "handlers st = replicate MAX_EVENT None" "\<not> handlers_initialized st"
    using create_frame(2) [OF st] by (simp_all add: ev_init_def)
  then have r: "\<exists>st'. register_agent_handlers (authenticate_clients v st) = Ret st'" for v
    using register_agent_ok [of "authenticate_clients v st"] by (simp add: authenticate_clients_def)
  have local: "create_local (le_home sample_listen) (le_local sample_listen) (le_local_alloc sample_listen)
      (ev_init :: agent_handler ev_state) = Ret (- 1, ev_init)"
    by (simp add: create_local_def sample_listen_def get_local_name_def Let_def ev_init_def)
  have t: "listen_type \<lparr>ao_all = 1, ao_ipv4 = 0, ao_local = 0, ao_dopasswords = 0\<rparr> = 3"
    "listen_type \<lparr>ao_all = 0, ao_ipv4 = 1, ao_local = 0, ao_dopasswords = 0\<rparr> = 2"
    "listen_type \<lparr>ao_all = 0, ao_ipv4 = 0, ao_local = 1, ao_dopasswords = 0\<rparr> = 1"
    by (simp_all add: listen_type_def AGENT_TYPE_LOCAL_def AGENT_TYPE_IPV4_def)
  show "c \<in> {CHR ''a'', CHR ''n''} \<Longrightarrow> \<exists>st. agent_start sample_listen 0 [c] False ev_init = Ret st"
    using r by (auto simp: agent_start_def no_options_def do_it_def event_create_agent_def t local st AGENT_TYPE_LOCAL_def AGENT_TYPE_IPV4_def)
  show "agent_start sample_listen 0 ''l'' False ev_init = Exit 1"
    by (simp add: agent_start_def no_options_def do_it_def event_create_agent_def t local AGENT_TYPE_LOCAL_def AGENT_TYPE_IPV4_def)
qed

lemma agent_serves_witness:
  "\<exists>st. agent_start sample_listen 0 ''n'' False ev_init = Ret st \<and> handlers st = agent_table \<and>
     authenticating_clients st = 0 \<and> listens AGENT_TYPE_IPV4 4 [] st"
proof -
  obtain st where st: "agent_start sample_listen 0 ''n'' False ev_init = Ret st" using local_failure_hidden(1) by blast
  have a: "asks_ipv4 ''n''" "\<not> asks_local ''n''" by (simp_all add: asks_ipv4_def asks_local_def)
  from agent_serves [OF st] a have "handlers st = agent_table" "authenticating_clients st = 0"
    "\<exists>before. listens AGENT_TYPE_IPV4 (sk_socket (le_ipv4 sample_listen)) before st \<and> length before \<le> 0" by simp_all
  moreover have "sk_socket (le_ipv4 sample_listen) = 4" by (simp add: sample_listen_def Let_def)
  ultimately show ?thesis using st by auto
qed

section \<open>The loop and the timers\<close>

lemma wait_value:
  assumes "normal now" "0 \<le> tv_usec t" "tv_usec t \<le> 1000000" "sd_when s = t" "schedq st = s # rest"
    "\<bar>tv_us t - tv_us now\<bar> \<le> 2147000000000"
  shows "cheops_sched_wait (Some now) st = max 0 ((tv_sec t - tv_sec now) * 1000 + (tv_usec t - tv_usec now) sdiv 1000)"
proof -
  define ds where "ds = tv_sec t - tv_sec now"
  define du where "du = tv_usec t - tv_usec now"
  have D: "tv_us t - tv_us now = ds * 1000000 + du"
    by (simp add: tv_us_def ds_def du_def algebra_simps)
  have du: "- 1000000 < du" "du \<le> 1000000" using assms(1-3) by (auto simp: normal_def du_def)
  have q: "du sdiv 1000 * 1000 + du smod 1000 = du" "\<bar>du smod 1000\<bar> < 1000"
    using sdiv_smod [of du 1000] smod_bound [of 1000 du] by auto
  have ds: "- 2147002 < ds" "ds < 2147002" using assms(6) du unfolding D by linarith+
  have "to_int32 (ds * 1000) = ds * 1000" using ds by (intro to_int32_id) auto
  moreover have "to_int32 (ds * 1000 + du sdiv 1000) = ds * 1000 + du sdiv 1000"
    using q du ds assms(6) unfolding D by (intro to_int32_id) linarith+
  ultimately show ?thesis
    using assms(4,5) by (simp add: cheops_sched_wait_def Let_def flip: ds_def du_def)
qed

text \<open>
  Dividing by 1000 loses up to a millisecond of the wait, and the millisecond that \<^verbatim>\<open>cheops_sched_runq\<close>
  adds to the time makes up for it, also across the end of a second.
\<close>

lemma timeout_due:
  assumes "normal now" "0 \<le> tv_usec (sd_when s)" "tv_usec (sd_when s) \<le> 1000000" "normal tv"
    "tv_us now + 1000 * max 0 ((tv_sec (sd_when s) - tv_sec now) * 1000 + (tv_usec (sd_when s) - tv_usec now) sdiv 1000) \<le> tv_us tv"
  shows "due tv s"
proof -
  define du where "du = tv_usec (sd_when s) - tv_usec now"
  have "0 \<le> du \<Longrightarrow> du sdiv 1000 = du div 1000" "du < 0 \<Longrightarrow> du sdiv 1000 = - ((- du) div 1000)"
    by (auto simp: signed_divide_int_def sgn_if)
  then have q: "0 \<le> du \<Longrightarrow> 0 \<le> du sdiv 1000 \<and> du - 1000 < du sdiv 1000 * 1000 \<and> du sdiv 1000 * 1000 \<le> du" "du < 0 \<Longrightarrow> du \<le> du sdiv 1000 * 1000"
    by linarith+
  define X where "X = (tv_sec (sd_when s) - tv_sec now) * 1000 + du sdiv 1000"
  have "X \<le> max 0 X" by simp
  moreover have "tv_us now + 1000 * max 0 X \<le> tv_us tv" using assms(5) by (simp only: X_def du_def)
  ultimately have "tv_us now + 1000 * X \<le> tv_us tv" by linarith
  then have le: "tv_us now + (tv_sec (sd_when s) - tv_sec now) * 1000000 + du sdiv 1000 * 1000 \<le> tv_us tv"
    by (simp add: X_def algebra_simps)
  show ?thesis
  proof (cases "0 \<le> du")
    case True
    then show ?thesis
      using q(1) le assms(1-4) by (auto simp: due_def less_timeval_iff tv_us_def normal_def du_def)
  next
    case False
    then show ?thesis
      using q(2) le assms(1-4) by (auto simp: due_def less_timeval_iff tv_us_def normal_def du_def)
  qed
qed

text \<open>A timer that is due when the queue is run is the first that is run, whatever callbacks and clock do after it.\<close>

lemma runq_due_first:
  assumes "schedq st = s # rest" "clk e = (Some tv, e1)" "due tv s"
  shows "cheops_sched_runq (Suc m) clk cb x (st, e) =
    cheops_sched_runq m clk cb (x + 1) (runq_one clk cb s (st\<lparr>schedq := rest, schedcnt := schedcnt st - 1\<rparr>, e1))"
  using assms by (simp add: due_def Let_def)

text \<open>
  C39. A round of the main loop in which nothing arrives: when \<^verbatim>\<open>poll\<close> has waited as long as it was
  told to, the timer it waited for is due, and it is run first, in this round and not a round too
  late, whatever the callbacks do and the clock shows from then on. When moreover the clock stands
  still while the queue is run, and the callbacks leave the scheduler alone and return what depends on
  their arguments only, the round returns, it has run exactly the timers that were due, in the order
  of their deadlines, and it leaves no timer due. Without these two conditions a timer with a short
  period, such as that of \<^verbatim>\<open>ping_send\<close>, can be due again in the same run of the queue. All periods are
  at least a millisecond, and deadlines at most 2147000 seconds away.
\<close>

theorem main_round_timer:
  assumes "sched_inv (mw_sched w)" "schedq (mw_sched w) = s # rest" "length (schedq (mw_sched w)) \<le> m"
    "\<forall>s \<in> set (schedq (mw_sched w)). 1 \<le> sd_resched s"
    "normal now" "normal tv" "0 \<le> tv_usec (sd_when s)" "tv_usec (sd_when s) \<le> 1000000"
    "\<bar>tv_us (sd_when s) - tv_us now\<bar> \<le> 2147000000000"
    "me_now env (mw_rest w) = Some now" "waittime = cheops_sched_wait (Some now) (mw_sched w)"
    "me_poll env waittime (mw_rest w) = (0, evs, e)" "tv_us now + 1000 * waittime \<le> tv_us tv"
    "me_clock env (set_revents evs (mw_io w), e) = (Some tv, y)"
  shows "due tv s \<and>
    main_round n (Suc m) env w =
      (case cheops_sched_runq m (me_clock env) (me_sched_cb env) 1
              (runq_one (me_clock env) (me_sched_cb env) s
                ((mw_sched w)\<lparr>schedq := rest, schedcnt := schedcnt (mw_sched w) - 1\<rparr>, y)) of
         None \<Rightarrow> NoFuel
       | Some (x, s, io, e) \<Rightarrow> Ret \<lparr>mw_sched = s, mw_io = io, mw_rest = e\<rparr>) \<and>
    ((\<forall>x. me_clock env x = (Some tv, x)) \<and> (\<forall>c d st x. me_sched_cb env c d (st, x) = (ret c d, st, obs c d x)) \<longrightarrow>
     (\<exists>w'. main_round n (Suc m) env w = Ret w' \<and> sched_inv (mw_sched w') \<and>
       (mw_io w', mw_rest w') = fold (\<lambda>s. obs (sd_callback s) (sd_data s)) (filter (due tv) (schedq (mw_sched w))) (set_revents evs (mw_io w), e) \<and>
       (\<forall>t \<in> set (schedq (mw_sched w')). \<not> due tv t)))"
proof -
  let ?q = "schedq (mw_sched w)"
  have d: "due tv s"
    using timeout_due [OF assms(5,7,8,6)] assms(13) wait_value [OF assms(5,7,8) refl assms(2,9)] by (simp add: assms(11))
  have round: "main_round n (Suc m) env w =
      (case cheops_sched_runq (Suc m) (me_clock env) (me_sched_cb env) 0 (mw_sched w, set_revents evs (mw_io w), e) of
         None \<Rightarrow> NoFuel
       | Some (x, s, io, e) \<Rightarrow> Ret \<lparr>mw_sched = s, mw_io = io, mw_rest = e\<rparr>)"
    by (simp add: main_round_def Let_def assms(10) assms(11) [symmetric] assms(12) cheops_io_wait_def del: cheops_sched_runq.simps)
  have first: "main_round n (Suc m) env w =
      (case cheops_sched_runq m (me_clock env) (me_sched_cb env) 1
              (runq_one (me_clock env) (me_sched_cb env) s
                ((mw_sched w)\<lparr>schedq := rest, schedcnt := schedcnt (mw_sched w) - 1\<rparr>, y)) of
         None \<Rightarrow> NoFuel
       | Some (x, s, io, e) \<Rightarrow> Ret \<lparr>mw_sched = s, mw_io = io, mw_rest = e\<rparr>)"
    unfolding round runq_due_first [where clk = "me_clock env", OF assms(2,14) d] by simp
  have still: "\<exists>w'. main_round n (Suc m) env w = Ret w' \<and> sched_inv (mw_sched w') \<and>
      (mw_io w', mw_rest w') = fold (\<lambda>s. obs (sd_callback s) (sd_data s)) (filter (due tv) ?q) (set_revents evs (mw_io w), e) \<and>
      (\<forall>t \<in> set (schedq (mw_sched w')). \<not> due tv t)"
    if clks: "\<forall>x. me_clock env x = (Some tv, x)" and cbs: "\<forall>c d st x. me_sched_cb env c d (st, x) = (ret c d, st, obs c d x)"
  proof -
    note so = sorted_due_filter [OF sched_invD(1) [OF assms(1)], of tv]
    have fuel: "length (takeWhile (due tv) ?q) < Suc m"
      using assms(3) length_takeWhile_le [of "due tv" ?q] by linarith
    have clk: "me_clock env x = (Some tv, x)" and cb: "me_sched_cb env c d (st, x) = (ret c d, st, obs c d x)" for c d st x
      using clks cbs by blast+
    from runq_still [of "me_clock env" tv "me_sched_cb env" ret obs, OF clk cb assms(6,1,4) fuel,
        of 0 "(set_revents evs (mw_io w), e)", unfolded so]
    obtain st' where r: "cheops_sched_runq (Suc m) (me_clock env) (me_sched_cb env) 0 (mw_sched w, set_revents evs (mw_io w), e) =
        Some (0 + int (length (filter (due tv) ?q)), st',
          fold (\<lambda>s. obs (sd_callback s) (sd_data s)) (filter (due tv) ?q) (set_revents evs (mw_io w), e))"
      "sched_inv st'" "schedq st' = fold schedule_ins (map (again_at tv) (filter (\<lambda>s. ret (sd_callback s) (sd_data s) \<noteq> 0)
          (filter (due tv) ?q))) (filter (\<lambda>s. \<not> due tv s) ?q)" by (elim exE conjE)
    have "set (fold schedule_ins xs q) = set xs \<union> set q" for xs q :: "('a, 'b) sched list"
      by (induction xs arbitrary: q) auto
    then have "set (schedq st') \<subseteq> again_at tv ` set ?q \<union> {t. \<not> due tv t}" unfolding r(3) by auto
    moreover have "\<not> due tv (again_at tv t)" if "t \<in> set ?q" for t using again_at_not_due [OF assms(6)] assms(4) that by blast
    ultimately have nd: "\<forall>t \<in> set (schedq st'). \<not> due tv t" by blast
    obtain io' e' where x: "fold (\<lambda>s. obs (sd_callback s) (sd_data s)) (filter (due tv) ?q) (set_revents evs (mw_io w), e) = (io', e')"
      by (cases "fold (\<lambda>s. obs (sd_callback s) (sd_data s)) (filter (due tv) ?q) (set_revents evs (mw_io w), e)")
    have "main_round n (Suc m) env w = Ret \<lparr>mw_sched = st', mw_io = io', mw_rest = e'\<rparr>"
      unfolding round r(1) by (simp add: x)
    then show ?thesis using r(2) nd x by (intro exI [of _ "\<lparr>mw_sched = st', mw_io = io', mw_rest = e'\<rparr>"]) simp
  qed
  show ?thesis using d first still by blast
qed

text \<open>A timer is due in two and a half seconds.\<close>

definition sample_main :: "(int, int, int, int, int list \<times> timeval) main_env" where
  "sample_main =
     \<lparr>me_now = (\<lambda>e. Some (snd e)), me_poll = (\<lambda>t e. (0, [], (fst e, TV 102 500000))),
      me_io_cb = (\<lambda>c h fd ev d w. Ret (1, w)), me_clock = (\<lambda>x. (Some (TV 102 500000), x)),
      me_sched_cb = (\<lambda>c d (st, io, e). (0, st, io, (fst e @ [c + d], snd e)))\<rparr>"

definition sample_state :: "(int, int, int, int, int list \<times> timeval) main_state" where
  "sample_state = \<lparr>mw_sched = two_timers\<lparr>schedq := tl (schedq two_timers), schedcnt := schedcnt two_timers - 1\<rparr>, mw_io = io_init, mw_rest = ([], TV 100 0)\<rparr>"

lemma main_round_timer_witness:
  "\<exists>w'. main_round 1 (Suc 1) sample_main sample_state = Ret w' \<and> fst (mw_rest w') = [3]"
proof -
  let ?s = "\<lparr>sd_id = 1, sd_when = TV 102 500000, sd_resched = 2500, sd_data = 2, sd_callback = 1\<rparr> :: (int, int) sched"
  have q: "schedq (mw_sched sample_state) = [?s]" by (simp add: sample_state_def two_timers_queue)
  have "sched_inv two_timers" by (rule two_timers_inv)
  from sched_inv_pop(1) [OF this two_timers_queue] have inv: "sched_inv (mw_sched sample_state)"
    by (simp add: sample_state_def two_timers_queue)
  have e: "mw_rest sample_state = ([], TV 100 0)" by (simp add: sample_state_def)
  have w: "cheops_sched_wait (Some (TV 100 0)) (mw_sched sample_state) = 2500"
    by (simp add: cheops_sched_wait_def q) code_simp
  have d: "due (TV 102 500000) ?s" by (simp add: due_def less_timeval_iff)
  have "\<exists>w'. main_round 1 (Suc 1) sample_main sample_state = Ret w' \<and> sched_inv (mw_sched w') \<and>
      (mw_io w', mw_rest w') = fold (\<lambda>s. (\<lambda>c d (io, e). (io, fst e @ [c + d], snd e)) (sd_callback s) (sd_data s))
        (filter (due (TV 102 500000)) (schedq (mw_sched sample_state))) (set_revents [] (mw_io sample_state), ([], TV 102 500000)) \<and>
      (\<forall>t \<in> set (schedq (mw_sched w')). \<not> due (TV 102 500000) t)"
    by (rule main_round_timer [where s = ?s and rest = "[]" and now = "TV 100 0" and ret = "\<lambda>c d. 0" and waittime = 2500
        and obs = "\<lambda>c d (io, e). (io, fst e @ [c + d], snd e)" and tv = "TV 102 500000", THEN conjunct2, THEN conjunct2, THEN mp])
      (use inv w in \<open>simp_all add: q e normal_def tv_us_def sample_main_def\<close>)
  then show ?thesis by (auto simp: q d)
qed

end
