(* ===== verification/Gui_Io.thy ===== *)
theory Gui_Io
  imports Event_Agents
begin

text \<open>
  The watched descriptors of the client, \<^verbatim>\<open>gui-io.c\<close>, which stands in for \<^verbatim>\<open>io.c\<close> there: a list of
  entries at addresses, each with the number that the window system gave it. That number is the
  handle; it and the result of \<^verbatim>\<open>malloc\<close> are arguments. The same contract as that of \<^theory_text>\<open>Io\<close> is
  shown for it.
\<close>

section \<open>Operations\<close>

record ('c, 'd) gtk_cheops_list =
  gl_fd :: int
  gl_callback :: "'c option"
  gl_events :: u16
  gl_data :: 'd
  gl_id :: nat

type_synonym ('c, 'd) gio = "(nat \<times> ('c, 'd) gtk_cheops_list) list"

definition gtk_io_add ::
  "nat option \<Rightarrow> nat \<Rightarrow> int \<Rightarrow> 'c option \<Rightarrow> u16 \<Rightarrow> 'd \<Rightarrow> ('c, 'd) gio \<Rightarrow> (nat \<times> ('c, 'd) gio) outcome" where
  "gtk_io_add p gdk_id fd callback events data xs =
     (case p of
        None \<Rightarrow> UB
      | Some a \<Rightarrow>
          Ret (gdk_id, (a, \<lparr>gl_fd = fd, gl_callback = callback, gl_events = events, gl_data = data, gl_id = gdk_id\<rparr>) # xs))"

definition gtk_io_remove :: "nat \<Rightarrow> ('c, 'd) gio \<Rightarrow> int \<times> ('c, 'd) gio" where
  "gtk_io_remove i xs =
     (if \<exists>(a, l) \<in> set xs. gl_id l = i then (0, remove_first (\<lambda>(a, l). gl_id l = i) xs) else (-1, xs))"

text \<open>
  What the window system calls for an entry. The walk goes on behind the callback, over the entry
  that was called; what the callback returns is dropped.
\<close>

fun gtk_cheops_io_std_callback ::
  "('c \<Rightarrow> nat \<Rightarrow> int \<Rightarrow> u16 \<Rightarrow> 'd \<Rightarrow> ('c, 'd) gio \<times> 'e \<Rightarrow> (int \<times> ('c, 'd) gio \<times> 'e) outcome) \<Rightarrow> nat
     \<Rightarrow> ('c, 'd) gio \<Rightarrow> ('c, 'd) gio \<times> 'e \<Rightarrow> (('c, 'd) gio \<times> 'e) outcome" where
  "gtk_cheops_io_std_callback cb data [] w = Ret w"
| "gtk_cheops_io_std_callback cb data ((a, l) # ps) w =
     (if a = data
      then
        case gl_callback l of
          None \<Rightarrow> gtk_cheops_io_std_callback cb data ps w
        | Some c \<Rightarrow>
            obind (cb c (gl_id l) (gl_fd l) (gl_events l) (gl_data l) w) (\<lambda>(r, w).
              if a \<in> fst ` set (fst w) then gtk_cheops_io_std_callback cb data ps w else UB)
      else gtk_cheops_io_std_callback cb data ps w)"

section \<open>The contract\<close>

definition gio_ok :: "('c, 'd) gio \<Rightarrow> bool" where
  "gio_ok xs \<longleftrightarrow> distinct (map fst xs) \<and> distinct (map (\<lambda>(a, l). gl_id l) xs)"

definition gio_value :: "('c, 'd) gtk_cheops_list \<Rightarrow> int \<times> 'c option \<times> u16 \<times> 'd" where
  "gio_value l = (gl_fd l, gl_callback l, gl_events l, gl_data l)"

definition gio_look :: "('c, 'd) gio \<Rightarrow> nat \<Rightarrow> (int \<times> 'c option \<times> u16 \<times> 'd) option" where
  "gio_look xs = map_of (map (\<lambda>(a, l). (gl_id l, gio_value l)) xs)"

definition gio_add :: "nat \<Rightarrow> int \<times> 'c option \<times> u16 \<times> 'd \<Rightarrow> ('c, 'd) gio \<Rightarrow> ('c, 'd) gio option" where
  "gio_add i v xs =
     (case v of (fd, cb, ev, d) \<Rightarrow>
       case gtk_io_add (Some (Suc (sum_list (map fst xs)))) i fd cb ev d xs of Ret (_, ys) \<Rightarrow> Some ys | _ \<Rightarrow> None)"

definition gio_remove :: "nat \<Rightarrow> ('c, 'd) gio \<Rightarrow> ('c, 'd) gio option" where
  "gio_remove i xs = (case gtk_io_remove i xs of (r, ys) \<Rightarrow> if r = 0 then Some ys else None)"

lemma gio_look_None: "gio_look xs i = None \<longleftrightarrow> (\<forall>(a, l) \<in> set xs. gl_id l \<noteq> i)"
  by (induction xs) (auto simp: gio_look_def)

lemma fresh_address: "Suc (sum_list (map fst xs)) \<notin> fst ` set xs"
proof
  assume "Suc (sum_list (map fst xs)) \<in> fst ` set xs"
  then have "Suc (sum_list (map fst xs)) \<in> set (map fst xs)" by simp
  from member_le_sum_list [OF this] show False by simp
qed

lemma gio_remove_law:
  assumes "gio_ok xs" "gio_look xs i \<noteq> None"
  shows "\<exists>ys. gtk_io_remove i xs = (0, ys) \<and> gio_ok ys \<and> gio_look ys = (gio_look xs)(i := None)"
proof -
  let ?ys = "remove_first (\<lambda>(a, l). gl_id l = i) xs"
  have r: "gtk_io_remove i xs = (0, ?ys)" using assms(2) by (auto simp: gtk_io_remove_def gio_look_None)
  have s: "set ?ys \<subseteq> set xs" by (rule set_remove_first_subset)
  have "gio_ok ?ys \<and> (\<forall>j. gio_look ?ys j = ((gio_look xs)(i := None)) j)"
    using assms(1)
  proof (induction xs)
    case (Cons x xs)
    obtain a l where x: "x = (a, l)" by (cases x)
    have ok: "gio_ok xs" "a \<notin> fst ` set xs" "gl_id l \<notin> (\<lambda>(a, l). gl_id l) ` set xs"
      using Cons.prems by (auto simp: gio_ok_def x)
    have sub: "set (remove_first (\<lambda>(a, l). gl_id l = i) xs) \<subseteq> set xs" by (rule set_remove_first_subset)
    show ?case
    proof (cases "gl_id l = i")
      case True
      then have "gio_look xs i = None" using ok(3) by (force simp: gio_look_None)
      then show ?thesis using True ok(1) by (auto simp: x gio_look_def)
    next
      case False
      then show ?thesis using Cons.IH [OF ok(1)] ok(2,3) sub by (fastforce simp: x gio_look_def gio_ok_def)
    qed
  qed (simp add: gio_look_def gio_ok_def)
  then show ?thesis using r by auto
qed

interpretation giotab: handle_table gio_ok gio_look gio_add gio_remove
proof
  fix s t :: "('c, 'd) gio" and h v
  assume "gio_ok s" "gio_look s h = None" "gio_add h v s = Some t"
  moreover obtain fd cb ev d where v: "v = (fd, cb, ev, d)" by (cases v)
  moreover have "h \<notin> (\<lambda>(a, l). gl_id l) ` set s" using \<open>gio_look s h = None\<close> by (auto simp: gio_look_None)
  ultimately show "gio_ok t \<and> gio_look t = (gio_look s)(h \<mapsto> v)"
    using fresh_address [of s] by (auto simp: gio_add_def gtk_io_add_def gio_ok_def gio_look_def gio_value_def)
next
  fix s t :: "('c, 'd) gio" and h
  assume s: "gio_ok s" "gio_look s h \<noteq> None"
  from gio_remove_law [OF this] show "gio_remove h s \<noteq> None" by (auto simp: gio_remove_def)
  assume "gio_remove h s = Some t"
  with gio_remove_law [OF s] show "gio_ok t \<and> gio_look t = (gio_look s)(h := None)" by (auto simp: gio_remove_def)
qed

section \<open>Calling back\<close>

text \<open>A callback that keeps the entry is called once.\<close>

lemma std_callback_once:
  assumes "gio_ok xs" "(a, l) \<in> set xs" "gl_callback l = Some c"
    "cb c (gl_id l) (gl_fd l) (gl_events l) (gl_data l) w = Ret (r, w')" "a \<in> fst ` set (fst w')"
  shows "gtk_cheops_io_std_callback cb a xs w = Ret w'"
proof -
  have skip: "a \<notin> fst ` set ps \<Longrightarrow> gtk_cheops_io_std_callback cb a ps v = Ret v" for ps v
    by (induction ps) auto
  have "distinct (map fst xs)" using assms(1) by (simp add: gio_ok_def)
  then show ?thesis
    using assms(2)
  proof (induction xs)
    case (Cons x xs)
    obtain b m where x: "x = (b, m)" by (cases x)
    show ?case
    proof (cases "b = a")
      case True
      then have "m = l" "a \<notin> fst ` set xs" using Cons.prems x by force+
      then show ?thesis using True assms(3,4,5) by (simp add: x skip)
    next
      case False
      then show ?thesis using Cons by (simp add: x)
    qed
  qed simp
qed

text \<open>
  A callback that takes its own entry off, as that of a closed connection does when it destroys its
  agent: the walk goes on from memory that is free.
\<close>

lemma own_removal_dangles:
  "gtk_cheops_io_std_callback (\<lambda>c h fd ev d (xs, e). Ret (0, snd (gtk_io_remove h xs), e)) 16
     [(16, \<lparr>gl_fd = 5, gl_callback = Some HANDLE_AGENT, gl_events = 1, gl_data = 9, gl_id = 3\<rparr>)] ([(16, \<lparr>gl_fd = 5, gl_callback = Some HANDLE_AGENT, gl_events = 1, gl_data = (9 :: nat), gl_id = 3\<rparr>)], ()) = UB"
  by (simp add: gtk_io_remove_def)

end
