(* ===== verification/Spec2Isabelle.thy ===== *)
theory Spec2Isabelle
  imports Sched Cache Io Misc_Parse Ip_Utils Routes Event Event_Recv Event_Login Event_Agents Agent_Map Discover
    Os_Scan Probe Gui_Replies Monitoring Shell Services Settings_Lists Config_Pages Agent_Main Gui_Io
begin

text \<open>
  A verification development for cheops-ng, a network monitor written in C: an agent that runs as
  root on some host, discovers, maps, scans and probes the network around it, and clients that ask it
  to and show what it finds, a graphical one and a shell. The theories model the C sources file by
  file; the properties are numbered C1 to C40 and stand in the theory of the component they are about.

  \<^bold>\<open>The program and its parts.\<close> Both sides are single-threaded loops over callbacks. In the agent
  \<^verbatim>\<open>cheops_main\<close> waits in \<^verbatim>\<open>poll\<close> for as long as the timer queue allows (\<^verbatim>\<open>sched.c\<close>), calls back for
  the descriptors that are ready (\<^verbatim>\<open>io.c\<close>), and runs the timers that are due. The event layer
  (\<^verbatim>\<open>event.c\<close>), linked into both sides, keeps one \<^verbatim>\<open>agent\<close> for each connection, cuts the byte stream into
  events, holds back everything but a login from a connection that has to log in, and calls the
  handler that is registered for the type of the event. The handlers of the agent start a discovery
  (\<^verbatim>\<open>agent-discover.c\<close>), a route mapping (\<^verbatim>\<open>agent-map.c\<close>), a scan (\<^verbatim>\<open>agent-osscan.c\<close>, which runs
  \<^verbatim>\<open>nmap\<close> in a second thread) or a probe of a port (\<^verbatim>\<open>agent-probe.c\<close>), each of which goes on from timers
  and descriptors and sends replies that carry the pointer \<^verbatim>\<open>np\<close> of the page they are for. The handlers
  of the graphical client put the replies on that page (\<^verbatim>\<open>gui-handlers.c\<close>, \<^verbatim>\<open>gui-canvas.c\<close>) and ask for
  more, as the options say. The shell (\<^verbatim>\<open>cheops-sh.c\<close>) sends the same requests from commands.

  \<^bold>\<open>Theories.\<close>
  \<^item> Shared: \<^theory_text>\<open>Cheops_Prelude\<close> (word types, narrowing, byte order, outcomes, lists updated in place,
    C strings), \<^theory_text>\<open>Wire\<close> (\<^verbatim>\<open>event.h\<close>, \<^verbatim>\<open>cerror.c\<close>: events as bytes), \<^theory_text>\<open>C_Text\<close> (\<^verbatim>\<open>atoi\<close>, dotted addresses).
  \<^item> Timers and descriptors: \<^theory_text>\<open>Sched\<close> (\<^verbatim>\<open>sched.c\<close>: the queue \<^verbatim>\<open>schedq\<close>, the cache of entries and the
    count of \<open>sched_state\<close>), \<^theory_text>\<open>Io\<close> (\<^verbatim>\<open>io.c\<close>: the arrays \<^verbatim>\<open>fds\<close> and \<^verbatim>\<open>ior\<close> and the handles of \<open>io_state\<close>),
    \<^theory_text>\<open>Gui_Io\<close> (\<^verbatim>\<open>gui-io.c\<close>, the same contract in the client), \<^theory_text>\<open>Agent_Main\<close> (\<^verbatim>\<open>cheops-agent.c\<close>,
    \<^verbatim>\<open>cheops-main.c\<close>: the start of the agent and the loop over the two).
  \<^item> Helpers: \<^theory_text>\<open>Cache\<close> (\<^verbatim>\<open>cache.c\<close>), \<^theory_text>\<open>Misc_Parse\<close> (\<^verbatim>\<open>misc.c\<close>), \<^theory_text>\<open>Ip_Utils\<close> and \<^theory_text>\<open>Routes\<close> (\<^verbatim>\<open>ip_utils.c\<close>),
    \<^theory_text>\<open>Registry\<close> (\<^verbatim>\<open>script.c\<close> and the names of services of \<^verbatim>\<open>cheops-osscan.c\<close>).
  \<^item> Events: \<^theory_text>\<open>Event\<close> (\<^verbatim>\<open>event.c\<close>: agents, handlers, sending), \<^theory_text>\<open>Event_Recv\<close> (receiving, accepting,
    connecting), \<^theory_text>\<open>Event_Login\<close> (the gate), \<^theory_text>\<open>Event_Agents\<close> (no callback gets a freed agent).
  \<^item> The agent's work: \<^theory_text>\<open>Agent_Map\<close> (\<^verbatim>\<open>agent-map.c\<close>), \<^theory_text>\<open>Discover\<close> (\<^verbatim>\<open>agent-discover.c\<close>,
    \<^verbatim>\<open>agent-settings.c\<close>), \<^theory_text>\<open>Nmap\<close> (\<^verbatim>\<open>agent-nmapxml.c\<close>), \<^theory_text>\<open>Os_Scan\<close> (\<^verbatim>\<open>agent-osscan.c\<close>, and the client's
    unpacking of its replies), \<^theory_text>\<open>Probe\<close> (\<^verbatim>\<open>probe.c\<close>, \<^verbatim>\<open>agent-probe.c\<close>).
  \<^item> The pages of the client: \<^theory_text>\<open>Canvas\<close> (\<^verbatim>\<open>gui-canvas.c\<close>, \<^verbatim>\<open>gui-viewspace.c\<close>: objects and links in a heap,
    pages as lists of addresses), \<^theory_text>\<open>Canvas_Graph\<close> (the graph they stand for), \<^theory_text>\<open>Gui_Requests\<close>
    (requests of \<^verbatim>\<open>gui-handlers.c\<close> and the lookups of \<^verbatim>\<open>gui-dns.c\<close>), \<^theory_text>\<open>Gui_Replies\<close> (its handlers).
  \<^item> The rest of the clients: \<^theory_text>\<open>Monitoring\<close> (\<^verbatim>\<open>cheops-monitoring.c\<close>, \<^verbatim>\<open>gui-monitoring.c\<close>), \<^theory_text>\<open>Shell\<close>
    (\<^verbatim>\<open>cheops-sh.c\<close>, \<^verbatim>\<open>cheops-sh-guts.c\<close>), \<^theory_text>\<open>Services\<close> (\<^verbatim>\<open>gui-service.c\<close>), \<^theory_text>\<open>Settings\<close> and \<^theory_text>\<open>Settings_Lists\<close>
    (\<^verbatim>\<open>gui-settings.c\<close>, \<^verbatim>\<open>gui-pixmap.c\<close>), \<^theory_text>\<open>Config_Notes\<close>, \<^theory_text>\<open>Config\<close>, \<^theory_text>\<open>Config_Lists\<close>,
    \<^theory_text>\<open>Config_Hosts\<close> and \<^theory_text>\<open>Config_Pages\<close> (\<^verbatim>\<open>gui-config.c\<close>).

  \<^bold>\<open>Conventions.\<close> A definition has the name of the function, type or macro it models; the parts of a
  long function have names of their own. A C structure is a record, a linked list is a list in its
  order, and where pointers to the elements are kept elsewhere the list holds addresses and a map from
  addresses to records is the heap. Integers of a fixed width are words, or integers that are narrowed
  where C narrows them; the host is LP64 and little-endian, and an address is the word that the host
  sees when the bytes are in network order. A call that does not simply return is an \<open>outcome\<close>:
  \<open>Exit\<close> for \<^verbatim>\<open>exit\<close>, \<open>UB\<close> for an access outside an object or to a freed one. What the system, a
  library or the user answers (\<^verbatim>\<open>malloc\<close>, \<^verbatim>\<open>read\<close>, \<^verbatim>\<open>write\<close>, \<^verbatim>\<open>poll\<close>, the clock, the XML parser, the
  resolver, the widgets, the library that keeps the configuration) is an argument, so that a theorem
  holds for every answer that its hypotheses allow. SSL, monitoring and plugins are off in
  \<^verbatim>\<open>cheops-config.h\<close>; debug output is left out.

  \<^bold>\<open>Interfaces.\<close> A contract that several components rest on is a locale, interpreted on the model:
  \<open>timers\<close> (adding and deleting keep the queue in order) by \<^theory_text>\<open>Sched\<close>; \<open>handle_table\<close> (a table that
  gives out handles is a finite map) by the arrays of \<^theory_text>\<open>Io\<close> and by the list of \<^theory_text>\<open>Gui_Io\<close>; \<open>registry\<close>
  (what is found for a key after adding and removing) by the scripts and the probes; \<open>saved_list\<close>
  (what adding a saved entry comes to) by the pixmaps, the services and the scripts.

  \<^bold>\<open>What the lemmas show.\<close> For the timers: the queue is ordered and consistent with its count, exactly
  what is due runs, in order, when the clock stands still, and the main loop runs the timer it waited
  for. For the descriptors: the arrays refine a finite map, and no reachable table makes the loop use a
  freed handle. For the event layer: however the stream is cut into reads, the handlers get the events
  in order, nothing passes the gate before a login, and the list of agents, their cells and the table
  agree. For the work of the agent: a discovery whose timer is never lost pings every address of its
  range, a mapping reports the links of the path in order and ends, scans are answered in order with
  what was found, a probe never uses what it freed. For the client: the pages refine a graph, replies
  draw what was reported, the settings determine the command of the scanner, and what is saved comes
  back: options, lists, hosts, notes and links. Lemmas that show where the code does something else
  than it means to stand beside these, each after a text that says what happens.

  \<^bold>\<open>Limits of the properties.\<close> Where the code goes wrong outside some range, the property says so in its
  text, and a lemma shows what happens there. The ids of timers come from an \<^verbatim>\<open>int\<close>: \<open>sched_reach\<close> and
  the steps of \<^theory_text>\<open>Probe\<close> count the timers that were set, and C2 and C23 hold below 2147483647 of them
  (\<open>sched_counter_wraps\<close>). The routes are counted in a \<^verbatim>\<open>short\<close>, C9 holds below 32768
  (\<open>getlocalip_wraps\<close>). The runs \<open>ev_reach\<close> of the event layer have every way of opening, accepting,
  reading, failing and closing, but for a header that announces more than the buffer holds, after which
  an entry of the table points to a freed agent (\<open>oversize_dangles\<close>). A read of a probe that fills its
  2048 bytes writes behind them (\<open>read_fits\<close>, \<open>probe_full_buffer\<close>). The pages of C25, C27, C28 and C38
  have no merged hosts, since deleting one leaves a link that dangles. A discovery goes on for as long as
  the queue of the scheduler holds its timer, which two readings of the clock that are exactly 3000
  milliseconds apart take away (C18).

  \<^bold>\<open>Loops and fuel.\<close> A loop over a structure is recursion over it. A loop that nothing in the code bounds
  takes fuel, and running out of it is the value \<open>NoFuel\<close>, or \<^theory_text>\<open>None\<close> for \<^verbatim>\<open>cheops_sched_runq\<close>,
  which no property accepts for a result: the number of pending timers is enough for
  \<^verbatim>\<open>cheops_sched_runq\<close> when each is put off by a millisecond or more, the number of entries for the
  loop of \<^verbatim>\<open>cheops_io_wait\<close>, more than the size of the buffer for \<^verbatim>\<open>handle_agent\<close>, the number of agents for
  \<^verbatim>\<open>event_cleanup\<close>, the length of the line for \<^verbatim>\<open>parse\<close>, the addresses still to be pinged, and four
  for failures, for \<^verbatim>\<open>ping_send\<close>, the objects of a page for the chains of merged objects, the entries of the file and
  one more for the loops of \<^verbatim>\<open>read_config_file\<close>. What bounds a run of the main loop, of a discovery or
  of the dialog of the settings is the number of rounds, of turns of its timer or of buttons that are
  pressed.

  \<^bold>\<open>Not modelled.\<close> \<^verbatim>\<open>adns-1.0\<close> is a vendored library; its queries and answers are arguments. The building,
  laying out and drawing of widgets, menus, dialogs and help (\<^verbatim>\<open>cheops-gui.c\<close>, \<^verbatim>\<open>gui-utils.c\<close>,
  \<^verbatim>\<open>gui-help.c\<close>, most of \<^verbatim>\<open>gui-canvas.c\<close>, parts of \<^verbatim>\<open>gui-settings.c\<close>, \<^verbatim>\<open>gui-pixmap.c\<close> and
  \<^verbatim>\<open>gui-monitoring.c\<close>) are calls into GTK whose effect is on the screen. \<^verbatim>\<open>logger.c\<close> only prints.
  \<^verbatim>\<open>nmapxml.c\<close> is an old copy of \<^verbatim>\<open>agent-nmapxml.c\<close> that is not built, \<^verbatim>\<open>agent-adns.c\<close> is under
  \<^verbatim>\<open>#if 0\<close>, \<^verbatim>\<open>agent-auth.c\<close> has no code, and \<^verbatim>\<open>test-*.c\<close> try components by hand. The branches for
  FreeBSD and for SSL are not compiled. Of \<^verbatim>\<open>gui-config.c\<close>, the part of \<^verbatim>\<open>read_config_file\<close> that opens the
  pages is left out, and the hosts are put on a page of saved hosts; the canvas and the requests
  that go out for them are in \<^theory_text>\<open>Canvas\<close> and \<^theory_text>\<open>Gui_Replies\<close>. Threads are modelled where the program has them by design
  (\<^theory_text>\<open>Os_Scan\<close>, \<^theory_text>\<open>Services\<close>), as steps between which the mutexes allow a change, or, for the number of
  a thread that no mutex guards, as steps in any order; elsewhere an operation is one step.
\<close>

end
